(* ===== verification/Prelude.thy ===== *)
theory Prelude
  imports Main "HOL-Library.AList"
begin

text \<open>
  Vocabulary shared by every component: raised HTTP errors as values of a sum type, sequencing of
  fallible steps, loops whose body may raise, database tables as association lists keyed by the
  primary key, and fixed-point money with the rounding mode the services use.
\<close>

section \<open>Errors and fallible results\<close>

text \<open>
  A service raises \<open>HTTPException(status, detail)\<close>; a structured detail
  \<open>{"code": c, ...}\<close> is represented by its code. A flush that violates a unique constraint
  raises \<open>IntegrityError\<close>; a missing dictionary key \<open>KeyError\<close>; an index past the
  end of a list \<open>IndexError\<close>; an attribute of \<open>None\<close> \<open>AttributeError\<close>; \<open>next(...)\<close> without a default on an exhausted iterator \<open>StopIteration\<close>;
  \<open>scalar_one_or_none\<close> on several rows \<open>MultipleResultsFound\<close>;
  \<open>scalar_one\<close> on none \<open>NoResultFound\<close>.
\<close>

datatype error =
    HTTPException nat string
  | IntegrityError
  | KeyError
  | IndexError
  | AttributeError
  | StopIteration
  | ZeroDivisionError
  | TypeError
  | MultipleResultsFound
  | NoResultFound

type_synonym 'a result = "error + 'a"

abbreviation bad_request :: "string \<Rightarrow> 'a result" where
  "bad_request detail \<equiv> Inl (HTTPException 400 detail)"

abbreviation not_found :: "string \<Rightarrow> 'a result" where
  "not_found detail \<equiv> Inl (HTTPException 404 detail)"

abbreviation conflict :: "string \<Rightarrow> 'a result" where
  "conflict detail \<equiv> Inl (HTTPException 409 detail)"

abbreviation unprocessable :: "string \<Rightarrow> 'a result" where
  "unprocessable detail \<equiv> Inl (HTTPException 422 detail)"

text \<open>Sequencing: the continuation runs only if the first step did not raise.\<close>

definition and_then :: "'a result \<Rightarrow> ('a \<Rightarrow> 'b result) \<Rightarrow> 'b result" where
  "and_then r k = (case r of Inl e \<Rightarrow> Inl e | Inr x \<Rightarrow> k x)"

named_theorems result_simps

lemma and_then_Inl [simp, result_simps]: "and_then (Inl e) k = Inl e"
  by (simp add: and_then_def)

lemma and_then_Inr [simp, result_simps]: "and_then (Inr x) k = k x"
  by (simp add: and_then_def)

lemma and_then_eq_Inr [result_simps]:
  "and_then r k = Inr y \<longleftrightarrow> (\<exists>x. r = Inr x \<and> k x = Inr y)"
  by (cases r) auto

lemma and_then_eq_Inl [result_simps]:
  "and_then r k = Inl e \<longleftrightarrow> r = Inl e \<or> (\<exists>x. r = Inr x \<and> k x = Inl e)"
  by (cases r) auto

lemma if_Inl_eq_Inr [result_simps]:
  "(if b then Inl e else r) = Inr y \<longleftrightarrow> \<not> b \<and> r = Inr y"
  by simp

lemma and_then_cong [fundef_cong]:
  "r = r' \<Longrightarrow> (\<And>x. r' = Inr x \<Longrightarrow> k x = k' x) \<Longrightarrow> and_then r k = and_then r' k'"
  by (cases r') auto

text \<open>A guard that raises when its condition fails.\<close>

definition ensure :: "bool \<Rightarrow> error \<Rightarrow> unit result" where
  "ensure b e = (if b then Inr () else Inl e)"

lemma ensure_eq_Inr [simp, result_simps]: "ensure b e = Inr u \<longleftrightarrow> b"
  by (simp add: ensure_def)

lemma ensure_eq_Inl [simp, result_simps]: "ensure b e = Inl e' \<longleftrightarrow> \<not> b \<and> e' = e"
  by (auto simp: ensure_def)

text \<open>A \<open>for\<close> loop whose body changes the state and may raise.\<close>

fun for_each :: "('x \<Rightarrow> 's \<Rightarrow> 's result) \<Rightarrow> 'x list \<Rightarrow> 's \<Rightarrow> 's result" where
  "for_each body [] s = Inr s"
| "for_each body (x # xs) s = and_then (body x s) (for_each body xs)"

lemma for_each_invariant:
  assumes "for_each body xs s = Inr t" and "I s"
    and "\<And>x s s'. x \<in> set xs \<Longrightarrow> I s \<Longrightarrow> body x s = Inr s' \<Longrightarrow> I s'"
  shows "I t"
  using assms
proof (induction xs arbitrary: s)
  case Nil
  then show ?case by simp
next
  case (Cons x xs)
  from Cons.prems(1) obtain s' where s': "body x s = Inr s'" and rest: "for_each body xs s' = Inr t"
    by (auto simp: and_then_eq_Inr)
  have "I s'"
    using Cons.prems(2,3) s' by auto
  with rest show ?case
    by (rule Cons.IH) (use Cons.prems(3) in auto)
qed

lemma for_each_append:
  "for_each body (xs @ ys) s = and_then (for_each body xs s) (for_each body ys)"
proof (induction xs arbitrary: s)
  case Nil
  then show ?case by simp
next
  case (Cons x xs)
  then show ?case by (cases "body x s") auto
qed

section \<open>Tables\<close>

text \<open>
  A table is an association list from primary keys to rows, in insertion order. \<open>get\<close> is a select
  by primary key, \<open>put\<close> an update of a row (or, for a new key, an insert at the end), \<open>rows\<close> the
  rows a scan sees. \<open>next_id\<close> is the sequence behind the primary key.
\<close>

type_synonym 'r table = "(int \<times> 'r) list"

abbreviation get :: "'r table \<Rightarrow> int \<Rightarrow> 'r option" where
  "get t i \<equiv> map_of t i"

abbreviation put :: "int \<Rightarrow> 'r \<Rightarrow> 'r table \<Rightarrow> 'r table" where
  "put i r t \<equiv> AList.update i r t"

definition ids :: "'r table \<Rightarrow> int list" where
  "ids t = map fst t"

definition rows :: "'r table \<Rightarrow> 'r list" where
  "rows t = map snd t"

definition next_id :: "'r table \<Rightarrow> int" where
  "next_id t = foldr max (ids t) 0 + 1"

definition select_where :: "('r \<Rightarrow> bool) \<Rightarrow> 'r table \<Rightarrow> 'r list" where
  "select_where p t = filter p (rows t)"

definition table_ok :: "'r table \<Rightarrow> bool" where
  "table_ok t \<longleftrightarrow> distinct (ids t)"

lemma foldr_max_upper: "x \<in> set xs \<Longrightarrow> x \<le> foldr max xs (0::int)"
  by (induction xs) auto

lemma next_id_fresh: "i \<in> set (ids t) \<Longrightarrow> i < next_id t"
  using foldr_max_upper [of i "ids t"] by (simp add: next_id_def)

lemma get_next_id [simp]: "get t (next_id t) = None"
  using next_id_fresh [of "next_id t" t] by (auto simp: map_of_eq_None_iff ids_def)

lemma next_id_positive: "0 < next_id t"
proof -
  have "0 \<le> foldr max xs (0::int)" for xs
    by (induction xs) auto
  from this [of "ids t"] show ?thesis by (simp add: next_id_def)
qed

lemma get_put: "get (put i r t) j = (if j = i then Some r else get t j)"
  by (simp add: update_conv')

lemma get_put_same [simp]: "get (put i r t) i = Some r"
  by (simp add: get_put)

lemma get_put_other [simp]: "j \<noteq> i \<Longrightarrow> get (put i r t) j = get t j"
  by (simp add: get_put)

lemma table_ok_put [simp]: "table_ok t \<Longrightarrow> table_ok (put i r t)"
  by (simp add: table_ok_def ids_def distinct_update)

lemma put_fresh: "get t i = None \<Longrightarrow> put i r t = t @ [(i, r)]"
  by (induction t) (auto split: if_splits)

lemma rows_put_next: "rows (put (next_id t) r t) = rows t @ [r]"
  by (simp add: put_fresh rows_def)

lemma select_where_put_next:
  "select_where p (put (next_id t) r t) = select_where p t @ (if p r then [r] else [])"
  by (simp add: select_where_def rows_put_next)

lemma set_rows: "table_ok t \<Longrightarrow> r \<in> set (rows t) \<longleftrightarrow> (\<exists>i. get t i = Some r)"
  by (force simp: rows_def table_ok_def ids_def)

lemma get_in_rows: "get t i = Some r \<Longrightarrow> r \<in> set (rows t)"
  by (force simp: rows_def dest!: map_of_SomeD)

lemma rows_Nil [simp]: "rows [] = []"
  by (simp add: rows_def)

lemma table_ok_Nil [simp]: "table_ok []"
  by (simp add: table_ok_def ids_def)

text \<open>Sum of a measure over a table, and how one update changes it.\<close>

lemma sum_rows_put:
  assumes "table_ok t" and "get t i = Some old"
  shows "sum_list (map f (rows (put i r t))) = sum_list (map f (rows t)) - f old + (f r :: int)"
  using assms
proof (induction t)
  case Nil
  then show ?case by simp
next
  case (Cons p t)
  obtain k v where p: "p = (k, v)" by (cases p)
  show ?case
  proof (cases "k = i")
    case True
    with Cons.prems p show ?thesis by (simp add: rows_def)
  next
    case False
    with Cons.prems p have "table_ok t" and "get t i = Some old"
      by (auto simp: table_ok_def ids_def)
    with Cons.IH p False show ?thesis by (simp add: rows_def)
  qed
qed

text \<open>
  What every service relies on when it loads a row, changes it and writes it back: a read after a
  write sees the write, a read of another row does not, and keys stay unique.
\<close>

locale row_store =
  fixes lookup :: "'t \<Rightarrow> 'k \<Rightarrow> 'r option"
    and store :: "'k \<Rightarrow> 'r \<Rightarrow> 't \<Rightarrow> 't"
    and valid :: "'t \<Rightarrow> bool"
  assumes lookup_store: "lookup (store k r t) j = (if j = k then Some r else lookup t j)"
    and valid_store: "valid t \<Longrightarrow> valid (store k r t)"
begin

lemma store_store: "lookup (store k r (store k r' t)) = lookup (store k r t)"
  by (rule ext) (simp add: lookup_store)

lemma store_commute: "k \<noteq> l \<Longrightarrow> lookup (store k r (store l s t)) = lookup (store l s (store k r t))"
  by (rule ext) (auto simp: lookup_store)

text \<open>A loop that writes rows keeps validity and only touches the keys it writes.\<close>

lemma fold_store_other:
  "j \<notin> set (map fst ws) \<Longrightarrow> lookup (fold (\<lambda>(k, r). store k r) ws t) j = lookup t j"
  by (induction ws arbitrary: t) (auto simp: lookup_store)

lemma fold_store_valid: "valid t \<Longrightarrow> valid (fold (\<lambda>(k, r). store k r) ws t)"
  by (induction ws arbitrary: t) (auto simp: valid_store)

end

interpretation rs: row_store "\<lambda>t :: 'r table. map_of t" "AList.update" table_ok
  by unfold_locales (auto simp: get_put)

section \<open>Decimal rounding\<close>

text \<open>
  \<open>Decimal.quantize(..., ROUND_HALF_UP)\<close> rounds to the nearest multiple and a tie away from zero.
  \<open>round_div n d\<close> is that rounding of the exact quotient \<open>n/d\<close> (\<open>0 < d\<close>) to an integer;
  money is kept in hundredths, so quantizing to \<open>Decimal("0.01")\<close> is \<open>round_div\<close> of an exact
  fraction of a hundredth.
\<close>

definition round_div :: "int \<Rightarrow> int \<Rightarrow> int" where
  "round_div n d = (if n < 0 then - ((2 * (- n) + d) div (2 * d)) else (2 * n + d) div (2 * d))"

lemma round_div_nonneg: "0 < d \<Longrightarrow> 0 \<le> n \<Longrightarrow> 0 \<le> round_div n d"
  by (simp add: round_div_def pos_imp_zdiv_nonneg_iff)

lemma round_div_exact [simp]: "0 < d \<Longrightarrow> round_div (k * d) d = k"
proof -
  assume d: "0 < d"
  have "(2 * (k * d) + d) div (2 * d) = k" if "0 \<le> k" for k
  proof -
    have "(2 * (k * d) + d) div (2 * d) = (d + k * (2 * d)) div (2 * d)"
      by (simp add: algebra_simps)
    also have "\<dots> = k" using d by simp
    finally show ?thesis .
  qed
  from this [of k] this [of "- k"] d show ?thesis
    by (auto simp: round_div_def mult_less_0_iff)
qed

lemma round_div_mono:
  assumes "0 < d" and "m \<le> n" and "0 \<le> m"
  shows "round_div m d \<le> round_div n d"
  using assms by (simp add: round_div_def zdiv_mono1)

text \<open>The rounded value is within half a unit of the exact one.\<close>

lemma round_div_near:
  assumes "0 < d"
  shows "2 * \<bar>round_div n d * d - n\<bar> \<le> d"
proof -
  have half: "2 * \<bar>(2 * n + d) div (2 * d) * d - n\<bar> \<le> d" if "0 < d" for n d :: int
  proof -
    have split: "2 * n + d = (2 * d) * ((2 * n + d) div (2 * d)) + (2 * n + d) mod (2 * d)"
      by simp
    have "0 \<le> (2 * n + d) mod (2 * d)" and "(2 * n + d) mod (2 * d) < 2 * d"
      using that by simp_all
    with split show ?thesis by (simp add: algebra_simps abs_if)
  qed
  show ?thesis
  proof (cases "n < 0")
    case True
    from half [OF assms, of "- n"] True show ?thesis
      by (simp add: round_div_def abs_if algebra_simps split: if_splits)
  next
    case False
    with half [OF assms, of n] show ?thesis by (simp add: round_div_def)
  qed
qed

section \<open>Lists\<close>

lemma filter_empty_if: "(\<And>x. x \<in> set xs \<Longrightarrow> \<not> p x) \<Longrightarrow> filter p xs = []"
  by (induction xs) auto

lemma find_Some_mem: "find p xs = Some x \<Longrightarrow> x \<in> set xs \<and> p x"
  by (auto simp: find_Some_iff)

lemma filter_head: "filter p xs = y # ys \<Longrightarrow> y \<in> set xs \<and> p y"
  by (induction xs) (auto split: if_splits)

text \<open>Python's \<open>max(xs, key=...)\<close>: the first element whose key is greatest.\<close>

definition max_by :: "('a \<Rightarrow> 'k :: linorder) \<Rightarrow> 'a list \<Rightarrow> 'a option" where
  "max_by key xs = (case xs of [] \<Rightarrow> None
     | x # xs \<Rightarrow> Some (fold (\<lambda>y best. if key best < key y then y else best) xs x))"

lemma max_by_fold:
  "fold (\<lambda>y best. if key best < (key y :: 'k :: linorder) then y else best) xs b \<in> insert b (set xs)
   \<and> (\<forall>x \<in> insert b (set xs). key x \<le> key (fold (\<lambda>y best. if key best < key y then y else best) xs b))"
proof (induction xs arbitrary: b)
  case Nil
  then show ?case by simp
next
  case (Cons y xs)
  show ?case
    using Cons.IH [of y] Cons.IH [of b] by (cases "key b < key y") (auto dest: order_trans less_imp_le)
qed

lemma max_by_Some: "max_by key xs = Some m \<Longrightarrow> m \<in> set xs \<and> (\<forall>x \<in> set xs. key x \<le> key m)"
  using max_by_fold [of key "tl xs" "hd xs"]
  by (cases xs) (auto simp: max_by_def)

lemma max_by_Nil [simp]: "max_by key [] = None"
  by (simp add: max_by_def)

lemma max_by_None [simp]: "max_by key xs = None \<longleftrightarrow> xs = []"
  by (cases xs) (auto simp: max_by_def)

lemma max_by_member:
  assumes "q \<in> set xs"
  obtains m where "max_by key xs = Some m" "key q \<le> key m"
proof (cases "max_by key xs")
  case None
  with assms show thesis by simp
next
  case (Some m)
  with that max_by_Some [OF Some] assms show thesis by blast
qed

text \<open>The largest of the present values, as \<open>MAX\<close> and \<open>max(..., default=None)\<close> return it.\<close>

definition max_option :: "'k :: linorder list \<Rightarrow> 'k option" where
  "max_option xs = max_by id xs"

section \<open>Rows that know their key\<close>

definition has_id :: "('r \<Rightarrow> int) \<Rightarrow> 'r table \<Rightarrow> bool" where
  "has_id f t \<longleftrightarrow> table_ok t \<and> (\<forall>i r. get t i = Some r \<longrightarrow> f r = i)"

lemma has_id_put: "has_id f t \<Longrightarrow> f r = i \<Longrightarrow> has_id f (put i r t)"
  by (auto simp: has_id_def get_put)

lemma has_id_get: "has_id f t \<Longrightarrow> get t i = Some r \<Longrightarrow> f r = i"
  by (simp add: has_id_def)

lemma has_id_rows: "has_id f t \<Longrightarrow> r \<in> set (rows t) \<Longrightarrow> get t (f r) = Some r"
  by (auto simp: has_id_def set_rows)

lemma has_id_rows_iff: "has_id f t \<Longrightarrow> r \<in> set (rows t) \<longleftrightarrow> get t (f r) = Some r"
  by (auto simp: has_id_rows intro: get_in_rows)

lemma has_id_inj: "has_id f t \<Longrightarrow> r \<in> set (rows t) \<Longrightarrow> q \<in> set (rows t) \<Longrightarrow> f r = f q \<Longrightarrow> r = q"
  by (metis has_id_rows option.inject)

lemma rows_put_iff:
  assumes "has_id f t" and "f r = i"
  shows "x \<in> set (rows (put i r t)) \<longleftrightarrow> x = r \<or> (x \<in> set (rows t) \<and> f x \<noteq> i)"
proof -
  have "x \<in> set (rows (put i r t)) \<longleftrightarrow> get (put i r t) (f x) = Some x"
    by (rule has_id_rows_iff [OF has_id_put [OF assms]])
  also have "\<dots> \<longleftrightarrow> (if f x = i then r = x else get t (f x) = Some x)"
    by (simp add: get_put)
  also have "\<dots> \<longleftrightarrow> x = r \<or> (get t (f x) = Some x \<and> f x \<noteq> i)"
    using assms(2) by auto
  finally show ?thesis by (simp only: has_id_rows_iff [OF assms(1)])
qed

text \<open>Deleting a row.\<close>

definition drop_row :: "int \<Rightarrow> 'r table \<Rightarrow> 'r table" where
  "drop_row i t = filter (\<lambda>(k, _). k \<noteq> i) t"

lemma rows_drop_row: "set (rows (drop_row i t)) \<subseteq> set (rows t)"
  by (auto simp: drop_row_def rows_def)

lemma get_drop_row: "get (drop_row i t) j = (if j = i then None else get t j)"
  by (induction t) (auto simp: drop_row_def)

lemma has_id_drop_row:
  assumes "has_id f t"
  shows "has_id f (drop_row i t)"
proof -
  have ok: "table_ok (drop_row i t)"
    using assms by (simp add: has_id_def table_ok_def ids_def drop_row_def distinct_map_filter)
  have "f r = k" if "get (drop_row i t) k = Some r" for k r
  proof -
    have "(k, r) \<in> set t" using map_of_SomeD [OF that] by (simp add: drop_row_def)
    then have "get t k = Some r"
      using assms by (intro map_of_is_SomeI) (simp_all add: has_id_def table_ok_def ids_def)
    with assms show ?thesis by (rule has_id_get)
  qed
  with ok show ?thesis by (simp add: has_id_def)
qed

definition delete_where :: "('r \<Rightarrow> bool) \<Rightarrow> 'r table \<Rightarrow> 'r table" where
  "delete_where p t = filter (\<lambda>(_, r). \<not> p r) t"

section \<open>Decimal digits\<close>

text \<open>\<open>str(n)\<close> of an integer.\<close>

definition digit :: "nat \<Rightarrow> char" where
  "digit n = ''0123456789'' ! n"

lemma digit_code: "n < 10 \<Longrightarrow> of_char (digit n) = 48 + n"
proof -
  assume "n < 10"
  then have "n = 0 \<or> n = 1 \<or> n = 2 \<or> n = 3 \<or> n = 4 \<or> n = 5 \<or> n = 6 \<or> n = 7 \<or> n = 8 \<or> n = 9" by arith
  then show ?thesis by (elim disjE) (simp_all add: digit_def)
qed

fun show_nat :: "nat \<Rightarrow> string" where
  "show_nat n = (if n < 10 then [digit n] else show_nat (n div 10) @ [digit (n mod 10)])"

declare show_nat.simps [simp del]

definition show_int :: "int \<Rightarrow> string" where
  "show_int i = (if i < 0 then ''-'' @ show_nat (nat (- i)) else show_nat (nat i))"

text \<open>Decimal digits determine the number.\<close>

definition read_nat :: "string \<Rightarrow> nat" where
  "read_nat = foldl (\<lambda>n c. 10 * n + (of_char c - 48)) 0"

lemma read_show_nat: "read_nat (show_nat n) = n"
proof (induction n rule: show_nat.induct)
  case (1 n)
  show ?case
  proof (cases "n < 10")
    case True
    then show ?thesis by (simp add: show_nat.simps [of n] read_nat_def digit_code)
  next
    case False
    with 1 have "read_nat (show_nat (n div 10)) = n div 10" by simp
    then show ?thesis using False by (simp add: show_nat.simps [of n] read_nat_def digit_code)
  qed
qed

lemma show_nat_head: "show_nat n \<noteq> [] \<and> hd (show_nat n) \<noteq> CHR ''-''"
proof (induction n rule: show_nat.induct)
  case (1 n)
  show ?case
  proof (cases "n < 10")
    case True
    have "of_char (digit n) \<noteq> (of_char (CHR ''-'') :: nat)" using True by (simp add: digit_code)
    then have "digit n \<noteq> CHR ''-''" by metis
    with True show ?thesis by (simp add: show_nat.simps [of n])
  next
    case False
    with 1 show ?thesis by (simp add: show_nat.simps [of n])
  qed
qed

lemma show_int_inj: "show_int i = show_int j \<longleftrightarrow> i = j"
proof
  assume eq: "show_int i = show_int j"
  have sign: "hd (show_int k) = CHR ''-'' \<longleftrightarrow> k < 0" for k
    using show_nat_head by (simp add: show_int_def)
  from eq sign have "i < 0 \<longleftrightarrow> j < 0" by metis
  with eq have "show_nat (nat \<bar>i\<bar>) = show_nat (nat \<bar>j\<bar>)" by (auto simp: show_int_def split: if_splits)
  then have "nat \<bar>i\<bar> = nat \<bar>j\<bar>" using read_show_nat by metis
  with \<open>i < 0 \<longleftrightarrow> j < 0\<close> show "i = j" by (auto split: if_splits)
qed simp

end
