(* ===== verification/Calendar.thy ===== *)
theory Calendar
  imports Prelude "HOL-Library.Product_Lexorder"
begin

text \<open>
  The calendar of \<^verbatim>\<open>app/services/booking.py\<close>: wall-clock time in Kyiv, working-day
  bounds, the availability horizon, the guards on an interval, the interval algebra (union,
  clipping, subtraction) and the generation of the bookable starts of a day.
\<close>

section \<open>Time\<close>

text \<open>
  A point on a clock is a number of microseconds, the resolution of \<open>datetime\<close>. A wall-clock
  point is \<open>ordinal * day + microseconds since midnight\<close>, where the ordinal of a date is
  \<open>date.toordinal()\<close>; an instant (a point of UTC, what the database stores) is counted the same
  way. A \<open>datetime\<close> is naive, aware in a foreign zone (known by its instant) or already aware in
  \<open>KYIV_TZ\<close> (known by its wall clock). The zone database is not part of the program: a \<open>zone\<close>
  supplies \<open>astimezone(KYIV_TZ)\<close> and the instant of a Kyiv wall clock.
\<close>

type_synonym date = int
type_synonym instant = int
type_synonym wall = int
type_synonym interval = "wall \<times> wall"

record zone =
  to_kyiv :: "instant \<Rightarrow> wall"
  to_utc :: "wall \<Rightarrow> instant"

datatype datetime = Naive wall | Aware instant | Kyiv wall

definition minute :: int where "minute = 60 * 1000000"
definition day :: int where "day = 24 * 60 * minute"

definition date_of :: "wall \<Rightarrow> date" where
  "date_of w = w div day"

definition WORK_START :: int where "WORK_START = (9 * 60 + 30) * minute"
definition WORK_END :: int where "WORK_END = 20 * 60 * minute"
definition SLOT_STEP :: int where "SLOT_STEP = 15 * minute"
definition AVAILABILITY_HORIZON_MONTHS :: int where "AVAILABILITY_HORIZON_MONTHS = 2"
definition CLOSED_WEEKDAYS :: "int list" where "CLOSED_WEEKDAYS = []"

lemmas time_consts = minute_def day_def WORK_START_def WORK_END_def SLOT_STEP_def

definition normalize_datetime :: "zone \<Rightarrow> datetime \<Rightarrow> wall" where
  "normalize_datetime z value =
     (case value of Naive w \<Rightarrow> w | Aware i \<Rightarrow> to_kyiv z i | Kyiv w \<Rightarrow> w)"

lemma normalize_simps [simp]:
  "normalize_datetime z (Naive w) = w"
  "normalize_datetime z (Aware i) = to_kyiv z i"
  "normalize_datetime z (Kyiv w) = w"
  by (simp_all add: normalize_datetime_def)

definition day_bounds :: "date \<Rightarrow> wall \<times> wall" where
  "day_bounds target_date = (target_date * day + WORK_START, target_date * day + WORK_END)"

subsection \<open>Civil dates\<close>

text \<open>\<open>datetime.date\<close> as the standard library computes it: years, months and ordinals.\<close>

type_synonym ymd = "int \<times> int \<times> int"

definition is_leap :: "int \<Rightarrow> bool" where
  "is_leap y \<longleftrightarrow> y mod 4 = 0 \<and> (y mod 100 \<noteq> 0 \<or> y mod 400 = 0)"

definition days_before_year :: "int \<Rightarrow> int" where
  "days_before_year year = (let y = year - 1 in y * 365 + y div 4 - y div 100 + y div 400)"

definition month_length :: "bool \<Rightarrow> int \<Rightarrow> int" where
  "month_length leap m =
     (if m = 2 then (if leap then 29 else 28)
      else if m = 4 \<or> m = 6 \<or> m = 9 \<or> m = 11 then 30 else 31)"

definition month_offset :: "bool \<Rightarrow> int \<Rightarrow> int" where
  "month_offset leap m =
     ([0, 0, 31, 59, 90, 120, 151, 181, 212, 243, 273, 304, 334] ! nat m)
       + (if 2 < m \<and> leap then 1 else 0)"

definition days_in_month :: "int \<Rightarrow> int \<Rightarrow> int" where
  "days_in_month y m = month_length (is_leap y) m"

definition days_before_month :: "int \<Rightarrow> int \<Rightarrow> int" where
  "days_before_month y m = month_offset (is_leap y) m"

fun toordinal :: "ymd \<Rightarrow> date" where
  "toordinal (y, m, d) = days_before_year y + days_before_month y m + d"

text \<open>Day \<open>n\<close> of a year, from zero, as month and day of the month.\<close>

definition month_split :: "bool \<Rightarrow> int \<Rightarrow> int \<times> int" where
  "month_split leap n =
     (let month = (n + 50) div 32; preceding = month_offset leap month
      in if preceding > n then (month - 1, n - (preceding - month_length leap (month - 1)) + 1)
         else (month, n - preceding + 1))"

definition fromordinal :: "date \<Rightarrow> ymd" where
  "fromordinal ordinal =
     (let n = ordinal - 1;
          n400 = n div 146097; n = n mod 146097;
          n100 = n div 36524; n = n mod 36524;
          n4 = n div 1461; n = n mod 1461;
          n1 = n div 365; n = n mod 365;
          year = n400 * 400 + 1 + n100 * 100 + n4 * 4 + n1
      in if n1 = 4 \<or> n100 = 4 then (year - 1, 12, 31)
         else (year, month_split (is_leap year) n))"

definition valid_ymd :: "ymd \<Rightarrow> bool" where
  "valid_ymd v = (case v of (y, m, d) \<Rightarrow> 1 \<le> m \<and> m \<le> 12 \<and> 1 \<le> d \<and> d \<le> days_in_month y m)"

fun add_calendar_months :: "ymd \<Rightarrow> int \<Rightarrow> ymd" where
  "add_calendar_months (y, m, d) months =
     (let month_index = m - 1 + months;
          year = y + month_index div 12;
          month = month_index mod 12 + 1;
          dd = min d (days_in_month year month)
      in (year, month, dd))"

definition today :: "zone \<Rightarrow> instant \<Rightarrow> date" where
  "today z now = date_of (to_kyiv z now)"

definition availability_horizon_end_date :: "zone \<Rightarrow> instant \<Rightarrow> date" where
  "availability_horizon_end_date z now =
     toordinal (add_calendar_months (fromordinal (today z now)) AVAILABILITY_HORIZON_MONTHS)"

definition weekday :: "date \<Rightarrow> int" where
  "weekday d = (d + 6) mod 7"

definition is_closed_business_day :: "date \<Rightarrow> bool" where
  "is_closed_business_day d \<longleftrightarrow> weekday d \<in> set CLOSED_WEEKDAYS"

section \<open>Guards on an interval\<close>

definition ensure_business_day_open :: "date \<Rightarrow> unit result" where
  "ensure_business_day_open d =
     (if is_closed_business_day d then bad_request ''Barbershop is closed on this day'' else Inr ())"

definition ensure_valid_interval :: "zone \<Rightarrow> datetime \<Rightarrow> datetime \<Rightarrow> interval result" where
  "ensure_valid_interval z start_at end_at =
     (let s = normalize_datetime z start_at; e = normalize_datetime z end_at
      in if s \<ge> e then bad_request ''start_at must be before end_at'' else Inr (s, e))"

definition ensure_within_working_hours :: "zone \<Rightarrow> datetime \<Rightarrow> datetime \<Rightarrow> unit result" where
  "ensure_within_working_hours z start_at end_at =
     and_then (ensure_valid_interval z start_at end_at) (\<lambda>(s, e).
     and_then (ensure_business_day_open (date_of s)) (\<lambda>_.
     let (day_start, day_end) = day_bounds (date_of s) in
     if date_of e \<noteq> date_of s \<or> s < day_start \<or> e > day_end
     then bad_request ''Booking must be within working hours 09:30-20:00 Europe/Kyiv''
     else Inr ()))"

definition ensure_within_open_business_days :: "zone \<Rightarrow> datetime \<Rightarrow> datetime \<Rightarrow> unit result" where
  "ensure_within_open_business_days z start_at end_at =
     and_then (ensure_valid_interval z start_at end_at) (\<lambda>(s, e).
     for_each (\<lambda>d _. ensure_business_day_open d) [date_of s .. date_of e] ())"

definition ensure_not_past :: "zone \<Rightarrow> instant \<Rightarrow> datetime \<Rightarrow> unit result" where
  "ensure_not_past z now start_at =
     (if normalize_datetime z start_at \<le> to_kyiv z now then bad_request ''Slot is in the past''
      else Inr ())"

definition ensure_availability_horizon :: "zone \<Rightarrow> instant \<Rightarrow> wall \<Rightarrow> wall \<Rightarrow> unit result" where
  "ensure_availability_horizon z now start_at end_at =
     (if date_of start_at < today z now \<or> date_of end_at > availability_horizon_end_date z now
      then bad_request ''Availability can only be opened within the next 2 months''
      else Inr ())"

definition ensure_valid_availability_window ::
  "zone \<Rightarrow> instant \<Rightarrow> datetime \<Rightarrow> datetime \<Rightarrow> interval result" where
  "ensure_valid_availability_window z now start_at end_at =
     and_then (ensure_valid_interval z start_at end_at) (\<lambda>(s, e).
     and_then (ensure_within_working_hours z (Kyiv s) (Kyiv e)) (\<lambda>_.
     and_then (ensure_availability_horizon z now s e) (\<lambda>_. Inr (s, e))))"

definition intervals_overlap :: "int \<Rightarrow> int \<Rightarrow> int \<Rightarrow> int \<Rightarrow> bool" where
  "intervals_overlap existing_start existing_end start_at end_at \<longleftrightarrow>
     existing_start < end_at \<and> existing_end > start_at"

section \<open>Interval algebra\<close>

fun merge_loop :: "interval list \<Rightarrow> interval list \<Rightarrow> interval list" where
  "merge_loop merged [] = merged"
| "merge_loop merged ((s, e) # intervals) =
     (if s \<ge> e then merge_loop merged intervals
      else if merged \<noteq> [] \<and> s \<le> snd (last merged)
      then merge_loop (butlast merged @ [(fst (last merged), max (snd (last merged)) e)]) intervals
      else merge_loop (merged @ [(s, e)]) intervals)"

definition merge_intervals :: "interval list \<Rightarrow> interval list" where
  "merge_intervals intervals = merge_loop [] (sort intervals)"

definition availability_intervals_from_pairs ::
  "zone \<Rightarrow> date \<Rightarrow> (datetime \<times> datetime) list \<Rightarrow> interval list" where
  "availability_intervals_from_pairs z target_date windows =
     (if is_closed_business_day target_date then []
      else let (day_start, day_end) = day_bounds target_date
           in merge_intervals
                (map (\<lambda>(s, e). (max (normalize_datetime z s) day_start,
                               min (normalize_datetime z e) day_end)) windows))"

text \<open>The inner loop over the occupied union, with its \<open>continue\<close> and \<open>break\<close>.\<close>

fun busy_loop :: "wall \<Rightarrow> interval list \<Rightarrow> wall \<Rightarrow> interval list \<Rightarrow> interval list \<times> wall" where
  "busy_loop e [] cursor free = (free, cursor)"
| "busy_loop e ((busy_start, busy_end) # occupied) cursor free =
     (if busy_end \<le> cursor then busy_loop e occupied cursor free
      else if busy_start \<ge> e then (free, cursor)
      else let free = (if busy_start > cursor then free @ [(cursor, busy_start)] else free);
               cursor = max cursor busy_end
           in if cursor \<ge> e then (free, cursor) else busy_loop e occupied cursor free)"

fun free_loop :: "interval list \<Rightarrow> interval list \<Rightarrow> interval list \<Rightarrow> interval list" where
  "free_loop occupied [] free = free"
| "free_loop occupied ((s, e) # available) free =
     (let (free, cursor) = busy_loop e occupied s free;
          free = (if cursor < e then free @ [(cursor, e)] else free)
      in free_loop occupied available free)"

definition free_calendar_intervals ::
  "zone \<Rightarrow> date \<Rightarrow> (datetime \<times> datetime) list \<Rightarrow> (datetime \<times> datetime) list \<Rightarrow> interval list" where
  "free_calendar_intervals z target_date availability_intervals busy_intervals =
     (let available = availability_intervals_from_pairs z target_date availability_intervals;
          occupied = merge_intervals
            (map (\<lambda>(s, e). (normalize_datetime z s, normalize_datetime z e)) busy_intervals)
      in free_loop occupied available [])"

section \<open>Bookable starts of a day\<close>

text \<open>
  The grid loop of one free interval. With \<open>stop_after_first\<close> the code returns the first start it
  meets; the early return is \<open>Inl\<close>, the starts collected so far are \<open>Inr\<close>.
\<close>

function grid_loop ::
  "bool \<Rightarrow> wall \<Rightarrow> int \<Rightarrow> wall \<Rightarrow> wall \<Rightarrow> wall list \<Rightarrow> wall + wall list" where
  "grid_loop stop now duration e current starts =
     (if current + duration \<le> e
      then if current > now
           then if stop then Inl current
                else grid_loop stop now duration e (current + SLOT_STEP) (starts @ [current])
           else grid_loop stop now duration e (current + SLOT_STEP) starts
      else Inr starts)"
  by pat_completeness auto
termination
  by (relation "measure (\<lambda>(stop, now, duration, e, current, starts). nat (e - duration - current + 1))")
     (auto simp: SLOT_STEP_def minute_def)

declare grid_loop.simps [simp del]

fun slot_loop ::
  "bool \<Rightarrow> wall \<Rightarrow> wall \<Rightarrow> int \<Rightarrow> interval list \<Rightarrow> wall list \<Rightarrow> wall list" where
  "slot_loop stop now day_start duration [] starts = sort (remdups starts)"
| "slot_loop stop now day_start duration ((s, e) # free) starts =
     (if s > now \<and> s + duration \<le> e \<and> stop then [s]
      else let starts = (if s > now \<and> s + duration \<le> e then starts @ [s] else starts);
               current = day_start + ((s - day_start) div SLOT_STEP) * SLOT_STEP;
               current = (if current < s then current + SLOT_STEP else current)
           in case grid_loop stop now duration e current starts of
                Inl first \<Rightarrow> [first]
              | Inr starts \<Rightarrow> slot_loop stop now day_start duration free starts)"

definition calendar_slot_starts ::
  "zone \<Rightarrow> instant \<Rightarrow> date \<Rightarrow> int \<Rightarrow> (datetime \<times> datetime) list \<Rightarrow> (datetime \<times> datetime) list
    \<Rightarrow> bool \<Rightarrow> wall list" where
  "calendar_slot_starts z now target_date duration availability_intervals busy_intervals stop_after_first =
     (let free = free_calendar_intervals z target_date availability_intervals busy_intervals;
          (day_start, _) = day_bounds target_date
      in slot_loop stop_after_first (to_kyiv z now) day_start duration free [])"


section \<open>Request-local calendar data\<close>

type_synonym day_map = "date \<Rightarrow> interval list option"

text \<open>A row of a calendar table: its master, start and end as read from the database.\<close>

type_synonym calendar_row = "int \<times> datetime \<times> datetime"

record calendar_range =
  availability_by_master_id :: "int \<Rightarrow> day_map option"
  busy_by_master_id :: "int \<Rightarrow> day_map option"

definition at_day :: "day_map \<Rightarrow> date \<Rightarrow> interval list" where
  "at_day g d = (case g d of None \<Rightarrow> [] | Some xs \<Rightarrow> xs)"

definition group_day :: "interval \<Rightarrow> date \<Rightarrow> day_map \<Rightarrow> day_map" where
  "group_day se d grouped =
     (let (day_start, day_end) = day_bounds d
      in if fst se < day_end \<and> snd se > day_start
         then grouped(d \<mapsto> at_day grouped d @ [se]) else grouped)"

definition group_interval ::
  "zone \<Rightarrow> date \<Rightarrow> date \<Rightarrow> datetime \<times> datetime \<Rightarrow> day_map \<Rightarrow> day_map" where
  "group_interval z start_date end_date raw grouped =
     (let s = normalize_datetime z (fst raw); e = normalize_datetime z (snd raw)
      in if s \<ge> e then grouped
         else fold (group_day (s, e))
                [max (date_of s) start_date .. min (date_of e) end_date] grouped)"

definition group_calendar_intervals_by_date ::
  "zone \<Rightarrow> (datetime \<times> datetime) list \<Rightarrow> date \<Rightarrow> date \<Rightarrow> day_map" where
  "group_calendar_intervals_by_date z intervals start_date end_date =
     (let grouped = fold (group_interval z start_date end_date) intervals Map.empty
      in (\<lambda>d. map_option sort (grouped d)))"

definition calendar_range_data ::
  "zone \<Rightarrow> int list \<Rightarrow> date \<Rightarrow> date \<Rightarrow> calendar_row list \<Rightarrow> calendar_row list \<Rightarrow> calendar_row list
    \<Rightarrow> calendar_range" where
  "calendar_range_data z calendar_master_ids start_date end_date availability_windows bookings blocks =
     (let of_master = (\<lambda>m items. map (\<lambda>(_, s, e). (s, e)) (filter (\<lambda>(i, _). i = m) items));
          grouped = (\<lambda>items m. if m \<in> set calendar_master_ids
             then Some (group_calendar_intervals_by_date z (of_master m items) start_date end_date)
             else None)
      in \<lparr>availability_by_master_id = grouped availability_windows,
          busy_by_master_id = grouped (bookings @ blocks)\<rparr>)"

definition as_kyiv :: "interval list \<Rightarrow> (datetime \<times> datetime) list" where
  "as_kyiv xs = map (\<lambda>(s, e). (Kyiv s, Kyiv e)) xs"

definition master_day :: "(int \<Rightarrow> day_map option) \<Rightarrow> int \<Rightarrow> date \<Rightarrow> (datetime \<times> datetime) list" where
  "master_day by_master m d = as_kyiv (case by_master m of None \<Rightarrow> [] | Some g \<Rightarrow> at_day g d)"

definition iter_calendar_slots ::
  "zone \<Rightarrow> instant \<Rightarrow> calendar_range \<Rightarrow> int \<Rightarrow> date \<Rightarrow> date \<Rightarrow> int \<Rightarrow> (date \<times> wall \<times> wall) list" where
  "iter_calendar_slots z now data calendar_master_id start_date end_date duration =
     concat (map (\<lambda>d. map (\<lambda>s. (d, s, s + duration))
       (calendar_slot_starts z now d duration
          (master_day (availability_by_master_id data) calendar_master_id d)
          (master_day (busy_by_master_id data) calendar_master_id d) False))
       [start_date .. end_date])"

definition calendar_slot_exists ::
  "zone \<Rightarrow> instant \<Rightarrow> calendar_range \<Rightarrow> int \<Rightarrow> date \<Rightarrow> int \<Rightarrow> bool" where
  "calendar_slot_exists z now data calendar_master_id target_date duration \<longleftrightarrow>
     calendar_slot_starts z now target_date duration
       (master_day (availability_by_master_id data) calendar_master_id target_date)
       (master_day (busy_by_master_id data) calendar_master_id target_date) True \<noteq> []"

chapter \<open>Facts\<close>

section \<open>Points covered\<close>

definition points :: "interval list \<Rightarrow> wall set" where
  "points xs = {t. \<exists>(s, e) \<in> set xs. s \<le> t \<and> t < e}"

definition separated :: "interval list \<Rightarrow> bool" where
  "separated xs \<longleftrightarrow> sorted_wrt (\<lambda>(s, e) (s', e'). e < s') xs \<and> (\<forall>(s, e) \<in> set xs. s < e)"

lemma points_Nil [simp]: "points [] = {}"
  by (simp add: points_def)

lemma points_Cons [simp]: "points ((s, e) # xs) = {s..<e} \<union> points xs"
  by (auto simp: points_def)

lemma points_append [simp]: "points (xs @ ys) = points xs \<union> points ys"
  by (auto simp: points_def)

lemma points_sort [simp]: "points (sort xs) = points xs"
  by (simp add: points_def)

lemma points_iff: "t \<in> points xs \<longleftrightarrow> (\<exists>s e. (s, e) \<in> set xs \<and> s \<le> t \<and> t < e)"
  by (auto simp: points_def)

lemma separated_Nil [simp]: "separated []"
  by (simp add: separated_def)

lemma separated_Cons: "separated ((s, e) # xs) \<longleftrightarrow> s < e \<and> (\<forall>(s', e') \<in> set xs. e < s') \<and> separated xs"
  by (auto simp: separated_def)

lemma separated_snoc:
  "separated (xs @ [(s, e)]) \<longleftrightarrow> separated xs \<and> s < e \<and> (\<forall>(s', e') \<in> set xs. e' < s)"
  by (auto simp: separated_def sorted_wrt_append)

lemma merge_loop_correct:
  assumes "sorted (map fst xs)" and "separated merged"
    and "\<And>x. x \<in> set xs \<Longrightarrow> merged \<noteq> [] \<Longrightarrow> fst (last merged) \<le> fst x"
  shows "separated (merge_loop merged xs) \<and> points (merge_loop merged xs) = points merged \<union> points xs"
  using assms
proof (induction merged xs rule: merge_loop.induct)
  case (1 merged)
  then show ?case by simp
next
  case (2 merged s e xs)
  have sorted: "sorted (map fst xs)" and later: "\<And>x. x \<in> set xs \<Longrightarrow> s \<le> fst x"
    using "2.prems"(1) by auto
  consider (empty) "s \<ge> e"
    | (extend) "\<not> s \<ge> e" "merged \<noteq> []" "s \<le> snd (last merged)"
    | (fresh) "\<not> s \<ge> e" "merged = [] \<or> snd (last merged) < s"
    by force
  then show ?case
  proof cases
    case empty
    then have "separated (merge_loop merged xs) \<and>
        points (merge_loop merged xs) = points merged \<union> points xs"
      using "2.IH"(1) sorted "2.prems"(2,3) by auto
    with empty show ?thesis by simp
  next
    case extend
    obtain ms a b where merged: "merged = ms @ [(a, b)]"
      using extend(2) by (metis prod.exhaust rev_exhaust)
    have ab: "separated ms" "a < b" "\<And>s' e'. (s', e') \<in> set ms \<Longrightarrow> e' < a"
      using "2.prems"(2) by (auto simp: merged separated_snoc)
    have as: "a \<le> s" using "2.prems"(3) [of "(s, e)"] by (simp add: merged)
    have sb: "s \<le> b" using extend(3) by (simp add: merged)
    have step: "separated (ms @ [(a, max b e)])"
      using ab by (auto simp: separated_snoc)
    have union: "{a..<b} \<union> {s..<e} = {a..<max b e}"
      using as sb extend(1) by auto
    have IH: "separated (merge_loop (ms @ [(a, max b e)]) xs) \<and>
        points (merge_loop (ms @ [(a, max b e)]) xs) = points (ms @ [(a, max b e)]) \<union> points xs"
      using "2.IH"(2) extend step later as sorted by (auto simp: merged dest: order_trans)
    have "points (ms @ [(a, max b e)]) \<union> points xs = points merged \<union> points ((s, e) # xs)"
      using union by (auto simp: merged)
    with IH extend show ?thesis by (simp add: merged)
  next
    case fresh
    have "separated (merged @ [(s, e)])"
    proof (cases merged rule: rev_cases)
      case Nil
      with fresh show ?thesis by (simp add: separated_def)
    next
      case (snoc ms l)
      obtain a b where l: "l = (a, b)" by (cases l)
      from fresh snoc l have "b < s" by simp
      with "2.prems"(2) fresh(1) snoc l show ?thesis
        by (fastforce simp: separated_def sorted_wrt_append)
    qed
    with fresh "2.IH"(3) sorted later show ?thesis by auto
  qed
qed

lemma sorted_map_fst: "sorted (xs :: interval list) \<Longrightarrow> sorted (map fst xs)"
  by (induction xs) (auto simp: less_eq_prod_def split: if_splits)

lemma merge_intervals_separated: "separated (merge_intervals xs)"
  and merge_intervals_points: "points (merge_intervals xs) = points xs"
  using merge_loop_correct [of "sort xs" "[]"] sorted_map_fst [OF sorted_sort [of xs]]
  by (simp_all add: merge_intervals_def)


definition close_free :: "wall \<Rightarrow> interval list \<times> wall \<Rightarrow> interval list" where
  "close_free e r = fst r @ (if snd r < e then [(snd r, e)] else [])"

lemma busy_loop_correct:
  assumes "separated occ"
  shows "\<exists>ext. close_free e (busy_loop e occ c free) = free @ ext \<and> separated ext
    \<and> points ext = {c..<e} - points occ \<and> (\<forall>(a, b) \<in> set ext. c \<le> a \<and> b \<le> e)"
  using assms
proof (induction e occ c free rule: busy_loop.induct)
  case (1 e c free)
  show ?case
    by (rule exI [of _ "if c < e then [(c, e)] else []"]) (auto simp: close_free_def separated_Cons)
next
  case (2 e bs be occ c free)
  have b: "bs < be" and later: "\<And>s' e'. (s', e') \<in> set occ \<Longrightarrow> be < s'" and occ: "separated occ"
    using "2.prems" by (auto simp: separated_Cons)
  have late_points: "\<And>t. t \<in> points occ \<Longrightarrow> be < t"
    using later by (auto simp: points_iff dest: less_le_trans)
  consider (skip) "be \<le> c" | (stop) "\<not> be \<le> c" "bs \<ge> e"
    | (last) "\<not> be \<le> c" "\<not> bs \<ge> e" "max c be \<ge> e"
    | (more) "\<not> be \<le> c" "\<not> bs \<ge> e" "\<not> max c be \<ge> e"
    by blast
  then show ?case
  proof cases
    case skip
    with "2.IH"(1) occ obtain ext where
      "close_free e (busy_loop e occ c free) = free @ ext" "separated ext"
      "points ext = {c..<e} - points occ" "\<forall>(a, b) \<in> set ext. c \<le> a \<and> b \<le> e"
      by auto
    moreover have "{c..<e} - points occ = {c..<e} - points ((bs, be) # occ)"
      using skip by auto
    ultimately show ?thesis using skip by auto
  next
    case stop
    have "{c..<e} - points ((bs, be) # occ) = {c..<e}"
      using stop b late_points by fastforce
    then show ?thesis
      using stop by (intro exI [of _ "if c < e then [(c, e)] else []"])
        (auto simp: close_free_def separated_Cons)
  next
    case last
    have "{c..<e} - points ((bs, be) # occ) = (if bs > c then {c..<bs} else {})"
      using last b by (auto simp: max_def dest!: late_points split: if_splits)
    then show ?thesis
      using last by (intro exI [of _ "if bs > c then [(c, bs)] else []"])
        (auto simp: close_free_def separated_Cons)
  next
    case more
    define gap where "gap = (if bs > c then [(c, bs)] else [])"
    have c': "max c be = be" using more by simp
    have step: "busy_loop e ((bs, be) # occ) c free = busy_loop e occ be (free @ gap)"
      using more by (simp add: gap_def Let_def max_def)
    have "\<exists>ext. close_free e (busy_loop e occ be (free @ gap)) = (free @ gap) @ ext \<and> separated ext
        \<and> points ext = {be..<e} - points occ \<and> (\<forall>(a, b) \<in> set ext. be \<le> a \<and> b \<le> e)"
      using "2.IH"(2) [OF more(1,2) refl refl more(3) occ] c' by (simp add: gap_def split: if_splits)
    then obtain ext where ext:
      "close_free e (busy_loop e occ be (free @ gap)) = (free @ gap) @ ext" "separated ext"
      "points ext = {be..<e} - points occ" "\<forall>(a, b) \<in> set ext. be \<le> a \<and> b \<le> e"
      by blast
    have "points (gap @ ext) = {c..<e} - points ((bs, be) # occ)"
      using more b by (auto simp: gap_def ext(3) max_def dest: late_points split: if_splits)
    moreover have "separated (gap @ ext)"
      using ext(2,4) more b by (auto simp: gap_def separated_Cons)
    moreover have "\<forall>(a, b) \<in> set (gap @ ext). c \<le> a \<and> b \<le> e"
      using ext(4) more b by (auto simp: gap_def)
    ultimately show ?thesis
      using ext(1) step by (intro exI [of _ "gap @ ext"]) simp
  qed
qed

lemma free_loop_correct:
  assumes "separated occ" and "separated avail"
  shows "\<exists>ext. free_loop occ avail free = free @ ext \<and> separated ext
    \<and> points ext = points avail - points occ
    \<and> (\<forall>(a, b) \<in> set ext. \<exists>(s, e) \<in> set avail. s \<le> a \<and> b \<le> e)"
  using assms
proof (induction avail arbitrary: free)
  case Nil
  then show ?case by simp
next
  case (Cons se avail)
  obtain s e where se: "se = (s, e)" by (cases se)
  from Cons.prems se have avail: "separated avail" "s < e" "\<And>s' e'. (s', e') \<in> set avail \<Longrightarrow> e < s'"
    by (auto simp: separated_Cons)
  obtain one where one: "close_free e (busy_loop e occ s free) = free @ one" "separated one"
    "points one = {s..<e} - points occ" "\<forall>(a, b) \<in> set one. s \<le> a \<and> b \<le> e"
    using busy_loop_correct [OF Cons.prems(1), of e s free] by blast
  obtain ext where ext: "free_loop occ avail (free @ one) = (free @ one) @ ext" "separated ext"
    "points ext = points avail - points occ"
    "\<forall>(a, b) \<in> set ext. \<exists>(s, e) \<in> set avail. s \<le> a \<and> b \<le> e"
    using Cons.IH [OF Cons.prems(1) avail(1)] by blast
  have "free_loop occ (se # avail) free = free_loop occ avail (free @ one)"
    using one(1) by (auto simp: se close_free_def split: prod.splits)
  moreover have "separated (one @ ext)"
    using one(2,4) ext(2,4) avail(3) unfolding separated_def sorted_wrt_append by fastforce
  moreover have "points (one @ ext) = points (se # avail) - points occ"
    using one(3) ext(3) by (auto simp: se)
  moreover have "\<forall>(a, b) \<in> set (one @ ext). \<exists>(s, e) \<in> set (se # avail). s \<le> a \<and> b \<le> e"
    using one(4) ext(4) by (fastforce simp: se)
  ultimately show ?case using ext(1) by (intro exI [of _ "one @ ext"]) simp
qed


lemma free_calendar_points:
  "points (free_calendar_intervals z d avail busy) =
     points (availability_intervals_from_pairs z d avail)
       - points (map (\<lambda>(s, e). (normalize_datetime z s, normalize_datetime z e)) busy)"
proof -
  let ?occ = "merge_intervals (map (\<lambda>(s, e). (normalize_datetime z s, normalize_datetime z e)) busy)"
  have "separated (availability_intervals_from_pairs z d avail)"
    by (simp add: availability_intervals_from_pairs_def merge_intervals_separated split: prod.splits)
  from free_loop_correct [OF merge_intervals_separated this, of _ "[]"]
  show ?thesis
    by (auto simp: free_calendar_intervals_def merge_intervals_points)
qed

lemma free_calendar_separated: "separated (free_calendar_intervals z d avail busy)"
proof -
  have "separated (availability_intervals_from_pairs z d avail)"
    by (simp add: availability_intervals_from_pairs_def merge_intervals_separated split: prod.splits)
  from free_loop_correct [OF merge_intervals_separated this, of _ "[]"]
  show ?thesis
    by (auto simp: free_calendar_intervals_def)
qed

lemma clipped_points:
  "t \<in> points (map (\<lambda>(s, e). (max (f s) a, min (g e) b)) ws) \<longleftrightarrow>
     a \<le> t \<and> t < b \<and> (\<exists>(s, e) \<in> set ws. f s \<le> t \<and> t < g e)"
  by (induction ws) auto

lemma availability_points:
  "t \<in> points (availability_intervals_from_pairs z d windows) \<longleftrightarrow>
     \<not> is_closed_business_day d \<and> fst (day_bounds d) \<le> t \<and> t < snd (day_bounds d)
     \<and> (\<exists>(s, e) \<in> set windows. normalize_datetime z s \<le> t \<and> t < normalize_datetime z e)"
  by (simp add: availability_intervals_from_pairs_def merge_intervals_points clipped_points
      split: prod.splits)

text \<open>An interval lies inside one piece of a separated union iff all its points do.\<close>

lemma separated_covers:
  assumes "separated xs" and "{s..<e} \<subseteq> points xs" and "s < e"
  shows "\<exists>(a, b) \<in> set xs. a \<le> s \<and> e \<le> b"
  using assms
proof (induction xs)
  case Nil
  then show ?case by auto
next
  case (Cons x xs)
  obtain a b where x: "x = (a, b)" by (cases x)
  have ab: "a < b" and later: "\<And>s' e'. (s', e') \<in> set xs \<Longrightarrow> b < s'" and sep: "separated xs"
    using Cons.prems(1) by (auto simp: x separated_Cons)
  have late: "\<And>t. t \<in> points xs \<Longrightarrow> b < t"
    using later by (auto simp: points_iff dest: less_le_trans)
  show ?case
  proof (cases "s < b")
    case True
    have "s \<in> points (x # xs)" using Cons.prems(2,3) by auto
    with True have "a \<le> s" by (auto simp: x dest: late)
    moreover have "e \<le> b"
    proof (rule ccontr)
      assume "\<not> e \<le> b"
      with True have "b \<in> {s..<e}" by simp
      with Cons.prems(2) have "b \<in> points (x # xs)" by blast
      then show False by (auto simp: x dest: late)
    qed
    ultimately show ?thesis by (auto simp: x)
  next
    case False
    with Cons.prems(2) have "{s..<e} \<subseteq> points xs" by (auto simp: x)
    from Cons.IH [OF sep this Cons.prems(3)] show ?thesis by auto
  qed
qed

section \<open>The grid\<close>

lemma SLOT_STEP_pos [simp]: "0 < SLOT_STEP"
  by (simp add: SLOT_STEP_def minute_def)

definition on_grid :: "wall \<Rightarrow> int \<Rightarrow> wall \<Rightarrow> wall \<Rightarrow> wall \<Rightarrow> bool" where
  "on_grid now duration e current t \<longleftrightarrow>
     now < t \<and> current \<le> t \<and> t + duration \<le> e \<and> (t - current) mod SLOT_STEP = 0"

lemma on_grid_step:
  "on_grid now duration e current t \<longleftrightarrow>
     (now < t \<and> t = current \<and> current + duration \<le> e)
     \<or> on_grid now duration e (current + SLOT_STEP) t"
proof -
  have "(t - (current + SLOT_STEP)) mod SLOT_STEP = (t - current) mod SLOT_STEP"
    by (metis diff_diff_eq minus_mod_self2)
  moreover have "t = current \<or> current + SLOT_STEP \<le> t"
    if "current \<le> t" and "(t - current) mod SLOT_STEP = 0"
  proof -
    have "SLOT_STEP dvd (t - current)" using that(2) by (simp add: mod_eq_0_iff_dvd)
    then show ?thesis
      using that(1) zdvd_imp_le [of SLOT_STEP "t - current"] by linarith
  qed
  moreover have "current \<le> t" if "current + SLOT_STEP \<le> t"
    using that SLOT_STEP_pos by linarith
  ultimately show ?thesis by (auto simp: on_grid_def)
qed

lemma grid_loop_collects:
  "\<exists>ss. grid_loop False now duration e current starts = Inr ss
     \<and> set ss = set starts \<union> {t. on_grid now duration e current t}"
proof (induction False now duration e current starts rule: grid_loop.induct)
  case (1 now duration e current starts)
  have none: "{t. on_grid now duration e current t} = {}" if "\<not> current + duration \<le> e"
    using that by (auto simp: on_grid_def)
  show ?case
    using 1 none grid_loop.simps [of False now duration e current starts]
      on_grid_step [of now duration e current]
    by (auto split: if_splits)
qed

lemma grid_loop_first:
  "(case grid_loop True now duration e current starts of
      Inl t \<Rightarrow> on_grid now duration e current t
    | Inr ss \<Rightarrow> ss = starts \<and> (\<forall>t. \<not> on_grid now duration e current t))"
proof (induction True now duration e current starts rule: grid_loop.induct)
  case (1 now duration e current starts)
  have none: "\<not> on_grid now duration e current t" if "\<not> current + duration \<le> e" for t
    using that by (auto simp: on_grid_def)
  show ?case
    using 1 none grid_loop.simps [of True now duration e current starts]
      on_grid_step [of now duration e current]
    by (auto split: if_splits sum.splits)
qed


section \<open>The bookable starts\<close>

lemma bex_pair: "(\<exists>(a, b) \<in> A. P a b) \<longleftrightarrow> (\<exists>a b. (a, b) \<in> A \<and> P a b)"
  by auto

abbreviation first_grid :: "wall \<Rightarrow> wall \<Rightarrow> wall" where
  "first_grid day_start s \<equiv>
     (let current = day_start + ((s - day_start) div SLOT_STEP) * SLOT_STEP
      in if current < s then current + SLOT_STEP else current)"

lemma on_grid_first_grid:
  "on_grid now duration e (first_grid day_start s) t \<longleftrightarrow>
     now < t \<and> s \<le> t \<and> t + duration \<le> e \<and> (t - day_start) mod SLOT_STEP = 0"
proof -
  define q r where "q = (s - day_start) div SLOT_STEP" and "r = (s - day_start) mod SLOT_STEP"
  have split: "s = day_start + q * SLOT_STEP + r"
    using mult_div_mod_eq [of SLOT_STEP "s - day_start"] by (simp add: q_def r_def algebra_simps)
  have r: "0 \<le> r" "r < SLOT_STEP" by (simp_all add: r_def)
  have fg: "first_grid day_start s = day_start + (if r = 0 then q else q + 1) * SLOT_STEP"
    using split r by (auto simp: Let_def algebra_simps simp flip: q_def)
  have ge: "s \<le> first_grid day_start s"
    unfolding fg using split r by (auto simp: algebra_simps)
  have modeq: "(t - first_grid day_start s) mod SLOT_STEP = (t - day_start) mod SLOT_STEP"
  proof -
    have "t - (day_start + c * SLOT_STEP) = (t - day_start) + (- c) * SLOT_STEP" for c
      by (simp add: algebra_simps)
    then show ?thesis unfolding fg by (simp only: mod_mult_self1)
  qed
  have least: "first_grid day_start s \<le> t" if t: "s \<le> t" "(t - day_start) mod SLOT_STEP = 0"
  proof -
    obtain k where k: "t - day_start = k * SLOT_STEP"
      using t(2) by (metis dvd_def mod_eq_0_iff_dvd mult.commute)
    have le: "q * SLOT_STEP + r \<le> k * SLOT_STEP" using t(1) k split by linarith
    have "q \<le> k"
    proof (rule ccontr)
      assume "\<not> q \<le> k"
      then have "(k + 1) * SLOT_STEP \<le> q * SLOT_STEP"
        by (intro mult_right_mono) (auto simp: less_imp_le)
      with le r show False unfolding distrib_right by simp
    qed
    moreover have "q + 1 \<le> k" if "r \<noteq> 0"
    proof (rule ccontr)
      assume "\<not> q + 1 \<le> k"
      then have "k * SLOT_STEP \<le> q * SLOT_STEP"
        by (intro mult_right_mono) (auto simp: less_imp_le)
      with le r that show False by linarith
    qed
    ultimately have "(if r = 0 then q else q + 1) \<le> k" by simp
    then have "(if r = 0 then q else q + 1) * SLOT_STEP \<le> k * SLOT_STEP"
      by (intro mult_right_mono) (auto simp: less_imp_le)
    with k fg show ?thesis by linarith
  qed
  show ?thesis
    using ge least by (auto simp: on_grid_def modeq)
qed

definition allowed_start :: "wall \<Rightarrow> wall \<Rightarrow> int \<Rightarrow> interval list \<Rightarrow> wall \<Rightarrow> bool" where
  "allowed_start now day_start duration free t \<longleftrightarrow>
     now < t \<and> (\<exists>(s, e) \<in> set free. s \<le> t \<and> t + duration \<le> e
       \<and> (t = s \<or> (t - day_start) mod SLOT_STEP = 0))"

lemma allowed_start_Nil [simp]: "\<not> allowed_start now day_start duration [] t"
  by (simp add: allowed_start_def)

lemma allowed_start_Cons:
  "allowed_start now day_start duration ((s, e) # free) t \<longleftrightarrow>
     (t = s \<and> now < s \<and> s + duration \<le> e) \<or> on_grid now duration e (first_grid day_start s) t
     \<or> allowed_start now day_start duration free t"
  by (auto simp: allowed_start_def on_grid_first_grid)

lemma slot_loop_all:
  "set (slot_loop False now day_start duration free starts) =
     set starts \<union> {t. allowed_start now day_start duration free t}
   \<and> sorted (slot_loop False now day_start duration free starts)
   \<and> distinct (slot_loop False now day_start duration free starts)"
proof (induction free arbitrary: starts)
  case Nil
  then show ?case by simp
next
  case (Cons se free)
  obtain s e where se: "se = (s, e)" by (cases se)
  define starts' where "starts' = (if s > now \<and> s + duration \<le> e then starts @ [s] else starts)"
  obtain ss where ss: "grid_loop False now duration e (first_grid day_start s) starts' = Inr ss"
    "set ss = set starts' \<union> {t. on_grid now duration e (first_grid day_start s) t}"
    using grid_loop_collects by blast
  have "slot_loop False now day_start duration (se # free) starts =
      slot_loop False now day_start duration free ss"
    using ss(1) by (simp add: se starts'_def Let_def)
  with Cons.IH [of ss] ss(2) show ?case
    by (auto simp: se allowed_start_Cons starts'_def split: if_splits)
qed

lemma slot_loop_first:
  "case slot_loop True now day_start duration free [] of
     [] \<Rightarrow> \<forall>t. \<not> allowed_start now day_start duration free t
   | t # ts \<Rightarrow> ts = [] \<and> allowed_start now day_start duration free t"
proof (induction free)
  case Nil
  then show ?case by simp
next
  case (Cons se free)
  obtain s e where se: "se = (s, e)" by (cases se)
  show ?case
  proof (cases "s > now \<and> s + duration \<le> e")
    case True
    then show ?thesis by (simp add: se allowed_start_Cons)
  next
    case False
    then have off: "\<not> (s > now \<and> s + duration \<le> e \<and> True)" by blast
    have step: "slot_loop True now day_start duration (se # free) [] =
        (case grid_loop True now duration e (first_grid day_start s) [] of
           Inl first \<Rightarrow> [first] | Inr starts \<Rightarrow> slot_loop True now day_start duration free starts)"
      unfolding se slot_loop.simps if_not_P [OF off] if_not_P [OF False] Let_def by (rule refl)
    show ?thesis
    proof (cases "grid_loop True now duration e (first_grid day_start s) []")
      case (Inl t)
      then have "on_grid now duration e (first_grid day_start s) t"
        using grid_loop_first [of now duration e "first_grid day_start s" "[]"] by simp
      with Inl step show ?thesis by (simp add: se allowed_start_Cons)
    next
      case (Inr ss)
      then have "ss = []" and "\<And>t. \<not> on_grid now duration e (first_grid day_start s) t"
        using grid_loop_first [of now duration e "first_grid day_start s" "[]"] by simp_all
      with Inr step Cons.IH False show ?thesis
        unfolding step by (auto simp: se allowed_start_Cons simp del: Let_def split: list.splits)
    qed
  qed
qed

lemma separated_start_iff:
  assumes "separated xs"
  shows "(\<exists>e. (t, e) \<in> set xs) \<longleftrightarrow> t \<in> points xs \<and> t - 1 \<notin> points xs"
  using assms
proof (induction xs)
  case Nil
  then show ?case by simp
next
  case (Cons x xs)
  obtain a b where x: "x = (a, b)" by (cases x)
  have ab: "a < b" and later: "\<And>s' e'. (s', e') \<in> set xs \<Longrightarrow> b < s'" and sep: "separated xs"
    using Cons.prems by (auto simp: x separated_Cons)
  have late: "\<And>t. t \<in> points xs \<Longrightarrow> b < t"
    using later by (auto simp: points_iff dest: less_le_trans)
  show ?case
    using Cons.IH [OF sep] ab late [of t] late [of "t - 1"] later
    by (auto simp: x dest: later)
qed

text \<open>The free time of a day: published and not occupied.\<close>

definition free_points :: "zone \<Rightarrow> date \<Rightarrow> (datetime \<times> datetime) list \<Rightarrow> (datetime \<times> datetime) list \<Rightarrow> wall set" where
  "free_points z d avail busy =
     {t. \<not> is_closed_business_day d \<and> fst (day_bounds d) \<le> t \<and> t < snd (day_bounds d)
       \<and> (\<exists>(s, e) \<in> set avail. normalize_datetime z s \<le> t \<and> t < normalize_datetime z e)
       \<and> \<not> (\<exists>(s, e) \<in> set busy. normalize_datetime z s \<le> t \<and> t < normalize_datetime z e)}"

lemma points_map_normalize:
  "t \<in> points (map (\<lambda>(s, e). (normalize_datetime z s, normalize_datetime z e)) busy) \<longleftrightarrow>
     (\<exists>(s, e) \<in> set busy. normalize_datetime z s \<le> t \<and> t < normalize_datetime z e)"
  by (induction busy) auto

lemma free_calendar_free_points:
  "points (free_calendar_intervals z d avail busy) = free_points z d avail busy"
  by (simp add: set_eq_iff free_calendar_points availability_points points_map_normalize
      free_points_def)

lemma free_piece_iff:
  assumes "separated xs" and "0 < duration"
  shows "(\<exists>(s, e) \<in> set xs. s \<le> t \<and> t + duration \<le> e) \<longleftrightarrow> {t..<t + duration} \<subseteq> points xs"
  using separated_covers [OF assms(1), of t "t + duration"] assms(2)
  by (auto simp: points_iff) (fastforce)

lemma calendar_slot_starts_eq:
  "calendar_slot_starts z now d duration avail busy stop =
     slot_loop stop (to_kyiv z now) (fst (day_bounds d)) duration
       (free_calendar_intervals z d avail busy) []"
  by (simp add: calendar_slot_starts_def split: prod.split)

lemma calendar_slot_starts_iff:
  assumes "0 < duration"
  shows "t \<in> set (calendar_slot_starts z now d duration avail busy False) \<longleftrightarrow>
    to_kyiv z now < t \<and> {t..<t + duration} \<subseteq> free_points z d avail busy
    \<and> ((t - fst (day_bounds d)) mod SLOT_STEP = 0 \<or> t - 1 \<notin> free_points z d avail busy)"
proof -
  let ?free = "free_calendar_intervals z d avail busy"
  have sep: "separated ?free" by (rule free_calendar_separated)
  have piece: "t = s \<longleftrightarrow> (\<exists>e'. (t, e') \<in> set ?free)"
    if "(s, e) \<in> set ?free" "s \<le> t" "t + duration \<le> e" for s e
  proof
    assume "\<exists>e'. (t, e') \<in> set ?free"
    then have "t - 1 \<notin> points ?free" using separated_start_iff [OF sep] by blast
    with that assms show "t = s" by (auto simp: points_iff) (metis diff_less_eq dual_order.strict_trans2 le_less less_add_same_cancel1 zle_diff1_eq)
  qed (use that in auto)
  have "t \<in> set (calendar_slot_starts z now d duration avail busy False) \<longleftrightarrow>
      allowed_start (to_kyiv z now) (fst (day_bounds d)) duration ?free t"
    using slot_loop_all [of "to_kyiv z now" "fst (day_bounds d)" duration ?free "[]"]
    by (simp add: calendar_slot_starts_eq)
  also have "\<dots> \<longleftrightarrow> to_kyiv z now < t \<and> (\<exists>(s, e) \<in> set ?free. s \<le> t \<and> t + duration \<le> e)
      \<and> ((t - fst (day_bounds d)) mod SLOT_STEP = 0 \<or> (\<exists>e'. (t, e') \<in> set ?free))"
    unfolding allowed_start_def bex_pair by (metis piece)
  also have "\<dots> \<longleftrightarrow> to_kyiv z now < t \<and> {t..<t + duration} \<subseteq> points ?free
      \<and> ((t - fst (day_bounds d)) mod SLOT_STEP = 0 \<or> t - 1 \<notin> points ?free)"
    using separated_start_iff [OF sep, of t] free_piece_iff [OF sep assms, of t] assms by auto
  finally show ?thesis by (simp only: free_calendar_free_points)
qed

lemma calendar_slot_starts_sorted:
  "sorted (calendar_slot_starts z now d duration avail busy False)
   \<and> distinct (calendar_slot_starts z now d duration avail busy False)"
  using slot_loop_all by (simp add: calendar_slot_starts_eq)

lemma calendar_slot_starts_first:
  "(calendar_slot_starts z now d duration avail busy True \<noteq> []) \<longleftrightarrow>
   (calendar_slot_starts z now d duration avail busy False \<noteq> [])"
proof -
  let ?P = "allowed_start (to_kyiv z now) (fst (day_bounds d)) duration
    (free_calendar_intervals z d avail busy)"
  have "calendar_slot_starts z now d duration avail busy False = [] \<longleftrightarrow> (\<forall>t. \<not> ?P t)"
    using slot_loop_all [of "to_kyiv z now" "fst (day_bounds d)" duration "free_calendar_intervals z d avail busy" "[]"]
    by (simp add: calendar_slot_starts_eq flip: set_empty)
  moreover have "calendar_slot_starts z now d duration avail busy True = [] \<longleftrightarrow> (\<forall>t. \<not> ?P t)"
    using slot_loop_first [of "to_kyiv z now" "fst (day_bounds d)" duration "free_calendar_intervals z d avail busy"]
    by (auto simp: calendar_slot_starts_eq split: list.splits)
  ultimately show ?thesis by blast
qed

subsection \<open>Grouping loses nothing\<close>

definition meets_day :: "interval \<Rightarrow> date \<Rightarrow> bool" where
  "meets_day se d \<longleftrightarrow> fst se < snd (day_bounds d) \<and> snd se > fst (day_bounds d)"

lemma at_day_group_day:
  "at_day (group_day se k g) d = at_day g d @ (if k = d \<and> meets_day se d then [se] else [])"
  by (auto simp: group_day_def meets_day_def at_day_def Let_def split: prod.splits)

lemma at_day_fold_group_day:
  "distinct ds \<Longrightarrow> at_day (fold (group_day se) ds g) d =
     at_day g d @ (if d \<in> set ds \<and> meets_day se d then [se] else [])"
  by (induction ds arbitrary: g) (auto simp: at_day_group_day)

lemma meets_day_dates:
  assumes "meets_day (s, e) d"
  shows "date_of s \<le> d" and "d \<le> date_of e"
proof -
  have "s < (d + 1) * day" and "d * day < e"
    using assms by (auto simp: meets_day_def day_bounds_def time_consts)
  then show "date_of s \<le> d" and "d \<le> date_of e"
    by (auto simp: date_of_def day_def minute_def)
qed

lemma at_day_group_interval:
  "at_day (group_interval z sd ed raw g) d = at_day g d @
     (let se = (normalize_datetime z (fst raw), normalize_datetime z (snd raw))
      in if fst se < snd se \<and> sd \<le> d \<and> d \<le> ed \<and> meets_day se d then [se] else [])"
  using meets_day_dates [of "normalize_datetime z (fst raw)" "normalize_datetime z (snd raw)" d]
  by (auto simp: group_interval_def at_day_fold_group_day Let_def)

lemma at_day_group:
  "set (at_day (group_calendar_intervals_by_date z xs sd ed) d) =
     {se. fst se < snd se \<and> sd \<le> d \<and> d \<le> ed \<and> meets_day se d
        \<and> se \<in> (\<lambda>(s, e). (normalize_datetime z s, normalize_datetime z e)) ` set xs}"
proof -
  have "set (at_day (fold (group_interval z sd ed) xs g) d) = set (at_day g d) \<union>
     {se. fst se < snd se \<and> sd \<le> d \<and> d \<le> ed \<and> meets_day se d
        \<and> se \<in> (\<lambda>(s, e). (normalize_datetime z s, normalize_datetime z e)) ` set xs}" for g
    by (induction xs arbitrary: g) (auto simp: at_day_group_interval Let_def)
  from this [of Map.empty] show ?thesis
    by (auto simp: group_calendar_intervals_by_date_def at_day_def split: option.splits)
qed

lemma free_points_cong:
  assumes "\<And>t. fst (day_bounds d) \<le> t \<Longrightarrow> t < snd (day_bounds d) \<Longrightarrow>
      t \<in> points (map (\<lambda>(s, e). (normalize_datetime z s, normalize_datetime z e)) avail)
      \<longleftrightarrow> t \<in> points (map (\<lambda>(s, e). (normalize_datetime z s, normalize_datetime z e)) avail')"
    and "\<And>t. fst (day_bounds d) \<le> t \<Longrightarrow> t < snd (day_bounds d) \<Longrightarrow>
      t \<in> points (map (\<lambda>(s, e). (normalize_datetime z s, normalize_datetime z e)) busy)
      \<longleftrightarrow> t \<in> points (map (\<lambda>(s, e). (normalize_datetime z s, normalize_datetime z e)) busy')"
  shows "free_points z d avail busy = free_points z d avail' busy'"
  using assms unfolding free_points_def points_map_normalize by blast

lemma calendar_slot_starts_cong:
  assumes "0 < duration" and "free_points z d avail busy = free_points z d avail' busy'"
  shows "calendar_slot_starts z now d duration avail busy False
       = calendar_slot_starts z now d duration avail' busy' False"
proof (rule sorted_distinct_set_unique)
  show "set (calendar_slot_starts z now d duration avail busy False)
      = set (calendar_slot_starts z now d duration avail' busy' False)"
    by (rule set_eqI) (simp add: calendar_slot_starts_iff [OF assms(1)] assms(2))
qed (simp_all add: calendar_slot_starts_sorted)

lemma points_as_kyiv:
  "map (\<lambda>(s, e). (normalize_datetime z s, normalize_datetime z e)) (as_kyiv xs) = xs"
  by (induction xs) (auto simp: as_kyiv_def)

lemma grouped_points:
  assumes "sd \<le> d" and "d \<le> ed" and "fst (day_bounds d) \<le> t" and "t < snd (day_bounds d)"
  shows "t \<in> points (at_day (group_calendar_intervals_by_date z xs sd ed) d)
     \<longleftrightarrow> t \<in> points (map (\<lambda>(s, e). (normalize_datetime z s, normalize_datetime z e)) xs)"
proof -
  have "s < e \<and> meets_day (s, e) d" if "s \<le> t" and "t < e" for s e
    using that assms by (simp add: meets_day_def)
  with assms(1,2) show ?thesis
    unfolding points_iff at_day_group set_map mem_Collect_eq fst_conv snd_conv by blast
qed

lemma grouping_lossless:
  assumes "0 < duration" and "sd \<le> d" and "d \<le> ed"
  shows "calendar_slot_starts z now d duration
       (as_kyiv (at_day (group_calendar_intervals_by_date z avail sd ed) d))
       (as_kyiv (at_day (group_calendar_intervals_by_date z busy sd ed) d)) False
     = calendar_slot_starts z now d duration avail busy False"
  by (rule calendar_slot_starts_cong [OF assms(1) free_points_cong])
     (simp_all add: points_as_kyiv grouped_points assms)


section \<open>The availability horizon\<close>

lemma div_mod_bounds:
  fixes n :: int
  assumes "0 < k"
  shows "n = k * (n div k) + n mod k" and "0 \<le> n mod k" and "n mod k < k"
  using assms by simp_all

lemma days_before_year_cycle:
  assumes "0 \<le> b" "b \<le> 3" "0 \<le> c" "c \<le> 24" "0 \<le> d" "d \<le> 3"
  shows "days_before_year (400 * a + 1 + b * 100 + c * 4 + d) =
    146097 * a + 36524 * b + 1461 * c + 365 * d"
proof -
  let ?y = "400 * a + b * 100 + c * 4 + d"
  have "?y div 4 = 100 * a + 25 * b + c" using assms by simp
  moreover have "?y div 100 = 4 * a + b" using assms by simp
  moreover have "?y div 400 = a" using assms by simp
  ultimately show ?thesis by (simp add: days_before_year_def Let_def algebra_simps)
qed

lemma is_leap_cycle:
  assumes "0 \<le> b" "b \<le> 3" "0 \<le> c" "c \<le> 24" "0 \<le> d" "d \<le> 3"
  shows "is_leap (400 * a + 1 + b * 100 + c * 4 + d) \<longleftrightarrow> d = 3 \<and> (c \<noteq> 24 \<or> b = 3)"
proof -
  let ?y = "400 * a + 1 + b * 100 + c * 4 + d"
  have m4: "?y mod 4 = (1 + d) mod 4"
  proof -
    have "?y = (1 + d) + (100 * a + 25 * b + c) * 4" by (simp add: algebra_simps)
    then show ?thesis by (simp only: mod_mult_self1)
  qed
  have m100: "?y mod 100 = (1 + c * 4 + d) mod 100"
  proof -
    have "?y = (1 + c * 4 + d) + (4 * a + b) * 100" by (simp add: algebra_simps)
    then show ?thesis by (simp only: mod_mult_self1)
  qed
  have m400: "?y mod 400 = (1 + b * 100 + c * 4 + d) mod 400"
  proof -
    have "?y = (1 + b * 100 + c * 4 + d) + a * 400" by (simp add: algebra_simps)
    then show ?thesis by (simp only: mod_mult_self1)
  qed
  have mod_top: "x mod k = 0 \<longleftrightarrow> x = k" if "1 \<le> x" "x \<le> k" for x k :: int
    using that zdvd_imp_le [of k x] by (auto simp: mod_eq_0_iff_dvd)
  have d: "(1 + d) mod 4 = 0 \<longleftrightarrow> d = 3"
    using mod_top [of "1 + d" 4] assms(5,6) by auto
  have c: "(1 + c * 4 + d) mod 100 = 0 \<longleftrightarrow> c = 24 \<and> d = 3"
  proof -
    have "(1 + c * 4 + d) mod 100 = 0 \<longleftrightarrow> 1 + c * 4 + d = 100"
      using mod_top [of "1 + c * 4 + d" 100] assms(3-6) by simp
    moreover have "1 + c * 4 + d = 100 \<longleftrightarrow> c = 24 \<and> d = 3"
      using assms(3-6) by presburger
    ultimately show ?thesis by simp
  qed
  have b: "(1 + b * 100 + 24 * 4 + 3) mod 400 = 0 \<longleftrightarrow> b = 3"
    using mod_top [of "1 + b * 100 + 24 * 4 + 3" 400] assms(1,2) by auto
  show ?thesis
    unfolding is_leap_def m4 m100 m400 d c using b by auto
qed

definition month_split_ok :: "bool \<Rightarrow> int \<Rightarrow> bool" where
  "month_split_ok leap n = (case month_split leap n of (m, d) \<Rightarrow>
     1 \<le> m \<and> m \<le> 12 \<and> 1 \<le> d \<and> d \<le> month_length leap m \<and> month_offset leap m + d = n + 1)"

lemma month_split_ok_all:
  "list_all (month_split_ok True) [0..365]" "list_all (month_split_ok False) [0..364]"
  by code_simp+

lemma month_split_correct:
  assumes "0 \<le> n" and "n < (if leap then 366 else 365)"
  shows "month_split_ok leap n"
  using assms month_split_ok_all by (cases leap) (auto simp: list_all_iff)

lemma fromordinal_correct:
  "valid_ymd (fromordinal n) \<and> toordinal (fromordinal n) = n"
proof -
  define a where "a = (n - 1) div 146097"
  define r0 where "r0 = (n - 1) mod 146097"
  define b where "b = r0 div 36524"
  define r1 where "r1 = r0 mod 36524"
  define c where "c = r1 div 1461"
  define r2 where "r2 = r1 mod 1461"
  define d where "d = r2 div 365"
  define r where "r = r2 mod 365"
  have n: "n - 1 = 146097 * a + r0" "0 \<le> r0" "r0 < 146097" by (simp_all add: a_def r0_def)
  have r0: "r0 = 36524 * b + r1" "0 \<le> r1" "r1 < 36524" by (simp_all add: b_def r1_def)
  have r1: "r1 = 1461 * c + r2" "0 \<le> r2" "r2 < 1461" by (simp_all add: c_def r2_def)
  have r2: "r2 = 365 * d + r" "0 \<le> r" "r < 365" by (simp_all add: d_def r_def)
  have b: "0 \<le> b" "b \<le> 4" and c: "0 \<le> c" "c \<le> 24" and d: "0 \<le> d" "d \<le> 4"
    using n r0 r1 r2 by linarith+
  let ?y = "a * 400 + 1 + b * 100 + c * 4 + d"
  have unfold: "fromordinal n = (if d = 4 \<or> b = 4 then (?y - 1, 12, 31)
      else (?y, month_split (is_leap ?y) r))"
    unfolding fromordinal_def Let_def a_def b_def c_def d_def r_def r0_def r1_def r2_def by (rule refl)
  consider (century) "b = 4" | (quad) "b \<noteq> 4" "d = 4" | (usual) "b \<noteq> 4" "d \<noteq> 4" by blast
  then show ?thesis
  proof cases
    case century
    then have rest: "c = 0" "d = 0" "r = 0" using n r0 r1 r2 b c d by linarith+
    have y: "?y - 1 = 400 * a + 1 + 3 * 100 + 24 * 4 + 3" using century rest by simp
    have "is_leap (?y - 1)" unfolding y by (subst is_leap_cycle) auto
    moreover have "days_before_year (?y - 1) = 146097 * a + 36524 * 3 + 1461 * 24 + 365 * 3"
      unfolding y by (rule days_before_year_cycle) auto
    ultimately show ?thesis
      unfolding unfold using century n(1) r0(1) r1(1) r2(1)
      by (simp add: rest valid_ymd_def days_in_month_def days_before_month_def month_length_def
          month_offset_def)
  next
    case quad
    have rest: "r = 0" "c \<noteq> 24" "b \<le> 3" using quad n r0 r1 r2 b c by linarith+
    have y: "?y - 1 = 400 * a + 1 + b * 100 + c * 4 + 3" using quad by simp
    have "is_leap (?y - 1)" unfolding y using rest b c by (subst is_leap_cycle) auto
    moreover have "days_before_year (?y - 1) = 146097 * a + 36524 * b + 1461 * c + 365 * 3"
      unfolding y by (rule days_before_year_cycle) (use rest b c in auto)
    ultimately show ?thesis
      unfolding unfold using quad rest n r0 r1 r2
      by (simp add: valid_ymd_def days_in_month_def days_before_month_def month_length_def
          month_offset_def)
  next
    case usual
    have bd: "b \<le> 3" "d \<le> 3" using usual b d by auto
    have y: "?y = 400 * a + 1 + b * 100 + c * 4 + d" by simp
    have dby: "days_before_year ?y = 146097 * a + 36524 * b + 1461 * c + 365 * d"
      unfolding y by (rule days_before_year_cycle) (use bd b c d in auto)
    have "month_split_ok (is_leap ?y) r"
      by (rule month_split_correct) (use r2 in auto)
    then show ?thesis
      unfolding unfold using usual n r0 r1 r2 dby
      by (auto simp: valid_ymd_def month_split_ok_def days_in_month_def
          days_before_month_def split: prod.splits)
  qed
qed

lemma days_before_next_year:
  "days_before_year (y + 1) = days_before_year y + (if is_leap y then 366 else 365)"
proof -
  have step: "y div k = (y - 1) div k + (if y mod k = 0 then 1 else 0)" if "0 < k" for k :: int
  proof (cases "y mod k = 0")
    case True
    then obtain q where q: "y = k * q" by auto
    have "(k * q - 1) div k = q - 1"
      using that by (intro int_div_pos_eq [of _ _ _ "k - 1"]) (auto simp: algebra_simps)
    with True q that show ?thesis by simp
  next
    case False
    have "0 \<le> y mod k" "y mod k < k" using that by simp_all
    with False have "(y - 1) div k = y div k"
      by (intro int_div_pos_eq [of _ _ _ "y mod k - 1"]) (auto simp: algebra_simps)
    with False show ?thesis by simp
  qed
  define q4 q100 q400 where "q4 = (y - 1) div 4" and "q100 = (y - 1) div 100" and "q400 = (y - 1) div 400"
  define b4 b100 b400 where "b4 = (y mod 4 = 0)" and "b100 = (y mod 100 = 0)" and "b400 = (y mod 400 = 0)"
  have steps: "y div 4 = q4 + (if b4 then 1 else 0)" "y div 100 = q100 + (if b100 then 1 else 0)"
    "y div 400 = q400 + (if b400 then 1 else 0)"
    unfolding q4_def q100_def q400_def b4_def b100_def b400_def by (rule step, simp)+
  have imp: "b400 \<Longrightarrow> b100" "b100 \<Longrightarrow> b4"
    unfolding b4_def b100_def b400_def by presburger+
  have leap: "is_leap y \<longleftrightarrow> b4 \<and> (\<not> b100 \<or> b400)"
    by (simp add: is_leap_def b4_def b100_def b400_def)
  have "days_before_year (y + 1) = y * 365 + (q4 + (if b4 then 1 else 0))
      - (q100 + (if b100 then 1 else 0)) + (q400 + (if b400 then 1 else 0))"
    by (simp only: days_before_year_def Let_def steps add_diff_cancel_right')
  moreover have "days_before_year y = (y - 1) * 365 + q4 - q100 + q400"
    by (simp only: days_before_year_def Let_def q4_def q100_def q400_def)
  ultimately show ?thesis
    unfolding leap using imp by (cases b4; cases b100; cases b400) simp_all
qed

lemma add_two_months:
  assumes "valid_ymd v"
  shows "valid_ymd (add_calendar_months v 2)
    \<and> toordinal v + 59 \<le> toordinal (add_calendar_months v 2)
    \<and> toordinal (add_calendar_months v 2) \<le> toordinal v + 62"
proof -
  obtain y m d where v: "v = (y, m, d)" by (cases v)
  have "1 \<le> m" "m \<le> 12" and d: "1 \<le> d" "d \<le> days_in_month y m"
    using assms by (auto simp: valid_ymd_def v)
  then have m: "m \<in> {1, 2, 3, 4, 5, 6, 7, 8, 9, 10, 11, 12}" by simp presburger
  have year_step: "days_before_year (y + 1) = days_before_year y + (if is_leap y then 366 else 365)"
    by (rule days_before_next_year)
  from m d show ?thesis
    by (elim insertE; simp add: v valid_ymd_def days_in_month_def days_before_month_def month_length_def
        month_offset_def year_step
        Let_def min_def split: if_splits)
qed

lemma availability_horizon_bounds:
  "today z now + 59 \<le> availability_horizon_end_date z now
   \<and> availability_horizon_end_date z now \<le> today z now + 62"
  using add_two_months [OF fromordinal_correct [THEN conjunct1], of "today z now"]
  unfolding availability_horizon_end_date_def AVAILABILITY_HORIZON_MONTHS_def
    fromordinal_correct [THEN conjunct2] by blast

section \<open>Several days\<close>

text \<open>
  What a caller that walks a range of days relies on: the starts of a day come in order, each
  inside free time of that day only, and the existence check answers whether there is one.
\<close>

locale slot_calendar =
  fixes free :: "date \<Rightarrow> wall set"
    and starts :: "date \<Rightarrow> int \<Rightarrow> wall list"
    and any_start :: "date \<Rightarrow> int \<Rightarrow> bool"
  assumes starts_free: "0 < duration \<Longrightarrow> t \<in> set (starts d duration) \<Longrightarrow> {t..<t + duration} \<subseteq> free d"
    and free_day: "free d \<subseteq> {d * day..<(d + 1) * day}"
    and starts_ordered: "sorted (starts d duration) \<and> distinct (starts d duration)"
    and any_start_iff: "any_start d duration \<longleftrightarrow> starts d duration \<noteq> []"
begin

definition range_starts :: "date \<Rightarrow> date \<Rightarrow> int \<Rightarrow> wall list" where
  "range_starts a b duration = concat (map (\<lambda>d. starts d duration) [a..b])"

lemma start_in_day:
  assumes "0 < duration" and "t \<in> set (starts d duration)"
  shows "d * day \<le> t \<and> t < (d + 1) * day"
proof -
  have "t \<in> {t..<t + duration}" using assms(1) by simp
  then have "t \<in> {d * day..<(d + 1) * day}"
    using starts_free [OF assms] free_day [of d] by blast
  then show ?thesis by simp
qed

lemma range_starts_strictly_ordered:
  assumes "0 < duration"
  shows "sorted_wrt (<) (range_starts a b duration)"
proof -
  have days: "sorted_wrt (<) (concat (map (\<lambda>d. starts d duration) ds))" if "sorted_wrt (<) ds" for ds
    using that
  proof (induction ds)
    case Nil
    then show ?case by simp
  next
    case (Cons d ds)
    have "t < u" if t: "t \<in> set (starts d duration)" and k: "k \<in> set ds" and u: "u \<in> set (starts k duration)" for t u k
    proof -
      have "d + 1 \<le> k" using Cons.prems k by auto
      then have "(d + 1) * day \<le> k * day" by (simp add: day_def minute_def)
      with start_in_day [OF assms t] start_in_day [OF assms u] show ?thesis by linarith
    qed
    moreover have "sorted_wrt (<) (starts d duration)"
      using starts_ordered by (simp add: strict_sorted_iff)
    ultimately show ?case
      using Cons by (auto simp: sorted_wrt_append)
  qed
  have "sorted_wrt (<) [a..b]"
    using sorted_upto [of a b] by (simp add: strict_sorted_iff)
  then show ?thesis by (simp add: range_starts_def days)
qed

lemma range_starts_disjoint_lists:
  "0 < duration \<Longrightarrow> distinct (range_starts a b duration)"
  using range_starts_strictly_ordered strict_sorted_iff by blast

lemma range_starts_empty:
  "range_starts a b duration = [] \<longleftrightarrow> (\<forall>d \<in> {a..b}. \<not> any_start d duration)"
  by (auto simp: range_starts_def any_start_iff)

end

lemma free_points_day: "free_points z d avail busy \<subseteq> {d * day..<(d + 1) * day}"
  by (auto simp: free_points_def day_bounds_def time_consts)

interpretation cal: slot_calendar "\<lambda>d. free_points z d (avail d) (busy d)"
  "\<lambda>d duration. calendar_slot_starts z now d duration (avail d) (busy d) False"
  "\<lambda>d duration. calendar_slot_starts z now d duration (avail d) (busy d) True \<noteq> []"
  for z now avail busy
  by unfold_locales
    (simp_all add: calendar_slot_starts_iff free_points_day calendar_slot_starts_sorted
      calendar_slot_starts_first)

chapter \<open>Properties\<close>

text \<open>A zone without transitions, two hours ahead of UTC, for concrete runs.\<close>

definition winter_zone :: zone where
  "winter_zone = \<lparr>to_kyiv = (\<lambda>i. i + 120 * minute), to_utc = (\<lambda>w. w - 120 * minute)\<rparr>"

text \<open>C20: the bookable starts of a day are exactly the future points from which the whole duration
  is free (inside the working day, inside the published windows, outside every busy interval) and
  which lie on the 15-minute grid of the working day or begin a free stretch.\<close>

theorem slot_starts_exact:
  assumes "0 < duration"
  shows "t \<in> set (calendar_slot_starts z now d duration avail busy False) \<longleftrightarrow>
    to_kyiv z now < t \<and> {t..<t + duration} \<subseteq> free_points z d avail busy
    \<and> ((t - fst (day_bounds d)) mod SLOT_STEP = 0 \<or> t - 1 \<notin> free_points z d avail busy)"
  by (rule calendar_slot_starts_iff [OF assms])

theorem slot_starts_exact_witness:
  "700000 * day + WORK_START + 4 * SLOT_STEP \<in> set (calendar_slot_starts winter_zone 0 700000 (30 * minute)
     [(Kyiv (700000 * day + WORK_START), Kyiv (700000 * day + WORK_END))]
     [(Kyiv (700000 * day + WORK_START), Kyiv (700000 * day + WORK_START + 2 * SLOT_STEP))] False)"
  by (subst slot_starts_exact)
    (auto simp: free_points_def winter_zone_def day_bounds_def time_consts is_closed_business_day_def
      CLOSED_WEEKDAYS_def)

text \<open>The check that stops at the first start answers exactly whether the full listing is not
  empty.\<close>

theorem stop_after_first_agrees:
  "calendar_slot_starts z now d duration avail busy True \<noteq> [] \<longleftrightarrow>
   calendar_slot_starts z now d duration avail busy False \<noteq> []"
  by (rule calendar_slot_starts_first)

text \<open>Merging yields the same points as the given intervals, as pieces of positive length that
  come in order and neither overlap nor touch.\<close>

theorem merge_intervals_canonical:
  "points (merge_intervals xs) = points xs \<and> separated (merge_intervals xs)"
  by (simp add: merge_intervals_points merge_intervals_separated)

text \<open>C39: subtracting busy time from published windows leaves exactly the points of the working day
  that a window covers and no busy interval covers, again as separated pieces.\<close>

theorem free_intervals_exact:
  "points (free_calendar_intervals z d avail busy) = free_points z d avail busy
   \<and> separated (free_calendar_intervals z d avail busy)"
  by (simp add: free_calendar_free_points free_calendar_separated)

text \<open>Grouping the rows of a range by day loses nothing: for every day of the range the starts
  computed from the grouped rows are those computed from all rows.\<close>

theorem grouping_is_lossless:
  assumes "0 < duration" and "start_date \<le> d" and "d \<le> end_date"
  shows "calendar_slot_starts z now d duration
       (as_kyiv (at_day (group_calendar_intervals_by_date z avail start_date end_date) d))
       (as_kyiv (at_day (group_calendar_intervals_by_date z busy start_date end_date) d)) False
     = calendar_slot_starts z now d duration avail busy False"
  by (rule grouping_lossless [OF assms])

theorem grouping_is_lossless_witness:
  "calendar_slot_starts winter_zone 0 5 (30 * minute)
       (as_kyiv (at_day (group_calendar_intervals_by_date winter_zone [(Aware 0, Aware (9 * day))] 3 7) 5))
       (as_kyiv (at_day (group_calendar_intervals_by_date winter_zone [(Aware (5 * day), Naive (6 * day))] 3 7) 5)) False
     = calendar_slot_starts winter_zone 0 5 (30 * minute) [(Aware 0, Aware (9 * day))]
         [(Aware (5 * day), Naive (6 * day))] False"
  by (rule grouping_is_lossless) (simp_all add: minute_def)

text \<open>The availability horizon, two calendar months ahead with the day clamped to the month,
  always lies 59 to 62 days after today.\<close>

theorem horizon_bounds:
  "today z now + 59 \<le> availability_horizon_end_date z now
   \<and> availability_horizon_end_date z now \<le> today z now + 62"
  by (rule availability_horizon_bounds)

text \<open>The slots iterated over a range of days come in strictly increasing order of their start,
  so no slot is listed twice.\<close>

theorem iterated_slots_ordered:
  assumes "0 < duration"
  shows "sorted_wrt (<) (map (\<lambda>(d, s, e). s) (iter_calendar_slots z now data m a b duration))"
proof -
  have "map (\<lambda>(d, s, e). s) (iter_calendar_slots z now data m a b duration) =
    cal.range_starts z now (master_day (availability_by_master_id data) m)
      (master_day (busy_by_master_id data) m) a b duration"
    by (simp add: iter_calendar_slots_def cal.range_starts_def map_concat o_def)
  then show ?thesis using cal.range_starts_strictly_ordered [OF assms] by simp
qed

theorem iterated_slots_ordered_witness:
  "sorted_wrt (<) (map (\<lambda>(d, s, e). s) (iter_calendar_slots winter_zone 0
     (calendar_range_data winter_zone [1] 3 7 [(1, Aware 0, Aware (9 * day))] [] []) 1 3 7 (30 * minute)))"
  by (rule iterated_slots_ordered) (simp add: minute_def)

end
