(* ===== verification/Salon.thy ===== *)
theory Salon
  imports Calendar
begin

text \<open>
  The rows of the booking side of the database, \<^verbatim>\<open>app/models/booking.py\<close>,
  \<^verbatim>\<open>app/models/promotion.py\<close>, \<^verbatim>\<open>app/models/waitlist.py\<close>,
  \<^verbatim>\<open>app/models/customer.py\<close> and the communication preferences of
  \<^verbatim>\<open>app/models/messaging.py\<close>, and the record of their tables that the booking, promotion
  and waitlist services read and write. A column \<open>DateTime(timezone=True)\<close> holds an instant.
\<close>

section \<open>Enumerations\<close>

datatype booking_status = Pending | Confirmed | Cancelled | No_show | Completed

datatype booking_source = Web | Telegram | Backoffice | Unknown_source

datatype application_mode = Code_mode | Automatic

datatype eligibility_type = First_visit | All_customers | Inactive_customers | Military_customers

datatype waitlist_status = WActive | WOffered | WBooked | WExpired | WCancelled

datatype offer_status = OPending | OSent | ODelivered | OClaimed | OExpired | OCancelled

datatype consent = Opted_in | Opted_out | Consent_unknown

section \<open>Rows\<close>

record master =
  ms_id :: int
  ms_admin_user_id :: "int option"
  ms_full_name :: string
  ms_last_name :: "string option"
  ms_booking_redirect_master_id :: "int option"
  ms_show_on_master_block :: bool
  ms_is_active :: bool

record base_service =
  bs_id :: int
  bs_name :: string
  bs_title_uk :: "string option"
  bs_title_en :: "string option"
  bs_description :: "string option"
  bs_description_uk :: "string option"
  bs_description_en :: "string option"
  bs_duration_minutes :: int
  bs_price :: int
  bs_is_active :: bool

record service =
  sv_id :: int
  sv_master_id :: int
  sv_base_service_id :: "int option"
  sv_name :: string
  sv_title_uk :: "string option"
  sv_title_en :: "string option"
  sv_description :: "string option"
  sv_description_uk :: "string option"
  sv_description_en :: "string option"
  sv_duration_minutes :: int
  sv_price :: int
  sv_is_active :: bool

record service_item =
  si_service_id :: int
  si_position :: nat
  si_price_amount :: int

record customer =
  cu_id :: int
  cu_phone :: string
  cu_email :: "string option"
  cu_name :: "string option"
  cu_surname :: "string option"
  cu_is_active :: bool
  cu_first_visit_completed_at :: "instant option"
  cu_imported_last_visit_at :: "instant option"
  cu_imported_total_spent :: int \<comment> \<open>in hundredths\<close>

record booking =
  bk_id :: int
  bk_master_id :: int
  bk_service_id :: int
  bk_customer_id :: "int option"
  bk_redirected_from_master_id :: "int option"
  bk_customer_name :: string
  bk_customer_phone :: string
  bk_customer_email :: "string option"
  bk_customer_comment :: "string option"
  bk_start_at :: instant
  bk_end_at :: instant
  bk_status :: booking_status
  bk_source :: booking_source
  bk_cancelled_at :: "instant option"
  bk_completed_at :: "instant option"
  bk_promotion_id :: "int option"
  bk_campaign_offer_id :: "int option"
  bk_campaign_offer_reservation_id :: "int option"
  bk_first_visit_customer_id :: "int option"
  bk_mode_snapshot :: "application_mode option"
  bk_eligibility_snapshot :: "eligibility_type option"
  bk_code_snapshot :: "string option"
  bk_name_uk_snapshot :: "string option"
  bk_name_en_snapshot :: "string option"
  bk_percent_snapshot :: "int option"
  bk_subtotal_amount :: "int option"
  bk_promotion_discount_amount :: "int option"
  bk_manual_discount_amount :: int
  bk_total_amount :: "int option"
  bk_service_items :: "service_item list"

record window =
  wn_id :: int
  wn_master_id :: int
  wn_start_at :: instant
  wn_end_at :: instant

record time_block =
  tb_id :: int
  tb_master_id :: int
  tb_start_at :: instant
  tb_end_at :: instant
  tb_reason :: "string option"

record promotion =
  pr_id :: int
  pr_code :: string
  pr_name_uk :: string
  pr_name_en :: string
  pr_discount_percent :: int
  pr_eligibility_type :: eligibility_type
  pr_application_mode :: application_mode
  pr_inactive_days :: "int option"
  pr_starts_at :: "instant option"
  pr_ends_at :: "instant option"
  pr_applies_to_all_masters :: bool
  pr_master_ids :: "int list"
  pr_applies_to_all_services :: bool
  pr_base_service_ids :: "int list"
  pr_recipient_offer_only :: bool
  pr_is_public :: bool
  pr_is_active :: bool

record waitlist_request =
  wr_id :: int
  wr_cancel_token_hash :: string
  wr_dedup_key_hash :: string
  wr_customer_id :: int
  wr_preferred_master_id :: "int option"
  wr_desired_date :: date
  wr_acceptable_date_from :: "date option"
  wr_acceptable_date_to :: "date option"
  wr_preferred_time_from :: "int option"
  wr_preferred_time_to :: "int option"
  wr_duration_minutes :: int
  wr_notification_consent :: bool
  wr_service_ids :: "int list"
  wr_status :: waitlist_status
  wr_created_at :: instant
  wr_expires_at :: instant
  wr_offered_at :: "instant option"
  wr_booked_at :: "instant option"
  wr_closed_at :: "instant option"
  wr_close_reason :: "string option"

record waitlist_offer =
  wo_id :: int
  wo_request_id :: int
  wo_master_id :: int
  wo_source_master_id :: "int option"
  wo_start_at :: instant
  wo_end_at :: instant
  wo_token_hash :: string
  wo_status :: offer_status
  wo_expires_at :: instant
  wo_scheduled_at :: instant
  wo_sent_at :: "instant option"
  wo_delivered_at :: "instant option"
  wo_claimed_at :: "instant option"
  wo_closed_at :: "instant option"
  wo_close_reason :: "string option"
  wo_provider_message_id :: "string option"
  wo_source_booking_id :: "int option"

record preference =
  pf_marketing_consent :: consent
  pf_transactional_consent :: consent
  pf_booking_sms_consent_at :: "instant option"
  pf_booking_sms_consent_booking_id :: "int option"
  pf_do_not_contact :: bool
  pf_blacklisted_at :: "instant option"

section \<open>The database\<close>

text \<open>Communication preferences are keyed by their unique \<open>customer_id\<close>.\<close>

record salon =
  masters :: "master table"
  base_services :: "base_service table"
  services :: "service table"
  customers :: "customer table"
  bookings :: "booking table"
  windows :: "window table"
  blocks :: "time_block table"
  promotions :: "promotion table"
  requests :: "waitlist_request table"
  offers :: "waitlist_offer table"
  preferences :: "preference table"

definition empty_salon :: salon where
  "empty_salon = \<lparr>masters = [], base_services = [], services = [], customers = [], bookings = [],
     windows = [], blocks = [], promotions = [], requests = [], offers = [], preferences = []\<rparr>"

section \<open>Computed attributes of a booking\<close>

definition public_master_id :: "booking \<Rightarrow> int" where
  "public_master_id b =
     (case bk_redirected_from_master_id b of
        Some m \<Rightarrow> if m \<noteq> 0 then m else bk_master_id b
      | None \<Rightarrow> bk_master_id b)"

definition service_ids :: "booking \<Rightarrow> int list" where
  "service_ids b = (if bk_service_items b \<noteq> [] then map si_service_id (bk_service_items b)
     else [bk_service_id b])"

definition booking_services :: "salon \<Rightarrow> booking \<Rightarrow> service list" where
  "booking_services db b = List.map_filter (get (services db)) (service_ids b)"

definition discount_amount_of :: "booking \<Rightarrow> int" where
  "discount_amount_of b =
     (case bk_promotion_discount_amount b of None \<Rightarrow> 0 | Some p \<Rightarrow> p) + bk_manual_discount_amount b"

definition apply_booking_status_update :: "booking \<Rightarrow> booking_status \<Rightarrow> instant \<Rightarrow> booking" where
  "apply_booking_status_update b new_status at =
     b\<lparr>bk_status := new_status,
       bk_cancelled_at := (if new_status = Cancelled then Some at else None),
       bk_completed_at := (if new_status = Completed then Some at else None)\<rparr>"

end
