(* ===== verification/Phones.thy ===== *)
theory Phones
  imports Prelude
begin

text \<open>
  Strings as the services normalise them, and the phone identities of
  \<^verbatim>\<open>app/utils/booking_identity.py\<close> and
  \<^verbatim>\<open>app/services/customer_auth.py\<close>. A Python string is a list of 8-bit characters; the case
  mappings are those of ASCII.
\<close>

section \<open>Strings\<close>

definition is_space :: "char \<Rightarrow> bool" where
  "is_space c \<longleftrightarrow> (let n = of_char c :: nat in (9 \<le> n \<and> n \<le> 13) \<or> (28 \<le> n \<and> n \<le> 32) \<or> n = 133 \<or> n = 160)"

definition strip :: "string \<Rightarrow> string" where
  "strip s = rev (dropWhile is_space (rev (dropWhile is_space s)))"

definition lower_char :: "char \<Rightarrow> char" where
  "lower_char c = (let n = of_char c :: nat in if 65 \<le> n \<and> n \<le> 90 then char_of (n + 32) else c)"

definition upper_char :: "char \<Rightarrow> char" where
  "upper_char c = (let n = of_char c :: nat in if 97 \<le> n \<and> n \<le> 122 then char_of (n - 32) else c)"

definition casefold :: "string \<Rightarrow> string" where
  "casefold s = map lower_char s"

definition upper :: "string \<Rightarrow> string" where
  "upper s = map upper_char s"

definition is_digit :: "char \<Rightarrow> bool" where
  "is_digit c \<longleftrightarrow> c \<in> set ''0123456789''"

definition isdigit :: "string \<Rightarrow> bool" where
  "isdigit s \<longleftrightarrow> s \<noteq> [] \<and> list_all is_digit s"

text \<open>\<open>full_name.strip().split(maxsplit=1)\<close>: the first word and the rest, if any.\<close>

definition split_first :: "string \<Rightarrow> string list" where
  "split_first s =
     (let s = strip s; first = takeWhile (Not \<circ> is_space) s;
          rest = dropWhile is_space (dropWhile (Not \<circ> is_space) s)
      in if s = [] then [] else if rest = [] then [first] else [first, rest])"

section \<open>Phones\<close>

definition PHONE_ALLOWED_CHARS :: "char set" where
  "PHONE_ALLOWED_CHARS = set ''+0123456789() -''"

definition normalize_phone :: "string \<Rightarrow> string result" where
  "normalize_phone phone =
     (let normalized = filter (\<lambda>c. c \<in> PHONE_ALLOWED_CHARS) (strip phone);
          normalized = filter (\<lambda>c. c \<notin> set '' -()'') normalized;
          normalized = (if take 1 normalized \<noteq> ''+'' then ''+'' @ normalized else normalized);
          digits = tl normalized
      in if \<not> isdigit digits \<or> length digits < 10 \<or> length digits > 15
         then unprocessable ''Invalid phone number'' else Inr normalized)"

definition canonical_booking_phone :: "string \<Rightarrow> string" where
  "canonical_booking_phone normalized =
     (if take 2 normalized = ''+0'' \<and> length normalized = 11 \<and> isdigit (drop 1 normalized)
      then ''+38'' @ drop 1 normalized else normalized)"

definition phone_aliases :: "string \<Rightarrow> string list" where
  "phone_aliases normalized =
     (let canonical = canonical_booking_phone normalized
      in remdups ([normalized, canonical]
        @ (if take 4 canonical = ''+380'' \<and> length canonical = 13 \<and> isdigit (drop 1 canonical)
           then [''+'' @ drop 3 canonical] else [])))"

section \<open>Facts\<close>

definition phone_shape :: "string \<Rightarrow> bool" where
  "phone_shape p \<longleftrightarrow> (\<exists>ds. p = CHR ''+'' # ds \<and> isdigit ds \<and> 10 \<le> length ds \<and> length ds \<le> 15)"

lemma digit_allowed: "is_digit c \<Longrightarrow> c \<in> PHONE_ALLOWED_CHARS \<and> c \<notin> set '' -()'' \<and> \<not> is_space c"
  by (auto simp: is_digit_def PHONE_ALLOWED_CHARS_def is_space_def Let_def)

lemma normalize_phone_shape:
  assumes "normalize_phone p = Inr q"
  shows "phone_shape q"
proof -
  define n where "n = filter (\<lambda>c. c \<notin> set '' -()'') (filter (\<lambda>c. c \<in> PHONE_ALLOWED_CHARS) (strip p))"
  define m where "m = (if take 1 n \<noteq> ''+'' then ''+'' @ n else n)"
  have "normalize_phone p = (if \<not> isdigit (tl m) \<or> length (tl m) < 10 \<or> length (tl m) > 15
      then unprocessable ''Invalid phone number'' else Inr m)"
    by (simp only: normalize_phone_def Let_def n_def m_def)
  with assms have m: "q = m" "isdigit (tl m)" "10 \<le> length (tl m)" "length (tl m) \<le> 15"
    by (simp_all split: if_splits)
  have "m = CHR ''+'' # tl m" by (cases n) (auto simp: m_def)
  with m show ?thesis unfolding phone_shape_def by blast
qed

lemma strip_no_space: "list_all (Not \<circ> is_space) s \<Longrightarrow> strip s = s"
proof -
  have "dropWhile is_space t = t" if "list_all (Not \<circ> is_space) t" for t
    using that by (cases t) auto
  from this [of s] this [of "rev s"] show "list_all (Not \<circ> is_space) s \<Longrightarrow> strip s = s"
    by (simp add: strip_def)
qed

lemma normalize_phone_of_shape:
  assumes "phone_shape p"
  shows "normalize_phone p = Inr p"
proof -
  from assms obtain ds where p: "p = CHR ''+'' # ds" and ds: "isdigit ds" "10 \<le> length ds" "length ds \<le> 15"
    by (auto simp: phone_shape_def)
  have plus: "\<not> is_space (CHR ''+'')" "CHR ''+'' \<in> PHONE_ALLOWED_CHARS" "CHR ''+'' \<notin> set '' -()''"
    by (simp_all add: is_space_def PHONE_ALLOWED_CHARS_def)
  have chars: "c \<in> PHONE_ALLOWED_CHARS" "c \<notin> set '' -()''" "\<not> is_space c" if "c \<in> set p" for c
    using that ds(1) digit_allowed [of c] plus by (auto simp only: p isdigit_def list_all_iff set_simps insert_iff)
  have "strip p = p" by (rule strip_no_space) (simp add: list_all_iff chars)
  moreover have "filter (\<lambda>c. c \<in> PHONE_ALLOWED_CHARS) p = p" "filter (\<lambda>c. c \<notin> set '' -()'') p = p"
    using chars by (auto simp only: filter_id_conv)
  moreover have "take 1 p = ''+''" "tl p = ds" by (simp_all add: p)
  ultimately show ?thesis
    using ds by (simp only: normalize_phone_def Let_def) simp
qed

definition local_form :: "string \<Rightarrow> bool" where
  "local_form p \<longleftrightarrow> (\<exists>ds. p = ''+0'' @ ds \<and> length ds = 9 \<and> list_all is_digit ds)"

definition intl_form :: "string \<Rightarrow> bool" where
  "intl_form p \<longleftrightarrow> (\<exists>ds. p = ''+380'' @ ds \<and> length ds = 9 \<and> list_all is_digit ds)"

lemma local_form_iff:
  "local_form p \<longleftrightarrow> take 2 p = ''+0'' \<and> length p = 11 \<and> isdigit (drop 1 p)"
proof
  assume r: "take 2 p = ''+0'' \<and> length p = 11 \<and> isdigit (drop 1 p)"
  then have "p = ''+0'' @ drop 2 p" by (metis append_take_drop_id)
  moreover have "list_all is_digit (drop 2 p)"
    using r by (metis isdigit_def list_all_iff drop_drop in_set_dropD one_add_one)
  ultimately show "local_form p" using r unfolding local_form_def by (intro exI [of _ "drop 2 p"]) auto
qed (auto simp: local_form_def isdigit_def is_digit_def)

lemma intl_form_iff:
  "intl_form p \<longleftrightarrow> take 4 p = ''+380'' \<and> length p = 13 \<and> isdigit (drop 1 p)"
proof
  assume r: "take 4 p = ''+380'' \<and> length p = 13 \<and> isdigit (drop 1 p)"
  then have "p = ''+380'' @ drop 4 p" by (metis append_take_drop_id)
  moreover have "list_all is_digit (drop 4 p)"
    using r in_set_dropD [of _ 3 "drop 1 p"] by (auto simp: isdigit_def list_all_iff)
  ultimately show "intl_form p" using r unfolding intl_form_def by (intro exI [of _ "drop 4 p"]) auto
qed (auto simp: intl_form_def isdigit_def is_digit_def)

lemma canonical_local: "canonical_booking_phone (CHR ''+'' # CHR ''0'' # ds) =
    (if length ds = 9 \<and> list_all is_digit ds then ''+380'' @ ds else ''+0'' @ ds)"
  by (auto simp: canonical_booking_phone_def isdigit_def is_digit_def)

lemma local_intl: "local_form p \<Longrightarrow> intl_form (canonical_booking_phone p)"
  by (force simp: local_form_def intl_form_def canonical_local)

lemma canonical_other: "\<not> local_form p \<Longrightarrow> canonical_booking_phone p = p"
  by (auto simp: canonical_booking_phone_def local_form_iff)

lemma canonical_not_local: "\<not> local_form (canonical_booking_phone p)"
  by (cases "local_form p") (auto simp: local_form_def canonical_local canonical_other)

lemma canonical_idem [simp]: "canonical_booking_phone (canonical_booking_phone p) = canonical_booking_phone p"
  by (rule canonical_other [OF canonical_not_local])

lemma set_phone_aliases:
  "set (phone_aliases p) = {p, canonical_booking_phone p} \<union>
     (if intl_form (canonical_booking_phone p) then {''+'' @ drop 3 (canonical_booking_phone p)} else {})"
  by (auto simp: phone_aliases_def intl_form_iff Let_def)

lemma phone_aliases_iff:
  "q \<in> set (phone_aliases p) \<longleftrightarrow> canonical_booking_phone q = canonical_booking_phone p"
proof (cases "intl_form (canonical_booking_phone p)")
  case True
  then obtain ds where ds: "canonical_booking_phone p = ''+380'' @ ds" "length ds = 9" "list_all is_digit ds"
    by (auto simp: intl_form_def)
  have p: "p = ''+380'' @ ds \<or> p = ''+0'' @ ds"
    using ds(1) by (cases "local_form p") (auto simp: local_form_def canonical_local canonical_other)
  have "set (phone_aliases p) = {''+380'' @ ds, ''+0'' @ ds}"
    using p True by (auto simp: set_phone_aliases ds)
  moreover have "canonical_booking_phone q = ''+380'' @ ds \<longleftrightarrow> q = ''+380'' @ ds \<or> q = ''+0'' @ ds"
    using ds(2,3) canonical_local [of ds]
    by (cases "local_form q") (auto simp: local_form_def canonical_local canonical_other)
  ultimately show ?thesis by (simp add: ds(1))
next
  case False
  then have p: "\<not> local_form p" using local_intl by blast
  have "set (phone_aliases p) = {p}" using False p by (auto simp: set_phone_aliases canonical_other)
  moreover have "canonical_booking_phone q = p \<longleftrightarrow> q = p"
    using False p local_intl [of q] by (cases "local_form q") (auto simp: canonical_other)
  ultimately show ?thesis using p by (simp add: canonical_other)
qed

lemma phone_alias_refl [simp]: "p \<in> set (phone_aliases p)"
  by (simp add: phone_aliases_iff)

lemma phone_alias_trans: "q \<in> set (phone_aliases p) \<Longrightarrow> set (phone_aliases q) = set (phone_aliases p)"
  by (rule set_eqI) (simp add: phone_aliases_iff)

lemma canonical_shape: "phone_shape p \<Longrightarrow> phone_shape (canonical_booking_phone p)"
  by (cases "local_form p")
    (auto simp: local_form_def phone_shape_def canonical_local canonical_other isdigit_def is_digit_def)

section \<open>Properties\<close>

text \<open>Two stored phones are aliases exactly when they have the same canonical booking form, so
  being an alias is an equivalence relation.\<close>

theorem aliases_iff_same_canonical:
  "q \<in> set (phone_aliases p) \<longleftrightarrow> canonical_booking_phone q = canonical_booking_phone p"
  by (rule phone_aliases_iff)

text \<open>Normalising is stable: a normalised phone, and its canonical booking form, normalise to
  themselves.\<close>

theorem normalize_phone_stable:
  assumes "normalize_phone p = Inr q"
  shows "normalize_phone q = Inr q
    \<and> normalize_phone (canonical_booking_phone q) = Inr (canonical_booking_phone q)"
  using normalize_phone_of_shape canonical_shape normalize_phone_shape [OF assms] by blast

theorem normalize_phone_stable_witness:
  "normalize_phone ''+0671234567'' = Inr ''+0671234567''
   \<and> normalize_phone (canonical_booking_phone ''+0671234567'') = Inr (canonical_booking_phone ''+0671234567'')"
  by (rule normalize_phone_stable [of "''(067) 123-45-67''"]) code_simp

end
