(* ===== verification/Masters.thy ===== *)
theory Masters
  imports Salon Phones
begin

text \<open>
  Masters, their services and the booking redirect of
  \<^verbatim>\<open>app/services/booking.py\<close>: resolution of the master that takes a booking, of the
  services it is booked with and of their duration, and the copy of the base catalogue to a master.
\<close>

section \<open>Loading\<close>

definition get_active_master_with_services :: "salon \<Rightarrow> int \<Rightarrow> master result" where
  "get_active_master_with_services db master_id =
     (case get (masters db) master_id of
        Some m \<Rightarrow> if ms_is_active m then Inr m else not_found ''Master not found''
      | None \<Rightarrow> not_found ''Master not found'')"

text \<open>The relationships \<open>Master.services\<close> and \<open>BarberService.base_service\<close>.\<close>

definition master_services :: "salon \<Rightarrow> master \<Rightarrow> service list" where
  "master_services db m = select_where (\<lambda>s. sv_master_id s = ms_id m) (services db)"

definition base_service_of :: "salon \<Rightarrow> service \<Rightarrow> base_service option" where
  "base_service_of db s = (case sv_base_service_id s of None \<Rightarrow> None | Some b \<Rightarrow> get (base_services db) b)"

text \<open>
  The redirect loop. A redirect of zero is falsy and ends it; \<open>visited\<close> is the set of the
  masters seen so far.
\<close>

definition booking_redirect :: "master \<Rightarrow> int option" where
  "booking_redirect m = (case ms_booking_redirect_master_id m of
     Some r \<Rightarrow> if r \<noteq> 0 then Some r else None | None \<Rightarrow> None)"

lemma get_active_present: "get_active_master_with_services db r = Inr m \<Longrightarrow> r \<in> set (ids (masters db))"
  by (force simp: get_active_master_with_services_def ids_def dest: map_of_SomeD split: option.splits)

function follow_redirects :: "salon \<Rightarrow> int list \<Rightarrow> master \<Rightarrow> master result" where
  "follow_redirects db visited booking_master =
     (case booking_redirect booking_master of
        None \<Rightarrow> Inr booking_master
      | Some r \<Rightarrow>
          if r \<in> set visited then bad_request ''Booking redirect cycle detected''
          else and_then (get_active_master_with_services db r)
                 (\<lambda>m. follow_redirects db (r # visited) m))"
  by pat_completeness auto
termination
proof (relation "measure (\<lambda>(db, visited, m). card (set (ids (masters db)) - set visited))")
  fix db :: salon and visited :: "int list" and m nxt :: master and r :: int
  assume "booking_redirect m = Some r" "r \<notin> set visited" "get_active_master_with_services db r = Inr nxt"
  then have "set (ids (masters db)) - set (r # visited) \<subset> set (ids (masters db)) - set visited"
    using get_active_present by fastforce
  then show "((db, r # visited, nxt), db, visited, m)
      \<in> measure (\<lambda>(db, visited, m). card (set (ids (masters db)) - set visited))"
    by (simp add: psubset_card_mono)
qed simp

declare follow_redirects.simps [simp del]

definition resolve_booking_master :: "salon \<Rightarrow> int \<Rightarrow> (master \<times> master) result" where
  "resolve_booking_master db master_id =
     and_then (get_active_master_with_services db master_id) (\<lambda>requested_master.
     and_then (follow_redirects db [ms_id requested_master] requested_master) (\<lambda>booking_master.
     Inr (requested_master, booking_master)))"

section \<open>Services\<close>

text \<open>A service copied from the base catalogue is unavailable without an active base service.\<close>

definition base_unavailable :: "salon \<Rightarrow> service \<Rightarrow> bool" where
  "base_unavailable db s \<longleftrightarrow> sv_base_service_id s \<noteq> None
     \<and> \<not> (case base_service_of db s of Some b \<Rightarrow> bs_is_active b | None \<Rightarrow> False)"

definition get_active_service :: "salon \<Rightarrow> int \<Rightarrow> service result" where
  "get_active_service db service_id =
     (case get (services db) service_id of
        Some s \<Rightarrow> if sv_is_active s \<and> \<not> base_unavailable db s then Inr s
                  else not_found ''Service not found''
      | None \<Rightarrow> not_found ''Service not found'')"

text \<open>
  \<open>get_active_services\<close> loads at most one service with the single query and more with one bulk
  query; both keep a dictionary by id. The first loop collects the dictionary, a lookup of a
  missing key would raise \<open>KeyError\<close>.
\<close>

fun load_each :: "salon \<Rightarrow> int list \<Rightarrow> (int \<rightharpoonup> service) \<Rightarrow> (int \<rightharpoonup> service) result" where
  "load_each db [] by_id = Inr by_id"
| "load_each db (i # is) by_id =
     and_then (get_active_service db i) (\<lambda>s. load_each db is (by_id(sv_id s \<mapsto> s)))"

fun lookup_all :: "(int \<rightharpoonup> service) \<Rightarrow> int list \<Rightarrow> service list result" where
  "lookup_all by_id [] = Inr []"
| "lookup_all by_id (i # is) =
     (case by_id i of None \<Rightarrow> Inl KeyError
      | Some s \<Rightarrow> and_then (lookup_all by_id is) (\<lambda>ss. Inr (s # ss)))"

fun check_all :: "salon \<Rightarrow> (int \<rightharpoonup> service) \<Rightarrow> int list \<Rightarrow> service list result" where
  "check_all db by_id [] = Inr []"
| "check_all db by_id (i # is) =
     (case by_id i of
        None \<Rightarrow> not_found ''Service not found''
      | Some s \<Rightarrow>
          if base_unavailable db s
          then not_found ''Service not found''
          else and_then (check_all db by_id is) (\<lambda>ss. Inr (s # ss)))"

definition get_active_services_each :: "salon \<Rightarrow> int list \<Rightarrow> service list result" where
  "get_active_services_each db sids =
     and_then (load_each db sids Map.empty) (\<lambda>by_id. lookup_all by_id sids)"

definition get_active_services_bulk :: "salon \<Rightarrow> int list \<Rightarrow> service list result" where
  "get_active_services_bulk db sids =
     check_all db
       (map_of (map (\<lambda>s. (sv_id s, s))
          (select_where (\<lambda>s. sv_id s \<in> set sids \<and> sv_is_active s) (services db)))) sids"

definition get_active_services :: "salon \<Rightarrow> int list \<Rightarrow> service list result" where
  "get_active_services db sids =
     (if length sids \<le> 1 then get_active_services_each db sids else get_active_services_bulk db sids)"

definition ensure_master_provides_service :: "salon \<Rightarrow> master \<Rightarrow> int \<Rightarrow> unit result" where
  "ensure_master_provides_service db master service_id =
     (if service_id \<notin> sv_id ` set (master_services db master)
      then bad_request ''Master does not provide this service'' else Inr ())"

definition ensure_master_provides_services :: "salon \<Rightarrow> master \<Rightarrow> int list \<Rightarrow> unit result" where
  "ensure_master_provides_services db master sids =
     (if filter (\<lambda>i. i \<notin> sv_id ` set (master_services db master)) sids \<noteq> []
      then bad_request ''Master does not provide this service'' else Inr ())"

definition resolve_duration_minutes :: "service list \<Rightarrow> int option \<Rightarrow> bool \<Rightarrow> int result" where
  "resolve_duration_minutes items requested allow_override =
     (let required = sum_list (map sv_duration_minutes items)
      in case requested of
           None \<Rightarrow> Inr required
         | Some d \<Rightarrow>
             if d \<noteq> required \<and> \<not> allow_override
             then bad_request ''duration_minutes must equal the selected services duration''
             else Inr (if d \<noteq> 0 then d else required))"

definition is_active_service :: "salon \<Rightarrow> service \<Rightarrow> bool" where
  "is_active_service db s \<longleftrightarrow> sv_is_active s
     \<and> (sv_base_service_id s = None
        \<or> (case base_service_of db s of None \<Rightarrow> True | Some b \<Rightarrow> bs_is_active b))"

text \<open>An empty title is falsy: \<open>title_uk or name\<close>, and a missing key when both are empty.\<close>

definition or_else :: "string option \<Rightarrow> string \<Rightarrow> string" where
  "or_else title name = (case title of Some t \<Rightarrow> if t \<noteq> [] then t else name | None \<Rightarrow> name)"

definition fold_title :: "string \<Rightarrow> string option" where
  "fold_title t = (if t \<noteq> [] then Some (casefold (strip t)) else None)"

definition custom_service_key :: "service \<Rightarrow> string option \<times> string option \<times> int \<times> int" where
  "custom_service_key s =
     (fold_title (or_else (sv_title_uk s) (sv_name s)), fold_title (or_else (sv_title_en s) []),
      sv_duration_minutes s, sv_price s)"

definition find_redirect_service :: "salon \<Rightarrow> master \<Rightarrow> service \<Rightarrow> service option" where
  "find_redirect_service db booking_master source_service =
     (let active = filter (is_active_service db) (master_services db booking_master)
      in case sv_base_service_id source_service of
           Some b \<Rightarrow> find (\<lambda>s. sv_base_service_id s = Some b) active
         | None \<Rightarrow> find (\<lambda>s. sv_base_service_id s = None
                     \<and> custom_service_key s = custom_service_key source_service) active)"

fun redirect_services :: "salon \<Rightarrow> master \<Rightarrow> master \<Rightarrow> service list \<Rightarrow> service list result" where
  "redirect_services db requested booking [] = Inr []"
| "redirect_services db requested booking (s # ss) =
     (if sv_id s \<in> sv_id ` set (master_services db booking)
      then and_then (redirect_services db requested booking ss) (\<lambda>rs. Inr (s # rs))
      else if sv_id s \<notin> sv_id ` set (master_services db requested)
      then bad_request ''Master does not provide this service''
      else and_then (redirect_services db requested booking ss)
             (\<lambda>rs. Inr ((case find_redirect_service db booking s of Some r \<Rightarrow> r | None \<Rightarrow> s) # rs)))"

definition resolve_booking_services_for_master ::
  "salon \<Rightarrow> master \<Rightarrow> master \<Rightarrow> int list \<Rightarrow> service list option \<Rightarrow> service list result" where
  "resolve_booking_services_for_master db requested booking sids source_services =
     and_then (case source_services of Some ss \<Rightarrow> Inr ss | None \<Rightarrow> get_active_services db sids) (\<lambda>ss.
     if ms_id requested = ms_id booking
     then and_then (ensure_master_provides_services db booking (map sv_id ss)) (\<lambda>_. Inr ss)
     else and_then (redirect_services db requested booking ss) (\<lambda>resolved.
       if length (remdups (map sv_id resolved)) \<noteq> length (map sv_id resolved)
       then bad_request ''service_ids must not contain duplicates'' else Inr resolved))"

section \<open>Booked services\<close>

fun number_items :: "nat \<Rightarrow> (service \<Rightarrow> int) \<Rightarrow> service list \<Rightarrow> service_item list" where
  "number_items index price [] = []"
| "number_items index price (s # ss) =
     \<lparr>si_service_id = sv_id s, si_position = index, si_price_amount = price s\<rparr>
       # number_items (index + 1) price ss"

definition replace_booking_services :: "booking \<Rightarrow> service list \<Rightarrow> booking result" where
  "replace_booking_services b items =
     (case items of [] \<Rightarrow> Inl IndexError
      | s # _ \<Rightarrow> Inr (b\<lparr>bk_service_id := sv_id s, bk_service_items := number_items 0 sv_price items\<rparr>))"

text \<open>
  The unique constraints of \<open>booking_service_items\<close> are checked by the flush; positions never
  clash, a service listed twice does.
\<close>

definition items_unique :: "booking \<Rightarrow> bool" where
  "items_unique b \<longleftrightarrow> distinct (map si_service_id (bk_service_items b))
     \<and> distinct (map si_position (bk_service_items b))"

definition update_booking_services ::
  "salon \<Rightarrow> booking \<Rightarrow> service list \<Rightarrow> (int \<rightharpoonup> int) option \<Rightarrow> (salon \<times> booking) result" where
  "update_booking_services db b items service_prices =
     (case items of [] \<Rightarrow> Inl IndexError
      | s # _ \<Rightarrow>
          let price = (\<lambda>s. case service_prices of None \<Rightarrow> sv_price s
                  | Some ps \<Rightarrow> (case ps (sv_id s) of Some p \<Rightarrow> p | None \<Rightarrow> sv_price s));
              b = b\<lparr>bk_service_id := sv_id s, bk_service_items := number_items 0 price items\<rparr>
          in if items_unique b then Inr (db\<lparr>bookings := put (bk_id b) b (bookings db)\<rparr>, b)
             else Inl IntegrityError)"

section \<open>The base catalogue\<close>

definition or_option :: "string option \<Rightarrow> string option \<Rightarrow> string option" where
  "or_option a b = (case a of Some t \<Rightarrow> if t \<noteq> [] then Some t else b | None \<Rightarrow> b)"

definition copied_service :: "int \<Rightarrow> int \<Rightarrow> base_service \<Rightarrow> service" where
  "copied_service new_id master_id bs =
     \<lparr>sv_id = new_id, sv_master_id = master_id, sv_base_service_id = Some (bs_id bs), sv_name = bs_name bs,
      sv_title_uk = or_option (bs_title_uk bs) (Some (bs_name bs)), sv_title_en = bs_title_en bs,
      sv_description = bs_description bs,
      sv_description_uk = or_option (bs_description_uk bs) (bs_description bs),
      sv_description_en = bs_description_en bs, sv_duration_minutes = bs_duration_minutes bs,
      sv_price = bs_price bs, sv_is_active = bs_is_active bs\<rparr>"

fun copy_loop ::
  "int \<Rightarrow> int set \<Rightarrow> base_service list \<Rightarrow> service table \<Rightarrow> service list \<Rightarrow> service table \<times> service list" where
  "copy_loop master_id existing [] t copied = (t, copied)"
| "copy_loop master_id existing (bs # bss) t copied =
     (if bs_id bs \<in> existing then copy_loop master_id existing bss t copied
      else let s = copied_service (next_id t) master_id bs
           in copy_loop master_id existing bss (put (sv_id s) s t) (copied @ [s]))"

definition copy_active_base_services_to_master_id :: "salon \<Rightarrow> int \<Rightarrow> salon \<times> service list" where
  "copy_active_base_services_to_master_id db master_id =
     (let base = sort_key bs_id (select_where bs_is_active (base_services db))
      in if base = [] then (db, [])
         else let existing = set (List.map_filter sv_base_service_id
                    (select_where (\<lambda>s. sv_master_id s = master_id) (services db)));
                  (t, copied) = copy_loop master_id existing base (services db) []
              in (db\<lparr>services := t\<rparr>, copied))"

definition sync_default_services_for_barber :: "salon \<Rightarrow> int \<Rightarrow> salon \<times> int" where
  "sync_default_services_for_barber db barber_id =
     (let (db, copied) = copy_active_base_services_to_master_id db barber_id
      in (db, int (length copied)))"

chapter \<open>Facts\<close>

section \<open>Redirects\<close>

text \<open>One step of the redirect chain, between active masters.\<close>

inductive redirects_to :: "salon \<Rightarrow> master \<Rightarrow> master \<Rightarrow> bool" for db where
  redirect: "booking_redirect m = Some r \<Longrightarrow> get_active_master_with_services db r = Inr m'
    \<Longrightarrow> redirects_to db m m'"

inductive_cases redirects_toE: "redirects_to db m m'"

lemma redirects_to_deterministic: "redirects_to db m a \<Longrightarrow> redirects_to db m b \<Longrightarrow> a = b"
  by (auto elim!: redirects_toE)

text \<open>In a deterministic relation a chain that reaches a stuck state has no cycle.\<close>

lemma stuck_no_cycle:
  assumes det: "\<And>x y z. R x y \<Longrightarrow> R x z \<Longrightarrow> y = z"
    and "R\<^sup>*\<^sup>* m t" and "\<And>y. \<not> R t y" and "R\<^sup>*\<^sup>* m c"
  shows "\<not> R\<^sup>+\<^sup>+ c c"
proof -
  have reach: "R\<^sup>*\<^sup>* c t" if "R\<^sup>*\<^sup>* m c" for c
    using that
  proof (induction rule: rtranclp_induct)
    case base
    show ?case by (rule assms(2))
  next
    case (step y z)
    from step.IH step.hyps(2) assms(3) show ?case
      by (metis converse_rtranclpE det)
  qed
  have stay: "R\<^sup>*\<^sup>* d c" if "R\<^sup>+\<^sup>+ c c" and "R\<^sup>*\<^sup>* c d" for d
    using that(2)
  proof (induction rule: rtranclp_induct)
    case base
    show ?case by simp
  next
    case (step y z)
    have "R\<^sup>+\<^sup>+ y c" using step.IH that(1) by (metis rtranclp_into_tranclp2 rtranclp_tranclp_tranclp)
    then show ?case by (metis det step.hyps(2) tranclpD)
  qed
  show ?thesis
  proof
    assume cyc: "R\<^sup>+\<^sup>+ c c"
    from stay [OF cyc reach [OF assms(4)]] have "R\<^sup>*\<^sup>* t c" .
    with assms(3) have "t = c" by (metis converse_rtranclpE)
    with cyc assms(3) show False by (metis tranclpD)
  qed
qed

lemma follow_redirects_outcome:
  assumes "has_id ms_id (masters db)"
    and "\<And>i. i \<in> set visited \<Longrightarrow> \<exists>v. get_active_master_with_services db i = Inr v \<and> (redirects_to db)\<^sup>*\<^sup>* v m"
  shows "case follow_redirects db visited m of
      Inr b \<Rightarrow> (redirects_to db)\<^sup>*\<^sup>* m b \<and> booking_redirect b = None
    | Inl e \<Rightarrow> (e = HTTPException 400 ''Booking redirect cycle detected''
          \<and> (\<exists>c. (redirects_to db)\<^sup>*\<^sup>* m c \<and> (redirects_to db)\<^sup>+\<^sup>+ c c))
        \<or> (e = HTTPException 404 ''Master not found''
          \<and> (\<exists>t. (redirects_to db)\<^sup>*\<^sup>* m t \<and> booking_redirect t \<noteq> None \<and> (\<forall>y. \<not> redirects_to db t y)))"
  using assms(2)
proof (induction db visited m rule: follow_redirects.induct)
  case (1 db visited m)
  show ?case
  proof (cases "booking_redirect m")
    case None
    then show ?thesis by (simp add: follow_redirects.simps [of db visited m])
  next
    case (Some r)
    show ?thesis
    proof (cases "r \<in> set visited")
      case True
      then obtain v where v: "get_active_master_with_services db r = Inr v" "(redirects_to db)\<^sup>*\<^sup>* v m"
        using "1.prems" by blast
      have "redirects_to db m v" using Some v(1) by (rule redirect)
      with v(2) have "(redirects_to db)\<^sup>+\<^sup>+ m m" by (metis rtranclp_into_tranclp2)
      with True Some show ?thesis
        by (auto simp: follow_redirects.simps [of db visited m])
    next
      case fresh: False
      show ?thesis
      proof (cases "get_active_master_with_services db r")
        case (Inl e)
        then have "\<forall>y. \<not> redirects_to db m y" using Some by (auto elim: redirects_toE)
        moreover from Inl have "e = HTTPException 404 ''Master not found''"
          by (auto simp: get_active_master_with_services_def split: option.splits if_splits)
        ultimately show ?thesis
          using Inl Some fresh by (auto simp: follow_redirects.simps [of db visited m])
      next
        case (Inr m')
        have step: "redirects_to db m m'" using Some Inr by (rule redirect)
        have "\<And>i. i \<in> set (r # visited) \<Longrightarrow>
            \<exists>v. get_active_master_with_services db i = Inr v \<and> (redirects_to db)\<^sup>*\<^sup>* v m'"
          using "1.prems" Inr step by (auto intro: rtranclp.rtrancl_into_rtrancl)
        from "1.IH" [OF Some fresh Inr this] show ?thesis
          using Inr Some fresh step converse_rtranclp_into_rtranclp [of "redirects_to db", OF step]
          by (auto simp: follow_redirects.simps [of db visited m] split: sum.splits)
            (metis option.distinct(1))
      qed
    qed
  qed
qed

lemma get_active_id:
  "has_id ms_id (masters db) \<Longrightarrow> get_active_master_with_services db i = Inr m \<Longrightarrow> ms_id m = i"
  by (auto simp: get_active_master_with_services_def has_id_get split: option.splits if_splits)

lemma follow_redirects_start:
  assumes "has_id ms_id (masters db)" and "get_active_master_with_services db i = Inr m"
  shows "case follow_redirects db [ms_id m] m of
      Inr b \<Rightarrow> (redirects_to db)\<^sup>*\<^sup>* m b \<and> booking_redirect b = None
    | Inl e \<Rightarrow> (e = HTTPException 400 ''Booking redirect cycle detected''
          \<and> (\<exists>c. (redirects_to db)\<^sup>*\<^sup>* m c \<and> (redirects_to db)\<^sup>+\<^sup>+ c c))
        \<or> (e = HTTPException 404 ''Master not found''
          \<and> (\<exists>t. (redirects_to db)\<^sup>*\<^sup>* m t \<and> booking_redirect t \<noteq> None \<and> (\<forall>y. \<not> redirects_to db t y)))"
  by (rule follow_redirects_outcome [OF assms(1)]) (use assms get_active_id in auto)

lemma no_redirect_stuck: "booking_redirect b = None \<Longrightarrow> \<not> redirects_to db b y"
  by (auto elim: redirects_toE)

lemma follow_redirects_Inr:
  assumes "has_id ms_id (masters db)" and "get_active_master_with_services db i = Inr m"
  shows "follow_redirects db [ms_id m] m = Inr b \<longleftrightarrow>
    (redirects_to db)\<^sup>*\<^sup>* m b \<and> booking_redirect b = None"
proof
  assume "follow_redirects db [ms_id m] m = Inr b"
  with follow_redirects_start [OF assms] show "(redirects_to db)\<^sup>*\<^sup>* m b \<and> booking_redirect b = None"
    by simp
next
  assume b: "(redirects_to db)\<^sup>*\<^sup>* m b \<and> booking_redirect b = None"
  have stuck: "\<not> redirects_to db b y" for y using b no_redirect_stuck by blast
  have no_cycle: "\<not> (redirects_to db)\<^sup>+\<^sup>+ c c" if "(redirects_to db)\<^sup>*\<^sup>* m c" for c
    by (rule stuck_no_cycle [of "redirects_to db" m b])
      (use b stuck that redirects_to_deterministic in blast)+
  have unique: "t = b" if "(redirects_to db)\<^sup>*\<^sup>* m t" "\<forall>y. \<not> redirects_to db t y" for t
  proof -
    have "(redirects_to db)\<^sup>*\<^sup>* b t \<or> (redirects_to db)\<^sup>*\<^sup>* t b"
      using that(1)
    proof (induction rule: rtranclp_induct)
      case base
      show ?case using b by blast
    next
      case (step y z)
      then show ?case
        by (metis converse_rtranclpE redirects_to_deterministic rtranclp.rtrancl_into_rtrancl)
    qed
    then show ?thesis using that(2) stuck by (metis converse_rtranclpE)
  qed
  show "follow_redirects db [ms_id m] m = Inr b"
  proof (cases "follow_redirects db [ms_id m] m")
    case (Inl e)
    with follow_redirects_start [OF assms] no_cycle obtain t where
      t: "(redirects_to db)\<^sup>*\<^sup>* m t" "booking_redirect t \<noteq> None" "\<forall>y. \<not> redirects_to db t y"
      by auto
    from unique [OF t(1,3)] t(2) b show ?thesis by simp
  next
    case (Inr b')
    with follow_redirects_start [OF assms] no_redirect_stuck
    have "(redirects_to db)\<^sup>*\<^sup>* m b'" "\<forall>y. \<not> redirects_to db b' y" by auto
    from unique [OF this] Inr show ?thesis by simp
  qed
qed

lemma resolve_booking_master_iff:
  assumes "has_id ms_id (masters db)"
  shows "resolve_booking_master db i = Inr (r, b) \<longleftrightarrow>
    get_active_master_with_services db i = Inr r
    \<and> (redirects_to db)\<^sup>*\<^sup>* r b \<and> booking_redirect b = None"
  using follow_redirects_Inr [OF assms]
  by (auto simp: resolve_booking_master_def and_then_eq_Inr)

lemma resolve_booking_master_cycle:
  assumes "has_id ms_id (masters db)"
  shows "resolve_booking_master db i = bad_request ''Booking redirect cycle detected'' \<longleftrightarrow>
    (\<exists>r c. get_active_master_with_services db i = Inr r
      \<and> (redirects_to db)\<^sup>*\<^sup>* r c \<and> (redirects_to db)\<^sup>+\<^sup>+ c c)"
proof (cases "get_active_master_with_services db i")
  case (Inl e)
  then show ?thesis
    by (auto simp: resolve_booking_master_def get_active_master_with_services_def
        split: option.splits if_splits)
next
  case (Inr r)
  have det: "\<not> (redirects_to db)\<^sup>+\<^sup>+ c c"
    if "(redirects_to db)\<^sup>*\<^sup>* r t" "\<forall>y. \<not> redirects_to db t y" "(redirects_to db)\<^sup>*\<^sup>* r c" for t c
    by (rule stuck_no_cycle [of "redirects_to db" r t])
      (use that redirects_to_deterministic in blast)+
  show ?thesis
    using follow_redirects_start [OF assms Inr] det no_redirect_stuck
    by (cases "follow_redirects db [ms_id r] r")
      (simp_all add: resolve_booking_master_def Inr, blast+)
qed

section \<open>Loading services\<close>

definition loadable :: "salon \<Rightarrow> int \<Rightarrow> bool" where
  "loadable db i \<longleftrightarrow> (\<exists>s. get_active_service db i = Inr s)"

lemma get_active_service_Inr:
  "get_active_service db i = Inr s \<longleftrightarrow>
     get (services db) i = Some s \<and> sv_is_active s \<and> \<not> base_unavailable db s"
  by (auto simp: get_active_service_def split: option.splits)

lemma get_active_service_Inl:
  "get_active_service db i = Inl e \<Longrightarrow> e = HTTPException 404 ''Service not found''"
  by (auto simp: get_active_service_def split: option.splits if_splits)

lemma load_each_result:
  assumes "has_id sv_id (services db)"
  shows "load_each db sids by_id =
    (if \<forall>i \<in> set sids. loadable db i
     then Inr (\<lambda>i. if i \<in> set sids then get (services db) i else by_id i)
     else not_found ''Service not found'')"
proof (induction sids arbitrary: by_id)
  case Nil
  then show ?case by simp
next
  case (Cons i sids)
  show ?case
  proof (cases "get_active_service db i")
    case (Inl e)
    with get_active_service_Inl [OF Inl] show ?thesis by (auto simp: loadable_def)
  next
    case (Inr s)
    then have "get (services db) i = Some s" "loadable db i" "sv_id s = i"
      using assms by (auto simp: get_active_service_Inr loadable_def has_id_get)
    then show ?thesis by (auto simp: Cons.IH Inr fun_eq_iff)
  qed
qed

lemma lookup_all_result:
  assumes "\<And>i. i \<in> set sids \<Longrightarrow> by_id i = Some (f i)"
  shows "lookup_all by_id sids = Inr (map f sids)"
  using assms by (induction sids) auto

lemma check_all_result:
  assumes "\<And>i. i \<in> set sids \<Longrightarrow>
      by_id i = (case get (services db) i of Some s \<Rightarrow> if sv_is_active s then Some s else None | None \<Rightarrow> None)"
  shows "check_all db by_id sids =
    (if \<forall>i \<in> set sids. loadable db i then Inr (map (\<lambda>i. the (get (services db) i)) sids)
     else not_found ''Service not found'')"
  using assms
proof (induction sids)
  case Nil
  then show ?case by simp
next
  case (Cons i sids)
  have IH: "check_all db by_id sids =
    (if \<forall>i \<in> set sids. loadable db i then Inr (map (\<lambda>i. the (get (services db) i)) sids)
     else not_found ''Service not found'')"
    by (rule Cons.IH) (simp add: Cons.prems)
  have head: "by_id i = (case get (services db) i of Some s \<Rightarrow> if sv_is_active s then Some s else None | None \<Rightarrow> None)"
    by (rule Cons.prems) simp
  have "loadable db i \<longleftrightarrow> (case get (services db) i of
      Some s \<Rightarrow> sv_is_active s \<and> \<not> base_unavailable db s | None \<Rightarrow> False)"
    by (auto simp: loadable_def get_active_service_Inr split: option.splits)
  then show ?case
    by (cases "get (services db) i") (simp_all add: head IH)
qed

lemma bulk_lookup:
  assumes "has_id sv_id (services db)" and "i \<in> S"
  shows "map_of (map (\<lambda>s. (sv_id s, s)) (select_where (\<lambda>s. sv_id s \<in> S \<and> sv_is_active s) (services db))) i
    = (case get (services db) i of Some s \<Rightarrow> if sv_is_active s then Some s else None | None \<Rightarrow> None)"
    (is "map_of ?xs i = ?r")
proof -
  have some: "map_of ?xs i = Some s \<Longrightarrow> get (services db) i = Some s \<and> sv_is_active s" for s
    using has_id_rows [OF assms(1)] by (auto simp: select_where_def dest!: map_of_SomeD)
  have "map_of ?xs i = None \<longleftrightarrow> \<not> (\<exists>s. get (services db) i = Some s \<and> sv_is_active s)"
    using assms has_id_rows [OF assms(1)] has_id_get [OF assms(1)] get_in_rows [of "services db" i]
    by (auto simp: map_of_eq_None_iff select_where_def image_iff)
  with some show ?thesis
    by (cases "map_of ?xs i") (auto split: option.splits)
qed

lemma get_active_services_bulk_result:
  assumes "has_id sv_id (services db)"
  shows "get_active_services_bulk db sids =
    (if \<forall>i \<in> set sids. loadable db i then Inr (map (\<lambda>i. the (get (services db) i)) sids)
     else not_found ''Service not found'')"
  unfolding get_active_services_bulk_def
  by (rule check_all_result) (simp add: bulk_lookup [OF assms])

lemma get_active_services_each_result:
  assumes "has_id sv_id (services db)"
  shows "get_active_services_each db sids =
    (if \<forall>i \<in> set sids. loadable db i then Inr (map (\<lambda>i. the (get (services db) i)) sids)
     else not_found ''Service not found'')"
proof (cases "\<forall>i \<in> set sids. loadable db i")
  case True
  then have "get (services db) i = Some (the (get (services db) i))" if "i \<in> set sids" for i
    using that by (auto simp: loadable_def get_active_service_Inr)
  then show ?thesis
    unfolding get_active_services_each_def load_each_result [OF assms] and_then_def
    by (simp add: True lookup_all_result)
qed (auto simp: get_active_services_each_def load_each_result [OF assms])

lemma get_active_services_result:
  assumes "has_id sv_id (services db)"
  shows "get_active_services db sids =
    (if \<forall>i \<in> set sids. loadable db i then Inr (map (\<lambda>i. the (get (services db) i)) sids)
     else not_found ''Service not found'')"
  by (simp add: get_active_services_def get_active_services_bulk_result [OF assms]
      get_active_services_each_result [OF assms])

lemma get_active_services_Inr:
  assumes "has_id sv_id (services db)" and "get_active_services db sids = Inr ss"
  shows "map sv_id ss = sids" and "\<And>s. s \<in> set ss \<Longrightarrow> s \<in> set (rows (services db)) \<and> is_active_service db s"
proof -
  have all: "\<forall>i \<in> set sids. loadable db i" and ss: "ss = map (\<lambda>i. the (get (services db) i)) sids"
    using assms(2) by (auto simp: get_active_services_result [OF assms(1)] split: if_splits)
  have each: "\<exists>s. get (services db) i = Some s \<and> sv_id s = i \<and> is_active_service db s" if "i \<in> set sids" for i
    using all that assms(1)
    by (fastforce simp: loadable_def get_active_service_Inr has_id_get is_active_service_def
        base_unavailable_def split: option.splits)
  show "map sv_id ss = sids" using each by (force simp: ss intro: map_idI)
  show "s \<in> set (rows (services db)) \<and> is_active_service db s" if "s \<in> set ss" for s
    using each that get_in_rows by (fastforce simp: ss)
qed

section \<open>Resolving the booked services\<close>

lemma find_redirect_service_Some:
  assumes "find_redirect_service db booking s = Some r"
  shows "r \<in> set (master_services db booking) \<and> is_active_service db r
    \<and> sv_base_service_id r = sv_base_service_id s
    \<and> (sv_base_service_id s = None \<longrightarrow> custom_service_key r = custom_service_key s)"
  using assms
  by (auto simp: find_redirect_service_def Let_def dest!: find_Some_mem split: option.splits)

definition stands_for :: "salon \<Rightarrow> master \<Rightarrow> service \<Rightarrow> service \<Rightarrow> bool" where
  "stands_for db booking s r \<longleftrightarrow> r = s \<or>
     (r \<in> set (master_services db booking) \<and> is_active_service db r
      \<and> sv_base_service_id r = sv_base_service_id s
      \<and> (sv_base_service_id s = None \<longrightarrow> custom_service_key r = custom_service_key s))"

lemma redirect_services_Inr:
  "redirect_services db requested booking ss = Inr rs \<Longrightarrow> list_all2 (stands_for db booking) ss rs"
proof (induction ss arbitrary: rs)
  case (Cons s ss)
  then show ?case
    using find_redirect_service_Some [of db booking s]
    by (auto simp: and_then_eq_Inr stands_for_def split: if_splits option.splits)
qed simp

lemma resolve_services_Inr:
  assumes "resolve_booking_services_for_master db requested booking sids (Some ss) = Inr rs"
  shows "list_all2 (stands_for db booking) ss rs"
    and "ms_id requested \<noteq> ms_id booking \<Longrightarrow> distinct (map sv_id rs)"
    and "ms_id requested = ms_id booking \<Longrightarrow> rs = ss \<and> sv_id ` set ss \<subseteq> sv_id ` set (master_services db booking)"
proof -
  have refl: "list_all2 (stands_for db booking) ss ss"
    by (simp add: list_all2_same stands_for_def)
  show "list_all2 (stands_for db booking) ss rs"
    using assms refl
    by (auto simp: resolve_booking_services_for_master_def and_then_eq_Inr
        split: if_splits dest: redirect_services_Inr)
  show "distinct (map sv_id rs)" if "ms_id requested \<noteq> ms_id booking"
    using assms that
    by (auto simp: resolve_booking_services_for_master_def and_then_eq_Inr length_remdups_eq
        distinct_map distinct_card card_distinct split: if_splits)
      (metis card_distinct length_map length_remdups_card_conv list.set_map distinct_map)+
  show "rs = ss \<and> sv_id ` set ss \<subseteq> sv_id ` set (master_services db booking)" if "ms_id requested = ms_id booking"
    using assms that
    by (auto simp: resolve_booking_services_for_master_def and_then_eq_Inr
        ensure_master_provides_services_def filter_empty_conv split: if_splits)
qed

section \<open>Copying the base catalogue\<close>

definition offers_base :: "service table \<Rightarrow> int \<Rightarrow> int \<Rightarrow> bool" where
  "offers_base t m b \<longleftrightarrow> (\<exists>s \<in> set (rows t). sv_master_id s = m \<and> sv_base_service_id s = Some b)"

text \<open>The index \<open>uq_barber_services_master_base_service\<close>.\<close>

definition catalog_unique :: "service table \<Rightarrow> bool" where
  "catalog_unique t \<longleftrightarrow> (\<forall>s \<in> set (rows t). \<forall>s' \<in> set (rows t).
     sv_base_service_id s \<noteq> None \<and> sv_master_id s = sv_master_id s'
       \<and> sv_base_service_id s = sv_base_service_id s' \<longrightarrow> s = s')"

lemma offers_base_put_next:
  "offers_base (put (next_id t) s t) m b \<longleftrightarrow>
     offers_base t m b \<or> (sv_master_id s = m \<and> sv_base_service_id s = Some b)"
  by (auto simp: offers_base_def rows_put_next)

lemma catalog_unique_put_next:
  assumes "catalog_unique t"
    and "\<And>b. sv_base_service_id s = Some b \<Longrightarrow> \<not> offers_base t (sv_master_id s) b"
  shows "catalog_unique (put (next_id t) s t)"
  using assms unfolding catalog_unique_def offers_base_def rows_put_next by (auto; metis)

lemma has_id_distinct:
  assumes "has_id f t"
  shows "distinct (map f (rows t))"
proof -
  have "map f (rows t) = ids t"
    using assms by (auto simp: rows_def ids_def has_id_def table_ok_def intro!: map_of_is_SomeI)
  then show ?thesis using assms by (simp add: has_id_def table_ok_def)
qed

lemma copy_loop_none:
  "(\<And>bs. bs \<in> set bss \<Longrightarrow> bs_id bs \<in> existing) \<Longrightarrow> copy_loop m existing bss t copied = (t, copied)"
  by (induction bss) auto

lemma copy_loop_correct:
  assumes "copy_loop m existing bss t copied = (t', copied')"
    and "has_id sv_id t" and "catalog_unique t" and "distinct (map bs_id bss)"
    and "\<And>bs. bs \<in> set bss \<Longrightarrow> bs_id bs \<in> existing \<longleftrightarrow> offers_base t m (bs_id bs)"
  shows "has_id sv_id t' \<and> catalog_unique t'
    \<and> (\<exists>new. rows t' = rows t @ new \<and> copied' = copied @ new
        \<and> map sv_base_service_id new = map (\<lambda>bs. Some (bs_id bs)) (filter (\<lambda>bs. bs_id bs \<notin> existing) bss)
        \<and> (\<forall>s \<in> set new. sv_master_id s = m))"
  using assms
proof (induction m existing bss t copied rule: copy_loop.induct)
  case (1 m existing t copied)
  then show ?case by simp
next
  case (2 m existing bs bss t copied)
  show ?case
  proof (cases "bs_id bs \<in> existing")
    case True
    with 2 show ?thesis by simp
  next
    case False
    define s where "s = copied_service (next_id t) m bs"
    have s: "sv_id s = next_id t" "sv_master_id s = m" "sv_base_service_id s = Some (bs_id bs)"
      by (simp_all add: s_def copied_service_def)
    have free: "\<not> offers_base t m (bs_id bs)" using 2(7) [of bs] False by simp
    have "has_id sv_id (put (sv_id s) s t)" using "2.prems"(2) by (rule has_id_put) simp
    moreover have "catalog_unique (put (sv_id s) s t)"
      using catalog_unique_put_next [OF "2.prems"(3), of s] free by (simp add: s)
    moreover have "bs_id c \<in> existing \<longleftrightarrow> offers_base (put (sv_id s) s t) m (bs_id c)" if "c \<in> set bss" for c
      using "2.prems"(4) "2.prems"(5) [of c] that by (auto simp: s offers_base_put_next)
    ultimately have "has_id sv_id t' \<and> catalog_unique t'
      \<and> (\<exists>new. rows t' = rows (put (sv_id s) s t) @ new \<and> copied' = (copied @ [s]) @ new
        \<and> map sv_base_service_id new = map (\<lambda>bs. Some (bs_id bs)) (filter (\<lambda>bs. bs_id bs \<notin> existing) bss)
        \<and> (\<forall>s \<in> set new. sv_master_id s = m))"
      using "2.IH"(2) [OF False refl] "2.prems"(1,4) False by (simp add: s_def Let_def)
    then obtain new where "has_id sv_id t'" "catalog_unique t'" "rows t' = rows t @ (s # new)"
      "copied' = copied @ (s # new)"
      "map sv_base_service_id new = map (\<lambda>bs. Some (bs_id bs)) (filter (\<lambda>bs. bs_id bs \<notin> existing) bss)"
      "\<forall>s \<in> set new. sv_master_id s = m"
      by (auto simp: s rows_put_next)
    then show ?thesis using False s by (intro conjI exI [of _ "s # new"]) auto
  qed
qed

lemma existing_base_ids:
  "b \<in> set (List.map_filter sv_base_service_id (select_where (\<lambda>s. sv_master_id s = m) t))
     \<longleftrightarrow> offers_base t m b"
  by (auto simp: offers_base_def select_where_def List.map_filter_def image_iff)

lemma copy_active_correct:
  assumes "copy_active_base_services_to_master_id db m = (db', copied)"
    and "has_id sv_id (services db)" and "catalog_unique (services db)"
    and "has_id bs_id (base_services db)"
  shows "has_id sv_id (services db') \<and> catalog_unique (services db')
    \<and> rows (services db') = rows (services db) @ copied \<and> db' = db\<lparr>services := services db'\<rparr>
    \<and> (\<forall>s \<in> set copied. sv_master_id s = m)
    \<and> map sv_base_service_id copied = map (\<lambda>bs. Some (bs_id bs))
        (filter (\<lambda>bs. \<not> offers_base (services db) m (bs_id bs))
          (sort_key bs_id (select_where bs_is_active (base_services db))))"
proof -
  let ?base = "sort_key bs_id (select_where bs_is_active (base_services db))"
  let ?existing = "set (List.map_filter sv_base_service_id
      (select_where (\<lambda>s. sv_master_id s = m) (services db)))"
  have "distinct (map bs_id (select_where bs_is_active (base_services db)))"
    using has_id_distinct [OF assms(4)] by (simp add: select_where_def distinct_map_filter)
  then have "distinct (map bs_id ?base)"
    by (simp add: distinct_map)
  moreover obtain t' c' where loop: "copy_loop m ?existing ?base (services db) [] = (t', c')"
    by (cases "copy_loop m ?existing ?base (services db) []")
  ultimately have facts: "has_id sv_id t' \<and> catalog_unique t' \<and> rows t' = rows (services db) @ c'
    \<and> map sv_base_service_id c' = map (\<lambda>bs. Some (bs_id bs)) (filter (\<lambda>bs. bs_id bs \<notin> ?existing) ?base)
    \<and> (\<forall>s \<in> set c'. sv_master_id s = m)"
    using copy_loop_correct [OF loop assms(2,3)] by (auto simp: existing_base_ids)
  have "copy_active_base_services_to_master_id db m = (db\<lparr>services := t'\<rparr>, c')"
    using loop by (cases "?base = []") (simp_all add: copy_active_base_services_to_master_id_def Let_def)
  with assms(1) facts show ?thesis
    by (auto simp: existing_base_ids simp del: sort_key_simps)
qed

lemma copy_active_offers:
  assumes "copy_active_base_services_to_master_id db m = (db', copied)"
    and "has_id sv_id (services db)" and "catalog_unique (services db)"
    and "has_id bs_id (base_services db)" and "get (base_services db) b = Some bs" and "bs_is_active bs"
  shows "offers_base (services db') m b"
proof (cases "offers_base (services db) m b")
  case True
  then show ?thesis
    using copy_active_correct [OF assms(1-4)] by (auto simp: offers_base_def)
next
  case False
  have "bs_id bs = b" using assms(4,5) by (rule has_id_get)
  then have "Some b \<in> set (map sv_base_service_id copied)"
    using copy_active_correct [OF assms(1-4)] False assms(6) get_in_rows [OF assms(5)]
    by (auto simp: select_where_def simp del: set_map) (auto simp: image_iff)
  then obtain s where "s \<in> set copied" "sv_base_service_id s = Some b" by auto
  then show ?thesis
    using copy_active_correct [OF assms(1-4)] unfolding offers_base_def by (metis UnI2 set_append)
qed

lemma copy_active_again:
  assumes "copy_active_base_services_to_master_id db m = (db', copied)"
    and "has_id sv_id (services db)" and "catalog_unique (services db)"
    and "has_id bs_id (base_services db)"
  shows "copy_active_base_services_to_master_id db' m = (db', [])"
proof -
  note first = copy_active_correct [OF assms]
  have base: "base_services db' = base_services db"
    using first by (metis salon.select_convs(2) salon.surjective salon.update_convs(3))
  have "offers_base (services db') m (bs_id bs)"
    if "bs \<in> set (select_where bs_is_active (base_services db))" for bs
    using copy_active_offers [OF assms, of "bs_id bs" bs] that has_id_rows [OF assms(4)]
    by (auto simp: select_where_def)
  then have "copy_loop m (set (List.map_filter sv_base_service_id
      (select_where (\<lambda>s. sv_master_id s = m) (services db'))))
      (sort_key bs_id (select_where bs_is_active (base_services db'))) (services db') [] = (services db', [])"
    by (intro copy_loop_none) (simp add: existing_base_ids base)
  then show ?thesis
    by (simp add: copy_active_base_services_to_master_id_def Let_def)
qed

chapter \<open>Properties\<close>

text \<open>A small salon for concrete runs: master 2 redirects to master 1, both offer the base service 10.\<close>

definition demo_master :: "int \<Rightarrow> int option \<Rightarrow> master" where
  "demo_master i r = \<lparr>ms_id = i, ms_admin_user_id = None, ms_full_name = ''M'', ms_last_name = None,
     ms_booking_redirect_master_id = r, ms_show_on_master_block = True, ms_is_active = True\<rparr>"

definition demo_base :: base_service where
  "demo_base = \<lparr>bs_id = 10, bs_name = ''Cut'', bs_title_uk = None, bs_title_en = None, bs_description = None,
     bs_description_uk = None, bs_description_en = None, bs_duration_minutes = 60, bs_price = 500,
     bs_is_active = True\<rparr>"

definition demo_service :: "int \<Rightarrow> int \<Rightarrow> service" where
  "demo_service i m = copied_service i m demo_base"

definition demo_salon :: salon where
  "demo_salon = empty_salon\<lparr>masters := [(1, demo_master 1 None), (2, demo_master 2 (Some 1)),
       (3, demo_master 3 (Some 4)), (4, demo_master 4 (Some 3))],
     base_services := [(10, demo_base)],
     services := [(21, demo_service 21 1), (22, demo_service 22 2)]\<rparr>"

lemmas demo_defs = demo_salon_def demo_master_def demo_service_def demo_base_def copied_service_def empty_salon_def

lemma demo_ids:
  "has_id ms_id (masters demo_salon)" "has_id sv_id (services demo_salon)"
  "has_id bs_id (base_services demo_salon)" "catalog_unique (services demo_salon)"
  by (auto simp: demo_defs has_id_def table_ok_def ids_def catalog_unique_def rows_def split: if_splits)

text \<open>C38: resolving the booking master returns the requested active master and the end of its
  redirect chain: it succeeds with \<open>b\<close> exactly when \<open>b\<close> is reached over active masters and
  redirects no further. The loop always ends.\<close>

theorem resolve_booking_master_exact:
  assumes "has_id ms_id (masters db)"
  shows "resolve_booking_master db i = Inr (r, b) \<longleftrightarrow>
    get_active_master_with_services db i = Inr r
    \<and> (redirects_to db)\<^sup>*\<^sup>* r b \<and> booking_redirect b = None"
  by (rule resolve_booking_master_iff [OF assms])

theorem resolve_booking_master_exact_witness:
  "resolve_booking_master demo_salon 2 = Inr (demo_master 2 (Some 1), demo_master 1 None)"
proof -
  have "redirects_to demo_salon (demo_master 2 (Some 1)) (demo_master 1 None)"
    by (rule redirect [of _ 1]) (simp_all add: booking_redirect_def get_active_master_with_services_def demo_defs)
  then show ?thesis
    unfolding resolve_booking_master_exact [OF demo_ids(1)]
    by (auto simp: booking_redirect_def get_active_master_with_services_def demo_defs)
qed

text \<open>The error of a redirect cycle is raised exactly when the chain from the requested active
  master runs into a cycle of active masters.\<close>

theorem redirect_cycle_error_exact:
  assumes "has_id ms_id (masters db)"
  shows "resolve_booking_master db i = bad_request ''Booking redirect cycle detected'' \<longleftrightarrow>
    (\<exists>r c. get_active_master_with_services db i = Inr r
      \<and> (redirects_to db)\<^sup>*\<^sup>* r c \<and> (redirects_to db)\<^sup>+\<^sup>+ c c)"
  by (rule resolve_booking_master_cycle [OF assms])

theorem redirect_cycle_error_exact_witness:
  "resolve_booking_master demo_salon 3 = bad_request ''Booking redirect cycle detected''"
proof -
  have "redirects_to demo_salon (demo_master 3 (Some 4)) (demo_master 4 (Some 3))"
    by (rule redirect [of _ 4]) (simp_all add: booking_redirect_def get_active_master_with_services_def demo_defs)
  moreover have "redirects_to demo_salon (demo_master 4 (Some 3)) (demo_master 3 (Some 4))"
    by (rule redirect [of _ 3]) (simp_all add: booking_redirect_def get_active_master_with_services_def demo_defs)
  moreover have "get_active_master_with_services demo_salon 3 = Inr (demo_master 3 (Some 4))"
    by (simp add: get_active_master_with_services_def demo_defs)
  ultimately show ?thesis
    unfolding redirect_cycle_error_exact [OF demo_ids(1)] by (meson rtranclp.rtrancl_refl tranclp.intros)
qed

text \<open>Loading services with one bulk query gives the same services in the same order, or the
  same error, as loading them one by one.\<close>

theorem bulk_loading_agrees:
  assumes "has_id sv_id (services db)"
  shows "get_active_services_bulk db sids = get_active_services_each db sids"
  by (simp add: get_active_services_bulk_result [OF assms] get_active_services_each_result [OF assms])

theorem bulk_loading_agrees_witness:
  "get_active_services_bulk demo_salon [22, 21] = get_active_services_each demo_salon [22, 21]"
  by (rule bulk_loading_agrees [OF demo_ids(2)])

text \<open>The services a booking is made with stand for the requested ones, one each and in order:
  every one is the requested service itself or an active service of the booking master with the same
  base service or, for a custom service, the same title, duration and price. For a redirected booking
  they are pairwise different; otherwise they are the requested services, all of them provided by the
  booking master.\<close>

theorem resolved_services_stand_for_requested:
  assumes "resolve_booking_services_for_master db requested booking sids (Some ss) = Inr rs"
  shows "list_all2 (stands_for db booking) ss rs
    \<and> (if ms_id requested = ms_id booking
       then rs = ss \<and> sv_id ` set ss \<subseteq> sv_id ` set (master_services db booking)
       else distinct (map sv_id rs))"
  using resolve_services_Inr [OF assms] by simp

theorem resolved_services_stand_for_requested_witness:
  "list_all2 (stands_for demo_salon (demo_master 1 None)) [demo_service 22 2] [demo_service 21 1]"
  using resolved_services_stand_for_requested
    [of demo_salon "demo_master 2 (Some 1)" "demo_master 1 None" "[22]" "[demo_service 22 2]" "[demo_service 21 1]"]
  by (simp add: resolve_booking_services_for_master_def master_services_def select_where_def rows_def
      find_redirect_service_def is_active_service_def base_service_of_def demo_defs)

text \<open>Copying the base catalogue to a master only appends services of that master, keeps one
  service per master and base service (so the unique index cannot fail), makes the master offer every
  active base service, and copies nothing when run again.\<close>

theorem copy_base_catalogue:
  assumes "copy_active_base_services_to_master_id db m = (db', copied)"
    and "has_id sv_id (services db)" and "catalog_unique (services db)"
    and "has_id bs_id (base_services db)"
  shows "rows (services db') = rows (services db) @ copied \<and> (\<forall>s \<in> set copied. sv_master_id s = m)
    \<and> has_id sv_id (services db') \<and> catalog_unique (services db')
    \<and> (\<forall>b bs. get (base_services db) b = Some bs \<and> bs_is_active bs \<longrightarrow> offers_base (services db') m b)
    \<and> copy_active_base_services_to_master_id db' m = (db', [])"
  using copy_active_correct [OF assms] copy_active_offers [OF assms] copy_active_again [OF assms] by blast

theorem copy_base_catalogue_witness:
  "\<exists>db' copied. copy_active_base_services_to_master_id demo_salon 5 = (db', copied)
     \<and> offers_base (services db') 5 10 \<and> copy_active_base_services_to_master_id db' 5 = (db', [])"
proof -
  obtain db' copied where run: "copy_active_base_services_to_master_id demo_salon 5 = (db', copied)"
    by (cases "copy_active_base_services_to_master_id demo_salon 5")
  have "get (base_services demo_salon) 10 = Some demo_base" "bs_is_active demo_base"
    by (simp_all add: demo_defs)
  with copy_base_catalogue [OF run demo_ids(2,4,3)] run show ?thesis by blast
qed

end
