(* ===== verification/Promotions.thy ===== *)
theory Promotions
  imports Masters
begin

text \<open>
  \<^verbatim>\<open>app/services/promotion.py\<close>: the discount of a booking, the promotions that apply to a
  service and to a customer, the first-visit entitlement and its life cycle.
\<close>

section \<open>Amounts and scope\<close>

definition truthy_text :: "string option \<Rightarrow> bool" where
  "truthy_text t \<longleftrightarrow> (case t of Some s \<Rightarrow> s \<noteq> [] | None \<Rightarrow> False)"

definition truthy_id :: "int option \<Rightarrow> bool" where
  "truthy_id i \<longleftrightarrow> (case i of Some n \<Rightarrow> n \<noteq> 0 | None \<Rightarrow> False)"

definition normalize_code :: "string \<Rightarrow> string" where
  "normalize_code code = upper (strip code)"

definition service_price :: "service \<Rightarrow> (int \<rightharpoonup> int) option \<Rightarrow> int" where
  "service_price s prices = (case prices of None \<Rightarrow> sv_price s
     | Some p \<Rightarrow> (case p (sv_id s) of Some price \<Rightarrow> price | None \<Rightarrow> sv_price s))"

definition subtotal_amount :: "service list \<Rightarrow> (int \<rightharpoonup> int) option \<Rightarrow> int" where
  "subtotal_amount items prices = sum_list (map (\<lambda>s. service_price s prices) items)"

definition discount_amount :: "int \<Rightarrow> int \<Rightarrow> int" where
  "discount_amount subtotal percent = (if subtotal \<le> 0 then 0 else round_div (subtotal * percent) 100)"

definition total_amount :: "int \<Rightarrow> int \<Rightarrow> int" where
  "total_amount subtotal discount = max (subtotal - discount) 0"

definition applies_to_service :: "promotion \<Rightarrow> service \<Rightarrow> bool" where
  "applies_to_service p s \<longleftrightarrow>
     (pr_applies_to_all_masters p \<or> sv_master_id s \<in> set (pr_master_ids p))
     \<and> (pr_applies_to_all_services p
        \<or> (case sv_base_service_id s of None \<Rightarrow> False | Some b \<Rightarrow> b \<in> set (pr_base_service_ids p)))"

definition eligible_services :: "service list \<Rightarrow> promotion \<Rightarrow> service list" where
  "eligible_services items p = filter (applies_to_service p) items"

definition is_automatic :: "promotion \<Rightarrow> bool" where
  "is_automatic p \<longleftrightarrow> pr_application_mode p = Automatic"

definition should_show_in_public_catalog :: "promotion \<Rightarrow> bool" where
  "should_show_in_public_catalog p \<longleftrightarrow> \<not> pr_recipient_offer_only p
     \<and> (is_automatic p \<or> \<not> pr_applies_to_all_masters p \<or> \<not> pr_applies_to_all_services p)"

definition best_public_promotion :: "service \<Rightarrow> promotion list \<Rightarrow> promotion option" where
  "best_public_promotion s ps =
     max_by (\<lambda>p. (pr_discount_percent p, - pr_id p))
       (filter (\<lambda>p. should_show_in_public_catalog p \<and> applies_to_service p s) ps)"

text \<open>The priced part of the payload \<open>active_promotion\<close> of a catalogue entry.\<close>

definition annotate_public_promotion :: "service \<Rightarrow> promotion list \<Rightarrow> (promotion \<times> int \<times> int) option" where
  "annotate_public_promotion s ps = map_option (\<lambda>p.
     let discount = discount_amount (sv_price s) (pr_discount_percent p)
     in (p, discount, total_amount (sv_price s) discount)) (best_public_promotion s ps)"

section \<open>Lookup of promotions\<close>

definition ensure_unique_code :: "salon \<Rightarrow> string \<Rightarrow> int option \<Rightarrow> unit result" where
  "ensure_unique_code db code exclude_promotion_id =
     (if select_where (\<lambda>p. pr_code p = normalize_code code \<and> exclude_promotion_id \<noteq> Some (pr_id p))
           (promotions db) \<noteq> []
      then conflict ''Promotion code already exists'' else Inr ())"

definition get_active_by_code :: "zone \<Rightarrow> salon \<Rightarrow> string \<Rightarrow> datetime \<Rightarrow> promotion result" where
  "get_active_by_code z db code at =
     (case select_where (\<lambda>p. pr_code p = normalize_code code) (promotions db) of
        [] \<Rightarrow> bad_request ''Promotion is not active''
      | p # _ \<Rightarrow>
          if \<not> pr_is_active p \<or> is_automatic p \<or> pr_recipient_offer_only p
          then bad_request ''Promotion is not active''
          else if (case pr_starts_at p of Some s \<Rightarrow> to_kyiv z s > normalize_datetime z at | None \<Rightarrow> False)
          then bad_request ''Promotion is not active yet''
          else if (case pr_ends_at p of Some e \<Rightarrow> to_kyiv z e < normalize_datetime z at | None \<Rightarrow> False)
          then bad_request ''Promotion has expired''
          else Inr p)"

text \<open>A query compares instants, so a Kyiv wall clock is sent as its instant.\<close>

definition instant_of :: "zone \<Rightarrow> datetime \<Rightarrow> instant" where
  "instant_of z t = (case t of Aware i \<Rightarrow> i | Naive w \<Rightarrow> to_utc z w | Kyiv w \<Rightarrow> to_utc z w)"

definition list_active_public_catalog_promotions :: "zone \<Rightarrow> salon \<Rightarrow> datetime \<Rightarrow> promotion list" where
  "list_active_public_catalog_promotions z db at =
     filter should_show_in_public_catalog
       (select_where (\<lambda>p. pr_is_active p \<and> pr_is_public p
           \<and> (case pr_starts_at p of None \<Rightarrow> True
                | Some s \<Rightarrow> s \<le> to_utc z (normalize_datetime z at))
           \<and> (case pr_ends_at p of None \<Rightarrow> True
                | Some e \<Rightarrow> e \<ge> to_utc z (normalize_datetime z at))) (promotions db))"

section \<open>Eligibility of a customer\<close>

definition aliases_of :: "customer \<Rightarrow> string list" where
  "aliases_of c = (if cu_phone c \<noteq> [] then phone_aliases (cu_phone c) else [])"

text \<open>\<open>or_(Customer.id == customer.id, Customer.phone.in_(aliases))\<close>.\<close>

definition same_identity :: "customer \<Rightarrow> customer \<Rightarrow> bool" where
  "same_identity c other \<longleftrightarrow> cu_id other = cu_id c \<or> cu_phone other \<in> set (aliases_of c)"

definition alias_customer_ids :: "salon \<Rightarrow> customer \<Rightarrow> int list" where
  "alias_customer_ids db c = map cu_id (select_where (same_identity c) (customers db))"

definition lock_customer :: "salon \<Rightarrow> customer \<Rightarrow> customer result" where
  "lock_customer db c =
     (case find (\<lambda>item. cu_id item = cu_id c)
        (sort_key cu_id (select_where (\<lambda>item. cu_id item = cu_id c
           \<or> cu_phone item \<in> set (phone_aliases (cu_phone c))) (customers db))) of
        Some item \<Rightarrow> Inr item | None \<Rightarrow> Inl StopIteration)"

definition visited :: "customer \<Rightarrow> bool" where
  "visited c \<longleftrightarrow> cu_first_visit_completed_at c \<noteq> None \<or> cu_imported_last_visit_at c \<noteq> None
     \<or> cu_imported_total_spent c > 0"

text \<open>\<open>or_(Booking.customer_id.in_(alias_customer_ids), Booking.customer_phone.in_(aliases))\<close>.\<close>

definition booked_by :: "salon \<Rightarrow> customer \<Rightarrow> booking \<Rightarrow> bool" where
  "booked_by db c b \<longleftrightarrow>
     (case bk_customer_id b of Some i \<Rightarrow> i \<in> set (alias_customer_ids db c) | None \<Rightarrow> False)
     \<or> bk_customer_phone b \<in> set (aliases_of c)"

definition reserved_by :: "salon \<Rightarrow> customer \<Rightarrow> booking \<Rightarrow> bool" where
  "reserved_by db c b \<longleftrightarrow>
     (case bk_first_visit_customer_id b of Some i \<Rightarrow> i \<in> set (alias_customer_ids db c) | None \<Rightarrow> False)"

definition first_visit_reason :: "salon \<Rightarrow> customer option \<Rightarrow> int option \<Rightarrow> string" where
  "first_visit_reason db customer exclude_booking_id =
     (case customer of
        None \<Rightarrow> ''customer_required''
      | Some c \<Rightarrow>
          if visited c then ''not_eligible''
          else if select_where (\<lambda>other. same_identity c other \<and> visited other) (customers db) \<noteq> []
          then ''not_eligible''
          else if select_where (\<lambda>b. booked_by db c b \<and> bk_status b = Completed
                 \<and> exclude_booking_id \<noteq> Some (bk_id b)) (bookings db) \<noteq> []
          then ''not_eligible''
          else if select_where (\<lambda>b. reserved_by db c b \<and> exclude_booking_id \<noteq> Some (bk_id b))
                 (bookings db) \<noteq> []
          then ''entitlement_reserved''
          else ''eligible'')"

definition customer_last_visit_at :: "zone \<Rightarrow> salon \<Rightarrow> customer \<Rightarrow> wall option" where
  "customer_last_visit_at z db c =
     (let booking_last = max_option (map bk_end_at
            (select_where (\<lambda>b. booked_by db c b \<and> bk_status b = Completed) (bookings db)));
          imported_last = max_option (List.map_filter cu_imported_last_visit_at
            (select_where (same_identity c) (customers db)));
          candidates = List.map_filter id [booking_last, imported_last, cu_imported_last_visit_at c]
      in max_option (map (to_kyiv z) candidates))"

definition ensure_customer_eligible ::
  "zone \<Rightarrow> salon \<Rightarrow> promotion \<Rightarrow> customer option \<Rightarrow> datetime \<Rightarrow> unit result" where
  "ensure_customer_eligible z db p customer at =
     (case pr_eligibility_type p of
        First_visit \<Rightarrow>
          (let reason = first_visit_reason db customer None
           in if reason \<noteq> ''eligible'' then conflict reason else Inr ())
      | All_customers \<Rightarrow> Inr ()
      | Military_customers \<Rightarrow> Inr ()
      | Inactive_customers \<Rightarrow>
          (let inactive_days = (case pr_inactive_days p of Some n \<Rightarrow> if n \<noteq> 0 then n else 90 | None \<Rightarrow> 90);
               cutoff = normalize_datetime z at - inactive_days * day
           in case customer of None \<Rightarrow> Inl AttributeError
              | Some c \<Rightarrow>
                  if (case customer_last_visit_at z db c of Some t \<Rightarrow> t > cutoff | None \<Rightarrow> False)
                  then bad_request (''Promotion is only available to customers inactive for ''
                         @ show_int inactive_days @ '' days'')
                  else Inr ()))"

section \<open>Applying a promotion to a booking\<close>

definition ensure_snapshot_scope :: "zone \<Rightarrow> promotion \<Rightarrow> service list \<Rightarrow> datetime \<Rightarrow> unit result" where
  "ensure_snapshot_scope z p items at =
     (if (case pr_starts_at p of Some s \<Rightarrow> to_kyiv z s > normalize_datetime z at | None \<Rightarrow> False)
       \<or> (case pr_ends_at p of Some e \<Rightarrow> to_kyiv z e < normalize_datetime z at | None \<Rightarrow> False)
       \<or> eligible_services items p = []
      then conflict ''promotion_no_longer_applicable'' else Inr ())"

record apply_options =
  allow_private_promotions :: bool
  service_prices :: "(int \<rightharpoonup> int) option"
  preserve_existing :: bool
  reserve_entitlement :: bool
  apply_automatic :: bool
  offer_token :: "string option"

definition default_options :: apply_options where
  "default_options = \<lparr>allow_private_promotions = False, service_prices = None, preserve_existing = False,
     reserve_entitlement = True, apply_automatic = True, offer_token = None\<rparr>"

text \<open>The loop over automatic candidates: an HTTP 400 of the eligibility check drops the candidate.\<close>

fun eligible_candidates ::
  "zone \<Rightarrow> salon \<Rightarrow> string \<Rightarrow> customer \<Rightarrow> datetime \<Rightarrow> promotion list \<Rightarrow> promotion list result" where
  "eligible_candidates z db reason c at [] = Inr []"
| "eligible_candidates z db reason c at (p # ps) =
     (if pr_eligibility_type p = First_visit
      then and_then (eligible_candidates z db reason c at ps)
             (\<lambda>qs. Inr (if reason = ''eligible'' then p # qs else qs))
      else case ensure_customer_eligible z db p (Some c) at of
             Inl e \<Rightarrow> (case e of
                 HTTPException code _ \<Rightarrow> if code \<noteq> 400 then Inl e else eligible_candidates z db reason c at ps
               | _ \<Rightarrow> Inl e)
           | Inr _ \<Rightarrow> and_then (eligible_candidates z db reason c at ps) (\<lambda>qs. Inr (p # qs)))"

text \<open>The three ways a promotion is chosen; the customer is refreshed when it is locked.\<close>

definition existing_promotion :: "salon \<Rightarrow> booking \<Rightarrow> promotion option" where
  "existing_promotion db b =
     (case bk_promotion_id b of Some i \<Rightarrow> if i \<noteq> 0 then get (promotions db) i else None | None \<Rightarrow> None)"

definition lock_if :: "bool \<Rightarrow> salon \<Rightarrow> customer \<Rightarrow> customer result" where
  "lock_if reserve db c = (if reserve then lock_customer db c else Inr c)"

definition automatic_promotion ::
  "zone \<Rightarrow> salon \<Rightarrow> apply_options \<Rightarrow> int option \<Rightarrow> customer option \<Rightarrow> service list \<Rightarrow> datetime
    \<Rightarrow> (promotion option \<times> customer option) result" where
  "automatic_promotion z db opts bid customer items at =
     (let prices = service_prices opts;
          candidates = filter (\<lambda>p. is_automatic p \<and> subtotal_amount (eligible_services items p) prices > 0)
            (list_active_public_catalog_promotions z db at)
      in case customer of
           None \<Rightarrow> Inr (None, None)
         | Some c \<Rightarrow>
             if candidates = [] then Inr (None, Some c)
             else and_then (lock_if (reserve_entitlement opts) db c) (\<lambda>c.
                  and_then (eligible_candidates z db (first_visit_reason db (Some c) bid) c at candidates) (\<lambda>qs.
                  Inr (max_by (\<lambda>p. (discount_amount (subtotal_amount (eligible_services items p) prices)
                                     (pr_discount_percent p), - pr_id p)) qs, Some c))))"

definition choose_promotion ::
  "zone \<Rightarrow> salon \<Rightarrow> apply_options \<Rightarrow> bool \<Rightarrow> booking \<Rightarrow> int option \<Rightarrow> string option \<Rightarrow> customer option
    \<Rightarrow> service list \<Rightarrow> datetime \<Rightarrow> (promotion option \<times> customer option) result" where
  "choose_promotion z db opts existing b bid promotion_code customer items at =
     (if existing
      then (case existing_promotion db b of
              None \<Rightarrow> conflict ''promotion_unavailable''
            | Some p \<Rightarrow> and_then (ensure_snapshot_scope z p items at) (\<lambda>_. Inr (Some p, customer)))
      else if truthy_text promotion_code
      then (if customer = None then bad_request ''Booking customer is required for promotion''
            else and_then (get_active_by_code z db (the promotion_code) at) (\<lambda>p.
                 if \<not> pr_is_public p \<and> \<not> allow_private_promotions opts
                 then bad_request ''Promotion is not available for public booking''
                 else Inr (Some p, customer)))
      else if apply_automatic opts then automatic_promotion z db opts bid customer items at
      else Inr (None, customer))"

definition clear_promotion :: "booking \<Rightarrow> booking" where
  "clear_promotion b = b\<lparr>bk_promotion_id := None, bk_code_snapshot := None, bk_name_uk_snapshot := None,
     bk_name_en_snapshot := None, bk_percent_snapshot := None, bk_mode_snapshot := None,
     bk_eligibility_snapshot := None, bk_promotion_discount_amount := Some 0\<rparr>"

definition snapshot_promotion :: "promotion \<Rightarrow> booking \<Rightarrow> booking" where
  "snapshot_promotion p b = b\<lparr>bk_promotion_id := Some (pr_id p),
     bk_code_snapshot := (if is_automatic p then None else Some (pr_code p)),
     bk_name_uk_snapshot := Some (pr_name_uk p), bk_name_en_snapshot := Some (pr_name_en p),
     bk_percent_snapshot := Some (pr_discount_percent p),
     bk_mode_snapshot := Some (pr_application_mode p),
     bk_eligibility_snapshot := Some (pr_eligibility_type p)\<rparr>"

definition first_visit_guard :: "salon \<Rightarrow> bool \<Rightarrow> int option \<Rightarrow> customer option \<Rightarrow> customer option result" where
  "first_visit_guard db reserve bid customer =
     (case customer of
        None \<Rightarrow> bad_request ''Booking customer is required for promotion''
      | Some c \<Rightarrow> and_then (lock_if reserve db c) (\<lambda>c.
          let reason = first_visit_reason db (Some c) bid
          in if reason \<noteq> ''eligible'' then conflict reason else Inr (Some c)))"

definition is_inactive :: "booking \<Rightarrow> bool" where
  "is_inactive b \<longleftrightarrow> bk_status b = Cancelled \<or> bk_status b = No_show"

text \<open>The amounts written once the promotion is settled.\<close>

definition price_booking ::
  "apply_options \<Rightarrow> bool \<Rightarrow> bool \<Rightarrow> promotion option \<Rightarrow> customer option \<Rightarrow> service list \<Rightarrow> booking \<Rightarrow> booking result" where
  "price_booking opts existing first_visit promotion customer items b =
     (let prices = service_prices opts;
          subtotal = subtotal_amount items prices;
          manual = (if preserve_existing opts then bk_manual_discount_amount b else 0);
          b = b\<lparr>bk_subtotal_amount := Some subtotal, bk_manual_discount_amount := manual,
                bk_first_visit_customer_id :=
                  (if first_visit \<and> reserve_entitlement opts \<and> \<not> is_inactive b
                   then map_option cu_id customer else None)\<rparr>;
          finish = (\<lambda>b discount. b\<lparr>bk_total_amount := Some (total_amount subtotal (discount + manual))\<rparr>)
      in case promotion of
           None \<Rightarrow> Inr (finish (clear_promotion b) 0)
         | Some p \<Rightarrow>
             let eligible_subtotal = subtotal_amount (eligible_services items p) prices
             in if eligible_subtotal \<le> 0 then bad_request ''Promotion does not apply to selected services''
                else let percent = (if existing then the (bk_percent_snapshot b) else pr_discount_percent p);
                         discount = discount_amount eligible_subtotal percent;
                         b = b\<lparr>bk_promotion_discount_amount := Some discount\<rparr>;
                         b = (if existing then b else snapshot_promotion p b)
                     in Inr (finish b discount))"

definition is_first_visit :: "bool \<Rightarrow> booking \<Rightarrow> promotion option \<Rightarrow> bool" where
  "is_first_visit existing b promotion \<longleftrightarrow> (case promotion of None \<Rightarrow> False
     | Some p \<Rightarrow> if existing then bk_eligibility_snapshot b = Some First_visit
                 else pr_eligibility_type p = First_visit)"

definition settle_eligibility ::
  "zone \<Rightarrow> salon \<Rightarrow> bool \<Rightarrow> bool \<Rightarrow> booking \<Rightarrow> int option \<Rightarrow> promotion option \<Rightarrow> customer option \<Rightarrow> datetime
    \<Rightarrow> customer option result" where
  "settle_eligibility z db reserve existing b bid promotion customer at =
     (let consumed_snapshot = (existing \<and> bk_status b = Completed \<and> customer \<noteq> None
            \<and> bk_first_visit_customer_id b = map_option cu_id customer)
      in if is_first_visit existing b promotion \<and> \<not> (existing \<and> is_inactive b) \<and> \<not> consumed_snapshot
         then first_visit_guard db reserve bid customer
         else if promotion \<noteq> None \<and> \<not> existing
         then and_then (ensure_customer_eligible z db (the promotion) customer at) (\<lambda>_. Inr customer)
         else Inr customer)"

text \<open>
  \<open>bid\<close> is the booking's id, \<open>None\<close> before the first flush. \<open>campaign\<close> stands for
  \<open>campaign_offer_service.apply\<close>, to which a booking with a recipient offer is delegated.
\<close>

definition apply_to_booking ::
  "zone \<Rightarrow> (booking \<Rightarrow> booking result) \<Rightarrow> salon \<Rightarrow> apply_options \<Rightarrow> booking \<Rightarrow> int option
    \<Rightarrow> string option \<Rightarrow> customer option \<Rightarrow> service list \<Rightarrow> datetime \<Rightarrow> booking result" where
  "apply_to_booking z campaign db opts b bid promotion_code customer items at =
     (if truthy_text (offer_token opts) \<or> truthy_id (bk_campaign_offer_id b)
      then (if truthy_text (offer_token opts) \<and> truthy_text promotion_code
            then bad_request ''offer_cannot_stack'' else campaign b)
      else
        let existing = (preserve_existing opts \<and> bk_percent_snapshot b \<noteq> None)
        in and_then (choose_promotion z db opts existing b bid promotion_code customer items at)
             (\<lambda>(promotion, customer).
           and_then (settle_eligibility z db (reserve_entitlement opts) existing b bid promotion customer at)
             (\<lambda>customer.
           price_booking opts existing (is_first_visit existing b promotion) promotion customer items b)))"

section \<open>The life cycle of the entitlement\<close>

definition get_customer :: "salon \<Rightarrow> int option \<Rightarrow> customer option" where
  "get_customer db i = (case i of None \<Rightarrow> None | Some i \<Rightarrow> get (customers db) i)"

definition revalidate_first_visit_booking ::
  "zone \<Rightarrow> (booking \<Rightarrow> booking result) \<Rightarrow> salon \<Rightarrow> booking \<Rightarrow> bool \<Rightarrow> bool \<Rightarrow> booking result" where
  "revalidate_first_visit_booking z campaign db b check_scope reactivating =
     (if truthy_id (bk_campaign_offer_id b) then campaign b
      else if bk_eligibility_snapshot b \<noteq> Some First_visit then Inr b
      else if \<not> reactivating \<and> is_inactive b then Inr b
      else and_then
        (case (if check_scope then existing_promotion db b else None) of
           None \<Rightarrow> Inr ()
         | Some p \<Rightarrow> ensure_snapshot_scope z p (booking_services db b) (Aware (bk_start_at b))) (\<lambda>_.
      case get_customer db (bk_customer_id b) of
        None \<Rightarrow> conflict ''customer_required''
      | Some c \<Rightarrow> and_then (lock_customer db c) (\<lambda>c.
          let reason = first_visit_reason db (Some c) (Some (bk_id b))
          in if reason \<noteq> ''eligible'' then conflict reason
             else Inr (b\<lparr>bk_first_visit_customer_id := Some (cu_id c)\<rparr>))))"

definition sync_first_visit_status ::
  "zone \<Rightarrow> (booking \<Rightarrow> booking result) \<Rightarrow> (salon \<Rightarrow> booking \<Rightarrow> booking_status \<Rightarrow> (salon \<times> booking) result)
    \<Rightarrow> salon \<Rightarrow> booking \<Rightarrow> booking_status \<Rightarrow> (salon \<times> booking) result" where
  "sync_first_visit_status z campaign campaign_sync db b new_status =
     (if truthy_id (bk_campaign_offer_id b) then campaign_sync db b new_status
      else if new_status = Cancelled \<or> new_status = No_show
      then if \<not> truthy_id (bk_first_visit_customer_id b) then Inr (db, b)
           else and_then
             (case (if truthy_id (bk_customer_id b) then get_customer db (bk_customer_id b) else None) of
                None \<Rightarrow> Inr () | Some c \<Rightarrow> and_then (lock_customer db c) (\<lambda>_. Inr ()))
             (\<lambda>_. Inr (db, b\<lparr>bk_first_visit_customer_id := None\<rparr>))
      else if new_status = Completed
      then (case (if truthy_id (bk_customer_id b) then get_customer db (bk_customer_id b) else None) of
              None \<Rightarrow> Inr (db, b)
            | Some c \<Rightarrow> and_then (lock_customer db c) (\<lambda>c.
                and_then (if bk_eligibility_snapshot b = Some First_visit
                          then revalidate_first_visit_booking z campaign db b False True else Inr b) (\<lambda>b.
                let c = c\<lparr>cu_first_visit_completed_at :=
                      (case cu_first_visit_completed_at c of Some t \<Rightarrow> Some t | None \<Rightarrow> Some (bk_end_at b))\<rparr>
                in Inr (db\<lparr>customers := put (cu_id c) c (customers db)\<rparr>, b))))
      else and_then (revalidate_first_visit_booking z campaign db b True True) (\<lambda>b. Inr (db, b)))"

section \<open>Editing a promotion\<close>

text \<open>The keys of a partial update that the service completes; \<open>None\<close> is an absent key.\<close>

record promotion_update =
  up_eligibility_type :: "eligibility_type option"
  up_application_mode :: "application_mode option"
  up_inactive_days :: "int option option"
  up_starts_at :: "datetime option option"
  up_ends_at :: "datetime option option"

definition complete_update_data :: "zone \<Rightarrow> promotion \<Rightarrow> promotion_update \<Rightarrow> promotion_update result" where
  "complete_update_data z p data =
     (let eligibility_type = (case up_eligibility_type data of Some e \<Rightarrow> e | None \<Rightarrow> pr_eligibility_type p);
          application_mode = (case up_application_mode data of Some m \<Rightarrow> m | None \<Rightarrow> pr_application_mode p)
      in if application_mode = Automatic \<and> eligibility_type = Military_customers
         then bad_request ''Military promotions require code application and verification''
         else
           let data = (if eligibility_type = Inactive_customers \<and> up_inactive_days data = None
                       then data\<lparr>up_inactive_days := Some (Some
                              (case pr_inactive_days p of Some n \<Rightarrow> if n \<noteq> 0 then n else 90 | None \<Rightarrow> 90))\<rparr>
                       else data);
               data = (if eligibility_type \<noteq> Inactive_customers then data\<lparr>up_inactive_days := Some None\<rparr>
                       else data);
               starts_at = (case up_starts_at data of Some s \<Rightarrow> s | None \<Rightarrow> map_option Aware (pr_starts_at p));
               ends_at = (case up_ends_at data of Some e \<Rightarrow> e | None \<Rightarrow> map_option Aware (pr_ends_at p))
           in if (case (starts_at, ends_at) of
                    (Some s, Some e) \<Rightarrow> normalize_datetime z e \<le> normalize_datetime z s | _ \<Rightarrow> False)
              then bad_request ''ends_at must be after starts_at''
              else Inr data)"

chapter \<open>Facts\<close>

section \<open>Amounts\<close>

lemma discount_amount_bounds:
  assumes "0 \<le> percent" and "percent \<le> 100"
  shows "0 \<le> discount_amount subtotal percent"
    and "0 \<le> subtotal \<Longrightarrow> discount_amount subtotal percent \<le> subtotal"
    and "0 \<le> subtotal \<Longrightarrow> 2 * \<bar>100 * discount_amount subtotal percent - subtotal * percent\<bar> \<le> 100"
proof -
  show "0 \<le> discount_amount subtotal percent"
    using assms by (simp add: discount_amount_def round_div_nonneg)
  show "discount_amount subtotal percent \<le> subtotal" if "0 \<le> subtotal"
  proof -
    have "round_div (subtotal * percent) 100 \<le> round_div (subtotal * 100) 100"
      using assms that by (intro round_div_mono) (simp_all add: mult_left_mono)
    also have "round_div (subtotal * 100) 100 = subtotal" by (rule round_div_exact) simp
    finally show ?thesis using that by (simp add: discount_amount_def)
  qed
  show "2 * \<bar>100 * discount_amount subtotal percent - subtotal * percent\<bar> \<le> 100" if "0 \<le> subtotal"
    using round_div_near [of 100 "subtotal * percent"] that
    by (simp add: discount_amount_def mult.commute)
qed

lemma subtotal_filter_le:
  assumes "\<And>s. s \<in> set items \<Longrightarrow> 0 \<le> service_price s prices"
  shows "0 \<le> subtotal_amount (eligible_services items p) prices
    \<and> subtotal_amount (eligible_services items p) prices \<le> subtotal_amount items prices"
  using assms by (induction items) (auto simp: subtotal_amount_def eligible_services_def intro: add_increasing)

lemma best_public_promotion_best:
  assumes "best_public_promotion s ps = Some p"
  shows "p \<in> set ps \<and> should_show_in_public_catalog p \<and> applies_to_service p s
    \<and> (\<forall>q \<in> set ps. should_show_in_public_catalog q \<and> applies_to_service q s \<longrightarrow>
        pr_discount_percent q < pr_discount_percent p
        \<or> (pr_discount_percent q = pr_discount_percent p \<and> pr_id p \<le> pr_id q))"
  using max_by_Some [OF assms [unfolded best_public_promotion_def]]
  by (auto simp: less_eq_prod_def)

section \<open>Identities\<close>

text \<open>Customers are keyed by id and every stored phone is present.\<close>

definition customers_ok :: "salon \<Rightarrow> bool" where
  "customers_ok db \<longleftrightarrow> has_id cu_id (customers db) \<and> (\<forall>c \<in> set (rows (customers db)). cu_phone c \<noteq> [])"

definition identity_key :: "customer \<Rightarrow> string" where
  "identity_key c = canonical_booking_phone (cu_phone c)"

lemma same_identity_iff:
  assumes "customers_ok db" and "c \<in> set (rows (customers db))" and "d \<in> set (rows (customers db))"
  shows "same_identity c d \<longleftrightarrow> identity_key c = identity_key d"
proof -
  have "cu_id d = cu_id c \<Longrightarrow> d = c"
    using has_id_inj [of cu_id "customers db" d c] assms by (simp add: customers_ok_def)
  moreover have "cu_phone c \<noteq> []" using assms(1,2) by (simp add: customers_ok_def)
  ultimately show ?thesis
    unfolding same_identity_def aliases_of_def identity_key_def by (auto simp only: phone_aliases_iff if_True not_False_eq_True)
qed

lemma alias_customer_ids_iff:
  assumes "customers_ok db" and "c \<in> set (rows (customers db))"
  shows "i \<in> set (alias_customer_ids db c) \<longleftrightarrow>
    (\<exists>d. get (customers db) i = Some d \<and> identity_key d = identity_key c)"
proof -
  have ok: "has_id cu_id (customers db)" using assms(1) by (simp add: customers_ok_def)
  show ?thesis
    unfolding alias_customer_ids_def select_where_def set_map set_filter image_iff
    using same_identity_iff [OF assms] has_id_rows [OF ok] has_id_get [OF ok] get_in_rows
    by (smt (verit, best) mem_Collect_eq)
qed

lemma lock_customer_row:
  assumes "has_id cu_id (customers db)" and "lock_customer db c = Inr d"
  shows "get (customers db) (cu_id c) = Some d"
proof -
  from assms(2) have "d \<in> set (rows (customers db)) \<and> cu_id d = cu_id c"
    by (auto simp: lock_customer_def select_where_def dest!: find_Some_mem split: option.splits)
  then show ?thesis using has_id_rows [OF assms(1)] by metis
qed

lemma lock_customer_present:
  assumes "has_id cu_id (customers db)" and "get (customers db) i = Some c"
  shows "lock_customer db c = Inr c"
proof -
  have id: "cu_id c = i" using assms by (rule has_id_get)
  let ?xs = "sort_key cu_id (select_where (\<lambda>item. cu_id item = cu_id c
      \<or> cu_phone item \<in> set (phone_aliases (cu_phone c))) (customers db))"
  have mem: "c \<in> set ?xs" using get_in_rows [OF assms(2)] by (simp add: select_where_def)
  have only: "item = c" if "item \<in> set ?xs" "cu_id item = cu_id c" for item
    using that has_id_inj [OF assms(1)] get_in_rows [OF assms(2)] by (simp add: select_where_def)
  obtain d where "find (\<lambda>item. cu_id item = cu_id c) ?xs = Some d"
    using mem by (cases "find (\<lambda>item. cu_id item = cu_id c) ?xs") (auto simp: find_None_iff)
  moreover from find_Some_mem [OF this] only have "d = c" by blast
  ultimately show ?thesis by (simp add: lock_customer_def)
qed

section \<open>The first-visit entitlement\<close>

text \<open>The phone identity that holds the entitlement reserved by a booking, if it holds one.\<close>

definition holder :: "salon \<Rightarrow> booking \<Rightarrow> string option" where
  "holder db b = (case bk_first_visit_customer_id b of None \<Rightarrow> None
     | Some i \<Rightarrow> map_option identity_key (get (customers db) i))"

definition entitlement_unique :: "salon \<Rightarrow> bool" where
  "entitlement_unique db \<longleftrightarrow> (\<forall>b \<in> set (rows (bookings db)). \<forall>b' \<in> set (rows (bookings db)).
     holder db b \<noteq> None \<and> holder db b = holder db b' \<longrightarrow> bk_id b = bk_id b')"

lemma reserved_by_iff:
  assumes "customers_ok db" and "c \<in> set (rows (customers db))"
  shows "reserved_by db c b \<longleftrightarrow> holder db b = Some (identity_key c)"
  by (auto simp: reserved_by_def holder_def alias_customer_ids_iff [OF assms] split: option.splits)

lemma first_visit_reason_eligible:
  "first_visit_reason db (Some c) bid = ''eligible'' \<longleftrightarrow>
     \<not> visited c
     \<and> (\<forall>d \<in> set (rows (customers db)). same_identity c d \<longrightarrow> \<not> visited d)
     \<and> (\<forall>b \<in> set (rows (bookings db)). bid \<noteq> Some (bk_id b) \<longrightarrow>
          \<not> (booked_by db c b \<and> bk_status b = Completed) \<and> \<not> reserved_by db c b)"
  by (auto simp: first_visit_reason_def select_where_def filter_empty_conv)

lemma entitlement_unique_put:
  assumes "entitlement_unique db" and "has_id bk_id (bookings db)" and "bk_id b = k"
    and "\<And>b'. b' \<in> set (rows (bookings db)) \<Longrightarrow> bk_id b' \<noteq> k \<Longrightarrow> holder db b \<noteq> None \<Longrightarrow> holder db b' \<noteq> holder db b"
  shows "entitlement_unique (db\<lparr>bookings := put k b (bookings db)\<rparr>)"
proof -
  let ?db = "db\<lparr>bookings := put k b (bookings db)\<rparr>"
  have row: "a = b \<or> (a \<in> set (rows (bookings db)) \<and> bk_id a \<noteq> k)" if "a \<in> set (rows (bookings ?db))" for a
    using that rows_put_iff [OF assms(2,3)] by simp
  have hold: "holder ?db a = holder db a" for a by (simp add: holder_def split: option.splits)
  show ?thesis
    unfolding entitlement_unique_def hold
  proof (intro ballI impI, elim conjE)
    fix a a' assume a: "a \<in> set (rows (bookings ?db))" "a' \<in> set (rows (bookings ?db))"
      and h: "holder db a \<noteq> None" "holder db a = holder db a'"
    show "bk_id a = bk_id a'"
      using row [OF a(1)] row [OF a(2)] h assms(1,3,4) unfolding entitlement_unique_def by metis
  qed
qed

section \<open>Applying a promotion\<close>

definition no_campaign :: "apply_options \<Rightarrow> booking \<Rightarrow> bool" where
  "no_campaign opts b \<longleftrightarrow> \<not> truthy_text (offer_token opts) \<and> \<not> truthy_id (bk_campaign_offer_id b)"

lemma apply_to_booking_Inr:
  assumes "apply_to_booking z campaign db opts b bid code customer items at = Inr b'"
    and "no_campaign opts b"
  obtains p c0 c ex where
    "ex = (preserve_existing opts \<and> bk_percent_snapshot b \<noteq> None)"
    "choose_promotion z db opts ex b bid code customer items at = Inr (p, c0)"
    "settle_eligibility z db (reserve_entitlement opts) ex b bid p c0 at = Inr c"
    "price_booking opts ex (is_first_visit ex b p) p c items b = Inr b'"
  using assms by (auto simp: apply_to_booking_def no_campaign_def Let_def and_then_eq_Inr)

definition percents_ok :: "salon \<Rightarrow> bool" where
  "percents_ok db \<longleftrightarrow> (\<forall>p \<in> set (rows (promotions db)). 0 \<le> pr_discount_percent p \<and> pr_discount_percent p \<le> 100)"

text \<open>What \<open>price_booking\<close> writes.\<close>

lemma price_booking_amounts:
  assumes "price_booking opts ex fv p c items b = Inr b'"
  shows "bk_subtotal_amount b' = Some (subtotal_amount items (service_prices opts))"
    and "bk_manual_discount_amount b' = (if preserve_existing opts then bk_manual_discount_amount b else 0)"
    and "bk_promotion_discount_amount b' = Some (case p of None \<Rightarrow> 0
      | Some q \<Rightarrow> discount_amount (subtotal_amount (eligible_services items q) (service_prices opts))
          (if ex then the (bk_percent_snapshot b) else pr_discount_percent q))"
    and "bk_total_amount b' = Some (total_amount (subtotal_amount items (service_prices opts))
      (the (bk_promotion_discount_amount b') + bk_manual_discount_amount b'))"
    and "bk_first_visit_customer_id b' = (if fv \<and> reserve_entitlement opts \<and> \<not> is_inactive b
      then map_option cu_id c else None)"
  using assms
  by (auto simp: price_booking_def Let_def clear_promotion_def snapshot_promotion_def
      split: option.splits if_splits)

lemma price_booking_frame:
  assumes "price_booking opts ex fv p c items b = Inr b'"
  shows "bk_id b' = bk_id b" "bk_master_id b' = bk_master_id b" "bk_start_at b' = bk_start_at b"
    "bk_end_at b' = bk_end_at b" "bk_status b' = bk_status b" "bk_customer_id b' = bk_customer_id b"
    "bk_service_items b' = bk_service_items b" "bk_customer_phone b' = bk_customer_phone b"
    "bk_redirected_from_master_id b' = bk_redirected_from_master_id b" "bk_source b' = bk_source b"
    "bk_service_id b' = bk_service_id b"
  using assms
  by (auto simp: price_booking_def Let_def clear_promotion_def snapshot_promotion_def
      split: option.splits if_splits)

lemma list_active_rows:
  "p \<in> set (list_active_public_catalog_promotions z db at) \<Longrightarrow>
     p \<in> set (rows (promotions db)) \<and> pr_is_active p \<and> pr_is_public p \<and> should_show_in_public_catalog p"
  by (auto simp: list_active_public_catalog_promotions_def select_where_def)

lemma eligible_candidates_Inr:
  "eligible_candidates z db reason c at ps = Inr qs \<Longrightarrow>
     qs = filter (\<lambda>p. if pr_eligibility_type p = First_visit then reason = ''eligible''
       else ensure_customer_eligible z db p (Some c) at = Inr ()) ps"
proof (induction ps arbitrary: qs)
  case Nil
  then show ?case by simp
next
  case (Cons p ps)
  show ?case
  proof (cases "pr_eligibility_type p = First_visit")
    case True
    with Cons show ?thesis by (auto simp: and_then_eq_Inr)
  next
    case False
    show ?thesis
    proof (cases "ensure_customer_eligible z db p (Some c) at")
      case (Inl e)
      with Cons.prems False have "eligible_candidates z db reason c at ps = Inr qs"
        by (simp split: error.splits if_splits)
      with Cons.IH Inl False show ?thesis by simp
    next
      case (Inr u)
      with Cons False show ?thesis by (auto simp: and_then_eq_Inr)
    qed
  qed
qed

lemma get_active_by_code_Inr:
  "get_active_by_code z db code at = Inr p \<Longrightarrow> p \<in> set (rows (promotions db)) \<and> pr_is_active p
     \<and> \<not> is_automatic p \<and> \<not> pr_recipient_offer_only p \<and> pr_code p = normalize_code code"
  by (auto simp: get_active_by_code_def select_where_def dest: filter_head split: list.splits if_splits)

lemma automatic_promotion_Inr:
  assumes "automatic_promotion z db opts bid (Some c) items at = Inr (p, c')"
    and "has_id cu_id (customers db)" and "get (customers db) (cu_id c) = Some c"
  defines "qs \<equiv> filter (\<lambda>q. if pr_eligibility_type q = First_visit
            then first_visit_reason db (Some c) bid = ''eligible''
            else ensure_customer_eligible z db q (Some c) at = Inr ())
          (filter (\<lambda>q. is_automatic q \<and> subtotal_amount (eligible_services items q) (service_prices opts) > 0)
            (list_active_public_catalog_promotions z db at))"
  shows "p = max_by (\<lambda>q. (discount_amount (subtotal_amount (eligible_services items q) (service_prices opts))
      (pr_discount_percent q), - pr_id q)) qs" and "c' = Some c"
proof -
  have lock: "lock_if r db c = Inr c" for r
    using lock_customer_present [OF assms(2,3)] by (simp add: lock_if_def)
  define cands where "cands = filter (\<lambda>q. is_automatic q
      \<and> subtotal_amount (eligible_services items q) (service_prices opts) > 0)
    (list_active_public_catalog_promotions z db at)"
  have qs: "qs = filter (\<lambda>q. if pr_eligibility_type q = First_visit
            then first_visit_reason db (Some c) bid = ''eligible''
            else ensure_customer_eligible z db q (Some c) at = Inr ()) cands"
    by (simp only: qs_def cands_def)
  have "automatic_promotion z db opts bid (Some c) items at =
      (if cands = [] then Inr (None, Some c)
       else and_then (eligible_candidates z db (first_visit_reason db (Some c) bid) c at cands) (\<lambda>qs.
         Inr (max_by (\<lambda>q. (discount_amount (subtotal_amount (eligible_services items q) (service_prices opts))
           (pr_discount_percent q), - pr_id q)) qs, Some c)))"
    by (simp only: automatic_promotion_def Let_def cands_def option.case lock and_then_Inr)
  with assms(1) show "p = max_by (\<lambda>q. (discount_amount (subtotal_amount (eligible_services items q) (service_prices opts))
      (pr_discount_percent q), - pr_id q)) qs" "c' = Some c"
    by (cases "cands = []"; auto simp: qs and_then_eq_Inr dest!: eligible_candidates_Inr)+
qed

lemma choose_promotion_Inr:
  assumes "choose_promotion z db opts ex b bid code customer items at = Inr (Some p, c)"
  shows "p \<in> set (rows (promotions db))"
proof -
  have auto: "p \<in> set (rows (promotions db))"
    if "automatic_promotion z db opts bid customer items at = Inr (Some p, c)"
    using that list_active_rows
    by (fastforce simp: automatic_promotion_def Let_def and_then_eq_Inr
        dest!: eligible_candidates_Inr max_by_Some split: option.splits if_splits)
  show ?thesis
    using assms get_active_by_code_Inr auto
    by (auto simp: choose_promotion_def and_then_eq_Inr existing_promotion_def
        intro: get_in_rows split: if_splits option.splits)
qed

text \<open>The amounts of a successful application.\<close>

lemma apply_to_booking_amounts:
  assumes "apply_to_booking z campaign db opts b bid code customer items at = Inr b'"
    and "no_campaign opts b" and "percents_ok db"
    and "\<And>s. s \<in> set items \<Longrightarrow> 0 \<le> service_price s (service_prices opts)"
    and "\<And>n. bk_percent_snapshot b = Some n \<Longrightarrow> 0 \<le> n \<and> n \<le> 100"
  defines "subtotal \<equiv> subtotal_amount items (service_prices opts)"
  shows "\<exists>discount. bk_subtotal_amount b' = Some subtotal \<and> bk_promotion_discount_amount b' = Some discount
    \<and> 0 \<le> discount \<and> discount \<le> subtotal
    \<and> bk_total_amount b' = Some (max (subtotal - discount - bk_manual_discount_amount b') 0)"
  using assms(1,2)
proof (rule apply_to_booking_Inr)
  fix p c0 c ex
  assume ex: "ex = (preserve_existing opts \<and> bk_percent_snapshot b \<noteq> None)"
    and choose: "choose_promotion z db opts ex b bid code customer items at = Inr (p, c0)"
    and price: "price_booking opts ex (is_first_visit ex b p) p c items b = Inr b'"
  note w = price_booking_amounts [OF price]
  have "0 \<le> the (bk_promotion_discount_amount b') \<and> the (bk_promotion_discount_amount b') \<le> subtotal"
  proof (cases p)
    case None
    have "0 \<le> subtotal" unfolding subtotal_def subtotal_amount_def by (rule sum_list_nonneg) (use assms(4) in auto)
    with None w(3) show ?thesis by simp
  next
    case (Some q)
    define percent where "percent = (if ex then the (bk_percent_snapshot b) else pr_discount_percent q)"
    have "0 \<le> percent" "percent \<le> 100"
      using assms(3,5) choose_promotion_Inr [OF choose [unfolded Some]] ex
      by (auto simp: percent_def percents_ok_def)
    note bounds = discount_amount_bounds [OF this]
    have sub: "0 \<le> subtotal_amount (eligible_services items q) (service_prices opts)
      \<and> subtotal_amount (eligible_services items q) (service_prices opts) \<le> subtotal"
      unfolding subtotal_def by (rule subtotal_filter_le) (rule assms(4))
    show ?thesis
      using w(3) Some bounds(1) [of "subtotal_amount (eligible_services items q) (service_prices opts)"]
        bounds(2) [of "subtotal_amount (eligible_services items q) (service_prices opts)"] sub
      by (simp add: percent_def [symmetric] subtotal_def)
  qed
  then show ?thesis
    using w by (auto simp: subtotal_def total_amount_def algebra_simps)
qed

text \<open>Without a code, a known customer gets the automatic promotion with the largest discount.\<close>

definition automatic_for :: "zone \<Rightarrow> salon \<Rightarrow> customer \<Rightarrow> service list \<Rightarrow> datetime \<Rightarrow> promotion \<Rightarrow> bool" where
  "automatic_for z db c items at q \<longleftrightarrow>
     q \<in> set (list_active_public_catalog_promotions z db at) \<and> is_automatic q
     \<and> subtotal_amount (eligible_services items q) None > 0
     \<and> ensure_customer_eligible z db q (Some c) at = Inr ()"

lemma ensure_first_visit_eligible:
  "pr_eligibility_type q = First_visit \<Longrightarrow>
     ensure_customer_eligible z db q (Some c) at = Inr () \<longleftrightarrow> first_visit_reason db (Some c) None = ''eligible''"
  by (simp add: ensure_customer_eligible_def Let_def)

lemma automatic_candidates:
  "q \<in> set (filter (\<lambda>q. if pr_eligibility_type q = First_visit
            then first_visit_reason db (Some c) None = ''eligible''
            else ensure_customer_eligible z db q (Some c) at = Inr ())
          (filter (\<lambda>q. is_automatic q \<and> subtotal_amount (eligible_services items q) None > 0)
            (list_active_public_catalog_promotions z db at)))
   \<longleftrightarrow> automatic_for z db c items at q"
  using ensure_first_visit_eligible [of q z db c at] by (auto simp: automatic_for_def)

text \<open>The discount of a promotion on the services it covers, at their own prices.\<close>

definition full_discount :: "service list \<Rightarrow> promotion \<Rightarrow> int" where
  "full_discount items q = discount_amount (subtotal_amount (eligible_services items q) None) (pr_discount_percent q)"

lemma price_booking_promotion:
  "price_booking opts False fv p c items b = Inr b' \<Longrightarrow> bk_promotion_id b' = map_option pr_id p"
  by (auto simp: price_booking_def Let_def clear_promotion_def snapshot_promotion_def split: option.splits if_splits)

lemma automatic_promotion_chosen:
  assumes "apply_to_booking z campaign db default_options b None None (Some c) items at = Inr b'"
    and "has_id cu_id (customers db)" and "get (customers db) (cu_id c) = Some c"
    and "bk_campaign_offer_id b = None"
  obtains (none) "\<And>q. \<not> automatic_for z db c items at q" "bk_promotion_id b' = None"
      "bk_promotion_discount_amount b' = Some 0"
  | (best) p where "automatic_for z db c items at p" "bk_promotion_id b' = Some (pr_id p)"
      "bk_promotion_discount_amount b' = Some (full_discount items p)"
      "\<And>q. automatic_for z db c items at q \<Longrightarrow>
         (full_discount items q, - pr_id q) \<le> (full_discount items p, - pr_id p)"
proof -
  have opts: "preserve_existing default_options = False" "service_prices default_options = None"
    "no_campaign default_options b" "apply_automatic default_options"
    using assms(4) by (simp_all add: default_options_def no_campaign_def truthy_text_def truthy_id_def)
  show thesis
    using assms(1) opts(3)
  proof (rule apply_to_booking_Inr)
    fix p c0 c' ex
    assume "ex = (preserve_existing default_options \<and> bk_percent_snapshot b \<noteq> None)"
      and choose: "choose_promotion z db default_options ex b None None (Some c) items at = Inr (p, c0)"
      and price0: "price_booking default_options ex (is_first_visit ex b p) p c' items b = Inr b'"
    then have ex: "ex = False" using opts(1) by simp
    note price = price0 [unfolded ex]
    have auto: "automatic_promotion z db default_options None (Some c) items at = Inr (p, c0)"
      using choose ex opts by (simp add: choose_promotion_def truthy_text_def)
    define qs where "qs = filter (\<lambda>q. if pr_eligibility_type q = First_visit
            then first_visit_reason db (Some c) None = ''eligible''
            else ensure_customer_eligible z db q (Some c) at = Inr ())
          (filter (\<lambda>q. is_automatic q \<and> subtotal_amount (eligible_services items q) None > 0)
            (list_active_public_catalog_promotions z db at))"
    have qs: "q \<in> set qs \<longleftrightarrow> automatic_for z db c items at q" for q
      unfolding qs_def by (rule automatic_candidates)
    have p: "p = max_by (\<lambda>q. (full_discount items q, - pr_id q)) qs"
      using automatic_promotion_Inr(1) [OF auto assms(2,3)] by (simp add: opts(2) full_discount_def qs_def)
    show thesis
    proof (cases p)
      case None
      with p have empty: "qs = []" by (metis max_by_None)
      have "\<not> automatic_for z db c items at q" for q using qs [of q] by (simp add: empty)
      then show thesis
        using price_booking_amounts(3) [OF price] price_booking_promotion [OF price] None by (intro none) simp_all
    next
      case (Some m)
      have max: "m \<in> set qs \<and> (\<forall>q \<in> set qs. (full_discount items q, - pr_id q) \<le> (full_discount items m, - pr_id m))"
        using p Some by (intro max_by_Some) simp
      show thesis
        using max qs price_booking_amounts(3) [OF price] price_booking_promotion [OF price] Some
        by (intro best [of m]) (auto simp: full_discount_def opts(2))
    qed
  qed
qed

text \<open>
  A booking that leaves \<open>apply_to_booking\<close> with the entitlement either kept the one it had or was
  checked: no other booking of the same identity is completed or holds it, and the identity has
  no earlier visit on record.
\<close>

lemma first_visit_guard_Inr:
  assumes "first_visit_guard db reserve bid customer = Inr c" and "has_id cu_id (customers db)"
    and "\<And>d. customer = Some d \<Longrightarrow> get (customers db) (cu_id d) = Some d"
  shows "\<exists>d. c = Some d \<and> customer = Some d \<and> first_visit_reason db (Some d) bid = ''eligible''"
  using assms lock_customer_present [OF assms(2)]
  by (fastforce simp: first_visit_guard_def and_then_eq_Inr lock_if_def Let_def split: option.splits if_splits)

lemma automatic_customer:
  assumes "choose_promotion z db opts ex b bid code customer items at = Inr (p, c0)"
    and "has_id cu_id (customers db)"
    and "\<And>d. customer = Some d \<Longrightarrow> get (customers db) (cu_id d) = Some d"
  shows "c0 = customer"
proof (cases customer)
  case None
  with assms(1) show ?thesis
    by (auto simp: choose_promotion_def automatic_promotion_def and_then_eq_Inr Let_def split: if_splits option.splits)
next
  case (Some d)
  have "c0 = Some d" if "automatic_promotion z db opts bid (Some d) items at = Inr (p, c0)"
    using automatic_promotion_Inr(2) [OF that assms(2)] assms(3) [OF Some] by simp
  with Some assms(1) show ?thesis
    by (auto simp: choose_promotion_def and_then_eq_Inr split: if_splits option.splits)
qed

lemma apply_reserves_checked:
  assumes "apply_to_booking z campaign db opts b bid code customer items at = Inr b'"
    and "no_campaign opts b" and "has_id cu_id (customers db)"
    and "\<And>d. customer = Some d \<Longrightarrow> get (customers db) (cu_id d) = Some d"
    and "bk_first_visit_customer_id b' = Some i"
  shows "(\<exists>c. customer = Some c \<and> cu_id c = i \<and> first_visit_reason db (Some c) bid = ''eligible'')
    \<or> bk_first_visit_customer_id b = Some i"
  using assms(1,2)
proof (rule apply_to_booking_Inr)
  fix p c0 c ex
  assume ex: "ex = (preserve_existing opts \<and> bk_percent_snapshot b \<noteq> None)"
    and choose: "choose_promotion z db opts ex b bid code customer items at = Inr (p, c0)"
    and settle: "settle_eligibility z db (reserve_entitlement opts) ex b bid p c0 at = Inr c"
    and price: "price_booking opts ex (is_first_visit ex b p) p c items b = Inr b'"
  have c0: "c0 = customer" by (rule automatic_customer [OF choose assms(3,4)])
  have fv: "is_first_visit ex b p" "\<not> is_inactive b" "map_option cu_id c = Some i"
    using price_booking_amounts(5) [OF price] assms(5) by (auto split: if_splits)
  show ?thesis
  proof (cases "ex \<and> bk_status b = Completed \<and> customer \<noteq> None \<and> bk_first_visit_customer_id b = map_option cu_id customer")
    case True
    then have "c = customer" using settle fv(1) c0 by (auto simp: settle_eligibility_def)
    with True fv(3) show ?thesis by simp
  next
    case False
    then have "first_visit_guard db (reserve_entitlement opts) bid customer = Inr c"
      using settle fv c0 by (auto simp: settle_eligibility_def)
    from first_visit_guard_Inr [OF this assms(3,4)] fv(3) show ?thesis by auto
  qed
qed

lemma apply_entitlement_unique:
  assumes "apply_to_booking z campaign db opts b bid code customer items at = Inr b'"
    and "no_campaign opts b" and "customers_ok db" and "has_id bk_id (bookings db)"
    and "\<And>d. customer = Some d \<Longrightarrow> get (customers db) (cu_id d) = Some d"
    and "entitlement_unique db"
    and saved: "bid = None \<and> get (bookings db) k = None \<and> bk_first_visit_customer_id b = None
      \<or> bid = Some k \<and> (\<exists>old. get (bookings db) k = Some old
          \<and> bk_first_visit_customer_id b = bk_first_visit_customer_id old)"
  shows "entitlement_unique (db\<lparr>bookings := put k (b'\<lparr>bk_id := k\<rparr>) (bookings db)\<rparr>)"
proof (rule entitlement_unique_put [OF assms(6,4)])
  have cok: "has_id cu_id (customers db)" using assms(3) by (simp add: customers_ok_def)
  have hold: "holder db (b'\<lparr>bk_id := k\<rparr>) = holder db b'" by (simp add: holder_def)
  fix x assume x: "x \<in> set (rows (bookings db))" "bk_id x \<noteq> k" and h: "holder db (b'\<lparr>bk_id := k\<rparr>) \<noteq> None"
  then obtain i c where i: "bk_first_visit_customer_id b' = Some i" "get (customers db) i = Some c"
    by (auto simp: holder_def split: option.splits)
  have id: "cu_id c = i" using cok i(2) by (rule has_id_get)
  have hb: "holder db b' = Some (identity_key c)" using i by (simp add: holder_def)
  have "(\<exists>c. customer = Some c \<and> cu_id c = i \<and> first_visit_reason db (Some c) bid = ''eligible'')
      \<or> bk_first_visit_customer_id b = Some i"
    by (rule apply_reserves_checked [OF assms(1,2) cok _ i(1)]) (rule assms(5))
  then show "holder db x \<noteq> holder db (b'\<lparr>bk_id := k\<rparr>)"
  proof (elim disjE exE conjE)
    fix d assume d: "customer = Some d" "cu_id d = i" "first_visit_reason db (Some d) bid = ''eligible''"
    then have "d = c" using assms(5) [OF d(1)] i(2) by simp
    moreover have "bid \<noteq> Some (bk_id x)" using saved x(2) by auto
    ultimately have "\<not> reserved_by db c x" using d(3) x(1) by (simp add: first_visit_reason_eligible)
    then show ?thesis
      using reserved_by_iff [OF assms(3), of c x] get_in_rows [OF i(2)] hb hold by simp
  next
    assume keep: "bk_first_visit_customer_id b = Some i"
    then obtain old where old: "get (bookings db) k = Some old" "bk_first_visit_customer_id old = Some i"
      using saved by auto
    have "holder db old = holder db b'" using old(2) i by (simp add: holder_def)
    moreover have "bk_id old = k" using assms(4) old(1) by (rule has_id_get)
    ultimately show ?thesis
      using assms(6) x get_in_rows [OF old(1)] hb hold unfolding entitlement_unique_def by (metis option.discI)
  qed
qed simp

section \<open>Status changes\<close>

lemma sync_cancel_releases:
  assumes "sync_first_visit_status z campaign campaign_sync db b s = Inr (db', b')"
    and "s = Cancelled \<or> s = No_show" and "\<not> truthy_id (bk_campaign_offer_id b)"
  shows "\<not> truthy_id (bk_first_visit_customer_id b') \<and> db' = db"
  using assms
  by (auto simp: sync_first_visit_status_def and_then_eq_Inr truthy_id_def split: if_splits option.splits)

text \<open>After completion no alias of the customer is offered the first visit again.\<close>

lemma visited_not_eligible:
  assumes "customers_ok db" and "c \<in> set (rows (customers db))" and "visited c"
    and "d \<in> set (rows (customers db))" and "identity_key d = identity_key c"
  shows "first_visit_reason db (Some d) bid = ''not_eligible''"
proof -
  have "same_identity d c" using same_identity_iff [OF assms(1,4,2)] assms(5) by simp
  then show ?thesis using assms(2,3) by (auto simp: first_visit_reason_def select_where_def filter_empty_conv)
qed

lemma sync_completed_consumes:
  assumes "sync_first_visit_status z campaign campaign_sync db b Completed = Inr (db', b')"
    and "customers_ok db" and "\<not> truthy_id (bk_campaign_offer_id b)"
    and "truthy_id (bk_customer_id b)" and "get_customer db (bk_customer_id b) = Some c"
    and "get (customers db') i = Some d" and "identity_key d = identity_key c"
  shows "first_visit_reason db' (Some d) bid = ''not_eligible''"
proof -
  have cok: "has_id cu_id (customers db)" using assms(2) by (simp add: customers_ok_def)
  obtain j where j: "bk_customer_id b = Some j" "get (customers db) j = Some c"
    using assms(5) by (auto simp: get_customer_def split: option.splits)
  have id: "cu_id c = j" using cok j(2) by (rule has_id_get)
  have lock: "lock_customer db c = Inr c" by (rule lock_customer_present [OF cok j(2)])
  define c' where "c' = c\<lparr>cu_first_visit_completed_at :=
      (case cu_first_visit_completed_at c of Some t \<Rightarrow> Some t | None \<Rightarrow> Some (bk_end_at b))\<rparr>"
  have "\<exists>t. db' = db\<lparr>customers := put j (c\<lparr>cu_first_visit_completed_at := Some t\<rparr>) (customers db)\<rparr>"
    using assms(1,3,4,5) lock id
    by (auto simp: sync_first_visit_status_def and_then_eq_Inr Let_def split: option.splits if_splits)
  then obtain t where db': "db' = db\<lparr>customers := put j (c\<lparr>cu_first_visit_completed_at := Some t\<rparr>) (customers db)\<rparr>"
    by blast
  have ok': "customers_ok db'"
  proof -
    have "has_id cu_id (customers db')" using cok id by (simp add: db' has_id_put)
    moreover have "cu_phone x \<noteq> []" if "x \<in> set (rows (customers db'))" for x
      using has_id_rows [OF \<open>has_id cu_id (customers db')\<close> that] assms(2) get_in_rows [OF j(2)]
      by (auto simp: db' get_put customers_ok_def intro: get_in_rows split: if_splits)
    ultimately show ?thesis by (simp add: customers_ok_def)
  qed
  have row: "c\<lparr>cu_first_visit_completed_at := Some t\<rparr> \<in> set (rows (customers db'))"
    by (rule get_in_rows [of _ j]) (simp add: db')
  show ?thesis
    by (rule visited_not_eligible [OF ok' row _ get_in_rows [OF assms(6)]])
      (use assms(7) in \<open>simp_all add: visited_def identity_key_def\<close>)
qed

chapter \<open>Properties\<close>

text \<open>The demonstration salon with a customer, an automatic first-visit promotion and a percentage
  for everyone.\<close>

definition demo_customer :: customer where
  "demo_customer = \<lparr>cu_id = 7, cu_phone = ''+380671234567'', cu_email = None, cu_name = Some ''A'',
     cu_surname = None, cu_is_active = True, cu_first_visit_completed_at = None,
     cu_imported_last_visit_at = None, cu_imported_total_spent = 0\<rparr>"

definition demo_promotion :: "int \<Rightarrow> int \<Rightarrow> eligibility_type \<Rightarrow> promotion" where
  "demo_promotion i percent e = \<lparr>pr_id = i, pr_code = ''P'', pr_name_uk = ''P'', pr_name_en = ''P'',
     pr_discount_percent = percent, pr_eligibility_type = e, pr_application_mode = Automatic,
     pr_inactive_days = None, pr_starts_at = None, pr_ends_at = None, pr_applies_to_all_masters = True,
     pr_master_ids = [], pr_applies_to_all_services = True, pr_base_service_ids = [],
     pr_recipient_offer_only = False, pr_is_public = True, pr_is_active = True\<rparr>"

definition demo_promo_salon :: salon where
  "demo_promo_salon = demo_salon\<lparr>customers := [(7, demo_customer)],
     promotions := [(1, demo_promotion 1 10 All_customers), (2, demo_promotion 2 25 First_visit)]\<rparr>"

definition demo_booking :: booking where
  "demo_booking = \<lparr>bk_id = 1, bk_master_id = 1, bk_service_id = 21, bk_customer_id = Some 7,
      bk_redirected_from_master_id = None, bk_customer_name = ''A'', bk_customer_phone = ''+380671234567'',
      bk_customer_email = None, bk_customer_comment = None, bk_start_at = 0, bk_end_at = 3600,
      bk_status = Confirmed, bk_source = Web, bk_cancelled_at = None, bk_completed_at = None,
      bk_promotion_id = None, bk_campaign_offer_id = None, bk_campaign_offer_reservation_id = None,
      bk_first_visit_customer_id = None, bk_mode_snapshot = None, bk_eligibility_snapshot = None,
      bk_code_snapshot = None, bk_name_uk_snapshot = None, bk_name_en_snapshot = None,
      bk_percent_snapshot = None, bk_subtotal_amount = None, bk_promotion_discount_amount = None,
      bk_manual_discount_amount = 0, bk_total_amount = None, bk_service_items = []\<rparr>"

lemmas demo_promo_defs = demo_promo_salon_def demo_customer_def demo_promotion_def demo_booking_def demo_defs

text \<open>The delegate for recipient offers is not reached in these runs.\<close>

definition demo_apply :: "booking result" where
  "demo_apply = apply_to_booking winter_zone (\<lambda>b. Inl KeyError) demo_promo_salon default_options demo_booking
     None None (Some demo_customer) [demo_service 21 1] (Kyiv 0)"

lemma demo_reason: "first_visit_reason demo_promo_salon (Some demo_customer) None = ''eligible''"
  by (simp add: first_visit_reason_eligible visited_def rows_def demo_promo_defs)

lemma demo_customers_ok: "customers_ok demo_promo_salon"
  by (auto simp: customers_ok_def has_id_def table_ok_def ids_def rows_def demo_promo_defs split: if_splits)

lemma demo_customer_row: "get (customers demo_promo_salon) (cu_id demo_customer) = Some demo_customer"
  by (simp add: demo_promo_defs)

lemma demo_catalog:
  "list_active_public_catalog_promotions winter_zone demo_promo_salon (Kyiv 0) =
     [demo_promotion 1 10 All_customers, demo_promotion 2 25 First_visit]"
  by (simp add: list_active_public_catalog_promotions_def select_where_def rows_def
      should_show_in_public_catalog_def is_automatic_def demo_promo_defs)

lemma demo_eligible: "eligible_services [demo_service 21 1] (demo_promotion i n e) = [demo_service 21 1]"
  by (simp add: eligible_services_def applies_to_service_def demo_promo_defs)

lemma demo_subtotal: "subtotal_amount [demo_service 21 1] None = 500"
  by (simp add: subtotal_amount_def service_price_def demo_defs)

lemma demo_automatic: "automatic_for winter_zone demo_promo_salon demo_customer [demo_service 21 1] (Kyiv 0)
    (demo_promotion 2 25 First_visit)"
proof -
  have "pr_eligibility_type (demo_promotion 2 25 First_visit) = First_visit"
    "is_automatic (demo_promotion 2 25 First_visit)"
    by (simp_all add: demo_promotion_def is_automatic_def)
  then show ?thesis
    by (simp add: automatic_for_def demo_catalog demo_eligible demo_subtotal ensure_first_visit_eligible demo_reason)
qed

lemma demo_apply_run: "case demo_apply of Inl e \<Rightarrow> False
    | Inr b \<Rightarrow> bk_first_visit_customer_id b = Some 7 \<and> bk_total_amount b = Some 375"
  by code_simp

text \<open>Applying a promotion writes consistent amounts: the subtotal is the sum of the service
  prices, the promotion's discount lies between zero and the subtotal, and the total is the subtotal
  less both discounts, never below zero.\<close>

theorem applied_amounts_consistent:
  assumes "apply_to_booking z campaign db opts b bid code customer items at = Inr b'"
    and "no_campaign opts b" and "percents_ok db"
    and "\<And>s. s \<in> set items \<Longrightarrow> 0 \<le> service_price s (service_prices opts)"
    and "\<And>n. bk_percent_snapshot b = Some n \<Longrightarrow> 0 \<le> n \<and> n \<le> 100"
  shows "\<exists>discount. bk_subtotal_amount b' = Some (subtotal_amount items (service_prices opts))
    \<and> bk_promotion_discount_amount b' = Some discount
    \<and> 0 \<le> discount \<and> discount \<le> subtotal_amount items (service_prices opts)
    \<and> bk_total_amount b' = Some (max (subtotal_amount items (service_prices opts) - discount
        - bk_manual_discount_amount b') 0)"
  by (rule apply_to_booking_amounts [OF assms])

lemma demo_apply_Inr:
  obtains b where "apply_to_booking winter_zone (\<lambda>b. Inl KeyError) demo_promo_salon default_options demo_booking
      None None (Some demo_customer) [demo_service 21 1] (Kyiv 0) = Inr b"
    and "bk_first_visit_customer_id b = Some 7" and "bk_total_amount b = Some 375"
  using demo_apply_run unfolding demo_apply_def by (auto split: sum.splits)

lemma demo_no_campaign: "no_campaign default_options demo_booking"
  by (simp add: no_campaign_def default_options_def demo_booking_def truthy_text_def truthy_id_def)

theorem applied_amounts_consistent_witness:
  "\<exists>b discount. apply_to_booking winter_zone (\<lambda>b. Inl KeyError) demo_promo_salon default_options demo_booking
      None None (Some demo_customer) [demo_service 21 1] (Kyiv 0) = Inr b
    \<and> bk_promotion_discount_amount b = Some discount \<and> 0 \<le> discount \<and> discount \<le> 500"
proof (rule demo_apply_Inr)
  fix b assume run: "apply_to_booking winter_zone (\<lambda>b. Inl KeyError) demo_promo_salon default_options demo_booking
      None None (Some demo_customer) [demo_service 21 1] (Kyiv 0) = Inr b"
  have "percents_ok demo_promo_salon"
    by (simp add: percents_ok_def rows_def demo_promo_defs)
  moreover have "service_prices default_options = None" "bk_percent_snapshot demo_booking = None"
    by (simp_all add: default_options_def demo_booking_def)
  moreover have "0 \<le> service_price (demo_service 21 1) None"
    by (simp add: service_price_def demo_defs)
  ultimately show ?thesis
    using applied_amounts_consistent [OF run demo_no_campaign] run by (force simp: demo_subtotal)
qed

text \<open>C37: the booking of a known customer without a code and without a recipient offer gets the best
  automatic promotion it is entitled to: the promotion applied
  is active, automatic, covers one of the services and the customer is eligible for it, the discount
  is that promotion's, and every other promotion of that kind gives less or gives the same and has a
  larger id; only when there is no such promotion the booking carries none and no discount.\<close>

theorem automatic_promotion_is_best:
  assumes "apply_to_booking z campaign db default_options b None None (Some c) items at = Inr b'"
    and "has_id cu_id (customers db)" and "get (customers db) (cu_id c) = Some c"
    and "bk_campaign_offer_id b = None"
  shows "(\<exists>p. automatic_for z db c items at p \<and> bk_promotion_id b' = Some (pr_id p)
      \<and> bk_promotion_discount_amount b' = Some (full_discount items p)
      \<and> (\<forall>q. automatic_for z db c items at q \<longrightarrow> full_discount items q < full_discount items p
            \<or> full_discount items q = full_discount items p \<and> pr_id p \<le> pr_id q))
    \<or> (\<forall>q. \<not> automatic_for z db c items at q) \<and> bk_promotion_id b' = None
      \<and> bk_promotion_discount_amount b' = Some 0"
  using assms
proof (cases rule: automatic_promotion_chosen)
  case none
  then show ?thesis by blast
next
  case (best p)
  have "full_discount items q < full_discount items p \<or> full_discount items q = full_discount items p \<and> pr_id p \<le> pr_id q"
    if "automatic_for z db c items at q" for q
    using best(4) [OF that] by (auto simp: less_eq_prod_def)
  with best(1-3) show ?thesis by blast
qed

theorem automatic_promotion_is_best_witness:
  "\<exists>b p. apply_to_booking winter_zone (\<lambda>b. Inl KeyError) demo_promo_salon default_options demo_booking
      None None (Some demo_customer) [demo_service 21 1] (Kyiv 0) = Inr b
    \<and> automatic_for winter_zone demo_promo_salon demo_customer [demo_service 21 1] (Kyiv 0) p
    \<and> bk_promotion_id b = Some (pr_id p) \<and> bk_promotion_discount_amount b = Some (full_discount [demo_service 21 1] p)
    \<and> discount_amount 500 25 \<le> full_discount [demo_service 21 1] p"
proof (rule demo_apply_Inr)
  fix b assume run: "apply_to_booking winter_zone (\<lambda>b. Inl KeyError) demo_promo_salon default_options demo_booking
      None None (Some demo_customer) [demo_service 21 1] (Kyiv 0) = Inr b"
  have "has_id cu_id (customers demo_promo_salon)" using demo_customers_ok by (simp add: customers_ok_def)
  moreover have "bk_campaign_offer_id demo_booking = None" by (simp add: demo_booking_def)
  moreover have "full_discount [demo_service 21 1] (demo_promotion 2 25 First_visit) = discount_amount 500 25"
    by (simp add: full_discount_def demo_eligible demo_subtotal) (simp add: demo_promotion_def)
  ultimately show ?thesis
    using automatic_promotion_is_best [OF run _ demo_customer_row] run demo_automatic
    by (metis nle_le order.strict_implies_order order.refl)
qed

text \<open>C18: the first-visit entitlement is held at most once per phone identity: storing a booking without
  a recipient offer that went through \<open>apply_to_booking\<close>, as a new row or over its own old row, keeps that no two
  bookings hold the entitlement of the same identity.\<close>

theorem first_visit_entitlement_unique:
  assumes "apply_to_booking z campaign db opts b bid code customer items at = Inr b'"
    and "no_campaign opts b" and "customers_ok db" and "has_id bk_id (bookings db)"
    and "\<And>d. customer = Some d \<Longrightarrow> get (customers db) (cu_id d) = Some d"
    and "entitlement_unique db"
    and "bid = None \<and> get (bookings db) k = None \<and> bk_first_visit_customer_id b = None
      \<or> bid = Some k \<and> (\<exists>old. get (bookings db) k = Some old
          \<and> bk_first_visit_customer_id b = bk_first_visit_customer_id old)"
  shows "entitlement_unique (db\<lparr>bookings := put k (b'\<lparr>bk_id := k\<rparr>) (bookings db)\<rparr>)"
  by (rule apply_entitlement_unique [OF assms])

theorem first_visit_entitlement_unique_witness:
  "\<exists>b. bk_first_visit_customer_id b = Some 7
     \<and> entitlement_unique (demo_promo_salon\<lparr>bookings := put 1 (b\<lparr>bk_id := 1\<rparr>) []\<rparr>)"
proof (rule demo_apply_Inr)
  fix b assume run: "apply_to_booking winter_zone (\<lambda>b. Inl KeyError) demo_promo_salon default_options demo_booking
      None None (Some demo_customer) [demo_service 21 1] (Kyiv 0) = Inr b"
    and seven: "bk_first_visit_customer_id b = Some 7"
  have none: "bookings demo_promo_salon = []" by (simp add: demo_promo_defs)
  have "entitlement_unique (demo_promo_salon\<lparr>bookings := put 1 (b\<lparr>bk_id := 1\<rparr>) (bookings demo_promo_salon)\<rparr>)"
    by (rule first_visit_entitlement_unique [OF run demo_no_campaign demo_customers_ok])
      (use demo_customer_row in \<open>simp_all add: none has_id_def entitlement_unique_def demo_booking_def\<close>)
  with seven none show ?thesis by auto
qed

text \<open>Completing a booking uses up the first visit of the whole phone identity: afterwards every
  customer row with the same canonical phone is reported as not eligible.\<close>

theorem completion_consumes_first_visit:
  assumes "sync_first_visit_status z campaign campaign_sync db b Completed = Inr (db', b')"
    and "customers_ok db" and "\<not> truthy_id (bk_campaign_offer_id b)"
    and "truthy_id (bk_customer_id b)" and "get_customer db (bk_customer_id b) = Some c"
    and "get (customers db') i = Some d" and "identity_key d = identity_key c"
  shows "first_visit_reason db' (Some d) bid = ''not_eligible''"
  by (rule sync_completed_consumes [OF assms])

theorem completion_consumes_first_visit_witness:
  "\<exists>db' b' d. sync_first_visit_status winter_zone (\<lambda>b. Inl KeyError) (\<lambda>db b s. Inl KeyError)
      demo_promo_salon demo_booking Completed = Inr (db', b') \<and> get (customers db') 7 = Some d
    \<and> first_visit_reason db' (Some d) None = ''not_eligible''"
proof -
  let ?run = "sync_first_visit_status winter_zone (\<lambda>b. Inl KeyError) (\<lambda>db b s. Inl KeyError)
      demo_promo_salon demo_booking Completed"
  have ok: "case ?run of Inl e \<Rightarrow> False | Inr (db', b') \<Rightarrow> (case get (customers db') 7 of None \<Rightarrow> False
      | Some d \<Rightarrow> identity_key d = identity_key demo_customer)"
    by code_simp
  then obtain db' b' d where run: "?run = Inr (db', b')" and d: "get (customers db') 7 = Some d"
    "identity_key d = identity_key demo_customer"
    by (cases ?run) (auto split: option.splits)
  have "first_visit_reason db' (Some d) None = ''not_eligible''"
    by (rule completion_consumes_first_visit [OF run demo_customers_ok _ _ _ d])
      (simp_all add: demo_booking_def truthy_id_def get_customer_def demo_promo_defs)
  with run d(1) show ?thesis by blast
qed

end
