(* ===== verification/Bookings.thy ===== *)
theory Bookings
  imports Promotions
begin

text \<open>
  Availability and booking creation of \<^verbatim>\<open>app/services/booking.py\<close>: the queries for busy
  time, holds, blocks and windows, the guards of a slot, the slot listing over a range of days, the
  identity of the customer, the public booking, the availability windows and the time blocks.
  A query compares instants; Python compares the wall clocks of Kyiv datetimes.
\<close>

section \<open>Queries\<close>

type_synonym busy = "booking + waitlist_offer"

definition overlaps :: "instant \<Rightarrow> instant \<Rightarrow> instant \<Rightarrow> instant \<Rightarrow> bool" where
  "overlaps row_start row_end start_at end_at \<longleftrightarrow> row_start < end_at \<and> row_end > start_at"

definition list_active_waitlist_holds ::
  "salon \<Rightarrow> instant \<Rightarrow> int option \<Rightarrow> instant \<Rightarrow> instant \<Rightarrow> int option \<Rightarrow> waitlist_offer list" where
  "list_active_waitlist_holds db now master_id start_at end_at exclude_waitlist_offer_id =
     select_where (\<lambda>w. (wo_status w = OSent \<or> wo_status w = ODelivered) \<and> wo_expires_at w > now
         \<and> overlaps (wo_start_at w) (wo_end_at w) start_at end_at
         \<and> (case master_id of None \<Rightarrow> True | Some m \<Rightarrow> wo_master_id w = m)
         \<and> exclude_waitlist_offer_id \<noteq> Some (wo_id w)) (offers db)"

definition list_busy_bookings ::
  "salon \<Rightarrow> instant \<Rightarrow> int \<Rightarrow> instant \<Rightarrow> instant \<Rightarrow> int option \<Rightarrow> int option \<Rightarrow> busy list" where
  "list_busy_bookings db now master_id start_at end_at exclude_booking_id exclude_waitlist_offer_id =
     map Inl (select_where (\<lambda>b. bk_master_id b = master_id \<and> bk_status b = Confirmed
         \<and> overlaps (bk_start_at b) (bk_end_at b) start_at end_at
         \<and> exclude_booking_id \<noteq> Some (bk_id b)) (bookings db))
     @ map Inr (list_active_waitlist_holds db now (Some master_id) start_at end_at exclude_waitlist_offer_id)"

definition list_time_blocks :: "salon \<Rightarrow> int \<Rightarrow> instant \<Rightarrow> instant \<Rightarrow> time_block list" where
  "list_time_blocks db master_id start_at end_at =
     select_where (\<lambda>t. tb_master_id t = master_id \<and> overlaps (tb_start_at t) (tb_end_at t) start_at end_at)
       (blocks db)"

definition list_availability_windows :: "salon \<Rightarrow> int \<Rightarrow> instant \<Rightarrow> instant \<Rightarrow> window list" where
  "list_availability_windows db master_id start_at end_at =
     sort_key wn_start_at
       (select_where (\<lambda>w. wn_master_id w = master_id \<and> overlaps (wn_start_at w) (wn_end_at w) start_at end_at)
         (windows db))"

definition ensure_no_overlapping_availability :: "salon \<Rightarrow> int \<Rightarrow> instant \<Rightarrow> instant \<Rightarrow> unit result" where
  "ensure_no_overlapping_availability db master_id start_at end_at =
     (if select_where (\<lambda>w. wn_master_id w = master_id \<and> overlaps (wn_start_at w) (wn_end_at w) start_at end_at)
           (windows db) \<noteq> []
      then conflict ''Availability window overlaps an existing window'' else Inr ())"

section \<open>The guards of a slot\<close>

definition window_pairs :: "window list \<Rightarrow> (datetime \<times> datetime) list" where
  "window_pairs ws = map (\<lambda>w. (Aware (wn_start_at w), Aware (wn_end_at w))) ws"

definition ensure_booking_within_availability ::
  "zone \<Rightarrow> salon \<Rightarrow> instant \<Rightarrow> int \<Rightarrow> datetime \<Rightarrow> datetime \<Rightarrow> unit result" where
  "ensure_booking_within_availability z db now master_id start_at end_at =
     and_then (ensure_valid_interval z start_at end_at) (\<lambda>(s, e).
     and_then (ensure_within_working_hours z (Kyiv s) (Kyiv e)) (\<lambda>_.
     and_then (ensure_availability_horizon z now s e) (\<lambda>_.
     let available = availability_intervals_from_pairs z (date_of s)
           (window_pairs (list_availability_windows db master_id (to_utc z s) (to_utc z e)))
     in if \<not> list_ex (\<lambda>(left, right). left \<le> s \<and> right \<ge> e) available
        then conflict ''Booking slot is outside master's open availability'' else Inr ())))"

definition ensure_slot_available ::
  "salon \<Rightarrow> instant \<Rightarrow> int \<Rightarrow> instant \<Rightarrow> instant \<Rightarrow> int option \<Rightarrow> int option \<Rightarrow> unit result" where
  "ensure_slot_available db now master_id start_at end_at exclude_booking_id exclude_waitlist_offer_id =
     (if list_busy_bookings db now master_id start_at end_at exclude_booking_id exclude_waitlist_offer_id \<noteq> []
      then conflict ''Booking slot overlaps an existing booking''
      else if list_time_blocks db master_id start_at end_at \<noteq> []
      then conflict ''Booking slot overlaps a blocked interval'' else Inr ())"

section \<open>Slot listing\<close>

definition busy_row :: "busy \<Rightarrow> calendar_row" where
  "busy_row x = (case x of Inl b \<Rightarrow> (bk_master_id b, Aware (bk_start_at b), Aware (bk_end_at b))
     | Inr w \<Rightarrow> (wo_master_id w, Aware (wo_start_at w), Aware (wo_end_at w)))"

definition block_row :: "time_block \<Rightarrow> calendar_row" where
  "block_row t = (tb_master_id t, Aware (tb_start_at t), Aware (tb_end_at t))"

definition window_row :: "window \<Rightarrow> calendar_row" where
  "window_row w = (wn_master_id w, Aware (wn_start_at w), Aware (wn_end_at w))"

text \<open>\<open>load_calendar_range_data\<close> queries its masters in batches.\<close>

definition CALENDAR_MASTER_BATCH_SIZE :: nat where "CALENDAR_MASTER_BATCH_SIZE = 256"

function batches :: "nat \<Rightarrow> 'a list \<Rightarrow> 'a list list" where
  "batches n xs = (if xs = [] \<or> n = 0 then [] else take n xs # batches n (drop n xs))"
  by pat_completeness auto
termination by (relation "measure (\<lambda>(n, xs). length xs)") auto

declare batches.simps [simp del]

definition load_calendar_range_data ::
  "zone \<Rightarrow> salon \<Rightarrow> instant \<Rightarrow> int list \<Rightarrow> datetime \<Rightarrow> datetime \<Rightarrow> int option \<Rightarrow> calendar_range result" where
  "load_calendar_range_data z db now calendar_master_ids start_at end_at exclude_booking_id =
     and_then (ensure_valid_interval z start_at end_at) (\<lambda>(s, e).
     let master_ids = rev (remdups (rev calendar_master_ids)); a = to_utc z s; b = to_utc z e
     in if master_ids = []
        then Inr \<lparr>availability_by_master_id = Map.empty, busy_by_master_id = Map.empty\<rparr>
        else
          let parts = batches CALENDAR_MASTER_BATCH_SIZE master_ids;
              ws = concat (map (\<lambda>batch. sort_key (\<lambda>w. (wn_master_id w, wn_start_at w))
                (select_where (\<lambda>w. wn_master_id w \<in> set batch
                   \<and> overlaps (wn_start_at w) (wn_end_at w) a b) (windows db))) parts);
              bs = concat (map (\<lambda>batch. select_where (\<lambda>k. bk_master_id k \<in> set batch
                   \<and> bk_status k = Confirmed \<and> overlaps (bk_start_at k) (bk_end_at k) a b
                   \<and> exclude_booking_id \<noteq> Some (bk_id k)) (bookings db)) parts);
              hs = concat (map (\<lambda>batch. select_where (\<lambda>h. wo_master_id h \<in> set batch
                   \<and> (wo_status h = OSent \<or> wo_status h = ODelivered) \<and> wo_expires_at h > now
                   \<and> overlaps (wo_start_at h) (wo_end_at h) a b) (offers db)) parts);
              ts = concat (map (\<lambda>batch. select_where (\<lambda>t. tb_master_id t \<in> set batch
                   \<and> overlaps (tb_start_at t) (tb_end_at t) a b) (blocks db)) parts)
          in Inr (calendar_range_data z master_ids (date_of s) (date_of e) (map window_row ws)
               (map (busy_row \<circ> Inl) bs @ map (busy_row \<circ> Inr) hs) (map block_row ts)))"

record available_slots_range =
  asr_booking_master_id :: int
  asr_duration_minutes :: int
  asr_catalog_price :: int
  asr_slots_by_date :: "(date \<times> interval list) list"
  asr_has_slots_by_date :: "(date \<times> bool) list option"

definition selected_ids :: "int option \<Rightarrow> int list option \<Rightarrow> int list" where
  "selected_ids service_id sids =
     (case sids of
        Some (i # is) \<Rightarrow> i # is
      | _ \<Rightarrow> (case service_id of None \<Rightarrow> [] | Some i \<Rightarrow> [i]))"

text \<open>The part of the listing that resolves who is booked, for what and for how long.\<close>

definition resolve_slot_request ::
  "salon \<Rightarrow> int \<Rightarrow> int option \<Rightarrow> int list option \<Rightarrow> int option \<Rightarrow> (master \<times> service list \<times> int) result" where
  "resolve_slot_request db master_id service_id sids duration_minutes =
     (let selected = selected_ids service_id sids
      in if selected = [] then bad_request ''service_id or service_ids is required''
         else if length (remdups selected) \<noteq> length selected
         then bad_request ''service_ids must not contain duplicates''
         else and_then (resolve_booking_master db master_id) (\<lambda>(requested_master, booking_master).
              if \<not> ms_show_on_master_block requested_master then not_found ''Master not found''
              else and_then (get_active_services db selected) (\<lambda>source_services.
                   and_then (ensure_master_provides_services db requested_master selected) (\<lambda>_.
                   and_then (resolve_booking_services_for_master db requested_master booking_master selected
                       (Some source_services)) (\<lambda>items.
                   and_then (resolve_duration_minutes source_services duration_minutes False) (\<lambda>minutes.
                   Inr (booking_master, items, minutes)))))))"

text \<open>The calendar of one master over a range of days, as the listing loads it.\<close>

definition range_calendar ::
  "zone \<Rightarrow> salon \<Rightarrow> instant \<Rightarrow> int \<Rightarrow> date \<Rightarrow> date \<Rightarrow> calendar_range" where
  "range_calendar z db now m d0 d1 =
     (let a = to_utc z (fst (day_bounds d0)); b = to_utc z (snd (day_bounds d1))
      in calendar_range_data z [m] d0 d1
           (map window_row (list_availability_windows db m a b))
           (map busy_row (list_busy_bookings db now m a b None None))
           (map block_row (list_time_blocks db m a b)))"

text \<open>The answer for a resolved request, day by day.\<close>

definition slots_response ::
  "zone \<Rightarrow> salon \<Rightarrow> instant \<Rightarrow> date \<Rightarrow> date \<Rightarrow> bool \<Rightarrow> master \<times> service list \<times> int \<Rightarrow> available_slots_range" where
  "slots_response z db now start_date end_date exists_only resolved =
     (let (booking_master, items, minutes) = resolved;
          duration = minutes * minute;
          requested_dates = [start_date .. end_date];
          open_dates = filter (\<lambda>d. \<not> is_closed_business_day d) requested_dates;
          data = range_calendar z db now (ms_id booking_master) (hd open_dates) (last open_dates);
          starts = (\<lambda>d. calendar_slot_starts z now d duration
            (master_day (availability_by_master_id data) (ms_id booking_master) d)
            (master_day (busy_by_master_id data) (ms_id booking_master) d) False)
      in \<lparr>asr_booking_master_id = ms_id booking_master, asr_duration_minutes = minutes,
           asr_catalog_price = sum_list (map sv_price items),
           asr_slots_by_date = map (\<lambda>d. (d,
               if exists_only \<or> is_closed_business_day d then []
               else map (\<lambda>s. (s, s + duration)) (starts d))) requested_dates,
           asr_has_slots_by_date =
             (if exists_only
              then Some (map (\<lambda>d. (d, \<not> is_closed_business_day d
                     \<and> calendar_slot_exists z now data (ms_id booking_master) d duration)) requested_dates)
              else None)\<rparr>)"

definition get_available_slots_for_range ::
  "zone \<Rightarrow> salon \<Rightarrow> instant \<Rightarrow> int \<Rightarrow> date \<Rightarrow> date \<Rightarrow> int option \<Rightarrow> int list option \<Rightarrow> int option \<Rightarrow> bool
    \<Rightarrow> available_slots_range result" where
  "get_available_slots_for_range z db now master_id start_date end_date service_id sids
     duration_minutes exists_only =
     (if start_date > end_date then bad_request ''start_date must not be after end_date''
      else if start_date < today z now \<or> end_date > availability_horizon_end_date z now
      then bad_request ''date range is outside availability horizon''
      else and_then (resolve_slot_request db master_id service_id sids duration_minutes)
        (\<lambda>resolved. Inr (slots_response z db now start_date end_date exists_only resolved)))"

definition get_available_slots ::
  "zone \<Rightarrow> salon \<Rightarrow> instant \<Rightarrow> int \<Rightarrow> int option \<Rightarrow> date \<Rightarrow> int list option \<Rightarrow> int option \<Rightarrow> interval list result" where
  "get_available_slots z db now master_id service_id target_date sids duration_minutes =
     and_then (get_available_slots_for_range z db now master_id target_date target_date service_id
         sids duration_minutes False) (\<lambda>r.
     case map_of (asr_slots_by_date r) target_date of None \<Rightarrow> Inl KeyError | Some slots \<Rightarrow> Inr slots)"

definition get_available_slots_range ::
  "zone \<Rightarrow> salon \<Rightarrow> instant \<Rightarrow> int \<Rightarrow> date \<Rightarrow> date \<Rightarrow> int option \<Rightarrow> int list option \<Rightarrow> int option
    \<Rightarrow> (date \<times> bool) list result" where
  "get_available_slots_range z db now master_id start_date end_date service_id sids duration_minutes =
     and_then (get_available_slots_for_range z db now master_id start_date end_date service_id
         sids duration_minutes True) (\<lambda>r.
     case asr_has_slots_by_date r of None \<Rightarrow> Inl AttributeError | Some has \<Rightarrow> Inr has)"

section \<open>The customer of a booking\<close>

definition normalize_customer_phone :: "string \<Rightarrow> string result" where
  "normalize_customer_phone phone =
     and_then (normalize_phone phone) (\<lambda>p. Inr (canonical_booking_phone p))"

definition split_customer_name :: "string \<Rightarrow> string \<times> string option" where
  "split_customer_name full_name =
     (case split_first full_name of
        [] \<Rightarrow> (full_name, None) | [a] \<Rightarrow> (a, None) | a # b # _ \<Rightarrow> (a, Some b))"

definition find_booking_customer :: "salon \<Rightarrow> string option \<Rightarrow> string option \<Rightarrow> customer option" where
  "find_booking_customer db phone email =
     (let by_phone = (if truthy_text phone
            then (case sort_key (\<lambda>c. (cu_phone c \<noteq> the phone, cu_id c))
                    (select_where (\<lambda>c. cu_phone c \<in> set (phone_aliases (the phone))) (customers db)) of
                    [] \<Rightarrow> None | c # _ \<Rightarrow> Some c)
            else None)
      in if by_phone = None \<and> truthy_text email
         then find (\<lambda>c. cu_email c = Some (casefold (the email))) (rows (customers db))
         else by_phone)"

record booking_payload =
  pb_master_id :: int
  pb_service_id :: int
  pb_service_ids :: "int list option"
  pb_duration_minutes :: "int option"
  pb_customer_name :: string
  pb_customer_phone :: string
  pb_customer_email :: "string option"
  pb_customer_comment :: "string option"
  pb_start_at :: datetime
  pb_expected_total_amount :: "int option"
  pb_offer_token :: "string option"
  pb_sms_consent :: bool

text \<open>The unique columns of \<open>customers\<close>, checked by the flush.\<close>

definition customer_flush :: "customer \<Rightarrow> salon \<Rightarrow> salon result" where
  "customer_flush c db =
     (if select_where (\<lambda>o'. cu_id o' \<noteq> cu_id c
           \<and> (cu_phone o' = cu_phone c \<or> (cu_email c \<noteq> None \<and> cu_email o' = cu_email c))) (customers db) \<noteq> []
      then Inl IntegrityError else Inr (db\<lparr>customers := put (cu_id c) c (customers db)\<rparr>))"

definition new_customer :: "salon \<Rightarrow> string \<Rightarrow> string option \<Rightarrow> string option \<Rightarrow> string option \<Rightarrow> customer" where
  "new_customer db phone email name surname =
     \<lparr>cu_id = next_id (customers db), cu_phone = phone, cu_email = email, cu_name = name,
      cu_surname = surname, cu_is_active = True, cu_first_visit_completed_at = None,
      cu_imported_last_visit_at = None, cu_imported_total_spent = 0\<rparr>"

text \<open>A found customer gets the e-mail and the name it lacks.\<close>

definition enrich_email :: "salon \<Rightarrow> string option \<Rightarrow> customer \<Rightarrow> customer result" where
  "enrich_email db email c =
     (if truthy_text email \<and> cu_email c = None
      then (case find (\<lambda>o'. cu_email o' = email) (rows (customers db)) of
              Some o' \<Rightarrow> if cu_id o' \<noteq> cu_id c then conflict ''Email is already in use''
                         else Inr (c\<lparr>cu_email := email\<rparr>)
            | None \<Rightarrow> Inr (c\<lparr>cu_email := email\<rparr>))
      else Inr c)"

definition enrich_name :: "string \<Rightarrow> customer \<Rightarrow> customer" where
  "enrich_name full_name c =
     (if \<not> truthy_text (cu_name c)
      then (let (name, surname) = split_customer_name full_name
            in c\<lparr>cu_name := Some name, cu_surname := surname\<rparr>)
      else c)"

definition get_or_create_booking_customer ::
  "salon \<Rightarrow> booking_payload \<Rightarrow> (salon \<times> customer \<times> string) result" where
  "get_or_create_booking_customer db payload =
     and_then (normalize_customer_phone (pb_customer_phone payload)) (\<lambda>normalized_phone.
     and_then (normalize_phone (pb_customer_phone payload)) (\<lambda>submitted_phone.
     let email = (if truthy_text (pb_customer_email payload)
           then map_option casefold (pb_customer_email payload) else None)
     in case find_booking_customer db (Some submitted_phone) email of
          None \<Rightarrow>
            let (name, surname) = split_customer_name (pb_customer_name payload);
                c = new_customer db normalized_phone email (Some name) surname
            in and_then (customer_flush c db) (\<lambda>db. Inr (db, c, normalized_phone))
        | Some c \<Rightarrow>
            and_then (lock_customer db c) (\<lambda>c.
            and_then (enrich_email db email c) (\<lambda>c.
            let c = enrich_name (pb_customer_name payload) c
            in and_then (customer_flush c db) (\<lambda>db. Inr (db, c, normalized_phone))))))"

section \<open>Creating a booking\<close>

text \<open>
  \<^verbatim>\<open>app/services/booking_consent.py\<close>: the upsert never overwrites an explicit refusal or a
  blacklisting.
\<close>

definition record_booking_sms_consent :: "salon \<Rightarrow> instant \<Rightarrow> int \<Rightarrow> int \<Rightarrow> bool \<Rightarrow> salon" where
  "record_booking_sms_consent db now customer_id booking_id marketing_sms_consent =
     (case get (preferences db) customer_id of
        None \<Rightarrow> db\<lparr>preferences := put customer_id
          \<lparr>pf_marketing_consent = (if marketing_sms_consent then Opted_in else Consent_unknown),
           pf_transactional_consent = Opted_in, pf_booking_sms_consent_at = Some now,
           pf_booking_sms_consent_booking_id = Some booking_id, pf_do_not_contact = False,
           pf_blacklisted_at = None\<rparr> (preferences db)\<rparr>
      | Some p \<Rightarrow>
          if pf_marketing_consent p \<noteq> Opted_out \<and> pf_transactional_consent p \<noteq> Opted_out
             \<and> \<not> pf_do_not_contact p \<and> pf_blacklisted_at p = None
          then db\<lparr>preferences := put customer_id
                 (p\<lparr>pf_transactional_consent := Opted_in, pf_booking_sms_consent_at := Some now,
                   pf_booking_sms_consent_booking_id := Some booking_id,
                   pf_marketing_consent := (if marketing_sms_consent then Opted_in
                     else pf_marketing_consent p)\<rparr>) (preferences db)\<rparr>
          else db)"

record create_options =
  co_promotion_code :: "string option"
  co_allow_private_promotions :: bool
  co_allow_past :: bool
  co_require_availability :: bool
  co_require_working_hours :: bool
  co_source :: booking_source
  co_allow_duration_override :: bool
  co_repeat_booking_token :: "string option"

definition public_options :: create_options where
  "public_options = \<lparr>co_promotion_code = None, co_allow_private_promotions = False, co_allow_past = False,
     co_require_availability = True, co_require_working_hours = True, co_source = Unknown_source,
     co_allow_duration_override = False, co_repeat_booking_token = None\<rparr>"

definition new_booking ::
  "master \<Rightarrow> master \<Rightarrow> service list \<Rightarrow> customer \<Rightarrow> string \<Rightarrow> booking_payload \<Rightarrow> instant \<Rightarrow> instant
    \<Rightarrow> booking_source \<Rightarrow> int \<Rightarrow> booking" where
  "new_booking requested booking_master items c phone payload start_at end_at source new_id =
     \<lparr>bk_id = new_id, bk_master_id = ms_id booking_master,
      bk_service_id = (case items of [] \<Rightarrow> 0 | s # _ \<Rightarrow> sv_id s), bk_customer_id = Some (cu_id c),
      bk_redirected_from_master_id =
        (if ms_id requested \<noteq> ms_id booking_master then Some (ms_id requested) else None),
      bk_customer_name = pb_customer_name payload, bk_customer_phone = phone,
      bk_customer_email = cu_email c, bk_customer_comment = pb_customer_comment payload,
      bk_start_at = start_at, bk_end_at = end_at, bk_status = Confirmed, bk_source = source,
      bk_cancelled_at = None, bk_completed_at = None, bk_promotion_id = None,
      bk_campaign_offer_id = None, bk_campaign_offer_reservation_id = None,
      bk_first_visit_customer_id = None, bk_mode_snapshot = None, bk_eligibility_snapshot = None,
      bk_code_snapshot = None, bk_name_uk_snapshot = None, bk_name_en_snapshot = None,
      bk_percent_snapshot = None, bk_subtotal_amount = None, bk_promotion_discount_amount = None,
      bk_manual_discount_amount = 0, bk_total_amount = None, bk_service_items = []\<rparr>"

text \<open>The unique column \<open>first_visit_customer_id\<close> and the unique items, checked by the flush.\<close>

definition booking_flush :: "booking \<Rightarrow> salon \<Rightarrow> salon result" where
  "booking_flush b db =
     (if \<not> items_unique b
       \<or> (bk_first_visit_customer_id b \<noteq> None
          \<and> select_where (\<lambda>k. bk_id k \<noteq> bk_id b
              \<and> bk_first_visit_customer_id k = bk_first_visit_customer_id b) (bookings db) \<noteq> [])
      then Inl IntegrityError else Inr (db\<lparr>bookings := put (bk_id b) b (bookings db)\<rparr>))"

text \<open>Who is booked, for what, when: everything before the customer is looked up.\<close>

definition plan_booking ::
  "zone \<Rightarrow> salon \<Rightarrow> instant \<Rightarrow> create_options \<Rightarrow> booking_payload
    \<Rightarrow> (master \<times> master \<times> service list \<times> wall \<times> wall) result" where
  "plan_booking z db now opts payload =
     (let start_at = normalize_datetime z (pb_start_at payload);
          selected = (case pb_service_ids payload of Some (i # is) \<Rightarrow> i # is | _ \<Rightarrow> [pb_service_id payload])
      in and_then (if co_allow_past opts then Inr () else ensure_not_past z now (Kyiv start_at)) (\<lambda>_.
         and_then (resolve_booking_master db (pb_master_id payload)) (\<lambda>(requested_master, booking_master).
         and_then (get_active_services db selected) (\<lambda>source_services.
         and_then (ensure_master_provides_services db requested_master selected) (\<lambda>_.
         and_then (resolve_booking_services_for_master db requested_master booking_master selected
             (Some source_services)) (\<lambda>items.
         and_then (resolve_duration_minutes source_services (pb_duration_minutes payload)
             (co_allow_duration_override opts)) (\<lambda>minutes.
         let end_at = start_at + minutes * minute
         in and_then (if co_require_working_hours opts
                then ensure_within_working_hours z (Kyiv start_at) (Kyiv end_at)
                else ensure_within_open_business_days z (Kyiv start_at) (Kyiv end_at)) (\<lambda>_.
            and_then (if co_require_availability opts
                then ensure_booking_within_availability z db now (ms_id booking_master)
                       (Kyiv start_at) (Kyiv end_at) else Inr ()) (\<lambda>_.
            and_then (ensure_slot_available db now (ms_id booking_master) (to_utc z start_at)
                (to_utc z end_at) None None) (\<lambda>_.
            Inr (requested_master, booking_master, items, start_at, end_at)))))))))))"

text \<open>
  \<open>campaign\<close> and \<open>attribute_booking\<close> stand for the recipient-offer and repeat-booking services;
  the funnel telemetry runs in a savepoint of its own and never affects the result.
\<close>

definition create_public_booking ::
  "zone \<Rightarrow> (salon \<Rightarrow> customer \<Rightarrow> service list \<Rightarrow> booking \<Rightarrow> booking result)
    \<Rightarrow> (string \<Rightarrow> booking \<Rightarrow> salon \<Rightarrow> salon result)
    \<Rightarrow> salon \<Rightarrow> instant \<Rightarrow> create_options \<Rightarrow> booking_payload \<Rightarrow> (salon \<times> booking) result" where
  "create_public_booking z campaign attribute_booking db now opts payload =
     and_then (plan_booking z db now opts payload)
       (\<lambda>(requested_master, booking_master, items, start_at, end_at).
     and_then (get_or_create_booking_customer db payload) (\<lambda>(db, c, customer_phone).
     and_then (replace_booking_services
         (new_booking requested_master booking_master items c customer_phone payload
            (to_utc z start_at) (to_utc z end_at) (co_source opts) (next_id (bookings db))) items) (\<lambda>b.
     and_then (apply_to_booking z (campaign db c items) db
         (default_options\<lparr>allow_private_promotions := co_allow_private_promotions opts,
            offer_token := pb_offer_token payload\<rparr>)
         b None (co_promotion_code opts) (Some c) items (Kyiv start_at)) (\<lambda>b.
     if pb_expected_total_amount payload \<noteq> None \<and> pb_expected_total_amount payload \<noteq> bk_total_amount b
     then conflict ''price_changed''
     else and_then (booking_flush b db) (\<lambda>db.
       let db = (if co_source opts = Web
                 then record_booking_sms_consent db now (cu_id c) (bk_id b) (pb_sms_consent payload) else db)
       in and_then (if truthy_text (co_repeat_booking_token opts)
                    then attribute_booking (the (co_repeat_booking_token opts)) b db else Inr db)
            (\<lambda>db. Inr (db, b)))))))"

section \<open>Availability windows and time blocks\<close>

definition create_availability_window ::
  "zone \<Rightarrow> salon \<Rightarrow> instant \<Rightarrow> int \<Rightarrow> datetime \<Rightarrow> datetime \<Rightarrow> (salon \<times> window) result" where
  "create_availability_window z db now master_id start_at end_at =
     and_then (ensure_valid_availability_window z now start_at end_at) (\<lambda>(s, e).
     and_then (ensure_no_overlapping_availability db master_id (to_utc z s) (to_utc z e)) (\<lambda>_.
     let w = \<lparr>wn_id = next_id (windows db), wn_master_id = master_id, wn_start_at = to_utc z s,
              wn_end_at = to_utc z e\<rparr>
     in Inr (db\<lparr>windows := put (wn_id w) w (windows db)\<rparr>, w)))"

text \<open>The loop flushes each window before the next query, so its state is the database.\<close>

fun availability_days_loop ::
  "zone \<Rightarrow> instant \<Rightarrow> int \<Rightarrow> date list \<Rightarrow> interval list \<Rightarrow> salon \<Rightarrow> window list \<Rightarrow> (salon \<times> window list) result" where
  "availability_days_loop z now master_id [] intervals db ws = Inr (db, ws)"
| "availability_days_loop z now master_id (d # dates) intervals db ws =
     and_then (ensure_valid_availability_window z now (Kyiv (fst (day_bounds d))) (Kyiv (snd (day_bounds d))))
       (\<lambda>(s, e).
     if list_ex (\<lambda>(s', e'). intervals_overlap s' e' s e) intervals
     then conflict ''Availability window overlaps an existing window''
     else and_then (ensure_no_overlapping_availability db master_id (to_utc z s) (to_utc z e)) (\<lambda>_.
       let w = \<lparr>wn_id = next_id (windows db), wn_master_id = master_id, wn_start_at = to_utc z s,
                wn_end_at = to_utc z e\<rparr>
       in availability_days_loop z now master_id dates (intervals @ [(s, e)])
            (db\<lparr>windows := put (wn_id w) w (windows db)\<rparr>) (ws @ [w])))"

definition create_availability_days ::
  "zone \<Rightarrow> salon \<Rightarrow> instant \<Rightarrow> int \<Rightarrow> date list \<Rightarrow> (salon \<times> window list) result" where
  "create_availability_days z db now master_id dates = availability_days_loop z now master_id dates [] db []"

definition delete_availability_window :: "salon \<Rightarrow> instant \<Rightarrow> window \<Rightarrow> bool \<Rightarrow> salon result" where
  "delete_availability_window db now w allow_booked =
     (if \<not> allow_booked
         \<and> list_busy_bookings db now (wn_master_id w) (wn_start_at w) (wn_end_at w) None None \<noteq> []
      then conflict ''Availability window has active bookings''
      else Inr (db\<lparr>windows := drop_row (wn_id w) (windows db)\<rparr>))"

definition create_time_block ::
  "zone \<Rightarrow> salon \<Rightarrow> int \<Rightarrow> datetime \<Rightarrow> datetime \<Rightarrow> string option \<Rightarrow> (salon \<times> time_block) result" where
  "create_time_block z db master_id start_at end_at reason =
     and_then (ensure_valid_interval z start_at end_at) (\<lambda>(s, e).
     let t = \<lparr>tb_id = next_id (blocks db), tb_master_id = master_id, tb_start_at = to_utc z s,
              tb_end_at = to_utc z e, tb_reason = reason\<rparr>
     in Inr (db\<lparr>blocks := put (tb_id t) t (blocks db)\<rparr>, t))"

chapter \<open>Facts\<close>

section \<open>Clocks\<close>

text \<open>
  Inside the working hours the Kyiv clock is a faithful image of the instants: it orders every
  instant against a working-hour reading as \<open>to_utc\<close> does. The zone's transitions happen at night,
  so this is a documented property of \<open>Europe/Kyiv\<close>.
\<close>

definition in_hours :: "date \<Rightarrow> wall \<Rightarrow> bool" where
  "in_hours d w \<longleftrightarrow> fst (day_bounds d) \<le> w \<and> w \<le> snd (day_bounds d)"

definition zone_ok :: "zone \<Rightarrow> bool" where
  "zone_ok z \<longleftrightarrow> (\<forall>d w i. in_hours d w \<longrightarrow>
     (to_kyiv z i < w \<longleftrightarrow> i < to_utc z w) \<and> (w < to_kyiv z i \<longleftrightarrow> to_utc z w < i))"

lemma zone_less:
  assumes "zone_ok z" and "in_hours d w"
  shows "to_kyiv z i < w \<longleftrightarrow> i < to_utc z w" and "w < to_kyiv z i \<longleftrightarrow> to_utc z w < i"
  using assms by (simp_all add: zone_ok_def)

lemma overlaps_of_wall:
  assumes "zone_ok z" and "in_hours d a" and "in_hours d' b"
    and "a \<le> p" and "p < b" and "to_kyiv z s \<le> p" and "p < to_kyiv z e"
  shows "overlaps s e (to_utc z a) (to_utc z b)"
  using assms(4-7) by (auto simp: overlaps_def simp flip: zone_less [OF assms(1,3)] zone_less [OF assms(1,2)])

text \<open>
  A stored row of positive length meets the instants of \<open>a\<close> to \<open>b\<close> iff some reading of the Kyiv
  clock between \<open>a\<close> and \<open>b\<close> lies inside its wall-clock interval.
\<close>

lemma overlaps_iff_wall:
  assumes "zone_ok z" and "in_hours d a" and "in_hours d b" and "a < b" and "s < e"
  shows "overlaps s e (to_utc z a) (to_utc z b) \<longleftrightarrow>
    (\<exists>p. a \<le> p \<and> p < b \<and> to_kyiv z s \<le> p \<and> p < to_kyiv z e)"
proof
  assume "overlaps s e (to_utc z a) (to_utc z b)"
  then have sb: "to_kyiv z s < b" and ea: "a < to_kyiv z e"
    by (simp_all add: overlaps_def zone_less [OF assms(1,3)] zone_less [OF assms(1,2)])
  have "to_kyiv z s < to_kyiv z e"
  proof (rule ccontr)
    assume "\<not> to_kyiv z s < to_kyiv z e"
    then have k: "in_hours d (to_kyiv z e)" and le: "to_kyiv z e \<le> to_kyiv z s"
      using sb ea assms(2,3) by (auto simp: in_hours_def)
    have "e \<le> to_utc z (to_kyiv z e)" using zone_less(2) [OF assms(1) k, of e] by simp
    moreover have "to_utc z (to_kyiv z e) \<le> s" using zone_less(1) [OF assms(1) k, of s] le by simp
    ultimately show False using assms(5) by simp
  qed
  with sb ea assms(4) show "\<exists>p. a \<le> p \<and> p < b \<and> to_kyiv z s \<le> p \<and> p < to_kyiv z e"
    by (intro exI [of _ "max a (to_kyiv z s)"]) auto
next
  assume "\<exists>p. a \<le> p \<and> p < b \<and> to_kyiv z s \<le> p \<and> p < to_kyiv z e"
  then show "overlaps s e (to_utc z a) (to_utc z b)"
    using overlaps_of_wall [OF assms(1-3)] by blast
qed

section \<open>Free time of a master\<close>

definition in_row :: "zone \<Rightarrow> wall \<Rightarrow> instant \<Rightarrow> instant \<Rightarrow> bool" where
  "in_row z p s e \<longleftrightarrow> to_kyiv z s \<le> p \<and> p < to_kyiv z e"

definition hold_active :: "instant \<Rightarrow> waitlist_offer \<Rightarrow> bool" where
  "hold_active now w \<longleftrightarrow> (wo_status w = OSent \<or> wo_status w = ODelivered) \<and> wo_expires_at w > now"

definition open_at :: "zone \<Rightarrow> salon \<Rightarrow> int \<Rightarrow> wall \<Rightarrow> bool" where
  "open_at z db m p \<longleftrightarrow> (\<exists>w \<in> set (rows (windows db)).
     wn_master_id w = m \<and> in_row z p (wn_start_at w) (wn_end_at w))"

definition busy_at :: "zone \<Rightarrow> salon \<Rightarrow> instant \<Rightarrow> int \<Rightarrow> wall \<Rightarrow> bool" where
  "busy_at z db now m p \<longleftrightarrow>
     (\<exists>b \<in> set (rows (bookings db)). bk_master_id b = m \<and> bk_status b = Confirmed
        \<and> in_row z p (bk_start_at b) (bk_end_at b))
     \<or> (\<exists>w \<in> set (rows (offers db)). wo_master_id w = m \<and> hold_active now w
        \<and> in_row z p (wo_start_at w) (wo_end_at w))
     \<or> (\<exists>t \<in> set (rows (blocks db)). tb_master_id t = m \<and> in_row z p (tb_start_at t) (tb_end_at t))"

definition free_at :: "zone \<Rightarrow> salon \<Rightarrow> instant \<Rightarrow> int \<Rightarrow> date \<Rightarrow> wall \<Rightarrow> bool" where
  "free_at z db now m d p \<longleftrightarrow> \<not> is_closed_business_day d \<and> fst (day_bounds d) \<le> p
     \<and> p < snd (day_bounds d) \<and> open_at z db m p \<and> \<not> busy_at z db now m p"

lemma day_bounds_order: "fst (day_bounds d) < snd (day_bounds d)"
  by (simp add: day_bounds_def time_consts)

lemma in_hours_bounds [simp]: "in_hours d (fst (day_bounds d))" "in_hours d (snd (day_bounds d))"
  using day_bounds_order [of d] by (simp_all add: in_hours_def)

lemma day_bounds_mono: "d \<le> d' \<Longrightarrow> fst (day_bounds d) \<le> fst (day_bounds d') \<and> snd (day_bounds d) \<le> snd (day_bounds d')"
  by (simp add: day_bounds_def time_consts)

text \<open>The rows that a query over the range of days returns are all those that matter.\<close>

lemma range_query:
  assumes "zone_ok z" and "d0 \<le> d" and "d \<le> d1" and "fst (day_bounds d) \<le> p" and "p < snd (day_bounds d)"
    and "in_row z p s e"
  shows "overlaps s e (to_utc z (fst (day_bounds d0))) (to_utc z (snd (day_bounds d1)))"
  using assms day_bounds_mono [of d0 d] day_bounds_mono [of d d1]
  by (intro overlaps_of_wall [OF assms(1) in_hours_bounds(1) in_hours_bounds(2), of _ p]) (auto simp: in_row_def)

definition busy_pairs :: "busy list \<Rightarrow> time_block list \<Rightarrow> (datetime \<times> datetime) list" where
  "busy_pairs bs ts = map (\<lambda>(_, s, e). (s, e)) (map busy_row bs @ map block_row ts)"

lemma free_points_range:
  assumes "zone_ok z" and "d0 \<le> d" and "d \<le> d1"
  defines "a \<equiv> to_utc z (fst (day_bounds d0))" and "b \<equiv> to_utc z (snd (day_bounds d1))"
  shows "p \<in> free_points z d (window_pairs (list_availability_windows db m a b))
      (busy_pairs (list_busy_bookings db now m a b None None) (list_time_blocks db m a b))
    \<longleftrightarrow> free_at z db now m d p"
proof -
  have range: "overlaps s e a b" if "fst (day_bounds d) \<le> p" "p < snd (day_bounds d)" "in_row z p s e" for s e
    unfolding a_def b_def by (rule range_query [OF assms(1-3) that])
  have win: "(\<exists>(s, e) \<in> set (window_pairs (list_availability_windows db m a b)).
      normalize_datetime z s \<le> p \<and> p < normalize_datetime z e) \<longleftrightarrow> open_at z db m p"
    if "fst (day_bounds d) \<le> p" "p < snd (day_bounds d)"
    using range [OF that] by (auto simp: window_pairs_def list_availability_windows_def select_where_def
        open_at_def in_row_def)
  have busy: "(\<exists>(s, e) \<in> set (busy_pairs (list_busy_bookings db now m a b None None) (list_time_blocks db m a b)).
      normalize_datetime z s \<le> p \<and> p < normalize_datetime z e) \<longleftrightarrow> busy_at z db now m p"
    if "fst (day_bounds d) \<le> p" "p < snd (day_bounds d)"
    using range [OF that]
    by (auto simp: busy_pairs_def list_busy_bookings_def list_active_waitlist_holds_def list_time_blocks_def
        select_where_def busy_at_def in_row_def busy_row_def block_row_def hold_active_def image_Un bex_Un)
  show ?thesis
    using win busy by (auto simp: free_points_def free_at_def)
qed

section \<open>The listing of a day\<close>

lemma range_calendar_days:
  fixes z db now m d0 d1
  defines "a \<equiv> to_utc z (fst (day_bounds d0))" and "b \<equiv> to_utc z (snd (day_bounds d1))"
  shows "master_day (availability_by_master_id (range_calendar z db now m d0 d1)) m d =
      as_kyiv (at_day (group_calendar_intervals_by_date z
        (window_pairs (list_availability_windows db m a b)) d0 d1) d)"
    and "master_day (busy_by_master_id (range_calendar z db now m d0 d1)) m d =
      as_kyiv (at_day (group_calendar_intervals_by_date z
        (busy_pairs (list_busy_bookings db now m a b None None) (list_time_blocks db m a b)) d0 d1) d)"
proof -
  have w: "map (\<lambda>(_, s, e). (s, e)) (filter (\<lambda>(i, _). i = m) (map window_row (list_availability_windows db m a b)))
      = window_pairs (list_availability_windows db m a b)"
    by (simp add: window_pairs_def filter_map o_def window_row_def list_availability_windows_def
        select_where_def filter_id_conv)
  show "master_day (availability_by_master_id (range_calendar z db now m d0 d1)) m d =
      as_kyiv (at_day (group_calendar_intervals_by_date z
        (window_pairs (list_availability_windows db m a b)) d0 d1) d)"
    using w by (simp add: master_day_def range_calendar_def calendar_range_data_def Let_def flip: a_def b_def)
  have b1: "filter (\<lambda>(i, _). i = m) (map busy_row (list_busy_bookings db now m a b None None))
      = map busy_row (list_busy_bookings db now m a b None None)"
    by (auto simp: filter_id_conv list_busy_bookings_def list_active_waitlist_holds_def select_where_def
        busy_row_def)
  have b2: "filter (\<lambda>(i, _). i = m) (map block_row (list_time_blocks db m a b))
      = map block_row (list_time_blocks db m a b)"
    by (auto simp: filter_id_conv list_time_blocks_def select_where_def block_row_def)
  show "master_day (busy_by_master_id (range_calendar z db now m d0 d1)) m d =
      as_kyiv (at_day (group_calendar_intervals_by_date z
        (busy_pairs (list_busy_bookings db now m a b None None) (list_time_blocks db m a b)) d0 d1) d)"
    by (simp add: master_day_def range_calendar_def calendar_range_data_def Let_def busy_pairs_def b1 b2
        flip: a_def b_def)
qed

definition aligned :: "zone \<Rightarrow> salon \<Rightarrow> instant \<Rightarrow> int \<Rightarrow> date \<Rightarrow> wall \<Rightarrow> bool" where
  "aligned z db now m d t \<longleftrightarrow> (t - fst (day_bounds d)) mod SLOT_STEP = 0 \<or> \<not> free_at z db now m d (t - 1)"

lemma range_starts_iff:
  assumes "zone_ok z" and "d0 \<le> d" and "d \<le> d1" and "0 < duration"
  shows "t \<in> set (calendar_slot_starts z now d duration
      (master_day (availability_by_master_id (range_calendar z db now m d0 d1)) m d)
      (master_day (busy_by_master_id (range_calendar z db now m d0 d1)) m d) False)
    \<longleftrightarrow> to_kyiv z now < t \<and> (\<forall>p. t \<le> p \<and> p < t + duration \<longrightarrow> free_at z db now m d p)
      \<and> aligned z db now m d t"
proof -
  have "{t..<t + duration} \<subseteq> X \<longleftrightarrow> (\<forall>p. t \<le> p \<and> p < t + duration \<longrightarrow> p \<in> X)" for X
    by auto
  then show ?thesis
    unfolding range_calendar_days grouping_lossless [OF assms(4,2,3)] calendar_slot_starts_iff [OF assms(4)]
    by (simp only: free_points_range [OF assms(1-3)] aligned_def)
qed

section \<open>The guards as statements about free time\<close>

definition rows_positive :: "salon \<Rightarrow> bool" where
  "rows_positive db \<longleftrightarrow> (\<forall>b \<in> set (rows (bookings db)). bk_start_at b < bk_end_at b)
     \<and> (\<forall>w \<in> set (rows (offers db)). wo_start_at w < wo_end_at w)
     \<and> (\<forall>w \<in> set (rows (windows db)). wn_start_at w < wn_end_at w)
     \<and> (\<forall>t \<in> set (rows (blocks db)). tb_start_at t < tb_end_at t)"

lemma ensure_slot_available_iff:
  "ensure_slot_available db now m s e xb xw = Inr u \<longleftrightarrow>
     (\<forall>b \<in> set (rows (bookings db)). bk_master_id b = m \<and> bk_status b = Confirmed \<and> xb \<noteq> Some (bk_id b)
        \<longrightarrow> \<not> overlaps (bk_start_at b) (bk_end_at b) s e)
     \<and> (\<forall>w \<in> set (rows (offers db)). wo_master_id w = m \<and> hold_active now w \<and> xw \<noteq> Some (wo_id w)
        \<longrightarrow> \<not> overlaps (wo_start_at w) (wo_end_at w) s e)
     \<and> (\<forall>t \<in> set (rows (blocks db)). tb_master_id t = m \<longrightarrow> \<not> overlaps (tb_start_at t) (tb_end_at t) s e)"
  by (auto simp: ensure_slot_available_def list_busy_bookings_def list_active_waitlist_holds_def
      list_time_blocks_def select_where_def hold_active_def filter_empty_conv)

lemma slot_available_free:
  assumes "zone_ok z" and "in_hours d t" and "in_hours d u" and "t < u" and "rows_positive db"
  shows "ensure_slot_available db now m (to_utc z t) (to_utc z u) None None = Inr () \<longleftrightarrow>
    (\<forall>p. t \<le> p \<and> p < u \<longrightarrow> \<not> busy_at z db now m p)"
proof -
  have b: "overlaps (bk_start_at b) (bk_end_at b) (to_utc z t) (to_utc z u) \<longleftrightarrow>
      (\<exists>p. t \<le> p \<and> p < u \<and> in_row z p (bk_start_at b) (bk_end_at b))" if "b \<in> set (rows (bookings db))" for b
    using overlaps_iff_wall [OF assms(1-4)] that assms(5) by (simp add: rows_positive_def in_row_def)
  have w: "overlaps (wo_start_at w) (wo_end_at w) (to_utc z t) (to_utc z u) \<longleftrightarrow>
      (\<exists>p. t \<le> p \<and> p < u \<and> in_row z p (wo_start_at w) (wo_end_at w))" if "w \<in> set (rows (offers db))" for w
    using overlaps_iff_wall [OF assms(1-4)] that assms(5) by (simp add: rows_positive_def in_row_def)
  have k: "overlaps (tb_start_at k) (tb_end_at k) (to_utc z t) (to_utc z u) \<longleftrightarrow>
      (\<exists>p. t \<le> p \<and> p < u \<and> in_row z p (tb_start_at k) (tb_end_at k))" if "k \<in> set (rows (blocks db))" for k
    using overlaps_iff_wall [OF assms(1-4)] that assms(5) by (simp add: rows_positive_def in_row_def)
  show ?thesis
    unfolding ensure_slot_available_iff busy_at_def using b w k by (simp, blast)
qed

lemma ensure_valid_Kyiv: "ensure_valid_interval z (Kyiv s) (Kyiv e) = (if s \<ge> e
    then bad_request ''start_at must be before end_at'' else Inr (s, e))"
  by (simp add: ensure_valid_interval_def Let_def)

lemma within_hours_iff:
  "ensure_within_working_hours z (Kyiv s) (Kyiv e) = Inr () \<longleftrightarrow>
     s < e \<and> \<not> is_closed_business_day (date_of s) \<and> in_hours (date_of s) s \<and> in_hours (date_of s) e"
proof -
  have "date_of e = date_of s" if "in_hours (date_of s) e"
    using that by (auto simp: in_hours_def day_bounds_def date_of_def time_consts)
  then show ?thesis
    by (auto simp: ensure_within_working_hours_def ensure_valid_Kyiv and_then_eq_Inr
        ensure_business_day_open_def in_hours_def Let_def not_le not_less dest: less_imp_le split: prod.splits)
qed

lemma in_hours_date: "in_hours d w \<Longrightarrow> date_of w = d"
  by (auto simp: in_hours_def day_bounds_def date_of_def time_consts)

lemma within_availability_iff:
  assumes "zone_ok z" and "in_hours d s" and "in_hours d e" and "s < e" and "rows_positive db"
    and "\<not> is_closed_business_day d" and "today z now \<le> d" and "d \<le> availability_horizon_end_date z now"
  shows "ensure_booking_within_availability z db now m (Kyiv s) (Kyiv e) = Inr () \<longleftrightarrow>
    (\<forall>p. s \<le> p \<and> p < e \<longrightarrow> open_at z db m p)"
proof -
  have dates: "date_of s = d" "date_of e = d" using assms(2,3) by (simp_all add: in_hours_date)
  let ?ws = "list_availability_windows db m (to_utc z s) (to_utc z e)"
  let ?av = "availability_intervals_from_pairs z d (window_pairs ?ws)"
  have sep: "separated ?av"
    by (simp add: availability_intervals_from_pairs_def merge_intervals_separated split: prod.splits)
  have pts: "p \<in> points ?av \<longleftrightarrow> open_at z db m p" if "s \<le> p" "p < e" for p
  proof -
    have "overlaps (wn_start_at w) (wn_end_at w) (to_utc z s) (to_utc z e)"
      if "in_row z p (wn_start_at w) (wn_end_at w)" for w
      using overlaps_of_wall [OF assms(1-3) \<open>s \<le> p\<close> \<open>p < e\<close>] that by (auto simp: in_row_def)
    moreover have "fst (day_bounds d) \<le> p" "p < snd (day_bounds d)"
      using that assms(2,3) by (auto simp: in_hours_def)
    ultimately show ?thesis
      using assms(6) by (auto simp: availability_points window_pairs_def list_availability_windows_def
          select_where_def open_at_def in_row_def)
  qed
  have "list_ex (\<lambda>(l, r). l \<le> s \<and> r \<ge> e) ?av \<longleftrightarrow> {s..<e} \<subseteq> points ?av"
    using separated_covers [OF sep _ assms(4)] by (auto simp: list_ex_iff points_iff) fastforce
  also have "\<dots> \<longleftrightarrow> (\<forall>p. s \<le> p \<and> p < e \<longrightarrow> open_at z db m p)"
    using pts by (auto simp: subset_iff)
  finally have cov: "list_ex (\<lambda>(l, r). l \<le> s \<and> r \<ge> e) ?av \<longleftrightarrow> (\<forall>p. s \<le> p \<and> p < e \<longrightarrow> open_at z db m p)" .
  have hours: "ensure_within_working_hours z (Kyiv s) (Kyiv e) = Inr ()"
    using assms(2,3,4,6) dates by (simp add: within_hours_iff)
  show ?thesis
    using assms(4,7,8) cov
    by (simp add: ensure_booking_within_availability_def ensure_valid_Kyiv hours ensure_availability_horizon_def
        dates Let_def)
qed

section \<open>Listed slots and accepted bookings\<close>

definition slot_accepted :: "zone \<Rightarrow> salon \<Rightarrow> instant \<Rightarrow> int \<Rightarrow> wall \<Rightarrow> wall \<Rightarrow> bool" where
  "slot_accepted z db now m s e \<longleftrightarrow> ensure_not_past z now (Kyiv s) = Inr ()
     \<and> ensure_within_working_hours z (Kyiv s) (Kyiv e) = Inr ()
     \<and> ensure_booking_within_availability z db now m (Kyiv s) (Kyiv e) = Inr ()
     \<and> ensure_slot_available db now m (to_utc z s) (to_utc z e) None None = Inr ()"

lemma not_closed [simp]: "\<not> is_closed_business_day d"
  by (simp add: is_closed_business_day_def CLOSED_WEEKDAYS_def)

lemma slot_accepted_iff:
  assumes "zone_ok z" and "rows_positive db" and "s < e"
    and "today z now \<le> date_of s" and "date_of s \<le> availability_horizon_end_date z now"
  shows "slot_accepted z db now m s e \<longleftrightarrow> to_kyiv z now < s
    \<and> (\<forall>p. s \<le> p \<and> p < e \<longrightarrow> free_at z db now m (date_of s) p)"
proof (cases "in_hours (date_of s) s \<and> in_hours (date_of s) e")
  case True
  then have h: "in_hours (date_of s) s" "in_hours (date_of s) e" by auto
  have "ensure_not_past z now (Kyiv s) = Inr () \<longleftrightarrow> to_kyiv z now < s"
    by (auto simp: ensure_not_past_def)
  moreover have "fst (day_bounds (date_of s)) \<le> p \<and> p < snd (day_bounds (date_of s))" if "s \<le> p" "p < e" for p
    using h that by (auto simp: in_hours_def)
  ultimately show ?thesis
    unfolding slot_accepted_def within_availability_iff [OF assms(1) h assms(3,2) not_closed assms(4,5)]
      slot_available_free [OF assms(1) h assms(3,2)] within_hours_iff free_at_def
    using assms(3) h by auto
next
  case False
  have "\<not> slot_accepted z db now m s e" using False by (auto simp: slot_accepted_def within_hours_iff)
  moreover have "\<not> (\<forall>p. s \<le> p \<and> p < e \<longrightarrow> free_at z db now m (date_of s) p)"
  proof
    assume free: "\<forall>p. s \<le> p \<and> p < e \<longrightarrow> free_at z db now m (date_of s) p"
    from free [rule_format, of s] free [rule_format, of "e - 1"] assms(3) False show False
      by (auto simp: free_at_def in_hours_def)
  qed
  ultimately show ?thesis by blast
qed

lemma upto_ends: "d0 \<le> d1 \<Longrightarrow> hd [d0..d1] = d0 \<and> last [d0..d1] = (d1 :: int)"
  by (metis last_snoc list.sel(1) upto_rec1 upto_rec2)

lemma slots_for_range_resolved:
  assumes "get_available_slots_for_range z db now master_id d0 d1 sid sids dm ex = Inr r"
  obtains q where "resolve_slot_request db master_id sid sids dm = Inr q"
    and "r = slots_response z db now d0 d1 ex q"
  using assms by (auto simp: get_available_slots_for_range_def and_then_eq_Inr split: if_splits)

lemma slots_for_range_Inr:
  assumes "get_available_slots_for_range z db now master_id d0 d1 sid sids dm ex = Inr r"
  defines "duration \<equiv> asr_duration_minutes r * minute" and "m \<equiv> asr_booking_master_id r"
  shows "d0 \<le> d1 \<and> today z now \<le> d0 \<and> d1 \<le> availability_horizon_end_date z now"
    and "asr_slots_by_date r = map (\<lambda>d. (d, if ex then [] else map (\<lambda>s. (s, s + duration))
      (calendar_slot_starts z now d duration
        (master_day (availability_by_master_id (range_calendar z db now m d0 d1)) m d)
        (master_day (busy_by_master_id (range_calendar z db now m d0 d1)) m d) False))) [d0..d1]"
    and "asr_has_slots_by_date r = (if ex then Some (map (\<lambda>d. (d,
      calendar_slot_exists z now (range_calendar z db now m d0 d1) m d duration)) [d0..d1]) else None)"
proof -
  show range: "d0 \<le> d1 \<and> today z now \<le> d0 \<and> d1 \<le> availability_horizon_end_date z now"
    using assms(1) by (simp add: get_available_slots_for_range_def split: if_splits)
  obtain b items n where r: "r = slots_response z db now d0 d1 ex (b, items, n)"
    using slots_for_range_resolved [OF assms(1)] by (metis prod_cases3)
  have open_dates: "filter (\<lambda>d. \<not> is_closed_business_day d) [d0..d1] = [d0..d1]" by simp
  note ends = upto_ends [OF range [THEN conjunct1]]
  show "asr_slots_by_date r = map (\<lambda>d. (d, if ex then [] else map (\<lambda>s. (s, s + duration))
      (calendar_slot_starts z now d duration
        (master_day (availability_by_master_id (range_calendar z db now m d0 d1)) m d)
        (master_day (busy_by_master_id (range_calendar z db now m d0 d1)) m d) False))) [d0..d1]"
    "asr_has_slots_by_date r = (if ex then Some (map (\<lambda>d. (d,
      calendar_slot_exists z now (range_calendar z db now m d0 d1) m d duration)) [d0..d1]) else None)"
    unfolding duration_def m_def r
    by (simp_all add: slots_response_def Let_def open_dates ends)
qed

lemma listed_iff_accepted:
  assumes "zone_ok z" and "rows_positive db"
    and "get_available_slots_for_range z db now master_id d0 d1 sid sids dm False = Inr r"
    and "0 < asr_duration_minutes r" and "map_of (asr_slots_by_date r) d = Some slots"
  shows "(t, u) \<in> set slots \<longleftrightarrow> u = t + asr_duration_minutes r * minute \<and> date_of t = d
    \<and> aligned z db now (asr_booking_master_id r) d t
    \<and> slot_accepted z db now (asr_booking_master_id r) t u"
proof -
  let ?dur = "asr_duration_minutes r * minute" and ?m = "asr_booking_master_id r"
  have dur: "0 < ?dur" using assms(4) by (simp add: minute_def)
  note info = slots_for_range_Inr [OF assms(3)]
  have lookup: "map_of (map (\<lambda>d. (d, f d)) ds) d = (if d \<in> set ds then Some (f d) else None)"
    for f :: "int \<Rightarrow> interval list" and ds
    by (induction ds) auto
  have d: "d0 \<le> d" "d \<le> d1" and slots: "slots = map (\<lambda>s. (s, s + ?dur))
      (calendar_slot_starts z now d ?dur
        (master_day (availability_by_master_id (range_calendar z db now ?m d0 d1)) ?m d)
        (master_day (busy_by_master_id (range_calendar z db now ?m d0 d1)) ?m d) False)"
    using assms(5) unfolding info(2) lookup by (auto split: if_splits)
  have listed: "(t, u) \<in> set slots \<longleftrightarrow> u = t + ?dur \<and> to_kyiv z now < t
      \<and> (\<forall>p. t \<le> p \<and> p < t + ?dur \<longrightarrow> free_at z db now ?m d p) \<and> aligned z db now ?m d t"
    using range_starts_iff [OF assms(1) d dur, where t = t and db = db and now = now and m = ?m] by (auto simp: slots image_iff)
  have dt: "date_of t = d" if "free_at z db now ?m d t"
    using that by (auto simp: free_at_def intro!: in_hours_date simp: in_hours_def)
  have acc: "slot_accepted z db now ?m t (t + ?dur) \<longleftrightarrow> to_kyiv z now < t
      \<and> (\<forall>p. t \<le> p \<and> p < t + ?dur \<longrightarrow> free_at z db now ?m d p)" if "date_of t = d"
    using slot_accepted_iff [OF assms(1,2), of t "t + ?dur" now ?m] that d info(1) dur by simp
  show ?thesis
    using listed acc dt dur by (metis order_refl less_add_same_cancel1)
qed

lemma resolved_same:
  "asr_duration_minutes (slots_response z db now d0 d1 ex q) = snd (snd q)
   \<and> asr_booking_master_id (slots_response z db now d0 d1 ex q) = ms_id (fst q)"
  by (simp add: slots_response_def Let_def split: prod.splits)

lemma has_slots_iff:
  assumes "get_available_slots_for_range z db now master_id d0 d1 sid sids dm False = Inr r"
    and "get_available_slots_range z db now master_id d0 d1 sid sids dm = Inr has"
  shows "map fst has = map fst (asr_slots_by_date r)
    \<and> (\<forall>d. map_of has d = map_option (\<lambda>slots. slots \<noteq> []) (map_of (asr_slots_by_date r) d))"
proof -
  obtain r' where r': "get_available_slots_for_range z db now master_id d0 d1 sid sids dm True = Inr r'"
    and has: "asr_has_slots_by_date r' = Some has"
    using assms(2) by (auto simp: get_available_slots_range_def and_then_eq_Inr split: option.splits)
  have same: "asr_duration_minutes r' = asr_duration_minutes r" "asr_booking_master_id r' = asr_booking_master_id r"
    using slots_for_range_resolved [OF assms(1)] slots_for_range_resolved [OF r']
    by (metis sum.inject(2) resolved_same)+
  note info = slots_for_range_Inr [OF assms(1)] and info' = slots_for_range_Inr [OF r']
  have lookup: "map_of (map (\<lambda>d. (d, f d)) ds) d = (if d \<in> set ds then Some (f d) else None)"
    for f :: "int \<Rightarrow> 'b" and ds d
    by (induction ds) auto
  show ?thesis
    using info(2) info'(3) has
    by (auto simp: same lookup o_def calendar_slot_exists_def calendar_slot_starts_first)
qed

section \<open>The customer's identity\<close>

text \<open>No two customers share a phone identity.\<close>

definition identities_unique :: "salon \<Rightarrow> bool" where
  "identities_unique db \<longleftrightarrow> (\<forall>c \<in> set (rows (customers db)). \<forall>d \<in> set (rows (customers db)).
     identity_key c = identity_key d \<longrightarrow> c = d)"

lemma find_booking_customer_row:
  assumes "find_booking_customer db phone email = Some c"
  shows "c \<in> set (rows (customers db))"
proof -
  let ?xs = "sort_key (\<lambda>c. (cu_phone c \<noteq> the phone, cu_id c))
      (select_where (\<lambda>c. cu_phone c \<in> set (phone_aliases (the phone))) (customers db))"
  have mem: "x \<in> set ?xs \<Longrightarrow> x \<in> set (rows (customers db))" for x
    by (simp add: select_where_def)
  show ?thesis
  proof (cases "truthy_text phone \<and> ?xs \<noteq> []")
    case True
    then obtain x ys where xs: "?xs = x # ys" using neq_Nil_conv [of ?xs] by blast
    with True assms have "c = x" by (simp add: find_booking_customer_def Let_def)
    with mem [of x] xs show ?thesis by simp
  next
    case False
    with assms have "find (\<lambda>c. cu_email c = Some (casefold (the email))) (rows (customers db)) = Some c"
      by (auto simp: find_booking_customer_def Let_def split: if_splits list.splits)
    then show ?thesis by (auto dest: find_Some_mem)
  qed
qed

lemma find_booking_customer_None:
  assumes "find_booking_customer db (Some p) email = None" and "p \<noteq> []"
    and "c \<in> set (rows (customers db))"
  shows "identity_key c \<noteq> canonical_booking_phone p"
proof -
  have "sort_key (\<lambda>c. (cu_phone c \<noteq> p, cu_id c))
      (select_where (\<lambda>c. cu_phone c \<in> set (phone_aliases p)) (customers db)) = []"
    using assms(1,2) by (auto simp: find_booking_customer_def truthy_text_def Let_def split: list.splits if_splits)
  from arg_cong [OF this, of set] have "cu_phone c \<notin> set (phone_aliases p)"
    using assms(3) by (auto simp: select_where_def)
  then show ?thesis by (simp add: phone_aliases_iff identity_key_def)
qed

lemma customer_flush_Inr:
  "customer_flush c db = Inr db' \<Longrightarrow> db' = db\<lparr>customers := put (cu_id c) c (customers db)\<rparr>"
  by (simp add: customer_flush_def split: if_splits)

lemma enrich_keeps:
  assumes "enrich_email db email c = Inr c1"
  shows "cu_id (enrich_name n c1) = cu_id c \<and> cu_phone (enrich_name n c1) = cu_phone c
    \<and> visited (enrich_name n c1) = visited c"
proof -
  have "c1 = c \<or> c1 = c\<lparr>cu_email := email\<rparr>"
    using assms by (auto simp: enrich_email_def split: if_splits option.splits)
  then show ?thesis by (auto simp: enrich_name_def visited_def split: prod.splits)
qed

text \<open>
  What a successful lookup or creation did: it wrote one row, a new one for an identity that had
  none or an existing one with its phone unchanged.
\<close>

lemma get_or_create_cases:
  assumes "get_or_create_booking_customer db payload = Inr (db', c, phone)"
    and "has_id cu_id (customers db)"
  shows "db' = db\<lparr>customers := put (cu_id c) c (customers db)\<rparr>
    \<and> (\<exists>q. normalize_phone (pb_customer_phone payload) = Inr q \<and> phone = canonical_booking_phone q
      \<and> ((get (customers db) (cu_id c) = None \<and> cu_phone c = phone \<and> cu_id c = next_id (customers db)
            \<and> \<not> visited c \<and> (\<forall>d \<in> set (rows (customers db)). identity_key d \<noteq> phone))
          \<or> (\<exists>old. get (customers db) (cu_id c) = Some old \<and> cu_phone c = cu_phone old
               \<and> (visited c \<longleftrightarrow> visited old))))"
proof -
  obtain q where q: "normalize_phone (pb_customer_phone payload) = Inr q"
    using assms(1) by (auto simp: get_or_create_booking_customer_def normalize_customer_phone_def and_then_eq_Inr)
  have qne: "q \<noteq> []" using normalize_phone_shape [OF q] by (auto simp: phone_shape_def)
  define email where "email = (if truthy_text (pb_customer_email payload)
       then map_option casefold (pb_customer_email payload) else None)"
  show ?thesis
  proof (cases "find_booking_customer db (Some q) email")
    case None
    obtain name surname where ns: "split_customer_name (pb_customer_name payload) = (name, surname)"
      by (cases "split_customer_name (pb_customer_name payload)")
    have "c = new_customer db (canonical_booking_phone q) email (Some name) surname"
      "db' = db\<lparr>customers := put (cu_id c) c (customers db)\<rparr>" "phone = canonical_booking_phone q"
      using assms(1) None ns customer_flush_Inr
      by (auto simp: get_or_create_booking_customer_def normalize_customer_phone_def q Let_def and_then_eq_Inr
          simp flip: email_def)
    with find_booking_customer_None [OF None qne] q show ?thesis
      by (auto simp: new_customer_def visited_def)
  next
    case (Some o')
    have row: "get (customers db) (cu_id o') = Some o'"
      using has_id_rows [OF assms(2) find_booking_customer_row [OF Some]] .
    have lock: "lock_customer db o' = Inr o'" by (rule lock_customer_present [OF assms(2) row])
    obtain c1 where c1: "enrich_email db email o' = Inr c1"
      and step: "customer_flush (enrich_name (pb_customer_name payload) c1) db = Inr db'"
        "c = enrich_name (pb_customer_name payload) c1" "phone = canonical_booking_phone q"
      using assms(1) Some lock
      by (auto simp: get_or_create_booking_customer_def normalize_customer_phone_def q Let_def and_then_eq_Inr
          simp flip: email_def)
    have "cu_id c = cu_id o'" "cu_phone c = cu_phone o'" "visited c = visited o'"
      using enrich_keeps [OF c1] by (simp_all add: step(2))
    moreover have "db' = db\<lparr>customers := put (cu_id c) c (customers db)\<rparr>" "phone = canonical_booking_phone q"
      using customer_flush_Inr [OF step(1)] step(2,3) by simp_all
    ultimately have "cu_id c = cu_id o'" "cu_phone c = cu_phone o'" "visited c = visited o'"
      "db' = db\<lparr>customers := put (cu_id c) c (customers db)\<rparr>" "phone = canonical_booking_phone q"
      by blast+
    with row q show ?thesis by auto
  qed
qed

lemma get_or_create_identities:
  assumes "get_or_create_booking_customer db payload = Inr (db', c, phone)"
    and "customers_ok db" and "identities_unique db"
  shows "customers_ok db' \<and> identities_unique db' \<and> get (customers db') (cu_id c) = Some c"
proof -
  have ok: "has_id cu_id (customers db)" using assms(2) by (simp add: customers_ok_def)
  obtain q where db': "db' = db\<lparr>customers := put (cu_id c) c (customers db)\<rparr>"
    and q: "normalize_phone (pb_customer_phone payload) = Inr q" "phone = canonical_booking_phone q"
    and cases: "(get (customers db) (cu_id c) = None \<and> cu_phone c = phone \<and> cu_id c = next_id (customers db)
            \<and> \<not> visited c \<and> (\<forall>d \<in> set (rows (customers db)). identity_key d \<noteq> phone))
          \<or> (\<exists>old. get (customers db) (cu_id c) = Some old \<and> cu_phone c = cu_phone old
               \<and> (visited c \<longleftrightarrow> visited old))"
    using get_or_create_cases [OF assms(1) ok] by blast
  have ok': "has_id cu_id (customers db')" using ok by (simp add: db' has_id_put)
  have row: "d = c \<or> (d \<in> set (rows (customers db)) \<and> cu_id d \<noteq> cu_id c)" if "d \<in> set (rows (customers db'))" for d
    using that rows_put_iff [OF ok refl] by (simp add: db')
  have phone: "phone \<noteq> []"
    using canonical_shape [OF normalize_phone_shape [OF q(1)]] by (auto simp: q(2) phone_shape_def)
  have cphone: "cu_phone c \<noteq> []"
    using cases phone assms(2) by (auto simp: customers_ok_def dest: get_in_rows)
  have other: "identity_key d \<noteq> identity_key c" if "d \<in> set (rows (customers db))" "cu_id d \<noteq> cu_id c" for d
    using cases
  proof
    assume "get (customers db) (cu_id c) = None \<and> cu_phone c = phone \<and> cu_id c = next_id (customers db)
            \<and> \<not> visited c \<and> (\<forall>d \<in> set (rows (customers db)). identity_key d \<noteq> phone)"
    then show ?thesis using that(1) by (auto simp: identity_key_def q(2))
  next
    assume "\<exists>old. get (customers db) (cu_id c) = Some old \<and> cu_phone c = cu_phone old
               \<and> (visited c \<longleftrightarrow> visited old)"
    then obtain old where old: "get (customers db) (cu_id c) = Some old" "cu_phone c = cu_phone old" by blast
    have "cu_id old = cu_id c" using ok old(1) by (rule has_id_get)
    then have "d \<noteq> old" using that(2) by auto
    then show ?thesis
      using assms(3) that(1) get_in_rows [OF old(1)] old(2) by (auto simp: identities_unique_def identity_key_def)
  qed
  have "customers_ok db'"
    using ok' row cphone assms(2) unfolding customers_ok_def by blast
  moreover have "identities_unique db'"
    unfolding identities_unique_def
  proof (intro ballI impI)
    fix x y assume x: "x \<in> set (rows (customers db'))" and y: "y \<in> set (rows (customers db'))"
      and k: "identity_key x = identity_key y"
    show "x = y"
      using row [OF x] row [OF y]
    proof (elim disjE conjE)
      assume "x \<in> set (rows (customers db))" "y \<in> set (rows (customers db))"
      with k assms(3) show ?thesis by (simp add: identities_unique_def)
    next
      assume "x = c" "y \<in> set (rows (customers db))" "cu_id y \<noteq> cu_id c"
      with other k show ?thesis by metis
    next
      assume "y = c" "x \<in> set (rows (customers db))" "cu_id x \<noteq> cu_id c"
      with other k show ?thesis by metis
    qed simp
  qed
  ultimately show ?thesis by (simp add: db')
qed

section \<open>No double booking\<close>

text \<open>Two confirmed bookings of one master never share an instant.\<close>

definition confirmed_disjoint :: "salon \<Rightarrow> bool" where
  "confirmed_disjoint db \<longleftrightarrow> (\<forall>b \<in> set (rows (bookings db)). \<forall>b' \<in> set (rows (bookings db)).
     bk_id b \<noteq> bk_id b' \<and> bk_status b = Confirmed \<and> bk_status b' = Confirmed
       \<and> bk_master_id b = bk_master_id b' \<longrightarrow>
     \<not> overlaps (bk_start_at b) (bk_end_at b) (bk_start_at b') (bk_end_at b'))"

lemma overlaps_sym: "overlaps s e s' e' \<longleftrightarrow> overlaps s' e' s e"
  by (auto simp: overlaps_def)

lemma confirmed_disjoint_put:
  assumes "confirmed_disjoint db" and "has_id bk_id (bookings db)" and "bk_id b = k"
    and "\<And>b'. bk_status b = Confirmed \<Longrightarrow> b' \<in> set (rows (bookings db)) \<Longrightarrow> bk_id b' \<noteq> k \<Longrightarrow>
      bk_status b' = Confirmed \<Longrightarrow> bk_master_id b' = bk_master_id b \<Longrightarrow>
      \<not> overlaps (bk_start_at b') (bk_end_at b') (bk_start_at b) (bk_end_at b)"
  shows "confirmed_disjoint (db\<lparr>bookings := put k b (bookings db)\<rparr>)"
  unfolding confirmed_disjoint_def
proof (intro ballI impI)
  fix x y assume x: "x \<in> set (rows (bookings (db\<lparr>bookings := put k b (bookings db)\<rparr>)))"
    and y: "y \<in> set (rows (bookings (db\<lparr>bookings := put k b (bookings db)\<rparr>)))"
    and xy: "bk_id x \<noteq> bk_id y \<and> bk_status x = Confirmed \<and> bk_status y = Confirmed \<and> bk_master_id x = bk_master_id y"
  have cases: "v = b \<or> (v \<in> set (rows (bookings db)) \<and> bk_id v \<noteq> k)"
    if "v \<in> set (rows (bookings (db\<lparr>bookings := put k b (bookings db)\<rparr>)))" for v
    using that rows_put_iff [OF assms(2,3)] by simp
  show "\<not> overlaps (bk_start_at x) (bk_end_at x) (bk_start_at y) (bk_end_at y)"
    using cases [OF x] cases [OF y]
  proof (elim disjE conjE)
    assume "x \<in> set (rows (bookings db))" "y \<in> set (rows (bookings db))"
    with xy assms(1) show ?thesis by (simp add: confirmed_disjoint_def)
  next
    assume "x = b" "y \<in> set (rows (bookings db))" "bk_id y \<noteq> k"
    with xy assms(4) [of y] show ?thesis by (simp add: overlaps_sym)
  next
    assume "y = b" "x \<in> set (rows (bookings db))" "bk_id x \<noteq> k"
    with xy assms(4) [of x] show ?thesis by simp
  qed (use xy in simp)
qed

text \<open>What stays fixed when a promotion is applied: the slot of the booking.\<close>

definition same_slot :: "booking \<Rightarrow> booking \<Rightarrow> bool" where
  "same_slot b b' \<longleftrightarrow> bk_id b' = bk_id b \<and> bk_master_id b' = bk_master_id b
     \<and> bk_start_at b' = bk_start_at b \<and> bk_end_at b' = bk_end_at b \<and> bk_status b' = bk_status b"

lemma apply_same_slot:
  assumes "apply_to_booking z campaign db opts b bid code customer items at = Inr b'"
    and "\<And>b'. campaign b = Inr b' \<Longrightarrow> same_slot b b'"
  shows "same_slot b b'"
proof (cases "no_campaign opts b")
  case True
  show ?thesis
    using assms(1) True by (rule apply_to_booking_Inr) (auto simp: same_slot_def price_booking_frame)
next
  case False
  then have "campaign b = Inr b'"
    using assms(1) by (auto simp: apply_to_booking_def no_campaign_def split: if_splits)
  then show ?thesis by (rule assms(2))
qed

lemma plan_booking_Inr:
  assumes "plan_booking z db now opts payload = Inr (r, m, items, s, e)"
  shows "s = normalize_datetime z (pb_start_at payload)"
    and "ensure_slot_available db now (ms_id m) (to_utc z s) (to_utc z e) None None = Inr ()"
    and "\<not> co_allow_past opts \<Longrightarrow> ensure_not_past z now (Kyiv s) = Inr ()"
    and "co_require_working_hours opts \<Longrightarrow> ensure_within_working_hours z (Kyiv s) (Kyiv e) = Inr ()"
    and "co_require_availability opts \<Longrightarrow>
      ensure_booking_within_availability z db now (ms_id m) (Kyiv s) (Kyiv e) = Inr ()"
    and "s < e" and "resolve_booking_master db (pb_master_id payload) = Inr (r, m)"
proof -
  have pos: "a < b" if "(if w then ensure_within_working_hours z (Kyiv a) (Kyiv b)
      else ensure_within_open_business_days z (Kyiv a) (Kyiv b)) = Inr ()" for w a b
    using that by (auto simp: ensure_within_working_hours_def ensure_within_open_business_days_def
        ensure_valid_Kyiv and_then_eq_Inr split: if_splits)
  show "s = normalize_datetime z (pb_start_at payload)"
    "ensure_slot_available db now (ms_id m) (to_utc z s) (to_utc z e) None None = Inr ()"
    "\<not> co_allow_past opts \<Longrightarrow> ensure_not_past z now (Kyiv s) = Inr ()"
    "co_require_working_hours opts \<Longrightarrow> ensure_within_working_hours z (Kyiv s) (Kyiv e) = Inr ()"
    "co_require_availability opts \<Longrightarrow>
      ensure_booking_within_availability z db now (ms_id m) (Kyiv s) (Kyiv e) = Inr ()"
    "s < e" "resolve_booking_master db (pb_master_id payload) = Inr (r, m)"
    using assms by (auto simp: plan_booking_def Let_def and_then_eq_Inr intro: pos)
qed

text \<open>The slot that a successful creation books, and its effect on the tables.\<close>

lemma create_public_booking_Inr:
  assumes "create_public_booking z campaign attribute_booking db now opts payload = Inr (db', b)"
    and "\<And>db c items b b'. campaign db c items b = Inr b' \<Longrightarrow> same_slot b b'"
    and "\<And>t b db db'. attribute_booking t b db = Inr db' \<Longrightarrow> bookings db' = bookings db"
  obtains r m items s e where "plan_booking z db now opts payload = Inr (r, m, items, s, e)"
    and "bk_id b = next_id (bookings db)" and "bk_master_id b = ms_id m"
    and "bk_start_at b = to_utc z s" and "bk_end_at b = to_utc z e" and "bk_status b = Confirmed"
    and "bookings db' = put (bk_id b) b (bookings db)"
proof -
  obtain r m items s e where plan: "plan_booking z db now opts payload = Inr (r, m, items, s, e)"
    using assms(1) by (auto simp: create_public_booking_def and_then_eq_Inr)
  obtain db1 c phone where cust: "get_or_create_booking_customer db payload = Inr (db1, c, phone)"
    using assms(1) plan by (auto simp: create_public_booking_def and_then_eq_Inr)
  have keep: "bookings db1 = bookings db"
    using cust customer_flush_Inr
    by (fastforce simp: get_or_create_booking_customer_def Let_def and_then_eq_Inr split: option.splits prod.splits)
  obtain b0 b1 db2 where b0: "replace_booking_services
         (new_booking r m items c phone payload (to_utc z s) (to_utc z e) (co_source opts)
            (next_id (bookings db1))) items = Inr b0"
    and b1: "apply_to_booking z (campaign db1 c items) db1
         (default_options\<lparr>allow_private_promotions := co_allow_private_promotions opts,
            offer_token := pb_offer_token payload\<rparr>)
         b0 None (co_promotion_code opts) (Some c) items (Kyiv s) = Inr b1"
    and flush: "booking_flush b1 db1 = Inr db2" and b: "b = b1"
    and rest: "bookings db' = bookings db2"
  proof -
    define consent where "consent = (\<lambda>db (b :: booking). if co_source opts = Web
      then record_booking_sms_consent db now (cu_id c) (bk_id b) (pb_sms_consent payload) else db)"
    have consent: "bookings (consent db b) = bookings db" for db b
      by (simp add: consent_def record_booking_sms_consent_def split: option.splits)
    define store where "store = (\<lambda>b1.
      if pb_expected_total_amount payload \<noteq> None \<and> pb_expected_total_amount payload \<noteq> bk_total_amount b1
      then conflict ''price_changed''
      else and_then (booking_flush b1 db1) (\<lambda>db2.
        and_then (if truthy_text (co_repeat_booking_token opts)
                  then attribute_booking (the (co_repeat_booking_token opts)) b1 (consent db2 b1)
                  else Inr (consent db2 b1)) (\<lambda>db. Inr (db, b1))))"
    have "create_public_booking z campaign attribute_booking db now opts payload =
      and_then (replace_booking_services
         (new_booking r m items c phone payload (to_utc z s) (to_utc z e) (co_source opts)
            (next_id (bookings db1))) items) (\<lambda>b0.
      and_then (apply_to_booking z (campaign db1 c items) db1
         (default_options\<lparr>allow_private_promotions := co_allow_private_promotions opts,
            offer_token := pb_offer_token payload\<rparr>)
         b0 None (co_promotion_code opts) (Some c) items (Kyiv s)) store)"
      by (simp only: create_public_booking_def plan cust and_then_Inr prod.case Let_def consent_def store_def)
    with assms(1) obtain b0 b1 where first: "replace_booking_services
         (new_booking r m items c phone payload (to_utc z s) (to_utc z e) (co_source opts)
            (next_id (bookings db1))) items = Inr b0"
      "apply_to_booking z (campaign db1 c items) db1
         (default_options\<lparr>allow_private_promotions := co_allow_private_promotions opts,
            offer_token := pb_offer_token payload\<rparr>)
         b0 None (co_promotion_code opts) (Some c) items (Kyiv s) = Inr b1"
      and store: "store b1 = Inr (db', b)"
      by (simp only: and_then_eq_Inr) blast
    obtain db2 where "booking_flush b1 db1 = Inr db2" and b: "b = b1"
      and rest: "(if truthy_text (co_repeat_booking_token opts)
                  then attribute_booking (the (co_repeat_booking_token opts)) b1 (consent db2 b1)
                  else Inr (consent db2 b1)) = Inr db'"
      using store by (simp only: store_def if_Inl_eq_Inr and_then_eq_Inr sum.inject prod.inject) blast
    moreover have "bookings db' = bookings db2"
      using rest assms(3) consent by (metis sum.inject(2))
    ultimately show thesis using that first b by blast
  qed
  have slot0: "bk_id b0 = next_id (bookings db)" "bk_master_id b0 = ms_id m" "bk_start_at b0 = to_utc z s"
    "bk_end_at b0 = to_utc z e" "bk_status b0 = Confirmed"
    using b0 by (auto simp: replace_booking_services_def new_booking_def keep split: list.splits)
  have "same_slot b0 b1" by (rule apply_same_slot [OF b1]) (rule assms(2))
  moreover have "bookings db2 = put (bk_id b1) b1 (bookings db)"
    using flush by (auto simp: booking_flush_def keep split: if_splits)
  ultimately show ?thesis
    using plan slot0 rest b by (intro that) (auto simp: same_slot_def)
qed

lemma create_public_booking_disjoint:
  assumes "create_public_booking z campaign attribute_booking db now opts payload = Inr (db', b)"
    and "\<And>db c items b b'. campaign db c items b = Inr b' \<Longrightarrow> same_slot b b'"
    and "\<And>t b db db'. attribute_booking t b db = Inr db' \<Longrightarrow> bookings db' = bookings db"
    and "has_id bk_id (bookings db)" and "confirmed_disjoint db"
  shows "has_id bk_id (bookings db') \<and> confirmed_disjoint db'"
  using assms(1-3)
proof (rule create_public_booking_Inr)
  fix r m items s e
  assume plan: "plan_booking z db now opts payload = Inr (r, m, items, s, e)"
    and b: "bk_id b = next_id (bookings db)" "bk_master_id b = ms_id m" "bk_start_at b = to_utc z s"
      "bk_end_at b = to_utc z e" "bk_status b = Confirmed"
    and db': "bookings db' = put (bk_id b) b (bookings db)"
  have "confirmed_disjoint (db\<lparr>bookings := put (bk_id b) b (bookings db)\<rparr>)"
    using plan_booking_Inr(2) [OF plan] b
    by (intro confirmed_disjoint_put [OF assms(5,4)]) (auto simp: ensure_slot_available_iff)
  then show ?thesis
    using assms(4) db' by (simp add: confirmed_disjoint_def has_id_put)
qed

section \<open>Windows\<close>

text \<open>The open windows of one master never share an instant.\<close>

definition windows_disjoint :: "salon \<Rightarrow> bool" where
  "windows_disjoint db \<longleftrightarrow> (\<forall>w \<in> set (rows (windows db)). \<forall>w' \<in> set (rows (windows db)).
     wn_id w \<noteq> wn_id w' \<and> wn_master_id w = wn_master_id w' \<longrightarrow>
     \<not> overlaps (wn_start_at w) (wn_end_at w) (wn_start_at w') (wn_end_at w'))"

lemma windows_disjoint_put:
  assumes "windows_disjoint db" and "has_id wn_id (windows db)" and "wn_id w = k"
    and "ensure_no_overlapping_availability db (wn_master_id w) (wn_start_at w) (wn_end_at w) = Inr ()"
  shows "windows_disjoint (db\<lparr>windows := put k w (windows db)\<rparr>)"
  unfolding windows_disjoint_def
proof (intro ballI impI)
  have free: "\<not> overlaps (wn_start_at v) (wn_end_at v) (wn_start_at w) (wn_end_at w)"
    if "v \<in> set (rows (windows db))" "wn_master_id v = wn_master_id w" for v
    using assms(4) that
    by (auto simp: ensure_no_overlapping_availability_def select_where_def filter_empty_conv split: if_splits)
  fix x y assume x: "x \<in> set (rows (windows (db\<lparr>windows := put k w (windows db)\<rparr>)))"
    and y: "y \<in> set (rows (windows (db\<lparr>windows := put k w (windows db)\<rparr>)))"
    and xy: "wn_id x \<noteq> wn_id y \<and> wn_master_id x = wn_master_id y"
  have cases: "v = w \<or> (v \<in> set (rows (windows db)) \<and> wn_id v \<noteq> k)"
    if "v \<in> set (rows (windows (db\<lparr>windows := put k w (windows db)\<rparr>)))" for v
    using that rows_put_iff [OF assms(2,3)] by simp
  show "\<not> overlaps (wn_start_at x) (wn_end_at x) (wn_start_at y) (wn_end_at y)"
    using cases [OF x] cases [OF y]
  proof (elim disjE conjE)
    assume "x \<in> set (rows (windows db))" "y \<in> set (rows (windows db))"
    with xy assms(1) show ?thesis by (simp add: windows_disjoint_def)
  next
    assume "x = w" "y \<in> set (rows (windows db))"
    with xy free [of y] show ?thesis by (simp add: overlaps_sym)
  next
    assume "y = w" "x \<in> set (rows (windows db))"
    with xy free [of x] show ?thesis by simp
  qed (use xy in simp)
qed

definition windows_ok :: "salon \<Rightarrow> bool" where
  "windows_ok db \<longleftrightarrow> has_id wn_id (windows db) \<and> windows_disjoint db"

lemma create_window_ok:
  assumes "create_availability_window z db now m s e = Inr (db', w)" and "windows_ok db"
  shows "windows_ok db'"
  using assms windows_disjoint_put
  by (auto simp: create_availability_window_def and_then_eq_Inr Let_def windows_ok_def has_id_put)

lemma availability_days_loop_ok:
  assumes "availability_days_loop z now m dates intervals db ws = Inr (db', ws')" and "windows_ok db"
  shows "windows_ok db'"
  using assms
proof (induction dates arbitrary: intervals db ws)
  case Nil
  then show ?case by simp
next
  case (Cons d dates)
  obtain s e where step: "ensure_no_overlapping_availability db m (to_utc z s) (to_utc z e) = Inr ()"
    and rest: "availability_days_loop z now m dates (intervals @ [(s, e)])
      (db\<lparr>windows := put (next_id (windows db)) \<lparr>wn_id = next_id (windows db), wn_master_id = m,
         wn_start_at = to_utc z s, wn_end_at = to_utc z e\<rparr> (windows db)\<rparr>)
      (ws @ [\<lparr>wn_id = next_id (windows db), wn_master_id = m,
         wn_start_at = to_utc z s, wn_end_at = to_utc z e\<rparr>]) = Inr (db', ws')"
    using Cons.prems(1) by (auto simp: and_then_eq_Inr Let_def split: if_splits)
  have "windows_ok (db\<lparr>windows := put (next_id (windows db)) \<lparr>wn_id = next_id (windows db), wn_master_id = m,
         wn_start_at = to_utc z s, wn_end_at = to_utc z e\<rparr> (windows db)\<rparr>)"
    using Cons.prems(2) step windows_disjoint_put by (auto simp: windows_ok_def has_id_put)
  from Cons.IH [OF rest this] show ?case .
qed

chapter \<open>Properties\<close>

text \<open>The demonstration salon with one morning published for master 1 and a booking in it.\<close>

definition demo_day :: date where "demo_day = 738000"

definition demo_now :: instant where "demo_now = demo_day * day"

definition demo_window :: window where
  "demo_window = \<lparr>wn_id = 1, wn_master_id = 1,
     wn_start_at = to_utc winter_zone (demo_day * day + WORK_START),
     wn_end_at = to_utc winter_zone (demo_day * day + WORK_START + 10 * SLOT_STEP)\<rparr>"

definition demo_taken :: booking where
  "demo_taken = demo_booking\<lparr>bk_start_at := to_utc winter_zone (demo_day * day + WORK_START),
     bk_end_at := to_utc winter_zone (demo_day * day + WORK_START + 4 * SLOT_STEP)\<rparr>"

definition demo_open_salon :: salon where
  "demo_open_salon = demo_promo_salon\<lparr>windows := [(1, demo_window)], bookings := [(1, demo_taken)]\<rparr>"

definition demo_payload :: booking_payload where
  "demo_payload = \<lparr>pb_master_id = 2, pb_service_id = 22, pb_service_ids = None, pb_duration_minutes = None,
     pb_customer_name = ''B C'', pb_customer_phone = ''067 123 45 68'', pb_customer_email = None,
     pb_customer_comment = None, pb_start_at = Kyiv (demo_day * day + WORK_START + 4 * SLOT_STEP),
     pb_expected_total_amount = None, pb_offer_token = None, pb_sms_consent = False\<rparr>"

lemma winter_zone_ok: "zone_ok winter_zone"
  by (auto simp: zone_ok_def winter_zone_def)

lemma demo_rows_positive: "rows_positive demo_open_salon"
  by (simp add: rows_positive_def rows_def demo_open_salon_def demo_window_def demo_taken_def winter_zone_def
      time_consts demo_promo_defs)

lemma demo_listing:
  "case get_available_slots_for_range winter_zone demo_open_salon demo_now 2 demo_day demo_day (Some 22) None None False of
     Inl e \<Rightarrow> False
   | Inr r \<Rightarrow> asr_duration_minutes r = 60 \<and> asr_booking_master_id r = 1
       \<and> map_of (asr_slots_by_date r) demo_day = Some (map (\<lambda>k. (demo_day * day + WORK_START + k * SLOT_STEP,
           demo_day * day + WORK_START + (k + 4) * SLOT_STEP)) [4, 5, 6])"
  by code_simp

text \<open>C4: the listed slots of a day are exactly the ones a booking would be accepted for: an interval
  of the requested duration on that day is listed iff its start is on the grid or begins a free
  stretch and the guards of a public booking (not past, working hours, published availability, no
  booking, hold or block in the way) all accept it at the same instant.\<close>

theorem listed_slots_are_exactly_accepted:
  assumes "zone_ok z" and "rows_positive db"
    and "get_available_slots_for_range z db now master_id d0 d1 sid sids dm False = Inr r"
    and "0 < asr_duration_minutes r" and "map_of (asr_slots_by_date r) d = Some slots"
  shows "(t, u) \<in> set slots \<longleftrightarrow> u = t + asr_duration_minutes r * minute \<and> date_of t = d
    \<and> aligned z db now (asr_booking_master_id r) d t
    \<and> slot_accepted z db now (asr_booking_master_id r) t u"
  by (rule listed_iff_accepted [OF assms])

theorem listed_slots_are_exactly_accepted_witness:
  "slot_accepted winter_zone demo_open_salon demo_now 1 (demo_day * day + WORK_START + 5 * SLOT_STEP)
     (demo_day * day + WORK_START + 9 * SLOT_STEP)"
proof -
  obtain r slots where run: "get_available_slots_for_range winter_zone demo_open_salon demo_now 2
      demo_day demo_day (Some 22) None None False = Inr r"
    and r: "asr_duration_minutes r = 60" "asr_booking_master_id r = 1"
    and slots: "map_of (asr_slots_by_date r) demo_day = Some slots"
      "slots = map (\<lambda>k. (demo_day * day + WORK_START + k * SLOT_STEP,
           demo_day * day + WORK_START + (k + 4) * SLOT_STEP)) [4, 5, 6]"
    using demo_listing by (auto split: sum.splits)
  have "(demo_day * day + WORK_START + 5 * SLOT_STEP, demo_day * day + WORK_START + 9 * SLOT_STEP) \<in> set slots"
    by (simp add: slots(2))
  then show ?thesis
    using listed_slots_are_exactly_accepted [OF winter_zone_ok demo_rows_positive run _ slots(1)] r by simp
qed

text \<open>The overview that only asks which days have a slot agrees with the full listing on every day
  of the range.\<close>

theorem day_overview_agrees:
  assumes "get_available_slots_for_range z db now master_id d0 d1 sid sids dm False = Inr r"
    and "get_available_slots_range z db now master_id d0 d1 sid sids dm = Inr has"
  shows "map fst has = map fst (asr_slots_by_date r)
    \<and> (\<forall>d. map_of has d = map_option (\<lambda>slots. slots \<noteq> []) (map_of (asr_slots_by_date r) d))"
  by (rule has_slots_iff [OF assms])

theorem day_overview_agrees_witness:
  "\<exists>has. get_available_slots_range winter_zone demo_open_salon demo_now 2 demo_day demo_day (Some 22) None None
     = Inr has \<and> map_of has demo_day = Some True"
proof -
  obtain r slots where run: "get_available_slots_for_range winter_zone demo_open_salon demo_now 2
      demo_day demo_day (Some 22) None None False = Inr r"
    and slots: "map_of (asr_slots_by_date r) demo_day = Some slots" "slots \<noteq> []"
    using demo_listing by (auto split: sum.splits)
  obtain has where "get_available_slots_range winter_zone demo_open_salon demo_now 2 demo_day demo_day (Some 22)
      None None = Inr has"
    using run by (auto simp: get_available_slots_range_def get_available_slots_for_range_def and_then_eq_Inr
        slots_response_def Let_def split: prod.splits if_splits)
  with day_overview_agrees [OF run this] slots show ?thesis by simp
qed

text \<open>C21: looking up or creating the customer of a booking never creates a second customer for a phone
  identity: uniqueness of identities and of ids is kept and the returned customer is the stored row.\<close>

theorem booking_customer_identity_unique:
  assumes "get_or_create_booking_customer db payload = Inr (db', c, phone)"
    and "customers_ok db" and "identities_unique db"
  shows "customers_ok db' \<and> identities_unique db' \<and> get (customers db') (cu_id c) = Some c"
  by (rule get_or_create_identities [OF assms])

theorem booking_customer_identity_unique_witness:
  "\<exists>db' c phone. get_or_create_booking_customer demo_open_salon demo_payload = Inr (db', c, phone)
     \<and> identities_unique db' \<and> cu_id c = 8"
proof -
  let ?run = "get_or_create_booking_customer demo_open_salon demo_payload"
  have "case ?run of Inl e \<Rightarrow> False | Inr (db', c, phone) \<Rightarrow> cu_id c = 8" by code_simp
  then obtain db' c phone where run: "?run = Inr (db', c, phone)" "cu_id c = 8"
    by (cases ?run) auto
  have "customers_ok demo_open_salon" "identities_unique demo_open_salon"
    using demo_customers_ok by (simp_all add: demo_open_salon_def customers_ok_def identities_unique_def
        rows_def demo_promo_defs)
  from booking_customer_identity_unique [OF run(1) this] run show ?thesis by blast
qed

text \<open>The consent recorded with a web booking never overrides a refusal: the preferences of a
  customer who opted out of marketing or transactional messages, asked not to be contacted or is
  blacklisted stay as they are; for everyone else transactional messages become allowed and marketing
  consent changes only when it was given.\<close>

theorem consent_respects_refusal:
  "(case get (preferences db) cid of
      None \<Rightarrow> True
    | Some p \<Rightarrow> pf_marketing_consent p = Opted_out \<or> pf_transactional_consent p = Opted_out
        \<or> pf_do_not_contact p \<or> pf_blacklisted_at p \<noteq> None \<longrightarrow>
        record_booking_sms_consent db now cid bid marketing = db)
   \<and> (\<exists>q. get (preferences (record_booking_sms_consent db now cid bid marketing)) cid = Some q
      \<and> (q = the (get (preferences db) cid) \<and> get (preferences db) cid \<noteq> None
         \<or> pf_transactional_consent q = Opted_in
           \<and> (pf_marketing_consent q = Opted_in \<longrightarrow> marketing
              \<or> (\<exists>p. get (preferences db) cid = Some p \<and> pf_marketing_consent p = Opted_in))))"
  by (auto simp: record_booking_sms_consent_def split: option.splits)

theorem consent_respects_refusal_witness:
  "record_booking_sms_consent (empty_salon\<lparr>preferences := [(7, \<lparr>pf_marketing_consent = Opted_out,
       pf_transactional_consent = Opted_in, pf_booking_sms_consent_at = None,
       pf_booking_sms_consent_booking_id = None, pf_do_not_contact = False, pf_blacklisted_at = None\<rparr>)]\<rparr>)
     0 7 1 True
   = empty_salon\<lparr>preferences := [(7, \<lparr>pf_marketing_consent = Opted_out,
       pf_transactional_consent = Opted_in, pf_booking_sms_consent_at = None,
       pf_booking_sms_consent_booking_id = None, pf_do_not_contact = False, pf_blacklisted_at = None\<rparr>)]\<rparr>"
  using consent_respects_refusal [where cid = 7 and now = 0 and bid = 1 and marketing = True and
      db = "empty_salon\<lparr>preferences := [(7, \<lparr>pf_marketing_consent = Opted_out,
       pf_transactional_consent = Opted_in, pf_booking_sms_consent_at = None,
       pf_booking_sms_consent_booking_id = None, pf_do_not_contact = False, pf_blacklisted_at = None\<rparr>)]\<rparr>"]
  by simp

text \<open>C31: the availability windows of one master never overlap: publishing a window, publishing whole
  days (also within one request) and deleting a window all keep this.\<close>

theorem windows_never_overlap:
  assumes "windows_ok db"
  shows "(create_availability_window z db now m s e = Inr (db', w) \<longrightarrow> windows_ok db')
    \<and> (create_availability_days z db now m dates = Inr (db', ws) \<longrightarrow> windows_ok db')
    \<and> (delete_availability_window db now w' allow = Inr db' \<longrightarrow> windows_ok db')"
proof -
  have "windows_ok db'" if "delete_availability_window db now w' allow = Inr db'"
  proof -
    have db': "db' = db\<lparr>windows := drop_row (wn_id w') (windows db)\<rparr>"
      using that by (auto simp: delete_availability_window_def split: if_splits)
    show ?thesis
      using assms has_id_drop_row rows_drop_row [of "wn_id w'" "windows db"]
      by (simp add: db' windows_ok_def windows_disjoint_def) blast
  qed
  then show ?thesis
    using create_window_ok [OF _ assms] availability_days_loop_ok [OF _ assms]
    unfolding create_availability_days_def by blast
qed

theorem windows_never_overlap_witness:
  "\<exists>db' ws. create_availability_days winter_zone demo_open_salon demo_now 1 [demo_day + 1, demo_day + 2]
     = Inr (db', ws) \<and> windows_ok db'"
proof -
  let ?run = "create_availability_days winter_zone demo_open_salon demo_now 1 [demo_day + 1, demo_day + 2]"
  have "case ?run of Inl e \<Rightarrow> False | Inr (db', ws) \<Rightarrow> length ws = 2" by code_simp
  then obtain db' ws where run: "?run = Inr (db', ws)" by (cases ?run) auto
  have "windows_ok demo_open_salon"
    by (simp add: windows_ok_def has_id_def table_ok_def ids_def windows_disjoint_def rows_def
        demo_open_salon_def demo_window_def)
  from windows_never_overlap [OF this, of winter_zone demo_now 1] run show ?thesis by blast
qed

text \<open>C8: a public booking lands where it was checked: if it is created, its master is the end of the
  requested master's redirect chain, its interval passed every required guard on the database before
  the booking, and the only booking row that changes is the new, confirmed one.\<close>

theorem public_booking_within_rules:
  assumes "create_public_booking z campaign attribute_booking db now opts payload = Inr (db', b)"
    and "\<And>db c items b b'. campaign db c items b = Inr b' \<Longrightarrow> same_slot b b'"
    and "\<And>t b db db'. attribute_booking t b db = Inr db' \<Longrightarrow> bookings db' = bookings db"
  shows "\<exists>r m s e. resolve_booking_master db (pb_master_id payload) = Inr (r, m)
    \<and> s = normalize_datetime z (pb_start_at payload) \<and> s < e
    \<and> bk_master_id b = ms_id m \<and> bk_start_at b = to_utc z s \<and> bk_end_at b = to_utc z e
    \<and> bk_status b = Confirmed \<and> bookings db' = put (bk_id b) b (bookings db) \<and> get (bookings db) (bk_id b) = None
    \<and> (co_allow_past opts \<or> ensure_not_past z now (Kyiv s) = Inr ())
    \<and> (\<not> co_require_working_hours opts \<or> ensure_within_working_hours z (Kyiv s) (Kyiv e) = Inr ())
    \<and> (\<not> co_require_availability opts
       \<or> ensure_booking_within_availability z db now (ms_id m) (Kyiv s) (Kyiv e) = Inr ())
    \<and> ensure_slot_available db now (ms_id m) (to_utc z s) (to_utc z e) None None = Inr ()"
  using assms
proof (rule create_public_booking_Inr)
  fix r m items s e
  assume plan: "plan_booking z db now opts payload = Inr (r, m, items, s, e)"
    and rest: "bk_id b = next_id (bookings db)" "bk_master_id b = ms_id m" "bk_start_at b = to_utc z s"
      "bk_end_at b = to_utc z e" "bk_status b = Confirmed" "bookings db' = put (bk_id b) b (bookings db)"
  show ?thesis
    by (intro exI [of _ r] exI [of _ m] exI [of _ s] exI [of _ e])
      (use plan_booking_Inr [OF plan] rest in auto)
qed

theorem public_booking_within_rules_witness:
  "\<exists>db' b. create_public_booking winter_zone (\<lambda>db c items b. Inl KeyError) (\<lambda>t b db. Inr db) demo_open_salon
     demo_now public_options demo_payload = Inr (db', b) \<and> bk_id b = 2 \<and> bk_master_id b = 1
     \<and> bookings db' = put 2 b (bookings demo_open_salon)"
proof -
  let ?run = "create_public_booking winter_zone (\<lambda>db c items b. Inl KeyError) (\<lambda>t b db. Inr db) demo_open_salon
     demo_now public_options demo_payload"
  have "case ?run of Inl e \<Rightarrow> False | Inr (db', b) \<Rightarrow> bk_id b = 2 \<and> bk_master_id b = 1" by code_simp
  then obtain db' b where run: "?run = Inr (db', b)" "bk_id b = 2" "bk_master_id b = 1"
    by (cases ?run) auto
  have "bookings db' = put (bk_id b) b (bookings demo_open_salon)"
    using public_booking_within_rules [OF run(1)] by auto
  with run show ?thesis by auto
qed

end
