(* ===== verification/Roster.thy ===== *)
theory Roster
  imports Bookings
begin

text \<open>
  The back office around the calendar, \<^verbatim>\<open>app/api/v1/routes/bookings.py\<close>: who may act,
  where a master's bookings may be redirected, whose calendar a master edits, the handlers of
  availability windows and time blocks, and the offer of services of each master.
\<close>

section \<open>Users\<close>

record admin_user =
  au_id :: int
  au_is_superuser :: bool

definition forbidden_unless :: "bool \<Rightarrow> string \<Rightarrow> unit result" where
  "forbidden_unless allowed detail = ensure allowed (HTTPException 403 detail)"

definition ensure_superuser :: "admin_user \<Rightarrow> unit result" where
  "ensure_superuser u = forbidden_unless (au_is_superuser u) ''Only superusers can manage booking settings''"

text \<open>\<open>masters.admin_user_id\<close> is unique, so at most one row is found.\<close>

definition get_linked_master_for_user :: "salon \<Rightarrow> admin_user \<Rightarrow> master result" where
  "get_linked_master_for_user db u =
     (case select_where (\<lambda>m. ms_admin_user_id m = Some (au_id u)) (masters db) of
        [] \<Rightarrow> Inl (HTTPException 403 ''Current user is not linked to a master'')
      | m # _ \<Rightarrow> Inr m)"

definition ensure_master_exists :: "salon \<Rightarrow> int \<Rightarrow> master result" where
  "ensure_master_exists db master_id =
     (case get (masters db) master_id of None \<Rightarrow> not_found ''Barber not found'' | Some m \<Rightarrow> Inr m)"

definition load_master :: "salon \<Rightarrow> int \<Rightarrow> master result" where
  "load_master db master_id =
     (case get (masters db) master_id of None \<Rightarrow> not_found ''Master not found'' | Some m \<Rightarrow> Inr m)"

section \<open>Redirects\<close>

text \<open>
  The validation walks the chain of the new target; every master on it must exist, be active and be
  new. The walk ends because each round adds a master to \<open>visited_master_ids\<close>, here \<open>seen\<close>.
\<close>

function redirect_walk :: "salon \<Rightarrow> int list \<Rightarrow> master \<Rightarrow> unit result" where
  "redirect_walk db seen current_master =
     (if ms_id current_master \<in> set seen
      then bad_request ''Booking redirect cannot create a cycle''
      else case ms_booking_redirect_master_id current_master of
             None \<Rightarrow> Inr ()
           | Some r \<Rightarrow>
               if r \<in> set (ms_id current_master # seen)
               then bad_request ''Booking redirect cannot create a cycle''
               else (case get (masters db) r of
                       None \<Rightarrow> bad_request ''Redirect master not found''
                     | Some m \<Rightarrow>
                         if \<not> ms_is_active m then bad_request ''Redirect master must be active''
                         else redirect_walk db (ms_id current_master # seen) m))"
  by pat_completeness auto
termination
proof (relation "measure (\<lambda>(db, seen, m). card (insert (ms_id m) (ms_id ` set (rows (masters db))) - set seen))")
  fix db :: salon and seen :: "int list" and m nxt :: master and r :: int
  assume new: "ms_id m \<notin> set seen" and nxt: "get (masters db) r = Some nxt"
  have "insert (ms_id nxt) (ms_id ` set (rows (masters db))) - set (ms_id m # seen)
      \<subset> insert (ms_id m) (ms_id ` set (rows (masters db))) - set seen"
    using new get_in_rows [OF nxt] by auto
  then show "((db, ms_id m # seen, nxt), db, seen, m)
      \<in> measure (\<lambda>(db, seen, m). card (insert (ms_id m) (ms_id ` set (rows (masters db))) - set seen))"
    by (simp add: psubset_card_mono del: insert_iff)
qed simp

declare redirect_walk.simps [simp del]

definition ensure_booking_redirect_master_valid :: "salon \<Rightarrow> int option \<Rightarrow> int option \<Rightarrow> unit result" where
  "ensure_booking_redirect_master_valid db source_master_id redirect_master_id =
     (case redirect_master_id of
        None \<Rightarrow> Inr ()
      | Some r \<Rightarrow>
          if source_master_id = Some r then bad_request ''Master cannot redirect bookings to itself''
          else (case get (masters db) r of
                  None \<Rightarrow> bad_request ''Redirect master not found''
                | Some m \<Rightarrow>
                    if \<not> ms_is_active m then bad_request ''Redirect master must be active''
                    else redirect_walk db (case source_master_id of None \<Rightarrow> [] | Some s \<Rightarrow> [s]) m))"

text \<open>The first future row found names the reason.\<close>

definition future_state :: "salon \<Rightarrow> instant \<Rightarrow> int \<Rightarrow> (string \<times> bool) list" where
  "future_state db now source =
     [(''bookings'', select_where (\<lambda>b. (bk_master_id b = source \<or> bk_redirected_from_master_id b = Some source)
         \<and> bk_status b = Confirmed \<and> bk_end_at b > now) (bookings db) \<noteq> []),
      (''availability windows'', select_where (\<lambda>w. wn_master_id w = source \<and> wn_end_at w > now) (windows db) \<noteq> []),
      (''time blocks'', select_where (\<lambda>t. tb_master_id t = source \<and> tb_end_at t > now) (blocks db) \<noteq> []),
      (''waitlist holds'', select_where (\<lambda>w. (wo_source_master_id w = Some source
           \<or> (wo_source_master_id w = None \<and> wo_master_id w = source))
         \<and> wo_status w \<in> {OPending, OSent, ODelivered} \<and> wo_end_at w > now) (offers db) \<noteq> [])]"

definition ensure_redirect_change_has_no_future_state :: "salon \<Rightarrow> instant \<Rightarrow> int \<Rightarrow> unit result" where
  "ensure_redirect_change_has_no_future_state db now source_master_id =
     (case find snd (future_state db now source_master_id) of
        None \<Rightarrow> Inr ()
      | Some (label, _) \<Rightarrow> conflict (''Cannot change booking redirect while future '' @ label
          @ '' exist for this master''))"

text \<open>A partial update; the outer \<open>None\<close> is an absent key, \<open>Some None\<close> an explicit null.\<close>

record master_update =
  mu_full_name :: "string option option"
  mu_last_name :: "string option option"
  mu_booking_redirect_master_id :: "int option option"
  mu_show_on_master_block :: "bool option option"
  mu_is_active :: "bool option option"
  mu_admin_user_id :: "int option option"
  mu_service_ids :: "int list option"

definition or_keep :: "'a option \<Rightarrow> 'a \<Rightarrow> 'a" where
  "or_keep new old = (case new of None \<Rightarrow> old | Some v \<Rightarrow> v)"

text \<open>Columns that may not be null: the flush rejects an explicit null.\<close>

definition not_null :: "'a option option \<Rightarrow> 'a \<Rightarrow> 'a result" where
  "not_null new old = (case new of None \<Rightarrow> Inr old | Some None \<Rightarrow> Inl IntegrityError | Some (Some v) \<Rightarrow> Inr v)"

definition set_master_fields :: "master_update \<Rightarrow> master \<Rightarrow> master result" where
  "set_master_fields p m =
     and_then (not_null (mu_full_name p) (ms_full_name m)) (\<lambda>full_name.
     and_then (not_null (mu_show_on_master_block p) (ms_show_on_master_block m)) (\<lambda>shown.
     and_then (not_null (mu_is_active p) (ms_is_active m)) (\<lambda>active.
     Inr (m\<lparr>ms_full_name := full_name, ms_last_name := or_keep (mu_last_name p) (ms_last_name m),
            ms_booking_redirect_master_id :=
              or_keep (mu_booking_redirect_master_id p) (ms_booking_redirect_master_id m),
            ms_show_on_master_block := shown, ms_is_active := active,
            ms_admin_user_id := or_keep (mu_admin_user_id p) (ms_admin_user_id m)\<rparr>))))"

definition master_flush :: "master \<Rightarrow> salon \<Rightarrow> salon result" where
  "master_flush m db =
     (if ms_admin_user_id m \<noteq> None
         \<and> select_where (\<lambda>o'. ms_id o' \<noteq> ms_id m \<and> ms_admin_user_id o' = ms_admin_user_id m) (masters db) \<noteq> []
      then Inl IntegrityError else Inr (db\<lparr>masters := put (ms_id m) m (masters db)\<rparr>))"

text \<open>\<open>apply_uploads\<close> stands for the lookup of the uploaded images.\<close>

definition admin_update_master ::
  "unit result \<Rightarrow> salon \<Rightarrow> instant \<Rightarrow> admin_user \<Rightarrow> int \<Rightarrow> master_update \<Rightarrow> salon result" where
  "admin_update_master apply_uploads db now u master_id p =
     and_then (ensure_superuser u) (\<lambda>_.
     and_then (load_master db master_id) (\<lambda>m.
     and_then (case mu_booking_redirect_master_id p of
           None \<Rightarrow> Inr ()
         | Some r \<Rightarrow> if r = ms_booking_redirect_master_id m then Inr ()
                     else and_then (ensure_booking_redirect_master_valid db (Some master_id) r) (\<lambda>_.
                          ensure_redirect_change_has_no_future_state db now master_id)) (\<lambda>_.
     and_then apply_uploads (\<lambda>_.
     if mu_service_ids p \<noteq> None then bad_request ''Use /barbers/{barber_id}/services to manage barber services''
     else and_then (set_master_fields p m) (\<lambda>m. master_flush m db)))))"

section \<open>Whose calendar\<close>

definition resolve_inactive_source_calendar_master :: "salon \<Rightarrow> master \<Rightarrow> master result" where
  "resolve_inactive_source_calendar_master db m = follow_redirects db [ms_id m] m"

definition resolve_calendar_master :: "salon \<Rightarrow> master \<Rightarrow> master result" where
  "resolve_calendar_master db m =
     (if ms_booking_redirect_master_id m = None then Inr m
      else if \<not> ms_is_active m then resolve_inactive_source_calendar_master db m
      else and_then (resolve_booking_master db (ms_id m)) (\<lambda>(_, booking_master). Inr booking_master))"

definition resolve_backoffice_calendar_master_id :: "salon \<Rightarrow> int option \<Rightarrow> int option result" where
  "resolve_backoffice_calendar_master_id db master_id =
     (case master_id of None \<Rightarrow> Inr None
      | Some i \<Rightarrow> and_then (resolve_booking_master db i) (\<lambda>(_, booking_master). Inr (Some (ms_id booking_master))))"

definition MAX_CALENDAR_RANGE_DAYS :: int where "MAX_CALENDAR_RANGE_DAYS = 31"

definition ensure_bounded_calendar_range :: "zone \<Rightarrow> datetime \<Rightarrow> datetime \<Rightarrow> (wall \<times> wall) result" where
  "ensure_bounded_calendar_range z date_from date_to =
     and_then (ensure_valid_interval z date_from date_to) (\<lambda>(s, e).
     if e - s > MAX_CALENDAR_RANGE_DAYS * day then bad_request ''Calendar range cannot exceed 31 days''
     else Inr (s, e))"

section \<open>Time blocks\<close>

definition create_my_time_block ::
  "zone \<Rightarrow> salon \<Rightarrow> master \<Rightarrow> datetime \<Rightarrow> datetime \<Rightarrow> string option \<Rightarrow> (salon \<times> time_block) result" where
  "create_my_time_block z db current_master start_at end_at reason =
     and_then (resolve_calendar_master db current_master) (\<lambda>m.
     create_time_block z db (ms_id m) start_at end_at reason)"

definition list_my_time_blocks ::
  "zone \<Rightarrow> salon \<Rightarrow> master \<Rightarrow> datetime option \<Rightarrow> datetime option \<Rightarrow> time_block list result" where
  "list_my_time_blocks z db current_master date_from date_to =
     and_then (resolve_calendar_master db current_master) (\<lambda>m.
     let mine = (\<lambda>p. sort_key tb_start_at (select_where (\<lambda>t. tb_master_id t = ms_id m \<and> p t) (blocks db)))
     in case (date_from, date_to) of
          (None, None) \<Rightarrow> Inr (mine (\<lambda>_. True))
        | (Some a, Some b) \<Rightarrow> and_then (ensure_bounded_calendar_range z a b) (\<lambda>(s, e).
            Inr (mine (\<lambda>t. tb_end_at t > to_utc z s \<and> tb_start_at t < to_utc z e)))
        | _ \<Rightarrow> bad_request ''date_from and date_to must be provided together'')"

definition load_time_block :: "salon \<Rightarrow> int \<Rightarrow> time_block result" where
  "load_time_block db block_id =
     (case get (blocks db) block_id of None \<Rightarrow> not_found ''Time block not found'' | Some t \<Rightarrow> Inr t)"

definition delete_my_time_block :: "salon \<Rightarrow> master \<Rightarrow> int \<Rightarrow> salon result" where
  "delete_my_time_block db current_master block_id =
     and_then (resolve_calendar_master db current_master) (\<lambda>m.
     and_then (load_time_block db block_id) (\<lambda>t.
     and_then (forbidden_unless (tb_master_id t = ms_id m) ''Cannot delete another master's time block'') (\<lambda>_.
     Inr (db\<lparr>blocks := drop_row block_id (blocks db)\<rparr>))))"

definition admin_create_time_block ::
  "zone \<Rightarrow> salon \<Rightarrow> admin_user \<Rightarrow> int \<Rightarrow> datetime \<Rightarrow> datetime \<Rightarrow> string option \<Rightarrow> (salon \<times> time_block) result" where
  "admin_create_time_block z db u master_id start_at end_at reason =
     and_then (ensure_superuser u) (\<lambda>_.
     and_then (load_master db master_id) (\<lambda>m.
     and_then (resolve_calendar_master db m) (\<lambda>m.
     create_time_block z db (ms_id m) start_at end_at reason)))"

record time_block_update =
  tu_master_id :: "int option"
  tu_start_at :: "datetime option option"
  tu_end_at :: "datetime option option"
  tu_reason :: "string option option"

text \<open>An explicit null bound reaches \<open>normalize_datetime(None)\<close>.\<close>

definition bound_or_keep :: "datetime option option \<Rightarrow> instant \<Rightarrow> datetime result" where
  "bound_or_keep new old = (case new of None \<Rightarrow> Inr (Aware old) | Some None \<Rightarrow> Inl AttributeError
     | Some (Some t) \<Rightarrow> Inr t)"

definition admin_update_time_block ::
  "zone \<Rightarrow> salon \<Rightarrow> admin_user \<Rightarrow> int \<Rightarrow> time_block_update \<Rightarrow> (salon \<times> time_block) result" where
  "admin_update_time_block z db u block_id p =
     and_then (ensure_superuser u) (\<lambda>_.
     and_then (load_time_block db block_id) (\<lambda>t.
     and_then (case tu_master_id p of
           None \<Rightarrow> Inr (tb_master_id t)
         | Some i \<Rightarrow> and_then (load_master db i) (\<lambda>m.
             and_then (resolve_calendar_master db m) (\<lambda>m. Inr (ms_id m)))) (\<lambda>new_master_id.
     and_then (bound_or_keep (tu_start_at p) (tb_start_at t)) (\<lambda>start_at.
     and_then (bound_or_keep (tu_end_at p) (tb_end_at t)) (\<lambda>end_at.
     and_then (ensure_valid_interval z start_at end_at) (\<lambda>(s, e).
     let t = t\<lparr>tb_master_id := new_master_id, tb_start_at := to_utc z s, tb_end_at := to_utc z e,
               tb_reason := or_keep (tu_reason p) (tb_reason t)\<rparr>
     in Inr (db\<lparr>blocks := put block_id t (blocks db)\<rparr>, t)))))))"

definition admin_delete_time_block :: "salon \<Rightarrow> admin_user \<Rightarrow> int \<Rightarrow> salon result" where
  "admin_delete_time_block db u block_id =
     and_then (ensure_superuser u) (\<lambda>_.
     and_then (load_time_block db block_id) (\<lambda>_.
     Inr (db\<lparr>blocks := drop_row block_id (blocks db)\<rparr>)))"

section \<open>Availability\<close>

definition list_my_availability :: "zone \<Rightarrow> salon \<Rightarrow> master \<Rightarrow> datetime \<Rightarrow> datetime \<Rightarrow> window list result" where
  "list_my_availability z db current_master date_from date_to =
     and_then (ensure_valid_interval z date_from date_to) (\<lambda>(s, e).
     and_then (resolve_calendar_master db current_master) (\<lambda>m.
     Inr (list_availability_windows db (ms_id m) (to_utc z s) (to_utc z e))))"

definition create_my_availability_days ::
  "zone \<Rightarrow> salon \<Rightarrow> instant \<Rightarrow> master \<Rightarrow> date list \<Rightarrow> (salon \<times> window list) result" where
  "create_my_availability_days z db now current_master dates =
     and_then (resolve_calendar_master db current_master) (\<lambda>m.
     create_availability_days z db now (ms_id m) dates)"

definition create_my_availability_window ::
  "zone \<Rightarrow> salon \<Rightarrow> instant \<Rightarrow> master \<Rightarrow> datetime \<Rightarrow> datetime \<Rightarrow> (salon \<times> window) result" where
  "create_my_availability_window z db now current_master start_at end_at =
     and_then (resolve_calendar_master db current_master) (\<lambda>m.
     create_availability_window z db now (ms_id m) start_at end_at)"

definition load_window :: "salon \<Rightarrow> int \<Rightarrow> window result" where
  "load_window db window_id =
     (case get (windows db) window_id of None \<Rightarrow> not_found ''Availability window not found'' | Some w \<Rightarrow> Inr w)"

definition delete_my_availability_window :: "salon \<Rightarrow> instant \<Rightarrow> master \<Rightarrow> int \<Rightarrow> salon result" where
  "delete_my_availability_window db now current_master window_id =
     and_then (resolve_calendar_master db current_master) (\<lambda>m.
     and_then (load_window db window_id) (\<lambda>w.
     and_then (forbidden_unless (wn_master_id w = ms_id m) ''Cannot delete another master's availability'') (\<lambda>_.
     delete_availability_window db now w False)))"

definition admin_create_availability_days ::
  "zone \<Rightarrow> salon \<Rightarrow> instant \<Rightarrow> admin_user \<Rightarrow> int \<Rightarrow> date list \<Rightarrow> (salon \<times> window list) result" where
  "admin_create_availability_days z db now u master_id dates =
     and_then (ensure_superuser u) (\<lambda>_.
     and_then (load_master db master_id) (\<lambda>m.
     create_my_availability_days z db now m dates))"

definition admin_create_availability_window ::
  "zone \<Rightarrow> salon \<Rightarrow> instant \<Rightarrow> admin_user \<Rightarrow> int \<Rightarrow> datetime \<Rightarrow> datetime \<Rightarrow> (salon \<times> window) result" where
  "admin_create_availability_window z db now u master_id start_at end_at =
     and_then (ensure_superuser u) (\<lambda>_.
     and_then (load_master db master_id) (\<lambda>m.
     create_my_availability_window z db now m start_at end_at))"

definition admin_delete_availability_window :: "salon \<Rightarrow> instant \<Rightarrow> admin_user \<Rightarrow> int \<Rightarrow> salon result" where
  "admin_delete_availability_window db now u window_id =
     and_then (ensure_superuser u) (\<lambda>_.
     and_then (load_window db window_id) (\<lambda>w.
     delete_availability_window db now w True))"

section \<open>The offer of services\<close>

text \<open>
  The keys of a request; the outer \<open>None\<close> is an absent key. \<open>sync_service_text_data\<close> of
  \<^verbatim>\<open>app/schemas/booking.py\<close> fills the Ukrainian texts from the generic ones and back.
\<close>

record text_data =
  td_name :: "string option option"
  td_title_uk :: "string option option"
  td_title_en :: "string option option"
  td_description :: "string option option"
  td_description_uk :: "string option option"
  td_description_en :: "string option option"

definition missing :: "'a option option \<Rightarrow> bool" where
  "missing v = (case v of Some (Some _) \<Rightarrow> False | _ \<Rightarrow> True)"

definition sync_service_text_data :: "'z text_data_scheme \<Rightarrow> 'z text_data_scheme" where
  "sync_service_text_data d =
     (let d = (if \<not> missing (td_title_uk d) \<and> missing (td_name d) then d\<lparr>td_name := td_title_uk d\<rparr>
               else if \<not> missing (td_name d) \<and> missing (td_title_uk d) then d\<lparr>td_title_uk := td_name d\<rparr>
               else d)
      in if td_description_uk d \<noteq> None \<and> missing (td_description d)
         then d\<lparr>td_description := td_description_uk d\<rparr>
         else if td_description d \<noteq> None \<and> missing (td_description_uk d)
         then d\<lparr>td_description_uk := td_description d\<rparr>
         else d)"

record service_data = text_data +
  sd_base_service_id :: "int option option"
  sd_duration_minutes :: "int option"
  sd_price :: "int option"
  sd_is_active :: "bool option"

record service_create =
  sc_base_service_id :: "int option"
  sc_name :: "string option"
  sc_title_uk :: "string option"
  sc_title_en :: "string option"
  sc_description :: "string option"
  sc_description_uk :: "string option"
  sc_description_en :: "string option"
  sc_duration_minutes :: "int option"
  sc_price :: "int option"
  sc_is_active :: bool

definition ensure_can_manage_barber_services :: "salon \<Rightarrow> admin_user \<Rightarrow> int \<Rightarrow> master result" where
  "ensure_can_manage_barber_services db u barber_id =
     and_then (ensure_master_exists db barber_id) (\<lambda>m.
     if au_is_superuser u then Inr m
     else and_then (get_linked_master_for_user db u) (\<lambda>linked.
          and_then (forbidden_unless (ms_id linked = barber_id) ''Cannot modify another barber's services'') (\<lambda>_.
          Inr m)))"

definition get_active_base_service :: "salon \<Rightarrow> int option \<Rightarrow> base_service option result" where
  "get_active_base_service db base_service_id =
     (case base_service_id of
        None \<Rightarrow> Inr None
      | Some i \<Rightarrow> (case get (base_services db) i of
            Some bs \<Rightarrow> if bs_is_active bs then Inr (Some bs) else bad_request ''Base service not found''
          | None \<Rightarrow> bad_request ''Base service not found''))"

text \<open>\<open>scalar_one_or_none\<close> raises when it finds several rows.\<close>

definition ensure_none :: "'a list \<Rightarrow> string \<Rightarrow> unit result" where
  "ensure_none found detail =
     (case found of [] \<Rightarrow> Inr () | [_] \<Rightarrow> conflict detail | _ \<Rightarrow> Inl MultipleResultsFound)"

definition ensure_no_duplicate_barber_service ::
  "salon \<Rightarrow> int \<Rightarrow> int option \<Rightarrow> string option \<Rightarrow> int option \<Rightarrow> unit result" where
  "ensure_no_duplicate_barber_service db barber_id base_service_id name exclude_service_id =
     (let others = (\<lambda>p. select_where (\<lambda>s. sv_master_id s = barber_id \<and> p s
           \<and> exclude_service_id \<noteq> Some (sv_id s)) (services db))
      in case base_service_id of
           Some b \<Rightarrow> ensure_none (others (\<lambda>s. sv_base_service_id s = Some b))
             ''Barber service for this base service already exists''
         | None \<Rightarrow> (case name of
               None \<Rightarrow> Inr ()
             | Some n \<Rightarrow> ensure_none (others (\<lambda>s. sv_base_service_id s = None \<and> sv_name s = n))
                 ''Custom barber service with this name already exists''))"

definition ensure_barber_service_update_allowed :: "admin_user \<Rightarrow> service_data \<Rightarrow> unit result" where
  "ensure_barber_service_update_allowed u data =
     (if au_is_superuser u then Inr ()
      else forbidden_unless (sd_base_service_id data = None)
             ''Only admins can link barber services to base services'')"

definition ensure_master_service_update_allowed :: "service_data \<Rightarrow> unit result" where
  "ensure_master_service_update_allowed data =
     forbidden_unless (sd_base_service_id data = None) ''Only admins can link barber services to base services''"

definition service_payload_value :: "'v option \<Rightarrow> (base_service \<Rightarrow> 'v option) \<Rightarrow> base_service option \<Rightarrow> 'v option" where
  "service_payload_value v field base_service =
     (case v of Some x \<Rightarrow> Some x | None \<Rightarrow> (case base_service of None \<Rightarrow> None | Some bs \<Rightarrow> field bs))"

definition build_barber_service_data :: "service_create \<Rightarrow> base_service option \<Rightarrow> service_data" where
  "build_barber_service_data p bs = sync_service_text_data
     \<lparr>td_name = Some (service_payload_value (sc_name p) (\<lambda>b. Some (bs_name b)) bs),
      td_title_uk = Some (service_payload_value (sc_title_uk p) bs_title_uk bs),
      td_title_en = Some (service_payload_value (sc_title_en p) bs_title_en bs),
      td_description = Some (service_payload_value (sc_description p) bs_description bs),
      td_description_uk = Some (service_payload_value (sc_description_uk p) bs_description_uk bs),
      td_description_en = Some (service_payload_value (sc_description_en p) bs_description_en bs),
      sd_base_service_id = Some (sc_base_service_id p),
      sd_duration_minutes = service_payload_value (sc_duration_minutes p) (\<lambda>b. Some (bs_duration_minutes b)) bs,
      sd_price = service_payload_value (sc_price p) (\<lambda>b. Some (bs_price b)) bs,
      sd_is_active = Some (sc_is_active p)\<rparr>"

text \<open>The two partial unique indexes of \<open>barber_services\<close>.\<close>

definition same_offer :: "service \<Rightarrow> service \<Rightarrow> bool" where
  "same_offer s s' \<longleftrightarrow> sv_master_id s = sv_master_id s' \<and> sv_base_service_id s = sv_base_service_id s'
     \<and> (sv_base_service_id s = None \<longrightarrow> sv_name s = sv_name s')"

definition service_flush :: "service \<Rightarrow> salon \<Rightarrow> salon result" where
  "service_flush s db =
     (if select_where (\<lambda>s'. sv_id s' \<noteq> sv_id s \<and> same_offer s s') (services db) \<noteq> []
      then Inl IntegrityError else Inr (db\<lparr>services := put (sv_id s) s (services db)\<rparr>))"

text \<open>A row from complete data; a null in a required column is rejected by the flush.\<close>

definition required :: "'a option \<Rightarrow> 'a result" where
  "required v = (case v of None \<Rightarrow> Inl IntegrityError | Some x \<Rightarrow> Inr x)"

definition or_null :: "'a option option \<Rightarrow> 'a option" where
  "or_null v = (case v of None \<Rightarrow> None | Some w \<Rightarrow> w)"

definition service_of_data :: "int \<Rightarrow> int \<Rightarrow> service_data \<Rightarrow> service result" where
  "service_of_data new_id barber_id d =
     and_then (required (or_null (td_name d))) (\<lambda>name.
     and_then (required (sd_duration_minutes d)) (\<lambda>minutes.
     and_then (required (sd_price d)) (\<lambda>price.
     and_then (required (sd_is_active d)) (\<lambda>active.
     Inr \<lparr>sv_id = new_id, sv_master_id = barber_id, sv_base_service_id = or_null (sd_base_service_id d),
          sv_name = name, sv_title_uk = or_null (td_title_uk d), sv_title_en = or_null (td_title_en d),
          sv_description = or_null (td_description d), sv_description_uk = or_null (td_description_uk d),
          sv_description_en = or_null (td_description_en d), sv_duration_minutes = minutes,
          sv_price = price, sv_is_active = active\<rparr>))))"

definition create_barber_service ::
  "salon \<Rightarrow> admin_user \<Rightarrow> int \<Rightarrow> service_create \<Rightarrow> (salon \<times> service) result" where
  "create_barber_service db u barber_id p =
     and_then (ensure_can_manage_barber_services db u barber_id) (\<lambda>_.
     and_then (get_active_base_service db (sc_base_service_id p)) (\<lambda>bs.
     let data = build_barber_service_data p bs
     in and_then (ensure_no_duplicate_barber_service db barber_id (sc_base_service_id p)
            (or_null (td_name data)) None) (\<lambda>_.
        and_then (service_of_data (next_id (services db)) barber_id data) (\<lambda>s.
        and_then (service_flush s db) (\<lambda>db. Inr (db, s))))))"

text \<open>A partial update sets the present keys.\<close>

definition set_service_fields :: "service_data \<Rightarrow> service \<Rightarrow> service result" where
  "set_service_fields d s =
     and_then (not_null (td_name d) (sv_name s)) (\<lambda>name.
     Inr (s\<lparr>sv_base_service_id := or_keep (sd_base_service_id d) (sv_base_service_id s), sv_name := name,
            sv_title_uk := or_keep (td_title_uk d) (sv_title_uk s),
            sv_title_en := or_keep (td_title_en d) (sv_title_en s),
            sv_description := or_keep (td_description d) (sv_description s),
            sv_description_uk := or_keep (td_description_uk d) (sv_description_uk s),
            sv_description_en := or_keep (td_description_en d) (sv_description_en s),
            sv_duration_minutes := or_keep (sd_duration_minutes d) (sv_duration_minutes s),
            sv_price := or_keep (sd_price d) (sv_price s),
            sv_is_active := or_keep (sd_is_active d) (sv_is_active s)\<rparr>))"

definition load_barber_service :: "salon \<Rightarrow> int \<Rightarrow> int \<Rightarrow> service result" where
  "load_barber_service db barber_id service_id =
     (case get (services db) service_id of
        Some s \<Rightarrow> if sv_master_id s \<noteq> barber_id then not_found ''Service not found'' else Inr s
      | None \<Rightarrow> not_found ''Service not found'')"

definition update_barber_service ::
  "salon \<Rightarrow> admin_user \<Rightarrow> int \<Rightarrow> int \<Rightarrow> service_data \<Rightarrow> (salon \<times> service) result" where
  "update_barber_service db u barber_id service_id payload =
     and_then (ensure_can_manage_barber_services db u barber_id) (\<lambda>_.
     and_then (load_barber_service db barber_id service_id) (\<lambda>s.
     let data = sync_service_text_data payload
     in and_then (ensure_barber_service_update_allowed u data) (\<lambda>_.
        and_then (case sd_base_service_id data of None \<Rightarrow> Inr None | Some b \<Rightarrow> get_active_base_service db b) (\<lambda>_.
        and_then (ensure_no_duplicate_barber_service db barber_id
            (or_keep (sd_base_service_id data) (sv_base_service_id s))
            (or_keep (td_name data) (Some (sv_name s))) (Some (sv_id s))) (\<lambda>_.
        and_then (set_service_fields data s) (\<lambda>s.
        and_then (service_flush s db) (\<lambda>db. Inr (db, s))))))))"

definition update_my_service :: "salon \<Rightarrow> master \<Rightarrow> int \<Rightarrow> service_data \<Rightarrow> (salon \<times> service) result" where
  "update_my_service db current_master service_id payload =
     (case get (services db) service_id of
        None \<Rightarrow> not_found ''Service not found''
      | Some s \<Rightarrow>
          and_then (forbidden_unless (sv_master_id s = ms_id current_master)
              ''Cannot modify another master's service'') (\<lambda>_.
          let data = sync_service_text_data payload
          in and_then (ensure_master_service_update_allowed data) (\<lambda>_.
             and_then (ensure_no_duplicate_barber_service db (ms_id current_master) (sv_base_service_id s)
                 (or_keep (td_name data) (Some (sv_name s))) (Some (sv_id s))) (\<lambda>_.
             and_then (set_service_fields data s) (\<lambda>s.
             and_then (service_flush s db) (\<lambda>db. Inr (db, s)))))))"

definition delete_barber_service :: "salon \<Rightarrow> admin_user \<Rightarrow> int \<Rightarrow> int \<Rightarrow> salon result" where
  "delete_barber_service db u barber_id service_id =
     and_then (ensure_can_manage_barber_services db u barber_id) (\<lambda>_.
     and_then (load_barber_service db barber_id service_id) (\<lambda>s.
     Inr (db\<lparr>services := put service_id (s\<lparr>sv_is_active := False\<rparr>) (services db)\<rparr>)))"

definition admin_sync_default_barber_services :: "salon \<Rightarrow> admin_user \<Rightarrow> int \<Rightarrow> (salon \<times> int) result" where
  "admin_sync_default_barber_services db u barber_id =
     and_then (ensure_superuser u) (\<lambda>_.
     and_then (ensure_master_exists db barber_id) (\<lambda>_.
     Inr (sync_default_services_for_barber db barber_id)))"

section \<open>The base catalogue\<close>

text \<open>\<open>base_services.name\<close> is unique.\<close>

definition base_flush :: "base_service \<Rightarrow> salon \<Rightarrow> salon result" where
  "base_flush b db =
     (if select_where (\<lambda>b'. bs_id b' \<noteq> bs_id b \<and> bs_name b' = bs_name b) (base_services db) \<noteq> []
      then Inl IntegrityError else Inr (db\<lparr>base_services := put (bs_id b) b (base_services db)\<rparr>))"

definition load_base_service :: "salon \<Rightarrow> int \<Rightarrow> base_service result" where
  "load_base_service db service_id =
     (case get (base_services db) service_id of None \<Rightarrow> not_found ''Service not found'' | Some b \<Rightarrow> Inr b)"

definition admin_create_base_service :: "salon \<Rightarrow> admin_user \<Rightarrow> service_data \<Rightarrow> (salon \<times> base_service) result" where
  "admin_create_base_service db u payload =
     and_then (ensure_superuser u) (\<lambda>_.
     let d = sync_service_text_data payload
     in and_then (required (or_null (td_name d))) (\<lambda>name.
        and_then (required (sd_duration_minutes d)) (\<lambda>minutes.
        and_then (required (sd_price d)) (\<lambda>price.
        let b = \<lparr>bs_id = next_id (base_services db), bs_name = name, bs_title_uk = or_null (td_title_uk d),
              bs_title_en = or_null (td_title_en d), bs_description = or_null (td_description d),
              bs_description_uk = or_null (td_description_uk d), bs_description_en = or_null (td_description_en d),
              bs_duration_minutes = minutes, bs_price = price, bs_is_active = or_keep (sd_is_active d) True\<rparr>
        in and_then (base_flush b db) (\<lambda>db. Inr (db, b))))))"

definition admin_update_base_service ::
  "salon \<Rightarrow> admin_user \<Rightarrow> int \<Rightarrow> service_data \<Rightarrow> (salon \<times> base_service) result" where
  "admin_update_base_service db u service_id payload =
     and_then (ensure_superuser u) (\<lambda>_.
     and_then (load_base_service db service_id) (\<lambda>b.
     let d = sync_service_text_data payload
     in and_then (not_null (td_name d) (bs_name b)) (\<lambda>name.
        let b = b\<lparr>bs_name := name, bs_title_uk := or_keep (td_title_uk d) (bs_title_uk b),
              bs_title_en := or_keep (td_title_en d) (bs_title_en b),
              bs_description := or_keep (td_description d) (bs_description b),
              bs_description_uk := or_keep (td_description_uk d) (bs_description_uk b),
              bs_description_en := or_keep (td_description_en d) (bs_description_en b),
              bs_duration_minutes := or_keep (sd_duration_minutes d) (bs_duration_minutes b),
              bs_price := or_keep (sd_price d) (bs_price b), bs_is_active := or_keep (sd_is_active d) (bs_is_active b)\<rparr>
        in and_then (base_flush b db) (\<lambda>db. Inr (db, b)))))"

definition admin_delete_base_service :: "salon \<Rightarrow> admin_user \<Rightarrow> int \<Rightarrow> salon result" where
  "admin_delete_base_service db u service_id =
     and_then (ensure_superuser u) (\<lambda>_.
     and_then (load_base_service db service_id) (\<lambda>b.
     Inr (db\<lparr>base_services := put service_id (b\<lparr>bs_is_active := False\<rparr>) (base_services db)\<rparr>)))"

chapter \<open>Facts\<close>

section \<open>Redirects\<close>

definition redirects :: "salon \<Rightarrow> (int \<times> int) set" where
  "redirects db = {(i, r). \<exists>m. get (masters db) i = Some m \<and> ms_booking_redirect_master_id m = Some r}"

text \<open>A validated target does not lead back to a master seen before.\<close>

lemma redirect_walk_avoids:
  assumes "redirect_walk db seen m = Inr ()" and "has_id ms_id (masters db)"
    and "get (masters db) (ms_id m) = Some m" and "(ms_id m, j) \<in> (redirects db)\<^sup>*"
  shows "j \<notin> set seen"
  using assms
proof (induction db seen m rule: redirect_walk.induct)
  case (1 db seen m)
  have new: "ms_id m \<notin> set seen"
    using "1.prems"(1) by (simp add: redirect_walk.simps [of db seen m] split: if_splits)
  from "1.prems"(4) show ?case
  proof (cases rule: converse_rtranclE)
    case base
    with new show ?thesis by simp
  next
    case (step k)
    then have k: "ms_booking_redirect_master_id m = Some k"
      using "1.prems"(3) by (simp add: redirects_def)
    then obtain m' where m': "k \<notin> set (ms_id m # seen)" "get (masters db) k = Some m'" "ms_is_active m'"
      and walk: "redirect_walk db (ms_id m # seen) m' = Inr ()"
      using "1.prems"(1) new
      by (auto simp: redirect_walk.simps [of db seen m] split: if_splits option.splits)
    have id: "ms_id m' = k" using "1.prems"(2) m'(2) by (rule has_id_get)
    have "j \<notin> set (ms_id m # seen)"
      by (rule "1.IH" [OF new k m'(1,2) _ walk "1.prems"(2)]) (use m' id step in simp_all)
    then show ?thesis by simp
  qed
qed

lemma valid_redirect_avoids:
  assumes "ensure_booking_redirect_master_valid db (Some i) (Some r) = Inr ()" and "has_id ms_id (masters db)"
  shows "(r, i) \<notin> (redirects db)\<^sup>*"
proof -
  obtain m where m: "get (masters db) r = Some m" and walk: "redirect_walk db [i] m = Inr ()"
    using assms(1) by (auto simp: ensure_booking_redirect_master_valid_def split: if_splits option.splits)
  from has_id_get [OF assms(2) m] have "ms_id m = r" .
  with redirect_walk_avoids [OF walk assms(2), of i] m show ?thesis by auto
qed

lemma redirects_put:
  "redirects (db\<lparr>masters := put i m (masters db)\<rparr>)
    \<subseteq> (case ms_booking_redirect_master_id m of None \<Rightarrow> redirects db | Some r \<Rightarrow> insert (i, r) (redirects db))"
  by (auto simp: redirects_def get_put split: option.splits if_splits)

lemma set_master_fields_redirect:
  "set_master_fields p m = Inr m' \<Longrightarrow> ms_id m' = ms_id m
    \<and> ms_booking_redirect_master_id m' = or_keep (mu_booking_redirect_master_id p) (ms_booking_redirect_master_id m)"
  by (auto simp: set_master_fields_def and_then_eq_Inr)

lemma admin_update_master_Inr:
  assumes "admin_update_master up db now u i p = Inr db'"
  obtains m m' where "get (masters db) i = Some m" and "set_master_fields p m = Inr m'"
    and "db' = db\<lparr>masters := put (ms_id m') m' (masters db)\<rparr>"
    and "ms_booking_redirect_master_id m' = ms_booking_redirect_master_id m
      \<or> (ensure_booking_redirect_master_valid db (Some i) (ms_booking_redirect_master_id m') = Inr ()
         \<and> ensure_redirect_change_has_no_future_state db now i = Inr ())"
proof -
  obtain m where m: "get (masters db) i = Some m"
    and guard: "(case mu_booking_redirect_master_id p of
           None \<Rightarrow> Inr ()
         | Some r \<Rightarrow> if r = ms_booking_redirect_master_id m then Inr ()
                     else and_then (ensure_booking_redirect_master_valid db (Some i) r) (\<lambda>_.
                          ensure_redirect_change_has_no_future_state db now i)) = Inr ()"
    and rest: "and_then (set_master_fields p m) (\<lambda>m. master_flush m db) = Inr db'"
    using assms by (auto simp: admin_update_master_def load_master_def and_then_eq_Inr split: option.splits if_splits)
  obtain m' where m': "set_master_fields p m = Inr m'" and flush: "master_flush m' db = Inr db'"
    using rest by (auto simp: and_then_eq_Inr)
  show thesis
  proof (rule that [OF m m'])
    show "db' = db\<lparr>masters := put (ms_id m') m' (masters db)\<rparr>"
      using flush by (simp add: master_flush_def split: if_splits)
    show "ms_booking_redirect_master_id m' = ms_booking_redirect_master_id m
      \<or> (ensure_booking_redirect_master_valid db (Some i) (ms_booking_redirect_master_id m') = Inr ()
         \<and> ensure_redirect_change_has_no_future_state db now i = Inr ())"
      using guard set_master_fields_redirect [OF m']
      by (auto simp: or_keep_def and_then_eq_Inr split: option.splits if_splits)
  qed
qed

lemma admin_update_master_acyclic:
  assumes "admin_update_master up db now u i p = Inr db'"
    and "has_id ms_id (masters db)" and "acyclic (redirects db)"
  shows "has_id ms_id (masters db') \<and> acyclic (redirects db')"
  using assms(1)
proof (rule admin_update_master_Inr)
  fix m m' assume m: "get (masters db) i = Some m" and m': "set_master_fields p m = Inr m'"
    and db': "db' = db\<lparr>masters := put (ms_id m') m' (masters db)\<rparr>"
    and guard: "ms_booking_redirect_master_id m' = ms_booking_redirect_master_id m
      \<or> (ensure_booking_redirect_master_valid db (Some i) (ms_booking_redirect_master_id m') = Inr ()
         \<and> ensure_redirect_change_has_no_future_state db now i = Inr ())"
  have i: "ms_id m' = i" using set_master_fields_redirect [OF m'] has_id_get [OF assms(2) m] by simp
  have sub: "redirects db' \<subseteq> (case ms_booking_redirect_master_id m' of None \<Rightarrow> redirects db
      | Some r \<Rightarrow> insert (i, r) (redirects db))"
    unfolding db' i by (rule redirects_put)
  have "acyclic (case ms_booking_redirect_master_id m' of None \<Rightarrow> redirects db
      | Some r \<Rightarrow> insert (i, r) (redirects db))"
  proof (cases "ms_booking_redirect_master_id m'")
    case None
    with assms(3) show ?thesis by simp
  next
    case (Some r)
    from guard show ?thesis
    proof
      assume "ms_booking_redirect_master_id m' = ms_booking_redirect_master_id m"
      then have "(i, r) \<in> redirects db" using Some m by (simp add: redirects_def)
      with Some assms(3) show ?thesis by (simp add: insert_absorb)
    next
      assume "ensure_booking_redirect_master_valid db (Some i) (ms_booking_redirect_master_id m') = Inr ()
        \<and> ensure_redirect_change_has_no_future_state db now i = Inr ()"
      with Some valid_redirect_avoids [OF _ assms(2), of i r] assms(3) show ?thesis
        by (simp add: acyclic_insert)
    qed
  qed
  from acyclic_subset [OF this sub] show ?thesis
    using assms(2) i by (simp add: db' has_id_put)
qed

text \<open>The bookings a redirect sends on never meet a cycle.\<close>

lemma redirects_to_edge:
  assumes "redirects_to db m m'" and "has_id ms_id (masters db)" and "get (masters db) (ms_id m) = Some m"
  shows "(ms_id m, ms_id m') \<in> redirects db \<and> get (masters db) (ms_id m') = Some m'"
proof -
  obtain r where r: "booking_redirect m = Some r" "get_active_master_with_services db r = Inr m'"
    using assms(1) by (rule redirects_toE)
  then have m': "get (masters db) r = Some m'"
    by (auto simp: get_active_master_with_services_def split: option.splits if_splits)
  moreover have "ms_booking_redirect_master_id m = Some r"
    using r(1) by (auto simp: booking_redirect_def split: option.splits if_splits)
  ultimately show ?thesis using assms(3) has_id_get [OF assms(2) m'] by (auto simp: redirects_def)
qed

lemma redirects_to_path:
  assumes "(redirects_to db)\<^sup>+\<^sup>+ m m'" and "has_id ms_id (masters db)" and "get (masters db) (ms_id m) = Some m"
  shows "(ms_id m, ms_id m') \<in> (redirects db)\<^sup>+ \<and> get (masters db) (ms_id m') = Some m'"
  using assms(1)
proof (induction rule: tranclp_induct)
  case (base y)
  with redirects_to_edge [OF _ assms(2,3)] show ?case by blast
next
  case (step y z)
  with redirects_to_edge [OF step.hyps(2) assms(2)] show ?case by (meson trancl.trancl_into_trancl)
qed

lemma acyclic_no_cycle_error:
  assumes "has_id ms_id (masters db)" and "acyclic (redirects db)"
  shows "resolve_booking_master db i \<noteq> bad_request ''Booking redirect cycle detected''"
proof
  assume "resolve_booking_master db i = bad_request ''Booking redirect cycle detected''"
  then obtain r c where r: "get_active_master_with_services db i = Inr r"
    and rc: "(redirects_to db)\<^sup>*\<^sup>* r c" and cc: "(redirects_to db)\<^sup>+\<^sup>+ c c"
    unfolding resolve_booking_master_cycle [OF assms(1)] by blast
  have "get (masters db) i = Some r"
    using r by (auto simp: get_active_master_with_services_def split: option.splits if_splits)
  then have "get (masters db) (ms_id r) = Some r" using has_id_get [OF assms(1)] by fastforce
  then have "get (masters db) (ms_id c) = Some c"
    using rc redirects_to_path [OF _ assms(1)] by (metis rtranclpD)
  from redirects_to_path [OF cc assms(1) this] assms(2) show False by (simp add: acyclic_def)
qed

section \<open>The offer of a master\<close>

definition offer_unique :: "salon \<Rightarrow> bool" where
  "offer_unique db \<longleftrightarrow> has_id sv_id (services db)
     \<and> (\<forall>s \<in> set (rows (services db)). \<forall>s' \<in> set (rows (services db)). same_offer s s' \<longrightarrow> s = s')"

lemma ensure_none_cases:
  assumes "distinct found" and "\<And>x y. x \<in> set found \<Longrightarrow> y \<in> set found \<Longrightarrow> x = y"
  shows "ensure_none found detail = (if found = [] then Inr () else conflict detail)"
proof (cases found rule: remdups_adj.cases)
  case (3 x y xs)
  with assms(1) assms(2) [of x y] show ?thesis by auto
qed (simp_all add: ensure_none_def)

text \<open>With unique rows the check is exact and has no other error.\<close>

lemma duplicate_check:
  assumes "offer_unique db"
  shows "ensure_no_duplicate_barber_service db m base name excl =
    (if name = None \<and> base = None
        \<or> (\<forall>s \<in> set (rows (services db)). sv_master_id s = m \<and> sv_base_service_id s = base
            \<and> (base = None \<longrightarrow> Some (sv_name s) = name) \<longrightarrow> excl = Some (sv_id s))
     then Inr () else conflict (case base of None \<Rightarrow> ''Custom barber service with this name already exists''
       | Some _ \<Rightarrow> ''Barber service for this base service already exists''))"
proof -
  have one: "ensure_none (select_where (\<lambda>s. sv_master_id s = m \<and> p s \<and> excl \<noteq> Some (sv_id s)) (services db)) d =
      (if \<forall>s \<in> set (rows (services db)). sv_master_id s = m \<and> p s \<longrightarrow> excl = Some (sv_id s)
       then Inr () else conflict d)"
    if "\<And>s s'. p s \<Longrightarrow> p s' \<Longrightarrow> sv_master_id s = sv_master_id s' \<Longrightarrow> same_offer s s'" for p d
  proof -
    have "distinct (rows (services db))"
      using assms has_id_distinct by (metis distinct_map offer_unique_def)
    then have "distinct (select_where (\<lambda>s. sv_master_id s = m \<and> p s \<and> excl \<noteq> Some (sv_id s)) (services db))"
      by (simp add: select_where_def)
    moreover have "s = s'" if "s \<in> set (select_where (\<lambda>s. sv_master_id s = m \<and> p s \<and> excl \<noteq> Some (sv_id s)) (services db))"
      "s' \<in> set (select_where (\<lambda>s. sv_master_id s = m \<and> p s \<and> excl \<noteq> Some (sv_id s)) (services db))" for s s'
      using assms that \<open>\<And>s s'. p s \<Longrightarrow> p s' \<Longrightarrow> sv_master_id s = sv_master_id s' \<Longrightarrow> same_offer s s'\<close>
      by (auto simp: offer_unique_def select_where_def)
    ultimately show ?thesis
      by (subst ensure_none_cases) (auto simp: select_where_def filter_empty_conv)
  qed
  show ?thesis
  proof (cases base)
    case None
    then show ?thesis
      using one [of "\<lambda>s. sv_base_service_id s = None \<and> sv_name s = the name"]
      by (cases name) (auto simp: ensure_no_duplicate_barber_service_def same_offer_def)
  next
    case (Some b)
    then show ?thesis
      using one [of "\<lambda>s. sv_base_service_id s = Some b"]
      by (simp add: ensure_no_duplicate_barber_service_def same_offer_def)
  qed
qed

text \<open>After the check the flush of a row with these keys cannot fail.\<close>

lemma checked_flush:
  assumes "offer_unique db" and "sv_id s = i" and "excl = None \<Longrightarrow> get (services db) i = None"
    and "excl = None \<or> excl = Some i"
    and "ensure_no_duplicate_barber_service db (sv_master_id s) (sv_base_service_id s) (Some (sv_name s)) excl = Inr ()"
  shows "service_flush s db = Inr (db\<lparr>services := put i s (services db)\<rparr>)"
    and "offer_unique (db\<lparr>services := put i s (services db)\<rparr>)"
proof -
  have ids: "has_id sv_id (services db)" using assms(1) by (simp add: offer_unique_def)
  have free: "\<not> same_offer s s'" if "s' \<in> set (rows (services db))" "sv_id s' \<noteq> i" for s'
  proof
    assume "same_offer s s'"
    then have "excl = Some (sv_id s')"
      using assms(5) that(1) by (auto simp: duplicate_check [OF assms(1)] same_offer_def split: if_splits)
    with assms(4) that(2) show False by simp
  qed
  then show "service_flush s db = Inr (db\<lparr>services := put i s (services db)\<rparr>)"
    using assms(2) by (auto simp: service_flush_def select_where_def filter_empty_conv)
  have sym: "same_offer s' s \<longleftrightarrow> same_offer s s'" for s' by (auto simp: same_offer_def)
  show "offer_unique (db\<lparr>services := put i s (services db)\<rparr>)"
    using assms(1) free sym
    by (auto simp: offer_unique_def has_id_put [OF ids assms(2)] rows_put_iff [OF ids assms(2)])
qed

definition create_valid :: "service_create \<Rightarrow> bool" where
  "create_valid p \<longleftrightarrow> sc_base_service_id p \<noteq> None
     \<or> (sc_name p \<noteq> None \<and> sc_duration_minutes p \<noteq> None \<and> sc_price p \<noteq> None)"

lemma sync_service_keeps:
  "td_name d = Some (Some n) \<Longrightarrow> td_name (sync_service_text_data d) = Some (Some n)"
  "sd_base_service_id (sync_service_text_data e) = sd_base_service_id e"
  "sd_duration_minutes (sync_service_text_data e) = sd_duration_minutes e"
  "sd_price (sync_service_text_data e) = sd_price e"
  "sd_is_active (sync_service_text_data e) = sd_is_active e"
  by (simp_all add: sync_service_text_data_def Let_def missing_def)

lemma sync_name_present: "td_name d \<noteq> Some None \<Longrightarrow> td_name (sync_service_text_data d) \<noteq> Some None"
  by (auto simp: sync_service_text_data_def Let_def missing_def split: option.splits)

lemma service_of_built:
  assumes "create_valid p" and "get_active_base_service db (sc_base_service_id p) = Inr bs"
  obtains s n where "service_of_data i m (build_barber_service_data p bs) = Inr s"
    and "td_name (build_barber_service_data p bs) = Some (Some n)" and "sv_name s = n" and "sv_id s = i"
    and "sv_master_id s = m" and "sv_base_service_id s = sc_base_service_id p"
proof -
  have full: "service_payload_value (sc_name p) (\<lambda>b. Some (bs_name b)) bs \<noteq> None
    \<and> service_payload_value (sc_duration_minutes p) (\<lambda>b. Some (bs_duration_minutes b)) bs \<noteq> None
    \<and> service_payload_value (sc_price p) (\<lambda>b. Some (bs_price b)) bs \<noteq> None"
    using assms by (auto simp: create_valid_def get_active_base_service_def service_payload_value_def
        split: option.splits if_splits)
  then obtain n t q where v: "service_payload_value (sc_name p) (\<lambda>b. Some (bs_name b)) bs = Some n"
    "service_payload_value (sc_duration_minutes p) (\<lambda>b. Some (bs_duration_minutes b)) bs = Some t"
    "service_payload_value (sc_price p) (\<lambda>b. Some (bs_price b)) bs = Some q"
    by auto
  let ?d = "build_barber_service_data p bs"
  have d: "td_name ?d = Some (Some n)" "sd_base_service_id ?d = Some (sc_base_service_id p)"
    "sd_duration_minutes ?d = Some t" "sd_price ?d = Some q" "sd_is_active ?d = Some (sc_is_active p)"
    by (simp_all add: build_barber_service_data_def sync_service_keeps v)
  then show thesis
    by (intro that [of _ n]) (auto simp: service_of_data_def required_def or_null_def)
qed

lemma manage_error:
  "ensure_can_manage_barber_services db u m = Inl e \<Longrightarrow> \<exists>code detail. e = HTTPException code detail"
  by (auto simp: ensure_can_manage_barber_services_def ensure_master_exists_def get_linked_master_for_user_def
      forbidden_unless_def and_then_eq_Inl split: option.splits if_splits list.splits)

lemma base_error:
  "get_active_base_service db b = Inl e \<Longrightarrow> \<exists>code detail. e = HTTPException code detail"
  by (auto simp: get_active_base_service_def split: option.splits if_splits)

lemma create_service_unique:
  assumes "offer_unique db" and "create_valid p"
  shows "case create_barber_service db u m p of
      Inl e \<Rightarrow> e \<noteq> IntegrityError \<and> e \<noteq> MultipleResultsFound
    | Inr (db', s) \<Rightarrow> offer_unique db' \<and> get (services db) (sv_id s) = None
        \<and> db' = db\<lparr>services := put (sv_id s) s (services db)\<rparr>"
proof (cases "ensure_can_manage_barber_services db u m")
  case (Inl e)
  from manage_error [OF this] show ?thesis by (auto simp: create_barber_service_def Inl)
next
  case (Inr access)
  show ?thesis
  proof (cases "get_active_base_service db (sc_base_service_id p)")
    case (Inl e)
    from base_error [OF this] show ?thesis by (auto simp: create_barber_service_def Inr Inl)
  next
    case bs: (Inr bs)
    obtain s n where s: "service_of_data (next_id (services db)) m (build_barber_service_data p bs) = Inr s"
      "td_name (build_barber_service_data p bs) = Some (Some n)" "sv_name s = n" "sv_id s = next_id (services db)"
      "sv_master_id s = m" "sv_base_service_id s = sc_base_service_id p"
      using service_of_built [OF assms(2) bs] .
    let ?check = "ensure_no_duplicate_barber_service db m (sc_base_service_id p) (Some n) None"
    have run: "create_barber_service db u m p =
        and_then ?check (\<lambda>_. and_then (service_flush s db) (\<lambda>db. Inr (db, s)))"
      by (simp add: create_barber_service_def Inr bs s Let_def or_null_def)
    show ?thesis
    proof (cases ?check)
      case (Inl e)
      then show ?thesis by (auto simp: run duplicate_check [OF assms(1)] split: if_splits)
    next
      case (Inr v)
      then have "ensure_no_duplicate_barber_service db (sv_master_id s) (sv_base_service_id s) (Some (sv_name s)) None
          = Inr ()" by (simp add: s)
      note flush = checked_flush [OF assms(1) s(4) _ _ this]
      show ?thesis using Inr flush by (simp add: run s(4))
    qed
  qed
qed

text \<open>An update of a row the caller may change.\<close>

definition update_tail :: "salon \<Rightarrow> int \<Rightarrow> service_data \<Rightarrow> service \<Rightarrow> (salon \<times> service) result" where
  "update_tail db m data s =
     and_then (ensure_no_duplicate_barber_service db m (or_keep (sd_base_service_id data) (sv_base_service_id s))
         (or_keep (td_name data) (Some (sv_name s))) (Some (sv_id s))) (\<lambda>_.
     and_then (set_service_fields data s) (\<lambda>s.
     and_then (service_flush s db) (\<lambda>db. Inr (db, s))))"

lemma update_tail_unique:
  assumes "offer_unique db" and "get (services db) (sv_id s) = Some s" and "td_name data \<noteq> Some None"
  shows "case update_tail db (sv_master_id s) data s of
      Inl e \<Rightarrow> e \<noteq> IntegrityError \<and> e \<noteq> MultipleResultsFound
    | Inr (db', s') \<Rightarrow> offer_unique db' \<and> sv_id s' = sv_id s \<and> sv_master_id s' = sv_master_id s
        \<and> db' = db\<lparr>services := put (sv_id s) s' (services db)\<rparr>"
proof -
  obtain n where n: "or_keep (td_name data) (Some (sv_name s)) = Some n" "not_null (td_name data) (sv_name s) = Inr n"
    using assms(3) by (cases "td_name data"; cases "the (td_name data)") (auto simp: or_keep_def not_null_def)
  obtain s' where s': "set_service_fields data s = Inr s'" "sv_id s' = sv_id s" "sv_master_id s' = sv_master_id s"
    "sv_base_service_id s' = or_keep (sd_base_service_id data) (sv_base_service_id s)" "sv_name s' = n"
    by (simp add: set_service_fields_def n)
  let ?check = "ensure_no_duplicate_barber_service db (sv_master_id s) (sv_base_service_id s') (Some n) (Some (sv_id s))"
  show ?thesis
  proof (cases ?check)
    case (Inl e)
    then show ?thesis
      by (auto simp: update_tail_def n s' duplicate_check [OF assms(1)] split: if_splits)
  next
    case (Inr v)
    then have "ensure_no_duplicate_barber_service db (sv_master_id s') (sv_base_service_id s') (Some (sv_name s'))
        (Some (sv_id s)) = Inr ()" by (simp add: s')
    note flush = checked_flush [OF assms(1) s'(2) _ _ this]
    from Inr show ?thesis using flush by (simp add: update_tail_def n s' flip: s'(4))
  qed
qed

lemma update_service_unique:
  assumes "offer_unique db" and "td_name payload \<noteq> Some None"
  shows "case update_barber_service db u m i payload of
      Inl e \<Rightarrow> e \<noteq> IntegrityError \<and> e \<noteq> MultipleResultsFound
    | Inr (db', s) \<Rightarrow> offer_unique db' \<and> sv_id s = i \<and> sv_master_id s = m
        \<and> db' = db\<lparr>services := put i s (services db)\<rparr>"
proof (cases "update_barber_service db u m i payload")
  case run: (Inr res)
  let ?d = "sync_service_text_data payload"
  obtain s where s: "load_barber_service db m i = Inr s" and tail: "update_tail db m ?d s = Inr res"
    using run by (auto simp: update_barber_service_def update_tail_def Let_def and_then_eq_Inr)
  have row: "get (services db) i = Some s" "sv_master_id s = m"
    using s by (auto simp: load_barber_service_def split: option.splits if_splits)
  then have id: "sv_id s = i" using assms(1) by (auto simp: offer_unique_def intro: has_id_get)
  show ?thesis
    using update_tail_unique [OF assms(1), of s ?d] sync_name_present [OF assms(2)] tail row id run by auto
next
  case run: (Inl e)
  let ?d = "sync_service_text_data payload"
  consider "ensure_can_manage_barber_services db u m = Inl e" | "load_barber_service db m i = Inl e"
    | "ensure_barber_service_update_allowed u ?d = Inl e"
    | b where "get_active_base_service db b = Inl e"
    | s where "load_barber_service db m i = Inr s" "update_tail db m ?d s = Inl e"
    using run unfolding update_barber_service_def update_tail_def Let_def and_then_eq_Inl
    by (auto split: option.splits)
  then show ?thesis
  proof cases
    case 1 then show ?thesis using manage_error run by fastforce
  next
    case 2 then show ?thesis using run by (auto simp: load_barber_service_def split: option.splits if_splits)
  next
    case 3 then show ?thesis
      using run by (auto simp: ensure_barber_service_update_allowed_def forbidden_unless_def split: if_splits)
  next
    case 4 then show ?thesis using base_error run by fastforce
  next
    case (5 s)
    have row: "get (services db) i = Some s" "sv_master_id s = m"
      using 5 by (auto simp: load_barber_service_def split: option.splits if_splits)
    then have id: "sv_id s = i" using assms(1) by (auto simp: offer_unique_def intro: has_id_get)
    show ?thesis
      using update_tail_unique [OF assms(1), of s ?d] sync_name_present [OF assms(2)] 5(2) row id run by auto
  qed
qed

section \<open>One calendar\<close>

text \<open>Only the windows and the blocks of master \<open>i\<close> differ.\<close>

definition only_calendar :: "int \<Rightarrow> salon \<Rightarrow> salon \<Rightarrow> bool" where
  "only_calendar i db db' \<longleftrightarrow> db'\<lparr>windows := windows db, blocks := blocks db\<rparr> = db
     \<and> select_where (\<lambda>t. tb_master_id t \<noteq> i) (blocks db') = select_where (\<lambda>t. tb_master_id t \<noteq> i) (blocks db)
     \<and> select_where (\<lambda>w. wn_master_id w \<noteq> i) (windows db') = select_where (\<lambda>w. wn_master_id w \<noteq> i) (windows db)"

lemma only_calendar_refl [simp]: "only_calendar i db db"
  by (simp add: only_calendar_def)

lemma only_calendar_trans: "only_calendar i db db' \<Longrightarrow> only_calendar i db' db'' \<Longrightarrow> only_calendar i db db''"
  by (cases db; cases db'; cases db'') (simp add: only_calendar_def)

lemma rows_drop_filter: "has_id f t \<Longrightarrow> rows (drop_row i t) = filter (\<lambda>r. f r \<noteq> i) (rows t)"
proof -
  assume ok: "has_id f t"
  have key: "f r = k" if "(k, r) \<in> set t" for k r
    using ok that by (auto simp: has_id_def table_ok_def ids_def intro: map_of_is_SomeI)
  then show "rows (drop_row i t) = filter (\<lambda>r. f r \<noteq> i) (rows t)"
    unfolding rows_def drop_row_def filter_map
    by (intro arg_cong [of _ _ "map snd"] filter_cong) (auto simp: key)
qed

lemma select_where_drop:
  assumes "has_id f t" and "get t i = Some r" and "\<not> p r"
  shows "select_where p (drop_row i t) = select_where p t"
proof -
  have "f x \<noteq> i" if "x \<in> set (rows t)" "p x" for x
    using has_id_rows [OF assms(1) that(1)] assms(2,3) that(2) by auto
  then show ?thesis
    by (auto simp: select_where_def rows_drop_filter [OF assms(1)] intro!: filter_cong)
qed

lemma window_loop_only:
  assumes "availability_days_loop z now i dates intervals db ws = Inr (db', ws')"
  shows "only_calendar i db db'"
  using assms
proof (induction dates arbitrary: intervals db ws)
  case Nil
  then show ?case by simp
next
  case (Cons d dates)
  then obtain s e where rest: "availability_days_loop z now i dates (intervals @ [(s, e)])
      (db\<lparr>windows := put (next_id (windows db)) \<lparr>wn_id = next_id (windows db), wn_master_id = i,
         wn_start_at = to_utc z s, wn_end_at = to_utc z e\<rparr> (windows db)\<rparr>)
      (ws @ [\<lparr>wn_id = next_id (windows db), wn_master_id = i,
         wn_start_at = to_utc z s, wn_end_at = to_utc z e\<rparr>]) = Inr (db', ws')"
    by (auto simp: and_then_eq_Inr Let_def split: if_splits)
  from Cons.IH [OF rest] show ?case
    by (rule only_calendar_trans [rotated]) (simp add: only_calendar_def select_where_put_next)
qed

lemma create_block_only:
  "create_time_block z db i s e r = Inr (db', t) \<Longrightarrow> only_calendar i db db' \<and> tb_master_id t = i"
  by (auto simp: create_time_block_def and_then_eq_Inr Let_def only_calendar_def select_where_put_next)

lemma create_window_only:
  "create_availability_window z db now i s e = Inr (db', w) \<Longrightarrow> only_calendar i db db' \<and> wn_master_id w = i"
  by (auto simp: create_availability_window_def and_then_eq_Inr Let_def only_calendar_def select_where_put_next)

chapter \<open>Properties\<close>

definition demo_roster :: salon where
  "demo_roster = demo_open_salon\<lparr>masters := [(1, demo_master 1 None), (2, demo_master 2 (Some 1)),
     (5, demo_master 5 None)],
     blocks := [(1, \<lparr>tb_id = 1, tb_master_id = 1, tb_start_at = 0, tb_end_at = 1, tb_reason = None\<rparr>)]\<rparr>"

definition demo_boss :: admin_user where "demo_boss = \<lparr>au_id = 1, au_is_superuser = True\<rparr>"

definition demo_redirect_update :: "int \<Rightarrow> master_update" where
  "demo_redirect_update r = \<lparr>mu_full_name = None, mu_last_name = None,
     mu_booking_redirect_master_id = Some (Some r), mu_show_on_master_block = None, mu_is_active = None,
     mu_admin_user_id = None, mu_service_ids = None\<rparr>"

lemma demo_roster_ids: "has_id ms_id (masters demo_roster)" "has_id tb_id (blocks demo_roster)"
  "has_id wn_id (windows demo_roster)" "offer_unique demo_roster"
  by (auto simp: has_id_def table_ok_def ids_def demo_roster_def demo_open_salon_def demo_window_def
      demo_promo_defs offer_unique_def rows_def same_offer_def split: if_splits)

lemma demo_roster_acyclic: "acyclic (redirects demo_roster)"
proof -
  have "redirects demo_roster = {(2, 1)}"
    by (auto simp: redirects_def demo_roster_def demo_master_def split: if_splits)
  then show ?thesis by (simp add: acyclic_insert) (simp add: acyclic_def)
qed

text \<open>C22: editing a master never closes a redirect cycle: if the redirects of the salon are acyclic, they
  are acyclic after every accepted edit, and then no booking request fails with the cycle error.\<close>

theorem redirects_stay_acyclic:
  assumes "admin_update_master up db now u i p = Inr db'"
    and "has_id ms_id (masters db)" and "acyclic (redirects db)"
  shows "has_id ms_id (masters db') \<and> acyclic (redirects db')
    \<and> resolve_booking_master db' j \<noteq> bad_request ''Booking redirect cycle detected''"
  using admin_update_master_acyclic [OF assms] acyclic_no_cycle_error by blast

theorem redirects_stay_acyclic_witness:
  "\<exists>db'. admin_update_master (Inr ()) demo_roster demo_now demo_boss 5 (demo_redirect_update 2) = Inr db'
     \<and> acyclic (redirects db')"
proof -
  let ?run = "admin_update_master (Inr ()) demo_roster demo_now demo_boss 5 (demo_redirect_update 2)"
  have "case ?run of Inl e \<Rightarrow> False | Inr db' \<Rightarrow> True" by code_simp
  then obtain db' where run: "?run = Inr db'" by (cases ?run) auto
  from redirects_stay_acyclic [OF run demo_roster_ids(1) demo_roster_acyclic] run show ?thesis by blast
qed

text \<open>C29: the offer of a master never holds two services for one base service or two custom services of
  one name: the duplicate check of the create and update handlers is exact, so an accepted request
  keeps both unique indexes and a refused one is an HTTP error, never a failed flush.\<close>

theorem service_offer_stays_unique:
  assumes "offer_unique db" and "create_valid p" and "td_name payload \<noteq> Some None"
  shows "(case create_barber_service db u m p of
      Inl e \<Rightarrow> e \<noteq> IntegrityError \<and> e \<noteq> MultipleResultsFound
    | Inr (db', s) \<Rightarrow> offer_unique db' \<and> get (services db) (sv_id s) = None
        \<and> db' = db\<lparr>services := put (sv_id s) s (services db)\<rparr>)
   \<and> (case update_barber_service db u m i payload of
      Inl e \<Rightarrow> e \<noteq> IntegrityError \<and> e \<noteq> MultipleResultsFound
    | Inr (db', s) \<Rightarrow> offer_unique db' \<and> sv_id s = i \<and> sv_master_id s = m
        \<and> db' = db\<lparr>services := put i s (services db)\<rparr>)"
  using create_service_unique [OF assms(1,2)] update_service_unique [OF assms(1,3)] by blast

theorem service_offer_stays_unique_witness:
  "\<exists>db' s. create_barber_service demo_roster demo_boss 5 \<lparr>sc_base_service_id = Some 10, sc_name = None,
      sc_title_uk = None, sc_title_en = None, sc_description = None, sc_description_uk = None,
      sc_description_en = None, sc_duration_minutes = None, sc_price = Some 700, sc_is_active = True\<rparr>
    = Inr (db', s) \<and> offer_unique db' \<and> sv_price s = 700"
proof -
  define p where "p = \<lparr>sc_base_service_id = Some 10, sc_name = None,
      sc_title_uk = None, sc_title_en = None, sc_description = None, sc_description_uk = None,
      sc_description_en = None, sc_duration_minutes = None, sc_price = Some 700, sc_is_active = True\<rparr>"
  define d where "d = \<lparr>td_name = None, td_title_uk = None, td_title_en = None, td_description = None,
      td_description_uk = None, td_description_en = None, sd_base_service_id = None,
      sd_duration_minutes = None, sd_price = Some 1, sd_is_active = None\<rparr>"
  let ?run = "create_barber_service demo_roster demo_boss 5 p"
  have "case ?run of Inl e \<Rightarrow> False | Inr (db', s) \<Rightarrow> sv_price s = 700" unfolding p_def by code_simp
  then obtain db' s where run: "?run = Inr (db', s)" "sv_price s = 700" by (cases ?run) auto
  have "create_valid p" "td_name d \<noteq> Some None" by (simp_all add: create_valid_def p_def d_def)
  from service_offer_stays_unique [OF demo_roster_ids(4) this, of demo_boss 5 21] run
  show ?thesis unfolding p_def by auto
qed

text \<open>C30: a master's own calendar handlers change only the calendar of the master they resolve to: no
  window or block of anyone else and nothing else in the salon.\<close>

theorem own_calendar_only:
  assumes "resolve_calendar_master db me = Inr m"
    and "has_id tb_id (blocks db)" and "has_id wn_id (windows db)"
  shows "(create_my_time_block z db me s e r = Inr (db', t) \<longrightarrow> only_calendar (ms_id m) db db')
    \<and> (delete_my_time_block db me i = Inr db' \<longrightarrow> only_calendar (ms_id m) db db')
    \<and> (create_my_availability_days z db now me dates = Inr (db', ws) \<longrightarrow> only_calendar (ms_id m) db db')
    \<and> (create_my_availability_window z db now me s e = Inr (db', w) \<longrightarrow> only_calendar (ms_id m) db db')
    \<and> (delete_my_availability_window db now me i = Inr db' \<longrightarrow> only_calendar (ms_id m) db db')"
proof (intro conjI impI)
  show "only_calendar (ms_id m) db db'" if "create_my_time_block z db me s e r = Inr (db', t)"
    using that create_block_only by (simp add: create_my_time_block_def assms(1))
  show "only_calendar (ms_id m) db db'" if "create_my_availability_days z db now me dates = Inr (db', ws)"
    using that window_loop_only by (simp add: create_my_availability_days_def create_availability_days_def assms(1))
  show "only_calendar (ms_id m) db db'" if "create_my_availability_window z db now me s e = Inr (db', w)"
    using that create_window_only by (simp add: create_my_availability_window_def assms(1))
  show "only_calendar (ms_id m) db db'" if run: "delete_my_time_block db me i = Inr db'"
  proof -
    obtain t where "get (blocks db) i = Some t" "tb_master_id t = ms_id m"
      and db': "db' = db\<lparr>blocks := drop_row i (blocks db)\<rparr>"
      using run by (auto simp: delete_my_time_block_def assms(1) load_time_block_def forbidden_unless_def
          and_then_eq_Inr split: option.splits)
    then show ?thesis using select_where_drop [OF assms(2)] by (simp add: only_calendar_def)
  qed
  show "only_calendar (ms_id m) db db'" if run: "delete_my_availability_window db now me i = Inr db'"
  proof -
    obtain w where w: "get (windows db) i = Some w" "wn_master_id w = ms_id m"
      and db': "db' = db\<lparr>windows := drop_row (wn_id w) (windows db)\<rparr>"
      using run by (auto simp: delete_my_availability_window_def assms(1) load_window_def forbidden_unless_def
          delete_availability_window_def and_then_eq_Inr split: option.splits if_splits)
    moreover have "wn_id w = i" using assms(3) w(1) by (rule has_id_get)
    ultimately show ?thesis using select_where_drop [OF assms(3)] by (simp add: only_calendar_def)
  qed
qed

theorem own_calendar_only_witness:
  "\<exists>db'. delete_my_time_block demo_roster (demo_master 2 (Some 1)) 1 = Inr db' \<and> only_calendar 1 demo_roster db'"
proof -
  let ?run = "delete_my_time_block demo_roster (demo_master 2 (Some 1)) 1"
  have "case ?run of Inl e \<Rightarrow> False | Inr db' \<Rightarrow> True" by code_simp
  then obtain db' where run: "?run = Inr db'" by (cases ?run) auto
  have "resolve_calendar_master demo_roster (demo_master 2 (Some 1)) = Inr (demo_master 1 None)" by code_simp
  then have "only_calendar (ms_id (demo_master 1 None)) demo_roster db'"
    using own_calendar_only [OF _ demo_roster_ids(2,3)] run by blast
  with run show ?thesis by (auto simp: demo_master_def)
qed

text \<open>An explicit null bound in an update of a time block is not handled.\<close>

lemma null_bound_unhandled:
  assumes "au_is_superuser u" and "get (blocks db) i = Some t" and "tu_master_id p = None"
    and "tu_start_at p = Some None"
  shows "admin_update_time_block z db u i p = Inl AttributeError"
  using assms by (simp add: admin_update_time_block_def ensure_superuser_def forbidden_unless_def ensure_def
      load_time_block_def bound_or_keep_def)

end
