(* ===== verification/Backoffice.thy ===== *)
theory Backoffice
  imports Roster
begin

text \<open>
  Changes to a stored booking: the status and reschedule handlers of
  \<^verbatim>\<open>app/api/v1/routes/bookings.py\<close>, the customer's cancellation in
  \<^verbatim>\<open>app/services/customer_activity.py\<close>, archiving in
  \<^verbatim>\<open>app/services/booking_archive.py\<close> and the automatic completion of
  \<^verbatim>\<open>app/services/booking_completion.py\<close>; then the step relation of the whole booking desk
  and the invariant that no master is booked twice.
\<close>

section \<open>Delegates\<close>

text \<open>Services the handlers call and that are not modelled here: recipient offers and repeat visits.\<close>

record delegates =
  reserve_offer :: "salon \<Rightarrow> customer \<Rightarrow> service list \<Rightarrow> booking \<Rightarrow> booking result"
  apply_offer :: "salon \<Rightarrow> bool \<Rightarrow> service list \<Rightarrow> (int \<rightharpoonup> int) option \<Rightarrow> booking \<Rightarrow> booking result"
  validate_offer :: "salon \<Rightarrow> booking \<Rightarrow> unit result"
  sync_offer :: "salon \<Rightarrow> booking \<Rightarrow> booking_status \<Rightarrow> (salon \<times> booking) result"
  attribute_repeat :: "string \<Rightarrow> booking \<Rightarrow> salon \<Rightarrow> salon result"
  mark_repeat_visit :: "booking \<Rightarrow> salon \<Rightarrow> salon result"

text \<open>The recheck of a booking with a recipient offer only validates.\<close>

definition validated_offer :: "delegates \<Rightarrow> salon \<Rightarrow> booking \<Rightarrow> booking result" where
  "validated_offer dl db b = and_then (validate_offer dl db b) (\<lambda>_. Inr b)"

section \<open>Freed slots\<close>

record freed_slot =
  fs_master_id :: int
  fs_start_at :: instant
  fs_end_at :: instant
  fs_source_booking_id :: "int option"
  fs_source_master_id :: "int option"

definition freed_slot_snapshot :: "booking \<Rightarrow> bool \<Rightarrow> freed_slot" where
  "freed_slot_snapshot b keep_source =
     \<lparr>fs_master_id = bk_master_id b, fs_start_at = bk_start_at b, fs_end_at = bk_end_at b,
      fs_source_booking_id = (if keep_source then Some (bk_id b) else None),
      fs_source_master_id = Some (public_master_id b)\<rparr>"

text \<open>The parts of the old interval that a reschedule releases.\<close>

definition rescheduled_slots :: "freed_slot option \<Rightarrow> instant \<Rightarrow> instant \<Rightarrow> freed_slot list" where
  "rescheduled_slots original start_at end_at =
     (case original of
        None \<Rightarrow> []
      | Some f \<Rightarrow>
          map (\<lambda>(s, e). f\<lparr>fs_start_at := s, fs_end_at := e\<rparr>)
            (filter (\<lambda>(s, e). s < e)
              [(fs_start_at f, min (fs_end_at f) start_at), (max (fs_start_at f) end_at, fs_end_at f)]))"

section \<open>Guards\<close>

definition booking_belongs_to_master :: "booking \<Rightarrow> master \<Rightarrow> bool" where
  "booking_belongs_to_master b m =
     (if ms_booking_redirect_master_id m = None then bk_master_id b = ms_id m
      else bk_redirected_from_master_id b = Some (ms_id m)
        \<or> (bk_redirected_from_master_id b = None \<and> bk_master_id b = ms_id m))"

definition ensure_booking_editable :: "booking \<Rightarrow> unit result" where
  "ensure_booking_editable b =
     (if bk_status b = Completed then bad_request ''Completed bookings cannot be modified'' else Inr ())"

definition get_backoffice_master_with_services :: "salon \<Rightarrow> int \<Rightarrow> master result" where
  "get_backoffice_master_with_services db i =
     (case get (masters db) i of None \<Rightarrow> not_found ''Master not found'' | Some m \<Rightarrow> Inr m)"

definition load_booking :: "salon \<Rightarrow> int \<Rightarrow> booking result" where
  "load_booking db i =
     (case get (bookings db) i of None \<Rightarrow> not_found ''Booking not found'' | Some b \<Rightarrow> Inr b)"

definition ensure_owner :: "booking \<Rightarrow> master \<Rightarrow> string \<Rightarrow> unit result" where
  "ensure_owner b m detail = forbidden_unless (booking_belongs_to_master b m) detail"

text \<open>An administrator is a superuser or acts for the linked master.\<close>

definition ensure_admin_access :: "salon \<Rightarrow> admin_user \<Rightarrow> booking \<Rightarrow> string \<Rightarrow> unit result" where
  "ensure_admin_access db u b detail =
     (if au_is_superuser u then Inr ()
      else and_then (get_linked_master_for_user db u) (\<lambda>m. ensure_owner b m detail))"

section \<open>Status changes\<close>

text \<open>The common end of both status handlers, once access and availability are checked.\<close>

definition change_status ::
  "zone \<Rightarrow> delegates \<Rightarrow> salon \<Rightarrow> instant \<Rightarrow> booking \<Rightarrow> booking_status \<Rightarrow> (salon \<times> freed_slot option) result" where
  "change_status z dl db now b new_status =
     (let freed = (if bk_status b = Confirmed \<and> new_status = Cancelled
                   then Some (freed_slot_snapshot b True) else None)
      in and_then (sync_first_visit_status z (validated_offer dl db) (sync_offer dl) db b new_status) (\<lambda>(db, b).
         let b = apply_booking_status_update b new_status now
         in and_then (booking_flush b db) (\<lambda>db.
            and_then (if new_status = Completed then mark_repeat_visit dl b db else Inr db) (\<lambda>db.
            Inr (db, freed)))))"

definition update_my_booking_status ::
  "zone \<Rightarrow> delegates \<Rightarrow> salon \<Rightarrow> instant \<Rightarrow> master \<Rightarrow> int \<Rightarrow> booking_status \<Rightarrow> (salon \<times> freed_slot option) result" where
  "update_my_booking_status z dl db now current_master booking_id new_status =
     and_then (load_booking db booking_id) (\<lambda>b.
     and_then (ensure_owner b current_master ''Cannot modify another master's booking'') (\<lambda>_.
     and_then (ensure_booking_editable b) (\<lambda>_.
     and_then (if bk_status b \<noteq> Confirmed \<and> new_status = Confirmed
         then and_then (ensure_booking_within_availability z db now (bk_master_id b)
                  (Aware (bk_start_at b)) (Aware (bk_end_at b))) (\<lambda>_.
              ensure_slot_available db now (bk_master_id b) (bk_start_at b) (bk_end_at b) (Some (bk_id b)) None)
         else Inr ()) (\<lambda>_.
     change_status z dl db now b new_status))))"

definition admin_update_booking_status ::
  "zone \<Rightarrow> delegates \<Rightarrow> salon \<Rightarrow> instant \<Rightarrow> admin_user \<Rightarrow> int \<Rightarrow> booking_status
    \<Rightarrow> (salon \<times> freed_slot option) result" where
  "admin_update_booking_status z dl db now u booking_id new_status =
     and_then (load_booking db booking_id) (\<lambda>b.
     and_then (ensure_admin_access db u b ''Cannot update another master's booking'') (\<lambda>_.
     and_then (ensure_booking_editable b) (\<lambda>_.
     and_then (if bk_status b \<noteq> Confirmed \<and> new_status = Confirmed
         then ensure_slot_available db now (bk_master_id b) (bk_start_at b) (bk_end_at b) (Some (bk_id b)) None
         else Inr ()) (\<lambda>_.
     change_status z dl db now b new_status))))"

section \<open>Rescheduling and changing services\<close>

record booking_update =
  bu_start_at :: "datetime option"
  bu_end_at :: "datetime option"
  bu_service_ids :: "int list option"

definition add_minutes :: "datetime \<Rightarrow> int \<Rightarrow> datetime" where
  "add_minutes t n = (case t of Naive w \<Rightarrow> Naive (w + n * minute) | Aware i \<Rightarrow> Aware (i + n * minute)
     | Kyiv w \<Rightarrow> Kyiv (w + n * minute))"

definition selected_services ::
  "salon \<Rightarrow> master \<Rightarrow> booking \<Rightarrow> booking_update \<Rightarrow> service list option result" where
  "selected_services db current_master b payload =
     (case bu_service_ids payload of
        None \<Rightarrow> Inr None
      | Some sids \<Rightarrow>
          and_then (get_backoffice_master_with_services db (ms_id current_master)) (\<lambda>requested_master.
          and_then (get_backoffice_master_with_services db (bk_master_id b)) (\<lambda>booking_master.
          and_then (resolve_booking_services_for_master db requested_master booking_master sids None) (\<lambda>items.
          Inr (Some items)))))"

definition requested_interval :: "booking \<Rightarrow> 'z booking_update_scheme \<Rightarrow> service list option \<Rightarrow> datetime \<times> datetime" where
  "requested_interval b payload items =
     (let start_at = (case bu_start_at payload of Some t \<Rightarrow> t | None \<Rightarrow> Aware (bk_start_at b))
      in (start_at,
          case bu_end_at payload of
            Some t \<Rightarrow> t
          | None \<Rightarrow> (case items of
                Some ss \<Rightarrow> add_minutes start_at (sum_list (map sv_duration_minutes ss))
              | None \<Rightarrow> Aware (bk_end_at b))))"

definition reprice_services ::
  "zone \<Rightarrow> delegates \<Rightarrow> salon \<Rightarrow> booking \<Rightarrow> service list \<Rightarrow> wall \<Rightarrow> (salon \<times> booking) result" where
  "reprice_services z dl db b items start_at =
     and_then (update_booking_services db b items None) (\<lambda>(db, b).
     let prices = Some (map_of (map (\<lambda>s. (sv_id s, sv_price s)) items))
     in and_then (apply_to_booking z (apply_offer dl db True items prices) db
         (default_options\<lparr>allow_private_promotions := True, service_prices := prices, preserve_existing := True\<rparr>)
         b (Some (bk_id b)) (bk_code_snapshot b) (get_customer db (bk_customer_id b)) items (Kyiv start_at)) (\<lambda>b.
     Inr (db, b)))"

text \<open>The new slot, checked against everything but the booking itself.\<close>

definition my_reschedule ::
  "zone \<Rightarrow> salon \<Rightarrow> instant \<Rightarrow> booking \<Rightarrow> booking_update \<Rightarrow> service list option \<Rightarrow> (booking \<times> wall) result" where
  "my_reschedule z db now b payload items =
     (let (start_at, end_at) = requested_interval b payload items
      in and_then (ensure_valid_interval z start_at end_at) (\<lambda>(s, e).
         and_then (if s \<noteq> to_kyiv z (bk_start_at b) then ensure_not_past z now (Kyiv s) else Inr ()) (\<lambda>_.
         and_then (ensure_within_working_hours z (Kyiv s) (Kyiv e)) (\<lambda>_.
         and_then (ensure_booking_within_availability z db now (bk_master_id b) (Kyiv s) (Kyiv e)) (\<lambda>_.
         and_then (ensure_slot_available db now (bk_master_id b) (to_utc z s) (to_utc z e) (Some (bk_id b)) None) (\<lambda>_.
         Inr (b\<lparr>bk_start_at := to_utc z s, bk_end_at := to_utc z e\<rparr>, s)))))))"

definition update_my_booking ::
  "zone \<Rightarrow> delegates \<Rightarrow> salon \<Rightarrow> instant \<Rightarrow> master \<Rightarrow> int \<Rightarrow> booking_update \<Rightarrow> (salon \<times> freed_slot list) result" where
  "update_my_booking z dl db now current_master booking_id payload =
     and_then (load_booking db booking_id) (\<lambda>b.
     and_then (ensure_owner b current_master ''Cannot modify another master's booking'') (\<lambda>_.
     and_then (ensure_booking_editable b) (\<lambda>_.
     let original_slot = (if bk_status b = Confirmed then Some (freed_slot_snapshot b True) else None)
     in and_then (selected_services db current_master b payload) (\<lambda>items.
        and_then (my_reschedule z db now b payload items) (\<lambda>(b, s).
        and_then (case items of None \<Rightarrow> Inr (db, b) | Some ss \<Rightarrow> reprice_services z dl db b ss s) (\<lambda>(db, b).
        and_then (if bu_start_at payload \<noteq> None \<or> bu_end_at payload \<noteq> None \<or> items \<noteq> None
                  then revalidate_first_visit_booking z (validated_offer dl db) db b True False else Inr b) (\<lambda>b.
        and_then (booking_flush b db) (\<lambda>db.
        Inr (db, rescheduled_slots original_slot (bk_start_at b) (bk_end_at b))))))))))"

section \<open>The administrator's update\<close>

text \<open>
  The administrator may also set prices and the promotion. \<open>None\<close> is an absent key, \<open>Some None\<close>
  an explicit null; the schema rejects an empty list of prices and duplicate ids.
\<close>

record admin_booking_update = booking_update +
  bu_service_prices :: "(int \<times> int) list option option"
  bu_promotion_code :: "string option option"

definition requested_prices :: "admin_booking_update \<Rightarrow> (int \<times> int) list option" where
  "requested_prices p = (case bu_service_prices p of Some (Some ps) \<Rightarrow> Some ps | _ \<Rightarrow> None)"

definition promotion_requested :: "admin_booking_update \<Rightarrow> bool" where
  "promotion_requested p \<longleftrightarrow> bu_promotion_code p \<noteq> None"

definition pricing_requested :: "admin_booking_update \<Rightarrow> bool" where
  "pricing_requested p \<longleftrightarrow> bu_service_prices p \<noteq> None \<or> promotion_requested p"

definition recalculation_requested :: "admin_booking_update \<Rightarrow> bool" where
  "recalculation_requested p \<longleftrightarrow> pricing_requested p \<or> bu_service_ids p \<noteq> None"

definition schedule_requested :: "admin_booking_update \<Rightarrow> bool" where
  "schedule_requested p \<longleftrightarrow> bu_start_at p \<noteq> None \<or> bu_end_at p \<noteq> None \<or> bu_service_ids p \<noteq> None"

definition admin_selected_services ::
  "salon \<Rightarrow> booking \<Rightarrow> admin_booking_update \<Rightarrow> service list option result" where
  "admin_selected_services db b p =
     (case bu_service_ids p of
        None \<Rightarrow> Inr None
      | Some sids \<Rightarrow>
          and_then (get_active_master_with_services db (bk_master_id b)) (\<lambda>m.
          and_then (get_active_services db sids) (\<lambda>items.
          and_then (ensure_master_provides_services db m (map sv_id items)) (\<lambda>_.
          Inr (Some items)))))"

definition admin_reschedule ::
  "zone \<Rightarrow> salon \<Rightarrow> instant \<Rightarrow> admin_user \<Rightarrow> booking \<Rightarrow> admin_booking_update \<Rightarrow> service list option
    \<Rightarrow> (booking \<times> datetime) result" where
  "admin_reschedule z db now u b p items =
     (let (start_at, end_at) = requested_interval b p items
      in and_then (ensure_valid_interval z start_at end_at) (\<lambda>(s, e).
         and_then (if s \<noteq> to_kyiv z (bk_start_at b) then ensure_not_past z now (Kyiv s) else Inr ()) (\<lambda>_.
         and_then (if au_is_superuser u then ensure_within_open_business_days z (Kyiv s) (Kyiv e)
                   else and_then (ensure_within_working_hours z (Kyiv s) (Kyiv e)) (\<lambda>_.
                     ensure_booking_within_availability z db now (bk_master_id b) (Kyiv s) (Kyiv e))) (\<lambda>_.
         and_then (ensure_slot_available db now (bk_master_id b) (to_utc z s) (to_utc z e) (Some (bk_id b)) None) (\<lambda>_.
         Inr (b\<lparr>bk_start_at := to_utc z s, bk_end_at := to_utc z e\<rparr>, Kyiv s))))))"

text \<open>The property \<open>Booking.service_prices\<close>; old bookings have no items.\<close>

definition booking_service_prices :: "salon \<Rightarrow> booking \<Rightarrow> (int \<times> int) list" where
  "booking_service_prices db b =
     (if bk_service_items b \<noteq> [] then map (\<lambda>x. (si_service_id x, si_price_amount x)) (bk_service_items b)
      else [(bk_service_id b, case bk_subtotal_amount b of Some t \<Rightarrow> t
              | None \<Rightarrow> (case get (services db) (bk_service_id b) of Some s \<Rightarrow> sv_price s | None \<Rightarrow> 0))])"

text \<open>\<open>service_items_by_id[service_id].price_amount = price_amount\<close>.\<close>

fun set_item_prices :: "(int \<times> int) list \<Rightarrow> service_item list \<Rightarrow> service_item list result" where
  "set_item_prices [] items = Inr items"
| "set_item_prices ((i, price) # ps) items =
     (if i \<in> si_service_id ` set items
      then set_item_prices ps (map (\<lambda>x. if si_service_id x = i then x\<lparr>si_price_amount := price\<rparr> else x) items)
      else Inl KeyError)"

definition repricing_prices ::
  "salon \<Rightarrow> booking \<Rightarrow> admin_booking_update \<Rightarrow> service list option \<Rightarrow> service list \<Rightarrow> (int \<times> int) list result" where
  "repricing_prices db b p items pricing_services =
     (case requested_prices p of
        Some ps \<Rightarrow>
          if fst ` set ps \<noteq> sv_id ` set pricing_services
          then bad_request ''service_prices must match booking services'' else Inr ps
      | None \<Rightarrow> Inr (if items \<noteq> None then map (\<lambda>s. (sv_id s, sv_price s)) pricing_services
                     else booking_service_prices db b))"

text \<open>A manual discount survives the recalculation.\<close>

definition restore_manual_discount :: "int \<Rightarrow> booking \<Rightarrow> booking result" where
  "restore_manual_discount manual b =
     (if bk_manual_discount_amount b = manual then Inr b
      else case bk_subtotal_amount b of
             None \<Rightarrow> Inl TypeError
           | Some subtotal \<Rightarrow> Inr (b\<lparr>bk_manual_discount_amount := manual,
               bk_total_amount := Some (total_amount subtotal
                 ((case bk_promotion_discount_amount b of None \<Rightarrow> 0 | Some d \<Rightarrow> d) + manual))\<rparr>))"

definition admin_reprice ::
  "zone \<Rightarrow> delegates \<Rightarrow> salon \<Rightarrow> booking \<Rightarrow> admin_booking_update \<Rightarrow> service list option \<Rightarrow> datetime
    \<Rightarrow> booking result" where
  "admin_reprice z dl db b p items at =
     (let pricing_services = (case items of Some (s # ss) \<Rightarrow> s # ss | _ \<Rightarrow> booking_services db b)
      in if pricing_services = [] then bad_request ''Booking services are required''
         else and_then (repricing_prices db b p items pricing_services) (\<lambda>prices.
              and_then (if items = None \<and> requested_prices p \<noteq> None
                  then set_item_prices prices (bk_service_items b) else Inr (bk_service_items b)) (\<lambda>service_items.
              and_then (apply_to_booking z
                  (apply_offer dl db (\<not> promotion_requested p) pricing_services (Some (map_of prices))) db
                  (default_options\<lparr>allow_private_promotions := True, service_prices := Some (map_of prices),
                     preserve_existing := \<not> promotion_requested p, apply_automatic := \<not> promotion_requested p\<rparr>)
                  (b\<lparr>bk_service_items := service_items\<rparr>) (Some (bk_id b))
                  (case bu_promotion_code p of Some code \<Rightarrow> code | None \<Rightarrow> bk_code_snapshot b)
                  (get_customer db (bk_customer_id b)) pricing_services at) (\<lambda>b'.
              restore_manual_discount (bk_manual_discount_amount b) b'))))"

definition admin_update_services ::
  "salon \<Rightarrow> booking \<Rightarrow> admin_booking_update \<Rightarrow> service list option \<Rightarrow> (salon \<times> booking) result" where
  "admin_update_services db b p items =
     (case items of
        None \<Rightarrow> Inr (db, b)
      | Some ss \<Rightarrow> update_booking_services db b ss (map_option map_of (requested_prices p)))"

text \<open>Who may change what, and of which bookings.\<close>

definition admin_update_guard :: "salon \<Rightarrow> admin_user \<Rightarrow> booking \<Rightarrow> admin_booking_update \<Rightarrow> unit result" where
  "admin_update_guard db u b p =
     and_then (forbidden_unless (\<not> promotion_requested p \<or> au_is_superuser u)
         ''Only administrators can update booking prices and promotions'') (\<lambda>_.
     and_then (ensure_admin_access db u b ''Cannot update another master's booking'') (\<lambda>_.
     if \<not> au_is_superuser u \<or> schedule_requested p \<or> \<not> pricing_requested p
     then ensure_booking_editable b else Inr ()))"

text \<open>Services, prices and the recheck of the first visit, once the slot is set.\<close>

definition admin_settle ::
  "zone \<Rightarrow> delegates \<Rightarrow> salon \<Rightarrow> booking \<Rightarrow> admin_booking_update \<Rightarrow> service list option \<Rightarrow> datetime
    \<Rightarrow> (salon \<times> booking) result" where
  "admin_settle z dl db b p items at =
     and_then (admin_update_services db b p items) (\<lambda>(db, b).
     and_then (if recalculation_requested p then admin_reprice z dl db b p items at else Inr b) (\<lambda>b.
     and_then (if schedule_requested p
         then revalidate_first_visit_booking z (validated_offer dl db) db b True False else Inr b) (\<lambda>b.
     Inr (db, b))))"

definition admin_update_booking ::
  "zone \<Rightarrow> delegates \<Rightarrow> salon \<Rightarrow> instant \<Rightarrow> admin_user \<Rightarrow> int \<Rightarrow> admin_booking_update
    \<Rightarrow> (salon \<times> freed_slot list) result" where
  "admin_update_booking z dl db now u booking_id p =
     and_then (load_booking db booking_id) (\<lambda>b.
     let original_slot = (if bk_status b = Confirmed then Some (freed_slot_snapshot b True) else None)
     in and_then (admin_update_guard db u b p) (\<lambda>_.
        and_then (admin_selected_services db b p) (\<lambda>items.
        and_then (if schedule_requested p then admin_reschedule z db now u b p items
            else Inr (b, Aware (bk_start_at b))) (\<lambda>(b, at).
        and_then (admin_settle z dl db b p items at) (\<lambda>(db, b).
        and_then (booking_flush b db) (\<lambda>db.
        Inr (db, rescheduled_slots original_slot (bk_start_at b) (bk_end_at b))))))))"

section \<open>Cancelling and archiving\<close>

definition cancel_booking ::
  "zone \<Rightarrow> delegates \<Rightarrow> salon \<Rightarrow> instant \<Rightarrow> customer \<Rightarrow> int \<Rightarrow> (salon \<times> freed_slot) result" where
  "cancel_booking z dl db now c booking_id =
     (case get (bookings db) booking_id of
        None \<Rightarrow> not_found ''Booking not found''
      | Some b \<Rightarrow>
          if bk_customer_id b \<noteq> Some (cu_id c) then not_found ''Booking not found''
          else if bk_status b \<noteq> Confirmed then conflict ''Booking is no longer active''
          else if bk_start_at b \<le> now then conflict ''Past bookings cannot be cancelled''
          else let freed = freed_slot_snapshot b True
               in and_then (sync_first_visit_status z (validated_offer dl db) (sync_offer dl) db b Cancelled) (\<lambda>(db, b).
                  let b = b\<lparr>bk_status := Cancelled, bk_cancelled_at := Some now, bk_completed_at := None\<rparr>
                  in and_then (booking_flush b db) (\<lambda>db. Inr (db, freed))))"

text \<open>
  An archived row leaves the table of operational sessions. The customer's first visit becomes the
  earliest completed one that is left.
\<close>

definition archive_booking :: "salon \<Rightarrow> booking \<Rightarrow> salon result" where
  "archive_booking db b =
     (let db' = db\<lparr>bookings := drop_row (bk_id b) (bookings db)\<rparr>
      in case (if truthy_id (bk_customer_id b) then get_customer db (bk_customer_id b) else None) of
           None \<Rightarrow> Inr db'
         | Some c \<Rightarrow> and_then (lock_customer db c) (\<lambda>c.
             let first = max_by (\<lambda>t. - t) (map bk_end_at (select_where
                   (\<lambda>k. bk_customer_id k = Some (cu_id c) \<and> bk_status k = Completed) (bookings db')));
                 c = c\<lparr>cu_first_visit_completed_at := first\<rparr>
             in Inr (db'\<lparr>customers := put (cu_id c) c (customers db')\<rparr>)))"

text \<open>
  The delete handlers also see archived bookings, which are not in the table: \<open>archived\<close> is the
  archived row with the requested id, if there is one; deleting it again does nothing.
\<close>

definition delete_booking ::
  "salon \<Rightarrow> booking option \<Rightarrow> int \<Rightarrow> (booking \<Rightarrow> unit result) \<Rightarrow> (salon \<times> freed_slot option) result" where
  "delete_booking db archived booking_id access =
     (case get (bookings db) booking_id of
        Some b \<Rightarrow> and_then (access b) (\<lambda>_.
          and_then (archive_booking db b) (\<lambda>db.
          Inr (db, if bk_status b = Confirmed then Some (freed_slot_snapshot b False) else None)))
      | None \<Rightarrow> (case archived of
            None \<Rightarrow> not_found ''Booking not found''
          | Some b \<Rightarrow> and_then (access b) (\<lambda>_. Inr (db, None))))"

definition delete_my_booking ::
  "salon \<Rightarrow> booking option \<Rightarrow> master \<Rightarrow> int \<Rightarrow> (salon \<times> freed_slot option) result" where
  "delete_my_booking db archived current_master booking_id =
     delete_booking db archived booking_id
       (\<lambda>b. ensure_owner b current_master ''Cannot delete another master's booking'')"

definition admin_delete_booking ::
  "salon \<Rightarrow> booking option \<Rightarrow> admin_user \<Rightarrow> int \<Rightarrow> (salon \<times> freed_slot option) result" where
  "admin_delete_booking db archived u booking_id =
     delete_booking db archived booking_id
       (\<lambda>b. ensure_admin_access db u b ''Cannot delete another master's booking'')"

section \<open>Automatic completion\<close>

definition completion_bounds :: "zone \<Rightarrow> instant \<Rightarrow> date \<Rightarrow> wall \<times> wall" where
  "completion_bounds z now starts_on =
     (let local = to_kyiv z now; cutoff = date_of local * day + WORK_END;
          cutoff = (if local < cutoff then (date_of local - 1) * day + WORK_END else cutoff)
      in (starts_on * day, cutoff))"

definition completable :: "instant \<Rightarrow> instant \<Rightarrow> booking \<Rightarrow> bool" where
  "completable lower cutoff b \<longleftrightarrow> bk_status b = Confirmed \<and> lower \<le> bk_start_at b \<and> bk_end_at b \<le> cutoff"

definition complete_booking ::
  "zone \<Rightarrow> delegates \<Rightarrow> salon \<Rightarrow> booking \<Rightarrow> instant \<Rightarrow> salon result" where
  "complete_booking z dl db b completed_at =
     and_then (sync_first_visit_status z (validated_offer dl db) (sync_offer dl) db b Completed) (\<lambda>(db, b).
     let b = apply_booking_status_update b Completed completed_at
     in and_then (booking_flush b db) (\<lambda>db. mark_repeat_visit dl b db))"

text \<open>Each booking is completed in a transaction of its own; a failure is rolled back and skipped.\<close>

fun completion_loop ::
  "zone \<Rightarrow> delegates \<Rightarrow> instant \<Rightarrow> instant \<Rightarrow> instant \<Rightarrow> int list \<Rightarrow> salon \<Rightarrow> int \<Rightarrow> salon \<times> int" where
  "completion_loop z dl at lower cutoff [] db completed = (db, completed)"
| "completion_loop z dl at lower cutoff (i # is) db completed =
     (case get (bookings db) i of
        None \<Rightarrow> completion_loop z dl at lower cutoff is db completed
      | Some b \<Rightarrow>
          if \<not> completable lower cutoff b then completion_loop z dl at lower cutoff is db completed
          else case complete_booking z dl db b (at - int (length is)) of
                 Inl e \<Rightarrow> completion_loop z dl at lower cutoff is db completed
               | Inr db' \<Rightarrow> completion_loop z dl at lower cutoff is db' (completed + 1))"

definition complete_closed_workday_bookings ::
  "zone \<Rightarrow> delegates \<Rightarrow> bool \<Rightarrow> date \<Rightarrow> salon \<Rightarrow> instant \<Rightarrow> salon \<times> int" where
  "complete_closed_workday_bookings z dl enabled starts_on db now =
     (if \<not> enabled then (db, 0)
      else let (lower, cutoff) = completion_bounds z now starts_on
           in if cutoff < lower then (db, 0)
              else let due = map bk_id (sort_key (\<lambda>b. (bk_start_at b, bk_id b))
                     (select_where (completable (to_utc z lower) (to_utc z cutoff)) (bookings db)))
                   in completion_loop z dl now (to_utc z lower) (to_utc z cutoff) due db 0)"

chapter \<open>Facts\<close>

section \<open>What the services keep\<close>

text \<open>The services that are not modelled keep the slot of a booking and the table of bookings.\<close>

definition delegates_ok :: "delegates \<Rightarrow> bool" where
  "delegates_ok dl \<longleftrightarrow>
     (\<forall>db c items b b'. reserve_offer dl db c items b = Inr b' \<longrightarrow> same_slot b b')
     \<and> (\<forall>db preserve items prices b b'. apply_offer dl db preserve items prices b = Inr b' \<longrightarrow> same_slot b b')
     \<and> (\<forall>db b s db' b'. sync_offer dl db b s = Inr (db', b') \<longrightarrow> same_slot b b' \<and> bookings db' = bookings db)
     \<and> (\<forall>t b db db'. attribute_repeat dl t b db = Inr db' \<longrightarrow> bookings db' = bookings db)
     \<and> (\<forall>b db db'. mark_repeat_visit dl b db = Inr db' \<longrightarrow> bookings db' = bookings db)"

lemma same_slot_refl [simp]: "same_slot b b"
  by (simp add: same_slot_def)

lemma same_slot_trans [trans]: "same_slot a b \<Longrightarrow> same_slot b c \<Longrightarrow> same_slot a c"
  by (simp add: same_slot_def)

lemma revalidate_keeps:
  assumes "revalidate_first_visit_booking z (validated_offer dl db') db b scope re = Inr b'"
  shows "same_slot b b' \<and> bk_manual_discount_amount b' = bk_manual_discount_amount b
    \<and> bk_subtotal_amount b' = bk_subtotal_amount b \<and> bk_total_amount b' = bk_total_amount b
    \<and> bk_promotion_discount_amount b' = bk_promotion_discount_amount b"
proof -
  have "b' = b \<or> (\<exists>i. b' = b\<lparr>bk_first_visit_customer_id := i\<rparr>)"
    using assms unfolding revalidate_first_visit_booking_def
    by (auto simp: and_then_eq_Inr Let_def validated_offer_def split: if_splits option.splits)
  then show ?thesis by (auto simp: same_slot_def)
qed

lemmas revalidate_same_slot = revalidate_keeps [THEN conjunct1]

lemma sync_same_slot:
  assumes "delegates_ok dl"
    and "sync_first_visit_status z (validated_offer dl db0) (sync_offer dl) db b new_status = Inr (db', b')"
  shows "same_slot b b' \<and> bookings db' = bookings db"
proof (cases "truthy_id (bk_campaign_offer_id b)")
  case True
  with assms show ?thesis by (auto simp: sync_first_visit_status_def delegates_ok_def)
next
  case no_offer: False
  show ?thesis
  proof (cases "new_status = Cancelled \<or> new_status = No_show")
    case True
    then have "db' = db" "b' = b \<or> b' = b\<lparr>bk_first_visit_customer_id := None\<rparr>"
      using assms(2) no_offer
      by (auto simp: sync_first_visit_status_def and_then_eq_Inr split: if_splits)
    then show ?thesis by (auto simp: same_slot_def)
  next
    case not_inactive: False
    show ?thesis
    proof (cases "new_status = Completed")
      case False
      then have "db' = db" "revalidate_first_visit_booking z (validated_offer dl db0) db b True True = Inr b'"
        using assms(2) no_offer not_inactive by (auto simp: sync_first_visit_status_def and_then_eq_Inr)
      with revalidate_same_slot show ?thesis by blast
    next
      case True
      define fin where "fin = (\<lambda>c b. Inr (db\<lparr>customers := put (cu_id c) (c\<lparr>cu_first_visit_completed_at :=
          (case cu_first_visit_completed_at c of Some t \<Rightarrow> Some t | None \<Rightarrow> Some (bk_end_at b))\<rparr>) (customers db)\<rparr>, b)
          :: (salon \<times> booking) result)"
      have run: "(case (if truthy_id (bk_customer_id b) then get_customer db (bk_customer_id b) else None) of
              None \<Rightarrow> Inr (db, b)
            | Some c \<Rightarrow> and_then (lock_customer db c) (\<lambda>c.
                and_then (if bk_eligibility_snapshot b = Some First_visit
                          then revalidate_first_visit_booking z (validated_offer dl db0) db b False True else Inr b)
                  (fin c))) = Inr (db', b')"
        unfolding assms(2) [symmetric] sync_first_visit_status_def Let_def fin_def
        by (simp add: no_offer True split del: if_split cong: option.case_cong)
      have keep: "bookings db' = bookings db \<and> b' = x" if "fin c x = Inr (db', b')" for c x
        using that by (auto simp: fin_def)
      show ?thesis
      proof (cases "if truthy_id (bk_customer_id b) then get_customer db (bk_customer_id b) else None")
        case None
        with run show ?thesis by simp
      next
        case (Some c)
        with run obtain c' x where
          x: "(if bk_eligibility_snapshot b = Some First_visit
               then revalidate_first_visit_booking z (validated_offer dl db0) db b False True else Inr b) = Inr x"
          and fin: "fin c' x = Inr (db', b')"
          by (simp only: option.case and_then_eq_Inr) blast
        from x have "same_slot b x"
          using revalidate_same_slot by (auto split: if_splits)
        with keep [OF fin] show ?thesis by simp
      qed
    qed
  qed
qed

lemma booking_flush_Inr:
  "booking_flush b db = Inr db' \<Longrightarrow> db' = db\<lparr>bookings := put (bk_id b) b (bookings db)\<rparr>"
  by (simp add: booking_flush_def split: if_splits)

lemma put_put: "put i r (put i r' t) = put i r t"
  by (induction t) auto

section \<open>One booking changes\<close>

definition desk_ok :: "salon \<Rightarrow> bool" where
  "desk_ok db \<longleftrightarrow> has_id bk_id (bookings db) \<and> confirmed_disjoint db"

lemma desk_ok_bookings: "bookings db' = bookings db \<Longrightarrow> desk_ok db' \<longleftrightarrow> desk_ok db"
  by (simp add: desk_ok_def confirmed_disjoint_def)

text \<open>
  A row may be written if it is not confirmed, if it was confirmed in this slot before, or if the
  slot guard, ignoring this row, passed.
\<close>

definition slot_secured :: "salon \<Rightarrow> instant \<Rightarrow> booking \<Rightarrow> bool" where
  "slot_secured db now b \<longleftrightarrow> bk_status b = Confirmed \<longrightarrow>
     (\<exists>b'. get (bookings db) (bk_id b) = Some b' \<and> same_slot b' b)
     \<or> ensure_slot_available db now (bk_master_id b) (bk_start_at b) (bk_end_at b) (Some (bk_id b)) None = Inr ()"

lemma desk_ok_put:
  assumes "desk_ok db" and "slot_secured db now b" and "bookings db' = put (bk_id b) b (bookings db)"
  shows "desk_ok db'"
proof -
  have ids: "has_id bk_id (bookings db)" and dis: "confirmed_disjoint db"
    using assms(1) by (simp_all add: desk_ok_def)
  have "confirmed_disjoint (db\<lparr>bookings := put (bk_id b) b (bookings db)\<rparr>)"
  proof (rule confirmed_disjoint_put [OF dis ids refl])
    fix k assume b: "bk_status b = Confirmed" and k: "k \<in> set (rows (bookings db))" "bk_id k \<noteq> bk_id b"
      "bk_status k = Confirmed" "bk_master_id k = bk_master_id b"
    from assms(2) b consider b' where "get (bookings db) (bk_id b) = Some b'" "same_slot b' b"
      | "ensure_slot_available db now (bk_master_id b) (bk_start_at b) (bk_end_at b) (Some (bk_id b)) None = Inr ()"
      by (auto simp: slot_secured_def)
    then show "\<not> overlaps (bk_start_at k) (bk_end_at k) (bk_start_at b) (bk_end_at b)"
    proof cases
      case 1
      then have row: "b' \<in> set (rows (bookings db))" by (blast intro: get_in_rows)
      have "bk_id k \<noteq> bk_id b'" "bk_status b' = Confirmed" "bk_master_id k = bk_master_id b'"
        using 1(2) b k by (simp_all add: same_slot_def)
      with dis k row have "\<not> overlaps (bk_start_at k) (bk_end_at k) (bk_start_at b') (bk_end_at b')"
        unfolding confirmed_disjoint_def by blast
      with 1(2) show ?thesis by (simp add: same_slot_def)
    next
      case 2
      with k show ?thesis by (auto simp: ensure_slot_available_iff)
    qed
  qed
  then show ?thesis
    using has_id_put [OF ids refl] assms(3) by (simp add: desk_ok_def confirmed_disjoint_def)
qed

section \<open>The handlers\<close>

lemma load_booking_iff: "load_booking db i = Inr b \<longleftrightarrow> get (bookings db) i = Some b"
  by (simp add: load_booking_def split: option.splits)

text \<open>A status change rewrites one row and keeps its slot.\<close>

lemma change_status_Inr:
  assumes "change_status z dl db now b new_status = Inr (db', freed)" and "delegates_ok dl"
  obtains b' where "bookings db' = put (bk_id b) b' (bookings db)" and "bk_id b' = bk_id b"
    and "bk_status b' = new_status" and "same_slot (b\<lparr>bk_status := new_status\<rparr>) b'"
    and "freed = (if bk_status b = Confirmed \<and> new_status = Cancelled then Some (freed_slot_snapshot b True) else None)"
proof -
  obtain db1 b1 db2 where sync: "sync_first_visit_status z (validated_offer dl db) (sync_offer dl) db b new_status = Inr (db1, b1)"
    and flush: "booking_flush (apply_booking_status_update b1 new_status now) db1 = Inr db2"
    and repeat: "(if new_status = Completed then mark_repeat_visit dl (apply_booking_status_update b1 new_status now) db2
        else Inr db2) = Inr db'"
    and freed: "freed = (if bk_status b = Confirmed \<and> new_status = Cancelled then Some (freed_slot_snapshot b True) else None)"
    using assms(1) by (auto simp: change_status_def Let_def and_then_eq_Inr split: prod.splits)
  let ?b = "apply_booking_status_update b1 new_status now"
  have b1: "same_slot b b1" "bookings db1 = bookings db" using sync_same_slot [OF assms(2) sync] by simp_all
  have "bookings db' = bookings db2"
    using repeat assms(2) by (auto simp: delegates_ok_def split: if_splits)
  then have "bookings db' = put (bk_id b) ?b (bookings db)"
    using booking_flush_Inr [OF flush] b1 by (simp add: apply_booking_status_update_def same_slot_def)
  then show thesis
    by (rule that) (use b1 freed in \<open>simp_all add: apply_booking_status_update_def same_slot_def\<close>)
qed

lemma change_status_ok:
  assumes "change_status z dl db now b new_status = Inr (db', freed)" and "delegates_ok dl" and "desk_ok db"
    and "get (bookings db) (bk_id b) = Some b"
    and "(if bk_status b \<noteq> Confirmed \<and> new_status = Confirmed
      then ensure_slot_available db now (bk_master_id b) (bk_start_at b) (bk_end_at b) (Some (bk_id b)) None
      else Inr ()) = Inr ()"
  shows "desk_ok db'"
  using assms(1,2)
proof (rule change_status_Inr)
  fix b' assume b': "bookings db' = put (bk_id b) b' (bookings db)" "bk_id b' = bk_id b"
    "bk_status b' = new_status" "same_slot (b\<lparr>bk_status := new_status\<rparr>) b'"
  have "slot_secured db now b'"
    unfolding slot_secured_def
  proof
    assume "bk_status b' = Confirmed"
    then show "(\<exists>old. get (bookings db) (bk_id b') = Some old \<and> same_slot old b')
      \<or> ensure_slot_available db now (bk_master_id b') (bk_start_at b') (bk_end_at b') (Some (bk_id b')) None = Inr ()"
      using assms(4,5) b' by (cases "bk_status b = Confirmed") (auto simp: same_slot_def)
  qed
  then show "desk_ok db'" using desk_ok_put [OF assms(3)] b'(1,2) by simp
qed

lemma row_id: "desk_ok db \<Longrightarrow> get (bookings db) i = Some b \<Longrightarrow> bk_id b = i"
  by (auto simp: desk_ok_def intro: has_id_get)

lemma my_status_ok:
  assumes "update_my_booking_status z dl db now m i s = Inr (db', freed)" and "delegates_ok dl" and "desk_ok db"
  shows "desk_ok db'"
proof -
  obtain b where b: "get (bookings db) i = Some b" and run: "change_status z dl db now b s = Inr (db', freed)"
    and guard: "(if bk_status b \<noteq> Confirmed \<and> s = Confirmed
         then and_then (ensure_booking_within_availability z db now (bk_master_id b)
                  (Aware (bk_start_at b)) (Aware (bk_end_at b))) (\<lambda>_.
              ensure_slot_available db now (bk_master_id b) (bk_start_at b) (bk_end_at b) (Some (bk_id b)) None)
         else Inr ()) = Inr ()"
    using assms(1) by (auto simp: update_my_booking_status_def and_then_eq_Inr load_booking_iff)
  have "(if bk_status b \<noteq> Confirmed \<and> s = Confirmed
      then ensure_slot_available db now (bk_master_id b) (bk_start_at b) (bk_end_at b) (Some (bk_id b)) None
      else Inr ()) = Inr ()"
    using guard by (auto simp: and_then_eq_Inr split: if_splits)
  with change_status_ok [OF run assms(2,3)] b row_id [OF assms(3) b] show ?thesis by simp
qed

lemma admin_status_ok:
  assumes "admin_update_booking_status z dl db now u i s = Inr (db', freed)" and "delegates_ok dl" and "desk_ok db"
  shows "desk_ok db'"
proof -
  obtain b where b: "get (bookings db) i = Some b" and run: "change_status z dl db now b s = Inr (db', freed)"
    and guard: "(if bk_status b \<noteq> Confirmed \<and> s = Confirmed
      then ensure_slot_available db now (bk_master_id b) (bk_start_at b) (bk_end_at b) (Some (bk_id b)) None
      else Inr ()) = Inr ()"
    using assms(1) by (auto simp: admin_update_booking_status_def and_then_eq_Inr load_booking_iff)
  with change_status_ok [OF run assms(2,3) _ guard] row_id [OF assms(3) b] show ?thesis by simp
qed

text \<open>The tail of a reschedule: new services, prices and the recheck keep the new slot.\<close>

lemma update_services_slot:
  "update_booking_services db b items prices = Inr (db', b') \<Longrightarrow> same_slot b b'
    \<and> bookings db' = put (bk_id b) b' (bookings db)"
  by (auto simp: update_booking_services_def same_slot_def Let_def split: list.splits if_splits)

lemma reprice_services_slot:
  assumes "reprice_services z dl db b items s = Inr (db', b')" and "delegates_ok dl"
  obtains x where "same_slot b x" and "same_slot x b'" and "bookings db' = put (bk_id b) x (bookings db)"
proof -
  obtain x where x: "update_booking_services db b items None = Inr (db', x)"
    and price: "apply_to_booking z (apply_offer dl db' True items (Some (map_of (map (\<lambda>s. (sv_id s, sv_price s)) items)))) db'
         (default_options\<lparr>allow_private_promotions := True,
            service_prices := Some (map_of (map (\<lambda>s. (sv_id s, sv_price s)) items)),
            preserve_existing := True\<rparr>)
         x (Some (bk_id x)) (bk_code_snapshot x) (get_customer db' (bk_customer_id x)) items (Kyiv s) = Inr b'"
    using assms(1) by (auto simp: reprice_services_def and_then_eq_Inr Let_def)
  have "same_slot x b'"
    by (rule apply_same_slot [OF price]) (use assms(2) in \<open>simp add: delegates_ok_def\<close>)
  with update_services_slot [OF x] show thesis by (blast intro: that)
qed

text \<open>What both reschedules guarantee of the new slot.\<close>

definition moved_to :: "salon \<Rightarrow> instant \<Rightarrow> booking \<Rightarrow> booking \<Rightarrow> bool" where
  "moved_to db now b b' \<longleftrightarrow> (\<exists>s e. b' = b\<lparr>bk_start_at := s, bk_end_at := e\<rparr>
     \<and> ensure_slot_available db now (bk_master_id b) s e (Some (bk_id b)) None = Inr ())"

lemma my_reschedule_Inr:
  "my_reschedule z db now b p items = Inr (b', s) \<Longrightarrow> moved_to db now b b'"
  by (auto simp: my_reschedule_def moved_to_def and_then_eq_Inr split: prod.splits)

lemma zone_roundtrip: "zone_ok z \<Longrightarrow> in_hours d w \<Longrightarrow> to_kyiv z (to_utc z w) = w"
  using zone_less [of z d w "to_utc z w"] by auto

lemma my_reschedule_positive:
  assumes "my_reschedule z db now b p items = Inr (b', s)" and "zone_ok z"
  shows "bk_start_at b' < bk_end_at b'"
proof -
  obtain s e where b': "bk_start_at b' = to_utc z s" "bk_end_at b' = to_utc z e"
    and hours: "ensure_within_working_hours z (Kyiv s) (Kyiv e) = Inr ()"
    using assms(1) by (auto simp: my_reschedule_def and_then_eq_Inr split: prod.splits)
  then have s: "s < e" "in_hours (date_of s) s" "in_hours (date_of s) e" by (auto simp: within_hours_iff)
  have "to_utc z s < to_utc z e"
    using s(1) zone_less(1) [OF assms(2) s(3)] zone_roundtrip [OF assms(2) s(2)] by metis
  with b' show ?thesis by simp
qed

lemma admin_reschedule_Inr:
  "admin_reschedule z db now u b p items = Inr (b', at) \<Longrightarrow> moved_to db now b b'"
  by (auto simp: admin_reschedule_def moved_to_def and_then_eq_Inr split: prod.splits)

lemma moved_secured:
  assumes "moved_to db now b b'" and "same_slot b' c"
  shows "slot_secured db now c"
proof -
  obtain s e where b': "b' = b\<lparr>bk_start_at := s, bk_end_at := e\<rparr>"
    and slot: "ensure_slot_available db now (bk_master_id b) s e (Some (bk_id b)) None = Inr ()"
    using assms(1) by (auto simp: moved_to_def)
  have "bk_id c = bk_id b" "bk_master_id c = bk_master_id b" "bk_start_at c = s" "bk_end_at c = e"
    using assms(2) b' by (simp_all add: same_slot_def)
  with slot show ?thesis by (simp add: slot_secured_def)
qed

lemma my_update_Inr:
  assumes "update_my_booking z dl db now m i p = Inr (db', slots)" and "delegates_ok dl"
  obtains b x b' where "get (bookings db) i = Some b" and "moved_to db now b x" and "same_slot x b'"
    and "zone_ok z \<Longrightarrow> bk_start_at x < bk_end_at x" and "bookings db' = put (bk_id b) b' (bookings db)"
    and "slots = rescheduled_slots (if bk_status b = Confirmed then Some (freed_slot_snapshot b True) else None)
      (bk_start_at b') (bk_end_at b')"
proof -
  obtain b items x s db1 b1 b2 where b: "get (bookings db) i = Some b"
    and moved: "my_reschedule z db now b p items = Inr (x, s)"
    and price: "(case items of None \<Rightarrow> Inr (db, x) | Some ss \<Rightarrow> reprice_services z dl db x ss s) = Inr (db1, b1)"
    and recheck: "(if bu_start_at p \<noteq> None \<or> bu_end_at p \<noteq> None \<or> items \<noteq> None
                   then revalidate_first_visit_booking z (validated_offer dl db1) db1 b1 True False else Inr b1) = Inr b2"
    and flush: "booking_flush b2 db1 = Inr db'"
    and slots: "slots = rescheduled_slots (if bk_status b = Confirmed then Some (freed_slot_snapshot b True) else None)
      (bk_start_at b2) (bk_end_at b2)"
    using assms(1)
    unfolding update_my_booking_def Let_def and_then_eq_Inr load_booking_iff split_def
    by (simp only: prod.collapse sum.inject prod.inject) (metis prod.collapse)
  have id: "bk_id x = bk_id b" using my_reschedule_Inr [OF moved] by (auto simp: moved_to_def)
  have b1: "same_slot x b1 \<and> (bookings db1 = bookings db \<or> (\<exists>y. bookings db1 = put (bk_id b) y (bookings db)))"
  proof (cases items)
    case None
    with price show ?thesis by auto
  next
    case (Some ss)
    with price have "reprice_services z dl db x ss s = Inr (db1, b1)" by simp
    then show ?thesis
      using assms(2) by (rule reprice_services_slot) (auto intro: same_slot_trans simp: id)
  qed
  have b2: "same_slot x b2"
    using recheck b1 revalidate_same_slot by (auto split: if_splits intro: same_slot_trans)
  have "bookings db' = put (bk_id b) b2 (bookings db)"
    using booking_flush_Inr [OF flush] b2 b1 id by (auto simp: same_slot_def put_put)
  with that [OF b my_reschedule_Inr [OF moved] b2 my_reschedule_positive [OF moved]] slots show thesis by blast
qed

lemma my_update_ok:
  assumes "update_my_booking z dl db now m i p = Inr (db', slots)" and "delegates_ok dl" and "desk_ok db"
  shows "desk_ok db'"
  using assms(1,2)
proof (rule my_update_Inr)
  fix b x b' assume b: "get (bookings db) i = Some b" "moved_to db now b x" "same_slot x b'"
    "bookings db' = put (bk_id b) b' (bookings db)"
  then have "bk_id b' = bk_id b" by (auto simp: moved_to_def same_slot_def)
  with desk_ok_put [OF assms(3) moved_secured [OF b(2,3)]] b(4) show "desk_ok db'" by simp
qed

lemma restore_manual_Inr:
  "restore_manual_discount n b = Inr b' \<Longrightarrow> same_slot b b' \<and> bk_manual_discount_amount b' = n"
  by (auto simp: restore_manual_discount_def same_slot_def split: if_splits option.splits)

lemma admin_reprice_Inr:
  assumes "admin_reprice z dl db b p items at = Inr b'" and "delegates_ok dl"
  shows "same_slot b b' \<and> bk_manual_discount_amount b' = bk_manual_discount_amount b"
proof -
  obtain prices xs pricing y where
    price: "apply_to_booking z (apply_offer dl db (\<not> promotion_requested p) pricing (Some (map_of prices))) db
        (default_options\<lparr>allow_private_promotions := True, service_prices := Some (map_of prices),
           preserve_existing := \<not> promotion_requested p, apply_automatic := \<not> promotion_requested p\<rparr>)
        (b\<lparr>bk_service_items := xs\<rparr>) (Some (bk_id b))
        (case bu_promotion_code p of Some code \<Rightarrow> code | None \<Rightarrow> bk_code_snapshot b)
        (get_customer db (bk_customer_id b)) pricing at = Inr y"
    and keep: "restore_manual_discount (bk_manual_discount_amount b) y = Inr b'"
    using assms(1) unfolding admin_reprice_def Let_def if_Inl_eq_Inr and_then_eq_Inr by blast
  have "same_slot (b\<lparr>bk_service_items := xs\<rparr>) y"
    by (rule apply_same_slot [OF price]) (use assms(2) in \<open>simp add: delegates_ok_def\<close>)
  with restore_manual_Inr [OF keep] show ?thesis by (auto simp: same_slot_def)
qed

text \<open>The total is what is left of the subtotal after both discounts.\<close>

definition amounts_settled :: "booking \<Rightarrow> bool" where
  "amounts_settled b \<longleftrightarrow> (\<exists>s d. bk_subtotal_amount b = Some s \<and> bk_promotion_discount_amount b = Some d
     \<and> bk_total_amount b = Some (total_amount s (d + bk_manual_discount_amount b)))"

lemma admin_reprice_amounts:
  assumes "admin_reprice z dl db b p items at = Inr b'" and "\<not> truthy_id (bk_campaign_offer_id b)"
  shows "amounts_settled b'"
proof -
  let ?opts = "\<lambda>prices. default_options\<lparr>allow_private_promotions := True, service_prices := Some (map_of prices),
    preserve_existing := \<not> promotion_requested p, apply_automatic := \<not> promotion_requested p\<rparr>"
  obtain prices xs pricing y where
    price: "apply_to_booking z (apply_offer dl db (\<not> promotion_requested p) pricing (Some (map_of prices))) db
        (?opts prices) (b\<lparr>bk_service_items := xs\<rparr>) (Some (bk_id b))
        (case bu_promotion_code p of Some code \<Rightarrow> code | None \<Rightarrow> bk_code_snapshot b)
        (get_customer db (bk_customer_id b)) pricing at = Inr y"
    and keep: "restore_manual_discount (bk_manual_discount_amount b) y = Inr b'"
    using assms(1) unfolding admin_reprice_def Let_def if_Inl_eq_Inr and_then_eq_Inr by blast
  have "no_campaign (?opts prices) (b\<lparr>bk_service_items := xs\<rparr>)"
    using assms(2) by (simp add: no_campaign_def truthy_text_def default_options_def)
  with price obtain q c ex where
    "price_booking (?opts prices) ex (is_first_visit ex (b\<lparr>bk_service_items := xs\<rparr>) q) q c pricing
      (b\<lparr>bk_service_items := xs\<rparr>) = Inr y"
    by (rule apply_to_booking_Inr)
  from price_booking_amounts [OF this] have "amounts_settled y" by (simp add: amounts_settled_def)
  with keep show ?thesis
    by (auto simp: restore_manual_discount_def amounts_settled_def split: if_splits option.splits)
qed

lemma admin_settle_Inr:
  assumes "admin_settle z dl db x p items at = Inr (db', b')" and "delegates_ok dl"
  shows "same_slot x b' \<and> bk_manual_discount_amount b' = bk_manual_discount_amount x
    \<and> (bookings db' = bookings db \<or> (\<exists>w. bookings db' = put (bk_id x) w (bookings db)))
    \<and> (recalculation_requested p \<and> \<not> truthy_id (bk_campaign_offer_id x) \<longrightarrow> amounts_settled b')"
proof -
  obtain y v where items: "admin_update_services db x p items = Inr (db', y)"
    and price: "(if recalculation_requested p then admin_reprice z dl db' y p items at else Inr y) = Inr v"
    and recheck: "(if schedule_requested p
            then revalidate_first_visit_booking z (validated_offer dl db') db' v True False else Inr v) = Inr b'"
    using assms(1) by (auto simp: admin_settle_def and_then_eq_Inr)
  have "same_slot x y \<and> bk_manual_discount_amount y = bk_manual_discount_amount x
      \<and> bk_campaign_offer_id y = bk_campaign_offer_id x
      \<and> (bookings db' = bookings db \<or> (\<exists>w. bookings db' = put (bk_id x) w (bookings db)))"
    using items by (auto simp: admin_update_services_def update_booking_services_def same_slot_def Let_def
        split: option.splits list.splits if_splits)
  moreover have "same_slot y v \<and> bk_manual_discount_amount v = bk_manual_discount_amount y"
    using price admin_reprice_Inr [OF _ assms(2)] by (auto split: if_splits)
  moreover have "same_slot v b' \<and> bk_manual_discount_amount b' = bk_manual_discount_amount v
      \<and> (amounts_settled v \<longrightarrow> amounts_settled b')"
    using recheck revalidate_keeps by (auto split: if_splits simp: amounts_settled_def)
  moreover have "amounts_settled v" if "recalculation_requested p" "\<not> truthy_id (bk_campaign_offer_id y)"
    using price that admin_reprice_amounts by simp
  ultimately show ?thesis by (auto intro: same_slot_trans)
qed

lemma admin_update_Inr:
  assumes "admin_update_booking z dl db now u i p = Inr (db', slots)" and "delegates_ok dl"
  obtains b x b' where "get (bookings db) i = Some b"
    and "if schedule_requested p then moved_to db now b x else x = b" and "same_slot x b'"
    and "bookings db' = put (bk_id b) b' (bookings db)"
    and "bk_manual_discount_amount b' = bk_manual_discount_amount b"
    and "recalculation_requested p \<Longrightarrow> \<not> truthy_id (bk_campaign_offer_id b) \<Longrightarrow> amounts_settled b'"
    and "slots = rescheduled_slots (if bk_status b = Confirmed then Some (freed_slot_snapshot b True) else None)
      (bk_start_at b') (bk_end_at b')"
proof -
  obtain b items x at db1 b' where b: "get (bookings db) i = Some b"
    and moved: "(if schedule_requested p then admin_reschedule z db now u b p items
            else Inr (b, Aware (bk_start_at b))) = Inr (x, at)"
    and settle: "admin_settle z dl db x p items at = Inr (db1, b')"
    and flush: "booking_flush b' db1 = Inr db'"
    and slots: "slots = rescheduled_slots (if bk_status b = Confirmed then Some (freed_slot_snapshot b True) else None)
      (bk_start_at b') (bk_end_at b')"
    using assms(1)
    unfolding admin_update_booking_def Let_def and_then_eq_Inr load_booking_iff split_def
    by (simp only: prod.collapse sum.inject prod.inject) (metis prod.collapse)
  have x: "if schedule_requested p then moved_to db now b x else x = b"
    using moved admin_reschedule_Inr by (auto split: if_splits)
  then have frame: "bk_id x = bk_id b" "bk_manual_discount_amount x = bk_manual_discount_amount b"
    "bk_campaign_offer_id x = bk_campaign_offer_id b"
    by (auto simp: moved_to_def split: if_splits)
  note settled = admin_settle_Inr [OF settle assms(2)]
  have "bookings db' = put (bk_id b) b' (bookings db)"
    using booking_flush_Inr [OF flush] settled frame by (auto simp: same_slot_def put_put)
  then show thesis by (rule that [OF b x _ _ _ _ slots, rotated]) (use settled frame in simp_all)
qed

lemma admin_update_ok:
  assumes "admin_update_booking z dl db now u i p = Inr (db', slots)" and "delegates_ok dl" and "desk_ok db"
  shows "desk_ok db'"
  using assms(1,2)
proof (rule admin_update_Inr)
  fix b x b' assume b: "get (bookings db) i = Some b" "same_slot x b'" "bookings db' = put (bk_id b) b' (bookings db)"
    and x: "if schedule_requested p then moved_to db now b x else x = b"
  have id: "bk_id b' = bk_id b" using x b(2) by (auto simp: moved_to_def same_slot_def split: if_splits)
  have "slot_secured db now b'"
  proof (cases "schedule_requested p")
    case True
    with x moved_secured [OF _ b(2)] show ?thesis by simp
  next
    case False
    with x b(1,2) id row_id [OF assms(3) b(1)] show ?thesis by (auto simp: slot_secured_def)
  qed
  from desk_ok_put [OF assms(3) this] b(3) id show "desk_ok db'" by simp
qed

section \<open>Cancelling, archiving, completing\<close>

lemma cancel_ok:
  assumes "cancel_booking z dl db now c i = Inr (db', freed)" and "delegates_ok dl" and "desk_ok db"
  shows "desk_ok db'"
proof -
  obtain b db1 b1 where b: "get (bookings db) i = Some b"
    and sync: "sync_first_visit_status z (validated_offer dl db) (sync_offer dl) db b Cancelled = Inr (db1, b1)"
    and flush: "booking_flush (b1\<lparr>bk_status := Cancelled, bk_cancelled_at := Some now, bk_completed_at := None\<rparr>) db1
      = Inr db'"
    using assms(1) by (auto simp: cancel_booking_def and_then_eq_Inr Let_def split: option.splits if_splits)
  let ?b = "b1\<lparr>bk_status := Cancelled, bk_cancelled_at := Some now, bk_completed_at := None\<rparr>"
  have "bookings db' = put (bk_id ?b) ?b (bookings db)"
    using booking_flush_Inr [OF flush] sync_same_slot [OF assms(2) sync] by simp
  moreover have "slot_secured db now ?b" by (simp add: slot_secured_def)
  ultimately show ?thesis using desk_ok_put [OF assms(3)] by blast
qed

lemma desk_ok_drop: "desk_ok db \<Longrightarrow> bookings db' = drop_row i (bookings db) \<Longrightarrow> desk_ok db'"
  using rows_drop_row [of i "bookings db"] has_id_drop_row [of bk_id "bookings db" i]
  unfolding desk_ok_def confirmed_disjoint_def by (simp, blast)

lemma archive_booking_Inr:
  "archive_booking db b = Inr db' \<Longrightarrow> bookings db' = drop_row (bk_id b) (bookings db)"
  by (auto simp: archive_booking_def Let_def and_then_eq_Inr split: option.splits if_splits)

lemma delete_ok:
  assumes "delete_booking db archived i access = Inr (db', freed)" and "desk_ok db"
  shows "desk_ok db'"
  using assms archive_booking_Inr desk_ok_drop
  by (fastforce simp: delete_booking_def and_then_eq_Inr split: option.splits)

text \<open>Completing a due booking changes nothing but that row.\<close>

lemma complete_booking_Inr:
  assumes "complete_booking z dl db b at = Inr db'" and "delegates_ok dl"
  obtains b' where "bookings db' = put (bk_id b) b' (bookings db)" and "bk_id b' = bk_id b"
    and "bk_completed_at b' = Some at" and "same_slot (b\<lparr>bk_status := Completed\<rparr>) b'"
proof -
  obtain db1 b1 db2 where sync: "sync_first_visit_status z (validated_offer dl db) (sync_offer dl) db b Completed = Inr (db1, b1)"
    and flush: "booking_flush (apply_booking_status_update b1 Completed at) db1 = Inr db2"
    and repeat: "mark_repeat_visit dl (apply_booking_status_update b1 Completed at) db2 = Inr db'"
    using assms(1) by (auto simp: complete_booking_def Let_def and_then_eq_Inr)
  have b1: "same_slot b b1" "bookings db1 = bookings db" using sync_same_slot [OF assms(2) sync] by simp_all
  have "bookings db' = bookings db2" using repeat assms(2) by (auto simp: delegates_ok_def)
  then have "bookings db' = put (bk_id b) (apply_booking_status_update b1 Completed at) (bookings db)"
    using booking_flush_Inr [OF flush] b1 by (simp add: apply_booking_status_update_def same_slot_def)
  then show thesis
    by (rule that) (use b1 in \<open>simp_all add: apply_booking_status_update_def same_slot_def\<close>)
qed

text \<open>What the completion may do to the row of one booking.\<close>

definition completed_from :: "instant \<Rightarrow> instant \<Rightarrow> booking option \<Rightarrow> booking option \<Rightarrow> bool" where
  "completed_from lower cutoff old new \<longleftrightarrow> new = old
     \<or> (\<exists>b b'. old = Some b \<and> new = Some b' \<and> completable lower cutoff b
          \<and> same_slot (b\<lparr>bk_status := Completed\<rparr>) b')"

lemma completed_not_completable:
  "completed_from lower cutoff old new \<Longrightarrow> new \<noteq> old \<Longrightarrow> new = Some b \<Longrightarrow> \<not> completable lower cutoff b"
  by (auto simp: completed_from_def completable_def same_slot_def)

lemma completion_loop_frame:
  assumes "completion_loop z dl at lower cutoff is db n = (db', n')" and "delegates_ok dl" and "desk_ok db"
  shows "desk_ok db' \<and> (\<forall>i. completed_from lower cutoff (get (bookings db) i) (get (bookings db') i))
    \<and> (\<forall>i. i \<notin> set is \<longrightarrow> get (bookings db') i = get (bookings db) i)"
  using assms(1,3)
proof (induction "is" arbitrary: db n)
  case Nil
  then show ?case by (auto simp: completed_from_def)
next
  case (Cons j js)
  show ?case
  proof (cases "get (bookings db) j")
    case None
    with Cons.IH Cons.prems show ?thesis by simp
  next
    case (Some b)
    have id: "bk_id b = j" by (rule row_id [OF Cons.prems(2) Some])
    show ?thesis
    proof (cases "completable lower cutoff b")
      case False
      with Some Cons.IH Cons.prems show ?thesis by simp
    next
      case due: True
      show ?thesis
      proof (cases "complete_booking z dl db b (at - int (length js))")
        case (Inl e)
        with Some due Cons.IH Cons.prems show ?thesis by simp
      next
        case (Inr db1)
        obtain b' where b': "bookings db1 = put (bk_id b) b' (bookings db)" "bk_id b' = bk_id b"
          "same_slot (b\<lparr>bk_status := Completed\<rparr>) b'"
          using complete_booking_Inr [OF Inr assms(2)] by blast
        have ok: "desk_ok db1"
          by (rule desk_ok_put [OF Cons.prems(2), of at b'])
            (use b' in \<open>simp_all add: slot_secured_def same_slot_def\<close>)
        have run: "completion_loop z dl at lower cutoff js db1 (n + 1) = (db', n')"
          using Cons.prems(1) Some due Inr by simp
        note rest = Cons.IH [OF run ok]
        have step: "completed_from lower cutoff (get (bookings db) i) (get (bookings db1) i)" for i
          using Some due b' id by (auto simp: completed_from_def get_put)
        have "completed_from lower cutoff (get (bookings db) i) (get (bookings db') i)" for i
        proof (cases "i = j")
          case True
          have "get (bookings db1) j = Some b'" "\<not> completable lower cutoff b'"
            using b' id by (simp_all add: completable_def same_slot_def)
          then have "get (bookings db') j = Some b'"
            using rest by (metis completed_from_def option.inject)
          with True \<open>get (bookings db1) j = Some b'\<close> step [of j] show ?thesis by simp
        next
          case False
          then have "get (bookings db1) i = get (bookings db) i" using b' id by (simp add: get_put)
          with rest show ?thesis by metis
        qed
        moreover have "get (bookings db') i = get (bookings db) i" if "i \<notin> set (j # js)" for i
          using that rest b'(1) id by (simp add: get_put)
        ultimately show ?thesis using rest by blast
      qed
    qed
  qed
qed

section \<open>The steps of the desk\<close>

text \<open>Every request that writes bookings, windows or blocks, and the completion job.\<close>

inductive desk_step :: "zone \<Rightarrow> delegates \<Rightarrow> salon \<Rightarrow> salon \<Rightarrow> bool" for z dl where
  book: "create_public_booking z (reserve_offer dl) (attribute_repeat dl) db now opts payload = Inr (db', b)
    \<Longrightarrow> desk_step z dl db db'"
| my_status: "update_my_booking_status z dl db now m i s = Inr (db', freed) \<Longrightarrow> desk_step z dl db db'"
| admin_status: "admin_update_booking_status z dl db now u i s = Inr (db', freed) \<Longrightarrow> desk_step z dl db db'"
| my_update: "update_my_booking z dl db now m i p = Inr (db', slots) \<Longrightarrow> desk_step z dl db db'"
| admin_update: "admin_update_booking z dl db now u i ap = Inr (db', slots) \<Longrightarrow> desk_step z dl db db'"
| my_delete: "delete_my_booking db archived m i = Inr (db', freed) \<Longrightarrow> desk_step z dl db db'"
| admin_delete: "admin_delete_booking db archived u i = Inr (db', freed) \<Longrightarrow> desk_step z dl db db'"
| cancel: "cancel_booking z dl db now c i = Inr (db', fs) \<Longrightarrow> desk_step z dl db db'"
| complete: "complete_closed_workday_bookings z dl enabled starts_on db now = (db', n) \<Longrightarrow> desk_step z dl db db'"
| block: "create_my_time_block z db m s e r = Inr (db', t) \<Longrightarrow> desk_step z dl db db'"
| admin_block: "admin_create_time_block z db u i s e r = Inr (db', t) \<Longrightarrow> desk_step z dl db db'"
| move_block: "admin_update_time_block z db u i tp = Inr (db', t) \<Longrightarrow> desk_step z dl db db'"
| unblock: "delete_my_time_block db m i = Inr db' \<Longrightarrow> desk_step z dl db db'"
| admin_unblock: "admin_delete_time_block db u i = Inr db' \<Longrightarrow> desk_step z dl db db'"
| open_days: "create_my_availability_days z db now m ds = Inr (db', ws) \<Longrightarrow> desk_step z dl db db'"
| admin_open_days: "admin_create_availability_days z db now u i ds = Inr (db', ws) \<Longrightarrow> desk_step z dl db db'"
| open_window: "create_my_availability_window z db now m s e = Inr (db', w) \<Longrightarrow> desk_step z dl db db'"
| admin_open_window: "admin_create_availability_window z db now u i s e = Inr (db', w) \<Longrightarrow> desk_step z dl db db'"
| close_window: "delete_my_availability_window db now m i = Inr db' \<Longrightarrow> desk_step z dl db db'"
| admin_close_window: "admin_delete_availability_window db now u i = Inr db' \<Longrightarrow> desk_step z dl db db'"
| edit_master: "admin_update_master up db now u i mp = Inr db' \<Longrightarrow> desk_step z dl db db'"

lemma only_calendar_bookings: "only_calendar i db db' \<Longrightarrow> bookings db' = bookings db"
  unfolding only_calendar_def by (cases db; cases db') simp

text \<open>The calendar handlers leave the bookings alone.\<close>

lemma calendar_bookings:
  "create_my_time_block z db m s e r = Inr (db', t) \<Longrightarrow> bookings db' = bookings db"
  "admin_create_time_block z db u i s e r = Inr (db', t) \<Longrightarrow> bookings db' = bookings db"
  "create_my_availability_days z db now m ds = Inr (db', ws) \<Longrightarrow> bookings db' = bookings db"
  "admin_create_availability_days z db now u i ds = Inr (db', ws) \<Longrightarrow> bookings db' = bookings db"
  "create_my_availability_window z db now m s' e' = Inr (db', w) \<Longrightarrow> bookings db' = bookings db"
  "admin_create_availability_window z db now u i s' e' = Inr (db', w) \<Longrightarrow> bookings db' = bookings db"
  subgoal using create_block_only only_calendar_bookings by (simp add: create_my_time_block_def and_then_eq_Inr) blast
  subgoal using create_block_only only_calendar_bookings by (simp add: admin_create_time_block_def and_then_eq_Inr) blast
  subgoal using window_loop_only only_calendar_bookings
    by (simp add: create_my_availability_days_def create_availability_days_def and_then_eq_Inr) blast
  subgoal using window_loop_only only_calendar_bookings
    by (simp add: admin_create_availability_days_def create_my_availability_days_def create_availability_days_def
        and_then_eq_Inr) blast
  subgoal using create_window_only only_calendar_bookings
    by (simp add: create_my_availability_window_def and_then_eq_Inr) blast
  subgoal using create_window_only only_calendar_bookings
    by (simp add: admin_create_availability_window_def create_my_availability_window_def and_then_eq_Inr) blast
  done

lemma desk_step_ok:
  assumes "desk_step z dl db db'" and "delegates_ok dl" and "desk_ok db"
  shows "desk_ok db'"
  using assms(1)
proof cases
  case (book now opts payload b)
  then show ?thesis
    using create_public_booking_disjoint [OF book] assms(2,3) by (simp add: desk_ok_def delegates_ok_def)
next
  case (my_status now m i s freed) then show ?thesis using my_status_ok assms(2,3) by blast
next
  case (admin_status now u i s freed) then show ?thesis using admin_status_ok assms(2,3) by blast
next
  case (my_update now m i p slots) then show ?thesis using my_update_ok assms(2,3) by blast
next
  case (admin_update now u i ap slots) then show ?thesis using admin_update_ok assms(2,3) by blast
next
  case (my_delete archived m i freed) then show ?thesis using delete_ok assms(3) by (simp add: delete_my_booking_def)
next
  case (admin_delete archived u i freed) then show ?thesis using delete_ok assms(3) by (simp add: admin_delete_booking_def)
next
  case (cancel now c i fs) then show ?thesis using cancel_ok assms(2,3) by blast
next
  case (complete enabled starts_on now n)
  then show ?thesis using completion_loop_frame [OF _ assms(2,3)] assms(3)
    by (auto simp: complete_closed_workday_bookings_def Let_def split: if_splits prod.splits)
next
  case (block m s e r t)
  with calendar_bookings(1) desk_ok_bookings assms(3) show ?thesis by metis
next
  case (admin_block u i s e r t)
  with calendar_bookings(2) desk_ok_bookings assms(3) show ?thesis by metis
next
  case (move_block u i tp t)
  then have "bookings db' = bookings db"
    by (auto simp: admin_update_time_block_def and_then_eq_Inr Let_def)
  then show ?thesis using desk_ok_bookings assms(3) by blast
next
  case (unblock m i)
  then have "bookings db' = bookings db" by (auto simp: delete_my_time_block_def and_then_eq_Inr)
  then show ?thesis using desk_ok_bookings assms(3) by blast
next
  case (admin_unblock u i)
  then have "bookings db' = bookings db" by (auto simp: admin_delete_time_block_def and_then_eq_Inr)
  then show ?thesis using desk_ok_bookings assms(3) by blast
next
  case (open_days now m ds ws)
  with calendar_bookings(3) desk_ok_bookings assms(3) show ?thesis by metis
next
  case (admin_open_days now u i ds ws)
  with calendar_bookings(4) desk_ok_bookings assms(3) show ?thesis by metis
next
  case (open_window now m s e w)
  with calendar_bookings(5) desk_ok_bookings assms(3) show ?thesis by metis
next
  case (admin_open_window now u i s e w)
  with calendar_bookings(6) desk_ok_bookings assms(3) show ?thesis by metis
next
  case (close_window now m i)
  then have "bookings db' = bookings db"
    by (auto simp: delete_my_availability_window_def delete_availability_window_def and_then_eq_Inr split: if_splits)
  then show ?thesis using desk_ok_bookings assms(3) by blast
next
  case (admin_close_window now u i)
  then have "bookings db' = bookings db"
    by (auto simp: admin_delete_availability_window_def delete_availability_window_def and_then_eq_Inr split: if_splits)
  then show ?thesis using desk_ok_bookings assms(3) by blast
next
  case (edit_master up now u i mp)
  then have "bookings db' = bookings db" by (rule admin_update_master_Inr) simp
  then show ?thesis using desk_ok_bookings assms(3) by blast
qed

lemma desk_reachable_ok:
  assumes "(desk_step z dl)\<^sup>*\<^sup>* db db'" and "delegates_ok dl" and "desk_ok db"
  shows "desk_ok db'"
  using assms(1)
proof (induction rule: rtranclp_induct)
  case base
  show ?case by (rule assms(3))
next
  case (step y z)
  then show ?case using desk_step_ok assms(2) by blast
qed

section \<open>Freed time\<close>

lemma rescheduled_slots_cover:
  assumes "s < e"
  shows "(\<exists>f \<in> set (rescheduled_slots (Some old) s e). fs_start_at f \<le> t \<and> t < fs_end_at f) \<longleftrightarrow>
    fs_start_at old \<le> t \<and> t < fs_end_at old \<and> \<not> (s \<le> t \<and> t < e)"
proof -
  have "(\<exists>f \<in> set (rescheduled_slots (Some old) s e). fs_start_at f \<le> t \<and> t < fs_end_at f) \<longleftrightarrow>
    (fs_start_at old \<le> t \<and> t < min (fs_end_at old) s) \<or> (max (fs_start_at old) e \<le> t \<and> t < fs_end_at old)"
    by (auto simp: rescheduled_slots_def)
  with assms show ?thesis by auto
qed

lemma my_update_freed:
  assumes "update_my_booking z dl db now m i p = Inr (db', slots)" and "delegates_ok dl" and "zone_ok z"
    and "get (bookings db) i = Some b" and "desk_ok db" and "get (bookings db') i = Some b'"
  shows "(\<exists>f \<in> set slots. fs_start_at f \<le> t \<and> t < fs_end_at f) \<longleftrightarrow>
      bk_status b = Confirmed \<and> bk_start_at b \<le> t \<and> t < bk_end_at b
      \<and> \<not> (bk_start_at b' \<le> t \<and> t < bk_end_at b')"
  using assms(1,2)
proof (rule my_update_Inr)
  fix c x c' assume c: "get (bookings db) i = Some c" "same_slot x c'" "bookings db' = put (bk_id c) c' (bookings db)"
    and pos: "zone_ok z \<Longrightarrow> bk_start_at x < bk_end_at x"
    and slots: "slots = rescheduled_slots (if bk_status c = Confirmed then Some (freed_slot_snapshot c True) else None)
      (bk_start_at c') (bk_end_at c')"
  have eq: "c = b" "c' = b'"
    using c assms(4,6) row_id [OF assms(5) c(1)] by auto
  have "bk_start_at b' < bk_end_at b'" using pos assms(3) c(2) eq by (simp add: same_slot_def)
  from rescheduled_slots_cover [OF this, of "freed_slot_snapshot b True" t] show ?thesis
    using slots eq by (auto simp: freed_slot_snapshot_def rescheduled_slots_def)
qed

section \<open>The completion job\<close>

lemma completion_bounds_past:
  assumes "completion_bounds z now starts_on = (lower, cutoff)" and "zone_ok z"
  shows "to_utc z cutoff \<le> now"
proof -
  define today where "today = date_of (to_kyiv z now)"
  define d where "d = (if to_kyiv z now < today * day + WORK_END then today - 1 else today)"
  have d: "cutoff = d * day + WORK_END"
    using assms(1) by (auto simp: completion_bounds_def Let_def d_def today_def split: if_splits)
  have le: "cutoff \<le> to_kyiv z now"
    using assms(1) by (auto simp: completion_bounds_def Let_def time_consts date_of_def split: if_splits)
  have "in_hours d cutoff" by (simp add: d in_hours_def day_bounds_def time_consts)
  from zone_less(1) [OF assms(2) this, of now] le show ?thesis by simp
qed

chapter \<open>Properties\<close>

definition demo_delegates :: delegates where
  "demo_delegates = \<lparr>reserve_offer = (\<lambda>db c items b. Inl KeyError),
     apply_offer = (\<lambda>db preserve items prices b. Inl KeyError), validate_offer = (\<lambda>db b. Inl KeyError),
     sync_offer = (\<lambda>db b s. Inl KeyError), attribute_repeat = (\<lambda>t b db. Inr db),
     mark_repeat_visit = (\<lambda>b db. Inr db)\<rparr>"

definition demo_move :: booking_update where
  "demo_move = \<lparr>bu_start_at = Some (Kyiv (demo_day * day + WORK_START + 2 * SLOT_STEP)),
     bu_end_at = Some (Kyiv (demo_day * day + WORK_START + 6 * SLOT_STEP)), bu_service_ids = None\<rparr>"

definition demo_reprice :: admin_booking_update where
  "demo_reprice = \<lparr>bu_start_at = None, bu_end_at = None, bu_service_ids = None,
     bu_service_prices = Some (Some [(21, 400)]), bu_promotion_code = Some None\<rparr>"

definition demo_discounted :: salon where
  "demo_discounted = demo_open_salon\<lparr>bookings := [(1, demo_taken\<lparr>bk_manual_discount_amount := 50,
     bk_service_items := [\<lparr>si_service_id = 21, si_position = 0, si_price_amount = 500\<rparr>]\<rparr>)]\<rparr>"

lemma demo_delegates_ok: "delegates_ok demo_delegates"
  by (simp add: delegates_ok_def demo_delegates_def)

lemma demo_desk_ok: "desk_ok demo_open_salon" "desk_ok demo_discounted"
  by (simp_all add: desk_ok_def has_id_def table_ok_def ids_def rows_def confirmed_disjoint_def
      demo_discounted_def demo_open_salon_def demo_taken_def demo_booking_def)

text \<open>No master is ever booked twice: from a salon in which the confirmed bookings of each master are
  disjoint, no sequence of bookings, status changes, reschedules, cancellations, deletions,
  completions and calendar edits reaches one in which two of them overlap.\<close>

theorem no_double_booking:
  assumes "(desk_step z dl)\<^sup>*\<^sup>* db db'" and "delegates_ok dl" and "desk_ok db"
    and "get (bookings db') i = Some b" and "get (bookings db') j = Some c" and "i \<noteq> j"
    and "bk_status b = Confirmed" and "bk_status c = Confirmed" and "bk_master_id b = bk_master_id c"
  shows "bk_end_at b \<le> bk_start_at c \<or> bk_end_at c \<le> bk_start_at b"
proof -
  have ok: "desk_ok db'" by (rule desk_reachable_ok [OF assms(1-3)])
  have "bk_id b \<noteq> bk_id c" using row_id [OF ok] assms(4-6) by metis
  then have "\<not> overlaps (bk_start_at b) (bk_end_at b) (bk_start_at c) (bk_end_at c)"
    using ok assms(4-9) get_in_rows unfolding desk_ok_def confirmed_disjoint_def by metis
  then show ?thesis by (auto simp: overlaps_def)
qed

theorem no_double_booking_witness:
  "\<exists>db' b c. (desk_step winter_zone demo_delegates)\<^sup>*\<^sup>* demo_open_salon db'
     \<and> get (bookings db') 1 = Some b \<and> get (bookings db') 2 = Some c \<and> bk_status c = Confirmed
     \<and> (bk_end_at b \<le> bk_start_at c \<or> bk_end_at c \<le> bk_start_at b)"
proof -
  define run where "run = create_public_booking winter_zone (reserve_offer demo_delegates)
      (attribute_repeat demo_delegates) demo_open_salon demo_now public_options demo_payload"
  have two: "case run of Inl e \<Rightarrow> False | Inr (db', x) \<Rightarrow> (case get (bookings db') 1 of None \<Rightarrow> False | Some b \<Rightarrow>
      (case get (bookings db') 2 of None \<Rightarrow> False | Some c \<Rightarrow>
        bk_status b = Confirmed \<and> bk_status c = Confirmed \<and> bk_master_id b = 1 \<and> bk_master_id c = 1))"
    unfolding run_def by code_simp
  obtain db' x where run: "run = Inr (db', x)"
    using two by (cases run) auto
  obtain b c where rows: "get (bookings db') 1 = Some b" "get (bookings db') 2 = Some c"
    and bc: "bk_status b = Confirmed" "bk_status c = Confirmed" "bk_master_id b = 1" "bk_master_id c = 1"
    using two unfolding run sum.case prod.case by (cases "get (bookings db') 1"; cases "get (bookings db') 2") simp_all
  have steps: "(desk_step winter_zone demo_delegates)\<^sup>*\<^sup>* demo_open_salon db'"
    using desk_step.book [OF run [unfolded run_def]] by blast
  have "bk_end_at b \<le> bk_start_at c \<or> bk_end_at c \<le> bk_start_at b"
    by (rule no_double_booking [OF steps demo_delegates_ok demo_desk_ok(1) rows _ bc(1,2)]) (simp_all add: bc)
  with steps rows bc show ?thesis by blast
qed

text \<open>C26: a reschedule offers exactly the time it frees: a moment lies in one of the slots passed to the
  waitlist iff the booking was confirmed and occupied it before and does not occupy it now.\<close>

theorem reschedule_frees_exactly:
  assumes "update_my_booking z dl db now m i p = Inr (db', slots)" and "delegates_ok dl" and "zone_ok z"
    and "get (bookings db) i = Some b" and "desk_ok db" and "get (bookings db') i = Some b'"
  shows "(\<exists>f \<in> set slots. fs_start_at f \<le> t \<and> t < fs_end_at f) \<longleftrightarrow>
      bk_status b = Confirmed \<and> bk_start_at b \<le> t \<and> t < bk_end_at b
      \<and> \<not> (bk_start_at b' \<le> t \<and> t < bk_end_at b')"
  by (rule my_update_freed [OF assms])

theorem reschedule_frees_exactly_witness:
  "\<exists>db' slots. update_my_booking winter_zone demo_delegates demo_open_salon demo_now (demo_master 1 None) 1 demo_move
     = Inr (db', slots) \<and> (\<exists>f \<in> set slots. fs_start_at f \<le> bk_start_at demo_taken \<and> bk_start_at demo_taken < fs_end_at f)"
proof -
  let ?run = "update_my_booking winter_zone demo_delegates demo_open_salon demo_now (demo_master 1 None) 1 demo_move"
  have "case ?run of Inl e \<Rightarrow> False | Inr (db', slots) \<Rightarrow> (case get (bookings db') 1 of None \<Rightarrow> False
      | Some b' \<Rightarrow> bk_start_at demo_taken < bk_start_at b')"
    by code_simp
  then obtain db' slots b' where run: "?run = Inr (db', slots)" and b': "get (bookings db') 1 = Some b'"
    "bk_start_at demo_taken < bk_start_at b'"
    by (cases ?run) (auto split: option.splits)
  have b: "get (bookings demo_open_salon) 1 = Some demo_taken" by (simp add: demo_open_salon_def)
  have "bk_status demo_taken = Confirmed" "bk_start_at demo_taken < bk_end_at demo_taken"
    by (simp_all add: demo_taken_def demo_booking_def winter_zone_def time_consts)
  with reschedule_frees_exactly [OF run demo_delegates_ok winter_zone_ok b demo_desk_ok(1) b'(1),
      of "bk_start_at demo_taken"] b' run
  show ?thesis by auto
qed

text \<open>C28: the administrator's update keeps the manual discount, and whenever it recalculates a booking
  without a recipient offer the stored total is the subtotal less both discounts, never below zero.\<close>

theorem manual_discount_survives:
  assumes "admin_update_booking z dl db now u i p = Inr (db', slots)" and "delegates_ok dl" and "desk_ok db"
    and "get (bookings db) i = Some b" and "get (bookings db') i = Some b'"
  shows "bk_manual_discount_amount b' = bk_manual_discount_amount b
    \<and> (recalculation_requested p \<and> \<not> truthy_id (bk_campaign_offer_id b) \<longrightarrow> (\<exists>s d.
         bk_subtotal_amount b' = Some s \<and> bk_promotion_discount_amount b' = Some d
         \<and> bk_total_amount b' = Some (max (s - (d + bk_manual_discount_amount b)) 0)))"
  using assms(1,2)
proof (rule admin_update_Inr)
  fix c x c' assume c: "get (bookings db) i = Some c" "bookings db' = put (bk_id c) c' (bookings db)"
    "bk_manual_discount_amount c' = bk_manual_discount_amount c"
    and settled: "recalculation_requested p \<Longrightarrow> \<not> truthy_id (bk_campaign_offer_id c) \<Longrightarrow> amounts_settled c'"
  have "c = b" "c' = b'" using c assms(4,5) row_id [OF assms(3) c(1)] by auto
  with c(3) settled show ?thesis by (auto simp: amounts_settled_def total_amount_def)
qed

theorem manual_discount_survives_witness:
  "\<exists>db' slots b'. admin_update_booking winter_zone demo_delegates demo_discounted demo_now demo_boss 1 demo_reprice
     = Inr (db', slots) \<and> get (bookings db') 1 = Some b' \<and> bk_manual_discount_amount b' = 50
     \<and> bk_total_amount b' = Some 350"
proof -
  let ?run = "admin_update_booking winter_zone demo_delegates demo_discounted demo_now demo_boss 1 demo_reprice"
  have "case ?run of Inl e \<Rightarrow> False | Inr (db', slots) \<Rightarrow> (case get (bookings db') 1 of None \<Rightarrow> False
      | Some b' \<Rightarrow> bk_subtotal_amount b' = Some 400 \<and> bk_promotion_discount_amount b' = Some 0)"
    by code_simp
  then obtain db' slots b' where run: "?run = Inr (db', slots)" and b': "get (bookings db') 1 = Some b'"
    "bk_subtotal_amount b' = Some 400" "bk_promotion_discount_amount b' = Some 0"
    by (cases ?run) (auto split: option.splits)
  define b where "b = demo_taken\<lparr>bk_manual_discount_amount := 50,
     bk_service_items := [\<lparr>si_service_id = 21, si_position = 0, si_price_amount = 500\<rparr>]\<rparr>"
  have b: "get (bookings demo_discounted) 1 = Some b" by (simp add: demo_discounted_def b_def)
  have "recalculation_requested demo_reprice" "\<not> truthy_id (bk_campaign_offer_id b)" "bk_manual_discount_amount b = 50"
    by (simp_all add: recalculation_requested_def pricing_requested_def demo_reprice_def b_def demo_taken_def
        demo_booking_def truthy_id_def)
  with manual_discount_survives [OF run demo_delegates_ok demo_desk_ok(2) b b'(1)] b' run show ?thesis by auto
qed

text \<open>C27: the automatic completion only closes finished visits: every booking it changes was confirmed,
  began on or after the start date and had ended by the current time; its slot stays, its status
  becomes completed, and every other booking is untouched.\<close>

theorem completion_only_finished:
  assumes "complete_closed_workday_bookings z dl enabled starts_on db now = (db', n)"
    and "delegates_ok dl" and "desk_ok db" and "zone_ok z"
    and "get (bookings db') i \<noteq> get (bookings db) i"
  shows "\<exists>b b'. get (bookings db) i = Some b \<and> get (bookings db') i = Some b' \<and> bk_status b = Confirmed
    \<and> to_utc z (starts_on * day) \<le> bk_start_at b \<and> bk_end_at b \<le> now \<and> bk_status b' = Completed
    \<and> bk_master_id b' = bk_master_id b \<and> bk_start_at b' = bk_start_at b \<and> bk_end_at b' = bk_end_at b"
proof -
  obtain lower cutoff where bounds: "completion_bounds z now starts_on = (lower, cutoff)"
    by (cases "completion_bounds z now starts_on")
  have lower: "lower = starts_on * day"
    using bounds by (auto simp: completion_bounds_def Let_def)
  have "completed_from (to_utc z lower) (to_utc z cutoff) (get (bookings db) i) (get (bookings db') i)"
    using assms(1) completion_loop_frame [OF _ assms(2,3)]
    by (auto simp: complete_closed_workday_bookings_def bounds Let_def completed_from_def split: if_splits)
  then obtain b b' where "get (bookings db) i = Some b" "get (bookings db') i = Some b'"
    "completable (to_utc z lower) (to_utc z cutoff) b" "same_slot (b\<lparr>bk_status := Completed\<rparr>) b'"
    using assms(5) by (auto simp: completed_from_def)
  with completion_bounds_past [OF bounds assms(4)] lower show ?thesis
    by (auto simp: completable_def same_slot_def)
qed

theorem completion_only_finished_witness:
  "\<exists>db'. complete_closed_workday_bookings winter_zone demo_delegates True 0 demo_open_salon (demo_now + 2 * day) = (db', 1)
     \<and> (\<exists>b'. get (bookings db') 1 = Some b' \<and> bk_status b' = Completed)"
proof -
  let ?run = "complete_closed_workday_bookings winter_zone demo_delegates True 0 demo_open_salon (demo_now + 2 * day)"
  have run1: "case ?run of (db', n) \<Rightarrow> n = 1 \<and> (case get (bookings db') 1 of None \<Rightarrow> False
      | Some b' \<Rightarrow> bk_completed_at b' \<noteq> None)"
    by code_simp
  obtain db' n where run: "?run = (db', n)" by (cases ?run)
  have old: "get (bookings demo_open_salon) 1 = Some demo_taken" "bk_completed_at demo_taken = None"
    by (simp_all add: demo_open_salon_def demo_taken_def demo_booking_def)
  have n: "n = 1" and "get (bookings db') 1 \<noteq> get (bookings demo_open_salon) 1"
    using run1 run old by (auto split: option.splits)
  from completion_only_finished [OF run demo_delegates_ok demo_desk_ok(1) winter_zone_ok this(2)] run n
  show ?thesis by auto
qed

end
