(* ===== verification/Waitlist.thy ===== *)
theory Waitlist
  imports Backoffice
begin

text \<open>
  The waiting list: joining, leaving and expiry of a request in
  \<^verbatim>\<open>app/services/waitlist.py\<close>, and the matching of a request with a free slot in
  \<^verbatim>\<open>app/services/waitlist_offers.py\<close>. A keyed digest (\<open>hmac\<close>) is a function of the
  environment; nothing is assumed of it.
\<close>

section \<open>Settings\<close>

text \<open>Quiet hours are minutes since midnight, as their \<open>HH:MM\<close> texts are read.\<close>

record waitlist_env =
  we_zone :: zone
  we_digest :: "string \<Rightarrow> string"
  we_hold_minutes :: int
  we_frequency_minutes :: int
  we_quiet_from :: int
  we_quiet_to :: int
  we_expiry_days :: int
  we_smsclub :: bool

section \<open>Joining the list\<close>

record waitlist_payload =
  wp_customer_name :: string
  wp_customer_phone :: string
  wp_service_ids :: "int list"
  wp_preferred_master_id :: "int option"
  wp_desired_date :: date
  wp_acceptable_date_from :: "date option"
  wp_acceptable_date_to :: "date option"
  wp_preferred_time_from :: "int option"
  wp_preferred_time_to :: "int option"
  wp_duration_minutes :: "int option"
  wp_notification_consent :: bool

definition ordered_bounds :: "('a :: linorder \<Rightarrow> 'a \<Rightarrow> bool) \<Rightarrow> 'a option \<Rightarrow> 'a option \<Rightarrow> bool" where
  "ordered_bounds le lo hi = (case (lo, hi) of (Some a, Some b) \<Rightarrow> le a b | _ \<Rightarrow> True)"

text \<open>\<open>s.split()\<close>, with the word read so far, and \<open>sep.join(xs)\<close>.\<close>

fun split_words :: "string \<Rightarrow> string \<Rightarrow> string list" where
  "split_words w [] = (if w = [] then [] else [w])"
| "split_words w (c # cs) =
     (if is_space c then (if w = [] then [] else [w]) @ split_words [] cs else split_words (w @ [c]) cs)"

fun join_text :: "string \<Rightarrow> string list \<Rightarrow> string" where
  "join_text sep [] = []"
| "join_text sep [x] = x"
| "join_text sep (x # y # zs) = x @ sep @ join_text sep (y # zs)"

text \<open>
  The validators of the schema; a failure is a 422 before the handler runs. The handler sees the
  name with its words separated by single spaces, so the payload here has a name of that form.
\<close>

definition valid_waitlist_payload :: "waitlist_payload \<Rightarrow> bool" where
  "valid_waitlist_payload p \<longleftrightarrow>
     join_text '' '' (split_words [] (wp_customer_name p)) = wp_customer_name p
     \<and> 2 \<le> length (wp_customer_name p) \<and> length (wp_customer_name p) \<le> 255
     \<and> 5 \<le> length (wp_customer_phone p) \<and> length (wp_customer_phone p) \<le> 50
     \<and> 1 \<le> length (wp_service_ids p) \<and> length (wp_service_ids p) \<le> 10
     \<and> list_all (\<lambda>i. 0 < i) (wp_service_ids p) \<and> distinct (wp_service_ids p)
     \<and> (case wp_preferred_master_id p of None \<Rightarrow> True | Some m \<Rightarrow> 1 \<le> m)
     \<and> (case wp_duration_minutes p of None \<Rightarrow> True | Some d \<Rightarrow> 0 < d \<and> d \<le> 720)
     \<and> ordered_bounds (\<le>) (wp_acceptable_date_from p) (wp_acceptable_date_to p)
     \<and> ordered_bounds (\<le>) (wp_acceptable_date_from p) (Some (wp_desired_date p))
     \<and> ordered_bounds (\<le>) (Some (wp_desired_date p)) (wp_acceptable_date_to p)
     \<and> ordered_bounds (<) (wp_preferred_time_from p) (wp_preferred_time_to p)"

definition or_date :: "date option \<Rightarrow> date \<Rightarrow> date" where
  "or_date a d = (case a of Some x \<Rightarrow> x | None \<Rightarrow> d)"

text \<open>
  \<open>date.isoformat()\<close> and \<open>time.isoformat()\<close>; \<open>pad n i\<close> writes the last \<open>n\<close> digits, as many
  as the parts of a date or a time have.
\<close>

fun pad :: "nat \<Rightarrow> int \<Rightarrow> string" where
  "pad 0 i = []"
| "pad (Suc n) i = pad n (i div 10) @ [digit (nat (i mod 10))]"

definition iso_date :: "date \<Rightarrow> string" where
  "iso_date d = (case fromordinal d of (y, m, dd) \<Rightarrow> join_text ''-'' [pad 4 y, pad 2 m, pad 2 dd])"

definition iso_time :: "int \<Rightarrow> string" where
  "iso_time t =
     (let secs = t div 1000000; us = t mod 1000000
      in join_text '':'' [pad 2 (secs div 3600), pad 2 (secs div 60 mod 60), pad 2 (secs mod 60)]
         @ (if us \<noteq> 0 then ''.'' @ pad 6 us else []))"

definition time_or_any :: "int option \<Rightarrow> string" where
  "time_or_any a = (case a of Some t \<Rightarrow> iso_time t | None \<Rightarrow> ''any'')"

text \<open>The text under the digest of the deduplication key.\<close>

definition dedup_text :: "string \<Rightarrow> waitlist_payload \<Rightarrow> int \<Rightarrow> string" where
  "dedup_text normalized_phone p duration_minutes =
     ''waitlist-dedup:'' @ join_text ''|''
       [normalized_phone, join_text '','' (map show_int (sort (wp_service_ids p))),
        (case wp_preferred_master_id p of Some m \<Rightarrow> if m \<noteq> 0 then show_int m else ''any'' | None \<Rightarrow> ''any''),
        iso_date (wp_desired_date p),
        iso_date (or_date (wp_acceptable_date_from p) (wp_desired_date p)),
        iso_date (or_date (wp_acceptable_date_to p) (wp_desired_date p)),
        time_or_any (wp_preferred_time_from p), time_or_any (wp_preferred_time_to p),
        show_int duration_minutes]"

definition dedup_key :: "waitlist_env \<Rightarrow> string \<Rightarrow> waitlist_payload \<Rightarrow> int \<Rightarrow> string" where
  "dedup_key v normalized_phone p duration_minutes =
     we_digest v (dedup_text normalized_phone p duration_minutes)"

definition open_request :: "waitlist_request \<Rightarrow> bool" where
  "open_request r \<longleftrightarrow> wr_status r = WActive \<or> wr_status r = WOffered"

text \<open>
  The unique columns: the cancel token, and the deduplication key among the open requests
  (the partial index \<open>uq_waitlist_requests_open_dedup_key\<close>).
\<close>

definition request_flush :: "waitlist_request \<Rightarrow> salon \<Rightarrow> salon result" where
  "request_flush r db =
     (if select_where (\<lambda>q. wr_id q \<noteq> wr_id r
           \<and> (wr_cancel_token_hash q = wr_cancel_token_hash r
              \<or> (open_request q \<and> open_request r \<and> wr_dedup_key_hash q = wr_dedup_key_hash r))) (requests db) \<noteq> []
      then Inl IntegrityError else Inr (db\<lparr>requests := put (wr_id r) r (requests db)\<rparr>))"

definition waitlist_customer :: "salon \<Rightarrow> string \<Rightarrow> string \<Rightarrow> (salon \<times> customer) result" where
  "waitlist_customer db phone name =
     (case find_booking_customer db (Some phone) None of
        Some c \<Rightarrow> Inr (db, c)
      | None \<Rightarrow> let c = new_customer db phone None (Some name) None
                in and_then (customer_flush c db) (\<lambda>db. Inr (db, c)))"

definition preferred_master :: "salon \<Rightarrow> waitlist_payload \<Rightarrow> master option result" where
  "preferred_master db p =
     (case wp_preferred_master_id p of
        None \<Rightarrow> Inr None
      | Some m \<Rightarrow>
          and_then (get_active_master_with_services db m) (\<lambda>ms.
          if \<not> ms_show_on_master_block ms then not_found ''Preferred master not found''
          else and_then (ensure_master_provides_services db ms (wp_service_ids p)) (\<lambda>_. Inr (Some ms))))"

definition waitlist_create ::
  "waitlist_env \<Rightarrow> salon \<Rightarrow> instant \<Rightarrow> string \<Rightarrow> waitlist_payload \<Rightarrow> (salon \<times> waitlist_request) result" where
  "waitlist_create v db now token p =
     (let z = we_zone v; today = today z now; horizon = availability_horizon_end_date z now
      in if wp_desired_date p < today then unprocessable ''desired_date must not be in the past''
         else if wp_desired_date p > horizon then unprocessable ''desired_date is outside availability horizon''
         else if \<not> wp_notification_consent p
         then unprocessable ''Availability notification consent is required''
         else and_then (normalize_customer_phone (wp_customer_phone p)) (\<lambda>phone.
         and_then (get_active_services db (wp_service_ids p)) (\<lambda>items.
         and_then (preferred_master db p) (\<lambda>master.
         let required = sum_list (map sv_duration_minutes items);
             duration = (case wp_duration_minutes p of Some d \<Rightarrow> if d \<noteq> 0 then d else required | None \<Rightarrow> required)
         in if duration \<noteq> required
            then unprocessable ''duration_minutes must equal the selected services duration''
            else and_then (waitlist_customer db phone (wp_customer_name p)) (\<lambda>(db, c).
              let date_from = or_date (wp_acceptable_date_from p) (wp_desired_date p);
                  date_to = or_date (wp_acceptable_date_to p) (wp_desired_date p)
              in if date_from < today \<or> date_to > horizon
                 then unprocessable ''acceptable date range is outside availability horizon''
                 else
                   let key = dedup_key v phone p duration
                   in case select_where (\<lambda>r. wr_dedup_key_hash r = key \<and> open_request r) (requests db) of
                        _ # _ # _ \<Rightarrow> Inl MultipleResultsFound
                      | [_] \<Rightarrow> conflict ''An equivalent active waitlist request already exists''
                      | [] \<Rightarrow>
                        let expires = min ((date_to + 1) * day) (to_kyiv z now + we_expiry_days v * day);
                            r = \<lparr>wr_id = next_id (requests db), wr_cancel_token_hash = we_digest v token,
                                 wr_dedup_key_hash = key, wr_customer_id = cu_id c,
                                 wr_preferred_master_id = map_option ms_id master,
                                 wr_desired_date = wp_desired_date p,
                                 wr_acceptable_date_from = Some date_from, wr_acceptable_date_to = Some date_to,
                                 wr_preferred_time_from = wp_preferred_time_from p,
                                 wr_preferred_time_to = wp_preferred_time_to p, wr_duration_minutes = duration,
                                 wr_notification_consent = True, wr_service_ids = map sv_id items,
                                 wr_status = WActive, wr_created_at = now, wr_expires_at = to_utc z expires,
                                 wr_offered_at = None, wr_booked_at = None, wr_closed_at = None,
                                 wr_close_reason = None\<rparr>
                        in case request_flush r db of
                             Inl _ \<Rightarrow> conflict ''An equivalent active waitlist request already exists''
                           | Inr db \<Rightarrow> Inr (db, r))))))"

section \<open>Leaving the list\<close>

definition open_offer :: "waitlist_offer \<Rightarrow> bool" where
  "open_offer w \<longleftrightarrow> wo_status w = OPending \<or> wo_status w = OSent \<or> wo_status w = ODelivered"

definition active_hold :: "waitlist_offer \<Rightarrow> bool" where
  "active_hold w \<longleftrightarrow> wo_status w = OSent \<or> wo_status w = ODelivered"

definition put_request :: "waitlist_request \<Rightarrow> salon \<Rightarrow> salon" where
  "put_request r db = db\<lparr>requests := put (wr_id r) r (requests db)\<rparr>"

definition put_offer :: "waitlist_offer \<Rightarrow> salon \<Rightarrow> salon" where
  "put_offer w db = db\<lparr>offers := put (wo_id w) w (offers db)\<rparr>"

definition close_offer :: "offer_status \<Rightarrow> instant \<Rightarrow> string \<Rightarrow> waitlist_offer \<Rightarrow> waitlist_offer" where
  "close_offer s now reason w = w\<lparr>wo_status := s, wo_closed_at := Some now, wo_close_reason := Some reason\<rparr>"

text \<open>The slot an offer held, to be offered again.\<close>

definition freed_by_offer :: "waitlist_offer \<Rightarrow> freed_slot" where
  "freed_by_offer w =
     \<lparr>fs_master_id = wo_master_id w, fs_start_at = wo_start_at w, fs_end_at = wo_end_at w,
      fs_source_booking_id = wo_source_booking_id w,
      fs_source_master_id = Some (case wo_source_master_id w of
         Some m \<Rightarrow> if m \<noteq> 0 then m else wo_master_id w | None \<Rightarrow> wo_master_id w)\<rparr>"

definition cancel_request :: "salon \<Rightarrow> instant \<Rightarrow> waitlist_request \<Rightarrow> (salon \<times> freed_slot list) result" where
  "cancel_request db now r =
     (if \<not> open_request r then conflict ''Waitlist request is no longer active''
      else let db = put_request (r\<lparr>wr_status := WCancelled, wr_closed_at := Some now,
                      wr_close_reason := Some ''cancelled_by_customer''\<rparr>) db;
               found = select_where (\<lambda>w. wo_request_id w = wr_id r \<and> open_offer w) (offers db)
           in Inr (fold (\<lambda>w. put_offer (close_offer OCancelled now ''request_cancelled_by_customer'' w)) found db,
                   map freed_by_offer found))"

definition find_by_cancel_token :: "waitlist_env \<Rightarrow> salon \<Rightarrow> string \<Rightarrow> waitlist_request result" where
  "find_by_cancel_token v db cancel_token =
     (case select_where (\<lambda>r. wr_cancel_token_hash r = we_digest v cancel_token) (requests db) of
        [] \<Rightarrow> not_found ''Waitlist request not found''
      | [r] \<Rightarrow> Inr r
      | _ \<Rightarrow> Inl MultipleResultsFound)"

definition cancel_with_slots ::
  "waitlist_env \<Rightarrow> salon \<Rightarrow> instant \<Rightarrow> string \<Rightarrow> (salon \<times> freed_slot list) result" where
  "cancel_with_slots v db now cancel_token =
     and_then (find_by_cancel_token v db cancel_token) (cancel_request db now)"

text \<open>\<open>CustomerActivityService.cancel_waitlist\<close>; the public id names one row, here by its key.\<close>

definition cancel_waitlist :: "salon \<Rightarrow> instant \<Rightarrow> customer \<Rightarrow> int \<Rightarrow> (salon \<times> freed_slot list) result" where
  "cancel_waitlist db now c i =
     (case get (requests db) i of
        Some r \<Rightarrow> if wr_customer_id r = cu_id c then cancel_request db now r
                  else not_found ''Waitlist request not found''
      | None \<Rightarrow> not_found ''Waitlist request not found'')"

definition expire_due_requests :: "salon \<Rightarrow> instant \<Rightarrow> salon \<times> int" where
  "expire_due_requests db now =
     (let due = select_where (\<lambda>r. open_request r \<and> wr_expires_at r \<le> now) (requests db);
          db = fold (\<lambda>r. put_request (r\<lparr>wr_status := WExpired, wr_closed_at := Some now,
                 wr_close_reason := Some ''expired''\<rparr>)) due db;
          found = select_where (\<lambda>w. wo_request_id w \<in> wr_id ` set due \<and> open_offer w) (offers db)
      in (fold (\<lambda>w. put_offer (close_offer OExpired now ''request_expired'' w)) found db, int (length due)))"

end
