(* ===== verification/Offers.thy ===== *)
theory Offers
  imports Waitlist
begin

text \<open>
  Offers of a freed slot, \<^verbatim>\<open>app/services/waitlist_offers.py\<close> and the projection of
  queued messages in \<^verbatim>\<open>app/services/sms_notification_queue.py\<close>: which waiting client a
  slot is offered to, the hold the offer places, its expiry, and the claim that turns it into a
  booking. The SMS provider and its queue are arguments. An operation that commits as it goes
  returns the state it has committed together with its result, which may be an error.
\<close>

section \<open>The clock\<close>

text \<open>\<open>now + timedelta(minutes=n)\<close> of a Kyiv \<open>now\<close> moves the wall clock.\<close>

definition minutes_after :: "waitlist_env \<Rightarrow> instant \<Rightarrow> int \<Rightarrow> wall" where
  "minutes_after v now n = to_kyiv (we_zone v) now + n * minute"

definition adjust_for_quiet_hours :: "int \<Rightarrow> int \<Rightarrow> wall \<Rightarrow> wall" where
  "adjust_for_quiet_hours quiet_from quiet_to local =
     (let current_minutes = local mod day div minute;
          in_quiet_hours = (if quiet_from < quiet_to
             then quiet_from \<le> current_minutes \<and> current_minutes < quiet_to
             else current_minutes \<ge> quiet_from \<or> current_minutes < quiet_to)
      in if \<not> in_quiet_hours then local
         else let next_day = (current_minutes \<ge> quiet_from \<and> quiet_from \<ge> quiet_to);
                  target = date_of local * day + quiet_to * minute
              in if next_day then target + day else target)"

definition scheduled_send_at :: "waitlist_env \<Rightarrow> instant \<Rightarrow> wall" where
  "scheduled_send_at v now =
     adjust_for_quiet_hours (we_quiet_from v) (we_quiet_to v) (to_kyiv (we_zone v) now)"

section \<open>Matching\<close>

definition in_time_preference :: "zone \<Rightarrow> waitlist_request \<Rightarrow> instant \<Rightarrow> instant option \<Rightarrow> bool" where
  "in_time_preference z r start_at end_at =
     (let local = to_kyiv z start_at mod day;
          local_end = (case end_at of Some e \<Rightarrow> to_kyiv z e mod day | None \<Rightarrow> local)
      in \<not> ((case wr_preferred_time_from r of Some t \<Rightarrow> local < t | None \<Rightarrow> False)
            \<or> (case wr_preferred_time_to r of Some t \<Rightarrow> local_end > t | None \<Rightarrow> False)))"

definition in_date_range :: "zone \<Rightarrow> waitlist_request \<Rightarrow> instant \<Rightarrow> bool" where
  "in_date_range z r start_at =
     (let d = date_of (to_kyiv z start_at)
      in or_date (wr_acceptable_date_from r) (wr_desired_date r) \<le> d
         \<and> d \<le> or_date (wr_acceptable_date_to r) (wr_desired_date r))"

definition communication_allowed :: "waitlist_request \<Rightarrow> preference option \<Rightarrow> bool" where
  "communication_allowed r preference =
     (if \<not> wr_notification_consent r then False
      else case preference of None \<Rightarrow> True
        | Some p \<Rightarrow> \<not> (pf_do_not_contact p \<or> pf_blacklisted_at p \<noteq> None
                       \<or> pf_transactional_consent p = Opted_out))"

text \<open>The service of the master that stands for a requested one.\<close>

definition matching_service :: "service list \<Rightarrow> service \<Rightarrow> service option" where
  "matching_service active source =
     (case find (\<lambda>s. sv_id s = sv_id source) active of
        Some s \<Rightarrow> Some s
      | None \<Rightarrow>
          (case sv_base_service_id source of
             Some b \<Rightarrow> find (\<lambda>s. sv_base_service_id s = Some b) active
           | None \<Rightarrow> find (\<lambda>s. sv_base_service_id s = None \<and> custom_service_key s = custom_service_key source)
                       active))"

fun match_loop :: "service list \<Rightarrow> service list \<Rightarrow> service list \<Rightarrow> service list option" where
  "match_loop active matched [] = Some matched"
| "match_loop active matched (source # rest) =
     (case matching_service active source of
        None \<Rightarrow> None
      | Some target \<Rightarrow>
          if list_ex (\<lambda>s. sv_id s = sv_id target) matched then None
          else match_loop active (matched @ [target]) rest)"

definition matching_services :: "salon \<Rightarrow> master \<Rightarrow> service list \<Rightarrow> service list option" where
  "matching_services db master requested =
     match_loop (filter (is_active_service db) (master_services db master)) [] requested"

text \<open>The relationship \<open>WaitlistRequest.services\<close>.\<close>

definition request_services :: "salon \<Rightarrow> waitlist_request \<Rightarrow> service list" where
  "request_services db r = List.map_filter (get (services db)) (wr_service_ids r)"

text \<open>Where the redirects of a master end, among the active masters; None on a dead end or a cycle.\<close>

definition active_master :: "salon \<Rightarrow> int \<Rightarrow> master option" where
  "active_master db i =
     (case get (masters db) i of Some m \<Rightarrow> if ms_is_active m then Some m else None | None \<Rightarrow> None)"

lemma active_master_id: "active_master db i = Some m \<Longrightarrow> i \<in> set (ids (masters db))"
  by (force simp: active_master_def ids_def dest: map_of_SomeD split: option.splits)

function redirect_end :: "salon \<Rightarrow> int list \<Rightarrow> int \<Rightarrow> int option" where
  "redirect_end db seen i =
     (if i \<in> set seen then None
      else case active_master db i of
             None \<Rightarrow> None
           | Some m \<Rightarrow> (case ms_booking_redirect_master_id m of
                          None \<Rightarrow> Some i
                        | Some r \<Rightarrow> redirect_end db (i # seen) r))"
  by pat_completeness auto
termination
proof (relation "measure (\<lambda>(db, seen, i). card (set (ids (masters db)) - set seen))")
  fix db :: salon and seen :: "int list" and i r :: int and m :: master
  assume "i \<notin> set seen" "active_master db i = Some m" "ms_booking_redirect_master_id m = Some r"
  then have "set (ids (masters db)) - set (i # seen) \<subset> set (ids (masters db)) - set seen"
    using active_master_id by fastforce
  then show "((db, i # seen, r), db, seen, i) \<in> measure (\<lambda>(db, seen, i). card (set (ids (masters db)) - set seen))"
    by (simp add: psubset_card_mono)
qed simp

declare redirect_end.simps [simp del]

definition compatible_public_masters :: "salon \<Rightarrow> int \<Rightarrow> master list" where
  "compatible_public_masters db target_master_id =
     filter (\<lambda>m. ms_is_active m \<and> ms_show_on_master_block m \<and> redirect_end db [] (ms_id m) = Some target_master_id)
       (select_where ms_is_active (masters db))"

text \<open>The offer is shown under the master the client asked for, else under the freed one.\<close>

definition truthy_or :: "int option \<Rightarrow> int \<Rightarrow> int" where
  "truthy_or a d = (case a of Some i \<Rightarrow> if i \<noteq> 0 then i else d | None \<Rightarrow> d)"

definition public_offer_master :: "salon \<Rightarrow> waitlist_request \<Rightarrow> waitlist_offer \<Rightarrow> master option" where
  "public_offer_master db r w =
     (let public_master_id = truthy_or (wr_preferred_master_id r) (truthy_or (wo_source_master_id w) (wo_master_id w))
      in find (\<lambda>m. ms_id m = public_master_id) (compatible_public_masters db (wo_master_id w)))"

section \<open>Who is offered a slot\<close>

definition whole_minutes :: "zone \<Rightarrow> instant \<Rightarrow> instant \<Rightarrow> int" where
  "whole_minutes z start_at end_at = (to_kyiv z end_at - to_kyiv z start_at) div minute"

text \<open>The query; rows locked by another transaction, which it skips, are not modelled.\<close>

definition waiting_rows ::
  "waitlist_env \<Rightarrow> salon \<Rightarrow> instant \<Rightarrow> int list \<Rightarrow> instant \<Rightarrow> instant \<Rightarrow> waitlist_request list" where
  "waiting_rows v db now compatible start_at end_at =
     sort_key (\<lambda>r. (wr_created_at r, wr_id r))
       (select_where (\<lambda>r. wr_status r = WActive \<and> wr_expires_at r > now \<and> wr_notification_consent r
           \<and> wr_duration_minutes r = whole_minutes (we_zone v) start_at end_at
           \<and> (case wr_preferred_master_id r of None \<Rightarrow> True | Some m \<Rightarrow> m \<in> set compatible)
           \<and> in_date_range (we_zone v) r start_at) (requests db))"

text \<open>The loop's filter; each \<open>continue\<close> of the loop is a conjunct.\<close>

definition eligible ::
  "waitlist_env \<Rightarrow> salon \<Rightarrow> instant \<Rightarrow> master \<Rightarrow> int list \<Rightarrow> int \<Rightarrow> instant \<Rightarrow> instant \<Rightarrow> waitlist_request \<Rightarrow> bool" where
  "eligible v db now master compatible source_master_id start_at end_at r \<longleftrightarrow>
     wr_notification_consent r
     \<and> (case wr_preferred_master_id r of
          Some m \<Rightarrow> m \<in> set compatible
        | None \<Rightarrow> source_master_id \<in> set compatible)
     \<and> wr_duration_minutes r = whole_minutes (we_zone v) start_at end_at
     \<and> in_date_range (we_zone v) r start_at \<and> in_time_preference (we_zone v) r start_at (Some end_at)
     \<and> (case matching_services db master (request_services db r) of None \<Rightarrow> False | Some ms \<Rightarrow> ms \<noteq> [])
     \<and> communication_allowed r (get (preferences db) (wr_customer_id r))
     \<and> select_where (\<lambda>b. bk_customer_id b = Some (wr_customer_id r) \<and> bk_status b = Confirmed
          \<and> overlaps (bk_start_at b) (bk_end_at b) start_at end_at) (bookings db) = []
     \<and> select_where (\<lambda>w. wo_request_id w = wr_id r \<and> wo_master_id w = ms_id master
          \<and> wo_start_at w = start_at) (offers db) = []
     \<and> (we_frequency_minutes v = 0
        \<or> select_where (\<lambda>w. (case get (requests db) (wo_request_id w) of
                               Some q \<Rightarrow> wr_customer_id q = wr_customer_id r | None \<Rightarrow> False)
             \<and> (case wo_sent_at w of
                  Some t \<Rightarrow> t \<ge> to_utc (we_zone v) (minutes_after v now (- we_frequency_minutes v))
                | None \<Rightarrow> False)) (offers db) = [])"

definition offer_rank ::
  "waitlist_env \<Rightarrow> int \<Rightarrow> instant \<Rightarrow> waitlist_request \<Rightarrow> nat \<times> bool \<times> bool \<times> instant \<times> int" where
  "offer_rank v source_master_id start_at r =
     (if wr_preferred_master_id r = Some source_master_id then 0 else 1,
      wr_desired_date r \<noteq> date_of (to_kyiv (we_zone v) start_at),
      \<not> in_time_preference (we_zone v) r start_at None, wr_created_at r, wr_id r)"

definition eligible_requests ::
  "waitlist_env \<Rightarrow> salon \<Rightarrow> instant \<Rightarrow> master \<Rightarrow> int \<Rightarrow> instant \<Rightarrow> instant \<Rightarrow> waitlist_request list" where
  "eligible_requests v db now master source_master_id start_at end_at =
     (let compatible = map ms_id (compatible_public_masters db (ms_id master))
      in sort_key (offer_rank v source_master_id start_at)
           (filter (eligible v db now master compatible source_master_id start_at end_at)
             (waiting_rows v db now compatible start_at end_at)))"

section \<open>Sending an offer\<close>

datatype delivery = Enroute | Delivery_done | Delivery_expired | Undeliverable | Rejected

datatype job_status = JQueued | JDispatching | JAccepted | JDelivered | JFailed | JSkipped | JUncertain | JCancelled

record sms_job =
  jb_status :: job_status
  jb_error_code :: "string option"
  jb_provider_message_id :: "string option"
  jb_transport_started_at :: "instant option"
  jb_delivered_at :: "instant option"
  jb_projected :: bool

text \<open>
  What one run of the services gets from outside: the random token of each offer, the provider's
  answer to its message (None when the call raises, else the message id, absent for the stub
  provider), the acceptance of its message by the queue, its queued job, and the provider's
  delivery reports.
\<close>

record gateway =
  gw_token :: "int \<Rightarrow> string"
  gw_send :: "int \<Rightarrow> string option option"
  gw_enqueue :: "int \<Rightarrow> unit result"
  gw_job :: "int \<Rightarrow> sms_job option"
  gw_statuses :: "string list \<Rightarrow> (string \<times> delivery) list result"

text \<open>The constraints of \<open>waitlist_offers\<close>.\<close>

definition offer_flush :: "waitlist_offer \<Rightarrow> salon \<Rightarrow> salon result" where
  "offer_flush w db =
     (if wo_end_at w \<le> wo_start_at w
       \<or> select_where (\<lambda>q. wo_id q \<noteq> wo_id w
           \<and> (wo_token_hash q = wo_token_hash w
              \<or> (wo_request_id q = wo_request_id w \<and> wo_master_id q = wo_master_id w
                 \<and> wo_start_at q = wo_start_at w))) (offers db) \<noteq> []
      then Inl IntegrityError else Inr (put_offer w db))"

text \<open>
  An object of the session that was read before its row was locked may be older than the row. Its
  flush updates the columns that were assigned, whatever else the row holds by then. Offers are never
  deleted.
\<close>

definition rewrite_offer :: "int \<Rightarrow> (waitlist_offer \<Rightarrow> waitlist_offer) \<Rightarrow> salon \<Rightarrow> salon" where
  "rewrite_offer i g db = (case get (offers db) i of None \<Rightarrow> db | Some w \<Rightarrow> put_offer (g w) db)"

definition rewrite_request :: "int \<Rightarrow> (waitlist_request \<Rightarrow> waitlist_request) \<Rightarrow> salon \<Rightarrow> salon result" where
  "rewrite_request i g db = (case get (requests db) i of None \<Rightarrow> Inr db | Some r \<Rightarrow> request_flush (g r) db)"

definition back_to_active :: "waitlist_request \<Rightarrow> waitlist_request" where
  "back_to_active r = r\<lparr>wr_status := WActive, wr_offered_at := None\<rparr>"

definition release_request :: "waitlist_request \<Rightarrow> waitlist_request" where
  "release_request r = (if wr_status r = WOffered then back_to_active r else r)"

definition hold_end :: "waitlist_env \<Rightarrow> instant \<Rightarrow> instant" where
  "hold_end v now = to_utc (we_zone v) (minutes_after v now (we_hold_minutes v))"

definition sent_offer :: "waitlist_env \<Rightarrow> instant \<Rightarrow> string option \<Rightarrow> waitlist_offer \<Rightarrow> waitlist_offer" where
  "sent_offer v now message_id w =
     (let w = w\<lparr>wo_status := OSent, wo_sent_at := Some now, wo_expires_at := hold_end v now,
                wo_provider_message_id := message_id\<rparr>
      in if message_id = None then w\<lparr>wo_status := ODelivered, wo_delivered_at := Some now\<rparr> else w)"

definition send_offer ::
  "waitlist_env \<Rightarrow> gateway \<Rightarrow> salon \<Rightarrow> instant \<Rightarrow> waitlist_offer \<Rightarrow> (salon \<times> bool) result" where
  "send_offer v gw db now w =
     (case get (requests db) (wo_request_id w) of
        None \<Rightarrow> Inr (db, False)
      | Some r \<Rightarrow>
          if public_offer_master db r w = None
          then Inr (put_request (release_request r)
                 (put_offer (close_offer OCancelled now ''public_master_no_longer_available'' w) db), False)
          else if we_smsclub v
          then (if get (customers db) (wr_customer_id r) = None then Inl AttributeError
                else and_then (gw_enqueue gw (wo_id w)) (\<lambda>_.
                  Inr (put_offer (w\<lparr>wo_expires_at := hold_end v now\<rparr>) db, False)))
          else (case (if get (customers db) (wr_customer_id r) = None then None else gw_send gw (wo_id w)) of
                  None \<Rightarrow> Inr (put_request (back_to_active r)
                    (put_offer (close_offer OCancelled now ''sms_send_failed'' w) db), False)
                | Some message_id \<Rightarrow>
                    Inr (put_request (r\<lparr>wr_status := WOffered, wr_offered_at := Some now\<rparr>)
                      (put_offer (sent_offer v now message_id w) db), True)))"

section \<open>Offering a freed slot\<close>

definition same_interval_held :: "salon \<Rightarrow> int \<Rightarrow> instant \<Rightarrow> instant \<Rightarrow> bool" where
  "same_interval_held db master_id start_at end_at \<longleftrightarrow>
     select_where (\<lambda>w. wo_master_id w = master_id \<and> wo_start_at w = start_at \<and> wo_end_at w = end_at
       \<and> open_offer w) (offers db) \<noteq> []"

definition slot_free ::
  "waitlist_env \<Rightarrow> salon \<Rightarrow> instant \<Rightarrow> int \<Rightarrow> instant \<Rightarrow> instant \<Rightarrow> int option \<Rightarrow> unit result" where
  "slot_free v db now master_id start_at end_at own =
     and_then (ensure_booking_within_availability (we_zone v) db now master_id (Aware start_at) (Aware end_at))
       (\<lambda>_. ensure_slot_available db now master_id start_at end_at None own)"

definition new_offer ::
  "waitlist_env \<Rightarrow> gateway \<Rightarrow> salon \<Rightarrow> instant \<Rightarrow> master \<Rightarrow> int \<Rightarrow> freed_slot \<Rightarrow> waitlist_request \<Rightarrow> waitlist_offer" where
  "new_offer v gw db now master source_master_id f r =
     (let i = next_id (offers db); z = we_zone v; scheduled = scheduled_send_at v now
      in \<lparr>wo_id = i, wo_request_id = wr_id r, wo_master_id = ms_id master,
          wo_source_master_id = Some source_master_id, wo_start_at = fs_start_at f, wo_end_at = fs_end_at f,
          wo_token_hash = we_digest v (gw_token gw i), wo_status = OPending,
          wo_expires_at = to_utc z (scheduled + we_hold_minutes v * minute),
          wo_scheduled_at = (if scheduled = to_kyiv z now then now else to_utc z scheduled),
          wo_sent_at = None, wo_delivered_at = None, wo_claimed_at = None, wo_closed_at = None,
          wo_close_reason = None, wo_provider_message_id = None,
          wo_source_booking_id = fs_source_booking_id f\<rparr>)"

definition place_offer :: "waitlist_offer \<Rightarrow> instant \<Rightarrow> waitlist_request \<Rightarrow> salon \<Rightarrow> salon result" where
  "place_offer w now r db =
     offer_flush w (put_request (r\<lparr>wr_status := WOffered, wr_offered_at := Some now\<rparr>) db)"

text \<open>Is the message of this offer waiting in the queue?\<close>

definition queued_offer :: "waitlist_env \<Rightarrow> salon \<Rightarrow> int \<Rightarrow> bool" where
  "queued_offer v db i \<longleftrightarrow> we_smsclub v
     \<and> (case get (offers db) i of Some w \<Rightarrow> wo_status w = OPending | None \<Rightarrow> False)"

text \<open>
  One attempt of \<open>offer_slot\<close>: it ends with a result, or with a new state after an offer that
  could not be sent, upon which the method calls itself.
\<close>

datatype attempt = Ended salon "waitlist_offer option result" | Retry salon

definition is_conflict :: "error \<Rightarrow> bool" where
  "is_conflict e \<longleftrightarrow> (case e of HTTPException n _ \<Rightarrow> n = 409 | _ \<Rightarrow> False)"

definition offer_attempt ::
  "waitlist_env \<Rightarrow> gateway \<Rightarrow> salon \<Rightarrow> instant \<Rightarrow> freed_slot \<Rightarrow> attempt" where
  "offer_attempt v gw db now f =
     (if to_kyiv (we_zone v) (fs_start_at f) \<le> minutes_after v now (we_hold_minutes v) then Ended db (Inr None)
      else case get_active_master_with_services db (fs_master_id f) of
        Inl e \<Rightarrow> Ended db (Inl e)
      | Inr master \<Rightarrow>
          let source = truthy_or (fs_source_master_id f) (ms_id master)
          in if same_interval_held db (ms_id master) (fs_start_at f) (fs_end_at f) then Ended db (Inr None)
             else case slot_free v db now (ms_id master) (fs_start_at f) (fs_end_at f) None of
               Inl e \<Rightarrow> Ended db (if is_conflict e then Inr None else Inl e)
             | Inr _ \<Rightarrow>
                 (case eligible_requests v db now master source (fs_start_at f) (fs_end_at f) of
                    [] \<Rightarrow> Ended db (Inr None)
                  | r # _ \<Rightarrow>
                      let w = new_offer v gw db now master source f r
                      in case place_offer w now r db of
                           Inl e \<Rightarrow> Ended db (Inl e)
                         | Inr db1 \<Rightarrow>
                             if scheduled_send_at v now > to_kyiv (we_zone v) now then Ended db1 (Inr (Some w))
                             else case send_offer v gw db1 now w of
                                    Inl e \<Rightarrow> Ended db (Inl e)
                                  | Inr (db2, sent) \<Rightarrow>
                                      if sent \<or> queued_offer v db2 (wo_id w)
                                      then Ended db2 (Inr (get (offers db2) (wo_id w)))
                                      else Retry db2))"

text \<open>
  Every attempt that fails leaves a row for its request and this slot, and a request with such a row
  is not eligible: the requests without one bound the attempts.
\<close>

lemma set_rows_put: "set (rows (put i r t)) \<subseteq> insert r (set (rows t))"
  by (induction t) (auto simp: rows_def)

lemma rows_put_fresh: "get t i = None \<Longrightarrow> rows (put i r t) = rows t @ [r]"
  by (simp add: put_fresh rows_def)

definition same_offer :: "waitlist_offer \<Rightarrow> waitlist_offer \<Rightarrow> bool" where
  "same_offer w w' \<longleftrightarrow> wo_id w' = wo_id w \<and> wo_request_id w' = wo_request_id w
     \<and> wo_master_id w' = wo_master_id w \<and> wo_start_at w' = wo_start_at w \<and> wo_end_at w' = wo_end_at w
     \<and> wo_token_hash w' = wo_token_hash w"

lemma same_offer_simps [simp]:
  "same_offer w w"
  "same_offer w (close_offer s now reason w)"
  "same_offer w (sent_offer v now m w)"
  "same_offer w (w\<lparr>wo_expires_at := e\<rparr>)"
  by (simp_all add: same_offer_def close_offer_def sent_offer_def Let_def)

lemma closed_id [simp]: "wo_id (close_offer s now reason w) = wo_id w"
  by (simp add: close_offer_def)

lemma release_id [simp]: "wr_id (release_request r) = wr_id r" "wr_id (back_to_active r) = wr_id r"
  by (simp_all add: release_request_def back_to_active_def)

lemma put_simps [simp]:
  "requests (put_request r db) = put (wr_id r) r (requests db)"
  "offers (put_request r db) = offers db"
  "offers (put_offer w db) = put (wo_id w) w (offers db)"
  "requests (put_offer w db) = requests db"
  "masters (put_request r db) = masters db" "masters (put_offer w db) = masters db"
  "bookings (put_request r db) = bookings db" "bookings (put_offer w db) = bookings db"
  "customers (put_request r db) = customers db" "customers (put_offer w db) = customers db"
  "services (put_request r db) = services db" "services (put_offer w db) = services db"
  "base_services (put_request r db) = base_services db" "base_services (put_offer w db) = base_services db"
  "blocks (put_request r db) = blocks db" "blocks (put_offer w db) = blocks db"
  "windows (put_request r db) = windows db" "windows (put_offer w db) = windows db"
  "promotions (put_request r db) = promotions db" "promotions (put_offer w db) = promotions db"
  "preferences (put_request r db) = preferences db" "preferences (put_offer w db) = preferences db"
  by (simp_all add: put_request_def put_offer_def)

lemma offer_flush_Inr: "offer_flush w db = Inr db' \<Longrightarrow> db' = put_offer w db \<and> wo_start_at w < wo_end_at w
    \<and> (\<forall>q \<in> set (rows (offers db)). wo_id q \<noteq> wo_id w \<longrightarrow> wo_token_hash q \<noteq> wo_token_hash w)"
  by (auto simp: offer_flush_def select_where_def filter_empty_conv split: if_splits)

text \<open>What sending does to the offer and its request.\<close>

lemma send_offer_cases:
  assumes "send_offer v gw db now w = Inr (db', sent)"
    and "get (requests db) (wo_request_id w) = Some r"
  obtains (gone) r' reason where "\<not> sent" "r' = release_request r \<or> r' = back_to_active r"
      "db' = put_request r' (put_offer (close_offer OCancelled now reason w) db)"
  | (queued) "\<not> sent" "we_smsclub v" "db' = put_offer (w\<lparr>wo_expires_at := hold_end v now\<rparr>) db"
  | (sent) m where "sent" "\<not> we_smsclub v" "gw_send gw (wo_id w) = Some m"
      "db' = put_request (r\<lparr>wr_status := WOffered, wr_offered_at := Some now\<rparr>)
              (put_offer (sent_offer v now m w) db)"
proof -
  have run: "(if public_offer_master db r w = None
          then Inr (put_request (release_request r)
                 (put_offer (close_offer OCancelled now ''public_master_no_longer_available'' w) db), False)
          else if we_smsclub v
          then (if get (customers db) (wr_customer_id r) = None then Inl AttributeError
                else and_then (gw_enqueue gw (wo_id w)) (\<lambda>_.
                  Inr (put_offer (w\<lparr>wo_expires_at := hold_end v now\<rparr>) db, False)))
          else (case (if get (customers db) (wr_customer_id r) = None then None else gw_send gw (wo_id w)) of
                  None \<Rightarrow> Inr (put_request (back_to_active r)
                    (put_offer (close_offer OCancelled now ''sms_send_failed'' w) db), False)
                | Some message_id \<Rightarrow>
                    Inr (put_request (r\<lparr>wr_status := WOffered, wr_offered_at := Some now\<rparr>)
                      (put_offer (sent_offer v now message_id w) db), True))) = Inr (db', sent)"
    using assms by (simp add: send_offer_def)
  show thesis
  proof (cases "public_offer_master db r w = None")
    case True
    with run show thesis
      by (intro gone [of "release_request r" "''public_master_no_longer_available''"]) auto
  next
    case public: False
    show thesis
    proof (cases "we_smsclub v")
      case True
      with run public show thesis by (intro queued) (auto simp: and_then_eq_Inr split: if_splits)
    next
      case False
      show thesis
      proof (cases "if get (customers db) (wr_customer_id r) = None then None else gw_send gw (wo_id w)")
        case None
        with run public False show thesis
          by (intro gone [of "back_to_active r" "''sms_send_failed''"]) auto
      next
        case (Some m)
        with run public False show thesis by (intro sent) (auto split: if_splits)
      qed
    qed
  qed
qed

definition unoffered :: "salon \<Rightarrow> freed_slot \<Rightarrow> int set" where
  "unoffered db f = wr_id ` set (rows (requests db))
     - {i. \<exists>w \<in> set (rows (offers db)). wo_request_id w = i \<and> wo_start_at w = fs_start_at f
          \<and> Some (wo_master_id w) = map_option ms_id (get (masters db) (fs_master_id f))}"

lemma eligible_requests_head:
  assumes "eligible_requests v db now master source s e = r # rs"
  shows "r \<in> set (rows (requests db)) \<and> wr_status r = WActive \<and> wr_expires_at r > now
    \<and> eligible v db now master (map ms_id (compatible_public_masters db (ms_id master))) source s e r"
proof -
  have "r \<in> set (eligible_requests v db now master source s e)"
    using assms by simp
  then show ?thesis
    by (simp add: eligible_requests_def waiting_rows_def select_where_def Let_def)
qed

lemma offer_attempt_Retry:
  assumes "offer_attempt v gw db now f = Retry db'"
  obtains master r db1 sent where
    "get_active_master_with_services db (fs_master_id f) = Inr master"
    "r \<in> set (rows (requests db))"
    "eligible v db now master (map ms_id (compatible_public_masters db (ms_id master)))
       (truthy_or (fs_source_master_id f) (ms_id master)) (fs_start_at f) (fs_end_at f) r"
    "place_offer (new_offer v gw db now master (truthy_or (fs_source_master_id f) (ms_id master)) f r) now r db = Inr db1"
    "send_offer v gw db1 now (new_offer v gw db now master (truthy_or (fs_source_master_id f) (ms_id master)) f r)
       = Inr (db', sent)"
    "\<not> sent"
proof -
  from assms obtain master where master: "get_active_master_with_services db (fs_master_id f) = Inr master"
    by (cases "get_active_master_with_services db (fs_master_id f)") (auto simp: offer_attempt_def split: if_splits)
  define source where "source = truthy_or (fs_source_master_id f) (ms_id master)"
  from assms master obtain r rs where
    chosen: "eligible_requests v db now master source (fs_start_at f) (fs_end_at f) = r # rs"
    by (cases "eligible_requests v db now master source (fs_start_at f) (fs_end_at f)")
      (auto simp: offer_attempt_def source_def Let_def split: if_splits sum.splits)
  define w where "w = new_offer v gw db now master source f r"
  from assms master chosen obtain db1 where placed: "place_offer w now r db = Inr db1"
    by (cases "place_offer w now r db")
      (auto simp: offer_attempt_def source_def w_def Let_def split: if_splits sum.splits)
  from assms master chosen placed obtain sent where "send_offer v gw db1 now w = Inr (db', sent)" "\<not> sent"
    by (cases "send_offer v gw db1 now w")
      (auto simp: offer_attempt_def source_def [symmetric] w_def [symmetric] Let_def
         split: if_splits sum.splits prod.splits)
  with eligible_requests_head [OF chosen] master placed show thesis
    by (auto simp: source_def w_def intro: that)
qed

lemma unoffered_decreases:
  assumes "offer_attempt v gw db now f = Retry db'"
  shows "unoffered db' f \<subset> unoffered db f"
proof -
  from assms obtain master r db1 sent where
    master: "get_active_master_with_services db (fs_master_id f) = Inr master"
    and r: "r \<in> set (rows (requests db))"
    and el: "eligible v db now master (map ms_id (compatible_public_masters db (ms_id master)))
       (truthy_or (fs_source_master_id f) (ms_id master)) (fs_start_at f) (fs_end_at f) r"
    and place: "place_offer (new_offer v gw db now master (truthy_or (fs_source_master_id f) (ms_id master)) f r)
       now r db = Inr db1"
    and send: "send_offer v gw db1 now
       (new_offer v gw db now master (truthy_or (fs_source_master_id f) (ms_id master)) f r) = Inr (db', sent)"
    and "\<not> sent"
    by (rule offer_attempt_Retry)
  define w where "w = new_offer v gw db now master (truthy_or (fs_source_master_id f) (ms_id master)) f r"
  have w: "wo_id w = next_id (offers db)" "wo_request_id w = wr_id r" "wo_master_id w = ms_id master"
    "wo_start_at w = fs_start_at f"
    by (simp_all add: w_def new_offer_def Let_def)
  define r1 where "r1 = r\<lparr>wr_status := WOffered, wr_offered_at := Some now\<rparr>"
  have r1: "wr_id r1 = wr_id r" by (simp add: r1_def)
  have db1: "db1 = put_offer w (put_request r1 db)"
    using place offer_flush_Inr by (simp add: place_offer_def w_def r1_def)
  have got: "get (requests db1) (wo_request_id w) = Some r1"
    by (simp add: db1 w r1)
  have shape: "\<exists>w'. same_offer w w' \<and> offers db' = put (wo_id w) w' (offers db1)
      \<and> wr_id ` set (rows (requests db')) \<subseteq> insert (wr_id r) (wr_id ` set (rows (requests db1)))
      \<and> masters db' = masters db1"
    using send [folded w_def] got
  proof (cases rule: send_offer_cases)
    case (gone r' reason)
    then have "wr_id r' = wr_id r" by (auto simp: r1)
    with gone show ?thesis
      using set_rows_put [of "wr_id r'" r' "requests db1"]
      by (intro exI [of _ "close_offer OCancelled now reason w"]) (auto simp: closed_id)
  next
    case queued
    then show ?thesis by (intro exI [of _ "w\<lparr>wo_expires_at := hold_end v now\<rparr>"]) auto
  next
    case (sent m)
    with \<open>\<not> sent\<close> show ?thesis by simp
  qed
  then obtain w' where w': "same_offer w w'" and offers': "offers db' = put (wo_id w) w' (offers db1)"
    and reqs': "wr_id ` set (rows (requests db')) \<subseteq> insert (wr_id r) (wr_id ` set (rows (requests db1)))"
    and masters': "masters db' = masters db"
    by (auto simp: db1)
  have reqs: "wr_id ` set (rows (requests db')) \<subseteq> wr_id ` set (rows (requests db))"
  proof -
    have "wr_id ` set (rows (requests db1)) \<subseteq> insert (wr_id r1) (wr_id ` set (rows (requests db)))"
      using image_mono [OF set_rows_put [of "wr_id r1" r1 "requests db"], of wr_id] by (simp add: db1)
    with reqs' r r1 show ?thesis by auto
  qed
  have rows': "rows (offers db') = rows (offers db) @ [w']"
    by (simp add: offers' db1 put_put rows_put_fresh w)
  have m: "get (masters db) (fs_master_id f) = Some master"
    using master by (simp add: get_active_master_with_services_def split: option.splits if_splits)
  have "wr_id r \<in> unoffered db f"
    using r el m by (auto simp: unoffered_def eligible_def select_where_def filter_empty_conv)
  moreover have "wr_id r \<notin> unoffered db' f"
    using w' w m by (simp add: unoffered_def rows' masters' same_offer_def)
  moreover have "unoffered db' f \<subseteq> unoffered db f"
    using reqs by (auto simp: unoffered_def rows' masters')
  ultimately show ?thesis by blast
qed

lemma unoffered_finite [simp]: "finite (unoffered db f)"
  by (simp add: unoffered_def)

function offer_slot ::
  "waitlist_env \<Rightarrow> gateway \<Rightarrow> salon \<Rightarrow> instant \<Rightarrow> freed_slot \<Rightarrow> salon \<times> waitlist_offer option result" where
  "offer_slot v gw db now f =
     (case offer_attempt v gw db now f of
        Ended db' result \<Rightarrow> (db', result)
      | Retry db' \<Rightarrow> offer_slot v gw db' now f)"
  by pat_completeness auto
termination
  by (relation "measure (\<lambda>(v, gw, db, now, f). card (unoffered db f))")
    (simp_all add: psubset_card_mono unoffered_decreases)

declare offer_slot.simps [simp del]

text \<open>The background hook of the cancellation routes logs every error.\<close>

definition offer_freed_booking_slot :: "waitlist_env \<Rightarrow> gateway \<Rightarrow> salon \<Rightarrow> instant \<Rightarrow> freed_slot \<Rightarrow> salon" where
  "offer_freed_booking_slot v gw db now f = fst (offer_slot v gw db now f)"

section \<open>Queued messages\<close>

text \<open>Whether a queued message may still be sent: None allows it, else the reason to skip it.\<close>

definition sms_job_final_gate :: "salon \<Rightarrow> instant \<Rightarrow> int \<Rightarrow> string option" where
  "sms_job_final_gate db now i =
     (case get (offers db) i of
        None \<Rightarrow> Some ''waitlist_offer_inactive''
      | Some w \<Rightarrow>
          if wo_status w \<noteq> OPending then Some ''waitlist_offer_inactive''
          else if wo_expires_at w \<le> now \<or> wo_start_at w \<le> now then Some ''waitlist_offer_expired''
          else case get (requests db) (wo_request_id w) of
            None \<Rightarrow> Some ''waitlist_request_inactive''
          | Some r \<Rightarrow>
              if \<not> open_request r then Some ''waitlist_request_inactive''
              else if get (customers db) (wr_customer_id r) = None
                   \<or> \<not> communication_allowed r (get (preferences db) (wr_customer_id r))
              then Some ''waitlist_contact_restricted'' else None)"

definition first_of :: "'a option list \<Rightarrow> 'a \<Rightarrow> 'a" where
  "first_of xs d = (case List.map_filter id xs of [] \<Rightarrow> d | x # _ \<Rightarrow> x)"

definition accepted_offer :: "instant \<Rightarrow> sms_job \<Rightarrow> waitlist_offer \<Rightarrow> waitlist_offer" where
  "accepted_offer now j w =
     (let w = w\<lparr>wo_status := (if jb_status j = JDelivered then ODelivered else OSent),
                wo_sent_at := Some (first_of [wo_sent_at w, jb_transport_started_at j] now),
                wo_provider_message_id := jb_provider_message_id j\<rparr>
      in if jb_status j = JDelivered
         then w\<lparr>wo_delivered_at := Some (first_of [wo_delivered_at w, jb_delivered_at j] now)\<rparr> else w)"

definition reoffered :: "waitlist_offer \<Rightarrow> waitlist_request \<Rightarrow> waitlist_request" where
  "reoffered w r =
     (if open_request r
      then r\<lparr>wr_status := WOffered,
             wr_offered_at := (case wr_offered_at r of None \<Rightarrow> wo_sent_at w | t \<Rightarrow> t)\<rparr>
      else r)"

definition sms_job_outcome :: "salon \<Rightarrow> instant \<Rightarrow> int \<Rightarrow> sms_job \<Rightarrow> salon" where
  "sms_job_outcome db now i j =
     (case get (offers db) i of
        None \<Rightarrow> db
      | Some w \<Rightarrow>
          (case get (requests db) (wo_request_id w) of
             None \<Rightarrow> db
           | Some r \<Rightarrow>
               if wo_status w = ODelivered \<and> jb_status j \<noteq> JDelivered then db
               else if jb_status j = JAccepted \<or> jb_status j = JDelivered
               then (if \<not> open_offer w then db
                     else let w = accepted_offer now j w in put_request (reoffered w r) (put_offer w db))
               else if (jb_status j = JFailed \<or> jb_status j = JSkipped \<or> jb_status j = JCancelled)
                       \<and> (wo_status w = OPending \<or> wo_status w = OSent)
               then put_request (release_request r)
                      (put_offer (close_offer OCancelled now
                         (if truthy_text (jb_error_code j) then the (jb_error_code j) else ''sms_send_failed'') w) db)
               else if jb_status j = JUncertain \<and> wo_status w = OPending
               then put_offer (w\<lparr>wo_close_reason := Some ''sms_delivery_uncertain''\<rparr>) db
               else db))"

text \<open>\<open>SmsQueue._project\<close> for the job of an offer.\<close>

definition project_job :: "salon \<Rightarrow> instant \<Rightarrow> int \<Rightarrow> sms_job \<Rightarrow> salon" where
  "project_job db now i j =
     (if jb_projected j \<or> jb_status j = JDispatching
        \<or> (jb_status j = JQueued \<and> \<not> truthy_text (jb_error_code j))
      then db else sms_job_outcome db now i j)"

section \<open>The scheduler\<close>

text \<open>
  One candidate, under the locks of its request and its offer, both read again. The result is the number
  of sent offers and, when the message could not be sent, the slot to offer again afterwards.
\<close>

definition send_due_locked ::
  "waitlist_env \<Rightarrow> gateway \<Rightarrow> instant \<Rightarrow> int \<Rightarrow> int \<Rightarrow> salon \<Rightarrow> salon \<times> (int \<times> freed_slot option) result" where
  "send_due_locked v gw now i request_id db =
     (case (get (requests db) request_id, get (offers db) i) of
        (Some r, Some w) \<Rightarrow>
          if \<not> open_request r \<or> wo_request_id w \<noteq> wr_id r \<or> wo_status w \<noteq> OPending \<or> wo_scheduled_at w > now
          then (db, Inr (0, None))
          else (case (if we_smsclub v then gw_job gw i else None) of
            Some j \<Rightarrow> (project_job db now i j, Inr (0, None))
          | None \<Rightarrow>
              (case get_active_master_with_services db (wo_master_id w) of
                 Inl e \<Rightarrow> (db, Inl e)
               | Inr m \<Rightarrow>
                   (case (if wo_start_at w \<le> hold_end v now
                          then conflict ''Slot is too close for the offer hold''
                          else slot_free v db now (ms_id m) (wo_start_at w) (wo_end_at w) (Some (wo_id w))) of
                      Inl (HTTPException _ _) \<Rightarrow>
                        (put_request (release_request r)
                           (put_offer (close_offer OCancelled now ''slot_no_longer_available'' w) db), Inr (0, None))
                    | Inl e \<Rightarrow> (db, Inl e)
                    | Inr _ \<Rightarrow>
                        let w = w\<lparr>wo_token_hash := we_digest v (gw_token gw i)\<rparr>
                        in case and_then (offer_flush w db) (\<lambda>db. send_offer v gw db now w) of
                             Inl e \<Rightarrow> (db, Inl e)
                           | Inr (db, sent) \<Rightarrow>
                               if sent then (db, Inr (1, None))
                               else if queued_offer v db (wo_id w) then (db, Inr (0, None))
                               else (db, Inr (0, Some (freed_by_offer w))))))
      | _ \<Rightarrow> (db, Inr (0, None)))"

definition send_due_one ::
  "waitlist_env \<Rightarrow> gateway \<Rightarrow> instant \<Rightarrow> int \<Rightarrow> int \<Rightarrow> salon \<Rightarrow> salon \<times> int result" where
  "send_due_one v gw now i request_id db =
     (case send_due_locked v gw now i request_id db of
        (db, Inl e) \<Rightarrow> (db, Inl e)
      | (db, Inr (n, None)) \<Rightarrow> (db, Inr n)
      | (db, Inr (n, Some f)) \<Rightarrow>
          (case offer_slot v gw db now f of (db, Inl e) \<Rightarrow> (db, Inl e) | (db, Inr _) \<Rightarrow> (db, Inr n)))"

text \<open>A loop over committed steps stops at the first error and adds up what its steps return.\<close>

fun committed_loop :: "('x \<Rightarrow> salon \<Rightarrow> salon \<times> int result) \<Rightarrow> 'x list \<Rightarrow> salon \<Rightarrow> int \<Rightarrow> salon \<times> int result" where
  "committed_loop step [] db n = (db, Inr n)"
| "committed_loop step (x # xs) db n =
     (case step x db of
        (db, Inl e) \<Rightarrow> (db, Inl e)
      | (db, Inr k) \<Rightarrow> committed_loop step xs db (n + k))"

definition send_due_offers :: "waitlist_env \<Rightarrow> gateway \<Rightarrow> salon \<Rightarrow> instant \<Rightarrow> salon \<times> int result" where
  "send_due_offers v gw db now =
     committed_loop (\<lambda>(i, request_id). send_due_one v gw now i request_id)
       (map (\<lambda>w. (wo_id w, wo_request_id w))
          (select_where (\<lambda>w. wo_status w = OPending \<and> wo_scheduled_at w \<le> now) (offers db))) db 0"

definition reoffer_slots :: "waitlist_env \<Rightarrow> gateway \<Rightarrow> instant \<Rightarrow> freed_slot list \<Rightarrow> salon \<Rightarrow> salon \<times> int result" where
  "reoffer_slots v gw now slots db =
     committed_loop (\<lambda>f db. case offer_slot v gw db now f of
          (db, Inl e) \<Rightarrow> (db, Inl e)
        | (db, Inr w) \<Rightarrow> (db, Inr (if w = None then 0 else 1))) slots db 0"

definition delivery_reason :: "delivery \<Rightarrow> string" where
  "delivery_reason d = (case d of Enroute \<Rightarrow> ''sms_enroute'' | Delivery_done \<Rightarrow> ''sms_delivrd''
     | Delivery_expired \<Rightarrow> ''sms_expired'' | Undeliverable \<Rightarrow> ''sms_undeliv'' | Rejected \<Rightarrow> ''sms_rejectd'')"

text \<open>
  Delivery reports. The offers are read without a lock and their objects kept while the provider is
  asked, so \<open>found\<close> and the requests \<open>seen\<close> by the session may be older than the rows the reports write.
\<close>

definition reported :: "(string \<rightharpoonup> delivery) \<Rightarrow> waitlist_offer \<Rightarrow> delivery option" where
  "reported statuses w = (case wo_provider_message_id w of None \<Rightarrow> None | Some m \<Rightarrow> statuses m)"

definition delivered_offer :: "instant \<Rightarrow> waitlist_offer \<Rightarrow> waitlist_offer" where
  "delivered_offer now w = w\<lparr>wo_status := ODelivered, wo_delivered_at := Some now\<rparr>"

definition report_offer ::
  "instant \<Rightarrow> (string \<rightharpoonup> delivery) \<Rightarrow> (int \<rightharpoonup> waitlist_request) \<Rightarrow> waitlist_offer \<Rightarrow> salon \<Rightarrow> salon result" where
  "report_offer now statuses seen w db =
     (case reported statuses w of
        None \<Rightarrow> Inr db
      | Some Enroute \<Rightarrow> Inr db
      | Some Delivery_done \<Rightarrow> Inr (rewrite_offer (wo_id w) (delivered_offer now) db)
      | Some d \<Rightarrow>
          let db = rewrite_offer (wo_id w) (close_offer OCancelled now (delivery_reason d)) db
          in (case seen (wo_request_id w) of
                None \<Rightarrow> Inr db
              | Some r \<Rightarrow> if wr_status r = WOffered then rewrite_request (wo_request_id w) back_to_active db
                         else Inr db))"

definition apply_reports ::
  "instant \<Rightarrow> (string \<rightharpoonup> delivery) \<Rightarrow> (int \<rightharpoonup> waitlist_request) \<Rightarrow> waitlist_offer list \<Rightarrow> salon \<Rightarrow> salon result" where
  "apply_reports now statuses seen found db = for_each (report_offer now statuses seen) found db"

definition undelivered :: "(string \<rightharpoonup> delivery) \<Rightarrow> waitlist_offer \<Rightarrow> bool" where
  "undelivered statuses w \<longleftrightarrow> reported statuses w \<notin> {None, Some Enroute, Some Delivery_done}"

definition updated_count :: "(string \<rightharpoonup> delivery) \<Rightarrow> waitlist_offer list \<Rightarrow> int" where
  "updated_count statuses found = int (length (filter (\<lambda>w. reported statuses w \<notin> {None, Some Enroute}) found))"

definition sent_offers :: "salon \<Rightarrow> waitlist_offer list" where
  "sent_offers db = select_where (\<lambda>w. wo_status w = OSent \<and> wo_provider_message_id w \<noteq> None) (offers db)"

fun collect_statuses ::
  "(string list \<Rightarrow> (string \<times> delivery) list result) \<Rightarrow> string list list \<Rightarrow> (string \<rightharpoonup> delivery)
    \<Rightarrow> (string \<rightharpoonup> delivery) result" where
  "collect_statuses query [] statuses = Inr statuses"
| "collect_statuses query (b # bs) statuses =
     and_then (query b) (\<lambda>found. collect_statuses query bs (foldl (\<lambda>m (k, d). m(k \<mapsto> d)) statuses found))"

text \<open>The whole of it when no other transaction comes between.\<close>

definition sync_delivery_statuses :: "waitlist_env \<Rightarrow> gateway \<Rightarrow> salon \<Rightarrow> instant \<Rightarrow> salon \<times> int result" where
  "sync_delivery_statuses v gw db now =
     (let found = sent_offers db
      in if found = [] then (db, Inr 0)
         else case collect_statuses (gw_statuses gw)
                (batches 100 (map (\<lambda>w. the (wo_provider_message_id w)) found)) Map.empty of
                Inl e \<Rightarrow> (db, Inl e)
              | Inr statuses \<Rightarrow>
                  (case apply_reports now statuses (get (requests db)) found db of
                     Inl e \<Rightarrow> (db, Inl e)
                   | Inr db \<Rightarrow>
                       (case reoffer_slots v gw now (map freed_by_offer (filter (undelivered statuses) found)) db of
                          (db, Inl e) \<Rightarrow> (db, Inl e)
                        | (db, Inr _) \<Rightarrow> (db, Inr (updated_count statuses found)))))"

definition expire_hold :: "instant \<Rightarrow> int \<times> int \<Rightarrow> salon \<times> waitlist_offer list \<Rightarrow> salon \<times> waitlist_offer list" where
  "expire_hold now = (\<lambda>(i, request_id) (db, expired).
     (case (get (requests db) request_id, get (offers db) i) of
        (Some r, Some w) \<Rightarrow>
          if wo_request_id w \<noteq> wr_id r \<or> \<not> active_hold w \<or> wo_expires_at w > now then (db, expired)
          else let w = close_offer OExpired now ''hold_expired'' w
               in (put_request (release_request r) (put_offer w db), expired @ [w])
      | _ \<Rightarrow> (db, expired)))"

definition expire_holds :: "salon \<Rightarrow> instant \<Rightarrow> salon \<times> waitlist_offer list" where
  "expire_holds db now =
     fold (expire_hold now)
       (map (\<lambda>w. (wo_id w, wo_request_id w))
          (select_where (\<lambda>w. active_hold w \<and> wo_expires_at w \<le> now) (offers db))) (db, [])"

definition expire_and_offer_next :: "waitlist_env \<Rightarrow> gateway \<Rightarrow> salon \<Rightarrow> instant \<Rightarrow> salon \<times> int result" where
  "expire_and_offer_next v gw db now =
     (let (db, expired) = expire_holds db now
      in if expired = [] then (db, Inr 0) else reoffer_slots v gw now (map freed_by_offer expired) db)"

text \<open>
  One iteration when no other transaction comes between; an error ends it and keeps what was committed.
  The transactions it consists of are the steps of \<^verbatim>\<open>Claims\<close>, where others may come between.
\<close>

definition scheduler_iteration :: "waitlist_env \<Rightarrow> gateway \<Rightarrow> salon \<Rightarrow> instant \<Rightarrow> salon" where
  "scheduler_iteration v gw db now =
     (case send_due_offers v gw (fst (expire_due_requests db now)) now of
        (db, Inl _) \<Rightarrow> db
      | (db, Inr _) \<Rightarrow>
          (case sync_delivery_statuses v gw db now of
             (db, Inl _) \<Rightarrow> db
           | (db, Inr _) \<Rightarrow> fst (expire_and_offer_next v gw db now)))"

section \<open>Claiming an offer\<close>

definition find_by_token :: "waitlist_env \<Rightarrow> salon \<Rightarrow> string \<Rightarrow> waitlist_offer option result" where
  "find_by_token v db token =
     (case select_where (\<lambda>w. wo_token_hash w = we_digest v token) (offers db) of
        [] \<Rightarrow> Inr None | [w] \<Rightarrow> Inr (Some w) | _ \<Rightarrow> Inl MultipleResultsFound)"

definition claimed_booking :: "waitlist_offer \<Rightarrow> master \<Rightarrow> master \<Rightarrow> service list \<Rightarrow> customer \<Rightarrow> int \<Rightarrow> booking" where
  "claimed_booking w master public_master items c new_id =
     \<lparr>bk_id = new_id, bk_master_id = ms_id master,
      bk_service_id = (case items of [] \<Rightarrow> 0 | s # _ \<Rightarrow> sv_id s), bk_customer_id = Some (cu_id c),
      bk_redirected_from_master_id =
        (if ms_id public_master \<noteq> ms_id master then Some (ms_id public_master) else None),
      bk_customer_name = join_text '' '' (map the (filter truthy_text [cu_name c, cu_surname c])),
      bk_customer_phone = cu_phone c, bk_customer_email = cu_email c, bk_customer_comment = None,
      bk_start_at = wo_start_at w, bk_end_at = wo_end_at w, bk_status = Confirmed, bk_source = Web,
      bk_cancelled_at = None, bk_completed_at = None, bk_promotion_id = None,
      bk_campaign_offer_id = None, bk_campaign_offer_reservation_id = None,
      bk_first_visit_customer_id = None, bk_mode_snapshot = None, bk_eligibility_snapshot = None,
      bk_code_snapshot = None, bk_name_uk_snapshot = None, bk_name_en_snapshot = None,
      bk_percent_snapshot = None, bk_subtotal_amount = None, bk_promotion_discount_amount = None,
      bk_manual_discount_amount = 0, bk_total_amount = None,
      bk_service_items = number_items 0 sv_price items\<rparr>"

text \<open>
  A claim reads the offer of its token without a lock. It then locks the request and the offer, but the
  second read of the offer does not refresh the object: its columns are those of the first read, \<open>w\<close>.
  The request is read first under its lock. A claim that finds the offer unusable closes it, commits and
  then raises; the commit fails when it reopens a request that has an open equivalent.
\<close>

definition refuse_claim ::
  "instant \<Rightarrow> string \<Rightarrow> string \<Rightarrow> waitlist_request \<Rightarrow> waitlist_offer \<Rightarrow> salon \<Rightarrow> salon \<times> booking result" where
  "refuse_claim now reason detail r w db =
     (case request_flush (back_to_active r) (rewrite_offer (wo_id w) (close_offer OCancelled now reason) db) of
        Inl e \<Rightarrow> (db, Inl e)
      | Inr db \<Rightarrow> (db, conflict detail))"

definition claimed_offer :: "instant \<Rightarrow> waitlist_offer \<Rightarrow> waitlist_offer" where
  "claimed_offer now w = (close_offer OClaimed now ''claimed'' w)\<lparr>wo_claimed_at := Some now\<rparr>"

definition booked_request :: "instant \<Rightarrow> waitlist_request \<Rightarrow> waitlist_request" where
  "booked_request now r = r\<lparr>wr_status := WBooked, wr_booked_at := Some now, wr_closed_at := Some now,
     wr_close_reason := Some ''offer_claimed''\<rparr>"

definition book_claim ::
  "waitlist_env \<Rightarrow> salon \<Rightarrow> instant \<Rightarrow> waitlist_request \<Rightarrow> waitlist_offer \<Rightarrow> master \<Rightarrow> master \<Rightarrow> service list
    \<Rightarrow> (salon \<times> booking) result" where
  "book_claim v db now r w master public_master items =
     (case get (customers db) (wr_customer_id r) of
        None \<Rightarrow> Inl AttributeError
      | Some c \<Rightarrow>
          and_then (apply_to_booking (we_zone v) Inr db default_options
              (claimed_booking w master public_master items c (next_id (bookings db))) None None (Some c) items
              (Aware (wo_start_at w))) (\<lambda>b.
          and_then (booking_flush b db) (\<lambda>db.
          let db = record_booking_sms_consent db now (cu_id c) (bk_id b) False
          in Inr (put_request (booked_request now r) (rewrite_offer (wo_id w) (claimed_offer now) db), b))))"

text \<open>The claim of a live hold.\<close>

definition settle_claim ::
  "waitlist_env \<Rightarrow> salon \<Rightarrow> instant \<Rightarrow> waitlist_request \<Rightarrow> waitlist_offer \<Rightarrow> salon \<times> booking result" where
  "settle_claim v db now r w =
     (case get_active_master_with_services db (wo_master_id w) of
        Inl e \<Rightarrow> (db, Inl e)
      | Inr master \<Rightarrow>
          (case public_offer_master db r w of
             None \<Rightarrow> refuse_claim now ''public_master_no_longer_available_at_claim''
                       ''Selected master is no longer available'' r w db
           | Some public_master \<Rightarrow>
               let items = (case matching_services db master (request_services db r) of
                              None \<Rightarrow> [] | Some ms \<Rightarrow> ms)
               in if items = []
                  then refuse_claim now ''services_no_longer_supported''
                         ''Services are no longer available'' r w db
                  else (case slot_free v db now (ms_id master) (wo_start_at w) (wo_end_at w)
                          (Some (wo_id w)) of
                    Inl (HTTPException _ _) \<Rightarrow>
                      refuse_claim now ''slot_no_longer_available_at_claim''
                        ''Slot is no longer available'' r w db
                  | Inl e \<Rightarrow> (db, Inl e)
                  | Inr _ \<Rightarrow>
                      (case book_claim v db now r w master public_master items of
                         Inl e \<Rightarrow> (db, Inl e)
                       | Inr (db, b) \<Rightarrow> (db, Inr b)))))"

text \<open>The part of a claim after its first read.\<close>

definition claim_locked :: "waitlist_env \<Rightarrow> salon \<Rightarrow> instant \<Rightarrow> string \<Rightarrow> waitlist_offer \<Rightarrow> salon \<times> booking result" where
  "claim_locked v db now token w =
     (if map_option wo_token_hash (get (offers db) (wo_id w)) \<noteq> Some (we_digest v token)
      then (db, Inl (HTTPException 410 ''Offer is no longer available''))
      else case get (requests db) (wo_request_id w) of
        None \<Rightarrow> (db, if active_hold w then Inl AttributeError
                      else Inl (HTTPException 410 ''Offer is no longer available''))
      | Some r \<Rightarrow>
          if \<not> active_hold w \<or> wo_expires_at w \<le> now \<or> wo_start_at w \<le> now
          then (if active_hold w
                then put_request (release_request r)
                       (rewrite_offer (wo_id w) (close_offer OExpired now ''claim_after_expiry'') db) else db,
                Inl (HTTPException 410 ''Offer is no longer available''))
          else settle_claim v db now r w)"

text \<open>A claim when no other transaction comes between.\<close>

definition claim :: "waitlist_env \<Rightarrow> salon \<Rightarrow> instant \<Rightarrow> string \<Rightarrow> salon \<times> booking result" where
  "claim v db now token =
     (case find_by_token v db token of
        Inl e \<Rightarrow> (db, Inl e)
      | Inr None \<Rightarrow> (db, Inl (HTTPException 410 ''Offer is no longer available''))
      | Inr (Some w) \<Rightarrow> claim_locked v db now token w)"

end
