(* ===== verification/Claims.thy ===== *)
theory Claims
  imports Offers
begin

text \<open>
  The transactions of the waiting list and what each keeps when it writes the rows it read: a request
  is \<open>offered\<close> exactly while one offer of it is open, open requests have distinct deduplication keys,
  and a claim books its slot like any other booking. Operations that commit on their way are sequences
  of these steps. Writes that come late, over rows that changed since they were read, are the subject
  of \<^verbatim>\<open>Races\<close>.
\<close>

section \<open>Rewriting the rows a query found\<close>

lemma fold_put_select:
  assumes "has_id f t" and "\<And>r. f (g r) = f r"
  shows "get (fold (\<lambda>r. put (f r) (g r)) (select_where P t) t) i
    = map_option (\<lambda>r. if P r then g r else r) (get t i)"
    and "has_id f (fold (\<lambda>r. put (f r) (g r)) (select_where P t) t)"
proof -
  have gen: "get (fold (\<lambda>r. put (f r) (g r)) rs u) i
      = (if \<exists>r \<in> set rs. f r = i then Some (g (the (find (\<lambda>r. f r = i) (rev rs)))) else get u i)" for rs u
  proof (induction rs arbitrary: u rule: rev_induct)
    case Nil
    show ?case by simp
  next
    case (snoc r rs)
    then show ?case by (auto simp: get_put)
  qed
  show "get (fold (\<lambda>r. put (f r) (g r)) (select_where P t) t) i = map_option (\<lambda>r. if P r then g r else r) (get t i)"
  proof (cases "\<exists>r \<in> set (select_where P t). f r = i")
    case True
    then obtain r where r: "find (\<lambda>r. f r = i) (rev (select_where P t)) = Some r"
      by (cases "find (\<lambda>r. f r = i) (rev (select_where P t))") (auto simp: find_None_iff)
    from find_Some_mem [OF this] have "r \<in> set (rows t)" "P r" "f r = i"
      by (auto simp: select_where_def)
    with has_id_rows [OF assms(1)] have "get t i = Some r" "P r" by auto
    with True r show ?thesis by (simp add: gen)
  next
    case False
    have "\<not> P r" if "get t i = Some r" for r
      using False has_id_get [OF assms(1) that] get_in_rows [OF that] by (auto simp: select_where_def)
    with False show ?thesis by (cases "get t i") (auto simp: gen)
  qed
  have "has_id f u \<Longrightarrow> has_id f (fold (\<lambda>r. put (f r) (g r)) rs u)" for rs u
    by (induction rs arbitrary: u) (simp_all add: has_id_put assms(2))
  with assms(1) show "has_id f (fold (\<lambda>r. put (f r) (g r)) (select_where P t) t)" by blast
qed

lemma fold_put_offer:
  assumes "\<And>w. wo_id (g w) = wo_id w"
  shows "fold (\<lambda>w. put_offer (g w)) ws db = db\<lparr>offers := fold (\<lambda>w. put (wo_id w) (g w)) ws (offers db)\<rparr>"
  by (induction ws arbitrary: db) (simp_all add: put_offer_def assms)

lemma fold_put_request:
  assumes "\<And>r. wr_id (g r) = wr_id r"
  shows "fold (\<lambda>r. put_request (g r)) rs db = db\<lparr>requests := fold (\<lambda>r. put (wr_id r) (g r)) rs (requests db)\<rparr>"
  by (induction rs arbitrary: db) (simp_all add: put_request_def assms)

section \<open>The invariant of the waiting list\<close>

definition list_ok :: "salon \<Rightarrow> bool" where
  "list_ok db \<longleftrightarrow> has_id wr_id (requests db) \<and> has_id wo_id (offers db)
     \<and> (\<forall>i w. get (offers db) i = Some w \<and> open_offer w \<longrightarrow>
          (\<exists>r. get (requests db) (wo_request_id w) = Some r \<and> wr_status r = WOffered))
     \<and> (\<forall>i r. get (requests db) i = Some r \<and> wr_status r = WOffered \<longrightarrow>
          (\<exists>j w. get (offers db) j = Some w \<and> open_offer w \<and> wo_request_id w = i))
     \<and> (\<forall>i w j q. get (offers db) i = Some w \<and> open_offer w \<and> get (offers db) j = Some q \<and> open_offer q
          \<and> wo_request_id w = wo_request_id q \<longrightarrow> i = j)
     \<and> (\<forall>i r j q. get (requests db) i = Some r \<and> open_request r \<and> get (requests db) j = Some q \<and> open_request q
          \<and> wr_dedup_key_hash r = wr_dedup_key_hash q \<longrightarrow> i = j)
     \<and> (\<forall>i w j q. get (offers db) i = Some w \<and> get (offers db) j = Some q
          \<and> wo_token_hash w = wo_token_hash q \<longrightarrow> i = j)"

lemma list_okD:
  assumes "list_ok db"
  shows "has_id wr_id (requests db)" "has_id wo_id (offers db)"
    "\<And>i w. get (offers db) i = Some w \<Longrightarrow> open_offer w \<Longrightarrow>
       \<exists>r. get (requests db) (wo_request_id w) = Some r \<and> wr_status r = WOffered"
    "\<And>i r. get (requests db) i = Some r \<Longrightarrow> wr_status r = WOffered \<Longrightarrow>
       \<exists>j w. get (offers db) j = Some w \<and> open_offer w \<and> wo_request_id w = i"
    "\<And>i w j q. get (offers db) i = Some w \<Longrightarrow> open_offer w \<Longrightarrow> get (offers db) j = Some q \<Longrightarrow> open_offer q \<Longrightarrow>
       wo_request_id w = wo_request_id q \<Longrightarrow> i = j"
    "\<And>i r j q. get (requests db) i = Some r \<Longrightarrow> open_request r \<Longrightarrow> get (requests db) j = Some q \<Longrightarrow>
       open_request q \<Longrightarrow> wr_dedup_key_hash r = wr_dedup_key_hash q \<Longrightarrow> i = j"
    "\<And>i w j q. get (offers db) i = Some w \<Longrightarrow> get (offers db) j = Some q \<Longrightarrow>
       wo_token_hash w = wo_token_hash q \<Longrightarrow> i = j"
  using assms unfolding list_ok_def by blast+

lemma list_okI:
  assumes "has_id wr_id (requests db)" "has_id wo_id (offers db)"
    "\<And>i w. get (offers db) i = Some w \<Longrightarrow> open_offer w \<Longrightarrow>
       \<exists>r. get (requests db) (wo_request_id w) = Some r \<and> wr_status r = WOffered"
    "\<And>i r. get (requests db) i = Some r \<Longrightarrow> wr_status r = WOffered \<Longrightarrow>
       \<exists>j w. get (offers db) j = Some w \<and> open_offer w \<and> wo_request_id w = i"
    "\<And>i w j q. get (offers db) i = Some w \<Longrightarrow> open_offer w \<Longrightarrow> get (offers db) j = Some q \<Longrightarrow> open_offer q \<Longrightarrow>
       wo_request_id w = wo_request_id q \<Longrightarrow> i = j"
    "\<And>i r j q. get (requests db) i = Some r \<Longrightarrow> open_request r \<Longrightarrow> get (requests db) j = Some q \<Longrightarrow>
       open_request q \<Longrightarrow> wr_dedup_key_hash r = wr_dedup_key_hash q \<Longrightarrow> i = j"
    "\<And>i w j q. get (offers db) i = Some w \<Longrightarrow> get (offers db) j = Some q \<Longrightarrow>
       wo_token_hash w = wo_token_hash q \<Longrightarrow> i = j"
  shows "list_ok db"
  using assms unfolding list_ok_def by blast

lemma list_ok_tables: "requests db' = requests db \<Longrightarrow> offers db' = offers db \<Longrightarrow> list_ok db' = list_ok db"
  by (simp add: list_ok_def)

lemma rewrite_offer_row: "get (offers db) i = Some w \<Longrightarrow> rewrite_offer i g db = put_offer (g w) db"
  by (simp add: rewrite_offer_def)

lemma request_flush_put: "request_flush r db = Inr db' \<Longrightarrow> db' = put_request r db"
  by (simp add: request_flush_def put_request_def split: if_splits)

lemma rewrite_request_Inr:
  "rewrite_request i g db = Inr db' \<Longrightarrow> get (requests db) i = Some r \<Longrightarrow> db' = put_request (g r) db"
  by (simp add: rewrite_request_def request_flush_put)

definition same_request :: "waitlist_request \<Rightarrow> waitlist_request \<Rightarrow> bool" where
  "same_request r r' \<longleftrightarrow> wr_id r' = wr_id r \<and> wr_dedup_key_hash r' = wr_dedup_key_hash r"

lemma same_request_simps [simp]:
  "same_request r r" "same_request r (release_request r)" "same_request r (back_to_active r)"
  "same_request r (reoffered w r)"
  by (simp_all add: same_request_def release_request_def back_to_active_def reoffered_def)

lemma open_cases [simp]:
  "open_offer (close_offer OCancelled now reason w) = False"
  "open_offer (close_offer OExpired now reason w) = False"
  "open_offer (close_offer OClaimed now reason w) = False"
  "open_offer (sent_offer v now m w)"
  "wr_status (back_to_active r) = WActive"
  by (simp_all add: close_offer_def open_offer_def sent_offer_def back_to_active_def Let_def)

lemma release_offered [simp]: "wr_status r = WOffered \<Longrightarrow> release_request r = back_to_active r"
  by (simp add: release_request_def)

text \<open>An operation of the list writes requests and offers only.\<close>

definition list_only :: "salon \<Rightarrow> salon \<Rightarrow> bool" where
  "list_only db db' \<longleftrightarrow> masters db' = masters db \<and> base_services db' = base_services db
     \<and> services db' = services db \<and> customers db' = customers db \<and> bookings db' = bookings db
     \<and> windows db' = windows db \<and> blocks db' = blocks db \<and> promotions db' = promotions db
     \<and> preferences db' = preferences db"

lemma list_only_simps [simp]:
  "list_only db db" "list_only db (put_request r db') = list_only db db'"
  "list_only db (put_offer w db') = list_only db db'"
  "list_only (put_request r db) db' = list_only db db'" "list_only (put_offer w db) db' = list_only db db'"
  by (simp_all add: list_only_def)

lemma list_only_trans [trans]: "list_only a b \<Longrightarrow> list_only b c \<Longrightarrow> list_only a c"
  by (simp add: list_only_def)

lemma list_only_bookings: "list_only db db' \<Longrightarrow> bookings db' = bookings db"
  by (simp add: list_only_def)

text \<open>An open offer and its request change together.\<close>

lemma list_ok_change:
  assumes ok: "list_ok db"
    and w: "get (offers db) (wo_id w) = Some w" "open_offer w"
    and r: "get (requests db) (wo_request_id w) = Some r"
    and same: "wo_id w' = wo_id w" "wo_request_id w' = wo_request_id w" "same_request r r'"
    and token: "\<And>i q. get (offers db) i = Some q \<Longrightarrow> i \<noteq> wo_id w \<Longrightarrow> wo_token_hash q \<noteq> wo_token_hash w'"
    and agree: "open_offer w' \<longleftrightarrow> wr_status r' = WOffered"
  shows "list_ok (put_request r' (put_offer w' db))"
proof -
  have ids: "wr_id r = wo_request_id w" "wo_id w' = wo_id w" "wo_request_id w' = wo_request_id w"
      "wr_id r' = wo_request_id w" "wr_dedup_key_hash r' = wr_dedup_key_hash r"
    using has_id_get [OF list_okD(1) [OF ok] r] same by (simp_all add: same_request_def)
  have offered: "wr_status r = WOffered" using list_okD(3) [OF ok w] r by simp
  then have openr: "open_request r" by (simp add: open_request_def)
  have only: "\<And>i q. get (offers db) i = Some q \<Longrightarrow> open_offer q \<Longrightarrow> wo_request_id q = wo_request_id w \<Longrightarrow> i = wo_id w"
    using list_okD(5) [OF ok _ _ w] by blast
  show ?thesis
  proof (rule list_okI)
    show "has_id wr_id (requests (put_request r' (put_offer w' db)))"
      "has_id wo_id (offers (put_request r' (put_offer w' db)))"
      using list_okD(1,2) [OF ok] by (simp_all add: has_id_put)
  next
    fix i q assume "get (offers (put_request r' (put_offer w' db))) i = Some q" "open_offer q"
    then show "\<exists>r. get (requests (put_request r' (put_offer w' db))) (wo_request_id q) = Some r \<and> wr_status r = WOffered"
      using agree ids only [of i q] list_okD(3) [OF ok, of i q] by (auto simp: get_put split: if_splits)
  next
    fix i q assume "get (requests (put_request r' (put_offer w' db))) i = Some q" "wr_status q = WOffered"
    then consider "i = wo_request_id w" "q = r'" "open_offer w'"
      | "i \<noteq> wo_request_id w" "get (requests db) i = Some q"
      using ids agree by (auto simp: get_put split: if_splits)
    then show "\<exists>j p. get (offers (put_request r' (put_offer w' db))) j = Some p \<and> open_offer p \<and> wo_request_id p = i"
    proof cases
      case 1
      then show ?thesis using ids by (intro exI [of _ "wo_id w"] exI [of _ w']) simp
    next
      case 2
      then obtain j p where p: "get (offers db) j = Some p" "open_offer p" "wo_request_id p = i"
        using list_okD(4) [OF ok] \<open>wr_status q = WOffered\<close> by blast
      then have "j \<noteq> wo_id w" using 2 w by auto
      with p ids show ?thesis by (intro exI [of _ j] exI [of _ p]) simp
    qed
  next
    fix i q j p
    assume "get (offers (put_request r' (put_offer w' db))) i = Some q" "open_offer q"
      "get (offers (put_request r' (put_offer w' db))) j = Some p" "open_offer p" "wo_request_id q = wo_request_id p"
    then show "i = j"
      using ids only [of i q] only [of j p] list_okD(5) [OF ok, of i q j p] by (auto simp: get_put split: if_splits)
  next
    fix i q j p
    assume "get (requests (put_request r' (put_offer w' db))) i = Some q" "open_request q"
      "get (requests (put_request r' (put_offer w' db))) j = Some p" "open_request p"
      "wr_dedup_key_hash q = wr_dedup_key_hash p"
    moreover have "\<exists>q0. get (requests db) i = Some q0 \<and> open_request q0 \<and> wr_dedup_key_hash q0 = wr_dedup_key_hash q"
      if "get (requests (put_request r' (put_offer w' db))) i = Some q" "open_request q" for i q
      using that ids openr r by (cases "i = wo_request_id w") (auto simp: get_put)
    ultimately show "i = j" using list_okD(6) [OF ok] by metis
  next
    fix i q j p
    assume "get (offers (put_request r' (put_offer w' db))) i = Some q"
      "get (offers (put_request r' (put_offer w' db))) j = Some p" "wo_token_hash q = wo_token_hash p"
    then show "i = j"
      using ids token [of i q] token [of j p] list_okD(7) [OF ok, of i q j p] by (auto simp: get_put split: if_splits)
  qed
qed

definition listed :: "salon \<Rightarrow> salon \<Rightarrow> bool" where
  "listed db db' \<longleftrightarrow> list_ok db' \<and> list_only db db'
     \<and> (\<forall>i w. get (offers db) i = Some w \<and> \<not> open_offer w \<longrightarrow> get (offers db') i = Some w)"

lemma listed_trans [trans]: "listed a b \<Longrightarrow> listed b c \<Longrightarrow> listed a c"
  unfolding listed_def using list_only_trans by blast

lemma listed_change:
  assumes "list_ok db" "get (offers db) (wo_id w) = Some w" "open_offer w"
    and "get (requests db) (wo_request_id w) = Some r"
    and "wo_id w' = wo_id w" "wo_request_id w' = wo_request_id w" "same_request r r'"
    and "\<And>i q. get (offers db) i = Some q \<Longrightarrow> i \<noteq> wo_id w \<Longrightarrow> wo_token_hash q \<noteq> wo_token_hash w'"
    and "open_offer w' \<longleftrightarrow> wr_status r' = WOffered"
  shows "listed db (put_request r' (put_offer w' db))"
  using list_ok_change [OF assms] assms(2,3,5) by (auto simp: listed_def get_put)

lemma listed_pair:
  assumes ok: "list_ok db"
    and w: "get (offers db) (wo_id w) = Some w" "open_offer w"
    and r: "get (requests db) (wo_request_id w) = Some r"
    and same: "same_offer w w'" "same_request r r'"
    and agree: "open_offer w' \<longleftrightarrow> wr_status r' = WOffered"
  shows "listed db (put_request r' (put_offer w' db))"
  by (rule listed_change [OF ok w r])
    (use same agree list_okD(7) [OF ok _ w(1)] in \<open>auto simp: same_offer_def\<close>)

lemma put_same: "get t i = Some r \<Longrightarrow> put i r t = t"
  by (induction t) (auto split: if_splits)

lemma put_request_same: "get (requests db) (wr_id r) = Some r \<Longrightarrow> put_request r db = db"
  by (simp add: put_request_def put_same)

text \<open>An open offer changes and stays open.\<close>

lemma listed_offer:
  assumes ok: "list_ok db" and w: "get (offers db) (wo_id w) = Some w" "open_offer w"
    and same: "wo_id w' = wo_id w" "wo_request_id w' = wo_request_id w" "open_offer w'"
    and token: "\<And>i q. get (offers db) i = Some q \<Longrightarrow> i \<noteq> wo_id w \<Longrightarrow> wo_token_hash q \<noteq> wo_token_hash w'"
  shows "listed db (put_offer w' db)"
proof -
  obtain r where r: "get (requests db) (wo_request_id w) = Some r" "wr_status r = WOffered"
    using list_okD(3) [OF ok w] by blast
  have "wr_id r = wo_request_id w" by (rule has_id_get [OF list_okD(1) [OF ok] r(1)])
  with r(1) have "put_request r (put_offer w' db) = put_offer w' db"
    by (intro put_request_same) simp
  moreover have "listed db (put_request r (put_offer w' db))"
    by (rule listed_change [OF ok w r(1) same(1,2) _ token]) (simp_all add: same r)
  ultimately show ?thesis by simp
qed

lemma listed_same_offer:
  assumes ok: "list_ok db" and w: "get (offers db) (wo_id w) = Some w" "open_offer w"
    and same: "same_offer w w'" "open_offer w'"
  shows "listed db (put_offer w' db)"
  by (rule listed_offer [OF ok w])
    (use same list_okD(7) [OF ok _ w(1)] in \<open>auto simp: same_offer_def\<close>)

text \<open>A new offer for a request that was active.\<close>

lemma listed_place:
  assumes ok: "list_ok db" and r: "get (requests db) (wr_id r) = Some r" "wr_status r = WActive"
    and w: "wo_id w = next_id (offers db)" "wo_request_id w = wr_id r" "open_offer w"
    and token: "\<And>i q. get (offers db) i = Some q \<Longrightarrow> wo_token_hash q \<noteq> wo_token_hash w"
  shows "listed db (put_offer w (put_request (r\<lparr>wr_status := WOffered, wr_offered_at := t\<rparr>) db))"
proof -
  define r' where "r' = r\<lparr>wr_status := WOffered, wr_offered_at := t\<rparr>"
  have r': "wr_id r' = wr_id r" "wr_status r' = WOffered" "wr_dedup_key_hash r' = wr_dedup_key_hash r"
    by (simp_all add: r'_def)
  have fresh: "get (offers db) (wo_id w) = None" by (simp add: w)
  have none: "wo_request_id q \<noteq> wr_id r" if "get (offers db) i = Some q" "open_offer q" for i q
    using list_okD(3) [OF ok that] r by auto
  have openr: "open_request r" using r by (simp add: open_request_def)
  have "list_ok (put_offer w (put_request r' db))"
  proof (rule list_okI)
    show "has_id wr_id (requests (put_offer w (put_request r' db)))"
      "has_id wo_id (offers (put_offer w (put_request r' db)))"
      using list_okD(1,2) [OF ok] by (simp_all add: has_id_put)
  next
    fix i q assume "get (offers (put_offer w (put_request r' db))) i = Some q" "open_offer q"
    then show "\<exists>r. get (requests (put_offer w (put_request r' db))) (wo_request_id q) = Some r \<and> wr_status r = WOffered"
      using r' w list_okD(3) [OF ok, of i q] by (auto simp: get_put split: if_splits)
  next
    fix i q assume q: "get (requests (put_offer w (put_request r' db))) i = Some q" "wr_status q = WOffered"
    show "\<exists>j p. get (offers (put_offer w (put_request r' db))) j = Some p \<and> open_offer p \<and> wo_request_id p = i"
    proof (cases "i = wr_id r")
      case True
      with w show ?thesis by (intro exI [of _ "wo_id w"] exI [of _ w]) simp
    next
      case False
      with q r' obtain j p where p: "get (offers db) j = Some p" "open_offer p" "wo_request_id p = i"
        using list_okD(4) [OF ok, of i q] by (auto simp: get_put split: if_splits)
      with fresh have "j \<noteq> wo_id w" by auto
      with p show ?thesis by (intro exI [of _ j] exI [of _ p]) simp
    qed
  next
    fix i q j p
    assume "get (offers (put_offer w (put_request r' db))) i = Some q" "open_offer q"
      "get (offers (put_offer w (put_request r' db))) j = Some p" "open_offer p" "wo_request_id q = wo_request_id p"
    then show "i = j"
      using w none [of i q] none [of j p] list_okD(5) [OF ok, of i q j p] by (auto simp: get_put split: if_splits)
  next
    fix i q j p
    assume "get (requests (put_offer w (put_request r' db))) i = Some q" "open_request q"
      "get (requests (put_offer w (put_request r' db))) j = Some p" "open_request p"
      "wr_dedup_key_hash q = wr_dedup_key_hash p"
    moreover have "\<exists>q0. get (requests db) i = Some q0 \<and> open_request q0 \<and> wr_dedup_key_hash q0 = wr_dedup_key_hash q"
      if "get (requests (put_offer w (put_request r' db))) i = Some q" "open_request q" for i q
      using that r' openr r by (cases "i = wr_id r") (auto simp: get_put)
    ultimately show "i = j" using list_okD(6) [OF ok] by metis
  next
    fix i q j p
    assume "get (offers (put_offer w (put_request r' db))) i = Some q"
      "get (offers (put_offer w (put_request r' db))) j = Some p" "wo_token_hash q = wo_token_hash p"
    then show "i = j"
      using token [of i q] token [of j p] list_okD(7) [OF ok, of i q j p] by (auto simp: get_put split: if_splits)
  qed
  moreover have "get (offers (put_offer w (put_request r' db))) i = Some q" if "get (offers db) i = Some q" for i q
    using that fresh by (auto simp: get_put)
  ultimately show ?thesis by (simp add: listed_def r'_def)
qed

section \<open>The operations keep it\<close>

lemma send_offer_listed:
  assumes "send_offer v gw db now w = Inr (db', sent)" and ok: "list_ok db"
    and w: "get (offers db) (wo_id w) = Some w" "wo_status w = OPending"
  shows "listed db db'"
proof -
  have openw: "open_offer w" using w by (simp add: open_offer_def)
  obtain r where r: "get (requests db) (wo_request_id w) = Some r" "wr_status r = WOffered"
    using list_okD(3) [OF ok w(1) openw] by blast
  from assms(1) r(1) show ?thesis
  proof (cases rule: send_offer_cases)
    case (gone r' reason)
    then have "r' = back_to_active r" using r by auto
    with gone listed_pair [OF ok w(1) openw r(1), of "close_offer OCancelled now reason w" "back_to_active r"]
    show ?thesis by simp
  next
    case queued
    with listed_same_offer [OF ok w(1) openw, of "w\<lparr>wo_expires_at := hold_end v now\<rparr>"] w
    show ?thesis by (simp add: open_offer_def)
  next
    case (sent m)
    with listed_pair [OF ok w(1) openw r(1), of "sent_offer v now m w" "r\<lparr>wr_status := WOffered, wr_offered_at := Some now\<rparr>"]
    show ?thesis by (simp add: same_request_def)
  qed
qed

lemma offer_attempt_listed:
  assumes "list_ok db"
  shows "offer_attempt v gw db now f = Ended db' res \<Longrightarrow> listed db db'"
    and "offer_attempt v gw db now f = Retry db' \<Longrightarrow> listed db db'"
proof -
  have start: "listed db db" using assms by (simp add: listed_def)
  have placed: "listed db db1 \<and> get (offers db1) (wo_id w) = Some w \<and> wo_status w = OPending"
    if chosen: "eligible_requests v db now master source (fs_start_at f) (fs_end_at f) = r # rs"
      and place: "place_offer w now r db = Inr db1" and w: "w = new_offer v gw db now master source f r"
    for master source r rs db1 w
  proof -
    have r: "get (requests db) (wr_id r) = Some r" "wr_status r = WActive"
      using eligible_requests_head [OF chosen] has_id_rows [OF list_okD(1) [OF assms]] by blast+
    have new: "wo_id w = next_id (offers db)" "wo_request_id w = wr_id r" "wo_status w = OPending"
      by (simp_all add: w new_offer_def Let_def)
    have flush: "db1 = put_offer w (put_request (r\<lparr>wr_status := WOffered, wr_offered_at := Some now\<rparr>) db)
        \<and> wo_start_at w < wo_end_at w
        \<and> (\<forall>q \<in> set (rows (offers db)). wo_id q \<noteq> wo_id w \<longrightarrow> wo_token_hash q \<noteq> wo_token_hash w)"
      using offer_flush_Inr [OF place [unfolded place_offer_def]] by simp
    have token: "wo_token_hash q \<noteq> wo_token_hash w" if q: "get (offers db) i = Some q" for i q
    proof -
      have "wo_id q = i" by (rule has_id_get [OF list_okD(2) [OF assms] q])
      moreover have "i \<noteq> wo_id w" using q new(1) by auto
      ultimately show ?thesis using flush get_in_rows [OF q] by blast
    qed
    from listed_place [OF assms r new(1,2) _ token] flush new show ?thesis
      by (simp add: open_offer_def)
  qed
  have sent: "listed db db2"
    if "eligible_requests v db now master source (fs_start_at f) (fs_end_at f) = r # rs"
      and "place_offer (new_offer v gw db now master source f r) now r db = Inr db1"
      and "send_offer v gw db1 now (new_offer v gw db now master source f r) = Inr (db2, b)"
    for master source r rs db1 db2 b
    using placed [OF that(1,2) refl] send_offer_listed [OF that(3)] listed_trans
    unfolding listed_def by blast
  show "offer_attempt v gw db now f = Ended db' res \<Longrightarrow> listed db db'"
    "offer_attempt v gw db now f = Retry db' \<Longrightarrow> listed db db'"
    using start unfolding offer_attempt_def Let_def
    by (auto dest: placed [OF _ _ refl] sent split: if_splits sum.splits list.splits prod.splits)
qed

lemma listed_refl: "list_ok db \<Longrightarrow> listed db db"
  by (simp add: listed_def)

lemma listed_ok: "listed db db' \<Longrightarrow> list_ok db'"
  by (simp add: listed_def)

lemma sms_job_outcome_listed:
  assumes ok: "list_ok db"
  shows "listed db (sms_job_outcome db now i j)"
proof (cases "\<exists>w r. get (offers db) i = Some w \<and> get (requests db) (wo_request_id w) = Some r \<and> open_offer w")
  case True
  then obtain w r where w: "get (offers db) i = Some w" "open_offer w"
    and r: "get (requests db) (wo_request_id w) = Some r" by blast
  have i: "wo_id w = i" by (rule has_id_get [OF list_okD(2) [OF ok] w(1)])
  have off: "wr_status r = WOffered" using list_okD(3) [OF ok w] r by simp
  note w' = w(1) [folded i] w(2)
  have acc: "same_offer w (accepted_offer now j w)" "open_offer (accepted_offer now j w)"
    "wr_status (reoffered (accepted_offer now j w) r) = WOffered"
    using off by (simp_all add: accepted_offer_def same_offer_def open_offer_def Let_def reoffered_def open_request_def)
  have 1: "listed db (put_request (reoffered (accepted_offer now j w) r) (put_offer (accepted_offer now j w) db))"
    using listed_pair [OF ok w' r acc(1)] acc by simp
  have 2: "listed db (put_request (release_request r) (put_offer (close_offer OCancelled now reason w) db))" for reason
    using listed_pair [OF ok w' r, of "close_offer OCancelled now reason w" "release_request r"] off by simp
  have 3: "listed db (put_offer (w\<lparr>wo_close_reason := reason\<rparr>) db)" for reason
    using listed_same_offer [OF ok w', of "w\<lparr>wo_close_reason := reason\<rparr>"] w(2)
    by (simp add: same_offer_def open_offer_def)
  show ?thesis
    using 1 2 3 w r listed_refl [OF ok] by (simp add: sms_job_outcome_def Let_def)
next
  case False
  moreover have "open_offer w" if "wo_status w = OPending \<or> wo_status w = OSent" for w
    using that by (auto simp: open_offer_def)
  ultimately show ?thesis
    using listed_refl [OF ok] by (auto simp: sms_job_outcome_def split: option.splits)
qed

lemma project_job_listed: "list_ok db \<Longrightarrow> listed db (project_job db now i j)"
  by (simp add: project_job_def sms_job_outcome_listed listed_refl)

text \<open>What one candidate of the scheduler comes to; the offer is read under its lock.\<close>

lemma send_due_locked_cases:
  assumes "send_due_locked v gw now i request_id db = (db', res)"
  obtains (unchanged) "db' = db"
  | (projected) j where "db' = project_job db now i j"
  | (gone) r w where "get (requests db) request_id = Some r" "get (offers db) i = Some w" "wo_request_id w = wr_id r"
      "wo_status w = OPending"
      "db' = put_request (release_request r) (put_offer (close_offer OCancelled now ''slot_no_longer_available'' w) db)"
  | (sent) r w db1 sent where "get (requests db) request_id = Some r" "get (offers db) i = Some w"
      "wo_request_id w = wr_id r" "wo_status w = OPending"
      "offer_flush (w\<lparr>wo_token_hash := we_digest v (gw_token gw i)\<rparr>) db = Inr db1"
      "send_offer v gw db1 now (w\<lparr>wo_token_hash := we_digest v (gw_token gw i)\<rparr>) = Inr (db', sent)"
proof (cases "\<exists>r w. get (requests db) request_id = Some r \<and> get (offers db) i = Some w
    \<and> \<not> (\<not> open_request r \<or> wo_request_id w \<noteq> wr_id r \<or> wo_status w \<noteq> OPending \<or> wo_scheduled_at w > now)")
  case False
  then have "send_due_locked v gw now i request_id db = (db, Inr (0, None))"
    by (cases "get (requests db) request_id"; cases "get (offers db) i") (auto simp: send_due_locked_def)
  with assms have "db' = db" by simp
  then show thesis by (rule unchanged)
next
  case True
  then obtain r w where r: "get (requests db) request_id = Some r" and w: "get (offers db) i = Some w"
    and due: "\<not> (\<not> open_request r \<or> wo_request_id w \<noteq> wr_id r \<or> wo_status w \<noteq> OPending \<or> wo_scheduled_at w > now)"
    by blast
  then have rw: "wo_request_id w = wr_id r" "wo_status w = OPending" by simp_all
  define w1 where "w1 = w\<lparr>wo_token_hash := we_digest v (gw_token gw i)\<rparr>"
  define guard :: "master \<Rightarrow> unit result" where "guard m = (if wo_start_at w \<le> hold_end v now
      then conflict ''Slot is too close for the offer hold''
      else slot_free v db now (ms_id m) (wo_start_at w) (wo_end_at w) (Some (wo_id w)))" for m
  define send where "send = and_then (offer_flush w1 db) (\<lambda>db. send_offer v gw db now w1)"
  have run: "(case (if we_smsclub v then gw_job gw i else None) of
        Some j \<Rightarrow> (project_job db now i j, Inr (0, None))
      | None \<Rightarrow>
          (case get_active_master_with_services db (wo_master_id w) of
             Inl e \<Rightarrow> (db, Inl e)
           | Inr m \<Rightarrow>
               (case guard m of
                  Inl (HTTPException _ _) \<Rightarrow>
                    (put_request (release_request r)
                       (put_offer (close_offer OCancelled now ''slot_no_longer_available'' w) db), Inr (0, None))
                | Inl e \<Rightarrow> (db, Inl e)
                | Inr _ \<Rightarrow>
                    (case send of
                       Inl e \<Rightarrow> (db, Inl e)
                     | Inr (db, sent) \<Rightarrow>
                         if sent then (db, Inr (1, None))
                         else if queued_offer v db (wo_id w1) then (db, Inr (0, None))
                         else (db, Inr (0, Some (freed_by_offer w1))))))) = (db', res)"
    using due assms unfolding send_due_locked_def r w option.case prod.case guard_def send_def w1_def Let_def
    by (simp only: if_False)
  show thesis
  proof (cases "if we_smsclub v then gw_job gw i else None")
    case (Some j)
    with run have "db' = project_job db now i j" by simp
    then show thesis by (rule projected)
  next
    case None
    show thesis
    proof (cases "get_active_master_with_services db (wo_master_id w)")
      case (Inl e)
      with None run have "db' = db" by simp
      then show thesis by (rule unchanged)
    next
      case master: (Inr m)
      show thesis
      proof (cases "guard m")
        case (Inl e)
        with None master run have "db' = db \<or> db' = put_request (release_request r)
            (put_offer (close_offer OCancelled now ''slot_no_longer_available'' w) db)"
          by (cases e) auto
        with gone [OF r w rw] unchanged show thesis by blast
      next
        case free: (Inr u)
        show thesis
        proof (cases send)
          case (Inl e)
          with None master free run have "db' = db" by simp
          then show thesis by (rule unchanged)
        next
          case (Inr p)
          obtain db2 b where p: "p = (db2, b)" by (cases p)
          with None master free Inr run have "db' = db2" by (simp split: if_splits)
          with Inr p obtain db1 where "offer_flush w1 db = Inr db1" "send_offer v gw db1 now w1 = Inr (db', b)"
            by (auto simp: send_def and_then_eq_Inr)
          from sent [OF r w rw this [unfolded w1_def]] show thesis .
        qed
      qed
    qed
  qed
qed

lemma send_due_locked_listed:
  assumes run: "send_due_locked v gw now i request_id db = (db', res)" and ok: "list_ok db"
  shows "listed db db'"
  using run
proof (cases rule: send_due_locked_cases)
  case unchanged
  with listed_refl [OF ok] show ?thesis by simp
next
  case (projected j)
  with project_job_listed [OF ok] show ?thesis by simp
next
  case (gone r w)
  have ids: "wo_id w = i" "wr_id r = request_id"
    by (rule has_id_get [OF list_okD(2) [OF ok] gone(2)], rule has_id_get [OF list_okD(1) [OF ok] gone(1)])
  have openw: "open_offer w" using gone(4) by (simp add: open_offer_def)
  have r: "get (requests db) (wo_request_id w) = Some r" using gone(1,3) ids by simp
  have off: "wr_status r = WOffered" using list_okD(3) [OF ok gone(2) openw] r by simp
  show ?thesis
    using listed_pair [OF ok gone(2) [folded ids(1)] openw r,
        of "close_offer OCancelled now ''slot_no_longer_available'' w" "release_request r"] gone(5) off
    by simp
next
  case (sent r w db1 b)
  define w1 where "w1 = w\<lparr>wo_token_hash := we_digest v (gw_token gw i)\<rparr>"
  have openw: "open_offer w" using sent(4) by (simp add: open_offer_def)
  have id: "wo_id w = i" by (rule has_id_get [OF list_okD(2) [OF ok] sent(2)])
  have w1: "wo_request_id w1 = wo_request_id w" "open_offer w1" "wo_id w1 = wo_id w" "wo_status w1 = OPending"
    using sent(4) openw by (simp_all add: w1_def open_offer_def)
  have db1: "db1 = put_offer w1 db" using offer_flush_Inr [OF sent(5)] by (simp add: w1_def)
  have fresh: "listed db db1"
    unfolding db1
  proof (rule listed_offer [OF ok sent(2) [folded id] openw w1(3,1,2)])
    fix k q assume q: "get (offers db) k = Some q" "k \<noteq> wo_id w"
    then have "wo_id q \<noteq> wo_id w1" using has_id_get [OF list_okD(2) [OF ok] q(1)] w1(3) by simp
    with offer_flush_Inr [OF sent(5) [folded w1_def]] get_in_rows [OF q(1)]
    show "wo_token_hash q \<noteq> wo_token_hash w1" by blast
  qed
  have "listed db1 db'"
    using send_offer_listed [OF sent(6) [folded w1_def] listed_ok [OF fresh]] w1 db1 by simp
  with fresh show ?thesis by (rule listed_trans)
qed

text \<open>
  What the session has read is current: the offers are the rows of the table, and the requests it has
  seen have the status they have there.
\<close>

definition reads_current :: "salon \<Rightarrow> (int \<rightharpoonup> waitlist_request) \<Rightarrow> waitlist_offer list \<Rightarrow> bool" where
  "reads_current db seen found \<longleftrightarrow> distinct (map wo_id found)
     \<and> list_all (\<lambda>w. get (offers db) (wo_id w) = Some w \<and> wo_status w = OSent
          \<and> map_option wr_status (seen (wo_request_id w)) = map_option wr_status (get (requests db) (wo_request_id w))) found"

lemma report_offer_others:
  assumes "report_offer now statuses seen w db = Inr db'" and "get (offers db) (wo_id w) = Some w"
    and "i \<noteq> wo_id w"
  shows "get (offers db') i = get (offers db) i"
  using assms
  by (auto simp: report_offer_def rewrite_offer_row delivered_offer_def close_offer_def rewrite_request_def Let_def
      dest!: request_flush_put split: option.splits delivery.splits if_splits)

lemma apply_reports_chain:
  assumes "apply_reports now statuses seen ws db = Inr db'" and "distinct (map wo_id ws)"
    and "\<And>w. w \<in> set ws \<Longrightarrow> get (offers db) (wo_id w) = Some w" and "R db"
    and "\<And>a w b. R a \<Longrightarrow> w \<in> set ws \<Longrightarrow> get (offers a) (wo_id w) = Some w
      \<Longrightarrow> report_offer now statuses seen w a = Inr b \<Longrightarrow> R b"
  shows "R db'"
  using assms
proof (induction ws arbitrary: db)
  case Nil
  then show ?case by (simp add: apply_reports_def)
next
  case (Cons w ws)
  from Cons.prems(1) obtain db1 where one: "report_offer now statuses seen w db = Inr db1"
    and rest: "apply_reports now statuses seen ws db1 = Inr db'"
    by (auto simp: apply_reports_def and_then_eq_Inr)
  have w: "get (offers db) (wo_id w) = Some w" using Cons.prems(3) by simp
  have "R db1" by (rule Cons.prems(5) [OF Cons.prems(4) _ w one]) simp
  moreover have "get (offers db1) (wo_id q) = Some q" if "q \<in> set ws" for q
  proof -
    have "wo_id q \<noteq> wo_id w" using Cons.prems(2) that by (auto simp: image_iff)
    with report_offer_others [OF one w this] Cons.prems(3) [of q] that show ?thesis by simp
  qed
  moreover have "R b" if "R a" "q \<in> set ws" "get (offers a) (wo_id q) = Some q" "report_offer now statuses seen q a = Inr b"
    for a q b
    by (rule Cons.prems(5) [OF that(1) _ that(3,4)]) (simp add: that(2))
  ultimately show ?case
    using Cons.prems(2) Cons.IH [OF rest] by (metis distinct.simps(2) list.simps(9))
qed

lemma report_offer_listed:
  assumes ok: "list_ok db" and w: "get (offers db) (wo_id w) = Some w" "open_offer w"
    and seen: "map_option wr_status (seen (wo_request_id w)) = Some WOffered"
    and run: "report_offer now statuses seen w db = Inr db'"
  shows "listed db db'"
proof -
  obtain r where r: "get (requests db) (wo_request_id w) = Some r" "wr_status r = WOffered"
    using list_okD(3) [OF ok w] by blast
  have delivered: "listed db (put_offer (delivered_offer now w) db)"
    using listed_same_offer [OF ok w, of "delivered_offer now w"]
    by (simp add: delivered_offer_def same_offer_def open_offer_def)
  have failed: "listed db (put_request (back_to_active r) (put_offer (close_offer OCancelled now reason w) db))" for reason
    using listed_pair [OF ok w r(1), of "close_offer OCancelled now reason w" "back_to_active r"] by simp
  obtain q where q: "seen (wo_request_id w) = Some q" "wr_status q = WOffered" using seen by auto
  have close: "db' = put_request (back_to_active r) (put_offer (close_offer OCancelled now reason w) db)"
    if "rewrite_request (wo_request_id w) back_to_active (put_offer (close_offer OCancelled now reason w) db) = Inr db'"
    for reason
    by (rule rewrite_request_Inr [OF that]) (simp add: r)
  show ?thesis
  proof (cases "reported statuses w")
    case None
    with run listed_refl [OF ok] show ?thesis by (simp add: report_offer_def)
  next
    case (Some d)
    have failing: "listed db db'" if "report_offer now statuses seen w db
        = rewrite_request (wo_request_id w) back_to_active (put_offer (close_offer OCancelled now reason w) db)" for reason
      using close [of reason] failed [of reason] that run by simp
    show ?thesis
    proof (cases "d = Enroute \<or> d = Delivery_done")
      case True
      with run Some delivered listed_refl [OF ok] show ?thesis
        by (auto simp: report_offer_def rewrite_offer_row [OF w(1)])
    next
      case False
      with Some q show ?thesis
        by (intro failing [of "delivery_reason d"])
          (cases d; simp add: report_offer_def rewrite_offer_row [OF w(1)] Let_def)
    qed
  qed
qed

lemma apply_reports_listed:
  assumes "apply_reports now statuses seen found db = Inr db'" and "reads_current db seen found" and ok: "list_ok db"
  shows "listed db db'"
  using assms(1)
proof (rule apply_reports_chain [where R = "listed db"])
  show "distinct (map wo_id found)" using assms(2) by (simp add: reads_current_def)
  show "listed db db" by (rule listed_refl [OF ok])
  show "get (offers db) (wo_id w) = Some w" if "w \<in> set found" for w
    using assms(2) that by (simp add: reads_current_def list_all_iff)
next
  fix a w b
  assume a: "listed db a" "w \<in> set found" "get (offers a) (wo_id w) = Some w" "report_offer now statuses seen w a = Inr b"
  have w: "get (offers db) (wo_id w) = Some w" "open_offer w"
    "map_option wr_status (seen (wo_request_id w)) = map_option wr_status (get (requests db) (wo_request_id w))"
    using assms(2) a(2) by (auto simp: reads_current_def list_all_iff open_offer_def)
  then have "map_option wr_status (seen (wo_request_id w)) = Some WOffered" using list_okD(3) [OF ok w(1,2)] by auto
  from listed_trans [OF a(1) report_offer_listed [OF listed_ok [OF a(1)] a(3) w(2) this a(4)]]
  show "listed db b" .
qed

lemma select_distinct: "has_id f t \<Longrightarrow> distinct (map f (select_where P t))"
proof -
  assume ids: "has_id f t"
  have eq: "map f (rows t) = ids t"
  proof -
    have "f r = i" if "(i, r) \<in> set t" for i r
      using has_id_get [OF ids] that ids by (simp add: has_id_def table_ok_def ids_def map_of_is_SomeI)
    then show ?thesis by (auto simp: rows_def ids_def)
  qed
  then have "distinct (map f (rows t))" using ids by (simp add: has_id_def table_ok_def)
  then show ?thesis by (simp add: select_where_def distinct_map_filter)
qed

lemma selected_row: "has_id f t \<Longrightarrow> r \<in> set (select_where P t) \<Longrightarrow> get t (f r) = Some r \<and> P r"
  using has_id_rows by (fastforce simp: select_where_def)

lemma expire_hold_listed:
  assumes ok: "list_ok db"
  shows "listed db (fst (expire_hold now (i, request_id) (db, expired)))"
proof (cases "\<exists>r w. get (requests db) request_id = Some r \<and> get (offers db) i = Some w
    \<and> wo_request_id w = wr_id r \<and> active_hold w")
  case True
  then obtain r w where r: "get (requests db) request_id = Some r" and w: "get (offers db) i = Some w"
    and due: "wo_request_id w = wr_id r" "active_hold w" by blast
  have ids: "wo_id w = i" "wr_id r = request_id"
    by (rule has_id_get [OF list_okD(2) [OF ok] w], rule has_id_get [OF list_okD(1) [OF ok] r])
  have openw: "open_offer w" using due by (auto simp: open_offer_def active_hold_def)
  have r': "get (requests db) (wo_request_id w) = Some r" using r due ids by simp
  have off: "wr_status r = WOffered" using list_okD(3) [OF ok w openw] r' by simp
  have "listed db (put_request (release_request r) (put_offer (close_offer OExpired now ''hold_expired'' w) db))"
    using listed_pair [OF ok w [folded ids(1)] openw r', of "close_offer OExpired now ''hold_expired'' w" "release_request r"] off
    by simp
  then show ?thesis using r w by (simp add: expire_hold_def listed_refl ok Let_def)
next
  case False
  then have "expire_hold now (i, request_id) (db, expired) = (db, expired)"
    by (cases "get (requests db) request_id"; cases "get (offers db) i") (auto simp: expire_hold_def)
  then show ?thesis by (simp add: listed_refl ok)
qed

text \<open>Closing a request together with every open offer of it.\<close>

lemma list_ok_close:
  assumes ok: "list_ok db" and g: "\<And>r. wr_id (g r) = wr_id r \<and> \<not> open_request (g r)"
    and h: "\<And>w. same_offer w (h w) \<and> \<not> open_offer (h w)"
    and reqs: "\<And>i. get (requests db') i = map_option (\<lambda>r. if P r then g r else r) (get (requests db) i)"
    and offs: "\<And>i. get (offers db') i
        = map_option (\<lambda>w. if wo_request_id w \<in> closed \<and> open_offer w then h w else w) (get (offers db) i)"
    and closed: "\<And>i r. get (requests db) i = Some r \<Longrightarrow> i \<in> closed \<longleftrightarrow> P r"
    and "has_id wr_id (requests db')" "has_id wo_id (offers db')"
  shows "list_ok db'"
proof -
  have not_offered: "wr_status (g r) \<noteq> WOffered" for r using g [of r] by (auto simp: open_request_def)
  have off: "get (offers db') i = Some q \<and> open_offer q \<longleftrightarrow>
      get (offers db) i = Some q \<and> open_offer q \<and> wo_request_id q \<notin> closed" for i q
    using h by (cases "get (offers db) i") (auto simp: offs)
  have req: "get (requests db') i = Some q \<and> open_request q \<longleftrightarrow>
      get (requests db) i = Some q \<and> open_request q \<and> \<not> P q" for i q
    using g by (cases "get (requests db) i") (auto simp: reqs)
  show ?thesis
  proof (rule list_okI)
    show "has_id wr_id (requests db')" "has_id wo_id (offers db')" by (fact assms)+
  next
    fix i w assume "get (offers db') i = Some w" "open_offer w"
    then have w: "get (offers db) i = Some w" "open_offer w" "wo_request_id w \<notin> closed" using off by blast+
    then obtain r where r: "get (requests db) (wo_request_id w) = Some r" "wr_status r = WOffered"
      using list_okD(3) [OF ok] by blast
    with closed w(3) have "\<not> P r" by blast
    with r show "\<exists>r. get (requests db') (wo_request_id w) = Some r \<and> wr_status r = WOffered" by (simp add: reqs)
  next
    fix i r assume "get (requests db') i = Some r" "wr_status r = WOffered"
    then have r: "get (requests db) i = Some r" "\<not> P r" using req [of i r] by (auto simp: open_request_def)
    then obtain j w where w: "get (offers db) j = Some w" "open_offer w" "wo_request_id w = i"
      using list_okD(4) [OF ok] \<open>wr_status r = WOffered\<close> by blast
    with closed r have "i \<notin> closed" by blast
    with off w show "\<exists>j w. get (offers db') j = Some w \<and> open_offer w \<and> wo_request_id w = i" by blast
  next
    fix i w j q
    assume "get (offers db') i = Some w" "open_offer w" "get (offers db') j = Some q" "open_offer q"
      "wo_request_id w = wo_request_id q"
    with off list_okD(5) [OF ok] show "i = j" by blast
  next
    fix i r j q
    assume "get (requests db') i = Some r" "open_request r" "get (requests db') j = Some q" "open_request q"
      "wr_dedup_key_hash r = wr_dedup_key_hash q"
    with req list_okD(6) [OF ok] show "i = j" by blast
  next
    fix i w j q
    assume "get (offers db') i = Some w" "get (offers db') j = Some q" "wo_token_hash w = wo_token_hash q"
    moreover have "\<exists>w0. get (offers db) i = Some w0 \<and> wo_token_hash w0 = wo_token_hash w"
      if "get (offers db') i = Some w" for i w
      using that h by (auto simp: offs same_offer_def)
    ultimately show "i = j" using list_okD(7) [OF ok] by metis
  qed
qed

lemma closed_offer_keeps: "wo_id (close_offer s now reason w) = wo_id w"
  by (simp add: close_offer_def)

lemma cancel_request_listed:
  assumes "cancel_request db now r = Inr (db', slots)" and ok: "list_ok db" and r: "get (requests db) (wr_id r) = Some r"
  shows "listed db db'"
proof -
  define c where "c q = q\<lparr>wr_status := WCancelled, wr_closed_at := Some now,
    wr_close_reason := Some ''cancelled_by_customer''\<rparr>" for q :: waitlist_request
  define P where "P w \<longleftrightarrow> wo_request_id w = wr_id r \<and> open_offer w" for w :: waitlist_offer
  define g where "g = close_offer OCancelled now ''request_cancelled_by_customer''"
  have id_g: "wo_id (g w) = wo_id w" for w by (simp add: g_def close_offer_def)
  have db': "db' = (put_request (c r) db)\<lparr>offers := fold (\<lambda>w. put (wo_id w) (g w)) (select_where P (offers db)) (offers db)\<rparr>"
    using assms(1) by (auto simp: cancel_request_def Let_def c_def P_def [abs_def] g_def fold_put_offer
        closed_offer_keeps split: if_splits)
  note off = fold_put_select [OF list_okD(2) [OF ok], of g P, OF id_g]
  have "list_ok db'"
  proof (rule list_ok_close [OF ok, where P = "\<lambda>q. wr_id q = wr_id r" and closed = "{wr_id r}" and g = c and h = g])
    fix i show "get (requests db') i = map_option (\<lambda>q. if wr_id q = wr_id r then c q else q) (get (requests db) i)"
    proof (cases "i = wr_id r")
      case True
      with r show ?thesis by (simp add: db' c_def put_request_def)
    next
      case False
      then have "wr_id q \<noteq> wr_id r" if "get (requests db) i = Some q" for q
        using has_id_get [OF list_okD(1) [OF ok] that] by simp
      with False show ?thesis by (cases "get (requests db) i") (simp_all add: db' c_def put_request_def)
    qed
  next
    fix i show "get (offers db') i = map_option (\<lambda>w. if wo_request_id w \<in> {wr_id r} \<and> open_offer w then g w else w)
        (get (offers db) i)"
      by (simp add: db' off P_def)
  next
    show "has_id wr_id (requests db')" "has_id wo_id (offers db')"
      using list_okD(1) [OF ok] off(2) by (simp_all add: db' put_request_def has_id_put c_def)
  next
    fix i q assume "get (requests db) i = Some q"
    then show "i \<in> {wr_id r} \<longleftrightarrow> wr_id q = wr_id r" using has_id_get [OF list_okD(1) [OF ok]] by auto
  qed (simp_all add: c_def g_def open_request_def)
  then show ?thesis by (auto simp: listed_def list_only_def db' put_request_def off P_def)
qed

lemma expire_due_requests_listed:
  assumes ok: "list_ok db"
  shows "listed db (fst (expire_due_requests db now))"
proof -
  define P where "P r \<longleftrightarrow> open_request r \<and> wr_expires_at r \<le> now" for r :: waitlist_request
  define c where "c q = q\<lparr>wr_status := WExpired, wr_closed_at := Some now, wr_close_reason := Some ''expired''\<rparr>"
    for q :: waitlist_request
  define closed where "closed = wr_id ` set (select_where P (requests db))"
  define Q where "Q w \<longleftrightarrow> wo_request_id w \<in> closed \<and> open_offer w" for w :: waitlist_offer
  define g where "g = close_offer OExpired now ''request_expired''"
  have id_c: "wr_id (c q) = wr_id q" for q by (simp add: c_def)
  have id_g: "wo_id (g w) = wo_id w" for w by (simp add: g_def close_offer_def)
  have db': "fst (expire_due_requests db now) =
      db\<lparr>requests := fold (\<lambda>r. put (wr_id r) (c r)) (select_where P (requests db)) (requests db),
         offers := fold (\<lambda>w. put (wo_id w) (g w)) (select_where Q (offers db)) (offers db)\<rparr>"
    unfolding expire_due_requests_def Let_def fst_conv P_def [abs_def, symmetric] c_def [symmetric] closed_def [symmetric]
      g_def [symmetric] Q_def [abs_def, symmetric] fold_put_request [of c, OF id_c]
    by (simp add: fold_put_offer [of g, OF id_g])
  note req = fold_put_select [OF list_okD(1) [OF ok], of c P, OF id_c]
  note off = fold_put_select [OF list_okD(2) [OF ok], of g Q, OF id_g]
  have "list_ok (fst (expire_due_requests db now))"
  proof (rule list_ok_close [OF ok, where P = P and closed = closed and g = c and h = g])
    fix i r assume r: "get (requests db) i = Some r"
    show "i \<in> closed \<longleftrightarrow> P r"
    proof
      assume "i \<in> closed"
      then obtain q where q: "q \<in> set (select_where P (requests db))" "wr_id q = i" by (auto simp: closed_def)
      with selected_row [OF list_okD(1) [OF ok] q(1)] r show "P r" by simp
    next
      assume "P r"
      with get_in_rows [OF r] have "r \<in> set (select_where P (requests db))" by (simp add: select_where_def)
      then show "i \<in> closed" using has_id_get [OF list_okD(1) [OF ok] r] by (auto simp: closed_def)
    qed
  next
    fix i
    show "get (requests (fst (expire_due_requests db now))) i
        = map_option (\<lambda>r. if P r then c r else r) (get (requests db) i)"
      by (simp add: db' req)
    show "get (offers (fst (expire_due_requests db now))) i
        = map_option (\<lambda>w. if wo_request_id w \<in> closed \<and> open_offer w then g w else w) (get (offers db) i)"
      by (simp add: db' off Q_def)
  next
    show "has_id wr_id (requests (fst (expire_due_requests db now)))"
      "has_id wo_id (offers (fst (expire_due_requests db now)))"
      using req(2) off(2) by (simp_all add: db')
  qed (simp_all add: c_def g_def open_request_def)
  then show ?thesis by (auto simp: listed_def list_only_def db' off Q_def)
qed

text \<open>Joining the list.\<close>

lemma waitlist_customer_Inr:
  "waitlist_customer db phone name = Inr (db', c) \<Longrightarrow>
     requests db' = requests db \<and> offers db' = offers db \<and> bookings db' = bookings db"
  by (auto simp: waitlist_customer_def customer_flush_def and_then_eq_Inr Let_def split: option.splits if_splits)

lemma waitlist_create_Inr:
  assumes "waitlist_create v db now token p = Inr (db', r)"
  obtains db1 c where "waitlist_customer db (cu_phone c) (wp_customer_name p) = Inr (db1, c) \<or> True"
    "requests db1 = requests db" "offers db1 = offers db" "bookings db1 = bookings db"
    "wr_id r = next_id (requests db)" "wr_status r = WActive" "wr_created_at r = now" "request_flush r db1 = Inr db'"
    "\<And>q. q \<in> set (rows (requests db)) \<Longrightarrow> open_request q \<Longrightarrow> wr_dedup_key_hash q \<noteq> wr_dedup_key_hash r"
proof -
  from assms obtain phone items master where
    1: "normalize_customer_phone (wp_customer_phone p) = Inr phone"
    "get_active_services db (wp_service_ids p) = Inr items"
    "preferred_master db p = Inr master"
    by (auto simp: waitlist_create_def Let_def and_then_eq_Inr split: if_splits)
  from assms 1 obtain db1 c where c: "waitlist_customer db phone (wp_customer_name p) = Inr (db1, c)"
    by (auto simp: waitlist_create_def Let_def and_then_eq_Inr split: if_splits)
  note kept = waitlist_customer_Inr [OF c]
  from assms 1 c kept have
    "wr_id r = next_id (requests db) \<and> wr_status r = WActive \<and> wr_created_at r = now \<and> request_flush r db1 = Inr db'
      \<and> select_where (\<lambda>q. wr_dedup_key_hash q = wr_dedup_key_hash r \<and> open_request q) (requests db) = []"
    unfolding waitlist_create_def
    by (auto simp: Let_def split: if_splits list.splits sum.splits)
  with kept show thesis
    by (intro that [of c db1]) (auto simp: select_where_def filter_empty_conv)
qed

lemma list_ok_join:
  assumes ok: "list_ok db" and "requests db' = put (wr_id r) r (requests db)" "offers db' = offers db"
    and "wr_id r = next_id (requests db)" "wr_status r = WActive"
    and fresh: "\<And>q. q \<in> set (rows (requests db)) \<Longrightarrow> open_request q \<Longrightarrow> wr_dedup_key_hash q \<noteq> wr_dedup_key_hash r"
  shows "list_ok db'"
proof (rule list_okI)
  show "has_id wr_id (requests db')" "has_id wo_id (offers db')"
    using list_okD(1,2) [OF ok] assms by (simp_all add: has_id_put)
next
  fix i w assume "get (offers db') i = Some w" "open_offer w"
  then obtain q where q: "get (requests db) (wo_request_id w) = Some q" "wr_status q = WOffered"
    using list_okD(3) [OF ok] assms(3) by auto
  moreover have "wo_request_id w \<noteq> wr_id r" using q assms(4) by (metis get_next_id option.distinct(1))
  ultimately show "\<exists>r. get (requests db') (wo_request_id w) = Some r \<and> wr_status r = WOffered"
    using assms(2) by simp
next
  fix i q assume "get (requests db') i = Some q" "wr_status q = WOffered"
  then show "\<exists>j w. get (offers db') j = Some w \<and> open_offer w \<and> wo_request_id w = i"
    using list_okD(4) [OF ok, of i q] assms(2,3,5) by (auto simp: get_put split: if_splits)
next
  fix i w j q assume "get (offers db') i = Some w" "open_offer w" "get (offers db') j = Some q" "open_offer q"
    "wo_request_id w = wo_request_id q"
  then show "i = j" using list_okD(5) [OF ok] assms(3) by simp
next
  fix i q j p assume "get (requests db') i = Some q" "open_request q" "get (requests db') j = Some p" "open_request p"
    "wr_dedup_key_hash q = wr_dedup_key_hash p"
  then show "i = j"
    using list_okD(6) [OF ok, of i q j p] fresh [OF get_in_rows, of i q] fresh [OF get_in_rows, of j p] assms(2)
    by (auto simp: get_put split: if_splits)
next
  fix i w j q assume "get (offers db') i = Some w" "get (offers db') j = Some q" "wo_token_hash w = wo_token_hash q"
  then show "i = j" using list_okD(7) [OF ok] assms(3) by simp
qed

lemma waitlist_create_ok:
  assumes "waitlist_create v db now token p = Inr (db', r)" and "list_ok db"
  shows "list_ok db' \<and> bookings db' = bookings db"
  using assms(1)
proof (rule waitlist_create_Inr)
  fix db1 c
  assume kept: "requests db1 = requests db" "offers db1 = offers db" "bookings db1 = bookings db"
    and r: "wr_id r = next_id (requests db)" "wr_status r = WActive" and flush: "request_flush r db1 = Inr db'"
    and fresh: "\<And>q. q \<in> set (rows (requests db)) \<Longrightarrow> open_request q \<Longrightarrow> wr_dedup_key_hash q \<noteq> wr_dedup_key_hash r"
  from flush have "db' = db1\<lparr>requests := put (wr_id r) r (requests db1)\<rparr>"
    by (simp add: request_flush_def split: if_splits)
  with kept list_ok_join [OF assms(2) _ _ r fresh, of db'] show ?thesis by simp
qed

section \<open>Claims\<close>

lemma consent_keeps [simp]:
  "bookings (record_booking_sms_consent db now c b m) = bookings db"
  "requests (record_booking_sms_consent db now c b m) = requests db"
  "offers (record_booking_sms_consent db now c b m) = offers db"
  by (auto simp: record_booking_sms_consent_def split: option.splits)

lemma rewrite_simps [simp]:
  "bookings (rewrite_offer i g db) = bookings db" "requests (rewrite_offer i g db) = requests db"
  by (simp_all add: rewrite_offer_def split: option.split)

lemma book_claim_Inr:
  assumes "book_claim v db now r w master public_master items = Inr (db', b)"
  obtains c db1 where "get (customers db) (wr_customer_id r) = Some c"
    "same_slot (claimed_booking w master public_master items c (next_id (bookings db))) b"
    "bookings db' = put (bk_id b) b (bookings db)"
    "requests db1 = requests db" "offers db1 = offers db"
    "db' = put_request (booked_request now r) (rewrite_offer (wo_id w) (claimed_offer now) db1)"
    "apply_to_booking (we_zone v) Inr db default_options
              (claimed_booking w master public_master items c (next_id (bookings db))) None None (Some c) items
              (Aware (wo_start_at w)) = Inr b"
proof -
  from assms obtain c db0 where c: "get (customers db) (wr_customer_id r) = Some c"
    and priced: "apply_to_booking (we_zone v) Inr db default_options
              (claimed_booking w master public_master items c (next_id (bookings db))) None None (Some c) items
              (Aware (wo_start_at w)) = Inr b"
    and flush: "booking_flush b db = Inr db0"
    and db': "db' = put_request (booked_request now r) (rewrite_offer (wo_id w) (claimed_offer now)
              (record_booking_sms_consent db0 now (cu_id c) (bk_id b) False))"
    by (auto simp: book_claim_def and_then_eq_Inr Let_def split: option.splits)
  have "same_slot (claimed_booking w master public_master items c (next_id (bookings db))) b"
    by (rule apply_same_slot [OF priced]) simp
  with c db' booking_flush_Inr [OF flush] show thesis by (intro that [OF c _ _ _ _ db' priced]) simp_all
qed

lemma refuse_claim_cases:
  assumes "refuse_claim now reason detail r w db = (db', res)"
  shows "(db' = db \<or> db' = put_request (back_to_active r) (rewrite_offer (wo_id w) (close_offer OCancelled now reason) db))
    \<and> (\<exists>e. res = Inl e)"
  using assms by (auto simp: refuse_claim_def dest!: request_flush_put split: sum.splits)

lemma settle_claim_cases:
  assumes "settle_claim v db now r w = (db', res)"
  obtains (unchanged) e where "db' = db" "res = Inl e"
  | (closed) reason e where
      "db' = put_request (back_to_active r) (rewrite_offer (wo_id w) (close_offer OCancelled now reason) db)" "res = Inl e"
  | (booked) master public_master items b where
      "get_active_master_with_services db (wo_master_id w) = Inr master"
      "public_offer_master db r w = Some public_master"
      "matching_services db master (request_services db r) = Some items" "items \<noteq> []"
      "slot_free v db now (ms_id master) (wo_start_at w) (wo_end_at w) (Some (wo_id w)) = Inr ()"
      "book_claim v db now r w master public_master items = Inr (db', b)" "res = Inr b"
proof -
  have refused: thesis if refuse: "refuse_claim now reason detail r w db = (db', res)" for reason detail
  proof -
    obtain e where e: "res = Inl e" using refuse_claim_cases [OF refuse] by blast
    show thesis
    proof (cases "db' = db")
      case True
      then show thesis using e by (rule unchanged)
    next
      case False
      with refuse_claim_cases [OF refuse] closed [OF _ e] show thesis by blast
    qed
  qed
  show thesis
proof (cases "get_active_master_with_services db (wo_master_id w)")
  case (Inl e)
  with assms have "db' = db" "res = Inl e" by (auto simp: settle_claim_def)
  then show thesis by (rule unchanged)
next
  case master: (Inr master)
  show thesis
  proof (cases "public_offer_master db r w")
    case None
    with master assms have "refuse_claim now ''public_master_no_longer_available_at_claim''
        ''Selected master is no longer available'' r w db = (db', res)"
      by (simp add: settle_claim_def)
    then show thesis by (rule refused)
  next
    case public: (Some public_master)
    define items where "items = (case matching_services db master (request_services db r) of None \<Rightarrow> [] | Some ms \<Rightarrow> ms)"
    have run: "(if items = []
        then refuse_claim now ''services_no_longer_supported'' ''Services are no longer available'' r w db
        else (case slot_free v db now (ms_id master) (wo_start_at w) (wo_end_at w) (Some (wo_id w)) of
                Inl (HTTPException _ _) \<Rightarrow>
                  refuse_claim now ''slot_no_longer_available_at_claim'' ''Slot is no longer available'' r w db
              | Inl e \<Rightarrow> (db, Inl e)
              | Inr _ \<Rightarrow> (case book_claim v db now r w master public_master items of
                             Inl e \<Rightarrow> (db, Inl e) | Inr (db, b) \<Rightarrow> (db, Inr b)))) = (db', res)"
      using assms unfolding settle_claim_def master public items_def Let_def by simp
    show thesis
    proof (cases "items = []")
      case True
      with run have "refuse_claim now ''services_no_longer_supported'' ''Services are no longer available'' r w db
          = (db', res)" by simp
      then show thesis by (rule refused)
    next
      case some: False
      then have ms: "matching_services db master (request_services db r) = Some items"
        by (auto simp: items_def split: option.splits)
      show thesis
      proof (cases "slot_free v db now (ms_id master) (wo_start_at w) (wo_end_at w) (Some (wo_id w))")
        case (Inl e)
        with run some have at: "(case e of HTTPException _ _ \<Rightarrow> refuse_claim now
              ''slot_no_longer_available_at_claim'' ''Slot is no longer available'' r w db
            | _ \<Rightarrow> (db, Inl e)) = (db', res)"
          by (cases e) simp_all
        show thesis
        proof (cases "\<exists>n d. e = HTTPException n d")
          case True
          with at show thesis by (intro refused) auto
        next
          case False
          with at have "db' = db" "res = Inl e" by (cases e; auto)+
          then show thesis by (rule unchanged)
        qed
      next
        case free: (Inr u)
        show thesis
        proof (cases "book_claim v db now r w master public_master items")
          case (Inl e)
          with run some free have "db' = db" "res = Inl e" by auto
          then show thesis by (rule unchanged)
        next
          case (Inr p)
          obtain db2 b where p: "p = (db2, b)" by (cases p)
          with run some free Inr have "db' = db2" "res = Inr b" by auto
          with master public ms some free Inr p show thesis
            by (intro booked [of master public_master items b]) simp_all
        qed
      qed
    qed
  qed
qed
qed

text \<open>The part of a claim after its first read, whatever that read was.\<close>

lemma claim_locked_cases:
  assumes "claim_locked v db now token w = (db', res)"
  obtains (unchanged) e where "db' = db" "res = Inl e"
  | (closed) r r' s reason e where "map_option wo_token_hash (get (offers db) (wo_id w)) = Some (we_digest v token)"
      "active_hold w" "get (requests db) (wo_request_id w) = Some r" "r' = release_request r \<or> r' = back_to_active r"
      "s = OExpired \<or> s = OCancelled"
      "db' = put_request r' (rewrite_offer (wo_id w) (close_offer s now reason) db)" "res = Inl e"
  | (booked) r master public_master items b where
      "map_option wo_token_hash (get (offers db) (wo_id w)) = Some (we_digest v token)"
      "active_hold w" "now < wo_expires_at w" "now < wo_start_at w" "get (requests db) (wo_request_id w) = Some r"
      "get_active_master_with_services db (wo_master_id w) = Inr master"
      "public_offer_master db r w = Some public_master"
      "matching_services db master (request_services db r) = Some items" "items \<noteq> []"
      "slot_free v db now (ms_id master) (wo_start_at w) (wo_end_at w) (Some (wo_id w)) = Inr ()"
      "book_claim v db now r w master public_master items = Inr (db', b)" "res = Inr b"
proof (cases "map_option wo_token_hash (get (offers db) (wo_id w)) = Some (we_digest v token) \<and> active_hold w
    \<and> (\<exists>r. get (requests db) (wo_request_id w) = Some r)")
  case False
  with assms have "db' = db \<and> (\<exists>e. res = Inl e)"
    by (auto simp: claim_locked_def split: if_splits option.splits)
  then obtain e where "db' = db" "res = Inl e" by blast
  then show thesis by (rule unchanged)
next
  case True
  then obtain r where w: "map_option wo_token_hash (get (offers db) (wo_id w)) = Some (we_digest v token)" "active_hold w"
    and r: "get (requests db) (wo_request_id w) = Some r" by blast
  show thesis
  proof (cases "wo_expires_at w \<le> now \<or> wo_start_at w \<le> now")
    case True
    with assms w r have "db' = put_request (release_request r)
          (rewrite_offer (wo_id w) (close_offer OExpired now ''claim_after_expiry'') db)"
      "res = Inl (HTTPException 410 ''Offer is no longer available'')"
      by (auto simp: claim_locked_def)
    with closed [OF w r] show thesis by blast
  next
    case False
    with assms w r have "settle_claim v db now r w = (db', res)" by (simp add: claim_locked_def)
    then show thesis
    proof (cases rule: settle_claim_cases)
      case (unchanged e)
      then show thesis by (rule \<open>\<And>e. db' = db \<Longrightarrow> res = Inl e \<Longrightarrow> thesis\<close>)
    next
      case (closed reason e)
      show thesis
        by (rule that(2) [OF w r _ _ closed(1,2)]) simp_all
    next
      case (booked master public_master items b)
      show thesis
        by (rule that(3) [OF w _ _ r booked]) (use False in simp_all)
    qed
  qed
qed

lemma find_by_token_selected:
  "find_by_token v db token = Inr (Some w) \<Longrightarrow>
     w \<in> set (select_where (\<lambda>w. wo_token_hash w = we_digest v token) (offers db))"
  by (auto simp: find_by_token_def split: list.splits)

lemma find_by_token_row:
  assumes "find_by_token v db token = Inr (Some w)" and "list_ok db"
  shows "get (offers db) (wo_id w) = Some w \<and> wo_token_hash w = we_digest v token"
  using selected_row [OF list_okD(2) [OF assms(2)] find_by_token_selected [OF assms(1)]] .

text \<open>A claim settles the offer it found, or changes nothing.\<close>

lemma claim_as_locked:
  assumes "claim v db now token = (db', res)"
  obtains (unchanged) e where "db' = db" "res = Inl e"
  | (found) w where "find_by_token v db token = Inr (Some w)" "claim_locked v db now token w = (db', res)"
  using assms by (auto simp: claim_def split: sum.splits option.splits)

text \<open>Booking keeps the desk's invariant, whatever the waiting list holds.\<close>

lemma book_claim_desk:
  assumes "book_claim v db now r w master public_master items = Inr (db', b)" and desk: "desk_ok db"
    and "slot_free v db now (ms_id master) (wo_start_at w) (wo_end_at w) (Some (wo_id w)) = Inr ()"
  shows "desk_ok db'"
  using assms(1)
proof (rule book_claim_Inr)
  fix c db1
  assume slot: "same_slot (claimed_booking w master public_master items c (next_id (bookings db))) b"
    and bks: "bookings db' = put (bk_id b) b (bookings db)"
  have free: "ensure_slot_available db now (ms_id master) (wo_start_at w) (wo_end_at w) None (Some (wo_id w)) = Inr ()"
    using assms(3) by (auto simp: slot_free_def and_then_eq_Inr)
  have "confirmed_disjoint (db\<lparr>bookings := put (bk_id b) b (bookings db)\<rparr>)"
    using desk slot free
    by (intro confirmed_disjoint_put) (auto simp: desk_ok_def ensure_slot_available_iff same_slot_def claimed_booking_def)
  with desk bks show ?thesis by (simp add: desk_ok_def has_id_put confirmed_disjoint_def)
qed

lemma claim_locked_desk:
  assumes "claim_locked v db now token w = (db', res)" and "desk_ok db"
  shows "desk_ok db'"
  using assms(1)
proof (cases rule: claim_locked_cases)
  case (unchanged e)
  with assms(2) show ?thesis by simp
next
  case (closed r r' s reason e)
  with assms(2) desk_ok_bookings [of db' db] show ?thesis by simp
next
  case (booked r master public_master items b)
  from book_claim_desk [OF booked(11) assms(2) booked(10)] show ?thesis .
qed

lemma claim_list:
  assumes "claim v db now token = (db', res)" and ok: "list_ok db"
  shows "list_ok db'"
  using assms(1)
proof (cases rule: claim_as_locked)
  case (unchanged e)
  with ok show ?thesis by simp
next
  case (found w)
  have w: "get (offers db) (wo_id w) = Some w" using find_by_token_row [OF found(1) ok] by blast
  from found(2) show ?thesis
  proof (cases rule: claim_locked_cases)
    case (unchanged e)
    with ok show ?thesis by simp
  next
    case (closed r r' s reason e)
    have openw: "open_offer w" using closed(2) by (auto simp: open_offer_def active_hold_def)
    have off: "wr_status r = WOffered" using list_okD(3) [OF ok w openw] closed(3) by simp
    show ?thesis
      using listed_ok [OF listed_pair [OF ok w openw closed(3), of "close_offer s now reason w" r']] closed(4-6) off
      by (auto simp: rewrite_offer_row [OF w])
  next
    case (booked r master public_master items b)
    have openw: "open_offer w" using booked(2) by (auto simp: open_offer_def active_hold_def)
    from booked(11) show ?thesis
    proof (rule book_claim_Inr)
      fix db1 :: salon
      assume db1: "requests db1 = requests db" "offers db1 = offers db"
        and db': "db' = put_request (booked_request now r) (rewrite_offer (wo_id w) (claimed_offer now) db1)"
      have ok1: "list_ok db1" using ok list_ok_tables [OF db1] by simp
      note w1 = w [folded db1(2)]
      show ?thesis
        unfolding db' rewrite_offer_row [OF w1]
        by (rule listed_ok [OF listed_pair [OF ok1 w1 openw booked(5) [folded db1(1)]]])
          (simp_all add: same_offer_def same_request_def close_offer_def open_offer_def claimed_offer_def
            booked_request_def)
    qed
  qed
qed

section \<open>The steps of the salon\<close>

text \<open>
  The transactions of requests and jobs that write the waiting list, next to the steps of the desk. A
  step writes the rows it read: the offers a report or a claim has read before are still current. The
  holds that expire in one transaction are one step each, which allows more interleavings than the code.
\<close>

inductive waitlist_step :: "waitlist_env \<Rightarrow> salon \<Rightarrow> salon \<Rightarrow> bool" for v where
  join: "valid_waitlist_payload p \<Longrightarrow> waitlist_create v db now token p = Inr (db', r) \<Longrightarrow> waitlist_step v db db'"
| leave: "cancel_with_slots v db now token = Inr (db', slots) \<Longrightarrow> waitlist_step v db db'"
| leave_activity: "cancel_waitlist db now c i = Inr (db', slots) \<Longrightarrow> waitlist_step v db db'"
| lapse: "waitlist_step v db (fst (expire_due_requests db now))"
| attempt: "offer_attempt v gw db now f = Ended db' res \<Longrightarrow> waitlist_step v db db'"
| failed_attempt: "offer_attempt v gw db now f = Retry db' \<Longrightarrow> waitlist_step v db db'"
| due: "send_due_locked v gw now i request_id db = (db', res) \<Longrightarrow> waitlist_step v db db'"
| report: "reads_current db seen found \<Longrightarrow> apply_reports now statuses seen found db = Inr db' \<Longrightarrow> waitlist_step v db db'"
| release: "waitlist_step v db (fst (expire_hold now candidate (db, [])))"
| project: "waitlist_step v db (project_job db now i j)"
| claimed: "claim v db now token = (db', res) \<Longrightarrow> waitlist_step v db db'"

inductive_cases waitlist_stepE: "waitlist_step v db db'"

lemma cancel_steps_listed:
  "cancel_with_slots v db now token = Inr (db', slots) \<Longrightarrow> list_ok db \<Longrightarrow> listed db db'"
  "cancel_waitlist db now c i = Inr (db', slots) \<Longrightarrow> list_ok db \<Longrightarrow> listed db db'"
proof -
  assume "cancel_with_slots v db now token = Inr (db', slots)" and ok: "list_ok db"
  then obtain r where r: "select_where (\<lambda>r. wr_cancel_token_hash r = we_digest v token) (requests db) = [r]"
    and run: "cancel_request db now r = Inr (db', slots)"
    by (auto simp: cancel_with_slots_def find_by_cancel_token_def and_then_eq_Inr split: list.splits)
  have "r \<in> set (select_where (\<lambda>r. wr_cancel_token_hash r = we_digest v token) (requests db))" using r by simp
  from selected_row [OF list_okD(1) [OF ok] this] have "get (requests db) (wr_id r) = Some r" by simp
  with run ok show "listed db db'" by (rule cancel_request_listed)
next
  assume run: "cancel_waitlist db now c i = Inr (db', slots)" and ok: "list_ok db"
  then obtain r where r: "get (requests db) i = Some r" and run: "cancel_request db now r = Inr (db', slots)"
    by (auto simp: cancel_waitlist_def split: option.splits if_splits)
  from r has_id_get [OF list_okD(1) [OF ok] r] have "get (requests db) (wr_id r) = Some r" by simp
  with run ok show "listed db db'" by (rule cancel_request_listed)
qed

lemma waitlist_step_list:
  assumes "waitlist_step v db db'" and ok: "list_ok db"
  shows "list_ok db'"
  using assms(1)
proof cases
  case (join p now token r)
  with waitlist_create_ok ok show ?thesis by blast
next
  case (leave now token slots)
  with cancel_steps_listed(1) ok listed_ok show ?thesis by blast
next
  case (leave_activity now c i slots)
  with cancel_steps_listed(2) ok listed_ok show ?thesis by blast
next
  case (lapse now)
  with listed_ok [OF expire_due_requests_listed [OF ok]] show ?thesis by simp
next
  case (attempt gw now f res)
  from listed_ok [OF offer_attempt_listed(1) [OF ok attempt]] show ?thesis .
next
  case (failed_attempt gw now f)
  from listed_ok [OF offer_attempt_listed(2) [OF ok failed_attempt]] show ?thesis .
next
  case (due gw now i request_id res)
  from listed_ok [OF send_due_locked_listed [OF due ok]] show ?thesis .
next
  case (report seen found now statuses)
  from listed_ok [OF apply_reports_listed [OF report(2,1) ok]] show ?thesis .
next
  case (release now candidate)
  with listed_ok [OF expire_hold_listed [OF ok, of now "fst candidate" "snd candidate" "[]"]] show ?thesis by simp
next
  case (project now i j)
  with listed_ok [OF project_job_listed [OF ok]] show ?thesis by simp
next
  case (claimed now token res)
  with claim_list ok show ?thesis by blast
qed

lemma waitlist_steps_list: "(waitlist_step v)\<^sup>*\<^sup>* db db' \<Longrightarrow> list_ok db \<Longrightarrow> list_ok db'"
  by (induction rule: rtranclp_induct) (simp_all add: waitlist_step_list)

section \<open>Operations that commit on their way\<close>

text \<open>Each is a sequence of steps when nothing comes between, so what holds after every step holds of it.\<close>

lemma offer_slot_steps: "(waitlist_step v)\<^sup>*\<^sup>* db (fst (offer_slot v gw db now f))"
proof (induction v gw db now f rule: offer_slot.induct)
  case (1 v gw db now f)
  show ?case
  proof (cases "offer_attempt v gw db now f")
    case (Ended db' res)
    from waitlist_step.attempt [OF this] Ended show ?thesis
      by (simp add: offer_slot.simps [of v gw db] r_into_rtranclp)
  next
    case (Retry db')
    from converse_rtranclp_into_rtranclp [of "waitlist_step v", OF waitlist_step.failed_attempt [OF Retry] "1.IH" [OF Retry]] Retry
    show ?thesis by (simp add: offer_slot.simps [of v gw db])
  qed
qed

lemma committed_loop_steps:
  assumes "\<And>x db. (waitlist_step v)\<^sup>*\<^sup>* db (fst (step x db))"
  shows "(waitlist_step v)\<^sup>*\<^sup>* db (fst (committed_loop step xs db n))"
proof (induction xs arbitrary: db n)
  case Nil
  then show ?case by simp
next
  case (Cons x xs)
  obtain db1 k where one: "step x db = (db1, k)" by (cases "step x db")
  with assms [of db x] have "(waitlist_step v)\<^sup>*\<^sup>* db db1" by simp
  with rtranclp_trans [OF this Cons.IH] one show ?case by (cases k) auto
qed

lemma reoffer_slots_steps: "(waitlist_step v)\<^sup>*\<^sup>* db (fst (reoffer_slots v gw now slots db))"
  unfolding reoffer_slots_def
proof (rule committed_loop_steps)
  fix f db
  show "(waitlist_step v)\<^sup>*\<^sup>* db (fst (case offer_slot v gw db now f of
      (db, Inl e) \<Rightarrow> (db, Inl e) | (db, Inr w) \<Rightarrow> (db, Inr (if w = None then 0 else 1))))"
    using offer_slot_steps [of v db gw now f] by (auto split: prod.splits sum.splits)
qed

lemma send_due_one_steps: "(waitlist_step v)\<^sup>*\<^sup>* db (fst (send_due_one v gw now i request_id db))"
proof -
  obtain db1 res where one: "send_due_locked v gw now i request_id db = (db1, res)"
    by (cases "send_due_locked v gw now i request_id db")
  have step: "waitlist_step v db db1" by (rule waitlist_step.due [OF one])
  show ?thesis
  proof (cases "\<exists>n f. res = Inr (n, Some f)")
    case True
    then obtain n f where res: "res = Inr (n, Some f)" by blast
    from converse_rtranclp_into_rtranclp [of "waitlist_step v", OF step offer_slot_steps [of v db1 gw now f]]
    show ?thesis by (auto simp: send_due_one_def one res split: prod.splits sum.splits)
  next
    case False
    with step show ?thesis
      by (auto simp: send_due_one_def one split: prod.splits sum.splits option.splits)
  qed
qed

lemma send_due_offers_steps: "(waitlist_step v)\<^sup>*\<^sup>* db (fst (send_due_offers v gw db now))"
  unfolding send_due_offers_def by (rule committed_loop_steps) (auto simp: send_due_one_steps)

lemma sent_offers_current: "has_id wo_id (offers db) \<Longrightarrow> reads_current db (get (requests db)) (sent_offers db)"
  using selected_row select_distinct by (fastforce simp: reads_current_def sent_offers_def list_all_iff)

lemma sync_delivery_statuses_steps:
  assumes "list_ok db"
  shows "(waitlist_step v)\<^sup>*\<^sup>* db (fst (sync_delivery_statuses v gw db now))"
proof -
  note current = sent_offers_current [OF list_okD(2) [OF assms]]
  have "(waitlist_step v)\<^sup>*\<^sup>* db (fst (reoffer_slots v gw now slots db1))"
    if "apply_reports now statuses (get (requests db)) (sent_offers db) db = Inr db1" for statuses slots db1
    using converse_rtranclp_into_rtranclp [of "waitlist_step v", OF waitlist_step.report [OF current that] reoffer_slots_steps] .
  then show ?thesis
    by (fastforce simp: sync_delivery_statuses_def Let_def split: prod.splits sum.splits dest: arg_cong [where f = fst])
qed

lemma expire_holds_steps: "(waitlist_step v)\<^sup>*\<^sup>* db (fst (expire_holds db now))"
proof -
  have same: "fst (expire_hold now x (a, e)) = fst (expire_hold now x (a, []))" for x a e
    by (auto simp: expire_hold_def Let_def split: prod.splits option.splits)
  have "(waitlist_step v)\<^sup>*\<^sup>* a (fst (fold (expire_hold now) xs (a, e)))" for xs a e
  proof (induction xs arbitrary: a e)
    case Nil
    then show ?case by simp
  next
    case (Cons x xs)
    obtain a1 e1 where one: "expire_hold now x (a, e) = (a1, e1)" by (cases "expire_hold now x (a, e)")
    then have "waitlist_step v a a1" using waitlist_step.release [of v a now x] same [of x a e] by simp
    from converse_rtranclp_into_rtranclp [of "waitlist_step v", OF this Cons.IH [of a1 e1]] one show ?case by simp
  qed
  then show ?thesis by (simp add: expire_holds_def)
qed

lemma expire_and_offer_next_steps: "(waitlist_step v)\<^sup>*\<^sup>* db (fst (expire_and_offer_next v gw db now))"
proof -
  obtain db1 e where one: "expire_holds db now = (db1, e)" by (cases "expire_holds db now")
  with rtranclp_trans [OF expire_holds_steps [of v db now] reoffer_slots_steps [of v _ gw now "map freed_by_offer e"]]
  show ?thesis using expire_holds_steps [of v db now] by (simp add: expire_and_offer_next_def)
qed

lemma scheduler_iteration_steps:
  assumes ok: "list_ok db"
  shows "(waitlist_step v)\<^sup>*\<^sup>* db (scheduler_iteration v gw db now)"
proof -
  have 1: "(waitlist_step v)\<^sup>*\<^sup>* db (fst (expire_due_requests db now))"
    by (rule r_into_rtranclp) (rule waitlist_step.lapse)
  obtain a ra where a: "send_due_offers v gw (fst (expire_due_requests db now)) now = (a, ra)"
    by (cases "send_due_offers v gw (fst (expire_due_requests db now)) now")
  with rtranclp_trans [OF 1 send_due_offers_steps [of v "fst (expire_due_requests db now)" gw now]]
  have 2: "(waitlist_step v)\<^sup>*\<^sup>* db a" by simp
  obtain b rb where b: "sync_delivery_statuses v gw a now = (b, rb)" by (cases "sync_delivery_statuses v gw a now")
  with rtranclp_trans [OF 2 sync_delivery_statuses_steps [OF waitlist_steps_list [OF 2 ok], of v gw now]]
  have 3: "(waitlist_step v)\<^sup>*\<^sup>* db b" by simp
  note 4 = rtranclp_trans [OF 3 expire_and_offer_next_steps [of v b gw now]]
  from a b 2 3 4 show ?thesis by (simp add: scheduler_iteration_def split: sum.splits)
qed

end
