(* ===== verification/Races.thy ===== *)
theory Races
  imports Claims
begin

text \<open>
  What holds of the waiting list although some of its writes come late. A claim keeps the columns of its
  unlocked read of the offer, and \<open>sync_delivery_statuses\<close> reads the sent offers, waits for the provider
  and then writes them, so both may overwrite what another transaction has settled meanwhile. Such a write
  keeps the tables well formed, keeps the bookings of a master disjoint and, apart from the report that a
  message was delivered, never reopens a closed offer. That a request is offered exactly while one
  offer of it is open is lost by such a write; \<^verbatim>\<open>Reception\<close> has the cases.
\<close>

section \<open>What every transaction keeps\<close>

definition tables_ok :: "salon \<Rightarrow> bool" where
  "tables_ok db \<longleftrightarrow> has_id wr_id (requests db) \<and> has_id wo_id (offers db)
     \<and> (\<forall>i w j q. get (offers db) i = Some w \<and> get (offers db) j = Some q
          \<and> wo_token_hash w = wo_token_hash q \<longrightarrow> i = j)"

lemma tables_okD:
  assumes "tables_ok db"
  shows "has_id wr_id (requests db)" "has_id wo_id (offers db)"
    "\<And>i w j q. get (offers db) i = Some w \<Longrightarrow> get (offers db) j = Some q \<Longrightarrow>
       wo_token_hash w = wo_token_hash q \<Longrightarrow> i = j"
  using assms unfolding tables_ok_def by blast+

lemma list_ok_tables_ok: "list_ok db \<Longrightarrow> tables_ok db"
  unfolding list_ok_def tables_ok_def by blast

lemma tables_ok_same: "requests db' = requests db \<Longrightarrow> offers db' = offers db \<Longrightarrow> tables_ok db' = tables_ok db"
  by (simp add: tables_ok_def)

text \<open>A closed offer stays closed and keeps its token.\<close>

definition closed_stays :: "salon \<Rightarrow> salon \<Rightarrow> bool" where
  "closed_stays db db' \<longleftrightarrow>
     (\<forall>i w. get (offers db) i = Some w \<and> \<not> open_offer w \<longrightarrow>
        (\<exists>w'. get (offers db') i = Some w' \<and> \<not> open_offer w' \<and> wo_token_hash w' = wo_token_hash w))"

lemma closed_stays_same: "offers db' = offers db \<Longrightarrow> closed_stays db db'"
  by (simp add: closed_stays_def)

lemma closed_stays_trans [trans]:
  assumes "closed_stays a b" and "closed_stays b c"
  shows "closed_stays a c"
  unfolding closed_stays_def
proof (intro allI impI, elim conjE)
  fix i w assume "get (offers a) i = Some w" "\<not> open_offer w"
  with assms(1) obtain w1 where w1: "get (offers b) i = Some w1" "\<not> open_offer w1" "wo_token_hash w1 = wo_token_hash w"
    unfolding closed_stays_def by blast
  with assms(2) obtain w2 where "get (offers c) i = Some w2" "\<not> open_offer w2" "wo_token_hash w2 = wo_token_hash w1"
    unfolding closed_stays_def by blast
  with w1 show "\<exists>w2. get (offers c) i = Some w2 \<and> \<not> open_offer w2 \<and> wo_token_hash w2 = wo_token_hash w" by auto
qed

text \<open>A transaction of the waiting list that books nothing.\<close>

definition calm :: "salon \<Rightarrow> salon \<Rightarrow> bool" where
  "calm db db' \<longleftrightarrow> tables_ok db' \<and> closed_stays db db' \<and> bookings db' = bookings db"

lemma calm_refl: "tables_ok db \<Longrightarrow> calm db db"
  by (simp add: calm_def closed_stays_same)

lemma calm_trans [trans]: "calm a b \<Longrightarrow> calm b c \<Longrightarrow> calm a c"
  unfolding calm_def using closed_stays_trans by auto

lemma calm_tables: "calm db db' \<Longrightarrow> tables_ok db'"
  by (simp add: calm_def)

lemma calm_put_request: "calm a db \<Longrightarrow> calm a (put_request r db)"
  by (auto simp: calm_def tables_ok_def has_id_put closed_stays_def)

lemma calm_put_offer:
  assumes "calm a db" and row: "get (offers db) (wo_id w') = None \<or> (\<exists>w. get (offers db) (wo_id w') = Some w
      \<and> (open_offer w \<or> \<not> open_offer w' \<and> wo_token_hash w' = wo_token_hash w))"
    and token: "\<And>j q. get (offers db) j = Some q \<Longrightarrow> j \<noteq> wo_id w' \<Longrightarrow> wo_token_hash q \<noteq> wo_token_hash w'"
  shows "calm a (put_offer w' db)"
proof -
  have ok: "tables_ok db" using assms(1) by (rule calm_tables)
  have "i = j" if "get (put (wo_id w') w' (offers db)) i = Some p" "get (put (wo_id w') w' (offers db)) j = Some q"
      "wo_token_hash p = wo_token_hash q" for i p j q
    using that token [of i p] token [of j q] tables_okD(3) [OF ok, of i p j q] by (auto simp: get_put split: if_splits)
  then have "tables_ok (put_offer w' db)"
    using tables_okD(1,2) [OF ok] by (simp add: tables_ok_def has_id_put)
  moreover have "closed_stays db (put_offer w' db)"
    using row by (auto simp: closed_stays_def get_put)
  ultimately show ?thesis
    using assms(1) closed_stays_trans by (auto simp: calm_def)
qed

text \<open>A write that keeps the token, to an open offer or closing it.\<close>

lemma calm_same_token:
  assumes "calm a db" and "get (offers db) (wo_id w') = Some w" and "wo_token_hash w' = wo_token_hash w"
    and "open_offer w \<or> \<not> open_offer w'"
  shows "calm a (put_offer w' db)"
proof (rule calm_put_offer [OF assms(1)])
  fix j q assume "get (offers db) j = Some q" "j \<noteq> wo_id w'"
  with tables_okD(3) [OF calm_tables [OF assms(1)] _ assms(2)] assms(3) show "wo_token_hash q \<noteq> wo_token_hash w'" by auto
qed (use assms(2-4) in blast)

lemma calm_flush:
  assumes "calm a db" and "offer_flush w db = Inr db'"
    and "get (offers db) (wo_id w) = None \<or> (\<exists>q. get (offers db) (wo_id w) = Some q \<and> open_offer q)"
  shows "calm a db'"
proof -
  note flush = offer_flush_Inr [OF assms(2)]
  note ids = tables_okD(2) [OF calm_tables [OF assms(1)]]
  have "calm a (put_offer w db)"
  proof (rule calm_put_offer [OF assms(1)])
    fix j q assume q: "get (offers db) j = Some q" "j \<noteq> wo_id w"
    then have "wo_id q \<noteq> wo_id w" using has_id_get [OF ids q(1)] by simp
    with flush get_in_rows [OF q(1)] show "wo_token_hash q \<noteq> wo_token_hash w" by blast
  qed (use assms(3) in blast)
  with flush show ?thesis by simp
qed

text \<open>Closing every offer a condition selects.\<close>

lemma calm_close_all:
  assumes ok: "tables_ok db" and h: "\<And>w. same_offer w (h w) \<and> \<not> open_offer (h w)"
    and offs: "\<And>i. get (offers db') i = map_option (\<lambda>w. if Q w then h w else w) (get (offers db) i)"
    and ids: "has_id wr_id (requests db')" "has_id wo_id (offers db')" and "bookings db' = bookings db"
  shows "calm db db'"
proof -
  have same: "\<exists>w0. get (offers db) i = Some w0 \<and> wo_token_hash w0 = wo_token_hash w" if "get (offers db') i = Some w" for i w
    using that h by (auto simp: offs same_offer_def)
  have "i = j" if "get (offers db') i = Some w" "get (offers db') j = Some q" "wo_token_hash w = wo_token_hash q" for i w j q
    using same [OF that(1)] same [OF that(2)] that(3) tables_okD(3) [OF ok] by metis
  with ids have "tables_ok db'" unfolding tables_ok_def by blast
  moreover have "closed_stays db db'"
    using h by (auto simp: closed_stays_def offs same_offer_def)
  ultimately show ?thesis using assms(6) by (simp add: calm_def)
qed

section \<open>The transactions of the waiting list\<close>

lemma send_offer_calm:
  assumes "send_offer v gw db now w = Inr (db', sent)" and ok: "tables_ok db"
    and w: "get (offers db) (wo_id w) = Some w" "open_offer w"
  shows "calm db db'"
proof (cases "get (requests db) (wo_request_id w)")
  case None
  with assms(1) calm_refl [OF ok] show ?thesis by (simp add: send_offer_def)
next
  case (Some r)
  have change: "calm db (put_offer w' db)" if "same_offer w w'" for w'
    using that w by (intro calm_same_token [OF calm_refl [OF ok]]) (auto simp: same_offer_def)
  from assms(1) Some show ?thesis
    by (cases rule: send_offer_cases) (simp_all add: change calm_put_request)
qed

lemma offer_attempt_calm:
  assumes "tables_ok db"
  shows "offer_attempt v gw db now f = Ended db' res \<Longrightarrow> calm db db'"
    and "offer_attempt v gw db now f = Retry db' \<Longrightarrow> calm db db'"
proof -
  have placed: "calm db db1 \<and> get (offers db1) (wo_id w) = Some w \<and> open_offer w"
    if place: "place_offer w now r db = Inr db1" and w: "w = new_offer v gw db now master source f r"
    for master source r db1 w
  proof -
    have new: "wo_id w = next_id (offers db)" "open_offer w"
      by (simp_all add: w new_offer_def Let_def open_offer_def)
    note flush = place [unfolded place_offer_def]
    have "calm db db1"
      by (rule calm_flush [OF calm_put_request [OF calm_refl [OF assms]] flush]) (simp add: new)
    with new offer_flush_Inr [OF flush] show ?thesis by simp
  qed
  have sent: "calm db db2"
    if "place_offer (new_offer v gw db now master source f r) now r db = Inr db1"
      and "send_offer v gw db1 now (new_offer v gw db now master source f r) = Inr (db2, b)"
    for master source r db1 db2 b
    using placed [OF that(1) refl] send_offer_calm [OF that(2)] calm_trans calm_tables by blast
  show "offer_attempt v gw db now f = Ended db' res \<Longrightarrow> calm db db'"
    "offer_attempt v gw db now f = Retry db' \<Longrightarrow> calm db db'"
    using calm_refl [OF assms] unfolding offer_attempt_def Let_def
    by (auto dest: placed [OF _ refl] sent split: if_splits sum.splits list.splits prod.splits)
qed

lemma sms_job_outcome_calm:
  assumes ok: "tables_ok db"
  shows "calm db (sms_job_outcome db now i j)"
proof (cases "get (offers db) i")
  case None
  then show ?thesis by (simp add: sms_job_outcome_def calm_refl ok)
next
  case (Some w)
  have i: "wo_id w = i" by (rule has_id_get [OF tables_okD(2) [OF ok] Some])
  have change: "calm db (put_offer w' db)" if "same_offer w w'" "open_offer w \<or> \<not> open_offer w'" for w'
    using that Some i by (intro calm_same_token [OF calm_refl [OF ok], where w = w]) (auto simp: same_offer_def)
  have acc: "same_offer w (accepted_offer now j w)"
    by (simp add: accepted_offer_def same_offer_def Let_def)
  show ?thesis
    using change [OF acc] change [of "close_offer OCancelled now reason w" for reason]
      change [of "w\<lparr>wo_close_reason := reason\<rparr>" for reason] calm_refl [OF ok] Some
    by (auto simp: sms_job_outcome_def Let_def calm_put_request same_offer_def open_offer_def close_offer_def
        split: option.splits)
qed

lemma send_due_locked_calm:
  assumes "send_due_locked v gw now i request_id db = (db', res)" and ok: "tables_ok db"
  shows "calm db db'"
  using assms(1)
proof (cases rule: send_due_locked_cases)
  case unchanged
  with calm_refl [OF ok] show ?thesis by simp
next
  case (projected j)
  with sms_job_outcome_calm [OF ok] calm_refl [OF ok] show ?thesis by (simp add: project_job_def)
next
  case (gone r w)
  have "wo_id w = i" by (rule has_id_get [OF tables_okD(2) [OF ok] gone(2)])
  with gone(2) have "calm db (put_offer (close_offer OCancelled now ''slot_no_longer_available'' w) db)"
    by (intro calm_same_token [OF calm_refl [OF ok], where w = w]) (simp_all add: close_offer_def open_offer_def)
  with gone(5) show ?thesis by (simp add: calm_put_request)
next
  case (sent r w db1 b)
  define w1 where "w1 = w\<lparr>wo_token_hash := we_digest v (gw_token gw i)\<rparr>"
  have w1: "wo_id w1 = i" "open_offer w1" "open_offer w"
    using has_id_get [OF tables_okD(2) [OF ok] sent(2)] sent(4) by (simp_all add: w1_def open_offer_def)
  have one: "calm db db1"
    by (rule calm_flush [OF calm_refl [OF ok] sent(5) [folded w1_def]]) (simp add: w1 sent(2))
  have "calm db1 db'"
    using offer_flush_Inr [OF sent(5) [folded w1_def]] w1
    by (intro send_offer_calm [OF sent(6) [folded w1_def] calm_tables [OF one]]) simp_all
  with one show ?thesis by (rule calm_trans)
qed

lemma expire_hold_calm:
  assumes ok: "tables_ok db"
  shows "calm db (fst (expire_hold now candidate (db, expired)))"
proof (cases "get (offers db) (fst candidate)")
  case None
  then show ?thesis by (simp add: expire_hold_def split_def calm_refl ok split: option.split)
next
  case (Some w)
  have id: "wo_id w = fst candidate" by (rule has_id_get [OF tables_okD(2) [OF ok] Some])
  have "calm db (put_offer (close_offer OExpired now ''hold_expired'' w) db)"
    using Some id
    by (intro calm_same_token [OF calm_refl [OF ok], where w = w]) (simp_all add: close_offer_def open_offer_def)
  with Some calm_refl [OF ok] show ?thesis
    by (simp add: expire_hold_def split_def Let_def calm_put_request split: option.split)
qed

lemma cancel_request_calm:
  assumes "cancel_request db now r = Inr (db', slots)" and ok: "tables_ok db"
  shows "calm db db'"
proof -
  define g where "g = close_offer OCancelled now ''request_cancelled_by_customer''"
  define Q where "Q w \<longleftrightarrow> wo_request_id w = wr_id r \<and> open_offer w" for w :: waitlist_offer
  define c where "c = r\<lparr>wr_status := WCancelled, wr_closed_at := Some now,
    wr_close_reason := Some ''cancelled_by_customer''\<rparr>"
  have id_g: "wo_id (g w) = wo_id w" for w by (simp add: g_def close_offer_def)
  have db': "db' = (put_request c db)\<lparr>offers := fold (\<lambda>w. put (wo_id w) (g w)) (select_where Q (offers db)) (offers db)\<rparr>"
    using assms(1) by (auto simp: cancel_request_def Let_def Q_def [abs_def] g_def c_def fold_put_offer
        closed_offer_keeps split: if_splits)
  note off = fold_put_select [OF tables_okD(2) [OF ok], of g Q, OF id_g]
  show ?thesis
    by (rule calm_close_all [OF ok, where h = g and Q = Q])
      (use off tables_okD(1) [OF ok] in \<open>simp_all add: db' put_request_def has_id_put g_def c_def\<close>)
qed

lemma expire_due_requests_calm:
  assumes ok: "tables_ok db"
  shows "calm db (fst (expire_due_requests db now))"
proof -
  define P where "P r \<longleftrightarrow> open_request r \<and> wr_expires_at r \<le> now" for r :: waitlist_request
  define c where "c q = q\<lparr>wr_status := WExpired, wr_closed_at := Some now, wr_close_reason := Some ''expired''\<rparr>"
    for q :: waitlist_request
  define Q where "Q w \<longleftrightarrow> wo_request_id w \<in> wr_id ` set (select_where P (requests db)) \<and> open_offer w" for w :: waitlist_offer
  define g where "g = close_offer OExpired now ''request_expired''"
  have id_c: "wr_id (c q) = wr_id q" for q by (simp add: c_def)
  have id_g: "wo_id (g w) = wo_id w" for w by (simp add: g_def close_offer_def)
  have db': "fst (expire_due_requests db now) =
      db\<lparr>requests := fold (\<lambda>r. put (wr_id r) (c r)) (select_where P (requests db)) (requests db),
         offers := fold (\<lambda>w. put (wo_id w) (g w)) (select_where Q (offers db)) (offers db)\<rparr>"
    unfolding expire_due_requests_def Let_def fst_conv P_def [abs_def, symmetric] c_def [symmetric]
      g_def [symmetric] Q_def [abs_def, symmetric] fold_put_request [of c, OF id_c]
    by (simp add: fold_put_offer [of g, OF id_g])
  note req = fold_put_select [OF tables_okD(1) [OF ok], of c P, OF id_c]
  note off = fold_put_select [OF tables_okD(2) [OF ok], of g Q, OF id_g]
  show ?thesis
    by (rule calm_close_all [OF ok, where h = g and Q = Q]) (use off req(2) in \<open>simp_all add: db' g_def\<close>)
qed

lemma waitlist_create_calm:
  assumes "waitlist_create v db now token p = Inr (db', r)" and ok: "tables_ok db"
  shows "calm db db'"
  using assms(1)
proof (rule waitlist_create_Inr)
  fix db1
  assume kept: "requests db1 = requests db" "offers db1 = offers db" "bookings db1 = bookings db"
    and flush: "request_flush r db1 = Inr db'"
  have "tables_ok db1" using ok tables_ok_same [OF kept(1,2)] by simp
  then have "calm db db1" using kept by (simp add: calm_def closed_stays_same)
  then show ?thesis unfolding request_flush_put [OF flush] by (rule calm_put_request)
qed

section \<open>Writes over rows that may have changed\<close>

lemma tables_rewrite:
  assumes ok: "tables_ok db" and same: "\<And>w. same_offer w (g w)"
  shows "tables_ok (rewrite_offer i g db)"
proof (cases "get (offers db) i")
  case None
  with ok show ?thesis by (simp add: rewrite_offer_def)
next
  case (Some w)
  have ids: "wo_id (g w) = i" "wo_token_hash (g w) = wo_token_hash w"
    using same [of w] has_id_get [OF tables_okD(2) [OF ok] Some] by (simp_all add: same_offer_def)
  have old: "\<exists>p0. get (offers db) j = Some p0 \<and> wo_token_hash p0 = wo_token_hash p"
    if "get (put i (g w) (offers db)) j = Some p" for j p
    using that ids Some by (cases "j = i") simp_all
  have "j = k" if "get (put i (g w) (offers db)) j = Some p" "get (put i (g w) (offers db)) k = Some q"
      "wo_token_hash p = wo_token_hash q" for j p k q
    using old [OF that(1)] old [OF that(2)] that(3) tables_okD(3) [OF ok] by metis
  with tables_okD(1,2) [OF ok] ids Some show ?thesis
    by (simp add: tables_ok_def rewrite_offer_row has_id_put)
qed

lemma calm_rewrite:
  assumes "calm a db" and g: "\<And>w. same_offer w (g w) \<and> \<not> open_offer (g w)"
  shows "calm a (rewrite_offer i g db)"
proof (cases "get (offers db) i")
  case None
  with assms(1) show ?thesis by (simp add: rewrite_offer_def)
next
  case (Some w)
  have "wo_id (g w) = i"
    using g [of w] has_id_get [OF tables_okD(2) [OF calm_tables [OF assms(1)]] Some] by (simp add: same_offer_def)
  with Some g [of w] show ?thesis
    unfolding rewrite_offer_row [OF Some]
    by (intro calm_same_token [OF assms(1), where w = w]) (simp_all add: same_offer_def)
qed

lemma report_offer_closing:
  assumes "report_offer now statuses seen w db = Inr db'" and "reported statuses w \<noteq> Some Delivery_done" and "calm a db"
  shows "calm a db'"
proof -
  have closed: "calm a (rewrite_offer i (close_offer OCancelled now reason) db)" for i reason
    by (rule calm_rewrite [OF assms(3)]) simp
  have released: "calm a d'" if "rewrite_request i back_to_active d = Inr d'" "calm a d" for i d d'
  proof (cases "get (requests d) i")
    case None
    with that show ?thesis by (simp add: rewrite_request_def)
  next
    case (Some r)
    from calm_put_request [OF that(2)] rewrite_request_Inr [OF that(1) Some] show ?thesis by simp
  qed
  show ?thesis
  proof (cases "reported statuses w = None \<or> reported statuses w = Some Enroute")
    case True
    with assms(1,3) show ?thesis by (auto simp: report_offer_def)
  next
    case False
    with assms(2) obtain d where d: "reported statuses w = Some d" "d \<noteq> Enroute" "d \<noteq> Delivery_done" by auto
    define db1 where "db1 = rewrite_offer (wo_id w) (close_offer OCancelled now (delivery_reason d)) db"
    have one: "calm a db1" unfolding db1_def by (rule closed)
    have run: "(case seen (wo_request_id w) of
          None \<Rightarrow> Inr db1
        | Some r \<Rightarrow> if wr_status r = WOffered then rewrite_request (wo_request_id w) back_to_active db1 else Inr db1) = Inr db'"
      using assms(1) d by (cases "seen (wo_request_id w)"; cases d) (auto simp: report_offer_def Let_def db1_def split: if_splits)
    show ?thesis
    proof (cases "\<exists>r. seen (wo_request_id w) = Some r \<and> wr_status r = WOffered")
      case True
      with run have "rewrite_request (wo_request_id w) back_to_active db1 = Inr db'" by auto
      from released [OF this one] show ?thesis .
    next
      case False
      with run one show ?thesis by (auto split: option.splits if_splits)
    qed
  qed
qed

lemma report_offer_tables:
  assumes "report_offer now statuses seen w db = Inr db'" and "tables_ok db"
  shows "tables_ok db' \<and> bookings db' = bookings db"
proof (cases "reported statuses w = Some Delivery_done")
  case True
  with assms(1) tables_rewrite [OF assms(2), of "delivered_offer now"] show ?thesis
    by (auto simp: report_offer_def delivered_offer_def same_offer_def)
next
  case False
  from report_offer_closing [OF assms(1) False calm_refl [OF assms(2)]] show ?thesis by (simp add: calm_def)
qed

text \<open>Reports about offers that are still as they were read.\<close>

lemma apply_reports_calm:
  assumes "apply_reports now statuses seen found db = Inr db'" and "reads_current db seen found" and ok: "tables_ok db"
  shows "calm db db'"
  using assms(1)
proof (rule apply_reports_chain [where R = "calm db"])
  show "distinct (map wo_id found)" using assms(2) by (simp add: reads_current_def)
  show "calm db db" by (rule calm_refl [OF ok])
  show "get (offers db) (wo_id w) = Some w" if "w \<in> set found" for w
    using assms(2) that by (simp add: reads_current_def list_all_iff)
next
  fix a w b
  assume a: "calm db a" "w \<in> set found" "get (offers a) (wo_id w) = Some w" "report_offer now statuses seen w a = Inr b"
  have "open_offer w" using assms(2) a(2) by (auto simp: reads_current_def list_all_iff open_offer_def)
  then have delivered: "calm db (put_offer (delivered_offer now w) a)"
    by (intro calm_same_token [OF a(1), where w = w]) (simp_all add: delivered_offer_def a(3))
  show "calm db b"
  proof (cases "reported statuses w = Some Delivery_done")
    case True
    with a(4) delivered show ?thesis by (simp add: report_offer_def rewrite_offer_row [OF a(3)])
  next
    case False
    from report_offer_closing [OF a(4) this a(1)] show ?thesis .
  qed
qed

text \<open>Reports about offers as they were read before the provider was asked.\<close>

lemma late_reports_tables:
  assumes "apply_reports now statuses seen found db = Inr db'" and "tables_ok db"
  shows "tables_ok db' \<and> bookings db' = bookings db"
  using for_each_invariant [where I = "\<lambda>a. tables_ok a \<and> bookings a = bookings db",
      OF assms(1) [unfolded apply_reports_def]] report_offer_tables assms(2)
  by (metis (mono_tags, lifting))

lemma late_reports_closing:
  assumes "apply_reports now statuses seen found db = Inr db'" and "tables_ok db"
    and "list_all (\<lambda>w. reported statuses w \<noteq> Some Delivery_done) found"
  shows "calm db db'"
proof (rule for_each_invariant [where I = "calm db", OF assms(1) [unfolded apply_reports_def] calm_refl [OF assms(2)]])
  fix w a b assume "w \<in> set found" "calm db a" "report_offer now statuses seen w a = Inr b"
  with report_offer_closing assms(3) show "calm db b" by (auto simp: list_all_iff)
qed

lemma claim_locked_tables:
  assumes "claim_locked v db now token w = (db', res)" and ok: "tables_ok db"
  shows "tables_ok db' \<and> closed_stays db db'"
  using assms(1)
proof (cases rule: claim_locked_cases)
  case (unchanged e)
  with ok show ?thesis by (simp add: closed_stays_same)
next
  case (closed r r' s reason e)
  have "calm db (rewrite_offer (wo_id w) (close_offer s now reason) db)"
    by (rule calm_rewrite [OF calm_refl [OF ok]]) (use closed(5) in auto)
  then have "calm db db'" unfolding closed(6) by (rule calm_put_request)
  then show ?thesis by (simp add: calm_def)
next
  case (booked r master public_master items b)
  from booked(11) show ?thesis
  proof (rule book_claim_Inr)
    fix db1 :: salon
    assume db1: "requests db1 = requests db" "offers db1 = offers db"
      and db': "db' = put_request (booked_request now r) (rewrite_offer (wo_id w) (claimed_offer now) db1)"
    have "tables_ok db1" using ok tables_ok_same [OF db1] by simp
    then have "calm db1 (rewrite_offer (wo_id w) (claimed_offer now) db1)"
      by (intro calm_rewrite calm_refl) (simp_all add: claimed_offer_def same_offer_def close_offer_def open_offer_def)
    then have "calm db1 db'" unfolding db' by (rule calm_put_request)
    with db1(2) show ?thesis by (simp add: calm_def closed_stays_def)
  qed
qed

text \<open>
  An offer as some transaction may have read it: an earlier version of the row, which shares the columns
  that never change.
\<close>

definition earlier_read :: "salon \<Rightarrow> waitlist_offer \<Rightarrow> bool" where
  "earlier_read db w \<longleftrightarrow> (case get (offers db) (wo_id w) of None \<Rightarrow> False
     | Some q \<Rightarrow> wo_request_id q = wo_request_id w \<and> wo_master_id q = wo_master_id w
         \<and> wo_source_master_id q = wo_source_master_id w \<and> wo_start_at q = wo_start_at w \<and> wo_end_at q = wo_end_at w
         \<and> wo_source_booking_id q = wo_source_booking_id w)"

text \<open>
  The writes that may come late: a claim after its unlocked read, and the delivery reports after the
  provider has answered. With \<open>deliveries\<close> false, no late report is that a message was delivered.
\<close>

inductive late_write :: "waitlist_env \<Rightarrow> bool \<Rightarrow> salon \<Rightarrow> salon \<Rightarrow> bool" for v deliveries where
  late_claim: "earlier_read db w \<Longrightarrow> claim_locked v db now token w = (db', res) \<Longrightarrow> late_write v deliveries db db'"
| late_report: "list_all (earlier_read db) found
    \<Longrightarrow> deliveries \<or> list_all (\<lambda>w. reported statuses w \<noteq> Some Delivery_done) found
    \<Longrightarrow> apply_reports now statuses seen found db = Inr db' \<Longrightarrow> late_write v deliveries db db'"

section \<open>The invariant of any interleaving\<close>

definition race_ok :: "salon \<Rightarrow> bool" where
  "race_ok db \<longleftrightarrow> desk_ok db \<and> tables_ok db"

lemma calm_race_ok: "calm db db' \<Longrightarrow> race_ok db \<Longrightarrow> race_ok db' \<and> closed_stays db db'"
  using desk_ok_bookings [of db' db] by (auto simp: calm_def race_ok_def)

lemma claim_locked_race_ok:
  "claim_locked v db now token w = (db', res) \<Longrightarrow> race_ok db \<Longrightarrow> race_ok db' \<and> closed_stays db db'"
  using claim_locked_desk claim_locked_tables by (auto simp: race_ok_def)

lemma late_write_race_ok:
  assumes "late_write v deliveries db db'" and "race_ok db"
  shows "race_ok db'" and "\<not> deliveries \<Longrightarrow> closed_stays db db'"
proof -
  show "race_ok db'"
    using assms(1)
  proof cases
    case (late_claim w now token res)
    from claim_locked_race_ok [OF late_claim(2) assms(2)] show ?thesis by simp
  next
    case (late_report found statuses now seen)
    from late_reports_tables [OF late_report(3)] assms(2) desk_ok_bookings [of db' db] show ?thesis
      by (simp add: race_ok_def)
  qed
  assume quiet: "\<not> deliveries"
  show "closed_stays db db'"
    using assms(1)
  proof cases
    case (late_claim w now token res)
    from claim_locked_race_ok [OF late_claim(2) assms(2)] show ?thesis by simp
  next
    case (late_report found statuses now seen)
    with quiet late_reports_closing [OF late_report(3)] assms(2) show ?thesis by (simp add: race_ok_def calm_def)
  qed
qed

lemma waitlist_step_race_ok:
  assumes "waitlist_step v db db'" and ok: "race_ok db"
  shows "race_ok db' \<and> closed_stays db db'"
proof -
  have tables: "tables_ok db" using ok by (simp add: race_ok_def)
  note step = calm_race_ok [OF _ ok]
  show ?thesis
    using assms(1)
  proof cases
    case (join p now token r)
    from step [OF waitlist_create_calm [OF join(2) tables]] show ?thesis .
  next
    case (leave now token slots)
    then obtain r where "cancel_request db now r = Inr (db', slots)"
      by (auto simp: cancel_with_slots_def and_then_eq_Inr)
    from step [OF cancel_request_calm [OF this tables]] show ?thesis .
  next
    case (leave_activity now c i slots)
    then obtain r where "cancel_request db now r = Inr (db', slots)"
      by (auto simp: cancel_waitlist_def split: option.splits if_splits)
    from step [OF cancel_request_calm [OF this tables]] show ?thesis .
  next
    case (lapse now)
    with step [OF expire_due_requests_calm [OF tables]] show ?thesis by simp
  next
    case (attempt gw now f res)
    from step [OF offer_attempt_calm(1) [OF tables attempt]] show ?thesis .
  next
    case (failed_attempt gw now f)
    from step [OF offer_attempt_calm(2) [OF tables failed_attempt]] show ?thesis .
  next
    case (due gw now i request_id res)
    from step [OF send_due_locked_calm [OF due tables]] show ?thesis .
  next
    case (report seen found now statuses)
    from step [OF apply_reports_calm [OF report(2,1) tables]] show ?thesis .
  next
    case (release now candidate)
    with step [OF expire_hold_calm [OF tables]] show ?thesis by simp
  next
    case (project now i j)
    with step [OF sms_job_outcome_calm [OF tables]] step [OF calm_refl [OF tables]] show ?thesis
      by (simp add: project_job_def)
  next
    case (claimed now token res)
    then show ?thesis
    proof (cases rule: claim_as_locked)
      case (unchanged e)
      with ok show ?thesis by (simp add: closed_stays_same)
    next
      case (found w)
      from claim_locked_race_ok [OF found(2) ok] show ?thesis .
    qed
  qed
qed

end
