(* ===== verification/Reception.thy ===== *)
theory Reception
  imports Races
begin

text \<open>
  The booking desk and the waiting list together: no request of the desk writes the waiting list, so the
  invariants of both hold along any interleaving of the two. Those of \<^verbatim>\<open>Races\<close> hold with late
  writes in between, that of \<^verbatim>\<open>Claims\<close> as long as every transaction writes the rows it read;
  three cases show what a late write does.
\<close>

section \<open>The desk leaves the waiting list alone\<close>

definition list_kept :: "salon \<Rightarrow> salon \<Rightarrow> bool" where
  "list_kept db db' \<longleftrightarrow> requests db' = requests db \<and> offers db' = offers db"

lemma list_kept_refl [simp]: "list_kept db db"
  by (simp add: list_kept_def)

lemma list_kept_trans [trans]: "list_kept a b \<Longrightarrow> list_kept b c \<Longrightarrow> list_kept a c"
  by (simp add: list_kept_def)

lemma list_kept_update [simp]:
  "list_kept a (db\<lparr>bookings := x1\<rparr>) = list_kept a db" "list_kept a (db\<lparr>customers := x2\<rparr>) = list_kept a db"
  "list_kept a (db\<lparr>preferences := x3\<rparr>) = list_kept a db" "list_kept a (db\<lparr>windows := x4\<rparr>) = list_kept a db"
  "list_kept a (db\<lparr>blocks := x5\<rparr>) = list_kept a db" "list_kept a (db\<lparr>masters := x6\<rparr>) = list_kept a db"
  "list_kept a (db\<lparr>services := x7\<rparr>) = list_kept a db"
  by (simp_all add: list_kept_def)

text \<open>The services that are not modelled leave it alone too.\<close>

definition delegates_keep_list :: "delegates \<Rightarrow> bool" where
  "delegates_keep_list dl \<longleftrightarrow>
     (\<forall>db b s db' b'. sync_offer dl db b s = Inr (db', b') \<longrightarrow> list_kept db db')
     \<and> (\<forall>t b db db'. attribute_repeat dl t b db = Inr db' \<longrightarrow> list_kept db db')
     \<and> (\<forall>b db db'. mark_repeat_visit dl b db = Inr db' \<longrightarrow> list_kept db db')"

lemma flush_kept [dest]:
  "booking_flush b db = Inr db' \<Longrightarrow> list_kept db db'"
  "customer_flush c db = Inr db' \<Longrightarrow> list_kept db db'"
  by (auto simp: booking_flush_def customer_flush_def split: if_splits)

lemma consent_kept [simp]:
  "list_kept db (record_booking_sms_consent db' now c b m) = list_kept db db'"
  "list_kept (record_booking_sms_consent db now c b m) db' = list_kept db db'"
  by (simp_all add: list_kept_def)

lemma delegates_keepD:
  assumes "delegates_keep_list dl"
  shows "sync_offer dl db b s = Inr (db', b') \<Longrightarrow> list_kept db db'"
    "attribute_repeat dl t b db = Inr db' \<Longrightarrow> list_kept db db'"
    "mark_repeat_visit dl b db = Inr db' \<Longrightarrow> list_kept db db'"
  using assms unfolding delegates_keep_list_def by blast+

lemma sync_kept:
  assumes "delegates_keep_list dl"
    and "sync_first_visit_status z campaign (sync_offer dl) db b s = Inr (db', b')"
  shows "list_kept db db'"
proof -
  show ?thesis using assms(2) delegates_keepD(1) [OF assms(1)]
    by (auto simp: sync_first_visit_status_def and_then_eq_Inr Let_def split: if_splits option.splits)
qed

lemma customer_kept: "get_or_create_booking_customer db payload = Inr (db', c, phone) \<Longrightarrow> list_kept db db'"
  unfolding get_or_create_booking_customer_def
  by (auto simp: and_then_eq_Inr Let_def split: option.splits prod.splits)

lemma create_kept:
  assumes "delegates_keep_list dl"
    and "create_public_booking z campaign (attribute_repeat dl) db now opts payload = Inr (db', b)"
  shows "list_kept db db'"
proof -
  from assms(2) obtain db1 c phone b1 db2 where
    c: "get_or_create_booking_customer db payload = Inr (db1, c, phone)" and flush: "booking_flush b1 db1 = Inr db2"
    and last: "(let db = (if co_source opts = Web
                 then record_booking_sms_consent db2 now (cu_id c) (bk_id b1) (pb_sms_consent payload) else db2)
       in and_then (if truthy_text (co_repeat_booking_token opts)
                    then attribute_repeat dl (the (co_repeat_booking_token opts)) b1 db else Inr db)
            (\<lambda>db. Inr (db, b1))) = Inr (db', b)"
    unfolding create_public_booking_def and_then_eq_Inr split_def
    by (auto simp: and_then_eq_Inr split: if_splits)
  have "list_kept db db2" using customer_kept [OF c] flush list_kept_trans by blast
  moreover have "list_kept db2 db'"
    using last by (auto simp: Let_def and_then_eq_Inr split: if_splits dest: delegates_keepD(2) [OF assms(1)])
  ultimately show ?thesis by (rule list_kept_trans)
qed

lemma change_status_kept:
  assumes "delegates_keep_list dl" and "change_status z dl db now b s = Inr (db', freed)"
  shows "list_kept db db'"
proof -
  from assms(2) obtain db1 b1 b2 db2 where sync: "sync_first_visit_status z (validated_offer dl db) (sync_offer dl) db b s = Inr (db1, b1)"
    and flush: "booking_flush b2 db1 = Inr db2"
    and last: "(if s = Completed then mark_repeat_visit dl b2 db2 else Inr db2) = Inr db'"
    by (auto simp: change_status_def Let_def and_then_eq_Inr)
  have "list_kept db2 db'" using last by (auto split: if_splits dest: delegates_keepD(3) [OF assms(1)])
  with sync_kept [OF assms(1) sync] flush show ?thesis using list_kept_trans by blast
qed

lemma update_services_kept: "update_booking_services db b items prices = Inr (db', b') \<Longrightarrow> list_kept db db'"
  by (auto simp: update_booking_services_def Let_def split: list.splits if_splits)

lemma my_update_kept:
  assumes "update_my_booking z dl db now m i p = Inr (db', slots)"
  shows "list_kept db db'"
proof -
  from assms obtain b0 s items b1 db1 b2 b3 where
    re: "(case items of None \<Rightarrow> Inr (db, b1) | Some ss \<Rightarrow> reprice_services z dl db b1 ss s) = Inr (db1, b2)"
    and flush: "booking_flush b3 db1 = Inr db'"
    unfolding update_my_booking_def Let_def and_then_eq_Inr split_def by auto
  have "list_kept db db1"
    using re by (auto simp: reprice_services_def Let_def and_then_eq_Inr dest: update_services_kept split: option.splits)
  with flush show ?thesis using list_kept_trans by blast
qed

lemma admin_update_kept:
  assumes "admin_update_booking z dl db now u i p = Inr (db', slots)"
  shows "list_kept db db'"
proof -
  from assms obtain b0 items at db1 b1 where
    settle: "admin_settle z dl db b0 p items at = Inr (db1, b1)" and flush: "booking_flush b1 db1 = Inr db'"
    unfolding admin_update_booking_def Let_def and_then_eq_Inr split_def by auto
  from settle have "list_kept db db1"
    by (auto simp: admin_settle_def admin_update_services_def and_then_eq_Inr dest: update_services_kept
        split: option.splits if_splits)
  with flush show ?thesis using list_kept_trans by blast
qed

lemma delete_kept: "delete_booking db archived i access = Inr (db', freed) \<Longrightarrow> list_kept db db'"
  by (auto simp: delete_booking_def archive_booking_def and_then_eq_Inr Let_def split: option.splits)

lemma cancel_kept:
  assumes "delegates_keep_list dl" and "cancel_booking z dl db now c i = Inr (db', fs)"
  shows "list_kept db db'"
proof -
  from assms(2) obtain b db1 b1 b2 where
    sync: "sync_first_visit_status z (validated_offer dl db) (sync_offer dl) db b Cancelled = Inr (db1, b1)"
    and flush: "booking_flush b2 db1 = Inr db'"
    by (auto simp: cancel_booking_def Let_def and_then_eq_Inr split: option.splits if_splits)
  with sync_kept [OF assms(1) sync] show ?thesis using list_kept_trans by blast
qed

lemma complete_kept:
  assumes "delegates_keep_list dl" and "complete_booking z dl db b at = Inr db'"
  shows "list_kept db db'"
proof -
  from assms(2) obtain db1 b1 b2 db2 where
    sync: "sync_first_visit_status z (validated_offer dl db) (sync_offer dl) db b Completed = Inr (db1, b1)"
    and flush: "booking_flush b2 db1 = Inr db2" and last: "mark_repeat_visit dl b2 db2 = Inr db'"
    by (auto simp: complete_booking_def Let_def and_then_eq_Inr)
  have "list_kept db2 db'" using last by (rule delegates_keepD(3) [OF assms(1)])
  with sync_kept [OF assms(1) sync] flush show ?thesis using list_kept_trans by blast
qed

lemma completion_loop_kept:
  assumes "delegates_keep_list dl"
  shows "list_kept db (fst (completion_loop z dl at lower cutoff is db n))"
proof (induction "is" arbitrary: db n)
  case Nil
  show ?case by simp
next
  case (Cons i "is")
  show ?case
    using Cons.IH complete_kept [OF assms] list_kept_trans
    by (auto split: option.splits sum.splits) blast
qed

lemma completion_kept:
  "delegates_keep_list dl \<Longrightarrow> completion_loop z dl at lower cutoff is db n = (db', m) \<Longrightarrow> list_kept db db'"
  using completion_loop_kept by (metis fst_conv)

lemma calendar_kept: "only_calendar i db db' \<Longrightarrow> list_kept db db'"
  unfolding only_calendar_def by (cases db; cases db') (simp add: list_kept_def)

lemma desk_step_kept:
  assumes "desk_step z dl db db'" and "delegates_keep_list dl"
  shows "list_kept db db'"
  using assms(1)
proof cases
  case (book now opts payload b) with create_kept [OF assms(2)] show ?thesis by blast
next
  case (my_status now m i s freed)
  then show ?thesis using change_status_kept [OF assms(2)]
    by (auto simp: update_my_booking_status_def and_then_eq_Inr split: if_splits)
next
  case (admin_status now u i s freed)
  then show ?thesis using change_status_kept [OF assms(2)]
    by (auto simp: admin_update_booking_status_def and_then_eq_Inr split: if_splits)
next
  case (my_update now m i p slots) with my_update_kept show ?thesis by blast
next
  case (admin_update now u i ap slots) with admin_update_kept show ?thesis by blast
next
  case (my_delete archived m i freed) with delete_kept show ?thesis by (simp add: delete_my_booking_def)
next
  case (admin_delete archived u i freed) with delete_kept show ?thesis by (simp add: admin_delete_booking_def)
next
  case (cancel now c i fs) with cancel_kept [OF assms(2)] show ?thesis by blast
next
  case (complete enabled starts_on now n)
  then show ?thesis
    by (auto simp: complete_closed_workday_bookings_def Let_def split: if_splits prod.splits dest: completion_kept [OF assms(2)])
next
  case (block m s e r t)
  then show ?thesis using create_block_only calendar_kept by (simp add: create_my_time_block_def and_then_eq_Inr) blast
next
  case (admin_block u i s e r t)
  then show ?thesis using create_block_only calendar_kept by (simp add: admin_create_time_block_def and_then_eq_Inr) blast
next
  case (move_block u i tp t)
  then show ?thesis by (auto simp: admin_update_time_block_def and_then_eq_Inr Let_def)
next
  case (unblock m i)
  then show ?thesis by (auto simp: delete_my_time_block_def and_then_eq_Inr)
next
  case (admin_unblock u i)
  then show ?thesis by (auto simp: admin_delete_time_block_def and_then_eq_Inr)
next
  case (open_days now m ds ws)
  then show ?thesis using window_loop_only calendar_kept
    by (simp add: create_my_availability_days_def create_availability_days_def and_then_eq_Inr) blast
next
  case (admin_open_days now u i ds ws)
  then show ?thesis using window_loop_only calendar_kept
    by (simp add: admin_create_availability_days_def create_my_availability_days_def create_availability_days_def
        and_then_eq_Inr) blast
next
  case (open_window now m s e w)
  then show ?thesis using create_window_only calendar_kept
    by (simp add: create_my_availability_window_def and_then_eq_Inr) blast
next
  case (admin_open_window now u i s e w)
  then show ?thesis using create_window_only calendar_kept
    by (simp add: admin_create_availability_window_def create_my_availability_window_def and_then_eq_Inr) blast
next
  case (close_window now m i)
  then show ?thesis
    by (auto simp: delete_my_availability_window_def delete_availability_window_def and_then_eq_Inr split: if_splits)
next
  case (admin_close_window now u i)
  then show ?thesis
    by (auto simp: admin_delete_availability_window_def delete_availability_window_def and_then_eq_Inr split: if_splits)
next
  case (edit_master up now u i mp)
  then show ?thesis by (rule admin_update_master_Inr) simp
qed

section \<open>Both together\<close>

text \<open>The transactions of the salon that write the rows they read, and those that may write late.\<close>

definition salon_step :: "waitlist_env \<Rightarrow> delegates \<Rightarrow> salon \<Rightarrow> salon \<Rightarrow> bool" where
  "salon_step v dl db db' \<longleftrightarrow> desk_step (we_zone v) dl db db' \<or> waitlist_step v db db'"

definition salon_race :: "waitlist_env \<Rightarrow> delegates \<Rightarrow> bool \<Rightarrow> salon \<Rightarrow> salon \<Rightarrow> bool" where
  "salon_race v dl deliveries db db' \<longleftrightarrow> salon_step v dl db db' \<or> late_write v deliveries db db'"

definition salon_ok :: "salon \<Rightarrow> bool" where
  "salon_ok db \<longleftrightarrow> desk_ok db \<and> list_ok db"

definition outside_ok :: "delegates \<Rightarrow> bool" where
  "outside_ok dl \<longleftrightarrow> delegates_ok dl \<and> delegates_keep_list dl"

lemma salon_ok_race_ok: "salon_ok db \<Longrightarrow> race_ok db"
  by (simp add: salon_ok_def race_ok_def list_ok_tables_ok)

lemma desk_step_tables:
  assumes "desk_step z dl db db'" and "outside_ok dl"
  shows "requests db' = requests db" "offers db' = offers db"
  using desk_step_kept [OF assms(1)] assms(2) by (simp_all add: outside_ok_def list_kept_def)

lemma salon_race_ok:
  assumes "salon_race v dl deliveries db db'" and "outside_ok dl" and ok: "race_ok db"
  shows "race_ok db'" and "\<not> deliveries \<Longrightarrow> closed_stays db db'"
proof -
  have desk: "race_ok db' \<and> closed_stays db db'" if step: "desk_step (we_zone v) dl db db'"
  proof -
    note tables = desk_step_tables [OF step assms(2)]
    have "desk_ok db'" using desk_step_ok [OF step] assms(2) ok by (simp add: outside_ok_def race_ok_def)
    with ok tables_ok_same [OF tables] closed_stays_same [OF tables(2)] show ?thesis by (simp add: race_ok_def)
  qed
  show "race_ok db'"
    using assms(1) desk waitlist_step_race_ok [OF _ ok] late_write_race_ok(1) [OF _ ok]
    by (auto simp: salon_race_def salon_step_def)
  show "\<not> deliveries \<Longrightarrow> closed_stays db db'"
    using assms(1) desk waitlist_step_race_ok [OF _ ok] late_write_race_ok(2) [OF _ ok]
    by (auto simp: salon_race_def salon_step_def)
qed

lemma salon_races_ok:
  assumes "(salon_race v dl deliveries)\<^sup>*\<^sup>* db db'" and "outside_ok dl" and "race_ok db"
  shows "race_ok db' \<and> (\<not> deliveries \<longrightarrow> closed_stays db db')"
  using assms(1)
proof (induction rule: rtranclp_induct)
  case base
  show ?case using assms(3) by (simp add: closed_stays_same)
next
  case (step a b)
  with salon_race_ok [OF step.hyps(2) assms(2)] closed_stays_trans show ?case by blast
qed

lemma salon_step_ok:
  assumes "salon_step v dl db db'" and "outside_ok dl" and "salon_ok db"
  shows "salon_ok db'"
proof -
  have ok: "list_ok db" using assms(3) by (simp add: salon_ok_def)
  have "list_ok db'" if step: "desk_step (we_zone v) dl db db'"
    using list_ok_tables [OF desk_step_tables [OF step assms(2)]] ok by simp
  with assms(1) waitlist_step_list [OF _ ok] have "list_ok db'" by (auto simp: salon_step_def)
  moreover have "race_ok db'"
    using assms(1) salon_race_ok(1) [OF _ assms(2) salon_ok_race_ok [OF assms(3)]] by (auto simp: salon_race_def)
  ultimately show ?thesis by (simp add: salon_ok_def race_ok_def)
qed

lemma salon_reachable_ok:
  "(salon_step v dl)\<^sup>*\<^sup>* db db' \<Longrightarrow> outside_ok dl \<Longrightarrow> salon_ok db \<Longrightarrow> salon_ok db'"
  by (induction rule: rtranclp_induct) (auto intro: salon_step_ok)

lemma waitlist_steps_salon: "(waitlist_step v)\<^sup>*\<^sup>* db db' \<Longrightarrow> (salon_step v dl)\<^sup>*\<^sup>* db db'"
  by (induction rule: rtranclp_induct) (auto simp: salon_step_def intro: rtranclp.rtrancl_into_rtrancl)

lemma salon_steps_race: "(salon_step v dl)\<^sup>*\<^sup>* db db' \<Longrightarrow> (salon_race v dl deliveries)\<^sup>*\<^sup>* db db'"
  by (induction rule: rtranclp_induct) (auto simp: salon_race_def intro: rtranclp.rtrancl_into_rtrancl)

section \<open>Facts about single operations\<close>

lemma offer_attempt_Some:
  assumes "offer_attempt v gw db now f = Ended db' (Inr (Some w))" and ok: "list_ok db"
  obtains master r rs where
    "eligible_requests v db now master (truthy_or (fs_source_master_id f) (ms_id master)) (fs_start_at f) (fs_end_at f) = r # rs"
    "slot_free v db now (ms_id master) (fs_start_at f) (fs_end_at f) None = Inr ()"
    "same_offer (new_offer v gw db now master (truthy_or (fs_source_master_id f) (ms_id master)) f r) w"
    "get (offers db') (wo_id w) = Some w" "open_offer w"
proof -
  from assms(1) obtain master where master: "get_active_master_with_services db (fs_master_id f) = Inr master"
    by (cases "get_active_master_with_services db (fs_master_id f)") (auto simp: offer_attempt_def split: if_splits)
  define source where "source = truthy_or (fs_source_master_id f) (ms_id master)"
  from assms(1) master have free: "slot_free v db now (ms_id master) (fs_start_at f) (fs_end_at f) None = Inr ()"
    by (cases "slot_free v db now (ms_id master) (fs_start_at f) (fs_end_at f) None")
      (auto simp: offer_attempt_def Let_def split: if_splits)
  from assms(1) master free obtain r rs where
    chosen: "eligible_requests v db now master source (fs_start_at f) (fs_end_at f) = r # rs"
    by (cases "eligible_requests v db now master source (fs_start_at f) (fs_end_at f)")
      (auto simp: offer_attempt_def source_def Let_def split: if_splits)
  define n where "n = new_offer v gw db now master source f r"
  have n: "wo_status n = OPending" "wo_request_id n = wr_id r" "wo_id n = next_id (offers db)"
    by (simp_all add: n_def new_offer_def Let_def)
  from assms(1) master free chosen obtain db1 where placed: "place_offer n now r db = Inr db1"
    by (cases "place_offer n now r db")
      (auto simp: offer_attempt_def source_def n_def Let_def split: if_splits)
  define r1 where "r1 = r\<lparr>wr_status := WOffered, wr_offered_at := Some now\<rparr>"
  have db1: "db1 = put_offer n (put_request r1 db)"
    using offer_flush_Inr [OF placed [unfolded place_offer_def]] by (simp add: r1_def)
  have got: "get (requests db1) (wo_request_id n) = Some r1" using n by (simp add: db1 r1_def)
  have res: "(scheduled_send_at v now > to_kyiv (we_zone v) now \<and> db' = db1 \<and> w = n)
      \<or> (\<exists>sent. send_offer v gw db1 now n = Inr (db', sent) \<and> (sent \<or> queued_offer v db' (wo_id n))
           \<and> get (offers db') (wo_id n) = Some w)"
    using assms(1) master free chosen placed
    by (auto simp: offer_attempt_def source_def [symmetric] n_def [symmetric] Let_def split: if_splits sum.splits prod.splits)
  have "same_offer n w \<and> get (offers db') (wo_id w) = Some w \<and> open_offer w"
  proof (cases "db' = db1 \<and> w = n")
    case True
    then show ?thesis using n by (simp add: db1 open_offer_def)
  next
    case False
    with res obtain sent where send: "send_offer v gw db1 now n = Inr (db', sent)"
      and open': "sent \<or> queued_offer v db' (wo_id n)" and row: "get (offers db') (wo_id n) = Some w"
      by blast
    from send got show ?thesis
    proof (cases rule: send_offer_cases)
      case (gone r' reason)
      with open' have False by (simp add: queued_offer_def close_offer_def)
      then show ?thesis ..
    next
      case queued
      with row n show ?thesis by (auto simp: open_offer_def)
    next
      case (sent m)
      have "wo_id (sent_offer v now m n) = wo_id n" by (simp add: sent_offer_def Let_def)
      with sent row have "w = sent_offer v now m n" by simp
      with row \<open>wo_id (sent_offer v now m n) = wo_id n\<close> show ?thesis by simp
    qed
  qed
  with chosen free show thesis by (intro that [of master r rs]) (simp_all add: source_def n_def)
qed

lemma offer_slot_Some:
  assumes "offer_slot v gw db now f = (db', Inr (Some w))" and "list_ok db"
  shows "\<exists>db0. listed db db0 \<and> offer_attempt v gw db0 now f = Ended db' (Inr (Some w))"
  using assms
proof (induction v gw db now f rule: offer_slot.induct)
  case (1 v gw db now f)
  show ?case
  proof (cases "offer_attempt v gw db now f")
    case (Ended db1 res)
    with "1.prems" show ?thesis
      by (auto simp: offer_slot.simps [of v gw db] intro: listed_refl)
  next
    case (Retry db1)
    have "listed db db1" using "1.prems"(2) Retry by (rule offer_attempt_listed(2))
    moreover have "\<exists>db0. listed db1 db0 \<and> offer_attempt v gw db0 now f = Ended db' (Inr (Some w))"
      using "1.IH" [OF Retry] "1.prems"(1) Retry listed_ok [OF \<open>listed db db1\<close>]
      by (simp add: offer_slot.simps [of v gw db])
    ultimately show ?thesis using listed_trans by blast
  qed
qed

text \<open>The two redirect walks agree.\<close>

definition no_zero_redirect :: "salon \<Rightarrow> bool" where
  "no_zero_redirect db \<longleftrightarrow> list_all (\<lambda>m. ms_booking_redirect_master_id m \<noteq> Some 0) (rows (masters db))"

lemma active_master_iff: "active_master db i = Some m \<longleftrightarrow> get_active_master_with_services db i = Inr m"
  by (auto simp: active_master_def get_active_master_with_services_def split: option.splits)

lemma active_master_None: "active_master db i = None \<longleftrightarrow> (\<exists>e. get_active_master_with_services db i = Inl e)"
  by (auto simp: active_master_def get_active_master_with_services_def split: option.splits)

lemma redirect_end_follow:
  assumes "has_id ms_id (masters db)" and "no_zero_redirect db"
    and "active_master db i = Some m" and "i \<notin> set seen"
  shows "redirect_end db seen i =
    (case follow_redirects db (i # seen) m of Inl _ \<Rightarrow> None | Inr t \<Rightarrow> Some (ms_id t))"
  using assms
proof (induction db seen i arbitrary: m rule: redirect_end.induct)
  case (1 db seen i)
  have row: "get (masters db) i = Some m"
    using "1.prems"(3) by (auto simp: active_master_def split: option.splits if_splits)
  have id: "ms_id m = i" by (rule has_id_get [OF "1.prems"(1) row])
  have nz: "ms_booking_redirect_master_id m \<noteq> Some 0"
    using "1.prems"(2) get_in_rows [OF row] by (auto simp: no_zero_redirect_def list_all_iff)
  show ?case
  proof (cases "ms_booking_redirect_master_id m")
    case None
    then show ?thesis
      using "1.prems"(3,4) id
      by (simp add: redirect_end.simps [of db seen] follow_redirects.simps [of db "i # seen"] booking_redirect_def)
  next
    case (Some r)
    with nz have r: "booking_redirect m = Some r" by (auto simp: booking_redirect_def)
    show ?thesis
    proof (cases "r \<in> set (i # seen)")
      case True
      then show ?thesis
        using "1.prems"(3,4) Some r
        by (auto simp: redirect_end.simps [of db seen] redirect_end.simps [of db "i # seen"]
            follow_redirects.simps [of db "i # seen"])
    next
      case new: False
      show ?thesis
      proof (cases "active_master db r")
        case None
        then obtain e where "get_active_master_with_services db r = Inl e" by (auto simp: active_master_None)
        with None new show ?thesis
          using "1.prems"(3,4) Some r
          by (auto simp: redirect_end.simps [of db seen] redirect_end.simps [of db "i # seen"]
              follow_redirects.simps [of db "i # seen"])
      next
        case m': (Some m')
        then have act: "get_active_master_with_services db r = Inr m'" by (simp add: active_master_iff)
        have "redirect_end db (i # seen) r =
            (case follow_redirects db (r # i # seen) m' of Inl _ \<Rightarrow> None | Inr t \<Rightarrow> Some (ms_id t))"
          using "1.IH" [OF _ "1.prems"(3) Some] "1.prems" m' new by simp
        then show ?thesis
          using "1.prems"(3,4) Some r new act
          by (simp add: redirect_end.simps [of db seen] follow_redirects.simps [of db "i # seen"])
      qed
    qed
  qed
qed

section \<open>Where the waiting list stalls\<close>

text \<open>
  A pending offer is no hold: the expiry of holds passes it over and its token is refused. An offer
  whose message ended \<open>uncertain\<close> stays pending, so its request stays offered until it expires itself.
\<close>

lemma expire_holds_pending:
  assumes "get (offers db) i = Some w" and "wo_status w = OPending" and "list_ok db"
  shows "get (offers (fst (expire_holds db now))) i = Some w"
proof -
  have keep: "get (offers (fst (expire_hold now (j, k) (a, e)))) i = Some w"
    if "get (offers a) i = Some w" "list_ok a" for a e j k
  proof (cases "j = i")
    case True
    then show ?thesis using that(1) assms(2) by (simp add: expire_hold_def active_hold_def split: option.splits)
  next
    case False
    then show ?thesis
      using that has_id_get [OF list_okD(2) [OF that(2)]]
      by (auto simp: expire_hold_def get_put Let_def closed_offer_keeps split: option.splits)
  qed
  have "get (offers (fst (fold (expire_hold now) xs (a, e)))) i = Some w"
    if "get (offers a) i = Some w" "list_ok a" for xs a e
    using that
  proof (induction xs arbitrary: a e)
    case Nil
    then show ?case by simp
  next
    case (Cons x xs)
    obtain j k where x: "x = (j, k)" by (cases x)
    obtain a1 e1 where one: "expire_hold now (j, k) (a, e) = (a1, e1)" by (cases "expire_hold now (j, k) (a, e)")
    have "get (offers a1) i = Some w" "list_ok a1"
      using keep [OF Cons.prems, of j k e] expire_hold_listed [OF Cons.prems(2), of now j k e] one
      by (simp_all add: listed_def)
    from Cons.IH [OF this] one x show ?case by simp
  qed
  with assms show ?thesis by (simp add: expire_holds_def)
qed

lemma uncertain_offer_is_stuck:
  assumes "get (offers db) i = Some w" and "wo_status w = OPending" and "list_ok db"
    and "get (requests db) (wo_request_id w) = Some r" and "jb_status j = JUncertain"
  shows "map_option wo_status (get (offers (sms_job_outcome db now i j)) i) = Some OPending"
    and "map_option wo_status (get (offers (fst (expire_holds db later))) i) = Some OPending"
    and "find_by_token v db token = Inr (Some w) \<Longrightarrow>
      claim v db later token = (db, Inl (HTTPException 410 ''Offer is no longer available''))"
  using assms has_id_get [OF list_okD(2) [OF assms(3)] assms(1)] expire_holds_pending [OF assms(1-3)]
  by (simp_all add: sms_job_outcome_def claim_def claim_locked_def active_hold_def)

text \<open>The last check before a queued message is sent does not look at the calendar.\<close>

lemma final_gate_ignores_calendar:
  "sms_job_final_gate (db\<lparr>bookings := bs, blocks := ts, windows := ws\<rparr>) now i = sms_job_final_gate db now i"
  by (auto simp: sms_job_final_gate_def split: option.splits)

text \<open>A due offer of a master who is no longer active ends the iteration of the scheduler.\<close>

lemma inactive_master_stops_scheduler:
  assumes "fst (expire_due_requests db now) = db1"
    and "select_where (\<lambda>w. wo_status w = OPending \<and> wo_scheduled_at w \<le> now) (offers db1) = w # ws"
    and "list_ok db1" and "\<not> we_smsclub v"
    and "get_active_master_with_services db1 (wo_master_id w) = Inl e"
  shows "scheduler_iteration v gw db now = db1"
proof -
  have "w \<in> set (select_where (\<lambda>w. wo_status w = OPending \<and> wo_scheduled_at w \<le> now) (offers db1))"
    by (simp add: assms(2))
  from selected_row [OF list_okD(2) [OF assms(3)] this]
  have w: "get (offers db1) (wo_id w) = Some w" "wo_status w = OPending" "wo_scheduled_at w \<le> now" by simp_all
  then obtain r where r: "get (requests db1) (wo_request_id w) = Some r" "wr_status r = WOffered"
    using list_okD(3) [OF assms(3) w(1)] by (auto simp: open_offer_def)
  have "wr_id r = wo_request_id w" by (rule has_id_get [OF list_okD(1) [OF assms(3)] r(1)])
  with w r assms(4,5) have "send_due_one v gw now (wo_id w) (wo_request_id w) db1 = (db1, Inl e)"
    by (simp add: send_due_one_def send_due_locked_def open_request_def)
  then have "send_due_offers v gw db1 now = (db1, Inl e)" by (simp add: send_due_offers_def assms(2))
  then show ?thesis by (simp add: scheduler_iteration_def assms(1))
qed

chapter \<open>Properties\<close>

text \<open>A morning on which a client waits for master 2, whose bookings go to master 1.\<close>

definition demo_env :: waitlist_env where
  "demo_env = \<lparr>we_zone = winter_zone, we_digest = (\<lambda>s. CHR ''#'' # s), we_hold_minutes = 10,
     we_frequency_minutes = 60, we_quiet_from = 20 * 60, we_quiet_to = 7 * 60, we_expiry_days = 90,
     we_smsclub = False\<rparr>"

definition demo_gateway :: gateway where
  "demo_gateway = \<lparr>gw_token = (\<lambda>i. ''t'' @ show_int i), gw_send = (\<lambda>_. Some (Some ''m'')),
     gw_enqueue = (\<lambda>_. Inr ()), gw_job = (\<lambda>_. None), gw_statuses = (\<lambda>_. Inr [])\<rparr>"

definition demo_morning :: instant where
  "demo_morning = to_utc winter_zone (demo_day * day + 8 * 60 * minute)"

definition demo_wish :: waitlist_payload where
  "demo_wish = \<lparr>wp_customer_name = ''Dd'', wp_customer_phone = ''067 123 45 69'', wp_service_ids = [22],
     wp_preferred_master_id = Some 2, wp_desired_date = demo_day, wp_acceptable_date_from = None,
     wp_acceptable_date_to = None, wp_preferred_time_from = None, wp_preferred_time_to = None,
     wp_duration_minutes = None, wp_notification_consent = True\<rparr>"

definition demo_freed :: freed_slot where
  "demo_freed = \<lparr>fs_master_id = 1, fs_start_at = to_utc winter_zone (demo_day * day + WORK_START + 4 * SLOT_STEP),
     fs_end_at = to_utc winter_zone (demo_day * day + WORK_START + 8 * SLOT_STEP), fs_source_booking_id = None,
     fs_source_master_id = Some 2\<rparr>"

text \<open>The client has joined; the freed slot has been offered to the client.\<close>

definition demo_joined :: salon where
  "demo_joined = (case waitlist_create demo_env demo_open_salon demo_morning ''c'' demo_wish of
     Inl _ \<Rightarrow> demo_open_salon | Inr (db, _) \<Rightarrow> db)"

definition demo_held :: salon where
  "demo_held = fst (offer_slot demo_env demo_gateway demo_joined demo_morning demo_freed)"

lemma demo_joined_step: "waitlist_step demo_env demo_open_salon demo_joined"
proof -
  have ran: "case waitlist_create demo_env demo_open_salon demo_morning ''c'' demo_wish of
      Inl _ \<Rightarrow> False | Inr _ \<Rightarrow> True" by code_simp
  have "valid_waitlist_payload demo_wish" by code_simp
  then show ?thesis
    using ran unfolding demo_joined_def
    by (cases "waitlist_create demo_env demo_open_salon demo_morning ''c'' demo_wish")
      (auto intro: waitlist_step.join)
qed

lemma demo_held_steps: "(waitlist_step demo_env)\<^sup>*\<^sup>* demo_joined demo_held"
  unfolding demo_held_def by (rule offer_slot_steps)

lemma demo_outside_ok: "outside_ok demo_delegates"
proof -
  have "delegates_keep_list demo_delegates"
    by (auto simp: delegates_keep_list_def demo_delegates_def)
  with demo_delegates_ok show ?thesis by (simp add: outside_ok_def)
qed

lemma demo_reaches: "(salon_step demo_env demo_delegates)\<^sup>*\<^sup>* demo_open_salon demo_held"
proof -
  have "salon_step demo_env demo_delegates demo_open_salon demo_joined"
    using demo_joined_step by (simp add: salon_step_def)
  from converse_rtranclp_into_rtranclp [of "salon_step demo_env demo_delegates", OF this waitlist_steps_salon [OF demo_held_steps]]
  show ?thesis .
qed

lemma demo_salon_ok: "salon_ok demo_open_salon" "salon_ok demo_joined" "salon_ok demo_held"
proof -
  have "requests demo_open_salon = [] \<and> offers demo_open_salon = []"
    by code_simp
  then have "list_ok demo_open_salon" by (simp add: list_ok_def has_id_def)
  with demo_desk_ok(1) show ok: "salon_ok demo_open_salon" by (simp add: salon_ok_def)
  have "salon_step demo_env demo_delegates demo_open_salon demo_joined"
    using demo_joined_step by (simp add: salon_step_def)
  from salon_step_ok [OF this demo_outside_ok ok] show "salon_ok demo_joined" .
  from salon_reachable_ok [OF demo_reaches demo_outside_ok ok] show "salon_ok demo_held" .
qed

section \<open>What a late write does\<close>

text \<open>
  The offer as it was before the client cancelled, claimed or waited on. Each case is a run from
  \<open>demo_held\<close> whose last write is a \<open>late_write\<close>; the list is no longer consistent afterwards.
\<close>

definition demo_read :: waitlist_offer where
  "demo_read = hd (sent_offers demo_held)"

lemma late_writes_happen:
  "earlier_read db demo_read \<Longrightarrow> late_write v True db (fst (claim_locked v db now token demo_read))"
  "earlier_read db demo_read \<Longrightarrow> apply_reports now statuses seen [demo_read] db = Inr db' \<Longrightarrow> late_write v True db db'"
  by (rule late_write.late_claim [OF _ prod.collapse [symmetric]], assumption)
    (rule late_write.late_report [where found = "[demo_read]"], simp_all)

text \<open>The report that the message was delivered arrives after the claim: the claimed offer is a hold again.\<close>

lemma late_delivery_reopens_claim:
  "case claim demo_env demo_held (demo_morning + minute) ''t1'' of
     (db1, Inr b) \<Rightarrow> earlier_read db1 demo_read
       \<and> (case apply_reports (demo_morning + 2 * minute) (\<lambda>_. Some Delivery_done) (get (requests demo_held)) [demo_read] db1 of
            Inr db2 \<Rightarrow> map_option wo_status (get (offers db1) 1) = Some OClaimed
              \<and> map_option active_hold (get (offers db2) 1) = Some True
              \<and> map_option wr_status (get (requests db2) 1) = Some WBooked
          | Inl _ \<Rightarrow> False)
   | (db1, Inl _) \<Rightarrow> False"
  by code_simp

text \<open>The client cancels between the two reads of the claim: the claim books all the same.\<close>

lemma late_claim_books_cancelled_request:
  "case cancel_with_slots demo_env demo_held (demo_morning + minute) ''c'' of
     Inr (db1, _) \<Rightarrow> earlier_read db1 demo_read
       \<and> (case claim_locked demo_env db1 (demo_morning + minute) ''t1'' demo_read of
            (db2, Inr b) \<Rightarrow> map_option wr_status (get (requests db1) 1) = Some WCancelled
              \<and> map_option wo_status (get (offers db1) 1) = Some OCancelled
              \<and> bk_status b = Confirmed \<and> map_option bk_status (get (bookings db2) (bk_id b)) = Some Confirmed
          | (db2, Inl _) \<Rightarrow> False)
   | Inl _ \<Rightarrow> False"
  by code_simp

text \<open>
  Two claims of one token, both past their first read: the second finds its own booking in the slot,
  cancels the claimed offer and puts the booked request back on the list.
\<close>

lemma second_claim_reopens_request:
  "case claim_locked demo_env demo_held (demo_morning + minute) ''t1'' demo_read of
     (db1, Inr b) \<Rightarrow> earlier_read db1 demo_read
       \<and> (case claim_locked demo_env db1 (demo_morning + minute) ''t1'' demo_read of
            (db2, res) \<Rightarrow> res = Inl (HTTPException 409 ''Slot is no longer available'')
              \<and> map_option wr_status (get (requests db1) 1) = Some WBooked
              \<and> map_option wr_status (get (requests db2) 1) = Some WActive
              \<and> map_option wo_status (get (offers db2) 1) = Some OCancelled
              \<and> map_option bk_status (get (bookings db2) (bk_id b)) = Some Confirmed)
   | (db1, Inl _) \<Rightarrow> False"
  by code_simp

text \<open>C1: no master is ever booked twice, whatever the desk, the jobs and the waiting list do: from a
  salon whose invariants hold, any interleaving of bookings, edits, completions, waitlist requests,
  offers, expiries, delivery reports and claims leaves two confirmed bookings of one master disjoint,
  also where a claim or a delivery report writes over an offer that changed since it was read.\<close>

theorem salon_never_double_books:
  assumes "(salon_race v dl True)\<^sup>*\<^sup>* db db'" and "outside_ok dl" and "race_ok db"
    and "get (bookings db') i = Some b" and "get (bookings db') j = Some c" and "i \<noteq> j"
    and "bk_status b = Confirmed" and "bk_status c = Confirmed" and "bk_master_id b = bk_master_id c"
  shows "bk_end_at b \<le> bk_start_at c \<or> bk_end_at c \<le> bk_start_at b"
proof -
  have ok: "desk_ok db'" using salon_races_ok [OF assms(1-3)] by (simp add: race_ok_def)
  have "bk_id b \<noteq> bk_id c" using row_id [OF ok] assms(4-6) by metis
  then have "\<not> overlaps (bk_start_at b) (bk_end_at b) (bk_start_at c) (bk_end_at c)"
    using ok assms(4-9) get_in_rows unfolding desk_ok_def confirmed_disjoint_def by metis
  then show ?thesis by (auto simp: overlaps_def)
qed

theorem salon_never_double_books_witness:
  "\<exists>db' b c. (salon_race demo_env demo_delegates True)\<^sup>*\<^sup>* demo_open_salon db'
     \<and> get (bookings db') 1 = Some b \<and> get (bookings db') 2 = Some c \<and> bk_status c = Confirmed
     \<and> (bk_end_at b \<le> bk_start_at c \<or> bk_end_at c \<le> bk_start_at b)"
proof -
  define run where "run = claim demo_env demo_held (demo_morning + minute) ''t1''"
  define db' where "db' = fst run"
  have "case run of (db', _) \<Rightarrow> (case (get (bookings db') 1, get (bookings db') 2) of (Some b, Some c) \<Rightarrow>
      bk_status b = Confirmed \<and> bk_status c = Confirmed \<and> bk_master_id b = 1 \<and> bk_master_id c = 1 | _ \<Rightarrow> False)"
    unfolding run_def by code_simp
  then have two: "case (get (bookings db') 1, get (bookings db') 2) of (Some b, Some c) \<Rightarrow>
      bk_status b = Confirmed \<and> bk_status c = Confirmed \<and> bk_master_id b = 1 \<and> bk_master_id c = 1 | _ \<Rightarrow> False"
    by (simp add: db'_def split_def)
  obtain b c where rows: "get (bookings db') 1 = Some b" "get (bookings db') 2 = Some c"
    and bc: "bk_status b = Confirmed" "bk_status c = Confirmed" "bk_master_id b = 1" "bk_master_id c = 1"
    using two by (cases "get (bookings db') 1"; cases "get (bookings db') 2") simp_all
  have "waitlist_step demo_env demo_held db'"
    unfolding db'_def run_def by (rule waitlist_step.claimed) (rule prod.collapse [symmetric])
  then have "salon_step demo_env demo_delegates demo_held db'" by (simp add: salon_step_def)
  with demo_reaches have "(salon_step demo_env demo_delegates)\<^sup>*\<^sup>* demo_open_salon db'"
    by (rule rtranclp.rtrancl_into_rtrancl)
  then have steps: "(salon_race demo_env demo_delegates True)\<^sup>*\<^sup>* demo_open_salon db'" by (rule salon_steps_race)
  have "bk_end_at b \<le> bk_start_at c \<or> bk_end_at c \<le> bk_start_at b"
    by (rule salon_never_double_books
        [OF steps demo_outside_ok salon_ok_race_ok [OF demo_salon_ok(1)] rows _ bc(1,2)]) (simp_all add: bc)
  with steps rows bc show ?thesis by blast
qed

text \<open>C11: a client waits in one state at a time: as long as no claim and no delivery report writes over an
  offer that changed since it was read, in every reachable state a request is offered exactly if one of
  its offers is open, and then it is the only open one; no two open requests have the same
  deduplication key, and no two offers the same token. Operations that commit on their way may be
  interrupted between any two of their transactions.\<close>

theorem waiting_list_consistent:
  assumes "(salon_step v dl)\<^sup>*\<^sup>* db db'" and "outside_ok dl" and "salon_ok db"
    and "get (requests db') i = Some r"
  shows "(wr_status r = WOffered \<longleftrightarrow> (\<exists>!w. w \<in> set (rows (offers db')) \<and> wo_request_id w = i \<and> open_offer w))
    \<and> (wr_status r \<noteq> WOffered \<longleftrightarrow> (\<forall>w \<in> set (rows (offers db')). wo_request_id w = i \<longrightarrow> \<not> open_offer w))
    \<and> (\<forall>q \<in> set (rows (requests db')). open_request r \<and> open_request q
         \<and> wr_dedup_key_hash q = wr_dedup_key_hash r \<longrightarrow> q = r)
    \<and> distinct (map wo_token_hash (rows (offers db')))"
proof -
  have ok: "list_ok db'" using salon_reachable_ok [OF assms(1-3)] by (simp add: salon_ok_def)
  note has = list_okD(1,2) [OF ok]
  have row: "w \<in> set (rows (offers db')) \<longleftrightarrow> get (offers db') (wo_id w) = Some w" for w
    by (rule has_id_rows_iff [OF has(2)])
  have off: "wr_status r = WOffered \<longleftrightarrow> (\<exists>w \<in> set (rows (offers db')). wo_request_id w = i \<and> open_offer w)"
  proof
    assume "wr_status r = WOffered"
    with list_okD(4) [OF ok assms(4)] obtain j w where
      w: "get (offers db') j = Some w" "open_offer w" "wo_request_id w = i" by blast
    with get_in_rows [OF w(1)] show "\<exists>w \<in> set (rows (offers db')). wo_request_id w = i \<and> open_offer w" by blast
  next
    assume "\<exists>w \<in> set (rows (offers db')). wo_request_id w = i \<and> open_offer w"
    then obtain w where "get (offers db') (wo_id w) = Some w" "wo_request_id w = i" "open_offer w"
      using row by blast
    with list_okD(3) [OF ok, of "wo_id w" w] assms(4) show "wr_status r = WOffered" by simp
  qed
  have only: "w = q" if "w \<in> set (rows (offers db'))" "q \<in> set (rows (offers db'))" "open_offer w" "open_offer q"
      "wo_request_id w = i" "wo_request_id q = i" for w q
  proof -
    have wq: "get (offers db') (wo_id w) = Some w" "get (offers db') (wo_id q) = Some q" using that row by blast+
    have "wo_id w = wo_id q" by (rule list_okD(5) [OF ok wq(1) that(3) wq(2) that(4)]) (simp add: that)
    with wq show ?thesis by (metis option.inject)
  qed
  have dedup: "q = r" if "q \<in> set (rows (requests db'))" "open_request r" "open_request q"
      "wr_dedup_key_hash q = wr_dedup_key_hash r" for q
  proof -
    have q: "get (requests db') (wr_id q) = Some q" by (rule has_id_rows [OF has(1) that(1)])
    have "wr_id q = i" by (rule list_okD(6) [OF ok q that(3) assms(4) that(2,4)])
    with q assms(4) show ?thesis by (metis option.inject)
  qed
  have "inj_on wo_token_hash (set (rows (offers db')))"
  proof (rule inj_onI)
    fix w q assume "w \<in> set (rows (offers db'))" "q \<in> set (rows (offers db'))" and same: "wo_token_hash w = wo_token_hash q"
    then have wq: "get (offers db') (wo_id w) = Some w" "get (offers db') (wo_id q) = Some q" using row by blast+
    have "wo_id w = wo_id q" by (rule list_okD(7) [OF ok wq same])
    with wq show "w = q" by (metis option.inject)
  qed
  moreover have "distinct (rows (offers db'))"
    using select_distinct [OF has(2), of "\<lambda>_. True"] by (simp add: select_where_def distinct_map)
  ultimately have "distinct (map wo_token_hash (rows (offers db')))" by (simp add: distinct_map)
  moreover have "wr_status r = WOffered \<longleftrightarrow> (\<exists>!w. w \<in> set (rows (offers db')) \<and> wo_request_id w = i \<and> open_offer w)"
    unfolding off using only by (blast intro: ex_ex1I)
  ultimately show ?thesis using off dedup by blast
qed

theorem waiting_list_consistent_witness:
  "\<exists>r. get (requests demo_held) 1 = Some r \<and> wr_status r = WOffered
     \<and> (\<exists>!w. w \<in> set (rows (offers demo_held)) \<and> wo_request_id w = 1 \<and> open_offer w)"
proof -
  have got: "case get (requests demo_held) 1 of None \<Rightarrow> False | Some r \<Rightarrow> wr_status r = WOffered" by code_simp
  then obtain r where r: "get (requests demo_held) 1 = Some r" "wr_status r = WOffered"
    by (cases "get (requests demo_held) 1") simp_all
  from waiting_list_consistent [OF demo_reaches demo_outside_ok demo_salon_ok(1) r(1)] r show ?thesis by blast
qed

lemma singleton_list: "distinct xs \<Longrightarrow> set xs = {x} \<Longrightarrow> xs = [x]"
proof -
  assume xs: "distinct xs" "set xs = {x}"
  then have "length xs = 1" using distinct_card [OF xs(1)] by simp
  then obtain y where "xs = [y]" by (auto simp: length_Suc_conv)
  with xs(2) show "xs = [x]" by simp
qed

lemma match_loop_Some:
  assumes "match_loop active matched requested = Some items" and "distinct (map sv_id matched)" and "set matched \<subseteq> set active"
  shows "distinct (map sv_id items) \<and> set items \<subseteq> set active \<and> length items = length matched + length requested"
  using assms
proof (induction requested arbitrary: matched)
  case Nil
  then show ?case by simp
next
  case (Cons source rest)
  from Cons.prems(1) obtain target where t: "matching_service active source = Some target"
    and new: "\<not> list_ex (\<lambda>s. sv_id s = sv_id target) matched"
    and run: "match_loop active (matched @ [target]) rest = Some items"
    by (auto split: option.splits if_splits)
  have "target \<in> set active"
    using t by (auto simp: matching_service_def split: option.splits dest: find_Some_mem)
  moreover have "sv_id target \<notin> sv_id ` set matched" using new by (auto simp: list_ex_iff)
  ultimately show ?case
    using Cons.IH [OF run] Cons.prems(2,3) by simp
qed

lemma number_items_services: "map si_service_id (number_items n f ss) = map sv_id ss"
  by (induction ss arbitrary: n) simp_all

lemma claimed_booking_priced:
  assumes "apply_to_booking z campaign db default_options (claimed_booking w master public_master items c n)
      None code customer taken at = Inr b" and "items \<noteq> []"
  shows "bk_customer_id b = Some (cu_id c)" "bk_customer_phone b = cu_phone c"
    "bk_service_items b = number_items 0 sv_price items" "bk_service_id b = sv_id (hd items)"
proof -
  have "no_campaign default_options (claimed_booking w master public_master items c n)"
    by (simp add: no_campaign_def default_options_def claimed_booking_def truthy_text_def truthy_id_def)
  with assms(1) obtain ex fv p c' where
    "price_booking default_options ex fv p c' taken (claimed_booking w master public_master items c n) = Inr b"
    by (rule apply_to_booking_Inr)
  note kept = price_booking_frame [OF this]
  show "bk_customer_id b = Some (cu_id c)" "bk_customer_phone b = cu_phone c"
    "bk_service_items b = number_items 0 sv_price items"
    using kept by (simp_all add: claimed_booking_def)
  from assms(2) show "bk_service_id b = sv_id (hd items)"
    using kept by (cases items) (simp_all add: claimed_booking_def)
qed

text \<open>C9: a successful claim turns a hold that was live when the claim first read the offer into a booking of
  the client who waited: the row of the offer has the presented token, the booking is confirmed in
  exactly the offered slot, which was still free of other bookings, holds and blocks and inside the
  published availability; its customer, name aside, is the customer of the offer's request; its
  services are active services of the booked master, one for each requested service and in their
  order; it is stored as a new row, the offer is claimed and the request booked. If the offer had not
  changed since that read and the list is consistent, the request was offered.\<close>

theorem claim_books_the_hold:
  assumes "claim_locked v db now token w = (db', Inr b)" and "earlier_read db w" and "race_ok db"
  shows "\<exists>q r c m items. get (offers db) (wo_id w) = Some q \<and> wo_token_hash q = we_digest v token
    \<and> active_hold w \<and> now < wo_expires_at w \<and> now < wo_start_at q
    \<and> get (requests db) (wo_request_id q) = Some r \<and> get (customers db) (wr_customer_id r) = Some c
    \<and> bk_customer_id b = Some (cu_id c) \<and> bk_customer_phone b = cu_phone c
    \<and> get (masters db) (wo_master_id q) = Some m \<and> ms_is_active m \<and> bk_master_id b = ms_id m
    \<and> slot_free v db now (ms_id m) (wo_start_at q) (wo_end_at q) (Some (wo_id q)) = Inr ()
    \<and> bk_start_at b = wo_start_at q \<and> bk_end_at b = wo_end_at q \<and> bk_status b = Confirmed
    \<and> matching_services db m (request_services db r) = Some items \<and> items \<noteq> []
    \<and> map si_service_id (bk_service_items b) = map sv_id items \<and> bk_service_id b = sv_id (hd items)
    \<and> distinct (map sv_id items) \<and> length items = length (request_services db r)
    \<and> set items \<subseteq> {s \<in> set (master_services db m). is_active_service db s}
    \<and> get (bookings db) (bk_id b) = None \<and> bookings db' = put (bk_id b) b (bookings db)
    \<and> map_option wo_status (get (offers db') (wo_id q)) = Some OClaimed
    \<and> map_option wr_status (get (requests db') (wr_id r)) = Some WBooked
    \<and> (q = w \<and> list_ok db \<longrightarrow> wr_status r = WOffered)"
  using assms(1)
proof (cases rule: claim_locked_cases)
  case (booked r master public_master items x)
  have ok: "tables_ok db" using assms(3) by (simp add: race_ok_def)
  obtain q where q: "get (offers db) (wo_id w) = Some q" "wo_token_hash q = we_digest v token"
    using booked(1) by auto
  have same: "wo_request_id q = wo_request_id w" "wo_master_id q = wo_master_id w" "wo_start_at q = wo_start_at w"
    "wo_end_at q = wo_end_at w" "wo_id q = wo_id w"
    using assms(2) q(1) has_id_get [OF tables_okD(2) [OF ok] q(1)] by (simp_all add: earlier_read_def)
  have x: "x = b" using booked(12) by simp
  have m: "get (masters db) (wo_master_id q) = Some master" "ms_is_active master"
    using booked(6) by (auto simp: same get_active_master_with_services_def split: option.splits if_splits)
  have items: "distinct (map sv_id items)" "length items = length (request_services db r)"
    "set items \<subseteq> {s \<in> set (master_services db master). is_active_service db s}"
    using match_loop_Some [OF booked(8) [unfolded matching_services_def]] by auto
  have off: "q = w \<and> list_ok db \<longrightarrow> wr_status r = WOffered"
  proof
    assume fresh: "q = w \<and> list_ok db"
    have "open_offer q" using fresh booked(2) by (auto simp: open_offer_def active_hold_def)
    with list_okD(3) [OF _ q(1)] fresh booked(5) show "wr_status r = WOffered" by auto
  qed
  from booked(11) show ?thesis
  proof (rule book_claim_Inr)
    fix c db1
    assume c: "get (customers db) (wr_customer_id r) = Some c"
      and slot: "same_slot (claimed_booking w master public_master items c (next_id (bookings db))) x"
      and bks: "bookings db' = put (bk_id x) x (bookings db)"
      and db1: "offers db1 = offers db"
      and db': "db' = put_request (booked_request now r) (rewrite_offer (wo_id w) (claimed_offer now) db1)"
      and priced: "apply_to_booking (we_zone v) Inr db default_options
              (claimed_booking w master public_master items c (next_id (bookings db))) None None (Some c) items
              (Aware (wo_start_at w)) = Inr x"
    have b: "bk_id b = next_id (bookings db)" "bk_master_id b = ms_id master" "bk_start_at b = wo_start_at q"
      "bk_end_at b = wo_end_at q" "bk_status b = Confirmed"
      using slot by (simp_all add: same_slot_def claimed_booking_def x same)
    note client = claimed_booking_priced [OF priced [unfolded x] booked(9)]
    have rows: "bookings db' = put (bk_id b) b (bookings db)" "get (bookings db) (bk_id b) = None"
      using bks b(1) by (simp_all add: x)
    have closed: "map_option wo_status (get (offers db') (wo_id q)) = Some OClaimed"
      "map_option wr_status (get (requests db') (wr_id r)) = Some WBooked"
      using rewrite_offer_row [OF q(1) [folded db1]] same(5)
      by (simp_all add: db' claimed_offer_def booked_request_def close_offer_def)
    show ?thesis
      by (intro exI [of _ q] exI [of _ r] exI [of _ c] exI [of _ master] exI [of _ items] conjI)
        (use q c booked(2-5,8-10) m b client items rows closed off same in \<open>simp_all add: number_items_services\<close>)
  qed
qed simp_all

text \<open>A claim that nobody interrupts reads the current offer.\<close>

lemma claim_reads_current:
  assumes "claim v db now token = (db', Inr b)" and "tables_ok db"
  obtains w where "get (offers db) (wo_id w) = Some w" "earlier_read db w" "claim_locked v db now token w = (db', Inr b)"
  using assms(1)
proof (cases rule: claim_as_locked)
  case (found w)
  from selected_row [OF tables_okD(2) [OF assms(2)] find_by_token_selected [OF found(1)]]
  have "get (offers db) (wo_id w) = Some w" by blast
  then show thesis using found(2) by (intro that) (simp_all add: earlier_read_def)
qed simp_all

theorem claim_books_the_hold_witness:
  "case claim demo_env demo_held (demo_morning + minute) ''t1'' of
     (db', Inl _) \<Rightarrow> False
   | (db', Inr b) \<Rightarrow> bk_status b = Confirmed \<and> bookings db' = put (bk_id b) b (bookings demo_held)
       \<and> bk_start_at b = fs_start_at demo_freed
       \<and> (\<exists>r c. get (requests demo_held) 1 = Some r \<and> get (customers demo_held) (wr_customer_id r) = Some c
            \<and> bk_customer_id b = Some (cu_id c))"
proof -
  define run where "run = claim demo_env demo_held (demo_morning + minute) ''t1''"
  have ran: "case run of (db', Inl _) \<Rightarrow> False | (db', Inr b) \<Rightarrow> bk_start_at b = fs_start_at demo_freed"
    unfolding run_def by code_simp
  then obtain db' b where run: "run = (db', Inr b)" "bk_start_at b = fs_start_at demo_freed"
    by (cases run) (auto split: sum.splits)
  have ok: "race_ok demo_held" using demo_salon_ok(3) by (rule salon_ok_race_ok)
  then have "tables_ok demo_held" by (simp add: race_ok_def)
  with run(1) obtain w where w: "get (offers demo_held) (wo_id w) = Some w" "earlier_read demo_held w"
    "claim_locked demo_env demo_held (demo_morning + minute) ''t1'' w = (db', Inr b)"
    unfolding run_def by (rule claim_reads_current)
  have "list_all (\<lambda>w. wo_request_id w = 1) (rows (offers demo_held))" by code_simp
  with get_in_rows [OF w(1)] have "wo_request_id w = 1" by (auto simp: list_all_iff)
  with claim_books_the_hold [OF w(3,2) ok] run(2) w(1)
  show ?thesis unfolding run_def [symmetric] run(1) prod.case sum.case by force
qed

text \<open>C16: a token is spent by its claim: after a successful claim, in every state the salon can reach from
  there, the same token presented anew is refused with 410 and changes nothing. Until then other claims
  and failure reports may write late; a late report that the offer's message was delivered may not.\<close>

theorem claimed_token_is_spent:
  assumes "claim_locked v db now token w = (db1, Inr b)" and "race_ok db" and "outside_ok dl"
    and "(salon_race v dl False)\<^sup>*\<^sup>* db1 db2"
  shows "claim v db2 later token = (db2, Inl (HTTPException 410 ''Offer is no longer available''))"
proof -
  have ok1: "race_ok db1" using claim_locked_race_ok [OF assms(1,2)] by blast
  obtain w1 where w1: "get (offers db1) (wo_id w) = Some w1" "\<not> open_offer w1" "wo_token_hash w1 = we_digest v token"
    using assms(1)
  proof (cases rule: claim_locked_cases)
    case (booked r master public_master items x)
    then obtain q where q: "get (offers db) (wo_id w) = Some q" "wo_token_hash q = we_digest v token" by auto
    have "wo_id q = wo_id w" using has_id_get [OF tables_okD(2) q(1)] assms(2) by (simp add: race_ok_def)
    from booked(11) show thesis
    proof (rule book_claim_Inr)
      fix db0
      assume "offers db0 = offers db"
        and "db1 = put_request (booked_request now r) (rewrite_offer (wo_id w) (claimed_offer now) db0)"
      with q \<open>wo_id q = wo_id w\<close> show thesis
        by (intro that [of "claimed_offer now q"])
          (simp_all add: rewrite_offer_row claimed_offer_def close_offer_def open_offer_def)
    qed
  qed simp_all
  from salon_races_ok [OF assms(4,3) ok1] have final: "race_ok db2" "closed_stays db1 db2" by simp_all
  then obtain w2 where w2: "get (offers db2) (wo_id w) = Some w2" "\<not> open_offer w2" "wo_token_hash w2 = we_digest v token"
    using w1 unfolding closed_stays_def by metis
  have ok2: "tables_ok db2" using final(1) by (simp add: race_ok_def)
  have id2: "wo_id w2 = wo_id w" by (rule has_id_get [OF tables_okD(2) [OF ok2] w2(1)])
  define found where "found = select_where (\<lambda>q. wo_token_hash q = we_digest v token) (offers db2)"
  have member: "q = w2" if "q \<in> set found" for q
  proof -
    from selected_row [OF tables_okD(2) [OF ok2] that [unfolded found_def]]
    have q: "get (offers db2) (wo_id q) = Some q" "wo_token_hash q = we_digest v token" by simp_all
    have "wo_id q = wo_id w" by (rule tables_okD(3) [OF ok2 q(1) w2(1)]) (simp add: q(2) w2(3))
    with q(1) w2(1) show ?thesis by (metis option.inject)
  qed
  have "w2 \<in> set found" using get_in_rows [OF w2(1)] w2(3) by (simp add: found_def select_where_def)
  with member have all: "set found = {w2}" by blast
  have "distinct (map wo_id found)"
    unfolding found_def by (rule select_distinct [OF tables_okD(2) [OF ok2]])
  then have "distinct found" by (rule distinct_map [THEN iffD1, THEN conjunct1])
  then have "found = [w2]" using all by (rule singleton_list)
  then have "find_by_token v db2 token = Inr (Some w2)" by (simp add: find_by_token_def found_def)
  moreover have "active_hold w2 = False" using w2(2) by (auto simp: active_hold_def open_offer_def)
  ultimately show ?thesis
    by (simp add: claim_def claim_locked_def split: option.split)
qed

theorem claimed_token_is_spent_witness:
  "case claim demo_env demo_held (demo_morning + minute) ''t1'' of
     (db', Inl _) \<Rightarrow> False
   | (db', Inr b) \<Rightarrow> claim demo_env db' (demo_morning + 2 * minute) ''t1''
       = (db', Inl (HTTPException 410 ''Offer is no longer available''))"
proof -
  define run where "run = claim demo_env demo_held (demo_morning + minute) ''t1''"
  have ran: "case run of (db', Inl _) \<Rightarrow> False | (db', Inr b) \<Rightarrow> True"
    unfolding run_def by code_simp
  then obtain db' b where run: "run = (db', Inr b)"
    by (cases run) (auto split: sum.splits)
  have ok: "race_ok demo_held" using demo_salon_ok(3) by (rule salon_ok_race_ok)
  then have "tables_ok demo_held" by (simp add: race_ok_def)
  with run obtain w where "claim_locked demo_env demo_held (demo_morning + minute) ''t1'' w = (db', Inr b)"
    unfolding run_def by (rule claim_reads_current)
  from claimed_token_is_spent [OF this ok demo_outside_ok rtranclp.rtrancl_refl]
  show ?thesis unfolding run_def [symmetric] run prod.case sum.case by blast
qed

text \<open>C15: an offer respects the client it goes to: it is for exactly the freed slot, its request was active,
  not expired, of the slot's length and within its dates and times, the client agreed to be
  notified, is neither opted out nor blacklisted and has no confirmed booking in that time, the
  master is free then, and no eligible request ranks before the chosen one.\<close>

theorem offer_respects_the_client:
  assumes "offer_slot v gw db now f = (db', Inr (Some w))" and "list_ok db"
  shows "get (offers db') (wo_id w) = Some w \<and> open_offer w
    \<and> wo_start_at w = fs_start_at f \<and> wo_end_at w = fs_end_at f
    \<and> map_option wr_status (get (requests db') (wo_request_id w)) = Some WOffered
    \<and> (\<exists>db0 r. listed db db0 \<and> get (requests db0) (wo_request_id w) = Some r
        \<and> wr_status r = WActive \<and> now < wr_expires_at r
        \<and> communication_allowed r (get (preferences db) (wr_customer_id r))
        \<and> wr_duration_minutes r = whole_minutes (we_zone v) (fs_start_at f) (fs_end_at f)
        \<and> in_date_range (we_zone v) r (fs_start_at f)
        \<and> in_time_preference (we_zone v) r (fs_start_at f) (Some (fs_end_at f))
        \<and> list_all (\<lambda>b. bk_status b = Confirmed
             \<and> (bk_master_id b = wo_master_id w \<or> bk_customer_id b = Some (wr_customer_id r)) \<longrightarrow>
             \<not> overlaps (bk_start_at b) (bk_end_at b) (fs_start_at f) (fs_end_at f)) (rows (bookings db))
        \<and> (\<exists>m source. ms_id m = wo_master_id w \<and> source = truthy_or (fs_source_master_id f) (ms_id m)
             \<and> list_all (\<lambda>q. offer_rank v source (fs_start_at f) r \<le> offer_rank v source (fs_start_at f) q)
                 (eligible_requests v db0 now m source (fs_start_at f) (fs_end_at f))))"
proof -
  from offer_slot_Some [OF assms] obtain db0 where db0: "listed db db0"
    and at: "offer_attempt v gw db0 now f = Ended db' (Inr (Some w))" by blast
  have ok0: "list_ok db0" by (rule listed_ok [OF db0])
  have ok': "list_ok db'" using offer_attempt_listed(1) [OF ok0 at] by (rule listed_ok)
  from at ok0 show ?thesis
  proof (rule offer_attempt_Some)
    fix m :: master and r rs
    define source where "source = truthy_or (fs_source_master_id f) (ms_id m)"
    assume chosen: "eligible_requests v db0 now m (truthy_or (fs_source_master_id f) (ms_id m)) (fs_start_at f) (fs_end_at f)
        = r # rs"
      and free: "slot_free v db0 now (ms_id m) (fs_start_at f) (fs_end_at f) None = Inr ()"
      and new: "same_offer (new_offer v gw db0 now m (truthy_or (fs_source_master_id f) (ms_id m)) f r) w"
      and row: "get (offers db') (wo_id w) = Some w" "open_offer w"
    have w: "wo_request_id w = wr_id r" "wo_master_id w = ms_id m" "wo_start_at w = fs_start_at f" "wo_end_at w = fs_end_at f"
      using new by (simp_all add: same_offer_def new_offer_def Let_def)
    have offered: "map_option wr_status (get (requests db') (wo_request_id w)) = Some WOffered"
      using list_okD(3) [OF ok' row] by auto
    note head = eligible_requests_head [OF chosen]
    have got: "get (requests db0) (wo_request_id w) = Some r"
      using has_id_rows [OF list_okD(1) [OF ok0]] head w(1) by simp
    have same: "preferences db0 = preferences db" "bookings db0 = bookings db"
      using db0 by (simp_all add: listed_def list_only_def)
    have slot: "ensure_slot_available db0 now (ms_id m) (fs_start_at f) (fs_end_at f) None None = Inr ()"
      using free by (auto simp: slot_free_def and_then_eq_Inr)
    have calendar: "list_all (\<lambda>b. bk_status b = Confirmed
             \<and> (bk_master_id b = wo_master_id w \<or> bk_customer_id b = Some (wr_customer_id r)) \<longrightarrow>
             \<not> overlaps (bk_start_at b) (bk_end_at b) (fs_start_at f) (fs_end_at f)) (rows (bookings db))"
      using slot head same(2) unfolding ensure_slot_available_iff eligible_def
      by (auto simp: list_all_iff select_where_def filter_empty_conv w(2))
    have "sorted (map (offer_rank v source (fs_start_at f))
        (eligible_requests v db0 now m source (fs_start_at f) (fs_end_at f)))"
      by (simp add: eligible_requests_def Let_def)
    then have rank: "list_all (\<lambda>q. offer_rank v source (fs_start_at f) r \<le> offer_rank v source (fs_start_at f) q)
        (eligible_requests v db0 now m source (fs_start_at f) (fs_end_at f))"
      using chosen by (simp add: source_def list_all_iff)
    have el: "communication_allowed r (get (preferences db) (wr_customer_id r))"
      "wr_duration_minutes r = whole_minutes (we_zone v) (fs_start_at f) (fs_end_at f)"
      "in_date_range (we_zone v) r (fs_start_at f)"
      "in_time_preference (we_zone v) r (fs_start_at f) (Some (fs_end_at f))"
      using head same(1) by (simp_all add: eligible_def)
    show ?thesis
      using row w(3,4) offered db0 got head el calendar w(2) [symmetric] source_def rank by blast
  qed
qed

theorem offer_respects_the_client_witness:
  "case offer_slot demo_env demo_gateway demo_joined demo_morning demo_freed of
     (db', Inl _) \<Rightarrow> False
   | (db', Inr None) \<Rightarrow> False
   | (db', Inr (Some w)) \<Rightarrow> wo_start_at w = fs_start_at demo_freed
       \<and> map_option wr_status (get (requests db') (wo_request_id w)) = Some WOffered"
proof -
  define run where "run = offer_slot demo_env demo_gateway demo_joined demo_morning demo_freed"
  have ran: "case run of (db', Inl _) \<Rightarrow> False | (db', Inr None) \<Rightarrow> False | (db', Inr (Some w)) \<Rightarrow> True"
    unfolding run_def by code_simp
  then obtain db' w where run: "run = (db', Inr (Some w))"
    by (cases run) (auto split: sum.splits option.splits)
  have "list_ok demo_joined" using demo_salon_ok(2) by (simp add: salon_ok_def)
  from offer_respects_the_client [OF run [unfolded run_def] this]
  show ?thesis unfolding run_def [symmetric] run prod.case sum.case option.case by blast
qed

text \<open>C17: the two walks along the booking redirects agree: a master is shown as public for a target in an
  offer iff it is shown at all and a booking requested with it would be taken by that target.\<close>

theorem offer_masters_agree_with_booking:
  assumes "has_id ms_id (masters db)" and "no_zero_redirect db"
  shows "m \<in> set (compatible_public_masters db t) \<longleftrightarrow>
    ms_show_on_master_block m \<and> (\<exists>target. resolve_booking_master db (ms_id m) = Inr (m, target) \<and> ms_id target = t)"
proof -
  have act: "ms_is_active m \<and> m \<in> set (rows (masters db)) \<longleftrightarrow> get_active_master_with_services db (ms_id m) = Inr m"
    using has_id_rows_iff [OF assms(1)] by (auto simp: get_active_master_with_services_def split: option.splits)
  show ?thesis
  proof (cases "get_active_master_with_services db (ms_id m) = Inr m")
    case True
    then have active: "active_master db (ms_id m) = Some m" by (simp add: active_master_iff)
    from redirect_end_follow [OF assms active, of "[]"]
    have walk: "redirect_end db [] (ms_id m) = Some t \<longleftrightarrow> (\<exists>target. follow_redirects db [ms_id m] m = Inr target \<and> ms_id target = t)"
      by (auto split: sum.splits)
    then show ?thesis
      using True act by (auto simp: compatible_public_masters_def select_where_def resolve_booking_master_def and_then_eq_Inr)
  next
    case False
    then have "resolve_booking_master db (ms_id m) \<noteq> Inr (m, target)" for target
      by (auto simp: resolve_booking_master_def and_then_eq_Inr)
    with False act show ?thesis by (auto simp: compatible_public_masters_def select_where_def)
  qed
qed

theorem offer_masters_agree_with_booking_witness:
  "demo_master 2 (Some 1) \<in> set (compatible_public_masters demo_salon 1)
   \<longleftrightarrow> ms_show_on_master_block (demo_master 2 (Some 1))
     \<and> (\<exists>target. resolve_booking_master demo_salon (ms_id (demo_master 2 (Some 1))) = Inr (demo_master 2 (Some 1), target)
          \<and> ms_id target = 1)"
proof -
  have "no_zero_redirect demo_salon" by code_simp
  from offer_masters_agree_with_booking [OF demo_ids(1) this] show ?thesis .
qed

end
