(* ===== verification/Transport.thy ===== *)
theory Transport
  imports Offers
begin

text \<open>
  The boundary to the SMS provider in \<^verbatim>\<open>app/services/sms.py\<close>: one HTTP request per admitted
  queue job, the reading of the answer, and the classification of everything that can go wrong.
  What a queue job may do next depends on that classification alone. The answer itself comes from
  outside: a reply is a value of \<open>http_reply\<close>. Log lines and the texts of details that are only
  displayed are left out.
\<close>

section \<open>JSON and Python values\<close>

text \<open>
  A decoded JSON document. A number that is not an integer is known by its \<open>str()\<close>. The keys of an
  object are in the order of the document.
\<close>

datatype json =
    JNull
  | JBool bool
  | JInt int
  | JFloat string
  | JStr string
  | JList "json list"
  | JObj "(string \<times> json) list"

definition truthy_json :: "json \<Rightarrow> bool" where
  "truthy_json j =
     (case j of JNull \<Rightarrow> False | JBool b \<Rightarrow> b | JInt i \<Rightarrow> i \<noteq> 0
      | JFloat s \<Rightarrow> s \<noteq> ''0.0'' \<and> s \<noteq> ''-0.0'' | JStr s \<Rightarrow> s \<noteq> [] | JList xs \<Rightarrow> xs \<noteq> [] | JObj kvs \<Rightarrow> kvs \<noteq> [])"

text \<open>
  \<open>str(value)\<close> of a value that is not a list or an object; the text of those begins with a bracket,
  which neither a phone number nor a delivery status does.
\<close>

definition scalar_text :: "json \<Rightarrow> string option" where
  "scalar_text j =
     (case j of JNull \<Rightarrow> Some ''None'' | JBool b \<Rightarrow> Some (if b then ''True'' else ''False'')
      | JInt i \<Rightarrow> Some (show_int i) | JFloat s \<Rightarrow> Some s | JStr s \<Rightarrow> Some s | _ \<Rightarrow> None)"

text \<open>The entries of a value that is an object: \<open>isinstance(value, dict)\<close>.\<close>

definition as_object :: "json option \<Rightarrow> (string \<times> json) list option" where
  "as_object j = (case j of Some (JObj kvs) \<Rightarrow> Some kvs | _ \<Rightarrow> None)"

section \<open>What can go wrong\<close>

record transport_error =
  te_status :: nat
  te_code :: string
  te_retryable :: bool
  te_ambiguous :: bool
  te_retry_after :: "int option" \<comment> \<open>in microseconds\<close>

definition transport_error :: "nat \<Rightarrow> string \<Rightarrow> bool \<Rightarrow> bool \<Rightarrow> int option \<Rightarrow> transport_error" where
  "transport_error code_status code retryable ambiguous retry_after =
     \<lparr>te_status = code_status, te_code = code, te_retryable = retryable, te_ambiguous = ambiguous,
      te_retry_after = retry_after\<rparr>"

text \<open>An exception of the transport: a classified one, or any other.\<close>

datatype transport_failure = Classified transport_error | Unclassified

text \<open>
  The header \<open>Retry-After\<close>: a finite number of seconds (in microseconds), a number that is not
  finite, a date, or neither.
\<close>

datatype retry_header = Header_seconds int | Header_not_finite | Header_date instant | Header_other

definition retry_after :: "instant \<Rightarrow> retry_header option \<Rightarrow> int option" where
  "retry_after now header =
     (case header of
        None \<Rightarrow> None
      | Some (Header_seconds s) \<Rightarrow> if s \<le> 31536000 * 1000000 then Some (max 0 s) else None
      | Some Header_not_finite \<Rightarrow> None
      | Some (Header_date t) \<Rightarrow> Some (max 0 (t - now))
      | Some Header_other \<Rightarrow> None)"

text \<open>What comes back of one POST.\<close>

datatype http_reply =
    Http_ok json
  | Http_error int "retry_header option"
  | Connection_failed
  | No_usable_response
  | Other_exception

definition post_json :: "instant \<Rightarrow> http_reply \<Rightarrow> transport_failure + json" where
  "post_json now reply =
     (case reply of
        Http_ok body \<Rightarrow> Inr body
      | Http_error code header \<Rightarrow>
          Inl (Classified
            (if code = 429 then transport_error 429 ''rate_limited'' True False (retry_after now header)
             else if code = 453 then transport_error 400 ''duplicate_suppressed'' False False None
             else if code = 401 then transport_error 503 ''authentication'' False False None
             else if code \<ge> 500
             then transport_error 503 ''provider_server_error'' True True (retry_after now header)
             else transport_error 400 ''provider_rejected'' False False None))
      | Connection_failed \<Rightarrow> Inl (Classified (transport_error 503 ''network_uncertain'' True True None))
      | No_usable_response \<Rightarrow> Inl (Classified (transport_error 503 ''transport_uncertain'' True True None))
      | Other_exception \<Rightarrow> Inl Unclassified)"

section \<open>Reading the answer\<close>

definition smsclub_phone :: "string \<Rightarrow> string" where
  "smsclub_phone phone = filter is_digit phone"

text \<open>The status of the \<open>HTTPException\<close> it raises, or the provider's identifier of the message.\<close>

definition validate_smsclub_response :: "(string \<times> json) list \<Rightarrow> string \<Rightarrow> nat + string" where
  "validate_smsclub_response response phone =
     (case as_object (map_of response ''success_request'') of
        None \<Rightarrow> Inl 503
      | Some success \<Rightarrow>
          let target = smsclub_phone phone
          in case (case as_object (map_of success ''info'') of
                     None \<Rightarrow> None
                   | Some info \<Rightarrow> find (\<lambda>(_, number). scalar_text number = Some target) info) of
               Some (message_id, _) \<Rightarrow> Inr message_id
             | None \<Rightarrow>
                 (case as_object (map_of success ''add_info'') of
                    None \<Rightarrow> Inl 503
                  | Some add_info \<Rightarrow>
                      (case map_of add_info target of
                         Some phone_error \<Rightarrow> if truthy_json phone_error then Inl 400 else Inl 503
                       | None \<Rightarrow> Inl 503)))"

definition parse_delivery :: "string \<Rightarrow> delivery option" where
  "parse_delivery s =
     (if s = ''ENROUTE'' then Some Enroute else if s = ''DELIVRD'' then Some Delivery_done
      else if s = ''EXPIRED'' then Some Delivery_expired else if s = ''UNDELIV'' then Some Undeliverable
      else if s = ''REJECTD'' then Some Rejected else None)"

definition delivery_text :: "delivery \<Rightarrow> string" where
  "delivery_text d =
     (case d of Enroute \<Rightarrow> ''ENROUTE'' | Delivery_done \<Rightarrow> ''DELIVRD'' | Delivery_expired \<Rightarrow> ''EXPIRED''
      | Undeliverable \<Rightarrow> ''UNDELIV'' | Rejected \<Rightarrow> ''REJECTD'')"

definition read_status :: "json \<Rightarrow> delivery option" where
  "read_status raw = (case scalar_text raw of None \<Rightarrow> None | Some s \<Rightarrow> parse_delivery (upper s))"

text \<open>Unknown statuses are dropped.\<close>

definition validate_smsclub_status_response ::
  "(string \<times> json) list \<Rightarrow> nat + (string \<times> delivery) list" where
  "validate_smsclub_status_response response =
     (case as_object (map_of response ''success_request'') of
        None \<Rightarrow> Inl 503
      | Some success \<Rightarrow>
          (case as_object (map_of success ''info'') of
             None \<Rightarrow> Inl 503
           | Some info \<Rightarrow>
               Inr (List.map_filter (\<lambda>(i, raw). map_option (Pair i) (read_status raw)) info)))"

section \<open>One job\<close>

datatype operation = Send_op | Status_op

text \<open>
  The fields of a payload: \<open>phone\<close> and \<open>id_sms\<close> are lists of texts, \<open>message\<close> and \<open>src_addr\<close>
  texts, \<open>lifetime\<close> minutes.
\<close>

datatype payload_field = Texts "string list" | Text string | Minutes int

type_synonym payload = "(string \<times> payload_field) list"

text \<open>
  The queue stores the provider's answer as \<open>{"success_request": {"info": d}}\<close>; a result here is the
  dictionary \<open>d\<close>.
\<close>

type_synonym sms_result = "(string \<times> string) list"

definition wrap_result :: "sms_result \<Rightarrow> (string \<times> json) list" where
  "wrap_result info = [(''success_request'', JObj [(''info'', JObj (map (\<lambda>(k, v). (k, JStr v)) info))])]"

definition first_phone :: "payload \<Rightarrow> string option" where
  "first_phone p = (case map_of p ''phone'' of Some (Texts (x # _)) \<Rightarrow> Some x | _ \<Rightarrow> None)"

text \<open>The answer to a rejected job: definitive only if the provider says why.\<close>

definition rejected :: "operation \<Rightarrow> (string \<times> json) list \<Rightarrow> nat \<Rightarrow> transport_failure" where
  "rejected operation response code =
     (let add_info = (case as_object (map_of response ''success_request'') of
                        Some success \<Rightarrow> as_object (map_of success ''add_info'') | None \<Rightarrow> None);
          definitive = (case add_info of Some kvs \<Rightarrow> kvs \<noteq> [] | None \<Rightarrow> False)
      in Classified (transport_error code
           (if definitive then ''provider_rejected'' else ''missing_message_id'')
           (operation = Status_op) (operation = Send_op \<and> \<not> definitive) None))"

definition token_configured :: "string option \<Rightarrow> bool" where
  "token_configured token = truthy_text token"

text \<open>
  A missing token is noticed before the request, so then the reply plays no part. A payload without a
  first phone would raise a \<open>KeyError\<close> or \<open>IndexError\<close> after the request.
\<close>

definition execute_queue_job ::
  "string option \<Rightarrow> instant \<Rightarrow> operation \<Rightarrow> payload \<Rightarrow> http_reply \<Rightarrow> transport_failure + sms_result" where
  "execute_queue_job token now operation payload reply =
     (if \<not> token_configured token
      then Inl (Classified (transport_error 503 ''authentication'' False False None))
      else (case post_json now reply of
         Inl e \<Rightarrow> Inl e
       | Inr (JObj response) \<Rightarrow>
           (case operation of
              Send_op \<Rightarrow>
                (case first_phone payload of
                   None \<Rightarrow> Inl Unclassified
                 | Some phone \<Rightarrow>
                     (case validate_smsclub_response response phone of
                        Inl code \<Rightarrow> Inl (rejected Send_op response code)
                      | Inr message_id \<Rightarrow> Inr [(message_id, smsclub_phone phone)]))
            | Status_op \<Rightarrow>
                (case validate_smsclub_status_response response of
                   Inl code \<Rightarrow> Inl (rejected Status_op response code)
                 | Inr statuses \<Rightarrow> Inr (map (\<lambda>(i, d). (i, delivery_text d)) statuses)))
       | Inr _ \<Rightarrow>
           Inl (Classified (transport_error 503 ''malformed_response'' (operation = Status_op)
             (operation = Send_op) None))))"

text \<open>\<open>process_one\<close> classifies whatever else the transport raises.\<close>

definition as_transport_error :: "operation \<Rightarrow> transport_failure \<Rightarrow> transport_error" where
  "as_transport_error operation failure =
     (case failure of
        Classified e \<Rightarrow> e
      | Unclassified \<Rightarrow> transport_error 503 ''transport_uncertain'' (operation = Status_op)
          (operation = Send_op) None)"

section \<open>What the classification promises\<close>

text \<open>
  A send is worth repeating only after a rate limit: every other failure is either final or leaves
  open whether the provider accepted the message.
\<close>

definition rate_limited :: "http_reply \<Rightarrow> bool" where
  "rate_limited reply = (case reply of Http_error code _ \<Rightarrow> code = 429 | _ \<Rightarrow> False)"

lemma post_json_repeatable:
  "post_json now reply = Inl (Classified e) \<Longrightarrow> te_retryable e \<Longrightarrow> \<not> te_ambiguous e \<Longrightarrow> rate_limited reply"
  by (auto simp: post_json_def rate_limited_def transport_error_def split: http_reply.splits if_splits)

lemma execute_repeatable:
  assumes "execute_queue_job token now Send_op payload reply = Inl f"
    and "te_retryable (as_transport_error Send_op f)"
    and "\<not> te_ambiguous (as_transport_error Send_op f)"
  shows "rate_limited reply"
proof (cases f)
  case Unclassified
  with assms(3) show ?thesis by (simp add: as_transport_error_def transport_error_def)
next
  case (Classified e)
  have e: "te_retryable e" "\<not> te_ambiguous e"
    using assms(2,3) by (simp_all add: Classified as_transport_error_def)
  show ?thesis
  proof (cases "token_configured token \<and> post_json now reply = Inl (Classified e)")
    case True
    with e show ?thesis by (blast intro: post_json_repeatable)
  next
    case False
    with assms(1) e show ?thesis
      by (auto simp: Classified execute_queue_job_def transport_error_def rejected_def Let_def
          split: if_splits sum.splits json.splits option.splits)
  qed
qed

text \<open>A confirmed message is confirmed again when the stored answer is read back.\<close>

lemma stored_answer_confirms:
  assumes "execute_queue_job token now Send_op payload reply = Inr info"
    and "first_phone payload = Some phone"
  shows "\<exists>message_id. info = [(message_id, smsclub_phone phone)]
           \<and> validate_smsclub_response (wrap_result info) phone = Inr message_id"
  using assms
  by (auto simp: execute_queue_job_def wrap_result_def validate_smsclub_response_def as_object_def
      scalar_text_def Let_def split: if_splits sum.splits json.splits option.splits)

lemma parse_delivery_text [simp]: "parse_delivery (delivery_text d) = Some d"
  by (cases d) (simp_all add: parse_delivery_def delivery_text_def)

lemma stored_statuses_confirm:
  assumes "execute_queue_job token now Status_op payload reply = Inr info"
  shows "\<exists>statuses. info = map (\<lambda>(i, d). (i, delivery_text d)) statuses"
  using assms by (auto simp: execute_queue_job_def split: if_splits sum.splits json.splits)

end
