(* ===== verification/Sendqueue.thy ===== *)
theory Sendqueue
  imports Transport "HOL-Library.List_Lexorder" "HOL-Library.Char_ord"
begin

text \<open>
  The durable queue of SMS operations in \<^verbatim>\<open>app/services/sms_queue.py\<close>: enqueueing under an
  idempotency key, recovery of abandoned jobs, claiming, admission to the transport, the recording of
  an outcome, delivery receipts, and the projection of outcomes to the rest of the program. One
  transaction of the service is one definition; the interleaving of workers is the subject of
  \<^verbatim>\<open>Senders\<close>. The table holds the rows of the one account of the settings. Times are instants
  in microseconds. The texts of \<open>error_detail\<close> and \<open>updated_at\<close> only serve display and are left out.
\<close>

section \<open>Rows and settings\<close>

text \<open>
  The context is stored without the keys whose value is None. It may carry \<open>safe_body\<close>, the text of an offer's
  message with its link replaced, which nothing removes when the job has ended; \<open>cx_priority\<close> and
  \<open>cx_enqueue_only\<close> are copies the queue does not read.
\<close>

record sms_context =
  cx_recipient_id :: "int option"
  cx_run_id :: "int option"
  cx_campaign_id :: "int option"
  cx_customer_id :: "int option"
  cx_waitlist_offer_id :: "int option"
  cx_safe_body :: "string option"
  cx_priority :: "int option"
  cx_idempotency_key :: "string option"
  cx_enqueue_only :: "bool option"
  cx_otp_record_id :: "int option"

record queue_job =
  qj_id :: string
  qj_idempotency_key :: string
  qj_operation :: operation
  qj_priority :: int
  qj_payload :: payload
  qj_context :: sms_context
  qj_status :: job_status
  qj_attempts :: int
  qj_available_at :: instant
  qj_claimed_at :: "instant option"
  qj_transport_started_at :: "instant option"
  qj_lease_expires_at :: "instant option"
  qj_lease_token :: "string option"
  qj_expires_at :: "instant option"
  qj_result :: "sms_result option"
  qj_provider_message_id :: "string option"
  qj_accepted_at :: "instant option"
  qj_delivered_at :: "instant option"
  qj_delivery_status :: "string option"
  qj_error_code :: "string option"
  qj_outcome_projected_at :: "instant option"
  qj_projection_retry_at :: "instant option"
  qj_created_at :: instant

record throttle =
  th_next_request_at :: "instant option"
  th_cooldown_until :: "instant option"

record sms_db =
  sq_jobs :: "queue_job list"
  sq_throttle :: throttle

text \<open>
  \<open>qs_spacing\<close> is \<open>timedelta(seconds=1 / sms_club_requests_per_second)\<close>, \<open>qs_uniform\<close> the draw of
  \<open>random.uniform\<close> and \<open>qs_digest\<close> the hexadecimal SHA-256 digest of a text.
\<close>

record queue_settings =
  qs_account_key :: string
  qs_digest :: "string \<Rightarrow> string"
  qs_token :: "string option"
  qs_spacing :: int
  qs_poll :: int
  qs_concurrency :: nat
  qs_max_attempts :: int
  qs_retry_base :: int
  qs_retry_max :: int
  qs_lease :: int
  qs_ttl :: int
  qs_uniform :: "int \<Rightarrow> int \<Rightarrow> int"

text \<open>The bounds the settings are validated against, in microseconds where they are times.\<close>

definition valid_settings :: "queue_settings \<Rightarrow> bool" where
  "valid_settings s \<longleftrightarrow>
     125000 \<le> qs_spacing s \<and> qs_spacing s \<le> 10000000
     \<and> 10000 \<le> qs_poll s \<and> qs_poll s \<le> minute
     \<and> 1 \<le> qs_concurrency s \<and> qs_concurrency s \<le> 16
     \<and> 1 \<le> qs_max_attempts s \<and> qs_max_attempts s \<le> 10
     \<and> 100000 \<le> qs_retry_base s \<and> qs_retry_base s \<le> minute
     \<and> 1000000 \<le> qs_retry_max s \<and> qs_retry_max s \<le> 60 * minute
     \<and> 15000000 \<le> qs_lease s \<and> qs_lease s \<le> 5 * minute
     \<and> minute \<le> qs_ttl s \<and> qs_ttl s \<le> 10080 * minute"

definition terminal :: "job_status \<Rightarrow> bool" where
  "terminal st \<longleftrightarrow> st \<in> set [JAccepted, JDelivered, JFailed, JSkipped, JUncertain, JCancelled]"

lemma terminal_iff: "terminal st \<longleftrightarrow> st \<noteq> JQueued \<and> st \<noteq> JDispatching"
  by (cases st) (simp_all add: terminal_def)

definition job_of :: "sms_db \<Rightarrow> string \<Rightarrow> queue_job option" where
  "job_of db i = find (\<lambda>j. qj_id j = i) (sq_jobs db)"

definition put_job :: "queue_job \<Rightarrow> sms_db \<Rightarrow> sms_db" where
  "put_job j db = db\<lparr>sq_jobs := map (\<lambda>x. if qj_id x = qj_id j then j else x) (sq_jobs db)\<rparr>"

text \<open>Only the payload goes; the text in the context stays.\<close>

definition clear_payload :: "queue_job \<Rightarrow> queue_job" where
  "clear_payload j = (if terminal (qj_status j) then j\<lparr>qj_payload := []\<rparr> else j)"

definition unprojected :: "queue_job \<Rightarrow> queue_job" where
  "unprojected j = j\<lparr>qj_outcome_projected_at := None, qj_projection_retry_at := None\<rparr>"

definition unleased :: "queue_job \<Rightarrow> queue_job" where
  "unleased j = j\<lparr>qj_lease_token := None, qj_lease_expires_at := None\<rparr>"

section \<open>Enqueueing\<close>

text \<open>The one-time codes of customers, without the display-only time of the last attempt.\<close>

record otp_code =
  oc_id :: int
  oc_phone :: string
  oc_sent_at :: instant
  oc_expires_at :: instant
  oc_verified_at :: "instant option"
  oc_code_hash :: string
  oc_attempts_count :: int

definition idempotency_key :: "queue_settings \<Rightarrow> string \<Rightarrow> string" where
  "idempotency_key s raw_key = qs_account_key s @ '':'' @ qs_digest s raw_key"

definition allowed_payload :: "operation \<Rightarrow> string list" where
  "allowed_payload operation =
     (case operation of Send_op \<Rightarrow> [''phone'', ''message'', ''src_addr'', ''lifetime''] | Status_op \<Rightarrow> [''id_sms''])"

text \<open>The recipients or message identifiers; None when the field is not a list.\<close>

definition numbers :: "operation \<Rightarrow> payload \<Rightarrow> string list option" where
  "numbers operation p =
     (case map_of p (case operation of Send_op \<Rightarrow> ''phone'' | Status_op \<Rightarrow> ''id_sms'') of
        None \<Rightarrow> Some [] | Some (Texts xs) \<Rightarrow> Some xs | Some _ \<Rightarrow> None)"

definition check_operation :: "operation \<Rightarrow> payload \<Rightarrow> int \<Rightarrow> string + unit" where
  "check_operation operation p priority =
     (if \<not> list_all (\<lambda>(k, _). k \<in> set (allowed_payload operation)) p
      then Inl ''Unsupported SMSClub payload fields''
      else case numbers operation p of
        None \<Rightarrow> Inl ''SMSClub operations require between 1 and 100 recipients or message IDs''
      | Some xs \<Rightarrow>
          if \<not> (1 \<le> length xs \<and> length xs \<le> 100)
          then Inl ''SMSClub operations require between 1 and 100 recipients or message IDs''
          else if operation = Send_op \<and> length xs \<noteq> 1
          then Inl ''Queue send jobs contain exactly one recipient''
          else if \<not> (0 \<le> priority \<and> priority \<le> 1000) then Inl ''Invalid SMS queue priority''
          else Inr ())"

text \<open>\<open>random_key\<close> is the \<open>uuid4\<close> taken when nothing names the request.\<close>

definition raw_key :: "operation \<Rightarrow> sms_context \<Rightarrow> string option \<Rightarrow> string \<Rightarrow> string" where
  "raw_key operation context given random_key =
     (let named = (if truthy_text given then given else cx_idempotency_key context);
          named = (if named = None \<and> operation = Send_op
                   then map_option (\<lambda>r. ''recipient:'' @ show_int r @ '':sms'') (cx_recipient_id context)
                   else named)
      in if truthy_text named then the named else random_key)"

definition otp_expiry :: "otp_code table \<Rightarrow> operation \<Rightarrow> sms_context \<Rightarrow> instant \<Rightarrow> string + instant" where
  "otp_expiry otps operation context expiry =
     (case cx_otp_record_id context of
        None \<Rightarrow> Inr expiry
      | Some i \<Rightarrow>
          if operation \<noteq> Send_op \<or> i \<le> 0
          then Inl ''OTP context requires a positive record identity on a send job''
          else (case get otps i of
                  None \<Rightarrow> Inl ''OTP record is missing'' | Some otp \<Rightarrow> Inr (min expiry (oc_expires_at otp))))"

definition new_job ::
  "string \<Rightarrow> string \<Rightarrow> operation \<Rightarrow> int \<Rightarrow> payload \<Rightarrow> sms_context \<Rightarrow> instant \<Rightarrow> instant \<Rightarrow> queue_job" where
  "new_job i key operation priority p context now expiry =
     \<lparr>qj_id = i, qj_idempotency_key = key, qj_operation = operation, qj_priority = priority,
      qj_payload = p, qj_context = context, qj_status = JQueued, qj_attempts = 0,
      qj_available_at = now, qj_claimed_at = None, qj_transport_started_at = None,
      qj_lease_expires_at = None, qj_lease_token = None, qj_expires_at = Some expiry,
      qj_result = None, qj_provider_message_id = None, qj_accepted_at = None, qj_delivered_at = None,
      qj_delivery_status = None, qj_error_code = None, qj_outcome_projected_at = None,
      qj_projection_retry_at = None, qj_created_at = now\<rparr>"

definition job_with_key :: "sms_db \<Rightarrow> string \<Rightarrow> queue_job option" where
  "job_with_key db key = find (\<lambda>j. qj_idempotency_key j = key) (sq_jobs db)"

text \<open>\<open>INSERT ... ON CONFLICT (idempotency_key) DO NOTHING\<close>.\<close>

definition insert_job :: "queue_job \<Rightarrow> sms_db \<Rightarrow> sms_db" where
  "insert_job j db =
     (case job_with_key db (qj_idempotency_key j) of
        None \<Rightarrow> db\<lparr>sq_jobs := sq_jobs db @ [j]\<rparr> | Some _ \<Rightarrow> db)"

text \<open>An error is the text of the \<open>ValueError\<close>; \<open>i\<close> is the new row's \<open>uuid4\<close>.\<close>

definition enqueue ::
  "queue_settings \<Rightarrow> otp_code table \<Rightarrow> sms_db \<Rightarrow> instant \<Rightarrow> string \<Rightarrow> string \<Rightarrow> operation \<Rightarrow> payload \<Rightarrow> int
    \<Rightarrow> sms_context \<Rightarrow> string option \<Rightarrow> instant option \<Rightarrow> string + (sms_db \<times> queue_job)" where
  "enqueue s otps db now i random_key operation p priority context given expires_at =
     (case check_operation operation p priority of
        Inl e \<Rightarrow> Inl e
      | Inr _ \<Rightarrow>
          let key = idempotency_key s (raw_key operation context given random_key);
              expiry = (case expires_at of Some t \<Rightarrow> t | None \<Rightarrow> now + qs_ttl s)
          in case otp_expiry otps operation context expiry of
               Inl e \<Rightarrow> Inl e
             | Inr expiry \<Rightarrow>
                 let db = insert_job (new_job i key operation priority p context now expiry) db
                 in (case job_with_key db key of
                       Some j \<Rightarrow> Inr (db, j) | None \<Rightarrow> Inl ''NoResultFound''))"

text \<open>What a waiting caller gets: nothing yet, the status of an error, or the result.\<close>

definition request_answer :: "queue_job \<Rightarrow> (nat + sms_result) option" where
  "request_answer j =
     (case qj_status j of
        JAccepted \<Rightarrow> Some (Inr (case qj_result j of Some r \<Rightarrow> r | None \<Rightarrow> []))
      | JDelivered \<Rightarrow> Some (Inr (case qj_result j of Some r \<Rightarrow> r | None \<Rightarrow> []))
      | JUncertain \<Rightarrow> Some (Inl 503)
      | JSkipped \<Rightarrow> Some (Inl 409)
      | JCancelled \<Rightarrow> Some (Inl 409)
      | JFailed \<Rightarrow> Some (Inl 400)
      | _ \<Rightarrow> None)"

section \<open>Recovery and claiming\<close>

definition at_or_before :: "instant option \<Rightarrow> instant \<Rightarrow> bool" where
  "at_or_before t now = (case t of Some x \<Rightarrow> x \<le> now | None \<Rightarrow> False)"

definition unexpired :: "queue_job \<Rightarrow> instant \<Rightarrow> bool" where
  "unexpired j now = (case qj_expires_at j of None \<Rightarrow> True | Some x \<Rightarrow> x > now)"

definition stale :: "instant \<Rightarrow> queue_job \<Rightarrow> bool" where
  "stale now j \<longleftrightarrow>
     (qj_status j = JDispatching \<and> at_or_before (qj_lease_expires_at j) now)
     \<or> (qj_status j = JQueued \<and> at_or_before (qj_expires_at j) now)"

definition give_back_attempt :: "queue_job \<Rightarrow> queue_job" where
  "give_back_attempt j = j\<lparr>qj_attempts := max 0 (qj_attempts j - 1)\<rparr>"

definition recover_job :: "queue_settings \<Rightarrow> instant \<Rightarrow> queue_job \<Rightarrow> queue_job" where
  "recover_job s now j =
     (let j = (if qj_status j = JDispatching \<and> qj_transport_started_at j = None
               then give_back_attempt j else j);
          j = (if qj_status j = JDispatching \<and> qj_operation j = Send_op \<and> qj_transport_started_at j \<noteq> None
               then j\<lparr>qj_status := JUncertain, qj_error_code := Some ''worker_interrupted''\<rparr>
               else if at_or_before (qj_expires_at j) now
               then j\<lparr>qj_status := JCancelled, qj_error_code := Some ''expired''\<rparr>
               else if qj_attempts j \<ge> qs_max_attempts s
               then j\<lparr>qj_status := JFailed, qj_error_code := Some ''retry_exhausted''\<rparr>
               else j\<lparr>qj_status := JQueued, qj_error_code := Some ''worker_interrupted'',
                      qj_available_at := now\<rparr>)
      in clear_payload (unprojected (unleased j)))"

text \<open>
  \<open>locked\<close> says which rows other transactions hold: \<open>SKIP LOCKED\<close> passes over them.
\<close>

definition stale_jobs :: "(string \<Rightarrow> bool) \<Rightarrow> instant \<Rightarrow> sms_db \<Rightarrow> queue_job list" where
  "stale_jobs locked now db =
     take 50 (sort_key (\<lambda>j. (qj_priority j, qj_available_at j))
       (filter (\<lambda>j. stale now j \<and> \<not> locked (qj_id j)) (sq_jobs db)))"

definition recover :: "queue_settings \<Rightarrow> (string \<Rightarrow> bool) \<Rightarrow> instant \<Rightarrow> sms_db \<Rightarrow> sms_db \<times> string list" where
  "recover s locked now db =
     (let recovered = map qj_id (stale_jobs locked now db)
      in (db\<lparr>sq_jobs := map (\<lambda>j. if qj_id j \<in> set recovered then recover_job s now j else j) (sq_jobs db)\<rparr>,
          recovered))"

definition ready_at :: "throttle \<Rightarrow> instant \<Rightarrow> instant" where
  "ready_at a now =
     (case (th_next_request_at a, th_cooldown_until a) of
        (None, None) \<Rightarrow> now | (Some x, None) \<Rightarrow> x | (None, Some y) \<Rightarrow> y | (Some x, Some y) \<Rightarrow> max x y)"

text \<open>The outcome of the previous attempt has reached the rest of the program, if there was one.\<close>

definition settled :: "queue_job \<Rightarrow> bool" where
  "settled j \<longleftrightarrow> qj_error_code j = None \<or> qj_outcome_projected_at j \<noteq> None"

definition claimable :: "instant \<Rightarrow> queue_job \<Rightarrow> bool" where
  "claimable now j \<longleftrightarrow>
     qj_status j = JQueued \<and> qj_available_at j \<le> now \<and> settled j \<and> unexpired j now"

definition claim_rank :: "queue_job \<Rightarrow> int \<times> instant \<times> instant \<times> string" where
  "claim_rank j = (qj_priority j, qj_available_at j, qj_created_at j, qj_id j)"

definition next_job :: "(string \<Rightarrow> bool) \<Rightarrow> instant \<Rightarrow> sms_db \<Rightarrow> queue_job option" where
  "next_job locked now db =
     (case sort_key claim_rank (filter (\<lambda>j. claimable now j \<and> \<not> locked (qj_id j)) (sq_jobs db)) of
        [] \<Rightarrow> None | j # _ \<Rightarrow> Some j)"

definition claimed_job :: "queue_settings \<Rightarrow> instant \<Rightarrow> string \<Rightarrow> queue_job \<Rightarrow> queue_job" where
  "claimed_job s now lease j =
     unprojected (j\<lparr>qj_status := JDispatching, qj_claimed_at := Some now, qj_transport_started_at := None,
       qj_lease_expires_at := Some (now + qs_lease s), qj_lease_token := Some lease,
       qj_attempts := qj_attempts j + 1, qj_error_code := None\<rparr>)"

definition dispatching :: "sms_db \<Rightarrow> queue_job list" where
  "dispatching db = filter (\<lambda>j. qj_status j = JDispatching) (sq_jobs db)"

text \<open>The first transaction of \<open>process_one\<close>; \<open>lease\<close> is a \<open>uuid4\<close>.\<close>

definition claim_next ::
  "queue_settings \<Rightarrow> (string \<Rightarrow> bool) \<Rightarrow> instant \<Rightarrow> string \<Rightarrow> sms_db \<Rightarrow> sms_db \<times> string list \<times> queue_job option" where
  "claim_next s locked now lease db =
     (case recover s locked now db of (db, recovered) \<Rightarrow>
        if ready_at (sq_throttle db) now \<le> now \<and> length (dispatching db) < qs_concurrency s
        then (case next_job locked now db of
                None \<Rightarrow> (db, recovered, None)
              | Some j \<Rightarrow> let j = claimed_job s now lease j in (put_job j db, recovered, Some j))
        else (db, recovered, None))"

section \<open>Admission to the transport\<close>

datatype decision_action = Allow | Defer | Skip

record decision =
  dd_action :: decision_action
  dd_reason :: "string option"
  dd_available_at :: "instant option"

definition skip_because :: "string \<Rightarrow> decision" where
  "skip_because reason = \<lparr>dd_action = Skip, dd_reason = Some reason, dd_available_at = None\<rparr>"

definition defer_until :: "string \<Rightarrow> instant option \<Rightarrow> decision" where
  "defer_until reason t = \<lparr>dd_action = Defer, dd_reason = Some reason, dd_available_at = t\<rparr>"

text \<open>
  What admission reads outside the queue: the salon, the one-time codes, and, for a campaign, the
  campaign of a recipient and the decision of the campaign dispatcher.
\<close>

record admission_env =
  ae_salon :: salon
  ae_otps :: "otp_code table"
  ae_campaign_of :: "int \<Rightarrow> int option"
  ae_campaign_gate :: "queue_job \<Rightarrow> instant \<Rightarrow> decision"

definition starts_with :: "string \<Rightarrow> string \<Rightarrow> bool" where
  "starts_with s prefix \<longleftrightarrow> take (length prefix) s = prefix"

definition context_key :: "queue_job \<Rightarrow> string" where
  "context_key j = (case cx_idempotency_key (qj_context j) of Some k \<Rightarrow> k | None \<Rightarrow> [])"

definition lstrip_plus :: "string \<Rightarrow> string" where
  "lstrip_plus s = dropWhile (\<lambda>c. c = CHR ''+'') s"

definition payload_phones :: "queue_job \<Rightarrow> string list" where
  "payload_phones j = (case map_of (qj_payload j) ''phone'' of Some (Texts xs) \<Rightarrow> xs | _ \<Rightarrow> [])"

text \<open>Only the latest code of a phone, unused and in force, may still be sent.\<close>

definition latest_otp :: "otp_code table \<Rightarrow> string \<Rightarrow> otp_code option" where
  "latest_otp otps phone =
     (case sort_key (\<lambda>c. (- oc_sent_at c, - oc_id c)) (select_where (\<lambda>c. oc_phone c = phone) otps) of
        [] \<Rightarrow> None | c # _ \<Rightarrow> Some c)"

definition otp_gate :: "otp_code table \<Rightarrow> instant \<Rightarrow> queue_job \<Rightarrow> decision option" where
  "otp_gate otps now j =
     (case cx_otp_record_id (qj_context j) of
        None \<Rightarrow>
          if starts_with (context_key j) ''otp:'' then Some (skip_because ''otp_legacy_context'') else None
      | Some i \<Rightarrow>
          (case get otps i of
             None \<Rightarrow> Some (skip_because ''otp_missing'')
           | Some otp \<Rightarrow>
               if oc_verified_at otp \<noteq> None \<or> oc_expires_at otp \<le> now
               then Some (skip_because ''otp_inactive'')
               else if map_option oc_id (latest_otp otps (oc_phone otp)) \<noteq> Some (oc_id otp)
               then Some (skip_because ''otp_superseded'')
               else (case payload_phones j of
                       [phone] \<Rightarrow>
                         if lstrip_plus phone \<noteq> lstrip_plus (oc_phone otp)
                         then Some (skip_because ''otp_identity_mismatch'') else None
                     | _ \<Rightarrow> Some (skip_because ''otp_identity_mismatch''))))"

definition is_booking_notification :: "queue_job \<Rightarrow> bool" where
  "is_booking_notification j \<longleftrightarrow>
     qj_operation j = Send_op
     \<and> (starts_with (context_key j) ''booking-confirmation:'' \<or> starts_with (context_key j) ''booking-reminder:'')"

text \<open>
  \<open>int(text)\<close>: surrounding white space, a sign, digits with single underscores between them; None
  for a \<open>ValueError\<close>.
\<close>

fun digit_groups :: "string \<Rightarrow> bool" where
  "digit_groups [] = False"
| "digit_groups [c] = is_digit c"
| "digit_groups (c # d # cs) =
     (is_digit c \<and> (if d = CHR ''_'' then digit_groups cs else digit_groups (d # cs)))"

definition digits_value :: "string \<Rightarrow> int" where
  "digits_value s = foldl (\<lambda>n c. 10 * n + (of_char c - 48)) 0 (filter is_digit s)"

definition parse_int :: "string \<Rightarrow> int option" where
  "parse_int text =
     (let s = strip text; minus = starts_with s ''-'';
          ds = (if minus \<or> starts_with s ''+'' then drop 1 s else s)
      in if digit_groups ds then Some (if minus then - digits_value ds else digits_value ds) else None)"

text \<open>\<open>key.split(":", 2)[1]\<close> of a key that contains a colon.\<close>

definition second_part :: "string \<Rightarrow> string" where
  "second_part key =
     takeWhile (\<lambda>c. c \<noteq> CHR '':'') (drop 1 (dropWhile (\<lambda>c. c \<noteq> CHR '':'') key))"

definition transactional_refusal :: "preference option \<Rightarrow> string option" where
  "transactional_refusal preference =
     (case preference of
        None \<Rightarrow> None
      | Some p \<Rightarrow>
          if pf_do_not_contact p then Some ''Client is marked do-not-contact''
          else if pf_blacklisted_at p \<noteq> None then Some ''Client is blacklisted''
          else if pf_transactional_consent p = Opted_out
          then Some ''Client opted out of transactional messages'' else None)"

text \<open>Archived bookings are not in the table of the salon.\<close>

definition notified_customers :: "salon \<Rightarrow> queue_job \<Rightarrow> customer list" where
  "notified_customers db j =
     (let aliases = concat (map (\<lambda>p. phone_aliases (CHR ''+'' # lstrip_plus p)) (payload_phones j))
      in select_where (\<lambda>c. cx_customer_id (qj_context j) = Some (cu_id c) \<or> cu_phone c \<in> set aliases)
           (customers db))"

definition booking_notification_gate :: "salon \<Rightarrow> queue_job \<Rightarrow> decision option" where
  "booking_notification_gate db j =
     (case parse_int (second_part (context_key j)) of
        None \<Rightarrow> Some (skip_because ''booking_unavailable'')
      | Some booking_id \<Rightarrow>
          if get (bookings db) booking_id = None then Some (skip_because ''booking_archived'')
          else (case List.map_filter (\<lambda>c. transactional_refusal (get (preferences db) (cu_id c)))
                       (notified_customers db j) of
                  [] \<Rightarrow> None | reason # _ \<Rightarrow> Some (skip_because reason)))"

definition campaign_gate :: "admission_env \<Rightarrow> instant \<Rightarrow> queue_job \<Rightarrow> decision option" where
  "campaign_gate v now j =
     (case cx_recipient_id (qj_context j) of
        None \<Rightarrow> None
      | Some _ \<Rightarrow> let d = ae_campaign_gate v j now in if dd_action d \<noteq> Allow then Some d else None)"

definition waitlist_gate :: "admission_env \<Rightarrow> instant \<Rightarrow> queue_job \<Rightarrow> decision option" where
  "waitlist_gate v now j =
     (if qj_operation j = Send_op
      then (case cx_waitlist_offer_id (qj_context j) of
              None \<Rightarrow> None | Some i \<Rightarrow> map_option skip_because (sms_job_final_gate (ae_salon v) now i))
      else None)"

text \<open>The first gate that does not let the job pass.\<close>

fun first_refusal :: "decision option list \<Rightarrow> decision option" where
  "first_refusal [] = None"
| "first_refusal (Some d # ds) = Some d"
| "first_refusal (None # ds) = first_refusal ds"

text \<open>A campaign message remembers the campaign of its recipient, unless an offer owns the job.\<close>

definition with_campaign :: "admission_env \<Rightarrow> queue_job \<Rightarrow> queue_job" where
  "with_campaign v j =
     (let c = qj_context j
      in if qj_operation j = Send_op \<and> cx_waitlist_offer_id c = None \<and> cx_campaign_id c = None
         then (case cx_recipient_id c of
                 None \<Rightarrow> j
               | Some r \<Rightarrow> j\<lparr>qj_context := c\<lparr>cx_campaign_id := ae_campaign_of v r\<rparr>\<rparr>)
         else j)"

text \<open>Work of higher priority that is ready, or claimed and not yet admitted.\<close>

definition outranks :: "instant \<Rightarrow> queue_job \<Rightarrow> queue_job \<Rightarrow> bool" where
  "outranks now j k \<longleftrightarrow>
     qj_priority k < qj_priority j \<and> unexpired k now
     \<and> ((qj_status k = JQueued \<and> qj_available_at k \<le> now \<and> settled k)
        \<or> (qj_status k = JDispatching \<and> qj_transport_started_at k = None
           \<and> (case qj_lease_expires_at k of Some x \<Rightarrow> x > now | None \<Rightarrow> False)))"

definition holds_lease :: "queue_job \<Rightarrow> string \<Rightarrow> bool" where
  "holds_lease j lease \<longleftrightarrow> qj_status j = JDispatching \<and> qj_lease_token j = Some lease"

definition admission_refusal ::
  "queue_settings \<Rightarrow> admission_env \<Rightarrow> instant \<Rightarrow> string \<Rightarrow> queue_job \<Rightarrow> sms_db \<Rightarrow> decision option" where
  "admission_refusal s v now lease j db =
     first_refusal
       [if \<not> holds_lease j lease \<or> at_or_before (qj_lease_expires_at j) now
        then Some (defer_until ''claim_expired'' (Some now)) else None,
        if \<not> unexpired j now then Some (skip_because ''expired'') else None,
        otp_gate (ae_otps v) now j,
        campaign_gate v now (with_campaign v j),
        waitlist_gate v now j,
        if is_booking_notification j then booking_notification_gate (ae_salon v) j else None,
        if ready_at (sq_throttle db) now > now
        then Some (defer_until ''account_throttled'' (Some (ready_at (sq_throttle db) now))) else None,
        if list_ex (outranks now j) (sq_jobs db)
        then Some (defer_until ''priority_wait'' (Some (now + qs_poll s))) else None]"

definition admitted_job :: "admission_env \<Rightarrow> instant \<Rightarrow> queue_job \<Rightarrow> queue_job" where
  "admitted_job v now j = (with_campaign v j)\<lparr>qj_transport_started_at := Some now\<rparr>"

text \<open>
  \<open>_admit_transport\<close>: a decision against sending, or the start of the transport is recorded. A job
  that has vanished would raise; the caller then defers.
\<close>

definition admit_transport ::
  "queue_settings \<Rightarrow> admission_env \<Rightarrow> instant \<Rightarrow> string \<Rightarrow> string \<Rightarrow> sms_db \<Rightarrow> decision option \<times> sms_db" where
  "admit_transport s v now i lease db =
     (case job_of db i of
        None \<Rightarrow> (Some (defer_until ''admission_unavailable'' None), db)
      | Some j \<Rightarrow>
          (case admission_refusal s v now lease j db of
             Some d \<Rightarrow> (Some d, db)
           | None \<Rightarrow>
               (None, put_job (admitted_job v now j)
                  (db\<lparr>sq_throttle := (sq_throttle db)\<lparr>th_next_request_at := Some (now + qs_spacing s)\<rparr>\<rparr>))))"

section \<open>Recording an outcome\<close>

text \<open>The draw is bounded by the ceiling; an explicit \<open>Retry-After\<close> is a lower bound.\<close>

definition retry_delay :: "queue_settings \<Rightarrow> int \<Rightarrow> int option \<Rightarrow> int" where
  "retry_delay s attempts after =
     (let ceiling = min (qs_retry_max s) (qs_retry_base s * 2 ^ nat (max 0 (attempts - 1)));
          jittered = qs_uniform s (ceiling div 2) ceiling
      in max jittered (max 0 (case after of Some t \<Rightarrow> t | None \<Rightarrow> 0)))"

datatype outcome = Decided decision | Errored transport_error | Answered sms_result

definition or_time :: "instant option \<Rightarrow> instant \<Rightarrow> instant" where
  "or_time t d = (case t of Some x \<Rightarrow> x | None \<Rightarrow> d)"

definition decided_job :: "queue_settings \<Rightarrow> instant \<Rightarrow> decision \<Rightarrow> queue_job \<Rightarrow> queue_job" where
  "decided_job s now d j =
     (give_back_attempt j)\<lparr>
       qj_status := (if dd_action d = Defer then JQueued else JSkipped),
       qj_error_code := Some (if truthy_text (dd_reason d) then the (dd_reason d)
         else case dd_action d of Allow \<Rightarrow> ''allow'' | Defer \<Rightarrow> ''defer'' | Skip \<Rightarrow> ''skip''),
       qj_available_at := or_time (dd_available_at d) (now + qs_retry_base s)\<rparr>"

definition errored_job :: "queue_settings \<Rightarrow> instant \<Rightarrow> int \<Rightarrow> transport_error \<Rightarrow> queue_job \<Rightarrow> queue_job" where
  "errored_job s now delay e j =
     (let j = j\<lparr>qj_error_code := Some (te_code e)\<rparr>
      in if te_ambiguous e \<and> qj_operation j = Send_op then j\<lparr>qj_status := JUncertain\<rparr>
         else if te_retryable e \<and> qj_attempts j < qs_max_attempts s
         then j\<lparr>qj_available_at := now + delay, qj_status := JQueued\<rparr>
         else j\<lparr>qj_status := JFailed\<rparr>)"

definition answered_job :: "instant \<Rightarrow> sms_result \<Rightarrow> queue_job \<Rightarrow> queue_job" where
  "answered_job now result j =
     (let j = j\<lparr>qj_status := JAccepted, qj_result := Some result\<rparr>
      in if qj_operation j = Send_op
         then j\<lparr>qj_provider_message_id := (case result of [] \<Rightarrow> None | (i, _) # _ \<Rightarrow> Some i),
                qj_accepted_at := Some now\<rparr>
         else j)"

definition outcome_job :: "queue_settings \<Rightarrow> instant \<Rightarrow> outcome \<Rightarrow> queue_job \<Rightarrow> queue_job" where
  "outcome_job s now oc j =
     clear_payload (unprojected
       (case oc of
          Decided d \<Rightarrow> decided_job s now d (unleased j)
        | Errored e \<Rightarrow> errored_job s now (retry_delay s (qj_attempts j) (te_retry_after e)) e (unleased j)
        | Answered result \<Rightarrow> answered_job now result (unleased j)))"

definition outcome_throttle :: "queue_settings \<Rightarrow> instant \<Rightarrow> outcome \<Rightarrow> queue_job \<Rightarrow> throttle \<Rightarrow> throttle" where
  "outcome_throttle s now oc j a =
     (let a = (case oc of
                 Errored e \<Rightarrow>
                   if te_code e = ''rate_limited'' \<or> te_retry_after e \<noteq> None
                   then a\<lparr>th_cooldown_until := Some (max (or_time (th_cooldown_until a) now)
                          (now + retry_delay s (qj_attempts j) (te_retry_after e)))\<rparr>
                   else a
               | _ \<Rightarrow> a)
      in case oc of
           Decided _ \<Rightarrow> a
         | _ \<Rightarrow> a\<lparr>th_next_request_at := Some (max (or_time (th_next_request_at a) now) (now + qs_spacing s))\<rparr>)"

text \<open>
  One send under the delivery report of a status job. A delivered message stays delivered, and a
  report that says nothing new changes nothing. The flag tells whether the outcome is to be projected
  again.
\<close>

definition receive_report :: "instant \<Rightarrow> sms_result \<Rightarrow> queue_job \<Rightarrow> queue_job \<times> bool" where
  "receive_report now statuses j =
     (case (if qj_operation j = Send_op \<and> qj_accepted_at j \<noteq> None
            then (case qj_provider_message_id j of None \<Rightarrow> None | Some m \<Rightarrow> map_of statuses m) else None) of
        None \<Rightarrow> (j, False)
      | Some report \<Rightarrow>
          if qj_status j = JDelivered \<or> Some report = qj_delivery_status j then (j, False)
          else if report = ''DELIVRD''
          then (unprojected (j\<lparr>qj_status := JDelivered, qj_delivered_at := Some now, qj_error_code := None,
                  qj_delivery_status := Some report\<rparr>), True)
          else if report \<in> set [''EXPIRED'', ''UNDELIV'', ''REJECTD'']
          then (unprojected (j\<lparr>qj_status := JFailed, qj_error_code := Some ''provider_delivery_failed'',
                  qj_delivery_status := Some report\<rparr>), True)
          else if report = ''ENROUTE'' \<and> qj_status j = JAccepted
          then (j\<lparr>qj_delivery_status := Some report\<rparr>, False)
          else (j, False))"

definition receive_reports :: "instant \<Rightarrow> sms_result \<Rightarrow> sms_db \<Rightarrow> sms_db \<times> string list" where
  "receive_reports now statuses db =
     (db\<lparr>sq_jobs := map (\<lambda>j. fst (receive_report now statuses j)) (sq_jobs db)\<rparr>,
      map qj_id (filter (\<lambda>j. snd (receive_report now statuses j)) (sq_jobs db)))"

text \<open>\<open>_finish\<close>; a worker that has lost its lease changes nothing.\<close>

definition finish ::
  "queue_settings \<Rightarrow> instant \<Rightarrow> string \<Rightarrow> string \<Rightarrow> outcome \<Rightarrow> sms_db \<Rightarrow> sms_db \<times> string list" where
  "finish s now i lease oc db =
     (case job_of db i of
        None \<Rightarrow> (db, [])
      | Some j \<Rightarrow>
          if \<not> holds_lease j lease then (db, [])
          else let db = put_job (outcome_job s now oc j)
                          (db\<lparr>sq_throttle := outcome_throttle s now oc j (sq_throttle db)\<rparr>)
               in (case oc of
                     Answered statuses \<Rightarrow>
                       if qj_operation j = Status_op then receive_reports now statuses db else (db, [])
                   | _ \<Rightarrow> (db, [])))"

section \<open>Projection and cancellation\<close>

definition projectable :: "queue_job \<Rightarrow> bool" where
  "projectable j \<longleftrightarrow>
     qj_outcome_projected_at j = None \<and> qj_status j \<noteq> JDispatching
     \<and> \<not> (qj_status j = JQueued \<and> \<not> truthy_text (qj_error_code j))"

text \<open>
  \<open>_project\<close> after the callback has run: \<open>seen\<close> is the row it ran for, \<open>delivered\<close> says whether it
  succeeded. A row that has moved on in the meantime is left alone.
\<close>

definition project :: "instant \<Rightarrow> queue_job \<Rightarrow> bool \<Rightarrow> sms_db \<Rightarrow> sms_db" where
  "project now seen delivered db =
     (case job_of db (qj_id seen) of
        None \<Rightarrow> db
      | Some j \<Rightarrow>
          if \<not> projectable seen \<or> qj_status j \<noteq> qj_status seen \<or> qj_attempts j \<noteq> qj_attempts seen then db
          else if delivered
          then put_job (j\<lparr>qj_outcome_projected_at := Some now, qj_projection_retry_at := None\<rparr>) db
          else if qj_outcome_projected_at j = None
          then put_job (j\<lparr>qj_projection_retry_at := Some (now + 30 * 1000000)\<rparr>) db
          else db)"

text \<open>The outcomes still to be projected when there is nothing to send.\<close>

definition pending_projection :: "instant \<Rightarrow> queue_job \<Rightarrow> bool" where
  "pending_projection now j \<longleftrightarrow>
     qj_outcome_projected_at j = None
     \<and> (qj_projection_retry_at j = None \<or> at_or_before (qj_projection_retry_at j) now)
     \<and> (terminal (qj_status j) \<or> (qj_status j = JQueued \<and> qj_error_code j \<noteq> None))"

text \<open>
  The cancellation of a campaign run in \<^verbatim>\<open>app/services/campaign_runs.py\<close> takes its jobs that no
  transport has started out of the queue; \<open>owned\<close> are the jobs of the run's recipients.
\<close>

definition cancel_job :: "queue_job \<Rightarrow> queue_job" where
  "cancel_job j =
     unprojected (unleased
       ((if qj_status j = JDispatching then give_back_attempt j else j)\<lparr>
          qj_status := JCancelled, qj_error_code := Some ''campaign_run_cancelled'', qj_payload := []\<rparr>))"

definition unsent :: "queue_job \<Rightarrow> bool" where
  "unsent j \<longleftrightarrow>
     qj_status j = JQueued \<or> (qj_status j = JDispatching \<and> qj_transport_started_at j = None)"

definition cancel_unsent :: "(string \<Rightarrow> bool) \<Rightarrow> sms_db \<Rightarrow> sms_db" where
  "cancel_unsent owned db =
     db\<lparr>sq_jobs := map (\<lambda>j. if unsent j \<and> owned (qj_id j) then cancel_job j else j) (sq_jobs db)\<rparr>"

end
