(* ===== verification/Senders.thy ===== *)
theory Senders
  imports Sendqueue
begin

text \<open>
  The workers of the SMS queue running side by side: API processes and background workers, any
  number of them, each between two of its transactions, any of them stopping for good at any moment.
  A worker is \<open>process_one\<close> of \<^verbatim>\<open>app/services/sms_queue.py\<close> cut where it commits. The account row
  and the row locks make every transaction one step; nothing is assumed of the clocks, so \<open>now\<close> is
  arbitrary in every step. The world also records what the provider saw: every request with its
  reply, and the times at which requests were admitted.
\<close>

section \<open>The world\<close>

datatype phase = Claimed | Admitted | Reporting outcome

record worker =
  wk_job :: queue_job
  wk_lease :: string
  wk_phase :: phase

record world =
  wd_db :: sms_db
  wd_workers :: "worker list"
  wd_calls :: "(string \<times> http_reply) list"
  wd_starts :: "instant list"

definition with_db :: "sms_db \<Rightarrow> world \<Rightarrow> world" where
  "with_db db w = w\<lparr>wd_db := db\<rparr>"

definition fresh_lease :: "string \<Rightarrow> world \<Rightarrow> bool" where
  "fresh_lease lease w \<longleftrightarrow>
     list_all (\<lambda>k. wk_lease k \<noteq> lease) (wd_workers w)
     \<and> list_all (\<lambda>j. qj_lease_token j \<noteq> Some lease) (sq_jobs (wd_db w))"

text \<open>A worker takes up the job it claimed, moves to its next phase, or is gone.\<close>

definition hire :: "string \<Rightarrow> queue_job option \<Rightarrow> world \<Rightarrow> world" where
  "hire lease got w =
     (case got of None \<Rightarrow> w
      | Some j \<Rightarrow> w\<lparr>wd_workers := \<lparr>wk_job = j, wk_lease = lease, wk_phase = Claimed\<rparr> # wd_workers w\<rparr>)"

definition dismiss :: "worker \<Rightarrow> world \<Rightarrow> world" where
  "dismiss k w = w\<lparr>wd_workers := remove1 k (wd_workers w)\<rparr>"

definition move :: "worker \<Rightarrow> phase \<Rightarrow> world \<Rightarrow> world" where
  "move k ph w = w\<lparr>wd_workers := k\<lparr>wk_phase := ph\<rparr> # remove1 k (wd_workers w)\<rparr>"

definition started :: "instant \<Rightarrow> world \<Rightarrow> world" where
  "started now w = w\<lparr>wd_starts := wd_starts w @ [now]\<rparr>"

text \<open>The request to the provider; without a token none is made.\<close>

definition transport_outcome :: "queue_settings \<Rightarrow> instant \<Rightarrow> queue_job \<Rightarrow> http_reply \<Rightarrow> outcome" where
  "transport_outcome s now j reply =
     (case execute_queue_job (qs_token s) now (qj_operation j) (qj_payload j) reply of
        Inl f \<Rightarrow> Errored (as_transport_error (qj_operation j) f)
      | Inr result \<Rightarrow> Answered result)"

definition called :: "queue_settings \<Rightarrow> queue_job \<Rightarrow> http_reply \<Rightarrow> world \<Rightarrow> world" where
  "called s j reply w =
     (if token_configured (qs_token s) then w\<lparr>wd_calls := wd_calls w @ [(qj_id j, reply)]\<rparr> else w)"

text \<open>
  The steps of \<open>process_one\<close>: \<open>claim\<close> is its first transaction; \<open>decide\<close> the eligibility callback
  deciding against sending or failing (or an admission that failed without a trace); \<open>admit\<close> and
  \<open>refuse\<close> the admission; \<open>unacknowledged\<close> an admission whose commit took effect although the worker
  saw it fail; \<open>transport\<close> the request; \<open>report\<close> the recording of the outcome. \<open>stop\<close> is a worker that
  disappears.
\<close>

inductive send_step :: "queue_settings \<Rightarrow> world \<Rightarrow> world \<Rightarrow> bool" for s where
  enqueued: "job_of (wd_db w) i = None \<Longrightarrow>
    enqueue s otps (wd_db w) now i random_key operation p priority context given expires_at = Inr (db', j) \<Longrightarrow>
    send_step s w (with_db db' w)"
| claim: "fresh_lease lease w \<Longrightarrow> claim_next s locked now lease (wd_db w) = (db', recovered, got) \<Longrightarrow>
    send_step s w (hire lease got (with_db db' w))"
| decide: "k \<in> set (wd_workers w) \<Longrightarrow> wk_phase k = Claimed \<Longrightarrow> dd_action d \<noteq> Allow \<Longrightarrow>
    send_step s w (move k (Reporting (Decided d)) w)"
| refuse: "k \<in> set (wd_workers w) \<Longrightarrow> wk_phase k = Claimed \<Longrightarrow>
    admit_transport s v now (qj_id (wk_job k)) (wk_lease k) (wd_db w) = (Some d, db') \<Longrightarrow>
    send_step s w (move k (Reporting (Decided d)) (with_db db' w))"
| admit: "k \<in> set (wd_workers w) \<Longrightarrow> wk_phase k = Claimed \<Longrightarrow>
    admit_transport s v now (qj_id (wk_job k)) (wk_lease k) (wd_db w) = (None, db') \<Longrightarrow>
    send_step s w (started now (move k Admitted (with_db db' w)))"
| unacknowledged: "k \<in> set (wd_workers w) \<Longrightarrow> wk_phase k = Claimed \<Longrightarrow>
    admit_transport s v now (qj_id (wk_job k)) (wk_lease k) (wd_db w) = (None, db') \<Longrightarrow>
    send_step s w (started now (move k (Reporting (Decided (defer_until ''admission_unavailable'' None)))
      (with_db db' w)))"
| transport: "k \<in> set (wd_workers w) \<Longrightarrow> wk_phase k = Admitted \<Longrightarrow>
    send_step s w (called s (wk_job k) reply
      (move k (Reporting (transport_outcome s now (wk_job k) reply)) w))"
| report: "k \<in> set (wd_workers w) \<Longrightarrow> wk_phase k = Reporting oc \<Longrightarrow>
    finish s now (qj_id (wk_job k)) (wk_lease k) oc (wd_db w) = (db', updates) \<Longrightarrow>
    send_step s w (dismiss k (with_db db' w))"
| stop: "k \<in> set (wd_workers w) \<Longrightarrow> send_step s w (dismiss k w)"
| projected: "send_step s w (with_db (project now seen delivered (wd_db w)) w)"
| cancelled: "send_step s w (with_db (cancel_unsent owned (wd_db w)) w)"

definition idle_world :: "throttle \<Rightarrow> world" where
  "idle_world a = \<lparr>wd_db = \<lparr>sq_jobs = [], sq_throttle = a\<rparr>, wd_workers = [], wd_calls = [], wd_starts = []\<rparr>"

inductive sent_reachable :: "queue_settings \<Rightarrow> throttle \<Rightarrow> world \<Rightarrow> bool" for s a where
  start: "sent_reachable s a (idle_world a)"
| later: "sent_reachable s a w \<Longrightarrow> send_step s w w' \<Longrightarrow> sent_reachable s a w'"

section \<open>What the rows promise\<close>

definition calls_of :: "world \<Rightarrow> string \<Rightarrow> http_reply list" where
  "calls_of w i = map snd (filter (\<lambda>c. fst c = i) (wd_calls w))"

text \<open>The requests of a job that are admitted and not yet made.\<close>

definition pending_calls :: "world \<Rightarrow> string \<Rightarrow> nat" where
  "pending_calls w i = length (filter (\<lambda>k. wk_phase k = Admitted \<and> qj_id (wk_job k) = i) (wd_workers w))"

text \<open>
  For a send with replies \<open>cs\<close> and \<open>p\<close> requests to come: \<open>repeatable\<close>, nothing has been or will be
  accepted; \<open>sent_once\<close>, all requests but the last one were turned away.
\<close>

definition turned_away :: "http_reply list \<Rightarrow> bool" where
  "turned_away cs \<longleftrightarrow> list_all rate_limited cs"

definition repeatable :: "http_reply list \<Rightarrow> nat \<Rightarrow> bool" where
  "repeatable cs p \<longleftrightarrow> p = 0 \<and> turned_away cs"

definition sent_once :: "http_reply list \<Rightarrow> nat \<Rightarrow> bool" where
  "sent_once cs p \<longleftrightarrow> (p = 0 \<and> turned_away (butlast cs)) \<or> (p = 1 \<and> turned_away cs)"

text \<open>One row against the requests of its job.\<close>

definition untouched :: "queue_job \<Rightarrow> bool" where
  "untouched j \<longleftrightarrow> qj_status j = JDispatching \<and> qj_transport_started_at j = None"

definition spare_attempt :: "http_reply list \<Rightarrow> nat \<Rightarrow> queue_job \<Rightarrow> bool" where
  "spare_attempt cs p j \<longleftrightarrow>
     (qj_operation j = Send_op \<longrightarrow> repeatable cs p) \<and> int (length cs + p) < qj_attempts j"

definition job_fits :: "queue_settings \<Rightarrow> http_reply list \<Rightarrow> nat \<Rightarrow> queue_job \<Rightarrow> bool" where
  "job_fits s cs p j \<longleftrightarrow>
     (qj_operation j = Send_op \<longrightarrow> sent_once cs p)
     \<and> (qj_operation j = Send_op \<and> qj_status j \<in> {JQueued, JSkipped, JCancelled} \<longrightarrow> repeatable cs p)
     \<and> (untouched j \<longrightarrow> spare_attempt cs p j)
     \<and> int (length cs + p) \<le> qj_attempts j \<and> qj_attempts j \<le> qs_max_attempts s
     \<and> (qj_status j = JQueued \<longrightarrow> qj_attempts j < qs_max_attempts s)
     \<and> (terminal (qj_status j) \<longrightarrow> qj_payload j = [])
     \<and> (qj_accepted_at j \<noteq> None \<longrightarrow> qj_status j \<in> {JAccepted, JDelivered, JFailed})"

text \<open>A worker against the row it still holds.\<close>

definition worker_fits :: "http_reply list \<Rightarrow> nat \<Rightarrow> queue_job \<Rightarrow> phase \<Rightarrow> bool" where
  "worker_fits cs p j ph \<longleftrightarrow>
     (case ph of
        Claimed \<Rightarrow> qj_transport_started_at j = None
      | Admitted \<Rightarrow> qj_transport_started_at j \<noteq> None
      | Reporting (Decided _) \<Rightarrow> spare_attempt cs p j
      | Reporting (Errored e) \<Rightarrow>
          qj_operation j = Send_op \<and> te_retryable e \<and> \<not> te_ambiguous e \<longrightarrow> repeatable cs p
      | Reporting (Answered _) \<Rightarrow> True)"

definition follows :: "world \<Rightarrow> worker \<Rightarrow> queue_job \<Rightarrow> bool" where
  "follows w k j \<longleftrightarrow>
     qj_operation j = qj_operation (wk_job k)
     \<and> (holds_lease j (wk_lease k) \<longrightarrow>
          worker_fits (calls_of w (qj_id j)) (pending_calls w (qj_id j)) j (wk_phase k))"

definition table_sound :: "sms_db \<Rightarrow> bool" where
  "table_sound db \<longleftrightarrow> distinct (map qj_id (sq_jobs db)) \<and> distinct (map qj_idempotency_key (sq_jobs db))"

text \<open>
  Since the table was \<open>d0\<close> no row has vanished or changed its key or operation, and a row that was
  uncertain, skipped or cancelled still is.
\<close>

definition kept :: "sms_db \<Rightarrow> sms_db \<Rightarrow> bool" where
  "kept d0 db \<longleftrightarrow>
     (\<forall>i j. job_of d0 i = Some j \<longrightarrow>
        (\<exists>j'. job_of db i = Some j' \<and> qj_idempotency_key j' = qj_idempotency_key j
          \<and> qj_operation j' = qj_operation j
          \<and> (qj_status j \<in> {JUncertain, JSkipped, JCancelled} \<longrightarrow> qj_status j' = qj_status j)))"

definition queue_sound :: "queue_settings \<Rightarrow> sms_db \<Rightarrow> world \<Rightarrow> bool" where
  "queue_sound s d0 w \<longleftrightarrow>
     table_sound (wd_db w)
     \<and> distinct (map wk_lease (wd_workers w))
     \<and> fst ` set (wd_calls w) \<subseteq> qj_id ` set (sq_jobs (wd_db w))
     \<and> (\<forall>j \<in> set (sq_jobs (wd_db w)). job_fits s (calls_of w (qj_id j)) (pending_calls w (qj_id j)) j)
     \<and> (\<forall>k \<in> set (wd_workers w). \<exists>j. job_of (wd_db w) (qj_id (wk_job k)) = Some j \<and> follows w k j)
     \<and> kept d0 (wd_db w)"

end
