(* ===== verification/Leases.thy ===== *)
theory Leases
  imports Senders
begin

text \<open>
  The invariant of the SMS queue: what a row, the requests made for its job and the worker that holds
  its lease have to do with each other, kept by every step of every worker. Each transaction is a
  change of rows; \<open>row_change\<close> is what such a change owes to the workers it does not know of, and its
  interpretations are the transactions of \<^verbatim>\<open>app/services/sms_queue.py\<close>.
\<close>

lemma with_db_simps [simp]:
  "wd_db (with_db db w) = db" "wd_workers (with_db db w) = wd_workers w"
  "wd_calls (with_db db w) = wd_calls w" "wd_starts (with_db db w) = wd_starts w"
  by (simp_all add: with_db_def)

lemma with_db_counts [simp]:
  "calls_of (with_db db w) = calls_of w" "pending_calls (with_db db w) = pending_calls w"
  by (simp_all add: calls_of_def pending_calls_def fun_eq_iff)

section \<open>Rows of a table\<close>

lemma find_by_key:
  "distinct (map f xs) \<Longrightarrow> find (\<lambda>x. f x = i) xs = Some x \<longleftrightarrow> x \<in> set xs \<and> f x = i"
  by (induction xs) (auto simp: image_iff)

lemma find_by_key_None: "find (\<lambda>x. f x = i) xs = None \<longleftrightarrow> i \<notin> f ` set xs"
  by (auto simp: find_None_iff)

lemma job_of_iff:
  "table_sound db \<Longrightarrow> job_of db i = Some j \<longleftrightarrow> j \<in> set (sq_jobs db) \<and> qj_id j = i"
  by (simp add: job_of_def table_sound_def find_by_key)

text \<open>An update of the rows that satisfy a guard.\<close>

definition change_rows :: "(queue_job \<Rightarrow> bool) \<Rightarrow> (queue_job \<Rightarrow> queue_job) \<Rightarrow> sms_db \<Rightarrow> sms_db" where
  "change_rows g f db = db\<lparr>sq_jobs := map (\<lambda>j. if g j then f j else j) (sq_jobs db)\<rparr>"

lemma put_job_change:
  assumes "table_sound db" and "j \<in> set (sq_jobs db)" and "qj_id j' = qj_id j"
  shows "put_job j' db = change_rows (\<lambda>x. x = j) (\<lambda>_. j') db"
proof -
  have "(qj_id x = qj_id j') = (x = j)" if "x \<in> set (sq_jobs db)" for x
    using assms that by (metis job_of_iff option.inject)
  then show ?thesis
    by (simp add: put_job_def change_rows_def)
qed

section \<open>Counting requests\<close>

lemma sent_once_if_repeatable: "repeatable cs p \<Longrightarrow> sent_once cs p"
  by (auto simp: repeatable_def sent_once_def turned_away_def list_all_iff dest: in_set_butlastD)

text \<open>One request fewer is to come: it was made, with some reply, or never will be.\<close>

definition used_up :: "http_reply list \<Rightarrow> nat \<Rightarrow> http_reply list \<Rightarrow> nat \<Rightarrow> bool" where
  "used_up cs p cs' p' \<longleftrightarrow> p = Suc p' \<and> (cs' = cs \<or> (\<exists>r. cs' = cs @ [r]))"

lemma used_up_fits:
  assumes "used_up cs p cs' p'" and "job_fits s cs p j"
  shows "job_fits s cs' p' j"
proof -
  have one: "sent_once cs p \<Longrightarrow> sent_once cs' p'" and not: "\<not> repeatable cs p"
    and sum: "length cs' + p' \<le> length cs + p"
    using assms(1) by (auto simp: used_up_def sent_once_def repeatable_def turned_away_def list_all_iff
        dest: in_set_butlastD)
  with assms(2) show ?thesis
    by (auto simp: job_fits_def spare_attempt_def)
qed

lemma used_up_worker_fits:
  assumes "used_up cs p cs' p'" and "worker_fits cs p j ph"
  shows "worker_fits cs' p' j ph"
proof -
  have not: "\<not> repeatable cs p" and sum: "length cs' + p' \<le> length cs + p"
    using assms(1) by (auto simp: used_up_def repeatable_def)
  with assms(2) show ?thesis
    by (auto simp: worker_fits_def spare_attempt_def split: phase.splits outcome.splits)
qed

section \<open>Changing rows\<close>

locale row_change =
  fixes s :: queue_settings
    and C :: "string \<Rightarrow> http_reply list"
    and P :: "string \<Rightarrow> nat"
    and L :: "string \<Rightarrow> bool"
    and g :: "queue_job \<Rightarrow> bool"
    and f :: "queue_job \<Rightarrow> queue_job"
  assumes same_id: "g j \<Longrightarrow> qj_id (f j) = qj_id j"
    and same_key: "g j \<Longrightarrow> qj_idempotency_key (f j) = qj_idempotency_key j"
    and same_operation: "g j \<Longrightarrow> qj_operation (f j) = qj_operation j"
    and fits: "g j \<Longrightarrow> job_fits s (C (qj_id j)) (P (qj_id j)) j
                 \<Longrightarrow> job_fits s (C (qj_id j)) (P (qj_id j)) (f j)"
    and lease: "g j \<Longrightarrow> L l \<Longrightarrow> holds_lease (f j) l
                 \<Longrightarrow> holds_lease j l \<and> qj_transport_started_at (f j) = qj_transport_started_at j
                     \<and> qj_attempts (f j) = qj_attempts j"
    and final: "g j \<Longrightarrow> job_fits s (C (qj_id j)) (P (qj_id j)) j
                 \<Longrightarrow> qj_status j \<in> {JUncertain, JSkipped, JCancelled} \<Longrightarrow> qj_status (f j) = qj_status j"
begin

abbreviation changed :: "queue_job \<Rightarrow> queue_job" where
  "changed j \<equiv> if g j then f j else j"

lemma changed_same:
  "qj_id (changed j) = qj_id j" "qj_idempotency_key (changed j) = qj_idempotency_key j"
  "qj_operation (changed j) = qj_operation j"
  by (simp_all add: same_id same_key same_operation)

lemma rows: "sq_jobs (change_rows g f db) = map changed (sq_jobs db)"
  by (simp add: change_rows_def)

lemma table: "table_sound db \<Longrightarrow> table_sound (change_rows g f db)"
  by (simp add: table_sound_def rows comp_def changed_same)

lemma lookup: "table_sound db \<Longrightarrow> job_of db i = Some j \<Longrightarrow> job_of (change_rows g f db) i = Some (changed j)"
  by (auto simp: job_of_iff table rows changed_same)

lemma kept:
  assumes "kept d0 db" and table: "table_sound db"
    and jobs: "\<And>j. j \<in> set (sq_jobs db) \<Longrightarrow> job_fits s (C (qj_id j)) (P (qj_id j)) j"
  shows "kept d0 (change_rows g f db)"
  unfolding kept_def
proof (intro allI impI)
  fix i j0
  assume "job_of d0 i = Some j0"
  then obtain j where j: "job_of db i = Some j" "qj_idempotency_key j = qj_idempotency_key j0"
      "qj_operation j = qj_operation j0"
      "qj_status j0 \<in> {JUncertain, JSkipped, JCancelled} \<longrightarrow> qj_status j = qj_status j0"
    using assms(1) by (auto simp: kept_def)
  have "job_fits s (C (qj_id j)) (P (qj_id j)) j"
    using j(1) jobs [of j] unfolding job_of_iff [OF table] by blast
  then have "qj_status j0 \<in> {JUncertain, JSkipped, JCancelled} \<longrightarrow> qj_status (changed j) = qj_status j0"
    using j(4) final by auto
  with lookup [OF table j(1)] j(2,3)
  show "\<exists>j'. job_of (change_rows g f db) i = Some j' \<and> qj_idempotency_key j' = qj_idempotency_key j0
      \<and> qj_operation j' = qj_operation j0
      \<and> (qj_status j0 \<in> {JUncertain, JSkipped, JCancelled} \<longrightarrow> qj_status j' = qj_status j0)"
    by (intro exI [of _ "changed j"]) (simp only: changed_same simp_thms)
qed

lemma worker:
  assumes "L l" and "holds_lease j l \<longrightarrow> worker_fits cs p j ph" and "holds_lease (changed j) l"
  shows "worker_fits cs p (changed j) ph"
proof (cases "g j")
  case False
  with assms show ?thesis by simp
next
  case True
  with assms lease [of j l] same_operation [of j] show ?thesis
    by (auto simp: worker_fits_def spare_attempt_def split: phase.splits outcome.splits)
qed

lemma sound:
  assumes "queue_sound s d0 w" and "C = calls_of w" and "P = pending_calls w"
    and live: "\<And>k. k \<in> set (wd_workers w) \<Longrightarrow> L (wk_lease k)"
  shows "queue_sound s d0 (with_db (change_rows g f (wd_db w)) w)"
proof -
  let ?db = "wd_db w"
  have table_ok: "table_sound ?db"
    and jobs: "\<And>j. j \<in> set (sq_jobs ?db) \<Longrightarrow> job_fits s (calls_of w (qj_id j)) (pending_calls w (qj_id j)) j"
    and workers: "\<And>k. k \<in> set (wd_workers w) \<Longrightarrow>
      \<exists>j. job_of ?db (qj_id (wk_job k)) = Some j \<and> follows w k j"
    using assms(1) by (auto simp: queue_sound_def)
  have "job_fits s (calls_of w (qj_id j)) (pending_calls w (qj_id j)) j"
    if "j \<in> set (sq_jobs (change_rows g f ?db))" for j
    using that jobs fits by (auto simp: rows same_id assms(2,3))
  moreover have "\<exists>j. job_of (change_rows g f ?db) (qj_id (wk_job k)) = Some j \<and> follows (with_db db' w) k j"
    if "k \<in> set (wd_workers w)" for k db'
  proof -
    obtain j where j: "job_of ?db (qj_id (wk_job k)) = Some j" "follows w k j"
      using workers [OF \<open>k \<in> set (wd_workers w)\<close>] by blast
    have "follows (with_db db' w) k (changed j)"
      using j(2) worker [OF live [OF \<open>k \<in> set (wd_workers w)\<close>]]
      by (auto simp only: follows_def with_db_counts changed_same)
    with lookup [OF table_ok j(1)] show ?thesis by blast
  qed
  moreover have "qj_id ` set (sq_jobs (change_rows g f ?db)) = qj_id ` set (sq_jobs ?db)"
    by (simp only: rows set_map image_image changed_same)
  moreover have "kept d0 (change_rows g f ?db)"
    by (rule kept) (use assms(1) jobs in \<open>auto simp: queue_sound_def assms(2,3)\<close>)
  ultimately show ?thesis
    using assms(1) table [OF table_ok] unfolding queue_sound_def with_db_simps with_db_counts by blast
qed

end


text \<open>An update that leaves no more jobs dispatching than before.\<close>

locale retiring_change = row_change +
  assumes retires: "g j \<Longrightarrow> qj_status (f j) = JDispatching \<Longrightarrow> qj_status j = JDispatching"
begin

lemma dispatching_le: "length (dispatching (change_rows g f db)) \<le> length (dispatching db)"
proof -
  have "length (filter (\<lambda>j. qj_status (changed j) = JDispatching) js)
      \<le> length (filter (\<lambda>j. qj_status j = JDispatching) js)" for js
    using retires by (induction js) auto
  then show ?thesis
    by (simp add: dispatching_def rows filter_map comp_def)
qed

end

section \<open>The operations as row changes\<close>

lemmas row_ops = give_back_attempt_def clear_payload_def unprojected_def unleased_def Let_def

text \<open>Nothing but these columns matters; a job that ends only has to keep its count.\<close>

lemma job_fits_cong:
  assumes "qj_operation j' = qj_operation j" and "qj_status j' = qj_status j"
    and "qj_attempts j' = qj_attempts j" and "qj_payload j' = qj_payload j"
    and "qj_accepted_at j' = qj_accepted_at j" and "qj_transport_started_at j' = qj_transport_started_at j"
  shows "job_fits s cs p j' = job_fits s cs p j"
  by (simp add: job_fits_def untouched_def spare_attempt_def assms)

lemma job_fits_ended:
  assumes "job_fits s cs p j" and "qj_operation j' = qj_operation j" and "terminal (qj_status j')"
    and "int (length cs + p) \<le> qj_attempts j'" and "qj_attempts j' \<le> qj_attempts j"
    and "qj_operation j = Send_op \<and> qj_status j' \<in> {JSkipped, JCancelled} \<longrightarrow> repeatable cs p"
    and "qj_payload j' = []" and "qj_accepted_at j' \<noteq> None \<longrightarrow> qj_status j' \<in> {JAccepted, JDelivered, JFailed}"
  shows "job_fits s cs p j'"
  using assms by (simp add: job_fits_def untouched_def terminal_iff)

lemma job_fits_bounds:
  "job_fits s cs p j \<Longrightarrow> int (length cs + p) \<le> qj_attempts j"
  "job_fits s cs p j \<Longrightarrow> untouched j \<Longrightarrow> int (length cs + p) < qj_attempts j"
  "job_fits s cs p j \<Longrightarrow> \<not> terminal (qj_status j) \<Longrightarrow> qj_accepted_at j = None"
  "job_fits s cs p j \<Longrightarrow> terminal (qj_status j) \<Longrightarrow> qj_payload j = []"
  by (auto simp: job_fits_def spare_attempt_def terminal_iff)

text \<open>Recovery.\<close>

lemma recover_job_same [simp]:
  "qj_id (recover_job s now j) = qj_id j"
  "qj_idempotency_key (recover_job s now j) = qj_idempotency_key j"
  "qj_operation (recover_job s now j) = qj_operation j"
  "qj_accepted_at (recover_job s now j) = qj_accepted_at j"
  by (simp_all add: recover_job_def row_ops)

lemma recover_job_attempts:
  "qj_attempts (recover_job s now j) = (if untouched j then max 0 (qj_attempts j - 1) else qj_attempts j)"
  by (auto simp add: recover_job_def row_ops untouched_def)

lemma recover_job_status:
  "qj_status (recover_job s now j) =
     (if qj_status j = JDispatching \<and> qj_operation j = Send_op \<and> \<not> untouched j then JUncertain
      else if at_or_before (qj_expires_at j) now then JCancelled
      else if qj_attempts (recover_job s now j) \<ge> qs_max_attempts s then JFailed else JQueued)"
  unfolding recover_job_attempts by (auto simp: recover_job_def row_ops untouched_def)

lemma recover_job_payload:
  "qj_payload (recover_job s now j) =
     (if terminal (qj_status (recover_job s now j)) then [] else qj_payload j)"
  by (simp add: recover_job_def row_ops)

lemma recover_job_fits:
  assumes "stale now j" and fits: "job_fits s cs p j"
  shows "job_fits s cs p (recover_job s now j)"
proof -
  have spare: "untouched j \<Longrightarrow> spare_attempt cs p j" and bound: "int (length cs + p) \<le> qj_attempts j"
    and send: "qj_operation j = Send_op \<Longrightarrow> sent_once cs p"
    and not_accepted: "qj_accepted_at j = None"
    using assms by (auto simp: job_fits_def stale_def terminal_iff)
  have not_open: "\<not> untouched (recover_job s now j)"
    by (simp add: untouched_def recover_job_status)
  have retry: "repeatable cs p" if "qj_status (recover_job s now j) \<noteq> JUncertain" "qj_operation j = Send_op"
    using that assms(1) spare fits
    by (auto simp: recover_job_status stale_def spare_attempt_def job_fits_def split: if_splits)
  have attempts: "int (length cs + p) \<le> qj_attempts (recover_job s now j)"
    "qj_attempts (recover_job s now j) \<le> qs_max_attempts s"
    using bound spare fits by (auto simp: recover_job_attempts spare_attempt_def job_fits_def)
  have queued: "qj_attempts (recover_job s now j) < qs_max_attempts s" if "qj_status (recover_job s now j) = JQueued"
    using that by (auto simp: recover_job_status split: if_splits)
  have payload: "terminal (qj_status (recover_job s now j)) \<Longrightarrow> qj_payload (recover_job s now j) = []"
    by (simp add: recover_job_payload)
  show ?thesis
    using send retry not_open attempts queued payload not_accepted
    by (auto simp add: job_fits_def)
qed

lemma not_dispatching_no_lease: "qj_status j \<noteq> JDispatching \<Longrightarrow> \<not> holds_lease j l"
  by (simp add: holds_lease_def)

lemma recover_job_settles: "qj_status (recover_job s now j) \<noteq> JDispatching"
  by (simp add: recover_job_status)

interpretation recovered: retiring_change s C P "\<lambda>_. True" "\<lambda>j. stale now j \<and> qj_id j \<in> R" "recover_job s now"
  for s C P now R
  by unfold_locales
    (auto simp: recover_job_fits recover_job_settles not_dispatching_no_lease stale_def)

text \<open>The cancellation of unsent campaign jobs.\<close>

lemma cancel_job_same [simp]:
  "qj_id (cancel_job j) = qj_id j" "qj_idempotency_key (cancel_job j) = qj_idempotency_key j"
  "qj_operation (cancel_job j) = qj_operation j" "qj_status (cancel_job j) = JCancelled"
  "qj_accepted_at (cancel_job j) = qj_accepted_at j" "qj_payload (cancel_job j) = []"
  "qj_attempts (cancel_job j) = (if qj_status j = JDispatching then max 0 (qj_attempts j - 1) else qj_attempts j)"
  by (simp_all add: cancel_job_def row_ops)

lemma cancel_job_fits:
  assumes "unsent j" and fits: "job_fits s cs p j"
  shows "job_fits s cs p (cancel_job j)"
proof -
  have active: "\<not> terminal (qj_status j)" and open_job: "qj_status j = JDispatching \<Longrightarrow> untouched j"
    using assms(1) by (auto simp: unsent_def terminal_iff untouched_def)
  have count: "int (length cs + p) \<le> qj_attempts (cancel_job j)" "qj_attempts (cancel_job j) \<le> qj_attempts j"
    using job_fits_bounds(1,2) [OF fits] open_job by auto
  have again: "qj_operation j = Send_op \<longrightarrow> repeatable cs p"
    using fits assms(1) open_job by (auto simp: job_fits_def spare_attempt_def unsent_def)
  show ?thesis
    by (rule job_fits_ended [OF fits]) (use count again job_fits_bounds(3) [OF fits active] in \<open>auto simp: terminal_iff\<close>)
qed

interpretation cancelled: retiring_change s C P "\<lambda>_. True" "\<lambda>j. unsent j \<and> owned (qj_id j)" cancel_job
  for s C P owned
  by unfold_locales (auto simp: cancel_job_fits not_dispatching_no_lease unsent_def)

text \<open>Delivery reports only reach accepted sends.\<close>

definition reported :: "instant \<Rightarrow> sms_result \<Rightarrow> queue_job \<Rightarrow> queue_job" where
  "reported now statuses j = fst (receive_report now statuses j)"

lemma reported_same [simp]:
  "qj_id (reported now statuses j) = qj_id j"
  "qj_idempotency_key (reported now statuses j) = qj_idempotency_key j"
  "qj_operation (reported now statuses j) = qj_operation j"
  "qj_accepted_at (reported now statuses j) = qj_accepted_at j"
  "qj_attempts (reported now statuses j) = qj_attempts j"
  "qj_payload (reported now statuses j) = qj_payload j"
  "qj_transport_started_at (reported now statuses j) = qj_transport_started_at j"
  "qj_lease_token (reported now statuses j) = qj_lease_token j"
  by (auto simp: reported_def receive_report_def unprojected_def split: option.splits)

lemma reported_unaccepted: "qj_accepted_at j = None \<Longrightarrow> reported now statuses j = j"
  by (simp add: reported_def receive_report_def)

lemma reported_status:
  "qj_status (reported now statuses j) = qj_status j
     \<or> qj_accepted_at j \<noteq> None \<and> qj_status (reported now statuses j) \<in> {JDelivered, JFailed}"
  by (auto simp: reported_def receive_report_def unprojected_def split: option.splits)

lemma reported_fits:
  assumes "job_fits s cs p j"
  shows "job_fits s cs p (reported now statuses j)"
proof (cases "qj_status (reported now statuses j) = qj_status j")
  case True
  with assms show ?thesis by (simp add: job_fits_cong [of "reported now statuses j" j])
next
  case False
  then have "qj_accepted_at j \<noteq> None" "qj_status (reported now statuses j) \<in> {JDelivered, JFailed}"
    using reported_status [of now statuses j] by auto
  moreover from this have "terminal (qj_status j)"
    using job_fits_bounds(3) [OF assms] by (cases "terminal (qj_status j)") simp_all
  ultimately show ?thesis
    using job_fits_bounds(1,4) [OF assms]
    by (intro job_fits_ended [OF assms]) (simp_all add: terminal_iff, auto)
qed

interpretation reports: retiring_change s C P "\<lambda>_. True" "\<lambda>_. True" "reported now statuses"
  for s C P now statuses
proof unfold_locales
  fix j l
  show "job_fits s (C (qj_id j)) (P (qj_id j)) j \<Longrightarrow> job_fits s (C (qj_id j)) (P (qj_id j)) (reported now statuses j)"
    by (rule reported_fits)
  show "qj_status (reported now statuses j) = JDispatching \<Longrightarrow> qj_status j = JDispatching"
    using reported_status [of now statuses j] by auto
  then show "holds_lease (reported now statuses j) l \<Longrightarrow> holds_lease j l
      \<and> qj_transport_started_at (reported now statuses j) = qj_transport_started_at j
      \<and> qj_attempts (reported now statuses j) = qj_attempts j"
    by (auto simp: holds_lease_def)
  show "job_fits s (C (qj_id j)) (P (qj_id j)) j \<Longrightarrow> qj_status j \<in> {JUncertain, JSkipped, JCancelled}
      \<Longrightarrow> qj_status (reported now statuses j) = qj_status j"
    using reported_status [of now statuses j] by (auto simp: job_fits_def)
qed simp_all

text \<open>A projection only notes that, and when, it took place.\<close>

definition noted :: "instant \<Rightarrow> bool \<Rightarrow> queue_job \<Rightarrow> queue_job" where
  "noted now delivered j =
     (if delivered then j\<lparr>qj_outcome_projected_at := Some now, qj_projection_retry_at := None\<rparr>
      else j\<lparr>qj_projection_retry_at := Some (now + 30 * 1000000)\<rparr>)"

lemma noted_same [simp]:
  "qj_id (noted now delivered j) = qj_id j"
  "qj_idempotency_key (noted now delivered j) = qj_idempotency_key j"
  "qj_operation (noted now delivered j) = qj_operation j"
  "qj_status (noted now delivered j) = qj_status j"
  "qj_accepted_at (noted now delivered j) = qj_accepted_at j"
  "qj_attempts (noted now delivered j) = qj_attempts j"
  "qj_payload (noted now delivered j) = qj_payload j"
  "qj_transport_started_at (noted now delivered j) = qj_transport_started_at j"
  "qj_lease_token (noted now delivered j) = qj_lease_token j"
  by (simp_all add: noted_def)

interpretation noting: retiring_change s C P "\<lambda>_. True" g "noted now delivered"
  for s C P g now delivered
  by unfold_locales (simp_all add: holds_lease_def job_fits_cong [of "noted now delivered j" j for j])

text \<open>A claim: the only holder of the new lease is the worker that made the claim.\<close>

lemma claimed_job_same [simp]:
  "qj_id (claimed_job s now lease j) = qj_id j"
  "qj_idempotency_key (claimed_job s now lease j) = qj_idempotency_key j"
  "qj_operation (claimed_job s now lease j) = qj_operation j"
  "qj_status (claimed_job s now lease j) = JDispatching"
  "qj_accepted_at (claimed_job s now lease j) = qj_accepted_at j"
  "qj_attempts (claimed_job s now lease j) = qj_attempts j + 1"
  "qj_transport_started_at (claimed_job s now lease j) = None"
  "qj_lease_token (claimed_job s now lease j) = Some lease"
  by (simp_all add: claimed_job_def row_ops)

lemma claimed_job_fits:
  "claimable t j \<Longrightarrow> job_fits s cs p j \<Longrightarrow> job_fits s cs p (claimed_job s now lease j)"
  by (auto simp: claimable_def job_fits_def untouched_def spare_attempt_def terminal_iff)

interpretation claiming: row_change s C P "\<lambda>l. l \<noteq> lease" "\<lambda>x. x = row \<and> claimable t x" "\<lambda>_. claimed_job s now lease row"
  for s C P lease row t now
  by unfold_locales (auto simp: claimed_job_fits holds_lease_def claimable_def)

text \<open>An admission by the holder of the lease.\<close>

lemma admitted_job_same [simp]:
  "qj_id (admitted_job v now j) = qj_id j"
  "qj_idempotency_key (admitted_job v now j) = qj_idempotency_key j"
  "qj_operation (admitted_job v now j) = qj_operation j"
  "qj_status (admitted_job v now j) = qj_status j"
  "qj_accepted_at (admitted_job v now j) = qj_accepted_at j"
  "qj_attempts (admitted_job v now j) = qj_attempts j"
  "qj_payload (admitted_job v now j) = qj_payload j"
  "qj_transport_started_at (admitted_job v now j) = Some now"
  "qj_lease_token (admitted_job v now j) = qj_lease_token j"
  by (auto simp: admitted_job_def with_campaign_def Let_def split: option.splits)

interpretation admitting: retiring_change s C P "\<lambda>l. l \<noteq> lease" "\<lambda>x. x = row \<and> holds_lease x lease" "\<lambda>_. admitted_job v now row"
  for s C P lease row v now
  by unfold_locales (auto simp: holds_lease_def job_fits_def untouched_def)

text \<open>The recording of an outcome by the holder of the lease.\<close>

lemma outcome_job_same [simp]:
  "qj_id (outcome_job s now oc j) = qj_id j"
  "qj_idempotency_key (outcome_job s now oc j) = qj_idempotency_key j"
  "qj_operation (outcome_job s now oc j) = qj_operation j"
  by (simp_all add: outcome_job_def row_ops decided_job_def errored_job_def answered_job_def split: outcome.splits)

lemma outcome_job_settles: "qj_status (outcome_job s now oc j) \<noteq> JDispatching"
  by (simp add: outcome_job_def row_ops decided_job_def errored_job_def answered_job_def split: outcome.splits)

lemma outcome_job_payload:
  "terminal (qj_status (outcome_job s now oc j)) \<Longrightarrow> qj_payload (outcome_job s now oc j) = []"
  by (simp add: outcome_job_def clear_payload_def split: if_splits)

lemma outcome_job_attempts:
  "qj_attempts (outcome_job s now oc j) =
     (case oc of Decided _ \<Rightarrow> max 0 (qj_attempts j - 1) | _ \<Rightarrow> qj_attempts j)"
  by (simp add: outcome_job_def row_ops decided_job_def errored_job_def answered_job_def split: outcome.splits)

lemma outcome_job_accepted_at:
  "qj_accepted_at (outcome_job s now oc j) = qj_accepted_at j \<or> qj_status (outcome_job s now oc j) = JAccepted"
  by (simp add: outcome_job_def row_ops decided_job_def errored_job_def answered_job_def split: outcome.splits)

text \<open>A job goes back to the queue after a deferral, or after a failure worth another attempt.\<close>

lemma outcome_job_queued:
  "qj_status (outcome_job s now oc j) = JQueued \<Longrightarrow>
     (\<exists>d. oc = Decided d)
     \<or> (\<exists>e. oc = Errored e \<and> te_retryable e \<and> \<not> (te_ambiguous e \<and> qj_operation j = Send_op)
            \<and> qj_attempts j < qs_max_attempts s)"
  by (auto simp: outcome_job_def row_ops decided_job_def errored_job_def answered_job_def
      split: outcome.splits if_splits)

lemma outcome_job_skipped:
  "qj_status (outcome_job s now oc j) \<in> {JSkipped, JCancelled} \<Longrightarrow> \<exists>d. oc = Decided d"
  by (auto simp: outcome_job_def row_ops decided_job_def errored_job_def answered_job_def
      split: outcome.splits if_splits)

definition reports_well :: "http_reply list \<Rightarrow> nat \<Rightarrow> string \<Rightarrow> outcome \<Rightarrow> queue_job \<Rightarrow> bool" where
  "reports_well cs p lease oc j \<longleftrightarrow> holds_lease j lease \<and> worker_fits cs p j (Reporting oc)"

lemma outcome_job_fits:
  assumes well: "reports_well cs p lease oc j" and fits: "job_fits s cs p j"
  shows "job_fits s cs p (outcome_job s now oc j)"
proof -
  let ?j = "outcome_job s now oc j"
  have active: "qj_status j = JDispatching"
    using well by (simp add: reports_well_def holds_lease_def)
  have accepted: "qj_accepted_at ?j \<noteq> None \<longrightarrow> qj_status ?j = JAccepted"
    using job_fits_bounds(3) [OF fits] outcome_job_accepted_at [of s now oc j] active by (auto simp: terminal_iff)
  have spare: "spare_attempt cs p j" if "oc = Decided d" for d
    using well that by (simp add: reports_well_def worker_fits_def)
  have count: "int (length cs + p) \<le> qj_attempts ?j" "qj_attempts ?j \<le> qj_attempts j"
    using job_fits_bounds(1) [OF fits] spare
    by (auto simp: outcome_job_attempts spare_attempt_def split: outcome.splits)
  have skipped: "qj_operation j = Send_op \<and> qj_status ?j \<in> {JSkipped, JCancelled} \<longrightarrow> repeatable cs p"
    using outcome_job_skipped [of s now oc j] spare by (auto simp: spare_attempt_def)
  show ?thesis
  proof (cases "qj_status ?j = JQueued")
    case False
    then show ?thesis
      using count skipped accepted outcome_job_settles [of s now oc j] outcome_job_payload [of s now oc j]
      by (intro job_fits_ended [OF fits]) (simp_all add: terminal_iff)
  next
    case True
    from outcome_job_queued [OF this] have again: "qj_operation j = Send_op \<longrightarrow> repeatable cs p"
      using spare well by (auto simp: spare_attempt_def reports_well_def worker_fits_def)
    have "qj_attempts j \<le> qs_max_attempts s" using fits by (simp add: job_fits_def)
    then have "qj_attempts ?j < qs_max_attempts s"
      using outcome_job_queued [OF True]
      by (auto simp: outcome_job_attempts spare_attempt_def dest: spare)
    moreover have "qj_operation ?j = Send_op \<longrightarrow> sent_once cs p"
      using again by (simp add: sent_once_if_repeatable)
    ultimately show ?thesis
      using True again count accepted by (simp add: job_fits_def untouched_def terminal_iff)
  qed
qed

interpretation finishing: retiring_change s C P "\<lambda>_. True"
    "\<lambda>x. x = row \<and> reports_well (C (qj_id x)) (P (qj_id x)) lease oc x" "\<lambda>_. outcome_job s now oc row"
  for s C P lease oc row now
  by unfold_locales
    (simp_all add: outcome_job_fits outcome_job_settles not_dispatching_no_lease,
     auto simp: reports_well_def holds_lease_def)

section \<open>Workers come and go\<close>

lemma distinct_leases_remove:
  "distinct (map wk_lease ks) \<Longrightarrow> k \<in> set ks \<Longrightarrow> wk_lease k \<notin> wk_lease ` set (remove1 k ks)"
  by (induction ks) (auto simp: image_iff split: if_splits)

lemma distinct_leases_remove1:
  "distinct (map wk_lease ks) \<Longrightarrow> distinct (map wk_lease (remove1 k ks))"
  by (induction ks) (auto dest: set_remove1_subset [THEN subsetD])

lemma pending_dismiss:
  "k \<in> set (wd_workers w) \<Longrightarrow>
     pending_calls w i = pending_calls (dismiss k w) i
       + (if wk_phase k = Admitted \<and> qj_id (wk_job k) = i then 1 else 0)"
proof -
  have "k \<in> set ks \<Longrightarrow> length (filter Q ks) = length (filter Q (remove1 k ks)) + (if Q k then 1 else 0)"
    for Q and ks :: "worker list"
    by (induction ks) auto
  then show "k \<in> set (wd_workers w) \<Longrightarrow> ?thesis"
    by (simp add: pending_calls_def dismiss_def)
qed

definition add_worker :: "worker \<Rightarrow> world \<Rightarrow> world" where
  "add_worker k w = w\<lparr>wd_workers := k # wd_workers w\<rparr>"

lemma move_as_add: "move k ph w = add_worker (k\<lparr>wk_phase := ph\<rparr>) (dismiss k w)"
  by (simp add: move_def add_worker_def dismiss_def)

lemma hire_as_add:
  "hire lease (Some j) w = add_worker \<lparr>wk_job = j, wk_lease = lease, wk_phase = Claimed\<rparr> w"
  by (simp add: hire_def add_worker_def)

lemma dismiss_simps [simp]:
  "wd_db (dismiss k w) = wd_db w" "wd_calls (dismiss k w) = wd_calls w" "wd_starts (dismiss k w) = wd_starts w"
  "wd_workers (dismiss k w) = remove1 k (wd_workers w)"
  "wd_db (add_worker k w) = wd_db w" "wd_calls (add_worker k w) = wd_calls w"
  "wd_starts (add_worker k w) = wd_starts w" "wd_workers (add_worker k w) = k # wd_workers w"
  by (simp_all add: dismiss_def add_worker_def)

lemma queue_soundD:
  assumes "queue_sound s d0 w"
  shows "table_sound (wd_db w)" and "distinct (map wk_lease (wd_workers w))"
    and "fst ` set (wd_calls w) \<subseteq> qj_id ` set (sq_jobs (wd_db w))"
    and "\<And>j. j \<in> set (sq_jobs (wd_db w)) \<Longrightarrow> job_fits s (calls_of w (qj_id j)) (pending_calls w (qj_id j)) j"
    and "\<And>k. k \<in> set (wd_workers w) \<Longrightarrow> \<exists>j. job_of (wd_db w) (qj_id (wk_job k)) = Some j \<and> follows w k j"
    and "kept d0 (wd_db w)"
  using assms by (simp_all add: queue_sound_def)

lemma queue_sound_jobs:
  "queue_sound s d0 w \<Longrightarrow> job_of (wd_db w) i = Some j
     \<Longrightarrow> qj_id j = i \<and> job_fits s (calls_of w i) (pending_calls w i) j"
  using queue_soundD(1,4) by (metis job_of_iff)

lemma calls_dismiss: "calls_of (dismiss k w) = calls_of w"
  by (simp add: calls_of_def fun_eq_iff)

text \<open>
  A worker disappears; if it was about to make its request, the request may have been made.
\<close>

definition asked :: "worker \<Rightarrow> http_reply option \<Rightarrow> world \<Rightarrow> world" where
  "asked k r w =
     (case r of None \<Rightarrow> w | Some reply \<Rightarrow> w\<lparr>wd_calls := wd_calls w @ [(qj_id (wk_job k), reply)]\<rparr>)"

lemma asked_simps [simp]:
  "wd_db (asked k r w) = wd_db w" "wd_workers (asked k r w) = wd_workers w" "wd_starts (asked k r w) = wd_starts w"
  by (simp_all add: asked_def split: option.splits)

lemma calls_asked:
  "calls_of (asked k r w) i =
     calls_of w i @ (case r of None \<Rightarrow> [] | Some reply \<Rightarrow> if qj_id (wk_job k) = i then [reply] else [])"
  by (simp add: asked_def calls_of_def split: option.splits)

lemma gone_counts:
  assumes "k \<in> set (wd_workers w)" and "r = None \<or> wk_phase k = Admitted"
  shows "calls_of (asked k r (dismiss k w)) i = calls_of w i
      \<and> pending_calls (asked k r (dismiss k w)) i = pending_calls w i
    \<or> used_up (calls_of w i) (pending_calls w i)
        (calls_of (asked k r (dismiss k w)) i) (pending_calls (asked k r (dismiss k w)) i)"
proof -
  have calls: "calls_of (dismiss k w) i = calls_of w i"
    by (simp add: calls_of_def)
  have pending: "pending_calls (asked k r (dismiss k w)) i = pending_calls (dismiss k w) i"
    by (simp add: pending_calls_def)
  show ?thesis
    using assms(2) pending_dismiss [OF assms(1), of i]
    by (auto simp: calls_asked calls pending used_up_def split: option.splits)
qed

lemma gone_sound:
  assumes sound: "queue_sound s d0 w" and k: "k \<in> set (wd_workers w)" and r: "r = None \<or> wk_phase k = Admitted"
  shows "queue_sound s d0 (asked k r (dismiss k w))"
proof -
  let ?w = "asked k r (dismiss k w)"
  note counts = gone_counts [OF k r]
  have fits: "job_fits s (calls_of ?w (qj_id j)) (pending_calls ?w (qj_id j)) j"
    if "j \<in> set (sq_jobs (wd_db w))" for j
    using queue_soundD(4) [OF sound that] counts [of "qj_id j"] by (metis used_up_fits)
  have follows: "follows ?w k' j" if "follows w k' j" for k' j
    using that counts [of "qj_id j"] unfolding follows_def by (metis used_up_worker_fits)
  have workers: "\<exists>j. job_of (wd_db w) (qj_id (wk_job k')) = Some j \<and> follows ?w k' j"
    if "k' \<in> set (remove1 k (wd_workers w))" for k'
    using that follows
    by (metis notin_set_remove1 queue_soundD(5) sound)
  have "qj_id (wk_job k) \<in> qj_id ` set (sq_jobs (wd_db w))"
    using queue_soundD(1,5) [OF sound] k by (metis image_eqI job_of_iff)
  then have "fst ` set (wd_calls ?w) \<subseteq> qj_id ` set (sq_jobs (wd_db w))"
    using queue_soundD(3) [OF sound] by (auto simp: asked_def split: option.splits)
  then show ?thesis
    using fits workers queue_soundD(1,2,6) [OF sound]
    by (simp add: queue_sound_def distinct_leases_remove1)
qed

text \<open>A worker with a lease of its own joins; one that is admitted adds a request to come.\<close>

lemma pending_add:
  "pending_calls (add_worker k w) i =
     pending_calls w i + (if wk_phase k = Admitted \<and> qj_id (wk_job k) = i then 1 else 0)"
  by (simp add: pending_calls_def)

lemma calls_add [simp]: "calls_of (add_worker k w) = calls_of w"
  by (simp add: calls_of_def fun_eq_iff)

definition may_join :: "world \<Rightarrow> worker \<Rightarrow> queue_job \<Rightarrow> bool" where
  "may_join w k j \<longleftrightarrow>
     wk_lease k \<notin> wk_lease ` set (wd_workers w)
     \<and> job_of (wd_db w) (qj_id (wk_job k)) = Some j \<and> qj_operation j = qj_operation (wk_job k)
     \<and> (if wk_phase k = Admitted
        then holds_lease j (wk_lease k) \<and> qj_transport_started_at j \<noteq> None
          \<and> spare_attempt (calls_of w (qj_id j)) (pending_calls w (qj_id j)) j
        else holds_lease j (wk_lease k) \<longrightarrow>
          worker_fits (calls_of w (qj_id j)) (pending_calls w (qj_id j)) j (wk_phase k))"

lemma job_fits_admitted:
  "job_fits s cs p j \<Longrightarrow> holds_lease j l \<Longrightarrow> qj_transport_started_at j \<noteq> None \<Longrightarrow> spare_attempt cs p j
     \<Longrightarrow> job_fits s cs (Suc p) j"
  by (auto simp: job_fits_def holds_lease_def untouched_def spare_attempt_def repeatable_def sent_once_def
      terminal_iff)

lemma add_sound:
  assumes sound: "queue_sound s d0 w" and join: "may_join w k j"
  shows "queue_sound s d0 (add_worker k w)"
proof -
  let ?w = "add_worker k w"
  let ?i = "qj_id (wk_job k)"
  have j: "job_of (wd_db w) ?i = Some j" "qj_id j = ?i"
    using join queue_sound_jobs [OF sound] by (auto simp: may_join_def)
  have unique: "x = j" if "x \<in> set (sq_jobs (wd_db w))" "qj_id x = ?i" for x
    using that j(1) job_of_iff [OF queue_soundD(1) [OF sound]] by (metis option.inject)
  have fits: "job_fits s (calls_of w (qj_id x)) (pending_calls ?w (qj_id x)) x"
    if "x \<in> set (sq_jobs (wd_db w))" for x
  proof (cases "wk_phase k = Admitted \<and> qj_id x = ?i")
    case True
    with that unique have "x = j" by blast
    with True show ?thesis
      using queue_soundD(4) [OF sound that] join job_fits_admitted by (auto simp: may_join_def pending_add)
  next
    case False
    then show ?thesis using queue_soundD(4) [OF sound that] by (auto simp: pending_add)
  qed
  have others: "\<exists>x. job_of (wd_db w) (qj_id (wk_job k')) = Some x \<and> follows ?w k' x"
    if "k' \<in> set (wd_workers w)" for k'
  proof -
    obtain x where x: "job_of (wd_db w) (qj_id (wk_job k')) = Some x" "follows w k' x"
      using queue_soundD(5) [OF sound \<open>k' \<in> set (wd_workers w)\<close>] by blast
    have "follows ?w k' x"
    proof (cases "wk_phase k = Admitted \<and> qj_id x = ?i")
      case True
      have "x \<in> set (sq_jobs (wd_db w))"
        using x(1) job_of_iff [OF queue_soundD(1) [OF sound]] by blast
      with True have "x = j" using unique by blast
      moreover have "wk_lease k' \<noteq> wk_lease k"
        using join \<open>k' \<in> set (wd_workers w)\<close> unfolding may_join_def by (metis image_eqI)
      ultimately show ?thesis
        using True join x(2) by (auto simp: follows_def may_join_def holds_lease_def)
    next
      case False
      then show ?thesis using x(2) by (auto simp: follows_def pending_add)
    qed
    with x(1) show ?thesis by blast
  qed
  have "follows ?w k j"
  proof (cases "wk_phase k = Admitted")
    case True
    with join show ?thesis by (simp add: follows_def may_join_def worker_fits_def)
  next
    case False
    with join show ?thesis by (simp add: follows_def may_join_def pending_add)
  qed
  then show ?thesis
    using fits others j(1) join queue_soundD(1,2,3,6) [OF sound]
    by (auto simp: queue_sound_def may_join_def)
qed

section \<open>Every step keeps the queue sound\<close>

lemma enqueue_shape:
  assumes "enqueue s otps db now i random_key operation p priority context given expires_at = Inr (db', j)"
  shows "\<exists>key t. db' = insert_job (new_job i key operation priority p context now t) db"
  using assms by (auto simp: enqueue_def Let_def split: sum.splits option.splits)

lemma new_job_fits: "1 \<le> qs_max_attempts s \<Longrightarrow> job_fits s [] 0 (new_job i key operation priority p context now t)"
  by (simp add: job_fits_def new_job_def untouched_def terminal_iff sent_once_def repeatable_def turned_away_def)

lemma enqueued_sound:
  assumes sound: "queue_sound s d0 w" and new: "job_of (wd_db w) i = None" and s: "1 \<le> qs_max_attempts s"
  shows "queue_sound s d0 (with_db (insert_job (new_job i key operation priority p context now t) (wd_db w)) w)"
proof (cases "job_with_key (wd_db w) key")
  case (Some x)
  then show ?thesis using sound by (simp add: insert_job_def new_job_def with_db_def)
next
  case None
  let ?j = "new_job i key operation priority p context now t"
  let ?db = "insert_job ?j (wd_db w)"
  have db: "sq_jobs ?db = sq_jobs (wd_db w) @ [?j]"
    using None by (simp add: insert_job_def new_job_def)
  have id: "qj_id ?j = i" and key: "qj_idempotency_key ?j = key"
    by (simp_all add: new_job_def)
  have unused: "i \<notin> qj_id ` set (sq_jobs (wd_db w))"
    using new by (simp add: job_of_def find_by_key_None)
  have "key \<notin> qj_idempotency_key ` set (sq_jobs (wd_db w))"
    using None by (simp add: job_with_key_def find_by_key_None)
  with unused have table: "table_sound ?db"
    using queue_soundD(1) [OF sound] by (simp add: table_sound_def db id key)
  have still: "job_of (wd_db w) i' = Some x \<Longrightarrow> job_of ?db i' = Some x" for i' x
    using queue_soundD(1) [OF sound] table by (auto simp: job_of_iff db)
  have "calls_of w i = []"
    using unused queue_soundD(3) [OF sound] by (auto simp: calls_of_def filter_empty_conv)
  moreover have "pending_calls w i = 0"
    using unused job_of_iff [OF queue_soundD(1) [OF sound]] queue_soundD(5) [OF sound]
    by (auto simp: pending_calls_def filter_empty_conv) (metis image_eqI)
  ultimately have "job_fits s (calls_of w (qj_id ?j)) (pending_calls w (qj_id ?j)) ?j"
    using new_job_fits [OF s] by (simp add: id)
  moreover have "kept d0 ?db"
    using queue_soundD(6) [OF sound] still unfolding kept_def by metis
  ultimately show ?thesis
    using queue_soundD(2,3,4,5) [OF sound] table still
    by (auto simp: queue_sound_def db follows_def) metis+
qed

text \<open>The shapes of the transactions as row changes.\<close>

lemma sq_jobs_simps [simp]:
  "sq_jobs (db\<lparr>sq_throttle := t\<rparr>) = sq_jobs db" "job_of (db\<lparr>sq_throttle := t\<rparr>) i = job_of db i"
  "table_sound (db\<lparr>sq_throttle := t\<rparr>) = table_sound db" "kept d0 (db\<lparr>sq_throttle := t\<rparr>) = kept d0 db"
  by (simp_all add: job_of_def table_sound_def kept_def)

lemma throttle_sound: "queue_sound s d0 w \<Longrightarrow> queue_sound s d0 (with_db ((wd_db w)\<lparr>sq_throttle := t\<rparr>) w)"
  by (simp add: queue_sound_def follows_def)

lemma started_sound [simp]: "queue_sound s d0 (started now w) = queue_sound s d0 w"
  by (simp add: queue_sound_def follows_def started_def calls_of_def pending_calls_def)

lemma put_job_guarded:
  assumes "table_sound db" and "job_of db i = Some j" and "qj_id j' = qj_id j" and "Q j"
  shows "put_job j' db = change_rows (\<lambda>x. x = j \<and> Q x) (\<lambda>_. j') db"
proof -
  have "(\<lambda>x. x = j \<and> Q x) = (\<lambda>x. x = j)" using assms(4) by auto
  with assms show ?thesis by (simp add: put_job_change job_of_iff)
qed

lemma recover_shape:
  assumes "table_sound db" and "recover s locked now db = (db', R)"
  shows "db' = change_rows (\<lambda>j. stale now j \<and> qj_id j \<in> set R) (recover_job s now) db"
proof -
  have R: "R = map qj_id (stale_jobs locked now db)"
    using assms(2) by (simp add: recover_def Let_def)
  have "stale now j" if "j \<in> set (sq_jobs db)" "qj_id j \<in> set R" for j
  proof -
    obtain x where "x \<in> set (stale_jobs locked now db)" "qj_id x = qj_id j"
      using \<open>qj_id j \<in> set R\<close> by (auto simp: R)
    then have "x \<in> set (sq_jobs db)" "stale now x"
      by (auto simp: stale_jobs_def dest: in_set_takeD)
    moreover from this(1) that(1) \<open>qj_id x = qj_id j\<close> have "x = j"
      using job_of_iff [OF assms(1)] by (metis option.inject)
    ultimately show ?thesis by simp
  qed
  with assms(2) show ?thesis
    by (auto simp: recover_def Let_def change_rows_def R)
qed

lemma next_job_claimable: "next_job locked now db = Some j \<Longrightarrow> j \<in> set (sq_jobs db) \<and> claimable now j"
proof -
  assume chosen: "next_job locked now db = Some j"
  let ?js = "filter (\<lambda>j. claimable now j \<and> \<not> locked (qj_id j)) (sq_jobs db)"
  from chosen obtain js where "sort_key claim_rank ?js = j # js"
    by (auto simp: next_job_def split: list.splits)
  then have "set (sort_key claim_rank ?js) = set (j # js)" by (rule arg_cong)
  then show ?thesis by auto
qed

lemma first_refusal_None [simp]: "first_refusal ds = None \<longleftrightarrow> set ds \<subseteq> {None}"
  by (induction ds rule: first_refusal.induct) auto

lemma admission_needs_lease: "admission_refusal s v now lease j db = None \<Longrightarrow> holds_lease j lease"
  by (auto simp: admission_refusal_def split: if_splits)

lemma admit_shape:
  assumes "admit_transport s v now i lease db = (None, db')"
  shows "\<exists>j. job_of db i = Some j \<and> admission_refusal s v now lease j db = None
    \<and> db' = put_job (admitted_job v now j)
         (db\<lparr>sq_throttle := (sq_throttle db)\<lparr>th_next_request_at := Some (now + qs_spacing s)\<rparr>\<rparr>)"
  using assms by (auto simp: admit_transport_def split: option.splits)

lemma refuse_shape: "admit_transport s v now i lease db = (Some d, db') \<Longrightarrow> db' = db"
  by (auto simp: admit_transport_def split: option.splits)

text \<open>A worker that is not about to make a request steps aside without changing any count.\<close>

lemma aside_sound:
  assumes "queue_sound s d0 w" and "k \<in> set (wd_workers w)"
  shows "queue_sound s d0 (dismiss k w)"
  using gone_sound [OF assms, of None] by (simp add: asked_def)

lemma aside_counts:
  assumes "k \<in> set (wd_workers w)" and "wk_phase k \<noteq> Admitted"
  shows "calls_of (dismiss k w) = calls_of w" "pending_calls (dismiss k w) = pending_calls w"
  using pending_dismiss [OF assms(1)] assms(2) by (simp_all add: calls_of_def fun_eq_iff)

lemma aside_lease:
  "queue_sound s d0 w \<Longrightarrow> k \<in> set (wd_workers w) \<Longrightarrow> wk_lease k \<notin> wk_lease ` set (remove1 k (wd_workers w))"
  by (rule distinct_leases_remove) (rule queue_soundD(2))

lemma aside_db: "dismiss k (with_db db w) = with_db db (dismiss k w)"
  by (simp add: dismiss_def with_db_def)

lemma claimed_spare:
  assumes sound: "queue_sound s d0 w" and k: "k \<in> set (wd_workers w)" "wk_phase k = Claimed"
    and j: "job_of (wd_db w) (qj_id (wk_job k)) = Some j" and lease: "holds_lease j (wk_lease k)"
  shows "spare_attempt (calls_of w (qj_id j)) (pending_calls w (qj_id j)) j"
proof -
  have "follows w k j" using queue_soundD(5) [OF sound k(1)] j by auto
  with k(2) lease have "untouched j"
    by (simp add: follows_def worker_fits_def untouched_def holds_lease_def)
  moreover have "job_fits s (calls_of w (qj_id j)) (pending_calls w (qj_id j)) j"
    using queue_sound_jobs [OF sound j] by simp
  ultimately show ?thesis by (simp add: job_fits_def)
qed

lemma decide_sound:
  assumes sound: "queue_sound s d0 w" and k: "k \<in> set (wd_workers w)" "wk_phase k = Claimed"
  shows "queue_sound s d0 (move k (Reporting (Decided d)) w)"
proof -
  obtain j where j: "job_of (wd_db w) (qj_id (wk_job k)) = Some j" "follows w k j"
    using queue_soundD(5) [OF sound k(1)] by blast
  have "may_join (dismiss k w) (k\<lparr>wk_phase := Reporting (Decided d)\<rparr>) j"
    using j aside_lease [OF sound k(1)] claimed_spare [OF sound k j(1)] k(2)
    by (simp add: may_join_def worker_fits_def aside_counts [OF k(1)] follows_def)
  then show ?thesis
    unfolding move_as_add by (rule add_sound [OF aside_sound [OF sound k(1)]])
qed

lemma claim_sound:
  assumes sound: "queue_sound s d0 w" and fresh: "fresh_lease lease w"
    and claim: "claim_next s locked now lease (wd_db w) = (db', recovered, got)"
  shows "queue_sound s d0 (hire lease got (with_db db' w))"
proof -
  obtain db R where rec: "recover s locked now (wd_db w) = (db, R)" by fastforce
  have db: "db = change_rows (\<lambda>j. stale now j \<and> qj_id j \<in> set R) (recover_job s now) (wd_db w)"
    by (rule recover_shape [OF queue_soundD(1) [OF sound] rec])
  have recovered: "queue_sound s d0 (with_db db w)"
    unfolding db by (rule recovered.sound [OF sound refl refl]) simp
  show ?thesis
  proof (cases got)
    case None
    then have "db' = db" using claim by (auto simp: claim_next_def rec Let_def split: if_splits option.splits)
    with recovered None show ?thesis by (simp add: hire_def)
  next
    case (Some j')
    then obtain j where j: "next_job locked now db = Some j" "j' = claimed_job s now lease j" "db' = put_job j' db"
      using claim by (auto simp: claim_next_def rec Let_def split: if_splits option.splits)
    have ok: "j \<in> set (sq_jobs db)" "claimable now j" using next_job_claimable [OF j(1)] by auto
    have table: "table_sound db" using queue_soundD(1) [OF recovered] by simp
    have job: "job_of db (qj_id j) = Some j" using ok(1) by (simp add: job_of_iff [OF table])
    have db': "db' = change_rows (\<lambda>x. x = j \<and> claimable now x) (\<lambda>_. claimed_job s now lease j) db"
      unfolding j(3) j(2) by (rule put_job_guarded [OF table job]) (simp_all add: ok)
    have leases: "wk_lease k \<noteq> lease" if "k \<in> set (wd_workers w)" for k
      using fresh that by (auto simp: fresh_lease_def list_all_iff)
    have claimed: "queue_sound s d0 (with_db db' (with_db db w))"
      unfolding db' using claiming.sound [OF recovered refl refl, where lease = lease and row = j and t = now and now = now] leases by simp
    have "job_of db' (qj_id j) = Some j'"
      unfolding db' using claiming.lookup [OF table job, where s = s and lease = lease and row = j and t = now and now = now] ok(2) j(2) by simp
    then have "may_join (with_db db' (with_db db w)) \<lparr>wk_job = j', wk_lease = lease, wk_phase = Claimed\<rparr> j'"
      using leases by (auto simp: may_join_def worker_fits_def j(2))
    from add_sound [OF claimed this] show ?thesis
      by (simp add: Some hire_as_add with_db_def)
  qed
qed

text \<open>An admission, seen by the worker or not.\<close>

lemma admit_sound:
  assumes sound: "queue_sound s d0 w" and k: "k \<in> set (wd_workers w)" "wk_phase k = Claimed"
    and admit: "admit_transport s v now (qj_id (wk_job k)) (wk_lease k) (wd_db w) = (None, db')"
    and ph: "ph = Admitted \<or> (\<exists>d. ph = Reporting (Decided d))"
  shows "queue_sound s d0 (move k ph (with_db db' w))"
proof -
  let ?i = "qj_id (wk_job k)" and ?l = "wk_lease k"
  obtain j t where j: "job_of (wd_db w) ?i = Some j" "holds_lease j ?l"
    and db': "db' = put_job (admitted_job v now j) ((wd_db w)\<lparr>sq_throttle := t\<rparr>)"
    using admit_shape [OF admit] admission_needs_lease by blast
  let ?db = "(wd_db w)\<lparr>sq_throttle := t\<rparr>" and ?w = "dismiss k w"
  have aside: "queue_sound s d0 ?w" by (rule aside_sound [OF sound k(1)])
  have table: "table_sound ?db" using queue_soundD(1) [OF sound] by simp
  have job: "job_of ?db ?i = Some j" using j(1) by simp
  have free: "wk_lease k' \<noteq> ?l" if "k' \<in> set (wd_workers ?w)" for k'
    using that aside_lease [OF sound k(1)] by (metis dismiss_simps(4) image_eqI)
  have spare: "spare_attempt (calls_of w (qj_id j)) (pending_calls w (qj_id j)) j"
    by (rule claimed_spare [OF sound k j])
  have change: "db' = change_rows (\<lambda>x. x = j \<and> holds_lease x ?l) (\<lambda>_. admitted_job v now j) ?db"
    unfolding db' by (rule put_job_guarded [OF table job]) (simp_all add: j(2))
  have throttled: "queue_sound s d0 (with_db ?db ?w)"
    using throttle_sound [OF aside] by simp
  have admitted: "queue_sound s d0 (with_db db' ?w)"
    using admitting.sound [OF throttled refl refl, where lease = ?l and row = j and v = v and now = now] free
    by (simp add: change with_db_def)
  have row: "job_of db' ?i = Some (admitted_job v now j)"
    using admitting.lookup [OF table job, where lease = ?l and row = j and v = v and now = now] j(2)
    by (simp add: change)
  have "follows w k j" using queue_soundD(5) [OF sound k(1)] j(1) by auto
  then have op: "qj_operation j = qj_operation (wk_job k)" by (simp add: follows_def)
  have "may_join (with_db db' ?w) (k\<lparr>wk_phase := ph\<rparr>) (admitted_job v now j)"
    using aside_lease [OF sound k(1)] row op j(2) spare ph
    by (auto simp: may_join_def worker_fits_def spare_attempt_def aside_counts [OF k(1)] k(2) holds_lease_def)
  from add_sound [OF admitted this] show ?thesis
    by (simp add: move_as_add aside_db)
qed

text \<open>The request: afterwards the worker reports what it learnt.\<close>

lemma transport_repeatable:
  assumes "transport_outcome s now j reply = Errored e" and "qj_operation j = Send_op"
    and "te_retryable e" and "\<not> te_ambiguous e"
  shows "token_configured (qs_token s) \<and> rate_limited reply"
proof -
  obtain f where f: "execute_queue_job (qs_token s) now Send_op (qj_payload j) reply = Inl f"
    "as_transport_error Send_op f = e"
    using assms(1,2) by (auto simp: transport_outcome_def split: sum.splits)
  then have "rate_limited reply" using execute_repeatable assms(3,4) by blast
  moreover have "token_configured (qs_token s)"
    using f assms(3)
    by (rule_tac ccontr) (auto simp: execute_queue_job_def as_transport_error_def transport_error_def)
  ultimately show ?thesis by simp
qed

lemma called_as_asked:
  "called s (wk_job k) reply (move k ph w) =
     add_worker (k\<lparr>wk_phase := ph\<rparr>)
       (asked k (if token_configured (qs_token s) then Some reply else None) (dismiss k w))"
  by (simp add: called_def move_def add_worker_def asked_def dismiss_def)

lemma transport_sound:
  assumes sound: "queue_sound s d0 w" and k: "k \<in> set (wd_workers w)" "wk_phase k = Admitted"
  shows "queue_sound s d0 (called s (wk_job k) reply (move k (Reporting (transport_outcome s now (wk_job k) reply)) w))"
proof -
  let ?i = "qj_id (wk_job k)" and ?oc = "transport_outcome s now (wk_job k) reply"
  define r where "r = (if token_configured (qs_token s) then Some reply else None)"
  let ?w = "asked k r (dismiss k w)"
  have gone: "queue_sound s d0 ?w" by (rule gone_sound [OF sound k(1)]) (simp add: k(2))
  obtain j where j: "job_of (wd_db w) ?i = Some j" "follows w k j"
    using queue_soundD(5) [OF sound k(1)] by blast
  have id: "qj_id j = ?i" and fits: "job_fits s (calls_of w ?i) (pending_calls w ?i) j"
    using queue_sound_jobs [OF sound j(1)] by auto
  have op: "qj_operation j = qj_operation (wk_job k)" using j(2) by (simp add: follows_def)
  have one: "pending_calls w ?i = Suc (pending_calls (dismiss k w) ?i)"
    using pending_dismiss [OF k(1), of ?i] k(2) by simp
  have calls: "calls_of ?w ?i = calls_of w ?i @ (case r of None \<Rightarrow> [] | Some reply \<Rightarrow> [reply])"
    using calls_dismiss [of k w] by (simp add: calls_asked split: option.splits)
  have pending: "pending_calls ?w ?i = pending_calls (dismiss k w) ?i"
    by (simp add: pending_calls_def)
  have again: "repeatable (calls_of ?w ?i) (pending_calls ?w ?i)"
    if "?oc = Errored e" "qj_operation j = Send_op" "te_retryable e" "\<not> te_ambiguous e" for e
  proof -
    have "sent_once (calls_of w ?i) (pending_calls w ?i)"
      using fits that(2) by (simp add: job_fits_def)
    moreover have "r = Some reply" "rate_limited reply"
      using transport_repeatable [OF that(1)] that(2-4) op by (simp_all add: r_def)
    ultimately show ?thesis
      using one unfolding repeatable_def calls pending by (auto simp: sent_once_def turned_away_def)
  qed
  have "may_join ?w (k\<lparr>wk_phase := Reporting ?oc\<rparr>) j"
    using aside_lease [OF sound k(1)] j(1) op again
    by (auto simp: may_join_def worker_fits_def id transport_outcome_def split: outcome.splits sum.splits)
  then show ?thesis
    unfolding called_as_asked r_def [symmetric] by (rule add_sound [OF gone])
qed

text \<open>The outcome is recorded.\<close>

lemma receive_reports_shape:
  "fst (receive_reports now statuses db) = change_rows (\<lambda>_. True) (reported now statuses) db"
  by (simp add: receive_reports_def change_rows_def reported_def)

lemma reports_sound:
  "queue_sound s d0 w \<Longrightarrow> queue_sound s d0 (with_db (fst (receive_reports now statuses (wd_db w))) w)"
  unfolding receive_reports_shape by (rule reports.sound [OF _ refl refl]) simp_all

lemma finish_shape:
  assumes "finish s now i lease oc db = (db', updates)" and "job_of db i = Some j"
  shows "(\<not> holds_lease j lease \<and> db' = db)
    \<or> (holds_lease j lease \<and> (\<exists>db1. db1 = put_job (outcome_job s now oc j)
              (db\<lparr>sq_throttle := outcome_throttle s now oc j (sq_throttle db)\<rparr>)
            \<and> (db' = db1 \<or> (\<exists>statuses. db' = fst (receive_reports now statuses db1)))))"
  using assms by (auto simp: finish_def Let_def split: if_splits outcome.splits) (metis fst_conv)

lemma report_sound:
  assumes sound: "queue_sound s d0 w" and k: "k \<in> set (wd_workers w)" "wk_phase k = Reporting oc"
    and finish: "finish s now (qj_id (wk_job k)) (wk_lease k) oc (wd_db w) = (db', updates)"
  shows "queue_sound s d0 (dismiss k (with_db db' w))"
proof -
  let ?i = "qj_id (wk_job k)" and ?l = "wk_lease k" and ?w = "dismiss k w"
  have aside: "queue_sound s d0 ?w" by (rule aside_sound [OF sound k(1)])
  have counts: "calls_of ?w = calls_of w" "pending_calls ?w = pending_calls w"
    using aside_counts [OF k(1)] k(2) by simp_all
  obtain j where j: "job_of (wd_db w) ?i = Some j" "follows w k j"
    using queue_soundD(5) [OF sound k(1)] by blast
  consider (lost) "db' = wd_db w"
    | (held) t db1 where "holds_lease j ?l" "db1 = put_job (outcome_job s now oc j) ((wd_db w)\<lparr>sq_throttle := t\<rparr>)"
        "db' = db1 \<or> (\<exists>statuses. db' = fst (receive_reports now statuses db1))"
    using finish_shape [OF finish j(1)] by blast
  then show ?thesis
  proof cases
    case lost
    then show ?thesis using aside by (simp add: with_db_def)
  next
    case held
    let ?db = "(wd_db w)\<lparr>sq_throttle := t\<rparr>"
    have table: "table_sound ?db" using queue_soundD(1) [OF sound] by simp
    have job: "job_of ?db ?i = Some j" using j(1) by simp
    have well: "reports_well (calls_of ?w (qj_id j)) (pending_calls ?w (qj_id j)) ?l oc j"
      using held(1) j(2) k(2) by (simp add: reports_well_def follows_def counts)
    have change: "db1 = change_rows
        (\<lambda>x. x = j \<and> reports_well (calls_of ?w (qj_id x)) (pending_calls ?w (qj_id x)) ?l oc x)
        (\<lambda>_. outcome_job s now oc j) ?db"
      unfolding held(2) by (rule put_job_guarded [OF table job]) (simp_all add: well)
    have throttled: "queue_sound s d0 (with_db ?db ?w)"
      using throttle_sound [OF aside] by simp
    have recorded: "queue_sound s d0 (with_db db1 ?w)"
      using finishing.sound [OF throttled, where C = "calls_of ?w" and P = "pending_calls ?w" and lease = ?l
          and oc = oc and row = j and now = now]
      by (simp add: change with_db_def calls_of_def pending_calls_def fun_eq_iff)
    have "queue_sound s d0 (with_db db' ?w)"
      using held(3) recorded reports_sound [OF recorded] by (auto simp: with_db_def)
    then show ?thesis by (simp add: aside_db)
  qed
qed

text \<open>The remaining steps change rows only.\<close>

lemma project_shape:
  assumes table: "table_sound db"
  shows "project now seen delivered db = db
    \<or> (\<exists>j. project now seen delivered db = change_rows (\<lambda>x. x = j) (noted now delivered) db)"
proof -
  have "put_job (noted now delivered j) db = change_rows (\<lambda>x. x = j) (noted now delivered) db"
    if "job_of db i = Some j" for i j
    using that put_job_change [OF table, of j "noted now delivered j"]
    by (auto simp: job_of_iff [OF table] change_rows_def)
  then show ?thesis
    by (auto simp: project_def noted_def split: option.splits)
qed

lemma project_sound:
  assumes "queue_sound s d0 w"
  shows "queue_sound s d0 (with_db (project now seen delivered (wd_db w)) w)"
  using project_shape [OF queue_soundD(1) [OF assms], of now seen delivered]
proof (elim disjE exE)
  assume "project now seen delivered (wd_db w) = wd_db w"
  with assms show ?thesis by (simp add: with_db_def)
next
  fix j
  assume shape: "project now seen delivered (wd_db w) = change_rows (\<lambda>x. x = j) (noted now delivered) (wd_db w)"
  show ?thesis unfolding shape using noting.sound [OF assms refl refl] by simp
qed

lemma cancel_sound: "queue_sound s d0 w \<Longrightarrow> queue_sound s d0 (with_db (cancel_unsent owned (wd_db w)) w)"
  using cancelled.sound [OF _ refl refl, where owned = owned] by (simp add: cancel_unsent_def change_rows_def)

lemma send_step_sound:
  assumes "send_step s w w'" and sound: "queue_sound s d0 w" and s: "1 \<le> qs_max_attempts s"
  shows "queue_sound s d0 w'"
  using assms(1)
proof cases
  case enqueued
  then show ?thesis using enqueue_shape enqueued_sound [OF sound _ s] by metis
next
  case (claim lease locked now db' recovered got)
  then show ?thesis using claim_sound [OF sound] by blast
next
  case (decide k d)
  then show ?thesis using decide_sound [OF sound] by blast
next
  case (refuse k v now d db')
  then have "db' = wd_db w" using refuse_shape by blast
  then have "with_db db' w = w" by (simp add: with_db_def)
  with refuse show ?thesis using decide_sound [OF sound] by simp
next
  case (admit k v now db')
  then show ?thesis using admit_sound [OF sound] by simp
next
  case (unacknowledged k v now db')
  then show ?thesis using admit_sound [OF sound] by simp
next
  case (transport k reply now)
  then show ?thesis using transport_sound [OF sound] by blast
next
  case (report k oc now db' updates)
  then show ?thesis using report_sound [OF sound] by blast
next
  case (stop k)
  then show ?thesis using aside_sound [OF sound] by blast
next
  case (projected now seen delivered)
  then show ?thesis using project_sound [OF sound] by blast
next
  case (cancelled owned)
  then show ?thesis using cancel_sound [OF sound] by blast
qed

lemma keptD:
  "kept d0 db \<Longrightarrow> job_of d0 i = Some j \<Longrightarrow>
     \<exists>j'. job_of db i = Some j' \<and> qj_idempotency_key j' = qj_idempotency_key j
       \<and> qj_operation j' = qj_operation j
       \<and> (qj_status j \<in> {JUncertain, JSkipped, JCancelled} \<longrightarrow> qj_status j' = qj_status j)"
  unfolding kept_def by blast

lemma kept_refl [simp]: "kept db db"
  by (simp add: kept_def)

lemma idle_sound: "queue_sound s (wd_db (idle_world a)) (idle_world a)"
  by (simp add: queue_sound_def) (simp add: idle_world_def table_sound_def)

lemma send_steps_sound:
  "(send_step s)\<^sup>*\<^sup>* w w' \<Longrightarrow> queue_sound s d0 w \<Longrightarrow> 1 \<le> qs_max_attempts s \<Longrightarrow> queue_sound s d0 w'"
  by (induction rule: rtranclp_induct) (auto intro: send_step_sound)

lemma sent_reachable_steps: "sent_reachable s a w \<longleftrightarrow> (send_step s)\<^sup>*\<^sup>* (idle_world a) w"
proof
  show "sent_reachable s a w \<Longrightarrow> (send_step s)\<^sup>*\<^sup>* (idle_world a) w"
    by (induction rule: sent_reachable.induct) auto
  show "(send_step s)\<^sup>*\<^sup>* (idle_world a) w \<Longrightarrow> sent_reachable s a w"
    by (induction rule: rtranclp_induct) (auto intro: sent_reachable.intros)
qed

text \<open>Every reachable world is sound since its own state.\<close>

lemma sent_reachable_sound:
  assumes "sent_reachable s a w" and "1 \<le> qs_max_attempts s"
  shows "queue_sound s (wd_db w) w"
proof -
  have "queue_sound s (wd_db (idle_world a)) w"
    using assms send_steps_sound idle_sound by (auto simp: sent_reachable_steps)
  then show ?thesis by (simp add: queue_sound_def)
qed

end
