(* ===== verification/Delivery.thy ===== *)
theory Delivery
  imports Leases
begin

text \<open>
  What the SMS queue promises: a message that may have reached the provider is never sent again, a
  cancelled one never goes out, requests keep the pace of the account, attempts are bounded, and a key
  names one job. The promises hold in every interleaving of the workers of \<^verbatim>\<open>Senders\<close>.
\<close>

section \<open>Pace\<close>

text \<open>The account admits nothing before the last admitted request is one spacing old.\<close>

definition spent :: "queue_settings \<Rightarrow> throttle \<Rightarrow> instant \<Rightarrow> bool" where
  "spent s a t \<longleftrightarrow> (case th_next_request_at a of Some n \<Rightarrow> t + qs_spacing s \<le> n | None \<Rightarrow> False)"

definition paced :: "queue_settings \<Rightarrow> world \<Rightarrow> bool" where
  "paced s w \<longleftrightarrow>
     sorted_wrt (\<lambda>x y. x + qs_spacing s \<le> y) (wd_starts w)
     \<and> list_all (spent s (sq_throttle (wd_db w))) (wd_starts w)
     \<and> length (wd_calls w) + length (filter (\<lambda>k. wk_phase k = Admitted) (wd_workers w)) \<le> length (wd_starts w)
     \<and> length (dispatching (wd_db w)) \<le> qs_concurrency s"

definition admitted_count :: "world \<Rightarrow> nat" where
  "admitted_count w = length (filter (\<lambda>k. wk_phase k = Admitted) (wd_workers w))"

lemma admitted_count_dismiss:
  "k \<in> set (wd_workers w) \<Longrightarrow>
     admitted_count w = admitted_count (dismiss k w) + (if wk_phase k = Admitted then 1 else 0)"
proof -
  have "k \<in> set ks \<Longrightarrow> length (filter Q ks) = length (filter Q (remove1 k ks)) + (if Q k then 1 else 0)"
    for Q and ks :: "worker list"
    by (induction ks) auto
  then show "k \<in> set (wd_workers w) \<Longrightarrow> ?thesis"
    by (simp add: admitted_count_def)
qed

lemma pacedI:
  assumes "paced s w" and "wd_starts w' = wd_starts w"
    and "length (wd_calls w') + admitted_count w' \<le> length (wd_calls w) + admitted_count w"
    and "\<And>t. spent s (sq_throttle (wd_db w)) t \<Longrightarrow> spent s (sq_throttle (wd_db w')) t"
    and "length (dispatching (wd_db w')) \<le> length (dispatching (wd_db w))
      \<or> length (dispatching (wd_db w')) \<le> qs_concurrency s"
  shows "paced s w'"
  using assms by (auto simp: paced_def admitted_count_def list_all_iff)

lemma length_filter_mono: "(\<And>x. A x \<Longrightarrow> B x) \<Longrightarrow> length (filter A xs) \<le> length (filter B xs)"
  by (induction xs) auto

text \<open>What the transactions do to the account and to the number of jobs in dispatch.\<close>

lemma insert_job_pace:
  "sq_throttle (insert_job j db) = sq_throttle db"
  "qj_status j \<noteq> JDispatching \<Longrightarrow> dispatching (insert_job j db) = dispatching db"
  by (simp_all add: insert_job_def dispatching_def split: option.splits)

lemma change_rows_throttle [simp]: "sq_throttle (change_rows g f db) = sq_throttle db"
  by (simp add: change_rows_def)

lemma put_job_throttle [simp]: "sq_throttle (put_job j db) = sq_throttle db"
  by (simp add: put_job_def)

lemma dispatching_put_job:
  "table_sound db \<Longrightarrow> length (dispatching (put_job j db)) \<le> Suc (length (dispatching db))"
proof -
  have "distinct (map qj_id js) \<Longrightarrow>
      length (filter (\<lambda>x. qj_status (if qj_id x = qj_id j then j else x) = JDispatching) js)
        \<le> Suc (length (filter (\<lambda>x. qj_status x = JDispatching) js))" for js
  proof (induction js)
    case Nil
    then show ?case by simp
  next
    case (Cons x js)
    have "qj_id y \<noteq> qj_id x" if "y \<in> set js" for y
      using Cons.prems that by (metis distinct.simps(2) image_eqI list.simps(9) set_map)
    then have "filter (\<lambda>y. qj_status (if qj_id y = qj_id j then j else y) = JDispatching) js
        = filter (\<lambda>y. qj_status y = JDispatching) js" if "qj_id x = qj_id j"
      by (intro filter_cong) (use that in auto)
    with Cons show ?case by auto
  qed
  then show "table_sound db \<Longrightarrow> ?thesis"
    by (simp add: table_sound_def dispatching_def put_job_def filter_map comp_def)
qed

lemma recover_pace:
  assumes "table_sound db" and "recover s locked now db = (db', R)"
  shows "sq_throttle db' = sq_throttle db" "length (dispatching db') \<le> length (dispatching db)"
    "table_sound db'"
  unfolding recover_shape [OF assms]
  using recovered.dispatching_le recovered.table [OF assms(1)] by simp_all

lemma claim_pace:
  assumes "table_sound db" and "claim_next s locked now lease db = (db', R, got)"
  shows "sq_throttle db' = sq_throttle db"
    "length (dispatching db') \<le> length (dispatching db) \<or> length (dispatching db') \<le> qs_concurrency s"
proof -
  obtain db1 R1 where rec: "recover s locked now db = (db1, R1)" by fastforce
  note r = recover_pace [OF assms(1) rec]
  show "sq_throttle db' = sq_throttle db"
    using assms(2) r(1) by (auto simp: claim_next_def rec Let_def split: if_splits option.splits)
  show "length (dispatching db') \<le> length (dispatching db) \<or> length (dispatching db') \<le> qs_concurrency s"
    using assms(2) r(2) dispatching_put_job [OF r(3)]
    by (auto simp: claim_next_def rec Let_def split: if_splits option.splits)
      (meson Suc_leI le_trans not_less)
qed

lemma outcome_throttle_spent: "spent s a t \<Longrightarrow> spent s (outcome_throttle s now oc j a) t"
  by (auto simp: spent_def outcome_throttle_def Let_def or_time_def split: outcome.splits option.splits)

lemma finish_pace:
  assumes table: "table_sound db" and finish: "finish s now i lease oc db = (db', updates)"
  shows "spent s (sq_throttle db) t \<Longrightarrow> spent s (sq_throttle db') t"
    "length (dispatching db') \<le> length (dispatching db)"
proof -
  have "(spent s (sq_throttle db) t \<longrightarrow> spent s (sq_throttle db') t)
      \<and> length (dispatching db') \<le> length (dispatching db)"
  proof (cases "job_of db i")
    case None
    with finish show ?thesis by (simp add: finish_def)
  next
    case (Some j)
    let ?a = "outcome_throttle s now oc j (sq_throttle db)"
    let ?db1 = "put_job (outcome_job s now oc j) (db\<lparr>sq_throttle := ?a\<rparr>)"
    have row: "j \<in> set (sq_jobs (db\<lparr>sq_throttle := ?a\<rparr>))"
      using Some by (simp add: job_of_iff [OF table])
    have d1: "length (dispatching ?db1) \<le> length (dispatching db)"
      unfolding put_job_change [OF iffD2 [OF sq_jobs_simps(3) table] row outcome_job_same(1)]
      by (simp add: dispatching_def change_rows_def filter_map comp_def)
        (rule length_filter_mono, simp add: outcome_job_settles split: if_splits)
    have "length (dispatching (fst (receive_reports now statuses ?db1))) \<le> length (dispatching ?db1)" for statuses
      unfolding receive_reports_shape by (rule reports.dispatching_le)
    moreover have "sq_throttle (fst (receive_reports now statuses ?db1)) = ?a" for statuses
      unfolding receive_reports_shape by simp
    ultimately show ?thesis
      using finish_shape [OF finish Some] d1 outcome_throttle_spent [of s "sq_throttle db" t now oc j]
      by (auto intro: le_trans)
  qed
  then show "spent s (sq_throttle db) t \<Longrightarrow> spent s (sq_throttle db') t"
    "length (dispatching db') \<le> length (dispatching db)" by blast+
qed

lemma move_pace:
  "k \<in> set (wd_workers w) \<Longrightarrow> wk_phase k \<noteq> Admitted \<Longrightarrow>
     admitted_count (move k ph w) = admitted_count w + (if ph = Admitted then 1 else 0)"
  using admitted_count_dismiss [of k w] unfolding move_as_add by (simp add: admitted_count_def)

lemma move_simps [simp]:
  "wd_db (move k ph w) = wd_db w" "wd_calls (move k ph w) = wd_calls w" "wd_starts (move k ph w) = wd_starts w"
  by (simp_all add: move_def)

lemma hire_simps [simp]:
  "wd_db (hire l got w) = wd_db w" "wd_calls (hire l got w) = wd_calls w" "wd_starts (hire l got w) = wd_starts w"
  "admitted_count (hire l got w) = admitted_count w"
  by (simp_all add: hire_def admitted_count_def split: option.splits)

lemma admitted_count_with_db [simp]: "admitted_count (with_db db w) = admitted_count w"
  by (simp add: admitted_count_def)

lemma ready_spent: "ready_at a now \<le> now \<Longrightarrow> spent s a t \<Longrightarrow> t + qs_spacing s \<le> now"
  by (auto simp: ready_at_def spent_def split: option.splits)

lemma admission_needs_pace: "admission_refusal s v now lease j db = None \<Longrightarrow> ready_at (sq_throttle db) now \<le> now"
  by (auto simp: admission_refusal_def split: if_splits)

lemma admission_paced:
  assumes paced: "paced s w" and table: "table_sound (wd_db w)" and s: "0 < qs_spacing s"
    and k: "k \<in> set (wd_workers w)" "wk_phase k = Claimed"
    and admit: "admit_transport s v now (qj_id (wk_job k)) (wk_lease k) (wd_db w) = (None, db')"
  shows "paced s (started now (move k ph (with_db db' w)))"
proof -
  let ?i = "qj_id (wk_job k)" and ?l = "wk_lease k"
  let ?a = "(sq_throttle (wd_db w))\<lparr>th_next_request_at := Some (now + qs_spacing s)\<rparr>"
  let ?db = "(wd_db w)\<lparr>sq_throttle := ?a\<rparr>"
  obtain j where j: "job_of (wd_db w) ?i = Some j" "admission_refusal s v now ?l j (wd_db w) = None"
    and db': "db' = put_job (admitted_job v now j) ?db"
    using admit_shape [OF admit] by blast
  have before: "t + qs_spacing s \<le> now" if "t \<in> set (wd_starts w)" for t
    using ready_spent [OF admission_needs_pace [OF j(2)]] paced that by (auto simp: paced_def list_all_iff)
  have table': "table_sound ?db" and job: "job_of ?db ?i = Some j"
    using table j(1) by simp_all
  have dispatching: "length (dispatching db') \<le> length (dispatching (wd_db w))"
    unfolding db' put_job_guarded [where Q = "\<lambda>x. holds_lease x ?l", OF table' job admitted_job_same(1) admission_needs_lease [OF j(2)]]
    using admitting.dispatching_le [of j ?l v now ?db] by (simp add: dispatching_def)
  have "spent s ?a t" if "t \<in> insert now (set (wd_starts w))" for t
    using that before [of t] s by (auto simp: spent_def)
  moreover have "length (wd_calls w) + admitted_count w \<le> length (wd_starts w)"
    using paced by (simp add: paced_def admitted_count_def)
  ultimately show ?thesis
    using paced before dispatching move_pace [of k "with_db db' w" ph] k
    by (auto simp: paced_def started_def admitted_count_def db' sorted_wrt_append list_all_iff)
qed

lemma send_step_paced:
  assumes "send_step s w w'" and paced: "paced s w" and table: "table_sound (wd_db w)" and s: "0 < qs_spacing s"
  shows "paced s w'"
  using assms(1)
proof cases
  case enqueued
  then obtain j where j: "wd_db w' = insert_job j (wd_db w)" "qj_status j = JQueued" and w': "w' = with_db (wd_db w') w"
    using enqueue_shape by (fastforce simp: new_job_def)
  show ?thesis
    by (subst w', rule pacedI [OF paced]) (simp_all add: j(1) insert_job_pace j(2))
next
  case (claim lease locked now db' recovered got)
  with claim_pace [OF table claim(3)] show ?thesis
    by (intro pacedI [OF paced]) simp_all
next
  case (decide k d)
  then show ?thesis using move_pace by (intro pacedI [OF paced]) simp_all
next
  case (refuse k v now d db')
  then have "db' = wd_db w" using refuse_shape by blast
  with refuse show ?thesis using move_pace [of k "with_db db' w"] by (intro pacedI [OF paced]) simp_all
next
  case (admit k v now db')
  then show ?thesis using admission_paced [OF paced table s] by blast
next
  case (unacknowledged k v now db')
  then show ?thesis using admission_paced [OF paced table s] by blast
next
  case (transport k reply now)
  have "length (wd_calls w') + admitted_count w' \<le> length (wd_calls w) + admitted_count w"
    using admitted_count_dismiss [OF transport(2)] transport(3)
    unfolding transport(1) called_as_asked by (simp add: admitted_count_def asked_def)
  moreover have "wd_db w' = wd_db w" "wd_starts w' = wd_starts w"
    unfolding transport(1) called_as_asked by simp_all
  ultimately show ?thesis by (intro pacedI [OF paced]) simp_all
next
  case (report k oc now db' updates)
  have "admitted_count w' \<le> admitted_count w"
    using admitted_count_dismiss [of k "with_db db' w"] report by simp
  with report finish_pace [OF table report(4)] show ?thesis
    by (intro pacedI [OF paced]) simp_all
next
  case (stop k)
  then show ?thesis using admitted_count_dismiss [of k w] by (intro pacedI [OF paced]) simp_all
next
  case (projected now seen delivered)
  then show ?thesis
    using project_shape [OF table, of now seen delivered] noting.dispatching_le
    by (intro pacedI [OF paced]) auto
next
  case (cancelled owned)
  have "cancel_unsent owned (wd_db w) = change_rows (\<lambda>j. unsent j \<and> owned (qj_id j)) cancel_job (wd_db w)"
    by (simp add: cancel_unsent_def change_rows_def)
  then show ?thesis
    unfolding cancelled using cancelled.dispatching_le [of owned "wd_db w"]
    by (intro pacedI [OF paced]) simp_all
qed

lemma valid_settings_positive:
  "valid_settings s \<Longrightarrow> 1 \<le> qs_max_attempts s" "valid_settings s \<Longrightarrow> 0 < qs_spacing s"
  by (simp_all add: valid_settings_def)

lemma sent_reachable_paced:
  assumes "sent_reachable s a w" and "valid_settings s"
  shows "paced s w"
  using assms(1)
proof induction
  case start
  show ?case by (simp add: paced_def idle_world_def dispatching_def)
next
  case (later w w')
  note s = valid_settings_positive [OF assms(2)]
  show ?case
    by (rule send_step_paced [OF later.hyps(2) later.IH _ s(2)])
      (rule queue_soundD(1) [OF sent_reachable_sound [OF later.hyps(1) s(1)]])
qed

section \<open>A job at rest\<close>

lemma calls_step:
  assumes "send_step s w w'" and "pending_calls w i = 0"
  shows "calls_of w' i = calls_of w i"
  using assms(1)
proof cases
  case (transport k reply now)
  have "qj_id (wk_job k) \<noteq> i"
    using pending_dismiss [OF transport(2), of i] assms(2) transport(3) by auto
  then show ?thesis
    unfolding transport(1) called_as_asked by (simp add: calls_asked calls_dismiss split: option.splits)
qed (simp_all add: calls_of_def started_def dismiss_def move_def)

lemma withdrawn_stays:
  assumes "(send_step s)\<^sup>*\<^sup>* w w'" and "queue_sound s (wd_db w) w" and s: "1 \<le> qs_max_attempts s"
    and j: "job_of (wd_db w) i = Some j" "qj_operation j = Send_op" "qj_status j \<in> {JSkipped, JCancelled}"
  shows "calls_of w' i = calls_of w i
    \<and> (\<exists>j'. job_of (wd_db w') i = Some j' \<and> qj_status j' = qj_status j
          \<and> repeatable (calls_of w' i) (pending_calls w' i))"
proof -
  have now: "\<exists>j'. job_of (wd_db w') i = Some j' \<and> qj_status j' = qj_status j
      \<and> repeatable (calls_of w' i) (pending_calls w' i)" if "(send_step s)\<^sup>*\<^sup>* w w'" for w'
  proof -
    have sound: "queue_sound s (wd_db w) w'"
      using send_steps_sound [OF that assms(2) s] .
    obtain j' where j': "job_of (wd_db w') i = Some j'" "qj_operation j' = qj_operation j" "qj_status j' = qj_status j"
      using keptD [OF queue_soundD(6) [OF sound] j(1)] j(3) by auto
    have "repeatable (calls_of w' i) (pending_calls w' i)"
      using queue_sound_jobs [OF sound j'(1)] j' j(2,3) by (auto simp: job_fits_def)
    with j' show ?thesis by blast
  qed
  have "calls_of w' i = calls_of w i" using assms(1)
  proof (induction rule: rtranclp_induct)
    case base
    show ?case by simp
  next
    case (step w1 w2)
    from now [OF step.hyps(1)] have "pending_calls w1 i = 0" by (auto simp: repeatable_def)
    with step calls_step show ?case by simp
  qed
  with now [OF assms(1)] show ?thesis by blast
qed

section \<open>A key names one job\<close>

lemma raw_key_given: "given = Some k \<Longrightarrow> k \<noteq> [] \<Longrightarrow> raw_key operation context given random_key = k"
  by (simp add: raw_key_def truthy_text_def)

lemma enqueue_result:
  assumes "enqueue s otps db now i random_key operation p priority context (Some k) expires_at = Inr (db', j)"
    and "k \<noteq> []"
  shows "job_with_key db' (idempotency_key s k) = Some j"
    "job_with_key db (idempotency_key s k) \<noteq> None \<Longrightarrow> db' = db"
  using assms
  by (auto simp: enqueue_def Let_def raw_key_given insert_job_def new_job_def split: sum.splits option.splits)

lemma job_with_key_iff:
  "table_sound db \<Longrightarrow> job_with_key db key = Some j \<longleftrightarrow> j \<in> set (sq_jobs db) \<and> qj_idempotency_key j = key"
  by (simp add: job_with_key_def table_sound_def find_by_key)

section \<open>A schedule\<close>

text \<open>
  Runs of the queue that can be evaluated: a schedule names the next transaction, and the worker that
  acts is the one that acted last.
\<close>

datatype action =
    Put instant string operation payload sms_context string
  | Take instant string
  | Admit instant
  | Ask instant http_reply
  | Tell instant
  | Note instant string
  | Withdraw string
  | Crash

definition acting :: "world \<Rightarrow> (worker \<Rightarrow> world option) \<Rightarrow> world option" where
  "acting w f = (case wd_workers w of [] \<Rightarrow> None | k # _ \<Rightarrow> f k)"

fun obey :: "queue_settings \<Rightarrow> admission_env \<Rightarrow> action \<Rightarrow> world \<Rightarrow> world option" where
  "obey s v (Put now i operation p context key) w =
     (if job_of (wd_db w) i = None
      then (case enqueue s [] (wd_db w) now i [] operation p 10 context (Some key) None of
              Inl _ \<Rightarrow> None | Inr (db, _) \<Rightarrow> Some (with_db db w))
      else None)"
| "obey s v (Take now lease) w =
     (if fresh_lease lease w
      then (case claim_next s (\<lambda>_. False) now lease (wd_db w) of (db, _, got) \<Rightarrow> Some (hire lease got (with_db db w)))
      else None)"
| "obey s v (Admit now) w = acting w (\<lambda>k.
     if wk_phase k = Claimed
     then (case admit_transport s v now (qj_id (wk_job k)) (wk_lease k) (wd_db w) of
             (None, db) \<Rightarrow> Some (started now (move k Admitted (with_db db w)))
           | (Some d, db) \<Rightarrow> Some (move k (Reporting (Decided d)) (with_db db w)))
     else None)"
| "obey s v (Ask now reply) w = acting w (\<lambda>k.
     if wk_phase k = Admitted
     then Some (called s (wk_job k) reply (move k (Reporting (transport_outcome s now (wk_job k) reply)) w))
     else None)"
| "obey s v (Tell now) w = acting w (\<lambda>k.
     case wk_phase k of
       Reporting oc \<Rightarrow>
         (case finish s now (qj_id (wk_job k)) (wk_lease k) oc (wd_db w) of
            (db, _) \<Rightarrow> Some (dismiss k (with_db db w)))
     | _ \<Rightarrow> None)"
| "obey s v (Note now i) w =
     (case job_of (wd_db w) i of
        None \<Rightarrow> None | Some j \<Rightarrow> Some (with_db (project now j True (wd_db w)) w))"
| "obey s v (Withdraw i) w = Some (with_db (cancel_unsent (\<lambda>x. x = i) (wd_db w)) w)"
| "obey s v Crash w = acting w (\<lambda>k. Some (dismiss k w))"

fun obey_all :: "queue_settings \<Rightarrow> admission_env \<Rightarrow> action list \<Rightarrow> world \<Rightarrow> world option" where
  "obey_all s v [] w = Some w"
| "obey_all s v (x # xs) w = (case obey s v x w of None \<Rightarrow> None | Some w \<Rightarrow> obey_all s v xs w)"

lemma acting_Some: "acting w f = Some w' \<Longrightarrow> \<exists>k. k \<in> set (wd_workers w) \<and> f k = Some w'"
  by (auto simp: acting_def split: list.splits)

lemma obey_step: "obey s v x w = Some w' \<Longrightarrow> send_step s w w'"
  by (cases x)
    (auto split: if_splits sum.splits prod.splits option.splits phase.splits dest!: acting_Some
      intro: send_step.intros)

lemma obey_all_steps: "obey_all s v xs w = Some w' \<Longrightarrow> (send_step s)\<^sup>*\<^sup>* w w'"
  by (induction xs arbitrary: w)
    (auto split: option.splits dest!: obey_step intro: converse_rtranclp_into_rtranclp)

definition demo_sms :: queue_settings where
  "demo_sms = \<lparr>qs_account_key = ''primary'', qs_digest = (\<lambda>x. x), qs_token = Some ''t'', qs_spacing = 125000,
     qs_poll = 100000, qs_concurrency = 2, qs_max_attempts = 5, qs_retry_base = 1000000,
     qs_retry_max = 60000000, qs_lease = 30000000, qs_ttl = 86400000000, qs_uniform = (\<lambda>a b. b)\<rparr>"

definition demo_gates :: admission_env where
  "demo_gates = \<lparr>ae_salon = empty_salon, ae_otps = [], ae_campaign_of = (\<lambda>_. None),
     ae_campaign_gate = (\<lambda>_ _. skip_because ''no campaign'')\<rparr>"

definition no_context :: sms_context where
  "no_context = \<lparr>cx_recipient_id = None, cx_run_id = None, cx_campaign_id = None, cx_customer_id = None,
     cx_waitlist_offer_id = None, cx_safe_body = None, cx_priority = None, cx_idempotency_key = None,
     cx_enqueue_only = None, cx_otp_record_id = None\<rparr>"

definition demo_message :: payload where
  "demo_message = [(''phone'', Texts [''380671234567'']), (''message'', Text ''hi'')]"

definition demo_confirmation :: http_reply where
  "demo_confirmation =
     Http_ok (JObj [(''success_request'', JObj [(''info'', JObj [(''7'', JStr ''380671234567'')])])])"

text \<open>A first attempt meets the rate limit, the second one is accepted.\<close>

definition demo_sending :: "action list" where
  "demo_sending = [Put 0 ''j'' Send_op demo_message no_context ''k'', Take 1 ''l1'', Admit 2,
     Ask 3 (Http_error 429 (Some (Header_seconds 2000000))), Tell 4, Note 5 ''j'', Take 3000000 ''l2'',
     Admit 3000001, Ask 3000002 demo_confirmation, Tell 3000003]"

text \<open>A message withdrawn while a worker was about to send it.\<close>

definition demo_withdrawal :: "action list" where
  "demo_withdrawal = [Put 0 ''j'' Send_op demo_message no_context ''k'', Take 1 ''l1'', Withdraw ''j'']"

definition demo_put :: "world \<Rightarrow> instant \<Rightarrow> string \<Rightarrow> string + (sms_db \<times> queue_job)" where
  "demo_put w now i =
     enqueue demo_sms [] (wd_db w) now i [] Send_op demo_message 10 no_context (Some ''k'') None"

definition idle_throttle :: throttle where
  "idle_throttle = \<lparr>th_next_request_at = None, th_cooldown_until = None\<rparr>"

lemma demo_sms_valid: "valid_settings demo_sms"
  by code_simp

lemma obey_all_reachable: "obey_all s v xs (idle_world a) = Some w \<Longrightarrow> sent_reachable s a w"
  by (simp add: sent_reachable_steps obey_all_steps)

section \<open>Promises\<close>

text \<open>C3: A message is never repeated once it may have been accepted: of all the requests that any
  workers ever made for one send job, in any interleaving, with crashes, lost leases and lost commit
  acknowledgements, every one but the last was turned away by the provider's rate limit.\<close>

theorem text_never_repeated:
  assumes "sent_reachable s a w" and "valid_settings s"
    and "job_of (wd_db w) i = Some j" and "qj_operation j = Send_op"
  shows "turned_away (butlast (calls_of w i))"
proof -
  have "sent_once (calls_of w i) (pending_calls w i)"
    using queue_sound_jobs [OF sent_reachable_sound [OF assms(1)] assms(3)] assms(4)
      valid_settings_positive [OF assms(2)] by (simp add: job_fits_def)
  then show ?thesis
    by (auto simp: sent_once_def turned_away_def list_all_iff dest: in_set_butlastD)
qed

theorem text_never_repeated_witness:
  "case obey_all demo_sms demo_gates demo_sending (idle_world idle_throttle) of
     Some w \<Rightarrow> length (calls_of w ''j'') = 2 \<and> turned_away (butlast (calls_of w ''j''))
   | None \<Rightarrow> False"
proof -
  define run where "run = obey_all demo_sms demo_gates demo_sending (idle_world idle_throttle)"
  have ran: "case run of
      Some w \<Rightarrow> length (calls_of w ''j'') = 2 \<and> map_option qj_operation (job_of (wd_db w) ''j'') = Some Send_op
    | None \<Rightarrow> False"
    unfolding run_def by code_simp
  then obtain w j where w: "run = Some w" "length (calls_of w ''j'') = 2" "job_of (wd_db w) ''j'' = Some j"
      "qj_operation j = Send_op"
    by (auto split: option.splits)
  show ?thesis
    unfolding run_def [symmetric]
    using text_never_repeated [OF obey_all_reachable [OF w(1) [unfolded run_def]] demo_sms_valid w(3,4)] w(1,2)
    by simp
qed

text \<open>C10: A send that has been cancelled or skipped stays so and is never handed to the provider
  afterwards, and nothing the provider saw of it before was accepted.\<close>

theorem withdrawn_text_never_goes_out:
  assumes "sent_reachable s a w" and "valid_settings s"
    and "job_of (wd_db w) i = Some j" and "qj_operation j = Send_op" and "qj_status j \<in> {JSkipped, JCancelled}"
    and "(send_step s)\<^sup>*\<^sup>* w w'"
  shows "calls_of w' i = calls_of w i \<and> turned_away (calls_of w' i)
    \<and> map_option qj_status (job_of (wd_db w') i) = Some (qj_status j)"
proof -
  note s = valid_settings_positive(1) [OF assms(2)]
  show ?thesis
    using withdrawn_stays [OF assms(6) sent_reachable_sound [OF assms(1) s] s assms(3,4,5)]
    by (auto simp: repeatable_def)
qed

theorem withdrawn_text_never_goes_out_witness:
  "case obey_all demo_sms demo_gates demo_withdrawal (idle_world idle_throttle) of
     None \<Rightarrow> False
   | Some w \<Rightarrow>
       (case obey_all demo_sms demo_gates [Admit 3, Tell 4, Take 5 ''l2''] w of
          None \<Rightarrow> False
        | Some w' \<Rightarrow> calls_of w' ''j'' = calls_of w ''j'' \<and> turned_away (calls_of w' ''j'')
            \<and> map_option qj_status (job_of (wd_db w') ''j'') = Some JCancelled)"
proof -
  define run where "run = obey_all demo_sms demo_gates demo_withdrawal (idle_world idle_throttle)"
  define rest where "rest = obey_all demo_sms demo_gates [Admit 3, Tell 4, Take 5 ''l2'']"
  have ran: "case run of
      None \<Rightarrow> False
    | Some w \<Rightarrow>
        (case job_of (wd_db w) ''j'' of
           None \<Rightarrow> False | Some j \<Rightarrow> qj_operation j = Send_op \<and> qj_status j = JCancelled)
        \<and> rest w \<noteq> None"
    unfolding run_def rest_def by code_simp
  then obtain w j w' where w: "run = Some w" "job_of (wd_db w) ''j'' = Some j" "qj_operation j = Send_op"
      "qj_status j = JCancelled" "rest w = Some w'"
    by (auto split: option.splits)
  show ?thesis
    unfolding run_def [symmetric] rest_def [symmetric]
    using withdrawn_text_never_goes_out [OF obey_all_reachable [OF w(1) [unfolded run_def]] demo_sms_valid
        w(2,3) _ obey_all_steps [OF w(5) [unfolded rest_def]]] w(1,4,5)
    by auto
qed

text \<open>C34: Requests keep the pace of the account, whatever clocks the workers read: admissions are at
  least one spacing apart, no request is made without an admission of its own, and the number of jobs
  in dispatch never exceeds the configured concurrency.\<close>

theorem requests_paced:
  assumes "sent_reachable s a w" and "valid_settings s"
  shows "sorted_wrt (\<lambda>x y. x + qs_spacing s \<le> y) (wd_starts w)
    \<and> length (wd_calls w) \<le> length (wd_starts w) \<and> length (dispatching (wd_db w)) \<le> qs_concurrency s"
  using sent_reachable_paced [OF assms] by (simp add: paced_def)

theorem requests_paced_witness:
  "case obey_all demo_sms demo_gates demo_sending (idle_world idle_throttle) of
     Some w \<Rightarrow> length (wd_starts w) = 2 \<and> sorted_wrt (\<lambda>x y. x + 125000 \<le> y) (wd_starts w)
   | None \<Rightarrow> False"
proof -
  define run where "run = obey_all demo_sms demo_gates demo_sending (idle_world idle_throttle)"
  have ran: "case run of Some w \<Rightarrow> length (wd_starts w) = 2 | None \<Rightarrow> False"
    unfolding run_def by code_simp
  then obtain w where w: "run = Some w" "length (wd_starts w) = 2"
    by (auto split: option.splits)
  have "qs_spacing demo_sms = 125000" by (simp add: demo_sms_def)
  then show ?thesis
    unfolding run_def [symmetric]
    using requests_paced [OF obey_all_reachable [OF w(1) [unfolded run_def]] demo_sms_valid] w
    by simp
qed

text \<open>C35: For no job, send or status query, is the provider asked more often than the job has attempts, which
  never exceed the configured number, and the payload of a job that has ended, with the phone number and
  the message sent, is empty. The context of the job is not covered: the text of an offer's message with
  its link replaced stays there.\<close>

theorem attempts_bounded:
  assumes "sent_reachable s a w" and "valid_settings s" and "job_of (wd_db w) i = Some j"
  shows "int (length (calls_of w i)) \<le> qj_attempts j \<and> qj_attempts j \<le> qs_max_attempts s
    \<and> (terminal (qj_status j) \<longrightarrow> qj_payload j = [])"
  using queue_sound_jobs [OF sent_reachable_sound [OF assms(1)] assms(3)]
    valid_settings_positive [OF assms(2)] by (simp add: job_fits_def)

theorem attempts_bounded_witness:
  "case obey_all demo_sms demo_gates demo_sending (idle_world idle_throttle) of
     None \<Rightarrow> False
   | Some w \<Rightarrow>
       (case job_of (wd_db w) ''j'' of
          None \<Rightarrow> False
        | Some j \<Rightarrow> length (calls_of w ''j'') = 2 \<and> 2 \<le> qj_attempts j \<and> qj_attempts j \<le> 5 \<and> qj_payload j = [])"
proof -
  define run where "run = obey_all demo_sms demo_gates demo_sending (idle_world idle_throttle)"
  have ran: "case run of
      None \<Rightarrow> False
    | Some w \<Rightarrow> length (calls_of w ''j'') = 2
        \<and> map_option qj_status (job_of (wd_db w) ''j'') = Some JAccepted"
    unfolding run_def by code_simp
  then obtain w j where w: "run = Some w" "length (calls_of w ''j'') = 2" "job_of (wd_db w) ''j'' = Some j"
      "qj_status j = JAccepted"
    by (auto split: option.splits)
  have "qs_max_attempts demo_sms = 5" by (simp add: demo_sms_def)
  then show ?thesis
    unfolding run_def [symmetric]
    using attempts_bounded [OF obey_all_reachable [OF w(1) [unfolded run_def]] demo_sms_valid w(3)] w
    by (simp add: terminal_iff)
qed

text \<open>C36: A key names one job for good: however the queue has moved on since a request was enqueued
  under a key, enqueueing under that key again changes nothing and answers with the same job.\<close>

theorem key_names_one_job:
  assumes "sent_reachable s a w" and "valid_settings s" and "k \<noteq> []"
    and "job_of (wd_db w) i = None"
    and "enqueue s otps (wd_db w) now i random_key operation p priority context (Some k) expires_at = Inr (db, j)"
    and "(send_step s)\<^sup>*\<^sup>* (with_db db w) w'"
    and "enqueue s otps' (wd_db w') now' i' random_key' operation' p' priority' context' (Some k) expires_at'
           = Inr (db', j')"
  shows "db' = wd_db w' \<and> qj_id j' = qj_id j"
proof -
  note s = valid_settings_positive(1) [OF assms(2)]
  have "sent_reachable s a (with_db db w)"
    using assms(1,4,5) by (blast intro: sent_reachable.later send_step.enqueued)
  then have sound: "queue_sound s db (with_db db w)"
    using sent_reachable_sound [OF _ s] by fastforce
  then have sound': "queue_sound s db w'"
    by (rule send_steps_sound [OF assms(6) _ s])
  have "j \<in> set (sq_jobs db)" and key: "qj_idempotency_key j = idempotency_key s k"
    using enqueue_result(1) [OF assms(5,3)] queue_soundD(1) [OF sound] by (simp_all add: job_with_key_iff)
  then have "job_of db (qj_id j) = Some j"
    using queue_soundD(1) [OF sound] by (simp add: job_of_iff)
  then obtain x where x: "job_of (wd_db w') (qj_id j) = Some x" "qj_idempotency_key x = idempotency_key s k"
    using keptD [OF queue_soundD(6) [OF sound']] key by metis
  then have found: "job_with_key (wd_db w') (idempotency_key s k) = Some x"
    using queue_soundD(1) [OF sound'] by (simp add: job_with_key_iff job_of_iff)
  then have "db' = wd_db w'" using enqueue_result(2) [OF assms(7,3)] by simp
  moreover from this have "j' = x" using enqueue_result(1) [OF assms(7,3)] found by simp
  ultimately show ?thesis
    using x(1) queue_soundD(1) [OF sound'] by (simp add: job_of_iff)
qed

theorem key_names_one_job_witness:
  "case demo_put (idle_world idle_throttle) 0 ''j'' of
     Inl _ \<Rightarrow> False
   | Inr (db, j) \<Rightarrow>
       (case obey_all demo_sms demo_gates (tl demo_sending) (with_db db (idle_world idle_throttle)) of
          None \<Rightarrow> False
        | Some w \<Rightarrow>
            (case demo_put w 9000000 ''j2'' of
               Inl _ \<Rightarrow> False | Inr (db', j') \<Rightarrow> db' = wd_db w \<and> qj_id j' = qj_id j))"
proof -
  let ?w = "idle_world idle_throttle"
  define first where "first = demo_put ?w 0 ''j''"
  have ran: "case first of
      Inl _ \<Rightarrow> False
    | Inr (db, j) \<Rightarrow>
        (case obey_all demo_sms demo_gates (tl demo_sending) (with_db db ?w) of
           None \<Rightarrow> False
         | Some w \<Rightarrow> (case demo_put w 9000000 ''j2'' of Inl _ \<Rightarrow> False | Inr _ \<Rightarrow> True))"
    unfolding first_def by code_simp
  then obtain db j w where first: "first = Inr (db, j)"
      and run: "obey_all demo_sms demo_gates (tl demo_sending) (with_db db ?w) = Some w"
      and ok: "\<And>e. demo_put w 9000000 ''j2'' \<noteq> Inl e"
    by (auto split: sum.splits prod.splits option.splits)
  obtain db' j' where again: "demo_put w 9000000 ''j2'' = Inr (db', j')"
    using ok by (cases "demo_put w 9000000 ''j2''") auto
  have "job_of (wd_db ?w) ''j'' = None" by (simp add: idle_world_def job_of_def)
  from key_names_one_job [OF sent_reachable.start demo_sms_valid _ this first [unfolded first_def demo_put_def]
      obey_all_steps [OF run] again [unfolded demo_put_def]]
  show ?thesis
    unfolding first_def [symmetric] by (simp add: first run again)
qed

end
