(* ===== verification/Accounts.thy ===== *)
theory Accounts
  imports Delivery Bookings
begin

text \<open>
  Customer accounts in \<^verbatim>\<open>app/services/customer_auth.py\<close> and
  \<^verbatim>\<open>app/api/v1/routes/customers.py\<close>: one-time codes by SMS, signing in, changing the verified
  phone, session tokens (\<^verbatim>\<open>app/utils/customer_sessions.py\<close>,
  \<^verbatim>\<open>app/dependencies/auth.py\<close>) and the administration of customers. Birthday, notes and the
  import flag of a customer are display-only and left out.
\<close>

section \<open>State\<close>

text \<open>
  The columns of \<open>customers\<close> that only sessions use are kept by the customer's id beside the rows of
  the salon; a customer without an entry has their defaults. \<open>ac_sequence\<close> is the next value of the
  sequence behind \<open>customers.id\<close>, which deletions do not turn back.
\<close>

record session_columns =
  se_phone_verified_at :: "instant option"
  se_last_login_at :: "instant option"
  se_version :: int
  se_retained_hash :: "string option"

record accounts =
  ac_salon :: salon
  ac_sequence :: int
  ac_otps :: "otp_code table"
  ac_sessions :: "session_columns table"

definition no_session :: session_columns where
  "no_session = \<lparr>se_phone_verified_at = None, se_last_login_at = None, se_version = 0, se_retained_hash = None\<rparr>"

definition session_of :: "accounts \<Rightarrow> int \<Rightarrow> session_columns" where
  "session_of a i = (case get (ac_sessions a) i of Some v \<Rightarrow> v | None \<Rightarrow> no_session)"

definition put_session :: "int \<Rightarrow> session_columns \<Rightarrow> accounts \<Rightarrow> accounts" where
  "put_session i v a = a\<lparr>ac_sessions := put i v (ac_sessions a)\<rparr>"

definition put_otp :: "otp_code \<Rightarrow> accounts \<Rightarrow> accounts" where
  "put_otp c a = a\<lparr>ac_otps := put (oc_id c) c (ac_otps a)\<rparr>"

definition with_salon :: "salon \<Rightarrow> accounts \<Rightarrow> accounts" where
  "with_salon db a = a\<lparr>ac_salon := db\<rparr>"

definition next_customer_id :: "accounts \<Rightarrow> int" where
  "next_customer_id a = max (ac_sequence a) (next_id (customers (ac_salon a)))"

text \<open>A customer is inserted under the next value of the sequence.\<close>

definition insert_customer :: "customer \<Rightarrow> session_columns \<Rightarrow> accounts \<Rightarrow> accounts" where
  "insert_customer c v a =
     (let db = ac_salon a
      in put_session (cu_id c) v
           (with_salon (db\<lparr>customers := put (cu_id c) c (customers db)\<rparr>) a)\<lparr>ac_sequence := cu_id c + 1\<rparr>)"

text \<open>
  The claims of a decoded token. An absent session version counts as 0; \<open>cl_version\<close> is None when the
  claim is not an integer.
\<close>

record claims =
  cl_sub :: "string option"
  cl_scope :: "string option"
  cl_version :: "int option"

text \<open>
  The keyed digest of a code, the digest of a token, and the signed tokens are functions of the
  environment: \<open>au_issue now id version jti\<close> is the token, \<open>au_decode now token\<close> its claims unless the
  signature or the expiry is wrong. \<open>au_delivery\<close> is false in production without an SMS provider.
\<close>

record auth_env =
  au_delivery :: bool
  au_ttl :: int
  au_resend :: int
  au_max_sends :: int
  au_max_attempts :: int
  au_hash :: "string \<Rightarrow> string \<Rightarrow> string"
  au_token_hash :: "string \<Rightarrow> string"
  au_issue :: "instant \<Rightarrow> int \<Rightarrow> int \<Rightarrow> string \<Rightarrow> string"
  au_decode :: "instant \<Rightarrow> string \<Rightarrow> claims option"

section \<open>Tokens\<close>

definition issue_access_token :: "auth_env \<Rightarrow> instant \<Rightarrow> accounts \<Rightarrow> customer \<Rightarrow> string \<Rightarrow> string" where
  "issue_access_token v now a c jti = au_issue v now (cu_id c) (se_version (session_of a (cu_id c))) jti"

definition customer_token_allowed :: "auth_env \<Rightarrow> instant \<Rightarrow> accounts \<Rightarrow> customer \<Rightarrow> string \<Rightarrow> bool" where
  "customer_token_allowed v now a c token =
     (case au_decode v now token of
        None \<Rightarrow> False
      | Some p \<Rightarrow>
          if cl_scope p \<noteq> Some ''customer'' \<or> cl_sub p \<noteq> Some (show_int (cu_id c)) then False
          else (case cl_version p of
                  None \<Rightarrow> False
                | Some version \<Rightarrow>
                    version = se_version (session_of a (cu_id c))
                    \<or> se_retained_hash (session_of a (cu_id c)) = Some (au_token_hash v token)))"

definition credentials_exception :: "'a result" where
  "credentials_exception = Inl (HTTPException 401 ''Could not validate credentials'')"

text \<open>\<open>get_current_customer\<close>.\<close>

definition current_customer :: "auth_env \<Rightarrow> instant \<Rightarrow> accounts \<Rightarrow> string \<Rightarrow> customer result" where
  "current_customer v now a token =
     (case au_decode v now token of
        None \<Rightarrow> credentials_exception
      | Some p \<Rightarrow>
          if \<not> truthy_text (cl_sub p) \<or> cl_scope p \<noteq> Some ''customer'' then credentials_exception
          else (case parse_int (the (cl_sub p)) of
                  None \<Rightarrow> credentials_exception
                | Some i \<Rightarrow>
                    (case get (customers (ac_salon a)) i of
                       None \<Rightarrow> credentials_exception
                     | Some c \<Rightarrow> if customer_token_allowed v now a c token then Inr c else credentials_exception)))"

section \<open>One-time codes\<close>

definition sent_on_day :: "instant \<Rightarrow> otp_code \<Rightarrow> bool" where
  "sent_on_day now c \<longleftrightarrow>
     (let day_start = now div day * day in day_start \<le> oc_sent_at c \<and> oc_sent_at c < day_start + day)"

definition codes_today :: "otp_code table \<Rightarrow> string \<Rightarrow> instant \<Rightarrow> otp_code list" where
  "codes_today otps phone now = select_where (\<lambda>c. oc_phone c = phone \<and> sent_on_day now c) otps"

definition sent_count_today :: "otp_code table \<Rightarrow> string \<Rightarrow> instant \<Rightarrow> int" where
  "sent_count_today otps phone now = int (length (codes_today otps phone now))"

definition attempts_count_today :: "otp_code table \<Rightarrow> string \<Rightarrow> instant \<Rightarrow> int" where
  "attempts_count_today otps phone now = sum_list (map oc_attempts_count (codes_today otps phone now))"

definition too_many :: "string \<Rightarrow> 'a result" where
  "too_many detail = Inl (HTTPException 429 detail)"

definition new_otp :: "auth_env \<Rightarrow> otp_code table \<Rightarrow> instant \<Rightarrow> string \<Rightarrow> string \<Rightarrow> otp_code" where
  "new_otp v otps now phone code =
     \<lparr>oc_id = next_id otps, oc_phone = phone, oc_sent_at = now, oc_expires_at = now + au_ttl v,
      oc_verified_at = None, oc_code_hash = au_hash v phone code, oc_attempts_count = 0\<rparr>"

text \<open>The time until another code may be sent.\<close>

definition cooldown :: "auth_env \<Rightarrow> otp_code table \<Rightarrow> string \<Rightarrow> instant \<Rightarrow> int" where
  "cooldown v otps phone now =
     (case latest_otp otps phone of None \<Rightarrow> 0 | Some c \<Rightarrow> max 0 (oc_sent_at c + au_resend v - now))"

text \<open>
  Requesting a code. The record is committed before the message is sent, so a failure of the sending
  (\<open>sent\<close>, in which a message that is still queued counts as sent) leaves the record. The result is
  the number of sends left today.
\<close>

definition request_otp ::
  "auth_env \<Rightarrow> accounts \<Rightarrow> instant \<Rightarrow> string \<Rightarrow> unit result \<Rightarrow> string \<Rightarrow> accounts \<times> int result" where
  "request_otp v a now code sent phone =
     (if \<not> au_delivery v then (a, Inl (HTTPException 503 ''otp_delivery_unavailable''))
      else case normalize_phone phone of
        Inl e \<Rightarrow> (a, Inl e)
      | Inr q \<Rightarrow>
          if sent_count_today (ac_otps a) q now \<ge> au_max_sends v
          then (a, too_many ''Daily OTP send limit reached for this phone number'')
          else if cooldown v (ac_otps a) q now > 0
          then (a, too_many (''OTP already sent recently. Retry in '' @ show_int (cooldown v (ac_otps a) q now div 1000000)
                  @ '' seconds''))
          else (put_otp (new_otp v (ac_otps a) now q code) a,
                and_then sent (\<lambda>_. Inr (max (au_max_sends v - sent_count_today (ac_otps a) q now - 1) 0))))"

text \<open>The account of a phone: the exact number first, else the oldest alias.\<close>

definition account_of_phone :: "salon \<Rightarrow> string \<Rightarrow> customer option" where
  "account_of_phone db phone =
     (case sort_key (\<lambda>c. (cu_phone c \<noteq> phone, cu_id c))
        (select_where (\<lambda>c. cu_phone c \<in> set (phone_aliases phone)) (customers db)) of
        [] \<Rightarrow> None | c # _ \<Rightarrow> Some c)"

definition sign_in :: "accounts \<Rightarrow> instant \<Rightarrow> string \<Rightarrow> accounts \<times> customer \<times> bool" where
  "sign_in a now phone =
     (let db = ac_salon a
      in case account_of_phone db phone of
           None \<Rightarrow>
             let c = (new_customer db phone None None None)\<lparr>cu_id := next_customer_id a\<rparr>
             in (insert_customer c
                   (no_session\<lparr>se_phone_verified_at := Some now, se_last_login_at := Some now\<rparr>) a, c, True)
         | Some c \<Rightarrow>
             (put_session (cu_id c) ((session_of a (cu_id c))\<lparr>se_phone_verified_at := Some now,
                se_last_login_at := Some now\<rparr>) a, c, False))"

definition counted :: "otp_code \<Rightarrow> otp_code" where
  "counted c = c\<lparr>oc_attempts_count := oc_attempts_count c + 1\<rparr>"

definition used :: "instant \<Rightarrow> otp_code \<Rightarrow> otp_code" where
  "used now c = c\<lparr>oc_verified_at := Some now\<rparr>"

text \<open>A wrong code is committed as an attempt. The result: the account, its token, whether it is new.\<close>

definition verify_otp ::
  "auth_env \<Rightarrow> accounts \<Rightarrow> instant \<Rightarrow> string \<Rightarrow> string \<Rightarrow> string
    \<Rightarrow> accounts \<times> (customer \<times> string \<times> bool \<times> int) result" where
  "verify_otp v a now jti phone otp_code =
     (case normalize_phone phone of
        Inl e \<Rightarrow> (a, Inl e)
      | Inr q \<Rightarrow>
          let attempts = attempts_count_today (ac_otps a) q now
          in if attempts \<ge> au_max_attempts v
             then (a, too_many ''Daily OTP verification attempt limit reached for this phone number'')
             else (case latest_otp (ac_otps a) q of
                     None \<Rightarrow> (a, bad_request ''OTP code is missing or expired'')
                   | Some c \<Rightarrow>
                       if oc_verified_at c \<noteq> None \<or> oc_expires_at c < now
                       then (a, bad_request ''OTP code is missing or expired'')
                       else if au_hash v q otp_code \<noteq> oc_code_hash c
                       then (put_otp (counted c) a, bad_request ''Invalid OTP code'')
                       else (case sign_in (put_otp (used now (counted c)) a) now q of
                               (a, customer, fresh) \<Rightarrow>
                                 (a, Inr (customer, issue_access_token v now a customer jti, fresh,
                                    max (au_max_attempts v - attempts - 1) 0)))))"

section \<open>Changing the verified phone\<close>

definition check_phone_target :: "salon \<Rightarrow> int \<Rightarrow> string \<Rightarrow> unit result" where
  "check_phone_target db customer_id target =
     (if select_where (\<lambda>c. cu_phone c \<in> set (phone_aliases target) \<and> cu_id c \<noteq> customer_id) (customers db) \<noteq> []
      then conflict ''Phone is already associated with another customer'' else Inr ())"

definition phone_target :: "string \<Rightarrow> string result" where
  "phone_target phone = and_then (normalize_phone phone) (\<lambda>q. Inr (canonical_booking_phone q))"

definition request_phone_change ::
  "auth_env \<Rightarrow> accounts \<Rightarrow> instant \<Rightarrow> string \<Rightarrow> unit result \<Rightarrow> customer \<Rightarrow> string \<Rightarrow> accounts \<times> int result" where
  "request_phone_change v a now code sent c phone =
     (case phone_target phone of
        Inl e \<Rightarrow> (a, Inl e)
      | Inr target \<Rightarrow>
          if target = canonical_booking_phone (cu_phone c)
          then (a, conflict ''The new phone must differ from the current phone'')
          else (case check_phone_target (ac_salon a) (cu_id c) target of
                  Inl e \<Rightarrow> (a, Inl e)
                | Inr _ \<Rightarrow> request_otp v a now code sent target))"

text \<open>Changing the phone ends every session but the one that changes it.\<close>

definition revoked :: "string \<Rightarrow> instant \<Rightarrow> session_columns \<Rightarrow> session_columns" where
  "revoked retained now s =
     s\<lparr>se_phone_verified_at := Some now, se_version := se_version s + 1, se_retained_hash := Some retained\<rparr>"

definition confirm_phone_change ::
  "auth_env \<Rightarrow> accounts \<Rightarrow> instant \<Rightarrow> int \<Rightarrow> string \<Rightarrow> string \<Rightarrow> string \<Rightarrow> accounts \<times> customer result" where
  "confirm_phone_change v a now customer_id token phone otp_code =
     (case phone_target phone of
        Inl e \<Rightarrow> (a, Inl e)
      | Inr target \<Rightarrow>
          (case get (customers (ac_salon a)) customer_id of
             None \<Rightarrow> (a, credentials_exception)
           | Some c \<Rightarrow>
               if \<not> customer_token_allowed v now a c token then (a, credentials_exception)
               else if target = canonical_booking_phone (cu_phone c)
               then (a, conflict ''The new phone must differ from the current phone'')
               else (case check_phone_target (ac_salon a) (cu_id c) target of
                  Inl e \<Rightarrow> (a, Inl e)
                | Inr _ \<Rightarrow>
                    if attempts_count_today (ac_otps a) target now \<ge> au_max_attempts v
                    then (a, too_many ''Daily OTP verification attempt limit reached for this phone number'')
                    else (case latest_otp (ac_otps a) target of
                       None \<Rightarrow> (a, bad_request ''OTP code is missing or expired'')
                     | Some latest \<Rightarrow>
                         if oc_verified_at latest \<noteq> None \<or> oc_expires_at latest \<le> now
                         then (a, bad_request ''OTP code is missing or expired'')
                         else if au_hash v target otp_code \<noteq> oc_code_hash latest
                         then (put_otp (counted latest) a, bad_request ''Invalid OTP code'')
                         else let c = c\<lparr>cu_phone := target\<rparr>; db = ac_salon a
                              in (put_session (cu_id c)
                                    (revoked (au_token_hash v token) now (session_of a (cu_id c)))
                                    (with_salon (db\<lparr>customers := put (cu_id c) c (customers db)\<rparr>)
                                      (put_otp (used now (counted latest)) a)),
                                  Inr c)))))"

section \<open>Administration\<close>

text \<open>A partial update: None leaves a column alone, \<open>Some None\<close> sets it to null.\<close>

record customer_patch =
  cp_phone :: "string option option"
  cp_email :: "string option option"
  cp_name :: "string option option"
  cp_surname :: "string option option"
  cp_imported_total_spent :: "int option option"
  cp_imported_last_visit_at :: "instant option option"
  cp_is_active :: "bool option option"

text \<open>The validators of the schema: a payload they refuse is a 422 before the handler runs.\<close>

definition valid_customer_patch :: "customer_patch \<Rightarrow> bool" where
  "valid_customer_patch p \<longleftrightarrow>
     (let within = (\<lambda>low high field. case field of Some (Some x) \<Rightarrow> low \<le> length x \<and> length x \<le> high | _ \<Rightarrow> True)
      in within 7 32 (cp_phone p) \<and> within 0 100 (cp_name p) \<and> within 0 100 (cp_surname p)
         \<and> (case cp_imported_total_spent p of Some (Some x) \<Rightarrow> 0 \<le> x | _ \<Rightarrow> True))"

definition patched :: "'a option \<Rightarrow> 'a \<Rightarrow> 'a" where
  "patched new old = (case new of None \<Rightarrow> old | Some x \<Rightarrow> x)"

definition check_unique_fields :: "salon \<Rightarrow> int option \<Rightarrow> string option \<Rightarrow> string option \<Rightarrow> unit result" where
  "check_unique_fields db exclude email phone =
     (let others = (\<lambda>p. select_where (\<lambda>c. p c \<and> exclude \<noteq> Some (cu_id c)) (customers db))
      in if truthy_text email \<and> others (\<lambda>c. cu_email c = email) \<noteq> []
         then bad_request ''Email is already in use''
         else if truthy_text phone \<and> others (\<lambda>c. cu_phone c = the phone) \<noteq> []
         then bad_request ''Phone is already in use''
         else Inr ())"

text \<open>A null in a column that must not be null is refused by the database.\<close>

definition patch_columns :: "customer_patch \<Rightarrow> string option \<Rightarrow> customer \<Rightarrow> customer result" where
  "patch_columns p phone c =
     (if cp_imported_total_spent p = Some None \<or> cp_is_active p = Some None then Inl IntegrityError
      else Inr (c\<lparr>cu_phone := patched phone (cu_phone c), cu_email := patched (cp_email p) (cu_email c),
        cu_name := patched (cp_name p) (cu_name c), cu_surname := patched (cp_surname p) (cu_surname c),
        cu_imported_total_spent := patched (Option.bind (cp_imported_total_spent p) id) (cu_imported_total_spent c),
        cu_imported_last_visit_at := patched (cp_imported_last_visit_at p) (cu_imported_last_visit_at c),
        cu_is_active := patched (Option.bind (cp_is_active p) id) (cu_is_active c)\<rparr>))"

definition patch_phone :: "customer_patch \<Rightarrow> string option result" where
  "patch_phone p =
     (case cp_phone p of
        Some None \<Rightarrow> unprocessable ''Phone must not be null''
      | Some (Some phone) \<Rightarrow>
          if phone \<noteq> [] then and_then (normalize_phone phone) (\<lambda>q. Inr (Some q)) else Inr (Some phone)
      | None \<Rightarrow> Inr None)"

definition unverified :: "session_columns \<Rightarrow> session_columns" where
  "unverified s = s\<lparr>se_phone_verified_at := None, se_version := se_version s + 1, se_retained_hash := None\<rparr>"

definition update_customer :: "accounts \<Rightarrow> customer \<Rightarrow> customer_patch \<Rightarrow> (accounts \<times> customer) result" where
  "update_customer a c p =
     and_then (patch_phone p) (\<lambda>phone.
     let db = ac_salon a; changed = (truthy_text phone \<and> phone \<noteq> Some (cu_phone c))
     in and_then (check_unique_fields db (Some (cu_id c)) (patched (cp_email p) None) phone) (\<lambda>_.
        and_then (patch_columns p phone c) (\<lambda>c.
        and_then (customer_flush c db) (\<lambda>db.
        let a = (if changed then put_session (cu_id c) (unverified (session_of a (cu_id c))) a else a)
        in Inr (with_salon db a, c)))))"

text \<open>The own profile: the phone may be repeated but not changed.\<close>

definition update_customer_me :: "accounts \<Rightarrow> customer \<Rightarrow> customer_patch \<Rightarrow> (accounts \<times> customer) result" where
  "update_customer_me a c p =
     (case cp_phone p of
        None \<Rightarrow> update_customer a c p
      | Some None \<Rightarrow> unprocessable ''Use the verified phone-change endpoints to change your phone''
      | Some (Some phone) \<Rightarrow>
          and_then (normalize_phone phone) (\<lambda>q.
            if q \<noteq> cu_phone c
            then unprocessable ''Use the verified phone-change endpoints to change your phone''
            else update_customer a c p))"

definition backoffice_update_customer :: "accounts \<Rightarrow> int \<Rightarrow> customer_patch \<Rightarrow> (accounts \<times> customer) result" where
  "backoffice_update_customer a customer_id p =
     (case get (customers (ac_salon a)) customer_id of
        None \<Rightarrow> not_found ''Customer not found'' | Some c \<Rightarrow> update_customer a c p)"

record customer_data =
  cd_phone :: string
  cd_email :: "string option"
  cd_name :: "string option"
  cd_surname :: "string option"
  cd_imported_total_spent :: int
  cd_imported_last_visit_at :: "instant option"
  cd_is_active :: bool

definition created_customer :: "accounts \<Rightarrow> string \<Rightarrow> customer_data \<Rightarrow> customer" where
  "created_customer a phone d =
     (new_customer (ac_salon a) phone (cd_email d) (cd_name d) (cd_surname d))\<lparr>
        cu_id := next_customer_id a, cu_is_active := cd_is_active d, cu_imported_last_visit_at := cd_imported_last_visit_at d,
        cu_imported_total_spent := cd_imported_total_spent d\<rparr>"

definition create_customer :: "accounts \<Rightarrow> customer_data \<Rightarrow> (accounts \<times> customer) result" where
  "create_customer a d =
     and_then (normalize_phone (cd_phone d)) (\<lambda>phone.
     let db = ac_salon a
     in and_then (check_phone_target db (-1) phone) (\<lambda>_.
        and_then (check_unique_fields db None (cd_email d) (Some phone)) (\<lambda>_.
        let c = created_customer a phone d
        in and_then (customer_flush c db) (\<lambda>_. Inr (insert_customer c no_session a, c)))))"

text \<open>
  A customer with a history is only deactivated. \<open>other_history\<close> tells of orders, archived bookings and
  campaign runs, which are not in the salon. A waiting-list request restricts the deletion; the
  communication preferences go with the customer.
\<close>

definition delete_customer :: "(int \<Rightarrow> bool) \<Rightarrow> accounts \<Rightarrow> customer \<Rightarrow> accounts result" where
  "delete_customer other_history a c =
     (let db = ac_salon a; i = cu_id c
      in if other_history i \<or> select_where (\<lambda>b. bk_customer_id b = Some i) (bookings db) \<noteq> []
         then Inr (with_salon (db\<lparr>customers := put i (c\<lparr>cu_is_active := False\<rparr>) (customers db)\<rparr>) a)
         else if select_where (\<lambda>r. wr_customer_id r = i) (requests db) \<noteq> [] then Inl IntegrityError
         else Inr (a\<lparr>ac_salon := db\<lparr>customers := drop_row i (customers db),
                                    preferences := drop_row i (preferences db)\<rparr>,
                     ac_sessions := drop_row i (ac_sessions a)\<rparr>))"

definition backoffice_delete_customer :: "(int \<Rightarrow> bool) \<Rightarrow> accounts \<Rightarrow> int \<Rightarrow> accounts result" where
  "backoffice_delete_customer other_history a customer_id =
     (case get (customers (ac_salon a)) customer_id of
        None \<Rightarrow> not_found ''Customer not found'' | Some c \<Rightarrow> delete_customer other_history a c)"

end
