(* ===== verification/Codes.thy ===== *)
theory Codes
  imports Accounts
begin

text \<open>
  One-time codes: what an operation may do to the table of codes, and the invariant of the table under
  these events: codes of a phone are spaced, their number per day is bounded, and so is the number of
  guesses. A redeemed code stays redeemed.
\<close>

section \<open>The life of a one-time code\<close>

text \<open>
  What an operation may do to the codes: nothing, issue one within the limits, or spend an attempt on
  the latest code of a phone, which may redeem it. A guess is recorded with the phone, the time the
  code was sent, and the time of the guess.
\<close>

type_synonym guess = "string \<times> instant \<times> instant"

inductive otp_event :: "auth_env \<Rightarrow> otp_code table \<Rightarrow> guess list \<Rightarrow> otp_code table \<Rightarrow> bool" for v otps where
  quiet: "otp_event v otps [] otps"
| issued: "sent_count_today otps q now < au_max_sends v \<Longrightarrow> cooldown v otps q now \<le> 0 \<Longrightarrow>
    otp_event v otps [] (put (next_id otps) (new_otp v otps now q code) otps)"
| guessed: "latest_otp otps q = Some c \<Longrightarrow> attempts_count_today otps q now < au_max_attempts v \<Longrightarrow>
    oc_verified_at c = None \<Longrightarrow>
    otp_event v otps [(q, oc_sent_at c, now)]
      (put (oc_id c) (if redeemed then used now (counted c) else counted c) otps)"

lemma latest_otp_Some:
  assumes "latest_otp otps q = Some c"
  shows "c \<in> set (rows otps)" and "oc_phone c = q"
    and "d \<in> set (rows otps) \<Longrightarrow> oc_phone d = q \<Longrightarrow> oc_sent_at d \<le> oc_sent_at c"
proof -
  let ?key = "\<lambda>c. (- oc_sent_at c, - oc_id c)"
  let ?xs = "select_where (\<lambda>c. oc_phone c = q) otps"
  obtain cs where cs: "sort_key ?key ?xs = c # cs"
    using assms by (auto simp: latest_otp_def split: list.splits)
  have mem: "set ?xs = set (c # cs)" using arg_cong [OF cs, of set] by simp
  then have "c \<in> set ?xs" by simp
  then show "c \<in> set (rows otps)" and "oc_phone c = q" by (simp_all add: select_where_def)
  have "sorted (map ?key (c # cs))" using sorted_sort_key [of ?key ?xs] by (simp only: cs)
  then have least: "?key c \<le> ?key d" if "d \<in> set (c # cs)" for d
    using that by auto
  show "oc_sent_at d \<le> oc_sent_at c" if "d \<in> set (rows otps)" "oc_phone d = q"
  proof -
    have "d \<in> set ?xs" using that by (simp add: select_where_def)
    then have "?key c \<le> ?key d" using mem by (intro least) simp
    then show ?thesis by (auto simp: less_eq_prod_def)
  qed
qed

lemma latest_otp_None:
  "latest_otp otps q = None \<Longrightarrow> d \<in> set (rows otps) \<Longrightarrow> oc_phone d \<noteq> q"
  by (auto simp: latest_otp_def select_where_def filter_empty_conv split: list.splits
      dest!: arg_cong [of _ "[]" set])

definition on_day :: "string \<Rightarrow> instant \<Rightarrow> otp_code \<Rightarrow> bool" where
  "on_day q now c \<longleftrightarrow> oc_phone c = q \<and> oc_sent_at c div day = now div day"

lemma day_positive: "0 < day"
  by (simp add: time_consts)

lemma sent_on_day_iff: "sent_on_day now c \<longleftrightarrow> oc_sent_at c div day = now div day"
proof -
  have bounds: "x div day * day \<le> x \<and> x < x div day * day + day" for x :: int
    using div_mult_mod_eq [of x day] pos_mod_sign [OF day_positive, of x] pos_mod_bound [OF day_positive, of x]
    by linarith
  have "now div day * day \<le> x \<and> x < now div day * day + day \<longleftrightarrow> x div day = now div day" for x
  proof
    assume x: "now div day * day \<le> x \<and> x < now div day * day + day"
    have "now div day \<le> x div day"
      using x zdiv_mono1 [of "now div day * day" x day] day_positive by simp
    moreover have "x div day < now div day + 1"
    proof (rule ccontr)
      assume "\<not> ?thesis"
      then have "(now div day + 1) * day \<le> x div day * day"
        using day_positive by (intro mult_right_mono) simp_all
      with bounds [of x] x show False by (simp add: distrib_right)
    qed
    ultimately show "x div day = now div day" by simp
  next
    assume "x div day = now div day"
    with bounds [of x] show "now div day * day \<le> x \<and> x < now div day * day + day" by simp
  qed
  then show ?thesis by (simp add: sent_on_day_def Let_def)
qed

lemma codes_today_filter: "codes_today otps q now = filter (on_day q now) (rows otps)"
  by (simp add: codes_today_def select_where_def on_day_def [abs_def] sent_on_day_iff)

lemma attempts_as_sum:
  "attempts_count_today otps q now
     = sum_list (map (\<lambda>c. if on_day q now c then oc_attempts_count c else 0) (rows otps))"
  by (simp add: attempts_count_today_def codes_today_filter sum_list_map_filter')

lemma sent_as_sum:
  "sent_count_today otps q now = sum_list (map (\<lambda>c. if on_day q now c then 1 else 0) (rows otps))"
  by (simp add: sent_count_today_def codes_today_filter sum_list_map_filter' [symmetric] sum_list_triv)

definition same_day_guesses :: "guess list \<Rightarrow> string \<Rightarrow> instant \<Rightarrow> int" where
  "same_day_guesses g q now =
     int (length (filter (\<lambda>(p, sent, t). p = q \<and> sent div day = now div day \<and> t div day = now div day) g))"

definition codes_spaced :: "auth_env \<Rightarrow> otp_code table \<Rightarrow> bool" where
  "codes_spaced v otps \<longleftrightarrow> (\<forall>c \<in> set (rows otps). \<forall>d \<in> set (rows otps).
     oc_phone c = oc_phone d \<longrightarrow> oc_id c \<noteq> oc_id d \<longrightarrow>
       oc_sent_at c + au_resend v \<le> oc_sent_at d \<or> oc_sent_at d + au_resend v \<le> oc_sent_at c)"

definition codes_ok :: "auth_env \<Rightarrow> otp_code table \<Rightarrow> guess list \<Rightarrow> bool" where
  "codes_ok v otps g \<longleftrightarrow>
     has_id oc_id otps \<and> codes_spaced v otps
     \<and> (\<forall>q now. sent_count_today otps q now \<le> au_max_sends v)
     \<and> (\<forall>q now. same_day_guesses g q now \<le> attempts_count_today otps q now
          \<and> same_day_guesses g q now \<le> au_max_attempts v)"

lemma on_day_same: "now div day = now' div day \<Longrightarrow> on_day q now = on_day q now'"
  by (simp add: on_day_def fun_eq_iff)

lemma issued_ok:
  assumes ok: "codes_ok v otps g" and room: "sent_count_today otps q now < au_max_sends v"
    and cool: "cooldown v otps q now \<le> 0"
  shows "codes_ok v (put (next_id otps) (new_otp v otps now q code) otps) g"
proof -
  let ?n = "new_otp v otps now q code" and ?t = "put (next_id otps) (new_otp v otps now q code) otps"
  have n: "oc_id ?n = next_id otps" "oc_phone ?n = q" "oc_sent_at ?n = now" "oc_attempts_count ?n = 0"
    by (simp_all add: new_otp_def)
  have rows: "rows ?t = rows otps @ [?n]" by (rule rows_put_next)
  have id: "has_id oc_id ?t" using ok n(1) by (simp add: codes_ok_def has_id_put)
  have after: "oc_sent_at d + au_resend v \<le> now" if "d \<in> set (rows otps)" "oc_phone d = q" for d
  proof -
    obtain c where c: "latest_otp otps q = Some c"
      using latest_otp_None [of otps q d] \<open>d \<in> set (rows otps)\<close> \<open>oc_phone d = q\<close>
      by (cases "latest_otp otps q") auto
    have "oc_sent_at c + au_resend v \<le> now" using cool by (simp add: cooldown_def c)
    with latest_otp_Some(3) [OF c that] show ?thesis by linarith
  qed
  have "codes_spaced v ?t"
    unfolding codes_spaced_def
  proof (intro ballI impI)
    fix x y
    assume xy: "x \<in> set (rows ?t)" "y \<in> set (rows ?t)" "oc_phone x = oc_phone y" "oc_id x \<noteq> oc_id y"
    have both: "x = ?n \<or> x \<in> set (rows otps)" "y = ?n \<or> y \<in> set (rows otps)"
      using xy(1,2) by (auto simp: rows)
    have "codes_spaced v otps" using ok by (simp add: codes_ok_def)
    with both xy(3,4) after n(2,3)
    show "oc_sent_at x + au_resend v \<le> oc_sent_at y \<or> oc_sent_at y + au_resend v \<le> oc_sent_at x"
      unfolding codes_spaced_def by metis
  qed
  moreover have "sent_count_today ?t q' now' \<le> au_max_sends v" for q' now'
  proof (cases "on_day q' now' ?n")
    case True
    then have "q' = q" "now div day = now' div day" by (simp_all add: on_day_def n)
    then have "sent_count_today otps q' now' < au_max_sends v"
      using room on_day_same [of now now' q] by (simp add: sent_count_today_def codes_today_filter)
    then show ?thesis by (simp add: sent_as_sum rows True)
  next
    case False
    then show ?thesis using ok by (simp add: codes_ok_def sent_as_sum rows)
  qed
  moreover have "attempts_count_today ?t q' now' = attempts_count_today otps q' now'" for q' now'
    by (simp add: attempts_as_sum rows n(4))
  ultimately show ?thesis using ok id by (simp add: codes_ok_def)
qed

lemma guessed_ok:
  assumes ok: "codes_ok v otps g" and latest: "latest_otp otps q = Some c"
    and room: "attempts_count_today otps q now < au_max_attempts v"
    and c': "oc_id c' = oc_id c" "oc_phone c' = oc_phone c" "oc_sent_at c' = oc_sent_at c"
      "oc_attempts_count c' = oc_attempts_count c + 1"
  shows "codes_ok v (put (oc_id c) c' otps) (g @ [(q, oc_sent_at c, now)])"
proof -
  let ?t = "put (oc_id c) c' otps"
  note c = latest_otp_Some [OF latest]
  have has: "has_id oc_id otps" and table: "table_ok otps"
    using ok by (simp_all add: codes_ok_def has_id_def)
  have row: "get otps (oc_id c) = Some c" by (rule has_id_rows [OF has c(1)])
  have day: "on_day q' now' c' = on_day q' now' c" for q' now'
    by (simp add: on_day_def c')
  have id: "has_id oc_id ?t" by (rule has_id_put [OF has c'(1)])
  have members: "x \<in> set (rows ?t) \<longleftrightarrow> x = c' \<or> (x \<in> set (rows otps) \<and> oc_id x \<noteq> oc_id c)" for x
    by (rule rows_put_iff [OF has c'(1)])
  have old: "\<exists>x' \<in> set (rows otps). oc_id x' = oc_id x \<and> oc_phone x' = oc_phone x \<and> oc_sent_at x' = oc_sent_at x"
    if "x \<in> set (rows ?t)" for x
    using that c(1) c'(1-3) unfolding members by metis
  have "codes_spaced v ?t"
    unfolding codes_spaced_def
  proof (intro ballI impI)
    fix x y
    assume xy: "x \<in> set (rows ?t)" "y \<in> set (rows ?t)" "oc_phone x = oc_phone y" "oc_id x \<noteq> oc_id y"
    then show "oc_sent_at x + au_resend v \<le> oc_sent_at y \<or> oc_sent_at y + au_resend v \<le> oc_sent_at x"
      using old [OF xy(1)] old [OF xy(2)] ok unfolding codes_ok_def codes_spaced_def by metis
  qed
  moreover have "sent_count_today ?t q' now' = sent_count_today otps q' now'" for q' now'
    unfolding sent_as_sum sum_rows_put [OF table row] by (simp add: day)
  moreover have attempts: "attempts_count_today ?t q' now'
      = attempts_count_today otps q' now' + (if on_day q' now' c then 1 else 0)" for q' now'
    unfolding attempts_as_sum sum_rows_put [OF table row] by (simp add: day c'(4))
  moreover have "same_day_guesses (g @ [(q, oc_sent_at c, now)]) q' now' \<le> attempts_count_today ?t q' now'
      \<and> same_day_guesses (g @ [(q, oc_sent_at c, now)]) q' now' \<le> au_max_attempts v" for q' now'
  proof -
    have before: "same_day_guesses g q' now' \<le> attempts_count_today otps q' now'"
      "same_day_guesses g q' now' \<le> au_max_attempts v"
      using ok by (simp_all add: codes_ok_def)
    show ?thesis
    proof (cases "q' = q \<and> oc_sent_at c div day = now' div day \<and> now div day = now' div day")
      case True
      then have "on_day q' now' c" "attempts_count_today otps q' now' < au_max_attempts v"
        using c(2) room on_day_same [of now now' q]
        by (simp_all add: on_day_def attempts_count_today_def codes_today_filter)
      moreover have "same_day_guesses (g @ [(q, oc_sent_at c, now)]) q' now' = same_day_guesses g q' now' + 1"
        using True by (simp add: same_day_guesses_def)
      ultimately show ?thesis using before by (simp add: attempts)
    next
      case False
      then have "same_day_guesses (g @ [(q, oc_sent_at c, now)]) q' now' = same_day_guesses g q' now'"
        by (auto simp: same_day_guesses_def)
      then show ?thesis using before by (simp add: attempts)
    qed
  qed
  ultimately show ?thesis using ok id by (simp add: codes_ok_def)
qed

lemma otp_event_ok: "otp_event v otps g' otps' \<Longrightarrow> codes_ok v otps g \<Longrightarrow> codes_ok v otps' (g @ g')"
proof (induction rule: otp_event.induct)
  case quiet
  then show ?case by simp
next
  case (issued q now code)
  then show ?case using issued_ok by simp
next
  case (guessed q c now redeemed)
  then show ?case by (intro guessed_ok) (simp_all add: counted_def used_def)
qed

text \<open>A code that has been redeemed stays redeemed, and codes are never forgotten.\<close>

definition redeemed_code :: "otp_code table \<Rightarrow> otp_code \<Rightarrow> bool" where
  "redeemed_code otps d \<longleftrightarrow> (\<exists>c. get otps (oc_id d) = Some c \<and> oc_verified_at c \<noteq> None
     \<and> oc_phone c = oc_phone d \<and> oc_sent_at c = oc_sent_at d)"

lemma otp_event_redeemed:
  "otp_event v otps g otps' \<Longrightarrow> has_id oc_id otps \<Longrightarrow> redeemed_code otps d \<Longrightarrow> redeemed_code otps' d"
proof (induction rule: otp_event.induct)
  case quiet
  then show ?case by simp
next
  case (issued q now code)
  then have "oc_id d \<noteq> next_id otps" by (auto simp: redeemed_code_def)
  with issued show ?case by (simp add: redeemed_code_def)
next
  case (guessed q c now redeemed)
  have "get otps (oc_id c) = Some c"
    by (rule has_id_rows [OF guessed.prems(1) latest_otp_Some(1) [OF guessed.hyps(1)]])
  with guessed show ?case
    by (cases "oc_id d = oc_id c") (auto simp: redeemed_code_def counted_def used_def)
qed

text \<open>
  The attempts are summed over the codes sent today, so after midnight UTC a code of the day before
  has no attempts that count: guesses at it are not limited until it expires.
\<close>

lemma attempts_not_counted_after_midnight:
  assumes "latest_otp otps q = Some c" and "oc_sent_at c div day < now div day"
  shows "attempts_count_today otps q now = 0"
proof -
  have "\<not> on_day q now d" if "d \<in> set (rows otps)" for d
  proof
    assume d: "on_day q now d"
    then have "oc_sent_at d \<le> oc_sent_at c" using latest_otp_Some(3) [OF assms(1) that] by (simp add: on_day_def)
    from zdiv_mono1 [OF this day_positive] have "oc_sent_at d div day \<le> oc_sent_at c div day" .
    with d assms(2) show False by (simp add: on_day_def)
  qed
  then have "codes_today otps q now = []" by (simp add: codes_today_filter)
  then show ?thesis by (simp add: attempts_count_today_def)
qed

end
