(* ===== verification/Identity.thy ===== *)
theory Identity
  imports Codes
begin

text \<open>
  What the accounts promise over their steps: limits on one-time codes, codes that work once, one
  account per phone identity, and sessions that end when the phone changes. A step is one call of
  the service by a route; editing a customer in the back office is kept apart, because it alone can
  give two customers one phone identity.
\<close>

section \<open>The steps of the accounts\<close>

text \<open>An operation that changed the codes of a phone by checking a code made a guess.\<close>

definition guess_made :: "string result \<Rightarrow> instant \<Rightarrow> accounts \<Rightarrow> accounts \<Rightarrow> guess list" where
  "guess_made q now a a' =
     (case q of
        Inl _ \<Rightarrow> []
      | Inr q \<Rightarrow>
          if ac_otps a' = ac_otps a then []
          else (case latest_otp (ac_otps a) q of None \<Rightarrow> [] | Some c \<Rightarrow> [(q, oc_sent_at c, now)]))"

inductive identity_step :: "auth_env \<Rightarrow> accounts \<Rightarrow> guess list \<Rightarrow> accounts \<Rightarrow> bool" for v a where
  code_requested: "request_otp v a now code sent phone = (a', r) \<Longrightarrow> identity_step v a [] a'"
| signed_in: "verify_otp v a now jti phone code = (a', r) \<Longrightarrow>
    identity_step v a (guess_made (normalize_phone phone) now a a') a'"
| change_requested: "current_customer v now a token = Inr c \<Longrightarrow>
    request_phone_change v a now code sent c phone = (a', r) \<Longrightarrow> identity_step v a [] a'"
| change_confirmed: "current_customer v now a token = Inr c \<Longrightarrow>
    confirm_phone_change v a now (cu_id c) token phone code = (a', r') \<Longrightarrow>
    identity_step v a (guess_made (phone_target phone) now a a') a'"
| profile_updated: "current_customer v now a token = Inr c \<Longrightarrow> update_customer_me a c p = Inr (a', c') \<Longrightarrow>
    identity_step v a [] a'"
| customer_created: "create_customer a d = Inr (a', c') \<Longrightarrow> identity_step v a [] a'"
| customer_deleted: "backoffice_delete_customer history a i = Inr a' \<Longrightarrow> identity_step v a [] a'"

text \<open>With the editing of customers in the back office.\<close>

inductive account_step :: "auth_env \<Rightarrow> accounts \<Rightarrow> guess list \<Rightarrow> accounts \<Rightarrow> bool" for v a where
  other: "identity_step v a g a' \<Longrightarrow> account_step v a g a'"
| customer_edited: "valid_customer_patch p \<Longrightarrow> backoffice_update_customer a i p = Inr (a', c') \<Longrightarrow> account_step v a [] a'"

inductive accounts_reachable :: "auth_env \<Rightarrow> accounts \<Rightarrow> accounts \<Rightarrow> guess list \<Rightarrow> bool" for v a0 where
  opened: "accounts_reachable v a0 a0 []"
| moved: "accounts_reachable v a0 a g \<Longrightarrow> account_step v a g' a' \<Longrightarrow> accounts_reachable v a0 a' (g @ g')"

text \<open>What an operation leaves alone.\<close>

lemma account_simps [simp]:
  "ac_otps (put_session i s a) = ac_otps a" "ac_salon (put_session i s a) = ac_salon a"
  "ac_sequence (put_session i s a) = ac_sequence a"
  "ac_salon (put_otp c a) = ac_salon a" "ac_sessions (put_otp c a) = ac_sessions a"
  "ac_sequence (put_otp c a) = ac_sequence a" "ac_otps (put_otp c a) = put (oc_id c) c (ac_otps a)"
  "ac_otps (with_salon db a) = ac_otps a" "ac_salon (with_salon db a) = db"
  "ac_sessions (with_salon db a) = ac_sessions a" "ac_sequence (with_salon db a) = ac_sequence a"
  "ac_otps (insert_customer x s a) = ac_otps a"
  by (simp_all add: put_session_def put_otp_def with_salon_def insert_customer_def Let_def)

lemma session_of_put: "session_of (put_session i s a) j = (if j = i then s else session_of a j)"
  by (simp add: session_of_def put_session_def get_put)

lemma session_of_with [simp]: "session_of (with_salon db a) i = session_of a i" "session_of (put_otp c a) i = session_of a i"
  by (simp_all add: session_of_def)

lemma session_of_cong: "ac_sessions a' = ac_sessions a \<Longrightarrow> session_of a' i = session_of a i"
  by (simp add: session_of_def)

text \<open>Every operation refines an event of the code table.\<close>

lemma request_event:
  assumes "request_otp v a now code sent phone = (a', r)"
  shows "otp_event v (ac_otps a) [] (ac_otps a') \<and> ac_salon a' = ac_salon a
    \<and> ac_sessions a' = ac_sessions a \<and> ac_sequence a' = ac_sequence a"
proof -
  have "a' = a \<or> (\<exists>q. sent_count_today (ac_otps a) q now < au_max_sends v
      \<and> cooldown v (ac_otps a) q now \<le> 0 \<and> a' = put_otp (new_otp v (ac_otps a) now q code) a)"
    using assms by (auto simp: request_otp_def not_le not_less split: if_splits sum.splits)
  then show ?thesis
  proof (elim disjE exE conjE)
    assume "a' = a"
    then show ?thesis by (simp add: otp_event.quiet)
  next
    fix q
    assume *: "sent_count_today (ac_otps a) q now < au_max_sends v" "cooldown v (ac_otps a) q now \<le> 0"
      "a' = put_otp (new_otp v (ac_otps a) now q code) a"
    then show ?thesis using otp_event.issued [OF *(1,2), of code] by (simp add: new_otp_def)
  qed
qed

lemma sign_in_otps [simp]: "ac_otps (fst (sign_in a now q)) = ac_otps a"
  by (simp add: sign_in_def Let_def split: option.splits)

text \<open>The ways a sign-in or a phone change can end.\<close>

lemma verify_cases:
  assumes "verify_otp v a now jti phone code = (a', r)"
  obtains (refused) e where "a' = a" "r = Inl e"
    | (wrong) q c where "normalize_phone phone = Inr q" "latest_otp (ac_otps a) q = Some c"
        "attempts_count_today (ac_otps a) q now < au_max_attempts v" "oc_verified_at c = None"
        "a' = put_otp (counted c) a" "r = Inl (HTTPException 400 ''Invalid OTP code'')"
    | (right) q c customer fresh left where "normalize_phone phone = Inr q" "latest_otp (ac_otps a) q = Some c"
        "attempts_count_today (ac_otps a) q now < au_max_attempts v" "oc_verified_at c = None"
        "now \<le> oc_expires_at c" "au_hash v q code = oc_code_hash c"
        "sign_in (put_otp (used now (counted c)) a) now q = (a', customer, fresh)"
        "r = Inr (customer, issue_access_token v now a' customer jti, fresh, left)"
proof (cases "normalize_phone phone")
  case (Inl e)
  with assms refused show ?thesis by (auto simp: verify_otp_def)
next
  case q: (Inr q)
  show ?thesis
  proof (cases "attempts_count_today (ac_otps a) q now \<ge> au_max_attempts v")
    case True
    with assms q refused show ?thesis by (auto simp: verify_otp_def too_many_def Let_def)
  next
    case room: False
    show ?thesis
    proof (cases "latest_otp (ac_otps a) q")
      case None
      with assms q room refused show ?thesis by (auto simp: verify_otp_def Let_def)
    next
      case c: (Some c)
      consider "oc_verified_at c \<noteq> None \<or> oc_expires_at c < now"
        | "oc_verified_at c = None" "now \<le> oc_expires_at c" "au_hash v q code \<noteq> oc_code_hash c"
        | "oc_verified_at c = None" "now \<le> oc_expires_at c" "au_hash v q code = oc_code_hash c"
        by fastforce
      then show ?thesis
      proof cases
        case 1
        with assms q room c refused show ?thesis by (auto simp: verify_otp_def Let_def)
      next
        case 2
        with assms q room c show ?thesis by (intro wrong [of q c]) (auto simp: verify_otp_def Let_def)
      next
        case 3
        obtain a1 customer fresh where s: "sign_in (put_otp (used now (counted c)) a) now q = (a1, customer, fresh)"
          by (cases "sign_in (put_otp (used now (counted c)) a) now q")
        with 3 assms q room c show ?thesis
          by (intro right [of q c customer fresh]) (auto simp: verify_otp_def Let_def)
      qed
    qed
  qed
qed

lemma confirm_cases:
  assumes "confirm_phone_change v a now i token phone code = (a', r)"
  obtains (refused) e where "a' = a" "r = Inl e"
    | (wrong) q c where "phone_target phone = Inr q" "latest_otp (ac_otps a) q = Some c"
        "attempts_count_today (ac_otps a) q now < au_max_attempts v" "oc_verified_at c = None"
        "a' = put_otp (counted c) a" "r = Inl (HTTPException 400 ''Invalid OTP code'')"
    | (right) q c customer where "phone_target phone = Inr q" "latest_otp (ac_otps a) q = Some c"
        "attempts_count_today (ac_otps a) q now < au_max_attempts v" "oc_verified_at c = None"
        "get (customers (ac_salon a)) i = Some customer" "customer_token_allowed v now a customer token"
        "check_phone_target (ac_salon a) (cu_id customer) q = Inr ()"
        "now \<le> oc_expires_at c" "au_hash v q code = oc_code_hash c" "r = Inr (customer\<lparr>cu_phone := q\<rparr>)"
        "a' = put_session (cu_id customer) (revoked (au_token_hash v token) now (session_of a (cu_id customer)))
           (with_salon ((ac_salon a)\<lparr>customers :=
                put (cu_id customer) (customer\<lparr>cu_phone := q\<rparr>) (customers (ac_salon a))\<rparr>)
             (put_otp (used now (counted c)) a))"
proof -
  note d = confirm_phone_change_def Let_def credentials_exception_def too_many_def
  show thesis
  proof (cases "phone_target phone")
    case (Inl e)
    with assms refused show ?thesis by (auto simp: d)
  next
    case q: (Inr q)
    show ?thesis
    proof (cases "get (customers (ac_salon a)) i")
      case None
      with assms q refused show ?thesis by (auto simp: d)
    next
      case customer: (Some x)
      show ?thesis
      proof (cases "\<not> customer_token_allowed v now a x token \<or> q = canonical_booking_phone (cu_phone x)
          \<or> check_phone_target (ac_salon a) (cu_id x) q \<noteq> Inr ()
          \<or> attempts_count_today (ac_otps a) q now \<ge> au_max_attempts v")
        case True
        with assms q customer refused show ?thesis by (auto simp: d split: if_splits sum.splits)
      next
        case open_way: False
        show ?thesis
        proof (cases "latest_otp (ac_otps a) q")
          case None
          with assms q customer open_way refused show ?thesis by (auto simp: d)
        next
          case c: (Some c)
          consider "oc_verified_at c \<noteq> None \<or> oc_expires_at c \<le> now"
            | "oc_verified_at c = None" "now < oc_expires_at c" "au_hash v q code \<noteq> oc_code_hash c"
            | "oc_verified_at c = None" "now < oc_expires_at c" "au_hash v q code = oc_code_hash c"
            by fastforce
          then show ?thesis
          proof cases
            case 1
            with assms q customer open_way c refused show ?thesis by (auto simp: d)
          next
            case 2
            with assms q customer open_way c show ?thesis by (intro wrong [of q c]) (auto simp: d)
          next
            case 3
            with assms q customer open_way c show ?thesis by (intro right [of q c x]) (auto simp: d)
          qed
        qed
      qed
    qed
  qed
qed

lemma counted_differs: "put (oc_id c) (counted c) t \<noteq> t" "put (oc_id c) (used now (counted c)) t \<noteq> t"
  if "has_id oc_id t" "c \<in> set (rows t)"
proof -
  have row: "get t (oc_id c) = Some c" using that by (rule has_id_rows)
  have "get (put (oc_id c) c' t) (oc_id c) \<noteq> get t (oc_id c)" if "c' \<noteq> c" for c'
    using that row by simp
  moreover have "counted c \<noteq> c" "used now (counted c) \<noteq> c"
    by (cases c; simp add: counted_def used_def)+
  ultimately show "put (oc_id c) (counted c) t \<noteq> t" "put (oc_id c) (used now (counted c)) t \<noteq> t"
    by metis+
qed

lemma guess_event:
  assumes "q' = Inr q" and "latest_otp (ac_otps a) q = Some c" and "has_id oc_id (ac_otps a)"
    and "attempts_count_today (ac_otps a) q now < au_max_attempts v" and "oc_verified_at c = None"
    and "ac_otps a' = put (oc_id c) (if redeemed then used now (counted c) else counted c) (ac_otps a)"
  shows "otp_event v (ac_otps a) (guess_made q' now a a') (ac_otps a')"
proof -
  have "ac_otps a' \<noteq> ac_otps a"
    using counted_differs(1) [OF assms(3) latest_otp_Some(1) [OF assms(2)]]
      counted_differs(2) [OF assms(3) latest_otp_Some(1) [OF assms(2)], of now] assms(6)
    by (cases redeemed) simp_all
  then have "guess_made q' now a a' = [(q, oc_sent_at c, now)]"
    by (simp add: guess_made_def assms(1,2))
  then show ?thesis
    using otp_event.guessed [OF assms(2,4,5), of redeemed] assms(6) by simp
qed

lemma counted_id [simp]: "oc_id (counted c) = oc_id c" "oc_id (used now c) = oc_id c"
  by (simp_all add: counted_def used_def)

lemma sign_in_keeps_otps: "sign_in a now q = (a', x) \<Longrightarrow> ac_otps a' = ac_otps a"
  using sign_in_otps [of a now q] by simp

lemma verify_event:
  assumes "verify_otp v a now jti phone code = (a', r)" and "has_id oc_id (ac_otps a)"
  shows "otp_event v (ac_otps a) (guess_made (normalize_phone phone) now a a') (ac_otps a')"
  using assms(1)
proof (cases rule: verify_cases)
  case (refused e)
  then show ?thesis by (simp add: guess_made_def otp_event.quiet split: sum.splits)
next
  case (wrong q c)
  then show ?thesis using guess_event [OF wrong(1,2) assms(2) wrong(3,4), where redeemed = False] by simp
next
  case (right q c customer fresh left)
  then show ?thesis
    using guess_event [OF right(1,2) assms(2) right(3,4), where redeemed = True] sign_in_keeps_otps [OF right(7)]
    by simp
qed

lemma confirm_event:
  assumes "confirm_phone_change v a now i token phone code = (a', r)" and "has_id oc_id (ac_otps a)"
  shows "otp_event v (ac_otps a) (guess_made (phone_target phone) now a a') (ac_otps a')"
  using assms(1)
proof (cases rule: confirm_cases)
  case (refused e)
  then show ?thesis by (simp add: guess_made_def otp_event.quiet split: sum.splits)
next
  case (wrong q c)
  then show ?thesis using guess_event [OF wrong(1,2) assms(2) wrong(3,4), where redeemed = False] by simp
next
  case (right q c customer)
  then show ?thesis using guess_event [OF right(1,2) assms(2) right(3,4), where redeemed = True] by simp
qed

lemma change_requested_cases:
  assumes "request_phone_change v a now code sent c phone = (a', r)"
  shows "a' = a \<or> (\<exists>target r'. request_otp v a now code sent target = (a', r'))"
  using assms by (auto simp: request_phone_change_def split: sum.splits if_splits)

text \<open>An update changes one row, and the session columns only when the phone changes.\<close>

lemma update_customer_cases:
  assumes "update_customer a c p = Inr (a', c')" and "cp_phone p \<noteq> Some (Some [])"
  obtains db where "customer_flush c' (ac_salon a) = Inr db" "cu_id c' = cu_id c"
    "a' = with_salon db a \<and> cu_phone c' = cu_phone c
      \<or> a' = with_salon db (put_session (cu_id c) (unverified (session_of a (cu_id c))) a)"
proof -
  obtain phone where phone: "patch_phone p = Inr phone"
    and rest: "and_then (patch_columns p phone c) (\<lambda>c1.
        and_then (customer_flush c1 (ac_salon a)) (\<lambda>db. Inr (with_salon db
          (if truthy_text phone \<and> phone \<noteq> Some (cu_phone c)
           then put_session (cu_id c1) (unverified (session_of a (cu_id c1))) a else a), c1))) = Inr (a', c')"
    using assms by (auto simp: update_customer_def and_then_eq_Inr Let_def)
  then obtain db where db: "patch_columns p phone c = Inr c'" "customer_flush c' (ac_salon a) = Inr db"
      "a' = with_salon db (if truthy_text phone \<and> phone \<noteq> Some (cu_phone c)
           then put_session (cu_id c') (unverified (session_of a (cu_id c'))) a else a)"
    by (auto simp: and_then_eq_Inr)
  have c': "cu_id c' = cu_id c" "cu_phone c' = patched phone (cu_phone c)"
    using db(1) by (auto simp: patch_columns_def split: if_splits)
  have nonempty: "phone \<noteq> Some []"
    using phone assms(2) normalize_phone_shape
    by (fastforce simp: patch_phone_def and_then_eq_Inr phone_shape_def split: option.splits if_splits)
  show thesis
  proof (cases "truthy_text phone \<and> phone \<noteq> Some (cu_phone c)")
    case True
    then show ?thesis using db(3) c'(1) by (intro that [OF db(2)]) simp_all
  next
    case False
    then have "cu_phone c' = cu_phone c"
      using c'(2) nonempty by (cases phone) (auto simp: patched_def truthy_text_def)
    then show ?thesis using db(3) c'(1) False by (intro that [OF db(2)]) auto
  qed
qed


lemma update_me_cases:
  assumes "update_customer_me a c p = Inr (a', c')"
  shows "update_customer a c p = Inr (a', c') \<and> cp_phone p \<noteq> Some (Some []) \<and> cu_phone c' = cu_phone c"
proof -
  have nonempty: "normalize_phone [] \<noteq> Inr q" for q
    by (simp add: normalize_phone_def strip_def isdigit_def)
  have run: "update_customer a c p = Inr (a', c')"
    and phone: "cp_phone p = None \<or> (\<exists>x. cp_phone p = Some (Some x) \<and> normalize_phone x = Inr (cu_phone c))"
    using assms by (auto simp: update_customer_me_def and_then_eq_Inr
        split: option.splits if_splits)
  have "patch_phone p = Inr None \<or> patch_phone p = Inr (Some (cu_phone c))"
    using phone nonempty by (cases "cp_phone p = Some (Some [])") (auto simp: patch_phone_def)
  then have "cu_phone c' = cu_phone c"
    using run by (auto simp: update_customer_def and_then_eq_Inr Let_def patch_columns_def patched_def
        split: if_splits)
  with run phone nonempty show ?thesis by auto
qed

lemma create_cases:
  assumes "create_customer a d = Inr (a', c')"
  obtains q where "normalize_phone (cd_phone d) = Inr q" "check_phone_target (ac_salon a) (-1) q = Inr ()"
    "c' = created_customer a q d" "a' = insert_customer c' no_session a"
  using assms by (auto simp: create_customer_def and_then_eq_Inr Let_def)

text \<open>Every step refines an event of the code table.\<close>

lemma identity_step_event:
  "identity_step v a g a' \<Longrightarrow> has_id oc_id (ac_otps a) \<Longrightarrow> otp_event v (ac_otps a) g (ac_otps a')"
proof (induction rule: identity_step.induct)
  case (code_requested now code sent phone a' r)
  then show ?case using request_event by blast
next
  case (signed_in now jti phone code a' r)
  then show ?case using verify_event by blast
next
  case (change_requested now token c code sent phone a' r)
  then show ?case using change_requested_cases [OF change_requested.hyps(2)] request_event otp_event.quiet by metis
next
  case (change_confirmed now token c phone code a' r)
  then show ?case using confirm_event by blast
next
  case (profile_updated now token c p a' c')
  from update_me_cases [OF profile_updated.hyps(2)] have "update_customer a c p = Inr (a', c')"
    "cp_phone p \<noteq> Some (Some [])" by blast+
  then have "ac_otps a' = ac_otps a" by (cases rule: update_customer_cases) auto
  then show ?case by (simp add: otp_event.quiet)
next
  case (customer_created d a' c')
  then show ?case by (cases rule: create_cases) (simp_all add: otp_event.quiet)
next
  case (customer_deleted history i a')
  have "ac_otps a' = ac_otps a"
    using customer_deleted.hyps
    by (auto simp: backoffice_delete_customer_def delete_customer_def with_salon_def Let_def
        split: option.splits if_splits)
  then show ?case by (simp add: otp_event.quiet)
qed

lemma edited_cases:
  assumes "valid_customer_patch p" and "backoffice_update_customer a i p = Inr (a', c')"
  obtains c where "get (customers (ac_salon a)) i = Some c" "update_customer a c p = Inr (a', c')"
    "cp_phone p \<noteq> Some (Some [])"
proof -
  have "cp_phone p \<noteq> Some (Some [])" using assms(1) by (auto simp: valid_customer_patch_def Let_def)
  then show thesis
    using assms(2) by (auto simp: backoffice_update_customer_def split: option.splits intro: that)
qed

lemma account_step_event:
  "account_step v a g a' \<Longrightarrow> has_id oc_id (ac_otps a) \<Longrightarrow> otp_event v (ac_otps a) g (ac_otps a')"
proof (induction rule: account_step.induct)
  case (other g a')
  then show ?case by (rule identity_step_event)
next
  case (customer_edited p i a' c')
  from customer_edited.hyps show ?case
  proof (cases rule: edited_cases)
    case (1 c)
    from 1(2,3) have "ac_otps a' = ac_otps a" by (cases rule: update_customer_cases) auto
    then show ?thesis by (simp add: otp_event.quiet)
  qed
qed

lemma reachable_codes:
  "accounts_reachable v a0 a g \<Longrightarrow> codes_ok v (ac_otps a0) g0 \<Longrightarrow> codes_ok v (ac_otps a) (g0 @ g)"
proof (induction rule: accounts_reachable.induct)
  case opened
  then show ?case by simp
next
  case (moved a g g' a')
  then have ok: "codes_ok v (ac_otps a) (g0 @ g)" by blast
  then have "has_id oc_id (ac_otps a)" by (simp add: codes_ok_def)
  from otp_event_ok [OF account_step_event [OF moved.hyps(2) this] ok] show ?case by simp
qed

lemma codes_ok_empty: "0 \<le> au_max_sends v \<Longrightarrow> 0 \<le> au_max_attempts v \<Longrightarrow> codes_ok v [] []"
  by (simp add: codes_ok_def codes_spaced_def sent_as_sum attempts_as_sum same_day_guesses_def has_id_def rows_Nil)

lemma otp_event_has_id:
  assumes "otp_event v otps g otps'" and "has_id oc_id otps"
  shows "has_id oc_id otps'"
  using assms by (induction rule: otp_event.induct)
    (auto simp: new_otp_def intro!: has_id_put)

lemma reachable_redeemed:
  "accounts_reachable v a0 a g \<Longrightarrow> has_id oc_id (ac_otps a0) \<Longrightarrow> redeemed_code (ac_otps a0) d
    \<Longrightarrow> has_id oc_id (ac_otps a) \<and> redeemed_code (ac_otps a) d"
proof (induction rule: accounts_reachable.induct)
  case opened
  then show ?case by simp
next
  case (moved a g g' a')
  then have ok: "has_id oc_id (ac_otps a)" "redeemed_code (ac_otps a) d" by blast+
  from account_step_event [OF moved.hyps(2) ok(1)] otp_event_has_id otp_event_redeemed ok show ?case by blast
qed

text \<open>A code opens an account by signing in or by moving an account to its phone.\<close>

inductive opens :: "auth_env \<Rightarrow> accounts \<Rightarrow> instant \<Rightarrow> string \<Rightarrow> string \<Rightarrow> accounts \<Rightarrow> bool" for v a where
  by_sign_in: "verify_otp v a now jti phone code = (a', Inr x) \<Longrightarrow> normalize_phone phone = Inr q
    \<Longrightarrow> opens v a now q code a'"
| by_change: "confirm_phone_change v a now i token phone code = (a', Inr x) \<Longrightarrow> phone_target phone = Inr q
    \<Longrightarrow> opens v a now q code a'"

lemma opens_latest:
  assumes "opens v a now q code a'"
  obtains c where "latest_otp (ac_otps a) q = Some c" "oc_verified_at c = None" "now \<le> oc_expires_at c"
    "au_hash v q code = oc_code_hash c" "ac_otps a' = put (oc_id c) (used now (counted c)) (ac_otps a)"
  using assms
proof cases
  case (by_sign_in jti phone x)
  from by_sign_in(1) show ?thesis
  proof (cases rule: verify_cases)
    case (right q' c customer fresh left)
    then show ?thesis using by_sign_in(2) sign_in_keeps_otps [OF right(7)] by (intro that [of c]) simp_all
  qed simp_all
next
  case (by_change i token phone x)
  from by_change(1) show ?thesis
  proof (cases rule: confirm_cases)
    case (right q' c customer)
    then show ?thesis using by_change(2) by (intro that [of c]) simp_all
  qed simp_all
qed

lemma opens_event:
  "opens v a now q code a' \<Longrightarrow> has_id oc_id (ac_otps a) \<Longrightarrow> \<exists>g. otp_event v (ac_otps a) g (ac_otps a')"
  by (erule opens.cases) (use verify_event confirm_event in blast)+

section \<open>One account per phone\<close>

definition accounts_ok :: "accounts \<Rightarrow> bool" where
  "accounts_ok a \<longleftrightarrow> customers_ok (ac_salon a) \<and> identities_unique (ac_salon a)
     \<and> (\<forall>c \<in> set (rows (customers (ac_salon a))). 0 < cu_id c \<and> cu_id c < ac_sequence a)"

lemma accounts_okD:
  assumes "accounts_ok a"
  shows "customers_ok (ac_salon a)" and "identities_unique (ac_salon a)" and "has_id cu_id (customers (ac_salon a))"
    and "c \<in> set (rows (customers (ac_salon a))) \<Longrightarrow> 0 < cu_id c \<and> cu_id c < ac_sequence a"
  using assms by (auto simp: accounts_ok_def customers_ok_def)

lemma accounts_ok_cong:
  "customers (ac_salon a') = customers (ac_salon a) \<Longrightarrow> ac_sequence a' = ac_sequence a \<Longrightarrow> accounts_ok a' = accounts_ok a"
  by (simp add: accounts_ok_def customers_ok_def identities_unique_def)

text \<open>Writing a row whose identity no other row has.\<close>

lemma accounts_ok_put:
  assumes ok: "accounts_ok a"
    and own: "\<And>d. d \<in> set (rows (customers (ac_salon a))) \<Longrightarrow> cu_id d \<noteq> cu_id c \<Longrightarrow> identity_key d \<noteq> identity_key c"
    and c: "cu_phone c \<noteq> []" "0 < cu_id c" "cu_id c < ac_sequence a'"
    and a': "customers (ac_salon a') = put (cu_id c) c (customers (ac_salon a))" "ac_sequence a \<le> ac_sequence a'"
  shows "accounts_ok a'"
proof -
  note has = accounts_okD(3) [OF ok]
  have row: "x \<in> set (rows (customers (ac_salon a')))
      \<longleftrightarrow> x = c \<or> (x \<in> set (rows (customers (ac_salon a))) \<and> cu_id x \<noteq> cu_id c)" for x
    unfolding a'(1) by (rule rows_put_iff [OF has refl])
  have "has_id cu_id (customers (ac_salon a'))" unfolding a'(1) by (rule has_id_put [OF has refl])
  then have "customers_ok (ac_salon a')"
    using accounts_okD(1) [OF ok] c(1) by (auto simp: customers_ok_def row)
  moreover have "identities_unique (ac_salon a')"
    unfolding identities_unique_def
  proof (intro ballI impI)
    fix x y
    assume "x \<in> set (rows (customers (ac_salon a')))" "y \<in> set (rows (customers (ac_salon a')))"
      "identity_key x = identity_key y"
    then show "x = y"
      using own [of x] own [of y] accounts_okD(2) [OF ok] unfolding row identities_unique_def by metis
  qed
  moreover have "0 < cu_id x \<and> cu_id x < ac_sequence a'" if "x \<in> set (rows (customers (ac_salon a')))" for x
    using that accounts_okD(4) [OF ok, of x] c(2,3) a'(2) unfolding row by auto
  ultimately show ?thesis by (simp add: accounts_ok_def)
qed

lemma identity_key_of [simp]: "identity_key c = canonical_booking_phone (cu_phone c)"
  by (simp add: identity_key_def)

lemma next_customer_id_fresh:
  assumes "accounts_ok a"
  shows "0 < next_customer_id a" and "ac_sequence a \<le> next_customer_id a"
    and "c \<in> set (rows (customers (ac_salon a))) \<Longrightarrow> cu_id c < next_customer_id a"
    and "get (customers (ac_salon a)) (next_customer_id a) = None"
proof -
  show "0 < next_customer_id a" "ac_sequence a \<le> next_customer_id a"
    using next_id_positive [of "customers (ac_salon a)"] by (simp_all add: next_customer_id_def)
  show less: "cu_id c < next_customer_id a" if "c \<in> set (rows (customers (ac_salon a)))" for c
    using accounts_okD(4) [OF assms that] by (simp add: next_customer_id_def less_max_iff_disj)
  show "get (customers (ac_salon a)) (next_customer_id a) = None"
  proof (rule ccontr)
    assume "\<not> ?thesis"
    then obtain c where c: "get (customers (ac_salon a)) (next_customer_id a) = Some c" by blast
    then have "cu_id c = next_customer_id a" by (rule has_id_get [OF accounts_okD(3) [OF assms]])
    with less [OF get_in_rows [OF c]] show False by simp
  qed
qed

lemma insert_customer_simps [simp]:
  "customers (ac_salon (insert_customer c s a)) = put (cu_id c) c (customers (ac_salon a))"
  "ac_sequence (insert_customer c s a) = cu_id c + 1"
  "session_of (insert_customer c s a) i = (if i = cu_id c then s else session_of a i)"
  by (simp_all add: insert_customer_def Let_def session_of_def put_session_def with_salon_def get_put)

text \<open>The account that signs in: an existing one of the identity, or a new one.\<close>

lemma account_of_phone_Some:
  assumes "account_of_phone db q = Some c"
  shows "c \<in> set (rows (customers db)) \<and> cu_phone c \<in> set (phone_aliases q)"
proof -
  let ?xs = "select_where (\<lambda>c. cu_phone c \<in> set (phone_aliases q)) (customers db)"
  obtain cs where "sort_key (\<lambda>c. (cu_phone c \<noteq> q, cu_id c)) ?xs = c # cs"
    using assms by (auto simp: account_of_phone_def split: list.splits)
  from arg_cong [OF this, of set] have "c \<in> set ?xs" by auto
  then show ?thesis by (simp add: select_where_def)
qed

lemma account_of_phone_None:
  assumes "account_of_phone db q = None" and "c \<in> set (rows (customers db))"
  shows "cu_phone c \<notin> set (phone_aliases q)"
proof -
  let ?xs = "select_where (\<lambda>c. cu_phone c \<in> set (phone_aliases q)) (customers db)"
  have "sort_key (\<lambda>c. (cu_phone c \<noteq> q, cu_id c)) ?xs = []"
    using assms(1) by (auto simp: account_of_phone_def split: list.splits)
  from arg_cong [OF this, of set] have "set ?xs = {}" by simp
  with assms(2) show ?thesis by (auto simp: select_where_def)
qed

lemma sign_in_cases:
  assumes "sign_in a now q = (a', c, fresh)"
  obtains (known) "account_of_phone (ac_salon a) q = Some c" "ac_salon a' = ac_salon a"
      "ac_sequence a' = ac_sequence a" "\<And>i. se_version (session_of a' i) = se_version (session_of a i)"
      "\<And>i. se_retained_hash (session_of a' i) = se_retained_hash (session_of a i)"
    | (created) s where "account_of_phone (ac_salon a) q = None" "cu_id c = next_customer_id a" "cu_phone c = q"
      "a' = insert_customer c s a"
proof (cases "account_of_phone (ac_salon a) q")
  case None
  with assms show ?thesis by (intro created) (auto simp: sign_in_def new_customer_def Let_def)
next
  case (Some d)
  with assms show ?thesis by (intro known) (auto simp: sign_in_def Let_def session_of_put)
qed

lemma normal_phone_nonempty: "normalize_phone p = Inr q \<Longrightarrow> q \<noteq> []"
  using normalize_phone_shape by (fastforce simp: phone_shape_def)

lemma target_nonempty: "phone_target p = Inr q \<Longrightarrow> q \<noteq> []"
  using canonical_shape normalize_phone_shape by (fastforce simp: phone_target_def phone_shape_def and_then_eq_Inr)

lemma check_target_Inr:
  assumes "check_phone_target db i q = Inr ()" and "c \<in> set (rows (customers db))" and "cu_id c \<noteq> i"
  shows "canonical_booking_phone (cu_phone c) \<noteq> canonical_booking_phone q"
  using assms by (auto simp: check_phone_target_def select_where_def phone_aliases_iff filter_empty_conv
      split: if_splits)

lemma sign_in_ok:
  assumes "sign_in a now q = (a', c, fresh)" and ok: "accounts_ok a" and "q \<noteq> []"
  shows "accounts_ok a' \<and> get (customers (ac_salon a')) (cu_id c) = Some c
    \<and> canonical_booking_phone (cu_phone c) = canonical_booking_phone q"
  using assms(1)
proof (cases rule: sign_in_cases)
  case known
  note c = account_of_phone_Some [OF known(1)]
  have "get (customers (ac_salon a)) (cu_id c) = Some c"
    using c by (intro has_id_rows [OF accounts_okD(3) [OF ok]]) blast
  with known c ok show ?thesis using accounts_ok_cong [of a' a] by (simp add: phone_aliases_iff)
next
  case (created s)
  have "accounts_ok a'"
  proof (rule accounts_ok_put [OF ok, of c])
    show "identity_key d \<noteq> identity_key c" if "d \<in> set (rows (customers (ac_salon a)))" for d
      using account_of_phone_None [OF created(1) that] created(3) by (simp add: phone_aliases_iff)
    show "cu_phone c \<noteq> []" "0 < cu_id c" "cu_id c < ac_sequence a'" "ac_sequence a \<le> ac_sequence a'"
      "customers (ac_salon a') = put (cu_id c) c (customers (ac_salon a))"
      using created(2-4) assms(3) next_customer_id_fresh(1,2) [OF ok] by simp_all
  qed
  then show ?thesis using created by simp
qed

lemma update_same_phone_ok:
  assumes "customer_flush c' (ac_salon a) = Inr db" and "cu_id c' = cu_id c" and "cu_phone c' = cu_phone c"
    and "get (customers (ac_salon a)) (cu_id c) = Some c" and ok: "accounts_ok a"
    and a': "ac_salon a' = db" "ac_sequence a' = ac_sequence a"
  shows "accounts_ok a'"
proof -
  have c: "c \<in> set (rows (customers (ac_salon a)))" using assms(4) by (rule get_in_rows)
  then have phone: "cu_phone c \<noteq> []" using accounts_okD(1) [OF ok] by (simp add: customers_ok_def)
  show ?thesis
  proof (rule accounts_ok_put [OF ok, of c'])
    show "identity_key d \<noteq> identity_key c'" if "d \<in> set (rows (customers (ac_salon a)))" "cu_id d \<noteq> cu_id c'" for d
      using that c accounts_okD(2) [OF ok] assms(2,3) unfolding identities_unique_def identity_key_of by metis
    show "customers (ac_salon a') = put (cu_id c') c' (customers (ac_salon a))"
      using customer_flush_Inr [OF assms(1)] a'(1) by simp
  qed (use accounts_okD(4) [OF ok c] assms(2,3) phone a' in simp_all)
qed

lemma current_customer_Inr:
  assumes "current_customer v now a token = Inr c" and "has_id cu_id (customers (ac_salon a))"
  shows "get (customers (ac_salon a)) (cu_id c) = Some c"
proof -
  obtain i where i: "get (customers (ac_salon a)) i = Some c"
    using assms(1) by (auto simp: current_customer_def credentials_exception_def split: option.splits if_splits)
  from has_id_get [OF assms(2) this] i show ?thesis by simp
qed

lemma confirmed_ok:
  assumes "confirm_phone_change v a now i token phone code = (a', r)" and ok: "accounts_ok a"
  shows "accounts_ok a'"
  using assms(1)
proof (cases rule: confirm_cases)
  case (refused e)
  with ok show ?thesis by simp
next
  case (wrong q c)
  then show ?thesis using accounts_ok_cong [of a' a] ok by simp
next
  case (right q c customer)
  note row = get_in_rows [OF right(5)]
  have id: "cu_id customer = i" by (rule has_id_get [OF accounts_okD(3) [OF ok] right(5)])
  show ?thesis
  proof (rule accounts_ok_put [OF ok, of "customer\<lparr>cu_phone := q\<rparr>"])
    show "identity_key d \<noteq> identity_key (customer\<lparr>cu_phone := q\<rparr>)"
      if "d \<in> set (rows (customers (ac_salon a)))" "cu_id d \<noteq> cu_id (customer\<lparr>cu_phone := q\<rparr>)" for d
      using check_target_Inr [OF right(7) that(1)] that(2) by simp
  qed (use target_nonempty [OF right(1)] accounts_okD(4) [OF ok row] right(11) in simp_all)
qed

lemma deleted_cases:
  assumes "backoffice_delete_customer history a i = Inr a'"
  obtains (kept) c where "get (customers (ac_salon a)) i = Some c"
      "a' = with_salon ((ac_salon a)\<lparr>customers := put (cu_id c) (c\<lparr>cu_is_active := False\<rparr>) (customers (ac_salon a))\<rparr>) a"
    | (gone) c where "get (customers (ac_salon a)) i = Some c"
      "customers (ac_salon a') = drop_row (cu_id c) (customers (ac_salon a))" "ac_sequence a' = ac_sequence a"
      "ac_sessions a' = drop_row (cu_id c) (ac_sessions a)"
proof -
  obtain c where c: "get (customers (ac_salon a)) i = Some c" and run: "delete_customer history a c = Inr a'"
    using assms by (auto simp: backoffice_delete_customer_def split: option.splits)
  then show thesis
    by (auto simp: delete_customer_def Let_def split: if_splits intro: kept [OF c] gone [OF c])
qed

lemma deleted_ok:
  assumes "backoffice_delete_customer history a i = Inr a'" and ok: "accounts_ok a"
  shows "accounts_ok a'"
  using assms(1)
proof (cases rule: deleted_cases)
  case (kept c)
  have row: "c \<in> set (rows (customers (ac_salon a)))" using kept(1) by (rule get_in_rows)
  have phone: "cu_phone c \<noteq> []" using row accounts_okD(1) [OF ok] by (simp add: customers_ok_def)
  show ?thesis
  proof (rule accounts_ok_put [OF ok, of "c\<lparr>cu_is_active := False\<rparr>"])
    show "identity_key d \<noteq> identity_key (c\<lparr>cu_is_active := False\<rparr>)"
      if "d \<in> set (rows (customers (ac_salon a)))" "cu_id d \<noteq> cu_id (c\<lparr>cu_is_active := False\<rparr>)" for d
    proof -
      have "identity_key d = identity_key c \<Longrightarrow> d = c"
        using that(1) row accounts_okD(2) [OF ok] unfolding identities_unique_def by blast
      with that(2) show ?thesis by auto
    qed
  qed (use accounts_okD(4) [OF ok row] phone kept(2) in simp_all)
next
  case (gone c)
  have has: "has_id cu_id (customers (ac_salon a))" by (rule accounts_okD(3) [OF ok])
  have rows: "set (rows (customers (ac_salon a'))) \<subseteq> set (rows (customers (ac_salon a)))"
    using has unfolding gone(2) by (auto simp: rows_drop_row has_id_def)
  have "has_id cu_id (customers (ac_salon a'))" unfolding gone(2) by (rule has_id_drop_row [OF has])
  with ok rows gone(3) show ?thesis
    by (auto simp: accounts_ok_def customers_ok_def identities_unique_def subset_iff)
qed

lemma identity_step_ok:
  "identity_step v a g a' \<Longrightarrow> accounts_ok a \<Longrightarrow> accounts_ok a'"
proof (induction rule: identity_step.induct)
  case (code_requested now code sent phone a' r)
  then show ?case using request_event [OF code_requested.hyps] accounts_ok_cong [of a' a] by simp
next
  case (signed_in now jti phone code a' r)
  from signed_in.hyps show ?case
  proof (cases rule: verify_cases)
    case (right q c customer fresh left)
    have "accounts_ok (put_otp (used now (counted c)) a)"
      using signed_in.prems by (simp add: accounts_ok_def)
    from sign_in_ok [OF right(7) this normal_phone_nonempty [OF right(1)]] show ?thesis by blast
  qed (use signed_in.prems in \<open>simp_all add: accounts_ok_def\<close>)
next
  case (change_requested now token c code sent phone a' r)
  then show ?case
    using change_requested_cases [OF change_requested.hyps(2)] request_event accounts_ok_cong [of a' a] by metis
next
  case (change_confirmed now token c phone code a' r)
  then show ?case using confirmed_ok by blast
next
  case (profile_updated now token c p a' c')
  note row = current_customer_Inr [OF profile_updated.hyps(1) accounts_okD(3) [OF profile_updated.prems]]
  from update_me_cases [OF profile_updated.hyps(2)] have run: "update_customer a c p = Inr (a', c')"
    "cp_phone p \<noteq> Some (Some [])" and phone: "cu_phone c' = cu_phone c" by blast+
  from run show ?case
  proof (cases rule: update_customer_cases)
    case (1 db)
    then show ?thesis using update_same_phone_ok [OF 1(1,2) phone row profile_updated.prems] by auto
  qed
next
  case (customer_created d a' c')
  note ok = customer_created.prems
  from customer_created.hyps show ?case
  proof (cases rule: create_cases)
    case (1 q)
    have c': "cu_id c' = next_customer_id a" "cu_phone c' = q"
      by (simp_all add: 1(3) created_customer_def new_customer_def)
    show ?thesis
    proof (rule accounts_ok_put [OF ok, of c'])
      show "identity_key x \<noteq> identity_key c'" if "x \<in> set (rows (customers (ac_salon a)))" for x
        using check_target_Inr [OF 1(2) that] accounts_okD(4) [OF ok that] c'(2) by simp
    qed (use 1(4) c' next_customer_id_fresh(1,2) [OF ok] normal_phone_nonempty [OF 1(1)] in simp_all)
  qed
next
  case (customer_deleted history i a')
  then show ?case using deleted_ok by blast
qed

section \<open>Sessions that have ended\<close>

text \<open>
  The sessions of customer \<open>i\<close> issued up to version \<open>k\<close>, but for one retained under another digest than
  \<open>h\<close>, have ended: the customer is gone, or the version is past and the digest is not the retained one.
\<close>

definition ended :: "string \<Rightarrow> int \<Rightarrow> int \<Rightarrow> accounts \<Rightarrow> bool" where
  "ended h k i a \<longleftrightarrow>
     has_id cu_id (customers (ac_salon a))
     \<and> (\<forall>c \<in> set (rows (customers (ac_salon a))). cu_id c < ac_sequence a) \<and> i < ac_sequence a
     \<and> (get (customers (ac_salon a)) i = None
        \<or> (k < se_version (session_of a i) \<and> se_retained_hash (session_of a i) \<noteq> Some h))"

lemma endedD:
  assumes "ended h k i a"
  shows "has_id cu_id (customers (ac_salon a))" and "i < ac_sequence a"
    and "c \<in> set (rows (customers (ac_salon a))) \<Longrightarrow> cu_id c < ac_sequence a"
    and "get (customers (ac_salon a)) i = Some c
       \<Longrightarrow> k < se_version (session_of a i) \<and> se_retained_hash (session_of a i) \<noteq> Some h"
  using assms by (auto simp: ended_def)

lemma ended_same:
  "ended h k i a \<Longrightarrow> customers (ac_salon a') = customers (ac_salon a) \<Longrightarrow> ac_sequence a' = ac_sequence a
    \<Longrightarrow> se_version (session_of a' i) = se_version (session_of a i)
    \<Longrightarrow> se_retained_hash (session_of a' i) = se_retained_hash (session_of a i) \<Longrightarrow> ended h k i a'"
  by (simp add: ended_def)

text \<open>Writing the row of a customer that exists, or of one with a new id.\<close>

lemma ended_put:
  assumes "ended h k i a" and a': "customers (ac_salon a') = put (cu_id c) c (customers (ac_salon a))"
    and "ac_sequence a \<le> ac_sequence a'" "cu_id c < ac_sequence a'"
    and known: "cu_id c = i \<Longrightarrow> get (customers (ac_salon a)) i \<noteq> None"
    and kept: "get (customers (ac_salon a)) i \<noteq> None
      \<Longrightarrow> k < se_version (session_of a' i) \<and> se_retained_hash (session_of a' i) \<noteq> Some h"
  shows "ended h k i a'"
proof -
  note has = endedD(1) [OF assms(1)]
  have "has_id cu_id (customers (ac_salon a'))" unfolding a' by (rule has_id_put [OF has refl])
  moreover have "cu_id x < ac_sequence a'" if "x \<in> set (rows (customers (ac_salon a')))" for x
    using that endedD(3) [OF assms(1), of x] assms(3,4) unfolding a' rows_put_iff [OF has refl] by auto
  moreover have "get (customers (ac_salon a')) i = None \<or> get (customers (ac_salon a)) i \<noteq> None"
    using known by (auto simp: a' get_put)
  ultimately show ?thesis using endedD(2) [OF assms(1)] assms(3) kept unfolding ended_def by fastforce
qed

text \<open>A token whose claims do not change with time.\<close>

definition token_claims :: "auth_env \<Rightarrow> string \<Rightarrow> int \<Rightarrow> int \<Rightarrow> bool" where
  "token_claims v t i k \<longleftrightarrow>
     (\<forall>m. case au_decode v m t of None \<Rightarrow> True
          | Some p \<Rightarrow> cl_sub p = Some (show_int i) \<and> cl_version p = Some k)
     \<and> (\<forall>u. au_token_hash v u = au_token_hash v t \<longrightarrow> u = t)"

lemma ended_not_allowed:
  assumes "token_claims v t i j" and "j \<le> k" and "ended (au_token_hash v t) k i a"
    and "get (customers (ac_salon a)) i = Some c"
  shows "\<not> customer_token_allowed v now a c t"
proof -
  have "cu_id c = i" by (rule has_id_get [OF endedD(1) [OF assms(3)] assms(4)])
  have "case au_decode v now t of None \<Rightarrow> True | Some p \<Rightarrow> cl_version p = Some j"
    using assms(1) by (auto simp: token_claims_def split: option.splits dest: spec [of _ now])
  with endedD(4) [OF assms(3,4)] assms(2) \<open>cu_id c = i\<close> show ?thesis
    by (auto simp: customer_token_allowed_def split: option.splits)
qed

lemma retained_other:
  assumes "token_claims v t i j" and "j \<le> k" and "ended (au_token_hash v t) k i a"
    and "get (customers (ac_salon a)) i = Some c" and "customer_token_allowed v now a c u"
  shows "au_token_hash v u \<noteq> au_token_hash v t"
proof
  assume "au_token_hash v u = au_token_hash v t"
  then have "u = t" using assms(1) by (simp add: token_claims_def)
  with ended_not_allowed [OF assms(1-4)] assms(5) show False by simp
qed

lemma updated_ended:
  assumes "update_customer a c p = Inr (a', c')" and "cp_phone p \<noteq> Some (Some [])"
    and "get (customers (ac_salon a)) (cu_id c) = Some c" and ended: "ended h k i a"
  shows "ended h k i a'"
  using assms(1,2)
proof (cases rule: update_customer_cases)
  case (1 db)
  note put = customer_flush_Inr [OF 1(1)]
  have a': "customers (ac_salon a') = put (cu_id c') c' (customers (ac_salon a))" "ac_sequence a' = ac_sequence a"
    using 1(3) by (auto simp: put)
  have "get (customers (ac_salon a)) i \<noteq> None
      \<Longrightarrow> k < se_version (session_of a' i) \<and> se_retained_hash (session_of a' i) \<noteq> Some h"
    using 1(3) endedD(4) [OF ended] by (auto simp: session_of_put unverified_def split: if_splits)
  with a' show ?thesis
    using ended_put [OF ended a'(1)] endedD(3) [OF ended get_in_rows [OF assms(3)]] 1(2) assms(3) by auto
qed

lemma ended_put_otp: "ended h k i (put_otp c a) = ended h k i a"
  by (simp add: ended_def)

lemma sign_in_ended:
  assumes "sign_in a now q = (a', c, fresh)" and ended: "ended h k i a"
  shows "ended h k i a'"
  using assms(1)
proof (cases rule: sign_in_cases)
  case known
  then show ?thesis using ended_same [OF ended] by simp
next
  case (created s)
  have "i < cu_id c" "ac_sequence a \<le> cu_id c"
    using endedD(2) [OF ended] created(2) by (simp_all add: next_customer_id_def)
  then show ?thesis
    using endedD(4) [OF ended] created(4) by (intro ended_put [OF ended, of _ c]) auto
qed

lemma confirmed_ended:
  assumes "confirm_phone_change v a now n token phone code = (a', r)" and ended: "ended (au_token_hash v t) k i a"
    and t: "token_claims v t i j" "j \<le> k"
  shows "ended (au_token_hash v t) k i a'"
  using assms(1)
proof (cases rule: confirm_cases)
  case (refused e)
  with ended show ?thesis by simp
next
  case (wrong q c)
  with ended show ?thesis by (simp add: ended_put_otp)
next
  case (right q c customer)
  have id: "cu_id customer = n" by (rule has_id_get [OF endedD(1) [OF ended] right(5)])
  have "k < se_version (session_of a' i) \<and> se_retained_hash (session_of a' i) \<noteq> Some (au_token_hash v t)"
    if there: "get (customers (ac_salon a)) i = Some d" for d
  proof (cases "i = n")
    case True
    have "au_token_hash v token \<noteq> au_token_hash v t"
      by (rule retained_other [OF t ended _ right(6)]) (use right(5) True in simp)
    then show ?thesis
      using endedD(4) [OF ended there] True right(11) by (simp add: session_of_put revoked_def id)
  next
    case False
    then show ?thesis using endedD(4) [OF ended there] right(11) by (simp add: session_of_put id)
  qed
  then show ?thesis
    using right(5,11) endedD(3) [OF ended get_in_rows [OF right(5)]] id
    by (intro ended_put [OF ended, of _ "customer\<lparr>cu_phone := q\<rparr>"]) auto
qed

lemma deleted_ended:
  assumes "backoffice_delete_customer history a n = Inr a'" and ended: "ended h k i a"
  shows "ended h k i a'"
  using assms(1)
proof (cases rule: deleted_cases)
  case (kept c)
  have id: "cu_id c = n" by (rule has_id_get [OF endedD(1) [OF ended] kept(1)])
  show ?thesis
    using kept id endedD(3) [OF ended get_in_rows [OF kept(1)]] endedD(4) [OF ended]
    by (intro ended_put [OF ended, of _ "c\<lparr>cu_is_active := False\<rparr>"]) auto
next
  case (gone c)
  note has = endedD(1) [OF ended]
  have "has_id cu_id (customers (ac_salon a'))" unfolding gone(2) by (rule has_id_drop_row [OF has])
  moreover have "set (rows (customers (ac_salon a'))) \<subseteq> set (rows (customers (ac_salon a)))"
    using has unfolding gone(2) by (auto simp: rows_drop_row has_id_def)
  moreover have "get (customers (ac_salon a')) i = None \<or> (get (customers (ac_salon a)) i \<noteq> None \<and> session_of a' i = session_of a i)"
    using gone(2,4) by (cases "i = cu_id c") (auto simp: get_drop_row session_of_def)
  ultimately show ?thesis using ended gone(3) by (auto simp: ended_def)
qed

lemma identity_step_ended:
  "identity_step v a g a' \<Longrightarrow> ended (au_token_hash v t) k i a \<Longrightarrow> token_claims v t i j \<Longrightarrow> j \<le> k
    \<Longrightarrow> ended (au_token_hash v t) k i a'"
proof (induction rule: identity_step.induct)
  case (code_requested now code sent phone a' r)
  then show ?case using request_event [OF code_requested.hyps] ended_same session_of_cong by metis
next
  case (signed_in now jti phone code a' r)
  from signed_in.hyps show ?case
  proof (cases rule: verify_cases)
    case (right q c customer fresh left)
    show ?thesis by (rule sign_in_ended [OF right(7)]) (simp add: ended_put_otp signed_in.prems)
  qed (use signed_in.prems in \<open>simp_all add: ended_put_otp\<close>)
next
  case (change_requested now token c code sent phone a' r)
  then show ?case
    using change_requested_cases [OF change_requested.hyps(2)] request_event ended_same session_of_cong by metis
next
  case (change_confirmed now token c phone code a' r)
  then show ?case using confirmed_ended by blast
next
  case (profile_updated now token c p a' c')
  then show ?case
    using update_me_cases [OF profile_updated.hyps(2)] current_customer_Inr [OF profile_updated.hyps(1)] endedD(1)
      updated_ended by blast
next
  case (customer_created d a' c')
  note ended = customer_created.prems(1)
  from customer_created.hyps show ?case
  proof (cases rule: create_cases)
    case (1 q)
    have c': "cu_id c' = next_customer_id a" by (simp add: 1(3) created_customer_def new_customer_def)
    then have "i < cu_id c'" "ac_sequence a \<le> cu_id c'"
      using endedD(2) [OF ended] by (simp_all add: next_customer_id_def)
    then show ?thesis
      using endedD(4) [OF ended] 1(4) by (intro ended_put [OF ended, of _ c']) auto
  qed
next
  case (customer_deleted history i a')
  then show ?case using deleted_ended by blast
qed

lemma account_step_ended:
  "account_step v a g a' \<Longrightarrow> ended (au_token_hash v t) k i a \<Longrightarrow> token_claims v t i j \<Longrightarrow> j \<le> k
    \<Longrightarrow> ended (au_token_hash v t) k i a'"
proof (induction rule: account_step.induct)
  case (other g a')
  then show ?case by (rule identity_step_ended)
next
  case (customer_edited p n a' c')
  from customer_edited.hyps show ?case
  proof (cases rule: edited_cases)
    case (1 c)
    have "cu_id c = n" by (rule has_id_get [OF endedD(1) [OF customer_edited.prems(1)] 1(1)])
    with 1 show ?thesis using updated_ended [OF 1(2,3) _ customer_edited.prems(1)] by simp
  qed
qed

lemma reachable_ended:
  "accounts_reachable v a0 a g \<Longrightarrow> ended (au_token_hash v t) k i a0 \<Longrightarrow> token_claims v t i j \<Longrightarrow> j \<le> k
    \<Longrightarrow> ended (au_token_hash v t) k i a"
proof (induction rule: accounts_reachable.induct)
  case opened
  then show ?case by simp
next
  case (moved a g g' a')
  then show ?case using account_step_ended by blast
qed

section \<open>Reading a customer id back\<close>

lemma show_nat_digits: "list_all is_digit (show_nat n)"
proof (induction n rule: show_nat.induct)
  case (1 n)
  have digit: "is_digit (digit m)" if "m < 10" for m
  proof -
    from that have "m = 0 \<or> m = 1 \<or> m = 2 \<or> m = 3 \<or> m = 4 \<or> m = 5 \<or> m = 6 \<or> m = 7 \<or> m = 8 \<or> m = 9"
      by arith
    then show ?thesis by (elim disjE) (simp_all add: digit_def is_digit_def)
  qed
  show ?case
  proof (cases "n < 10")
    case True
    then show ?thesis by (simp add: show_nat.simps [of n] digit)
  next
    case False
    with 1 show ?thesis by (simp add: show_nat.simps [of n] digit)
  qed
qed

lemma digits_groups: "list_all is_digit ds \<Longrightarrow> ds \<noteq> [] \<Longrightarrow> digit_groups ds"
proof (induction ds rule: digit_groups.induct)
  case (3 c d cs)
  have "d \<noteq> CHR ''_''" using "3.prems"(1) by (auto simp: is_digit_def)
  with 3 show ?case by simp
qed simp_all

lemma digits_value_read:
  assumes "list_all is_digit ds"
  shows "digits_value ds = int (read_nat ds)"
proof -
  have code: "48 \<le> (of_char c :: nat)" "(of_char c :: int) = int (of_char c)" if "is_digit c" for c
    using that by (auto simp: is_digit_def Let_def)
  have "foldl (\<lambda>n c. 10 * n + (of_char c - 48)) (int m) ds = int (foldl (\<lambda>n c. 10 * n + (of_char c - 48)) m ds)" for m
    using assms
  proof (induction ds arbitrary: m)
    case (Cons c cs)
    have "10 * int m + (of_char c - 48) = int (10 * m + (of_char c - 48))"
      using Cons.prems code [of c] by (simp add: of_nat_diff)
    moreover have "list_all is_digit cs" using Cons.prems by simp
    ultimately show ?case unfolding foldl_Cons using Cons.IH by metis
  qed simp
  moreover have "filter is_digit ds = ds" using assms by (simp add: list_all_iff)
  ultimately show ?thesis
    unfolding digits_value_def read_nat_def by (metis of_nat_0)
qed

lemma parse_show_int:
  assumes "0 \<le> i"
  shows "parse_int (show_int i) = Some i"
proof -
  define ds where "ds = show_nat (nat i)"
  have ds: "list_all is_digit ds" "ds \<noteq> []" "show_int i = ds"
    using show_nat_digits show_nat_head assms by (simp_all add: ds_def show_int_def)
  have "strip ds = ds" using ds(1) digit_allowed by (intro strip_no_space) (auto simp: list_all_iff)
  moreover have "\<not> starts_with ds ''-''" "\<not> starts_with ds ''+''"
    using ds(1,2) by (cases ds; auto simp: starts_with_def is_digit_def)+
  ultimately show ?thesis
    using digits_groups [OF ds(1,2)] digits_value_read [OF ds(1)] assms
    by (simp add: parse_int_def ds(3) ds_def read_show_nat)
qed

section \<open>Witness data\<close>

text \<open>A day at the counter: a code, a wrong guess, a sign-in, a second code, a change of the phone.\<close>

definition demo_decode :: "instant \<Rightarrow> string \<Rightarrow> claims option" where
  "demo_decode now token = map_option (\<lambda>k. \<lparr>cl_sub = Some (takeWhile (\<lambda>c. c \<noteq> CHR '':'') token),
     cl_scope = Some ''customer'', cl_version = Some k\<rparr>) (parse_int (second_part token))"

definition demo_auth :: auth_env where
  "demo_auth = \<lparr>au_delivery = True, au_ttl = 600000000, au_resend = 120000000, au_max_sends = 3,
     au_max_attempts = 5, au_hash = (\<lambda>phone code. phone @ ''/'' @ code), au_token_hash = id,
     au_issue = (\<lambda>now i k jti. show_int i @ '':'' @ show_int k @ '':'' @ jti), au_decode = demo_decode\<rparr>"

definition demo_accounts :: accounts where
  "demo_accounts = \<lparr>ac_salon = demo_open_salon, ac_sequence = 8, ac_otps = [], ac_sessions = []\<rparr>"

abbreviation demo_phone :: string where "demo_phone \<equiv> ''+380501112233''"

definition demo_coded :: accounts where
  "demo_coded = fst (request_otp demo_auth demo_accounts 0 ''111111'' (Inr ()) demo_phone)"

definition demo_guessed :: accounts where
  "demo_guessed = fst (verify_otp demo_auth demo_coded 1000000 ''a'' demo_phone ''222222'')"

definition demo_signed :: accounts where
  "demo_signed = fst (verify_otp demo_auth demo_coded 1000000 ''a'' demo_phone ''111111'')"

definition demo_recoded :: accounts where
  "demo_recoded = fst (request_otp demo_auth demo_signed 130000000 ''333333'' (Inr ()) demo_phone)"

lemma demo_accounts_ok: "accounts_ok demo_accounts"
  using demo_customers_ok
  by (simp add: accounts_ok_def demo_accounts_def demo_open_salon_def customers_ok_def identities_unique_def
      rows_def demo_promo_defs)

lemma requested_reachable:
  "accounts_reachable v a (fst (request_otp v a now code sent phone)) []"
  using accounts_reachable.moved [OF accounts_reachable.opened account_step.other [OF identity_step.code_requested],
      of v a now code sent phone "fst (request_otp v a now code sent phone)"
        "snd (request_otp v a now code sent phone)"] by simp

lemma demo_guessed_reached: "accounts_reachable demo_auth demo_accounts demo_guessed [(demo_phone, 0, 1000000)]"
proof -
  have "guess_made (normalize_phone demo_phone) 1000000 demo_coded demo_guessed = [(demo_phone, 0, 1000000)]"
    by code_simp
  moreover have "account_step demo_auth demo_coded
      (guess_made (normalize_phone demo_phone) 1000000 demo_coded demo_guessed) demo_guessed"
    using identity_step.signed_in [of demo_auth demo_coded 1000000 "''a''" demo_phone "''222222''"]
    by (intro account_step.other) (simp add: demo_guessed_def prod_eq_iff)
  ultimately show ?thesis
    using accounts_reachable.moved [OF requested_reachable [of demo_auth demo_accounts]]
    by (fastforce simp: demo_coded_def)
qed

section \<open>Properties\<close>

text \<open>C32: in every state reached from an empty table of codes, no phone has been sent more codes on a
  day than the limit allows, two codes of a phone are at least the resend interval apart, and on the
  day a code was sent no more guesses were made at the codes of its phone than the limit allows.\<close>

theorem one_time_code_limits:
  assumes "accounts_reachable v a0 a g" and "ac_otps a0 = []"
    and "0 \<le> au_max_sends v" and "0 \<le> au_max_attempts v"
  shows "sent_count_today (ac_otps a) q now \<le> au_max_sends v
    \<and> codes_spaced v (ac_otps a) \<and> same_day_guesses g q now \<le> au_max_attempts v"
  using reachable_codes [OF assms(1), of "[]"] codes_ok_empty [OF assms(3,4)] assms(2) by (simp add: codes_ok_def)

theorem one_time_code_limits_witness:
  "sent_count_today (ac_otps demo_guessed) demo_phone 1000000 = 1
   \<and> same_day_guesses [(demo_phone, 0, 1000000)] demo_phone 1000000 = 1
   \<and> sent_count_today (ac_otps demo_guessed) demo_phone 1000000 \<le> 3
   \<and> codes_spaced demo_auth (ac_otps demo_guessed)
   \<and> same_day_guesses [(demo_phone, 0, 1000000)] demo_phone 1000000 \<le> 5"
proof -
  have start: "ac_otps demo_accounts = []" "0 \<le> au_max_sends demo_auth" "0 \<le> au_max_attempts demo_auth"
    "au_max_sends demo_auth = 3" "au_max_attempts demo_auth = 5"
    by (simp_all add: demo_accounts_def demo_auth_def)
  have "sent_count_today (ac_otps demo_guessed) demo_phone 1000000 = 1"
    "same_day_guesses [(demo_phone, 0, 1000000)] demo_phone 1000000 = 1" by code_simp+
  then show ?thesis
    using one_time_code_limits [OF demo_guessed_reached start(1-3), of demo_phone 1000000] start(4,5) by simp
qed

text \<open>C13: a code opens one account once: two times a phone's code was accepted, for signing in or for
  moving an account to the phone, took two codes, sent at least the resend interval apart, each
  unexpired and entered correctly.\<close>

theorem code_opens_once:
  assumes "accounts_reachable v a0 a g" and "ac_otps a0 = []"
    and "0 \<le> au_max_sends v" and "0 \<le> au_max_attempts v" and "0 < au_resend v"
    and "opens v a now q code a1" and "accounts_reachable v a1 a2 g'" and "opens v a2 later q code' a3"
  shows "\<exists>c d. latest_otp (ac_otps a) q = Some c \<and> latest_otp (ac_otps a2) q = Some d
    \<and> oc_sent_at c + au_resend v \<le> oc_sent_at d
    \<and> au_hash v q code = oc_code_hash c \<and> now \<le> oc_expires_at c
    \<and> au_hash v q code' = oc_code_hash d \<and> later \<le> oc_expires_at d"
proof -
  have ok: "codes_ok v (ac_otps a) g"
    using reachable_codes [OF assms(1), of "[]"] codes_ok_empty [OF assms(3,4)] assms(2) by simp
  then have has: "has_id oc_id (ac_otps a)" by (simp add: codes_ok_def)
  obtain c where c: "latest_otp (ac_otps a) q = Some c" "now \<le> oc_expires_at c" "au_hash v q code = oc_code_hash c"
    and a1: "ac_otps a1 = put (oc_id c) (used now (counted c)) (ac_otps a)"
    by (rule opens_latest [OF assms(6)])
  obtain d where d: "latest_otp (ac_otps a2) q = Some d" "later \<le> oc_expires_at d"
      "au_hash v q code' = oc_code_hash d" "oc_verified_at d = None"
    by (rule opens_latest [OF assms(8)])
  obtain g1 where step: "otp_event v (ac_otps a) g1 (ac_otps a1)"
    using opens_event [OF assms(6) has] by blast
  have "redeemed_code (ac_otps a1) c" by (simp add: a1 redeemed_code_def used_def counted_def)
  then have a2: "has_id oc_id (ac_otps a2)" "redeemed_code (ac_otps a2) c"
    using reachable_redeemed [OF assms(7) otp_event_has_id [OF step has]] by blast+
  then obtain c2 where c2: "get (ac_otps a2) (oc_id c) = Some c2" "oc_verified_at c2 \<noteq> None"
      "oc_phone c2 = oc_phone c" "oc_sent_at c2 = oc_sent_at c"
    by (auto simp: redeemed_code_def)
  have "codes_ok v (ac_otps a1) (g @ g1)" by (rule otp_event_ok [OF step ok])
  then have "codes_spaced v (ac_otps a2)" using reachable_codes [OF assms(7)] by (fastforce simp: codes_ok_def)
  note dd = latest_otp_Some [OF d(1)]
  have row: "c2 \<in> set (rows (ac_otps a2))" using c2(1) by (rule get_in_rows)
  have phones: "oc_phone c2 = q" using c2(3) latest_otp_Some(2) [OF c(1)] by simp
  have "oc_id c2 = oc_id c" by (rule has_id_get [OF a2(1) c2(1)])
  have "oc_id c2 \<noteq> oc_id d"
    using has_id_inj [OF a2(1) row dd(1)] c2(2) d(4) by auto
  then have "oc_sent_at c2 + au_resend v \<le> oc_sent_at d \<or> oc_sent_at d + au_resend v \<le> oc_sent_at c2"
    using \<open>codes_spaced v (ac_otps a2)\<close> row dd(1,2) phones unfolding codes_spaced_def by metis
  moreover have "oc_sent_at c2 \<le> oc_sent_at d" by (rule dd(3) [OF row phones])
  ultimately have "oc_sent_at c + au_resend v \<le> oc_sent_at d" using assms(5) c2(4) by linarith
  with c d show ?thesis by blast
qed

text \<open>The second sign-in of the witness.\<close>

lemma demo_opens:
  "opens demo_auth demo_coded 1000000 demo_phone ''111111'' demo_signed"
  "opens demo_auth demo_recoded 140000000 demo_phone ''333333''
     (fst (verify_otp demo_auth demo_recoded 140000000 ''b'' demo_phone ''333333''))"
proof -
  have phone: "normalize_phone demo_phone = Inr demo_phone" by code_simp
  have ran: "case verify_otp demo_auth demo_coded 1000000 ''a'' demo_phone ''111111'' of
      (a, r) \<Rightarrow> (case r of Inl _ \<Rightarrow> False | Inr _ \<Rightarrow> True)"
    "case verify_otp demo_auth demo_recoded 140000000 ''b'' demo_phone ''333333'' of
      (a, r) \<Rightarrow> (case r of Inl _ \<Rightarrow> False | Inr _ \<Rightarrow> True)" by code_simp+
  show "opens demo_auth demo_coded 1000000 demo_phone ''111111'' demo_signed"
    using ran(1) phone by (auto simp: demo_signed_def split: prod.splits sum.splits intro: opens.by_sign_in)
  show "opens demo_auth demo_recoded 140000000 demo_phone ''333333''
     (fst (verify_otp demo_auth demo_recoded 140000000 ''b'' demo_phone ''333333''))"
    using ran(2) phone by (auto split: prod.splits sum.splits intro: opens.by_sign_in)
qed

theorem code_opens_once_witness:
  "\<exists>c d. latest_otp (ac_otps demo_coded) demo_phone = Some c
     \<and> latest_otp (ac_otps demo_recoded) demo_phone = Some d \<and> oc_sent_at c + 120000000 \<le> oc_sent_at d"
proof -
  have start: "ac_otps demo_accounts = []" "0 \<le> au_max_sends demo_auth" "0 \<le> au_max_attempts demo_auth"
    "0 < au_resend demo_auth" "au_resend demo_auth = 120000000"
    by (simp_all add: demo_accounts_def demo_auth_def)
  have "accounts_reachable demo_auth demo_accounts demo_coded []"
    "accounts_reachable demo_auth demo_signed demo_recoded []"
    unfolding demo_coded_def demo_recoded_def by (rule requested_reachable)+
  from code_opens_once [OF this(1) start(1-4) demo_opens(1) this(2) demo_opens(2)] start(5)
  show ?thesis by auto
qed

text \<open>C14: through the customers' own operations and the creation and deletion of customers, two
  customers never have the same phone identity: the invariant of the accounts (ids are the keys and
  below the sequence, phones are not empty, identities are unique) is kept by every step.\<close>

theorem one_account_per_phone:
  assumes "(\<lambda>x y. \<exists>g. identity_step v x g y)\<^sup>*\<^sup>* a a'" and "accounts_ok a"
  shows "accounts_ok a' \<and> identities_unique (ac_salon a')"
  using assms
proof (induction rule: rtranclp.induct)
  case (rtrancl_refl a)
  then show ?case using accounts_okD(2) by blast
next
  case (rtrancl_into_rtrancl a b c)
  then show ?case using identity_step_ok accounts_okD(2) by blast
qed

theorem one_account_per_phone_witness:
  "accounts_ok demo_signed \<and> length (rows (customers (ac_salon demo_signed))) = 2"
proof -
  let ?step = "\<lambda>x y. \<exists>g. identity_step demo_auth x g y"
  have "?step demo_accounts demo_coded"
    unfolding demo_coded_def by (intro exI [of _ "[]"] identity_step.code_requested [OF surjective_pairing])
  moreover have "identity_step demo_auth demo_coded
      (guess_made (normalize_phone demo_phone) 1000000 demo_coded demo_signed) demo_signed"
    unfolding demo_signed_def by (rule identity_step.signed_in [OF surjective_pairing])
  then have "?step demo_coded demo_signed" by blast
  ultimately have "?step\<^sup>*\<^sup>* demo_accounts demo_signed" by (rule rtranclp.rtrancl_into_rtrancl [OF r_into_rtranclp])
  from one_account_per_phone [OF this demo_accounts_ok] have "accounts_ok demo_signed" by blast
  moreover have "length (rows (customers (ac_salon demo_signed))) = 2" by code_simp
  ultimately show ?thesis by blast
qed

text \<open>
  The back office checks a new phone only against equal phones: giving customer 8 the local form of
  the phone of customer 7 succeeds, and both then have one identity.
\<close>

definition demo_edit :: customer_patch where
  "demo_edit = \<lparr>cp_phone = Some (Some ''0671234567''), cp_email = None, cp_name = None, cp_surname = None,
     cp_imported_total_spent = None, cp_imported_last_visit_at = None, cp_is_active = None\<rparr>"

lemma back_office_edit_shares_identity:
  "case backoffice_update_customer demo_signed 8 demo_edit of
     Inl _ \<Rightarrow> False
   | Inr (a, c) \<Rightarrow> (case get (customers (ac_salon a)) 7 of
        None \<Rightarrow> False | Some d \<Rightarrow> identity_key c = identity_key d \<and> cu_id c \<noteq> cu_id d)"
  unfolding identity_key_def by code_simp

text \<open>C12: changing the verified phone ends the other sessions for good: the session that changed it
  stays allowed, and any other token of the customer issued up to the version of before is refused at
  every later time in every state the accounts can reach.\<close>

theorem phone_change_revokes:
  assumes "confirm_phone_change v a now i token phone code = (a1, Inr c)" and "accounts_ok a"
    and "accounts_reachable v a1 a2 g"
    and "token_claims v t i j" and "j \<le> se_version (session_of a i)" and "t \<noteq> token"
  shows "customer_token_allowed v now a1 c token \<and> current_customer v later a2 t = credentials_exception"
  using assms(1)
proof (cases rule: confirm_cases)
  case (right q otp customer)
  note ok = accounts_okD [OF assms(2)]
  have id: "cu_id customer = i" by (rule has_id_get [OF ok(3) right(5)])
  have c: "c = customer\<lparr>cu_phone := q\<rparr>" using right(10) by simp
  have session: "session_of a1 i = revoked (au_token_hash v token) now (session_of a i)"
    by (simp add: right(11) session_of_put id)
  have "customer_token_allowed v now a1 c token"
    using right(6) session by (auto simp: customer_token_allowed_def c id revoked_def split: option.splits if_splits)
  moreover have "ended (au_token_hash v t) (se_version (session_of a i)) i a1"
  proof -
    note ok1 = accounts_okD [OF confirmed_ok [OF assms(1,2)]]
    have "au_token_hash v token \<noteq> au_token_hash v t" using assms(4,6) by (auto simp: token_claims_def)
    moreover have "i < ac_sequence a1" using ok(4) [OF get_in_rows [OF right(5)]] id by (simp add: right(11))
    ultimately show ?thesis using ok1(3,4) by (simp add: ended_def session revoked_def)
  qed
  from reachable_ended [OF assms(3) this assms(4,5)]
  have ended: "ended (au_token_hash v t) (se_version (session_of a i)) i a2" .
  have "\<not> customer_token_allowed v later a2 x t" if "get (customers (ac_salon a2)) n = Some x" for n x
  proof
    assume allowed: "customer_token_allowed v later a2 x t"
    then obtain p where p: "au_decode v later t = Some p" "cl_sub p = Some (show_int (cu_id x))"
      by (auto simp: customer_token_allowed_def split: option.splits if_splits)
    have "cl_sub p = Some (show_int i)"
      using assms(4) p(1) by (auto simp: token_claims_def split: option.splits dest: spec [of _ later])
    then have "cu_id x = i" using p(2) by (simp add: show_int_inj)
    then have "get (customers (ac_salon a2)) i = Some x"
      using that has_id_get [OF endedD(1) [OF ended] that] by simp
    from ended_not_allowed [OF assms(4,5) ended this] allowed show False by blast
  qed
  then have "current_customer v later a2 t = credentials_exception"
    by (auto simp: current_customer_def Let_def split: option.splits)
  ultimately show ?thesis by blast
qed simp_all

definition demo_moving :: accounts where
  "demo_moving = fst (request_otp demo_auth demo_signed 2000000 ''444444'' (Inr ()) ''+380671110000'')"

lemma demo_steps_ok: "accounts_ok demo_coded" "accounts_ok demo_signed" "accounts_ok demo_moving"
proof -
  show coded: "accounts_ok demo_coded"
    unfolding demo_coded_def
    by (rule identity_step_ok [OF identity_step.code_requested [OF surjective_pairing] demo_accounts_ok])
  then show signed: "accounts_ok demo_signed"
    unfolding demo_signed_def by (rule identity_step_ok [OF identity_step.signed_in [OF surjective_pairing]])
  then show "accounts_ok demo_moving"
    unfolding demo_moving_def by (rule identity_step_ok [OF identity_step.code_requested [OF surjective_pairing]])
qed

lemma demo_token_claims: "token_claims demo_auth ''8:0:b'' 8 0"
proof -
  have "demo_decode m ''8:0:b'' = Some \<lparr>cl_sub = Some (show_int 8), cl_scope = Some ''customer'', cl_version = Some 0\<rparr>" for m
    unfolding demo_decode_def by code_simp
  then show ?thesis by (simp add: token_claims_def demo_auth_def)
qed

theorem phone_change_revokes_witness:
  "current_customer demo_auth 2500000 demo_moving ''8:0:b'' \<noteq> credentials_exception
   \<and> (\<exists>a1 c. confirm_phone_change demo_auth demo_moving 3000000 8 ''8:0:a'' ''+380671110000'' ''444444'' = (a1, Inr c)
        \<and> customer_token_allowed demo_auth 3000000 a1 c ''8:0:a''
        \<and> current_customer demo_auth 3500000 a1 ''8:0:b'' = credentials_exception)"
proof -
  define run where "run = confirm_phone_change demo_auth demo_moving 3000000 8 ''8:0:a'' ''+380671110000'' ''444444''"
  have "case run of (a, r) \<Rightarrow> (case r of Inl _ \<Rightarrow> False | Inr _ \<Rightarrow> True)"
    "case current_customer demo_auth 2500000 demo_moving ''8:0:b'' of Inl _ \<Rightarrow> False | Inr _ \<Rightarrow> True"
    "0 \<le> se_version (session_of demo_moving 8)"
    unfolding run_def by code_simp+
  then obtain a1 c where run: "run = (a1, Inr c)"
    and before: "current_customer demo_auth 2500000 demo_moving ''8:0:b'' \<noteq> credentials_exception"
    and version: "0 \<le> se_version (session_of demo_moving 8)"
    by (cases run) (auto simp: credentials_exception_def split: sum.splits)
  have "''8:0:b'' \<noteq> ''8:0:a''" by simp
  from phone_change_revokes [OF run [unfolded run_def] demo_steps_ok(3) accounts_reachable.opened
      demo_token_claims version this] before run
  show ?thesis unfolding run_def [symmetric] by blast
qed

text \<open>C33: the token a sign-in returns is the account's: when decoding it gives back what it was issued
  with, it authenticates the customer that signed in, whose phone is the one that was verified.\<close>

theorem sign_in_round_trip:
  assumes "verify_otp v a now jti phone code = (a', Inr (c, token, fresh, left))" and "accounts_ok a"
    and "au_decode v now (au_issue v now (cu_id c) (se_version (session_of a' (cu_id c))) jti)
      = Some \<lparr>cl_sub = Some (show_int (cu_id c)), cl_scope = Some ''customer'',
              cl_version = Some (se_version (session_of a' (cu_id c)))\<rparr>"
  shows "current_customer v now a' token = Inr c
    \<and> (\<exists>q. normalize_phone phone = Inr q \<and> canonical_booking_phone (cu_phone c) = canonical_booking_phone q)"
  using assms(1)
proof (cases rule: verify_cases)
  case (right q otp customer fresh' left')
  have token: "customer = c" "token = au_issue v now (cu_id c) (se_version (session_of a' (cu_id c))) jti"
    using right(8) by (simp_all add: issue_access_token_def)
  have "accounts_ok (put_otp (used now (counted otp)) a)"
    using assms(2) by (simp add: accounts_ok_def)
  note signed = sign_in_ok [OF right(7) this normal_phone_nonempty [OF right(1)]]
  then have "0 < cu_id c" "get (customers (ac_salon a')) (cu_id c) = Some c"
    using accounts_okD(4) get_in_rows by (fastforce simp: token(1))+
  moreover have "show_int (cu_id c) \<noteq> []"
    using \<open>0 < cu_id c\<close> show_nat_head by (simp add: show_int_def)
  ultimately have "current_customer v now a' token = Inr c"
    using assms(3) by (simp add: current_customer_def customer_token_allowed_def token(2) parse_show_int truthy_text_def)
  then show ?thesis using right(1) signed token(1) by simp
qed simp_all

theorem sign_in_round_trip_witness:
  "\<exists>c token fresh left. verify_otp demo_auth demo_coded 1000000 ''a'' demo_phone ''111111''
       = (demo_signed, Inr (c, token, fresh, left))
     \<and> current_customer demo_auth 1000000 demo_signed token = Inr c"
proof -
  define run where "run = verify_otp demo_auth demo_coded 1000000 ''a'' demo_phone ''111111''"
  have "case run of (a, r) \<Rightarrow> (case r of Inl _ \<Rightarrow> False | Inr (c, token, fresh, left) \<Rightarrow>
      au_decode demo_auth 1000000 (au_issue demo_auth 1000000 (cu_id c) (se_version (session_of a (cu_id c))) ''a'')
      = Some \<lparr>cl_sub = Some (show_int (cu_id c)), cl_scope = Some ''customer'',
              cl_version = Some (se_version (session_of a (cu_id c)))\<rparr>)"
    unfolding run_def by code_simp
  then obtain a c token fresh left where run: "run = (a, Inr (c, token, fresh, left))"
    and decodes: "au_decode demo_auth 1000000
        (au_issue demo_auth 1000000 (cu_id c) (se_version (session_of a (cu_id c))) ''a'')
      = Some \<lparr>cl_sub = Some (show_int (cu_id c)), cl_scope = Some ''customer'',
              cl_version = Some (se_version (session_of a (cu_id c)))\<rparr>"
    by (cases run) (auto split: sum.splits prod.splits)
  have "a = demo_signed" using run by (simp add: demo_signed_def run_def)
  with sign_in_round_trip [OF run [unfolded run_def] demo_steps_ok(1) decodes] run
  show ?thesis unfolding run_def [symmetric] by blast
qed

end
