(* ===== verification/Warehouse.thy ===== *)
theory Warehouse
  imports Phones
begin

text \<open>
  The rows of the shop's stock, \<^verbatim>\<open>app/models/product.py\<close>,
  \<^verbatim>\<open>app/models/order.py\<close> and \<^verbatim>\<open>app/models/inventory.py\<close>, the record of
  their tables and the one way stock moves: a balance changes together with a ledger entry. Money is
  in hundredths. A payload hash is represented by the payload it digests.
\<close>

section \<open>Rows\<close>

datatype movement_type = Opening_balance | Supplier_receipt | Reservation | Reservation_release | Shipment
  | Customer_return | Write_off | Inventory_adjustment

datatype document_status = Draft | Posted

datatype order_status = Order_pending | Order_confirmed | Order_paid | Order_completed | Order_cancelled

datatype procurement_status = Not_required | To_order | Ordered | Received

text \<open>The request that created a product card, kept for replays.\<close>

record product_card =
  pc_name :: string
  pc_sku :: "string option"
  pc_barcode :: "string option"
  pc_brand_id :: "int option"
  pc_category_id :: "int option"
  pc_model_name :: "string option"
  pc_package_size :: "string option"
  pc_volume_ml :: "int option"
  pc_image_url :: "string option"
  pc_price :: int

record product =
  pd_id :: int
  pd_name :: string
  pd_sku :: "string option"
  pd_barcode :: "string option"
  pd_barcode_bound_by :: "int option"
  pd_price :: int
  pd_shop_price :: "int option"
  pd_brand_id :: "int option"
  pd_category_id :: "int option"
  pd_stock_quantity :: int
  pd_reserved_quantity :: int
  pd_purchase_unit_cost :: "int option"
  pd_purchase_cost_receipt_id :: "int option"
  pd_allow_backorder :: bool
  pd_is_active :: bool
  pd_created_by :: "int option"
  pd_creation_key :: "string option"
  pd_creation_payload :: "product_card option"

record order_item =
  oi_id :: int
  oi_order_id :: int
  oi_product_id :: int
  oi_quantity :: int
  oi_quantity_from_stock :: int
  oi_quantity_to_order :: int
  oi_quantity_received_for_order :: int
  oi_procurement_status :: procurement_status
  oi_base_price :: int
  oi_price :: int
  oi_discount_amount :: int
  oi_shop_promotion_id :: "int option"
  oi_promotion_name :: "string option"
  oi_promotion_code :: "string option"
  oi_total_price :: int

record order =
  od_id :: int
  od_status :: order_status
  od_channel :: "string option"
  od_simulation :: bool
  od_customer_id :: "int option"
  od_revision :: int
  od_customer_phone :: "string option"
  od_subtotal_amount :: int
  od_discount_amount :: int
  od_promo_code :: "string option"
  od_total_amount :: int
  od_handed_over :: bool

record movement =
  mv_id :: int
  mv_product_id :: int
  mv_movement_type :: movement_type
  mv_quantity :: int
  mv_on_hand_delta :: int
  mv_reserved_delta :: int
  mv_order_id :: "int option"
  mv_order_item_id :: "int option"
  mv_receipt_id :: "int option"
  mv_inventory_count_id :: "int option"
  mv_performed_by_user_id :: "int option"
  mv_reference_key :: "string option"
  mv_reason :: "string option"

record receipt =
  rc_id :: int
  rc_revision :: int
  rc_status :: document_status
  rc_reason :: string
  rc_comment :: "string option"
  rc_posted_at :: "int option"
  rc_posted_by_user_id :: "int option"
  rc_idempotency_key :: "string option"
  rc_posted_idempotency_key :: "string option"

record receipt_item =
  ri_id :: int
  ri_receipt_id :: int
  ri_product_id :: int
  ri_quantity :: int
  ri_purchase_unit_cost :: int
  ri_batch_number :: "string option"
  ri_expiration_date :: "int option"

record receipt_allocation =
  al_id :: int
  al_receipt_item_id :: int
  al_order_item_id :: int
  al_quantity :: int

record scan_payload =
  sp_product_id :: "int option"
  sp_barcode :: "string option"
  sp_quantity :: int
  sp_purchase_unit_cost :: int
  sp_batch_number :: "string option"
  sp_expiration_date :: "int option"
  sp_allocations :: "(int \<times> int) list"

record item_request =
  rq_receipt_id :: int
  rq_idempotency_key :: string
  rq_payload :: scan_payload

record inventory_count =
  ct_id :: int
  ct_status :: document_status
  ct_reason :: string
  ct_posted_at :: "int option"
  ct_posted_by_user_id :: "int option"
  ct_idempotency_key :: "string option"
  ct_posted_idempotency_key :: "string option"

record count_item =
  ci_id :: int
  ci_inventory_count_id :: int
  ci_product_id :: int
  ci_expected_quantity :: int
  ci_counted_quantity :: int

text \<open>
  The state of a receipt line before and after a change; corrections also note the product's cost and
  the receipt it comes from.
\<close>

record line_snapshot =
  ls_product_id :: int
  ls_quantity :: int
  ls_purchase_unit_cost :: int
  ls_batch_number :: "string option"
  ls_expiration_date :: "int option"
  ls_allocations :: "(int \<times> int) list"
  ls_product_cost :: "(int option \<times> int option) option"

datatype receipt_command = Draft_update int int "(int \<times> int) list" | Draft_delete | Posted_correction int int

record change_payload =
  cp_expected_revision :: int
  cp_reason :: string
  cp_command :: receipt_command

record receipt_change =
  rx_id :: int
  rx_receipt_id :: int
  rx_target_item_id :: int
  rx_actor_id :: int
  rx_idempotency_key :: string
  rx_payload :: "int \<times> change_payload"
  rx_reason :: string
  rx_applied_revision :: int
  rx_before :: line_snapshot
  rx_after :: "line_snapshot option"
  rx_on_hand_delta :: int
  rx_purchase_value_delta :: int
  rx_movement_id :: "int option"

text \<open>
  A checkout: its lines, the resolved phone, the promotion code and, as one text, the remaining
  contact, delivery and payment fields. An intent is kept under its scope and key.
\<close>

record checkout =
  ck_items :: "(int \<times> int) list"
  ck_phone :: "string option"
  ck_promo_code :: "string option"
  ck_details :: string

type_synonym intent_key = "string \<times> string"

text \<open>
  A promotion of the shop (\<^verbatim>\<open>app/models/shop_promotion.py\<close>): what an administrator submits, and the
  stored row. Percentages, like money, are in hundredths; periods are instants.
\<close>

datatype promotion_trigger = Automatic_trigger | Promocode_trigger

datatype discount_type = Percent | Fixed_amount | Fixed_price

record shop_promotion_data =
  sh_name :: string
  sh_trigger :: promotion_trigger
  sh_code :: "string option"
  sh_discount_type :: discount_type
  sh_discount_value :: int
  sh_priority :: int
  sh_starts_at :: "int option"
  sh_ends_at :: "int option"
  sh_usage_limit :: "int option"
  sh_usage_limit_per_customer :: "int option"
  sh_applies_to_all_products :: bool
  sh_include_subcategories :: bool
  sh_product_ids :: "int list"
  sh_category_ids :: "int list"
  sh_brand_ids :: "int list"
  sh_is_active :: bool

record shop_promotion = shop_promotion_data +
  sh_id :: int

record warehouse =
  products :: "product table"
  order_items :: "order_item table"
  orders :: "order table"
  movements :: "movement table"
  receipts :: "receipt table"
  receipt_items :: "receipt_item table"
  receipt_allocations :: "receipt_allocation table"
  item_requests :: "item_request table"
  counts :: "inventory_count table"
  count_items :: "count_item table"
  receipt_changes :: "receipt_change table"
  shop_promotions :: "shop_promotion table"
  intents :: "(intent_key \<times> (checkout \<times> int option)) list"

definition empty_warehouse :: warehouse where
  "empty_warehouse = \<lparr>products = [], order_items = [], orders = [], movements = [], receipts = [],
     receipt_items = [], receipt_allocations = [], item_requests = [], counts = [], count_items = [],
     receipt_changes = [], shop_promotions = [], intents = []\<rparr>"

text \<open>A key is used only if it is present and not empty.\<close>

definition truthy_key :: "string option \<Rightarrow> bool" where
  "truthy_key key \<longleftrightarrow> (case key of None \<Rightarrow> False | Some k \<Rightarrow> k \<noteq> [])"

definition available_quantity :: "product \<Rightarrow> int" where
  "available_quantity p = pd_stock_quantity p - pd_reserved_quantity p"

section \<open>Moving stock\<close>

text \<open>
  The constraints of \<open>inventory_movements\<close>: a positive quantity, some change, a unique reference
  key. The table is append-only.
\<close>

definition movement_valid :: "movement \<Rightarrow> bool" where
  "movement_valid m \<longleftrightarrow> 0 < mv_quantity m \<and> (mv_on_hand_delta m \<noteq> 0 \<or> mv_reserved_delta m \<noteq> 0)"

definition reference_used :: "warehouse \<Rightarrow> string option \<Rightarrow> bool" where
  "reference_used db key \<longleftrightarrow> key \<noteq> None \<and> select_where (\<lambda>m. mv_reference_key m = key) (movements db) \<noteq> []"

definition add_movement :: "movement \<Rightarrow> warehouse \<Rightarrow> warehouse result" where
  "add_movement m db =
     (if \<not> movement_valid m \<or> reference_used db (mv_reference_key m) then Inl IntegrityError
      else Inr (db\<lparr>movements := put (next_id (movements db)) (m\<lparr>mv_id := next_id (movements db)\<rparr>) (movements db)\<rparr>))"

text \<open>
  Every service changes a balance and adds the movement that records it. The product's own check
  constraints are not modelled: that they cannot fail is a theorem about the services.
\<close>

definition apply_deltas :: "movement \<Rightarrow> product \<Rightarrow> product" where
  "apply_deltas m p = p\<lparr>pd_stock_quantity := pd_stock_quantity p + mv_on_hand_delta m,
     pd_reserved_quantity := pd_reserved_quantity p + mv_reserved_delta m\<rparr>"

definition post_movement :: "movement \<Rightarrow> warehouse \<Rightarrow> warehouse result" where
  "post_movement m db =
     (case get (products db) (mv_product_id m) of
        None \<Rightarrow> Inl KeyError
      | Some p \<Rightarrow> add_movement m (db\<lparr>products := put (mv_product_id m) (apply_deltas m p) (products db)\<rparr>))"

definition new_movement :: "int \<Rightarrow> movement_type \<Rightarrow> int \<Rightarrow> int \<Rightarrow> int \<Rightarrow> string option \<Rightarrow> int option \<Rightarrow> movement" where
  "new_movement product_id movement_type quantity on_hand_delta reserved_delta reason admin_user_id =
     \<lparr>mv_id = 0, mv_product_id = product_id, mv_movement_type = movement_type, mv_quantity = quantity,
      mv_on_hand_delta = on_hand_delta, mv_reserved_delta = reserved_delta, mv_order_id = None,
      mv_order_item_id = None, mv_receipt_id = None, mv_inventory_count_id = None,
      mv_performed_by_user_id = admin_user_id, mv_reference_key = None, mv_reason = reason\<rparr>"

section \<open>Ledgers\<close>

text \<open>
  What a service relies on when it books through a ledger: a posting adds exactly its delta to the
  balance of its account and exactly one entry, which carries that delta.
\<close>

locale ledger =
  fixes balance :: "'s \<Rightarrow> int \<Rightarrow> int option"
    and entries :: "'s \<Rightarrow> 'e list"
    and account :: "'e \<Rightarrow> int"
    and delta :: "'e \<Rightarrow> int"
    and post :: "'e \<Rightarrow> 's \<Rightarrow> 's result"
  assumes post_balance: "post e s = Inr s' \<Longrightarrow>
      balance s' i = (if i = account e then map_option (\<lambda>b. b + delta e) (balance s i) else balance s i)"
    and post_entry: "post e s = Inr s' \<Longrightarrow>
      \<exists>e'. entries s' = entries s @ [e'] \<and> account e' = account e \<and> delta e' = delta e"
begin

lemma balanced_post:
  assumes "post e s = Inr s'"
    and "\<And>i b. balance s i = Some b \<Longrightarrow> b = sum_list (map delta (filter (\<lambda>e. account e = i) (entries s)))"
    and "balance s' j = Some b"
  shows "b = sum_list (map delta (filter (\<lambda>e. account e = j) (entries s')))"
proof -
  obtain e' where e': "entries s' = entries s @ [e']" "account e' = account e" "delta e' = delta e"
    using post_entry [OF assms(1)] by blast
  show ?thesis
  proof (cases "j = account e")
    case True
    then obtain c where c: "balance s j = Some c" "b = c + delta e"
      using assms(3) post_balance [OF assms(1), of j] by (cases "balance s j") auto
    have "c = sum_list (map delta (filter (\<lambda>e. account e = j) (entries s)))" by (rule assms(2) [OF c(1)])
    with c e' True show ?thesis by simp
  next
    case False
    then have "balance s j = Some b" using assms(3) post_balance [OF assms(1), of j] by simp
    then have "b = sum_list (map delta (filter (\<lambda>e. account e = j) (entries s)))" by (rule assms(2))
    with e' False show ?thesis by simp
  qed
qed

lemma balanced_posts:
  assumes "for_each post es s = Inr s'"
    and "\<And>i b. balance s i = Some b \<Longrightarrow> b = sum_list (map delta (filter (\<lambda>e. account e = i) (entries s)))"
    and "balance s' j = Some b"
  shows "b = sum_list (map delta (filter (\<lambda>e. account e = j) (entries s')))"
  using assms
proof (induction es arbitrary: s)
  case Nil
  then show ?case by simp
next
  case (Cons e es)
  then obtain s1 where "post e s = Inr s1" "for_each post es s1 = Inr s'"
    by (auto simp: and_then_eq_Inr)
  with Cons.IH [of s1] balanced_post [of e s s1] Cons.prems(2,3) show ?case by blast
qed

end

definition on_hand :: "warehouse \<Rightarrow> int \<Rightarrow> int option" where
  "on_hand db i = map_option pd_stock_quantity (get (products db) i)"

definition reserved :: "warehouse \<Rightarrow> int \<Rightarrow> int option" where
  "reserved db i = map_option pd_reserved_quantity (get (products db) i)"

lemma post_movement_Inr:
  assumes "post_movement m db = Inr db'"
  obtains p where "get (products db) (mv_product_id m) = Some p"
    and "db' = db\<lparr>products := put (mv_product_id m) (apply_deltas m p) (products db),
      movements := put (next_id (movements db)) (m\<lparr>mv_id := next_id (movements db)\<rparr>) (movements db)\<rparr>"
    and "movement_valid m" and "\<not> reference_used db (mv_reference_key m)"
  using assms by (auto simp: post_movement_def add_movement_def reference_used_def split: option.splits if_splits)

interpretation stock_ledger: ledger on_hand "\<lambda>db. rows (movements db)" mv_product_id mv_on_hand_delta post_movement
  by unfold_locales (auto elim!: post_movement_Inr simp: on_hand_def get_put apply_deltas_def rows_put_next)

interpretation reservation_ledger: ledger reserved "\<lambda>db. rows (movements db)" mv_product_id mv_reserved_delta post_movement
  by unfold_locales (auto elim!: post_movement_Inr simp: reserved_def get_put apply_deltas_def rows_put_next)

section \<open>Sound books\<close>

text \<open>
  A product's balances are those its ledger entries add up to, what is reserved is on hand, and every
  entry is of a product.
\<close>

definition posted :: "(movement \<Rightarrow> int) \<Rightarrow> warehouse \<Rightarrow> int \<Rightarrow> int" where
  "posted d db i = sum_list (map d (filter (\<lambda>m. mv_product_id m = i) (rows (movements db))))"

definition account_ok :: "warehouse \<Rightarrow> int \<Rightarrow> bool" where
  "account_ok db i \<longleftrightarrow> (case get (products db) i of
      None \<Rightarrow> True
    | Some p \<Rightarrow> pd_id p = i \<and> pd_stock_quantity p = posted mv_on_hand_delta db i
        \<and> pd_reserved_quantity p = posted mv_reserved_delta db i
        \<and> 0 \<le> pd_reserved_quantity p \<and> pd_reserved_quantity p \<le> pd_stock_quantity p)"

definition books_ok :: "warehouse \<Rightarrow> bool" where
  "books_ok db \<longleftrightarrow> list_all (account_ok db) (ids (products db))
     \<and> list_all (\<lambda>m. on_hand db (mv_product_id m) \<noteq> None) (rows (movements db))"

lemma in_ids: "i \<in> set (ids t) \<longleftrightarrow> get t i \<noteq> None"
  by (auto simp: ids_def map_of_eq_None_iff)

lemma books_ok_iff: "books_ok db \<longleftrightarrow>
    (\<forall>i. account_ok db i) \<and> (\<forall>m \<in> set (rows (movements db)). on_hand db (mv_product_id m) \<noteq> None)"
  by (auto simp: books_ok_def list_all_iff in_ids account_ok_def split: option.splits)

lemma books_okD:
  assumes "books_ok db" and "get (products db) i = Some p"
  shows "pd_id p = i" and "pd_stock_quantity p = posted mv_on_hand_delta db i"
    and "pd_reserved_quantity p = posted mv_reserved_delta db i"
    and "0 \<le> pd_reserved_quantity p" and "pd_reserved_quantity p \<le> pd_stock_quantity p"
  using assms unfolding books_ok_iff account_ok_def by (auto dest: spec [of _ i])

lemma posted_no_product:
  assumes "books_ok db" and "get (products db) i = None"
  shows "posted d db i = 0"
proof -
  have "filter (\<lambda>m. mv_product_id m = i) (rows (movements db)) = []"
    using assms by (auto simp: books_ok_iff filter_empty_conv on_hand_def)
  then show ?thesis by (simp add: posted_def)
qed

text \<open>What the invariant sees of a product.\<close>

definition balances :: "warehouse \<Rightarrow> int \<Rightarrow> (int \<times> int \<times> int) option" where
  "balances db i = map_option (\<lambda>p. (pd_id p, pd_stock_quantity p, pd_reserved_quantity p)) (get (products db) i)"

lemma on_hand_balances: "on_hand db i = map_option (fst \<circ> snd) (balances db i)"
  by (simp add: on_hand_def balances_def option.map_comp o_def)

lemma books_ok_frame:
  assumes "\<And>i. balances db' i = balances db i" and "movements db' = movements db"
  shows "books_ok db' = books_ok db"
proof -
  have "account_ok db' i = account_ok db i" for i
    using assms(1) [of i] assms(2)
    by (cases "get (products db) i"; cases "get (products db') i")
      (simp_all add: balances_def account_ok_def posted_def)
  with assms show ?thesis by (simp add: books_ok_iff on_hand_balances)
qed

lemma books_ok_other_tables [simp]:
  "books_ok (db\<lparr>order_items := t0\<rparr>) = books_ok db"
  "books_ok (db\<lparr>orders := t1\<rparr>) = books_ok db"
  "books_ok (db\<lparr>receipts := t2\<rparr>) = books_ok db"
  "books_ok (db\<lparr>receipt_items := t3\<rparr>) = books_ok db"
  "books_ok (db\<lparr>receipt_allocations := t4\<rparr>) = books_ok db"
  "books_ok (db\<lparr>item_requests := t5\<rparr>) = books_ok db"
  "books_ok (db\<lparr>counts := t6\<rparr>) = books_ok db"
  "books_ok (db\<lparr>count_items := t7\<rparr>) = books_ok db"
  "books_ok (db\<lparr>receipt_changes := t8\<rparr>) = books_ok db"
  "books_ok (db\<lparr>intents := t9\<rparr>) = books_ok db"
  "books_ok (db\<lparr>shop_promotions := t10\<rparr>) = books_ok db"
  by (rule books_ok_frame; simp add: balances_def)+

lemma books_ok_put_product:
  assumes "get (products db) i = Some p" and "pd_id p' = pd_id p"
    and "pd_stock_quantity p' = pd_stock_quantity p" and "pd_reserved_quantity p' = pd_reserved_quantity p"
  shows "books_ok (db\<lparr>products := put i p' (products db)\<rparr>) = books_ok db"
  by (rule books_ok_frame) (use assms in \<open>auto simp: balances_def get_put\<close>)

lemma post_movement_books_ok:
  assumes "post_movement m db = Inr db'" and ok: "books_ok db"
    and "\<And>p. get (products db) (mv_product_id m) = Some p \<Longrightarrow> 0 \<le> pd_reserved_quantity p + mv_reserved_delta m
      \<and> pd_reserved_quantity p + mv_reserved_delta m \<le> pd_stock_quantity p + mv_on_hand_delta m"
  shows "books_ok db'"
proof -
  obtain p where p: "get (products db) (mv_product_id m) = Some p"
    and db': "db' = db\<lparr>products := put (mv_product_id m) (apply_deltas m p) (products db),
      movements := put (next_id (movements db)) (m\<lparr>mv_id := next_id (movements db)\<rparr>) (movements db)\<rparr>"
    using assms(1) by (rule post_movement_Inr)
  have account: "account_ok db' i" for i
  proof (cases "i = mv_product_id m")
    case True
    have "posted d db' i = posted d db i + d (m\<lparr>mv_id := next_id (movements db)\<rparr>)" for d
      using True by (simp add: posted_def db' rows_put_next)
    then show ?thesis
      using True p assms(3) [OF p] books_okD [OF ok p] by (simp add: account_ok_def db' apply_deltas_def)
  next
    case False
    have "posted d db' i = posted d db i" for d
      using False by (simp add: posted_def db' rows_put_next)
    moreover have "get (products db') i = get (products db) i" using False by (simp add: db')
    ultimately have "account_ok db' i = account_ok db i"
      by (cases "get (products db) i") (simp_all add: account_ok_def)
    with ok show ?thesis by (simp add: books_ok_iff)
  qed
  have "on_hand db' i \<noteq> None" if "on_hand db i \<noteq> None" for i
    using that by (cases "i = mv_product_id m") (simp_all add: on_hand_def db')
  then have "\<forall>m \<in> set (rows (movements db')). on_hand db' (mv_product_id m) \<noteq> None"
    using ok by (auto simp: books_ok_iff db' rows_put_next on_hand_def get_put)
  with account show ?thesis by (simp add: books_ok_iff)
qed

text \<open>A new product starts without stock.\<close>

lemma books_ok_new_product:
  assumes ok: "books_ok db" and "pd_id p = next_id (products db)"
    and "pd_stock_quantity p = 0" and "pd_reserved_quantity p = 0"
  shows "books_ok (db\<lparr>products := put (next_id (products db)) p (products db)\<rparr>)" (is "books_ok ?db")
proof -
  have posted: "posted d ?db i = posted d db i" for d i
    by (simp add: posted_def)
  have "account_ok ?db i" for i
  proof (cases "i = next_id (products db)")
    case True
    with assms posted_no_product [OF ok get_next_id] show ?thesis
      by (simp add: account_ok_def posted)
  next
    case False
    then have "account_ok ?db i = account_ok db i"
      by (cases "get (products db) i") (simp_all add: account_ok_def posted)
    with ok show ?thesis by (simp add: books_ok_iff)
  qed
  with ok show ?thesis by (auto simp: books_ok_iff on_hand_def get_put)
qed

end
