(* ===== verification/Inventory.thy ===== *)
theory Inventory
  imports Warehouse "HOL-Library.Product_Lexorder"
begin

text \<open>
  \<^verbatim>\<open>app/services/inventory.py\<close>: barcodes and product cards, procurement, supplier
  receipts, manual stock operations and inventory counts. Each operation is one transaction; a
  repeated request is recognised by its idempotency key. The order of \<open>receipt.items\<close>, which the
  relationship leaves open, is the table's.
\<close>

section \<open>Barcodes and products\<close>

definition normalize_barcode :: "string option \<Rightarrow> string option result" where
  "normalize_barcode value =
     (case value of
        None \<Rightarrow> Inr None
      | Some s \<Rightarrow>
          if strip s = [] then unprocessable ''Barcode must be a non-blank string''
          else if length s > 64 then unprocessable ''Barcode is too long''
          else Inr (Some s))"

definition require_matching_idempotency_payload :: "bool \<Rightarrow> unit result" where
  "require_matching_idempotency_payload same =
     ensure same (HTTPException 409 ''Idempotency key is already in use for a different operation'')"

definition locked_product :: "warehouse \<Rightarrow> int \<Rightarrow> product result" where
  "locked_product db product_id =
     (case get (products db) product_id of None \<Rightarrow> not_found ''Product not found'' | Some p \<Rightarrow> Inr p)"

definition product_from_identifier :: "warehouse \<Rightarrow> int option \<Rightarrow> string option \<Rightarrow> product result" where
  "product_from_identifier db product_id barcode =
     (if (product_id = None) = (barcode = None) then bad_request ''Provide exactly one of product_id or barcode''
      else case product_id of
             Some i \<Rightarrow> locked_product db i
           | None \<Rightarrow> and_then (normalize_barcode barcode) (\<lambda>normalized.
               case select_where (\<lambda>p. pd_barcode p = normalized) (products db) of
                 [] \<Rightarrow> not_found ''Product not found'' | p # _ \<Rightarrow> Inr p))"

definition get_product_by_barcode :: "warehouse \<Rightarrow> string \<Rightarrow> product result" where
  "get_product_by_barcode db barcode =
     and_then (normalize_barcode (Some barcode)) (\<lambda>normalized.
     case select_where (\<lambda>p. pd_barcode p = normalized) (products db) of
       [] \<Rightarrow> not_found ''Product not found'' | p # _ \<Rightarrow> Inr p)"

definition barcode_taken :: "warehouse \<Rightarrow> string option \<Rightarrow> int option \<Rightarrow> bool" where
  "barcode_taken db barcode exclude_id \<longleftrightarrow> barcode \<noteq> None
     \<and> select_where (\<lambda>p. pd_barcode p = barcode \<and> exclude_id \<noteq> Some (pd_id p)) (products db) \<noteq> []"

definition update_product_settings ::
  "warehouse \<Rightarrow> int \<Rightarrow> string option \<Rightarrow> bool \<Rightarrow> int option \<Rightarrow> (warehouse \<times> product) result" where
  "update_product_settings db product_id barcode allow_backorder admin_user_id =
     and_then (locked_product db product_id) (\<lambda>p.
     and_then (normalize_barcode barcode) (\<lambda>normalized.
     if barcode_taken db normalized (Some (pd_id p)) then conflict ''Barcode is already assigned to another product''
     else let p = p\<lparr>pd_barcode_bound_by := (if pd_barcode p \<noteq> normalized then admin_user_id else pd_barcode_bound_by p),
                    pd_barcode := normalized, pd_allow_backorder := allow_backorder\<rparr>
          in Inr (db\<lparr>products := put product_id p (products db)\<rparr>, p)))"

definition bind_barcode :: "warehouse \<Rightarrow> int \<Rightarrow> string \<Rightarrow> int \<Rightarrow> (warehouse \<times> product) result" where
  "bind_barcode db product_id barcode admin_user_id =
     and_then (normalize_barcode (Some barcode)) (\<lambda>normalized.
     and_then (locked_product db product_id) (\<lambda>p.
     if pd_barcode p = normalized then Inr (db, p)
     else if pd_barcode p \<noteq> None then conflict ''Selected product already has a different barcode''
     else if barcode_taken db normalized None then conflict ''Barcode is already assigned to another product''
     else let p = p\<lparr>pd_barcode := normalized, pd_barcode_bound_by := Some admin_user_id\<rparr>
          in Inr (db\<lparr>products := put product_id p (products db)\<rparr>, p)))"

text \<open>\<open>validate\<close> stands for the lookup of brand and category.\<close>

definition card_of_key :: "warehouse \<Rightarrow> string \<Rightarrow> product option" where
  "card_of_key db key = find (\<lambda>p. pd_creation_key p = Some key) (rows (products db))"

definition card_matches :: "product_card \<times> int \<Rightarrow> product \<Rightarrow> bool" where
  "card_matches request p \<longleftrightarrow> pd_creation_payload p = Some (fst request) \<and> pd_created_by p = Some (snd request)"

definition new_card :: "int \<Rightarrow> product_card \<Rightarrow> int \<Rightarrow> string \<Rightarrow> product" where
  "new_card new_id data admin_user_id key =
     \<lparr>pd_id = new_id, pd_name = pc_name data, pd_sku = pc_sku data, pd_barcode = pc_barcode data,
      pd_barcode_bound_by = Some admin_user_id, pd_price = pc_price data, pd_shop_price = None,
      pd_brand_id = pc_brand_id data, pd_category_id = pc_category_id data, pd_stock_quantity = 0,
      pd_reserved_quantity = 0, pd_purchase_unit_cost = None, pd_purchase_cost_receipt_id = None,
      pd_allow_backorder = False, pd_is_active = False, pd_created_by = Some admin_user_id,
      pd_creation_key = Some key, pd_creation_payload = Some data\<rparr>"

definition create_product_card ::
  "(product_card \<Rightarrow> unit result) \<Rightarrow> warehouse \<Rightarrow> string \<Rightarrow> product_card \<times> int \<Rightarrow> (warehouse \<times> product) result" where
  "create_product_card validate db key request =
     and_then (normalize_barcode (pc_barcode (fst request))) (\<lambda>barcode.
     let data = (fst request)\<lparr>pc_barcode := barcode\<rparr>
     in case card_of_key db key of
          Some p \<Rightarrow> and_then (require_matching_idempotency_payload (card_matches (data, snd request) p)) (\<lambda>_.
            Inr (db, p))
        | None \<Rightarrow> and_then (validate data) (\<lambda>_.
            if barcode_taken db barcode None
              \<or> (pc_sku data \<noteq> None \<and> select_where (\<lambda>p. pd_sku p = pc_sku data) (products db) \<noteq> [])
            then conflict ''Barcode or SKU is already assigned to another product''
            else let p = new_card (next_id (products db)) data (snd request) key
                 in Inr (db\<lparr>products := put (pd_id p) p (products db)\<rparr>, p)))"

section \<open>Procurement\<close>

definition outstanding :: "order_item \<Rightarrow> int" where
  "outstanding item = oi_quantity_to_order item - oi_quantity_received_for_order item"

text \<open>The items are locked, and so visited, in the order of their ids.\<close>

definition mark_one_ordered :: "int \<Rightarrow> warehouse \<Rightarrow> warehouse result" where
  "mark_one_ordered i db =
     (case get (order_items db) i of
        None \<Rightarrow> not_found ''One or more order items were not found''
      | Some item \<Rightarrow>
          if outstanding item \<le> 0
          then conflict (''Order item '' @ show_int i @ '' has no outstanding procurement quantity'')
          else if oi_procurement_status item \<noteq> To_order \<and> oi_procurement_status item \<noteq> Ordered
          then conflict (''Order item '' @ show_int i @ '' cannot be marked ordered'')
          else Inr (db\<lparr>order_items := put i (item\<lparr>oi_procurement_status := Ordered\<rparr>) (order_items db)\<rparr>))"

definition mark_ordered :: "warehouse \<Rightarrow> int list \<Rightarrow> warehouse result" where
  "mark_ordered db order_item_ids =
     (if order_item_ids = [] \<or> \<not> distinct order_item_ids
      then bad_request ''order_item_ids must be a non-empty unique list''
      else if list_ex (\<lambda>i. get (order_items db) i = None) order_item_ids
      then not_found ''One or more order items were not found''
      else for_each mark_one_ordered (sort order_item_ids) db)"

section \<open>Receipts\<close>

definition receipt_of_key :: "warehouse \<Rightarrow> string \<Rightarrow> receipt option" where
  "receipt_of_key db key = find (\<lambda>r. rc_idempotency_key r = Some key) (rows (receipts db))"

definition receipt_matches :: "string \<times> string option \<Rightarrow> receipt \<Rightarrow> bool" where
  "receipt_matches request r \<longleftrightarrow> strip (rc_reason r) = strip (fst request) \<and> rc_comment r = snd request"

definition new_receipt :: "int \<Rightarrow> string \<Rightarrow> string option \<Rightarrow> string option \<Rightarrow> receipt" where
  "new_receipt new_id reason comment key =
     \<lparr>rc_id = new_id, rc_revision = 1, rc_status = Draft, rc_reason = reason, rc_comment = comment,
      rc_posted_at = None, rc_posted_by_user_id = None, rc_idempotency_key = key,
      rc_posted_idempotency_key = None\<rparr>"

text \<open>An empty key is not looked up, but it is stored, and its column is unique.\<close>

definition create_receipt ::
  "warehouse \<Rightarrow> string option \<Rightarrow> string \<times> string option \<Rightarrow> (warehouse \<times> receipt) result" where
  "create_receipt db idempotency_key request =
     (let reason = strip (fst request)
      in if reason = [] then bad_request ''Reason is required''
         else case (if truthy_key idempotency_key then receipt_of_key db (the idempotency_key) else None) of
                Some r \<Rightarrow> and_then (require_matching_idempotency_payload (receipt_matches request r)) (\<lambda>_. Inr (db, r))
              | None \<Rightarrow>
                  if idempotency_key \<noteq> None
                     \<and> select_where (\<lambda>r. rc_idempotency_key r = idempotency_key) (receipts db) \<noteq> []
                  then Inl IntegrityError
                  else let r = new_receipt (next_id (receipts db)) reason (snd request) idempotency_key
                       in Inr (db\<lparr>receipts := put (rc_id r) r (receipts db)\<rparr>, r))"

definition get_receipt :: "warehouse \<Rightarrow> int \<Rightarrow> receipt result" where
  "get_receipt db receipt_id =
     (case get (receipts db) receipt_id of None \<Rightarrow> not_found ''Receipt not found'' | Some r \<Rightarrow> Inr r)"

definition lines_of :: "warehouse \<Rightarrow> int \<Rightarrow> receipt_item list" where
  "lines_of db receipt_id = select_where (\<lambda>i. ri_receipt_id i = receipt_id) (receipt_items db)"

definition allocations_of :: "warehouse \<Rightarrow> int \<Rightarrow> receipt_allocation list" where
  "allocations_of db line_id = select_where (\<lambda>a. al_receipt_item_id a = line_id) (receipt_allocations db)"

text \<open>The canonical form of a scan request, the value its hash digests.\<close>

definition scan_identity :: "string option \<Rightarrow> scan_payload \<Rightarrow> scan_payload option result" where
  "scan_identity idempotency_key p =
     (case idempotency_key of
        None \<Rightarrow> Inr None
      | Some k \<Rightarrow>
          if strip k = [] \<or> length k > 128 then bad_request ''Idempotency key must contain 1 to 128 characters''
          else and_then (normalize_barcode (sp_barcode p)) (\<lambda>barcode.
               Inr (Some (p\<lparr>sp_barcode := barcode, sp_allocations := sort (sp_allocations p)\<rparr>))))"

definition request_of_key :: "warehouse \<Rightarrow> int \<Rightarrow> string \<Rightarrow> item_request option" where
  "request_of_key db receipt_id key =
     find (\<lambda>q. rq_receipt_id q = receipt_id \<and> rq_idempotency_key q = key) (rows (item_requests db))"

definition already_allocated :: "warehouse \<Rightarrow> int \<Rightarrow> int \<Rightarrow> int" where
  "already_allocated db receipt_id order_item_id =
     sum_list (map al_quantity (select_where (\<lambda>a. al_order_item_id a = order_item_id
       \<and> al_receipt_item_id a \<in> set (map ri_id (lines_of db receipt_id))) (receipt_allocations db)))"

definition check_scan_allocation :: "warehouse \<Rightarrow> int \<Rightarrow> product \<Rightarrow> int \<times> int \<Rightarrow> unit \<Rightarrow> unit result" where
  "check_scan_allocation db receipt_id p allocation _ =
     (case get (order_items db) (fst allocation) of
        None \<Rightarrow> Inl KeyError
      | Some item \<Rightarrow>
          if snd allocation \<le> 0 then bad_request ''Allocation quantity must be positive''
          else if oi_product_id item \<noteq> pd_id p
          then bad_request ''Receipt allocation product does not match the order item''
          else if oi_procurement_status item \<noteq> Ordered
          then conflict ''Receipt allocations require an ordered procurement item''
          else if snd allocation + already_allocated db receipt_id (fst allocation) > outstanding item
          then conflict ''Receipt allocation exceeds the outstanding order requirement''
          else Inr ())"

definition check_scan :: "warehouse \<Rightarrow> int \<Rightarrow> scan_payload \<Rightarrow> product result" where
  "check_scan db receipt_id p =
     and_then (product_from_identifier db (sp_product_id p) (sp_barcode p)) (\<lambda>product.
     if sp_quantity p \<le> 0 then bad_request ''Quantity must be positive''
     else if sum_list (map snd (sp_allocations p)) > sp_quantity p
     then bad_request ''Allocated quantity cannot exceed receipt item quantity''
     else if \<not> distinct (map fst (sp_allocations p))
     then bad_request ''Each order item may be allocated only once per receipt line''
     else if list_ex (\<lambda>a. get (order_items db) (fst a) = None) (sp_allocations p)
     then not_found ''One or more order items were not found''
     else and_then (for_each (check_scan_allocation db receipt_id product) (sp_allocations p) ()) (\<lambda>_.
          and_then (normalize_barcode (sp_barcode p)) (\<lambda>barcode.
          if sp_barcode p \<noteq> None \<and> pd_barcode product \<noteq> barcode
          then conflict ''Barcode assignment changed while editing the receipt''
          else Inr product)))"

text \<open>The same lot is one line; the quantity of a second scan is added to it.\<close>

definition same_lot :: "int \<Rightarrow> int \<Rightarrow> scan_payload \<Rightarrow> receipt_item \<Rightarrow> bool" where
  "same_lot receipt_id product_id p i \<longleftrightarrow> ri_receipt_id i = receipt_id \<and> ri_product_id i = product_id
     \<and> ri_purchase_unit_cost i = sp_purchase_unit_cost p \<and> ri_batch_number i = sp_batch_number p
     \<and> ri_expiration_date i = sp_expiration_date p"

definition upsert_line :: "warehouse \<Rightarrow> int \<Rightarrow> int \<Rightarrow> scan_payload \<Rightarrow> (warehouse \<times> int) result" where
  "upsert_line db receipt_id product_id p =
     (case select_where (same_lot receipt_id product_id p) (receipt_items db) of
        [] \<Rightarrow>
          let i = \<lparr>ri_id = next_id (receipt_items db), ri_receipt_id = receipt_id, ri_product_id = product_id,
                   ri_quantity = sp_quantity p, ri_purchase_unit_cost = sp_purchase_unit_cost p,
                   ri_batch_number = sp_batch_number p, ri_expiration_date = sp_expiration_date p\<rparr>
          in Inr (db\<lparr>receipt_items := put (ri_id i) i (receipt_items db)\<rparr>, ri_id i)
      | [i] \<Rightarrow> Inr (db\<lparr>receipt_items := put (ri_id i) (i\<lparr>ri_quantity := ri_quantity i + sp_quantity p\<rparr>)
            (receipt_items db)\<rparr>, ri_id i)
      | _ \<Rightarrow> Inl MultipleResultsFound)"

definition upsert_allocation :: "int \<Rightarrow> int \<times> int \<Rightarrow> warehouse \<Rightarrow> warehouse" where
  "upsert_allocation line_id allocation db =
     (case find (\<lambda>a. al_receipt_item_id a = line_id \<and> al_order_item_id a = fst allocation)
           (rows (receipt_allocations db)) of
        None \<Rightarrow> db\<lparr>receipt_allocations := put (next_id (receipt_allocations db))
            \<lparr>al_id = next_id (receipt_allocations db), al_receipt_item_id = line_id,
             al_order_item_id = fst allocation, al_quantity = snd allocation\<rparr> (receipt_allocations db)\<rparr>
      | Some a \<Rightarrow> db\<lparr>receipt_allocations := put (al_id a)
            (a\<lparr>al_quantity := al_quantity a + snd allocation\<rparr>) (receipt_allocations db)\<rparr>)"

definition record_request :: "int \<Rightarrow> string option \<Rightarrow> scan_payload option \<Rightarrow> warehouse \<Rightarrow> warehouse" where
  "record_request receipt_id key identity db =
     (case (key, identity) of
        (Some k, Some p) \<Rightarrow> db\<lparr>item_requests := put (next_id (item_requests db))
           \<lparr>rq_receipt_id = receipt_id, rq_idempotency_key = k, rq_payload = p\<rparr> (item_requests db)\<rparr>
      | _ \<Rightarrow> db)"

definition bump_revision :: "receipt \<Rightarrow> receipt" where
  "bump_revision r = r\<lparr>rc_revision := (if rc_revision r = 0 then 1 else rc_revision r) + 1\<rparr>"

definition apply_scan ::
  "warehouse \<Rightarrow> receipt \<Rightarrow> int \<Rightarrow> string option \<Rightarrow> scan_payload option \<Rightarrow> scan_payload \<Rightarrow> warehouse result" where
  "apply_scan db r product_id key identity p =
     and_then (upsert_line db (rc_id r) product_id p) (\<lambda>(db, line_id).
     let db = fold (upsert_allocation line_id) (sp_allocations p) db;
         db = record_request (rc_id r) key identity db
     in Inr (db\<lparr>receipts := put (rc_id r) (bump_revision r) (receipts db)\<rparr>))"

definition add_receipt_item :: "warehouse \<Rightarrow> int \<Rightarrow> string option \<Rightarrow> scan_payload \<Rightarrow> warehouse result" where
  "add_receipt_item db receipt_id idempotency_key p =
     and_then (scan_identity idempotency_key p) (\<lambda>identity.
     and_then (get_receipt db receipt_id) (\<lambda>r.
     case (case idempotency_key of None \<Rightarrow> None | Some k \<Rightarrow> request_of_key db receipt_id k) of
       Some applied \<Rightarrow>
         if Some (rq_payload applied) \<noteq> identity
         then conflict ''Idempotency key is already in use for a different receipt item request''
         else Inr db
     | None \<Rightarrow>
         if rc_status r \<noteq> Draft then conflict ''Posted receipts cannot be edited''
         else and_then (check_scan db receipt_id p) (\<lambda>product.
              apply_scan db r (pd_id product) idempotency_key identity p)))"

section \<open>Posting a receipt\<close>

text \<open>
  The purchase cost of a product is the average over the lines of the receipt, weighted by quantity
  and rounded to hundredths; \<open>overrides\<close> holds corrected quantities and costs.
\<close>

definition weighted_receipt_cost :: "receipt_item list \<Rightarrow> int \<Rightarrow> (int \<rightharpoonup> int \<times> int) \<Rightarrow> int option" where
  "weighted_receipt_cost items product_id overrides =
     (let rows' = map (\<lambda>i. case overrides (ri_id i) of Some row \<Rightarrow> row
            | None \<Rightarrow> (ri_quantity i, ri_purchase_unit_cost i)) (filter (\<lambda>i. ri_product_id i = product_id) items);
          quantity = sum_list (map fst rows')
      in if quantity = 0 then None
         else Some (round_div (sum_list (map (\<lambda>(q, cost). cost * q) rows')) quantity))"

text \<open>\<open>allocated\<close> is the dictionary of quantities allocated so far, zero where it has no key.\<close>

definition check_allocation :: "warehouse \<Rightarrow> receipt_allocation \<Rightarrow> (int \<Rightarrow> int) \<Rightarrow> (int \<Rightarrow> int) result" where
  "check_allocation db a allocated =
     (case get (order_items db) (al_order_item_id a) of
        None \<Rightarrow> Inl KeyError
      | Some item \<Rightarrow>
          (case get (orders db) (oi_order_id item) of
             None \<Rightarrow> Inl KeyError
           | Some ord \<Rightarrow>
               let total = allocated (oi_id item) + al_quantity a
               in if od_status ord = Order_cancelled \<or> od_status ord = Order_completed
                  then conflict ''Cannot allocate a receipt to a terminal order''
                  else if oi_procurement_status item \<noteq> Ordered
                  then conflict ''Receipt allocations require an ordered procurement item''
                  else if total > outstanding item
                  then conflict ''Receipt allocation exceeds the outstanding order requirement''
                  else Inr (allocated(oi_id item := total))))"

definition check_line :: "warehouse \<Rightarrow> receipt_item \<Rightarrow> (int \<Rightarrow> int) \<Rightarrow> (int \<Rightarrow> int) result" where
  "check_line db i allocated =
     (let allocations = allocations_of db (ri_id i)
      in if sum_list (map al_quantity allocations) > ri_quantity i
         then conflict ''Receipt allocations exceed the received quantity''
         else for_each (check_allocation db) allocations allocated)"

definition receipt_key :: "int \<Rightarrow> string \<Rightarrow> int \<Rightarrow> string" where
  "receipt_key receipt_id kind i = ''receipt:'' @ show_int receipt_id @ '':'' @ kind @ '':'' @ show_int i"

definition line_movement :: "receipt \<Rightarrow> int \<Rightarrow> receipt_item \<Rightarrow> movement" where
  "line_movement r admin_user_id i =
     (new_movement (ri_product_id i) Supplier_receipt (ri_quantity i) (ri_quantity i) 0 (Some (rc_reason r))
        (Some admin_user_id))
       \<lparr>mv_receipt_id := Some (rc_id r), mv_reference_key := Some (receipt_key (rc_id r) ''item'' (ri_id i))\<rparr>"

definition allocation_movement :: "receipt \<Rightarrow> int \<Rightarrow> int \<Rightarrow> order_item \<Rightarrow> receipt_allocation \<Rightarrow> movement" where
  "allocation_movement r admin_user_id product_id item a =
     (new_movement product_id Reservation (al_quantity a) 0 (al_quantity a)
        (Some ''Allocated supplier receipt to customer order'') (Some admin_user_id))
       \<lparr>mv_order_id := Some (oi_order_id item), mv_order_item_id := Some (oi_id item),
        mv_receipt_id := Some (rc_id r),
        mv_reference_key := Some (receipt_key (rc_id r) ''allocation'' (al_id a))\<rparr>"

definition receive_for_order :: "int \<Rightarrow> order_item \<Rightarrow> order_item" where
  "receive_for_order quantity item =
     (let received = oi_quantity_received_for_order item + quantity
      in item\<lparr>oi_quantity_received_for_order := received,
              oi_procurement_status := (if received = oi_quantity_to_order item then Received else Ordered)\<rparr>)"

definition post_allocation :: "receipt \<Rightarrow> int \<Rightarrow> int \<Rightarrow> receipt_allocation \<Rightarrow> warehouse \<Rightarrow> warehouse result" where
  "post_allocation r admin_user_id product_id a db =
     (case get (order_items db) (al_order_item_id a) of
        None \<Rightarrow> Inl KeyError
      | Some item \<Rightarrow> post_movement (allocation_movement r admin_user_id product_id item a)
          (db\<lparr>order_items := put (al_order_item_id a) (receive_for_order (al_quantity a) item) (order_items db)\<rparr>))"

definition post_line :: "receipt \<Rightarrow> int \<Rightarrow> receipt_item \<Rightarrow> warehouse \<Rightarrow> warehouse result" where
  "post_line r admin_user_id i db =
     and_then (post_movement (line_movement r admin_user_id i) db) (\<lambda>db.
     for_each (post_allocation r admin_user_id (ri_product_id i)) (allocations_of db (ri_id i)) db)"

definition set_purchase_cost :: "receipt \<Rightarrow> receipt_item list \<Rightarrow> int \<Rightarrow> warehouse \<Rightarrow> warehouse" where
  "set_purchase_cost r items product_id db =
     (case get (products db) product_id of
        None \<Rightarrow> db
      | Some p \<Rightarrow> db\<lparr>products := put product_id
          (p\<lparr>pd_purchase_unit_cost := weighted_receipt_cost items product_id Map.empty,
             pd_purchase_cost_receipt_id := Some (rc_id r)\<rparr>) (products db)\<rparr>)"

text \<open>A violated unique constraint at commit is answered as a conflict.\<close>

definition integrity_conflict :: "string \<Rightarrow> 'a result \<Rightarrow> 'a result" where
  "integrity_conflict detail r = (case r of Inl e \<Rightarrow> if e = IntegrityError then conflict detail else Inl e | Inr x \<Rightarrow> Inr x)"

definition post_lines :: "receipt \<Rightarrow> int \<Rightarrow> receipt_item list \<Rightarrow> warehouse \<Rightarrow> warehouse result" where
  "post_lines r admin_user_id items db =
     and_then (for_each (check_line db) items (\<lambda>_. 0)) (\<lambda>_.
     let db = fold (set_purchase_cost r items) (sort (remdups (map ri_product_id items))) db
     in for_each (post_line r admin_user_id) items db)"

definition post_receipt :: "warehouse \<Rightarrow> int \<Rightarrow> int \<Rightarrow> int \<Rightarrow> string option \<Rightarrow> warehouse result" where
  "post_receipt db now receipt_id admin_user_id idempotency_key =
     and_then (get_receipt db receipt_id) (\<lambda>r.
     let items = lines_of db receipt_id
     in if rc_status r = Posted then Inr db
        else if items = [] then bad_request ''A receipt must contain at least one item''
        else if truthy_key idempotency_key
          \<and> select_where (\<lambda>o'. rc_posted_idempotency_key o' = idempotency_key \<and> rc_id o' \<noteq> rc_id r) (receipts db) \<noteq> []
        then conflict ''Idempotency key is already in use''
        else and_then (integrity_conflict ''Receipt posting idempotency key is already in use''
               (post_lines r admin_user_id items db)) (\<lambda>db.
             let r = (bump_revision r)\<lparr>rc_status := Posted, rc_posted_at := Some now,
                   rc_posted_by_user_id := Some admin_user_id,
                   rc_posted_idempotency_key :=
                     (if truthy_key idempotency_key then idempotency_key else rc_posted_idempotency_key r)\<rparr>
             in Inr (db\<lparr>receipts := put receipt_id r (receipts db)\<rparr>)))"

section \<open>Manual operations\<close>

record manual_request =
  mo_movement_type :: movement_type
  mo_product_id :: int
  mo_quantity :: int
  mo_reason :: string
  mo_admin_user_id :: int
  mo_order_id :: "int option"
  mo_order_item_id :: "int option"

definition manual_delta :: "manual_request \<Rightarrow> int" where
  "manual_delta q = (if mo_movement_type q = Write_off then - mo_quantity q else mo_quantity q)"

definition manual_movement :: "manual_request \<Rightarrow> string option \<Rightarrow> movement" where
  "manual_movement q key =
     (new_movement (mo_product_id q) (mo_movement_type q) (mo_quantity q) (manual_delta q) 0
        (Some (strip (mo_reason q))) (Some (mo_admin_user_id q)))
       \<lparr>mv_order_id := mo_order_id q, mv_order_item_id := mo_order_item_id q, mv_reference_key := key\<rparr>"

definition movement_of_key :: "warehouse \<Rightarrow> string \<Rightarrow> movement option" where
  "movement_of_key db key = find (\<lambda>m. mv_reference_key m = Some key) (rows (movements db))"

definition manual_matches :: "manual_request \<Rightarrow> movement \<Rightarrow> bool" where
  "manual_matches q m \<longleftrightarrow> mv_product_id m = mo_product_id q \<and> mv_movement_type m = mo_movement_type q
     \<and> mv_quantity m = mo_quantity q \<and> map_option strip (mv_reason m) = Some (strip (mo_reason q))
     \<and> mv_order_id m = mo_order_id q \<and> mv_order_item_id m = mo_order_item_id q
     \<and> mv_performed_by_user_id m = Some (mo_admin_user_id q)
     \<and> mv_on_hand_delta m = manual_delta q \<and> mv_reserved_delta m = 0"

text \<open>
  A return linked to an order: the item must belong to the order and the product. Whether the order
  may be received by hand at all (payment resolutions, carrier returns, test shipments) is decided
  by services that are not modelled, \<open>linked_order_allowed\<close>.
\<close>

definition check_linked_return ::
  "(warehouse \<Rightarrow> int \<Rightarrow> unit result) \<Rightarrow> warehouse \<Rightarrow> manual_request \<Rightarrow> unit result" where
  "check_linked_return linked_order_allowed db q =
     (if mo_movement_type q = Customer_return
      then case mo_order_item_id q of
             Some i \<Rightarrow> (case get (order_items db) i of
                 None \<Rightarrow> bad_request ''Return order item does not match its order and product''
               | Some item \<Rightarrow>
                   if oi_product_id item \<noteq> mo_product_id q
                     \<or> (mo_order_id q \<noteq> None \<and> mo_order_id q \<noteq> Some (oi_order_id item))
                   then bad_request ''Return order item does not match its order and product''
                   else linked_order_allowed db (oi_order_id item))
           | None \<Rightarrow> (case mo_order_id q of None \<Rightarrow> Inr () | Some ord \<Rightarrow> linked_order_allowed db ord)
      else Inr ())"

definition run_manual :: "warehouse \<Rightarrow> string option \<Rightarrow> manual_request \<Rightarrow> (warehouse \<times> movement) result" where
  "run_manual db key q =
     and_then (locked_product db (mo_product_id q)) (\<lambda>p.
     if mo_movement_type q = Write_off \<and> available_quantity p < mo_quantity q
     then conflict ''Write-off exceeds available stock''
     else and_then (post_movement (manual_movement q key) db) (\<lambda>db'.
          Inr (db', (manual_movement q key)\<lparr>mv_id := next_id (movements db)\<rparr>)))"

definition manual_operation ::
  "(warehouse \<Rightarrow> int \<Rightarrow> unit result) \<Rightarrow> warehouse \<Rightarrow> string option \<Rightarrow> manual_request
    \<Rightarrow> (warehouse \<times> movement) result" where
  "manual_operation linked_order_allowed db key q =
     (if mo_quantity q \<le> 0 then bad_request ''Quantity must be positive''
      else if strip (mo_reason q) = [] then bad_request ''Reason is required''
      else if mo_movement_type q \<notin> {Opening_balance, Supplier_receipt, Customer_return, Write_off}
      then bad_request ''Unsupported manual inventory operation''
      else case (if truthy_key key then movement_of_key db (the key) else None) of
             Some m \<Rightarrow> and_then (require_matching_idempotency_payload (manual_matches q m)) (\<lambda>_. Inr (db, m))
           | None \<Rightarrow> and_then (check_linked_return linked_order_allowed db q) (\<lambda>_. run_manual db key q))"

section \<open>Counts\<close>

definition count_of_key :: "warehouse \<Rightarrow> string \<Rightarrow> inventory_count option" where
  "count_of_key db key = find (\<lambda>c. ct_idempotency_key c = Some key) (rows (counts db))"

definition count_matches :: "string \<Rightarrow> inventory_count \<Rightarrow> bool" where
  "count_matches reason c \<longleftrightarrow> strip (ct_reason c) = strip reason"

definition create_count :: "warehouse \<Rightarrow> string option \<Rightarrow> string \<Rightarrow> (warehouse \<times> inventory_count) result" where
  "create_count db idempotency_key reason =
     (if strip reason = [] then bad_request ''Reason is required''
      else case (if truthy_key idempotency_key then count_of_key db (the idempotency_key) else None) of
             Some c \<Rightarrow> and_then (require_matching_idempotency_payload (count_matches reason c)) (\<lambda>_. Inr (db, c))
           | None \<Rightarrow>
               if idempotency_key \<noteq> None
                  \<and> select_where (\<lambda>c. ct_idempotency_key c = idempotency_key) (counts db) \<noteq> []
               then Inl IntegrityError
               else let c = \<lparr>ct_id = next_id (counts db), ct_status = Draft, ct_reason = strip reason,
                          ct_posted_at = None, ct_posted_by_user_id = None,
                          ct_idempotency_key = idempotency_key, ct_posted_idempotency_key = None\<rparr>
                    in Inr (db\<lparr>counts := put (ct_id c) c (counts db)\<rparr>, c))"

definition get_count :: "warehouse \<Rightarrow> int \<Rightarrow> inventory_count result" where
  "get_count db count_id =
     (case get (counts db) count_id of None \<Rightarrow> not_found ''Inventory count not found'' | Some c \<Rightarrow> Inr c)"

definition counted_items :: "warehouse \<Rightarrow> int \<Rightarrow> count_item list" where
  "counted_items db count_id = select_where (\<lambda>i. ci_inventory_count_id i = count_id) (count_items db)"

definition set_count_item ::
  "warehouse \<Rightarrow> int \<Rightarrow> int option \<Rightarrow> string option \<Rightarrow> int \<Rightarrow> warehouse result" where
  "set_count_item db count_id product_id barcode counted_quantity =
     (if counted_quantity < 0 then bad_request ''Counted quantity cannot be negative''
      else and_then (get_count db count_id) (\<lambda>c.
        if ct_status c \<noteq> Draft then conflict ''Posted inventory counts cannot be edited''
        else and_then (product_from_identifier db product_id barcode) (\<lambda>p.
          case find (\<lambda>i. ci_product_id i = pd_id p) (counted_items db count_id) of
            None \<Rightarrow> Inr (db\<lparr>count_items := put (next_id (count_items db))
              \<lparr>ci_id = next_id (count_items db), ci_inventory_count_id = count_id, ci_product_id = pd_id p,
               ci_expected_quantity = pd_stock_quantity p, ci_counted_quantity = counted_quantity\<rparr> (count_items db)\<rparr>)
          | Some i \<Rightarrow> Inr (db\<lparr>count_items := put (ci_id i) (i\<lparr>ci_counted_quantity := counted_quantity\<rparr>)
              (count_items db)\<rparr>))))"

definition check_counted :: "warehouse \<Rightarrow> count_item \<Rightarrow> unit \<Rightarrow> unit result" where
  "check_counted db i _ =
     (case get (products db) (ci_product_id i) of
        None \<Rightarrow> Inl KeyError
      | Some p \<Rightarrow> if ci_counted_quantity i < pd_reserved_quantity p
          then conflict (''Counted quantity for product '' @ show_int (pd_id p) @ '' is below its reserved quantity'')
          else Inr ())"

definition count_movement :: "inventory_count \<Rightarrow> int \<Rightarrow> count_item \<Rightarrow> int \<Rightarrow> movement" where
  "count_movement c admin_user_id i delta =
     (new_movement (ci_product_id i) Inventory_adjustment \<bar>delta\<bar> delta 0 (Some (ct_reason c)) (Some admin_user_id))
       \<lparr>mv_inventory_count_id := Some (ct_id c),
        mv_reference_key := Some (''count:'' @ show_int (ct_id c) @ '':item:'' @ show_int (ci_id i))\<rparr>"

definition post_counted :: "inventory_count \<Rightarrow> int \<Rightarrow> count_item \<Rightarrow> warehouse \<Rightarrow> warehouse result" where
  "post_counted c admin_user_id i db =
     (case get (products db) (ci_product_id i) of
        None \<Rightarrow> Inl KeyError
      | Some p \<Rightarrow>
          let delta = ci_counted_quantity i - pd_stock_quantity p;
              db = db\<lparr>count_items := put (ci_id i) (i\<lparr>ci_expected_quantity := pd_stock_quantity p\<rparr>) (count_items db)\<rparr>
          in if delta = 0 then Inr db else post_movement (count_movement c admin_user_id i delta) db)"

definition post_count :: "warehouse \<Rightarrow> int \<Rightarrow> int \<Rightarrow> int \<Rightarrow> string option \<Rightarrow> warehouse result" where
  "post_count db now count_id admin_user_id idempotency_key =
     and_then (get_count db count_id) (\<lambda>c.
     let items = counted_items db count_id
     in if ct_status c = Posted then Inr db
        else if items = [] then bad_request ''Inventory count must contain at least one item''
        else if truthy_key idempotency_key
          \<and> select_where (\<lambda>o'. ct_posted_idempotency_key o' = idempotency_key \<and> ct_id o' \<noteq> ct_id c) (counts db) \<noteq> []
        then conflict ''Idempotency key is already in use''
        else and_then (for_each (check_counted db) items ()) (\<lambda>_.
             and_then (integrity_conflict ''Count posting idempotency key is already in use''
               (for_each (post_counted c admin_user_id) items db)) (\<lambda>db.
             let c = c\<lparr>ct_status := Posted, ct_posted_at := Some now, ct_posted_by_user_id := Some admin_user_id,
                   ct_posted_idempotency_key :=
                     (if truthy_key idempotency_key then idempotency_key else ct_posted_idempotency_key c)\<rparr>
             in Inr (db\<lparr>counts := put count_id c (counts db)\<rparr>))))"

chapter \<open>Facts\<close>

section \<open>Repeated requests\<close>

text \<open>
  The contract of an idempotency key: a request under a known key answers with the recorded result
  or a conflict and changes nothing; a fresh request records its result under the key.
\<close>

locale idempotent_command =
  fixes recorded :: "'s \<Rightarrow> string \<Rightarrow> 'r option"
    and matches :: "'p \<Rightarrow> 'r \<Rightarrow> bool"
    and run :: "'s \<Rightarrow> string \<Rightarrow> 'p \<Rightarrow> ('s \<times> 'r) result"
    and well_formed :: "'p \<Rightarrow> bool"
  assumes known: "well_formed p \<Longrightarrow> k \<noteq> [] \<Longrightarrow> recorded s k = Some r \<Longrightarrow>
      run s k p = (if matches p r then Inr (s, r)
        else conflict ''Idempotency key is already in use for a different operation'')"
    and fresh: "k \<noteq> [] \<Longrightarrow> recorded s k = None \<Longrightarrow> run s k p = Inr (s', r) \<Longrightarrow>
      recorded s' k = Some r \<and> matches p r"
    and checked: "run s k p = Inr (s', r) \<Longrightarrow> well_formed p"
begin

text \<open>A command that returns leaves its result recorded under its key.\<close>

lemma recorded_after:
  assumes "run s k p = Inr (s', r)" and "k \<noteq> []"
  shows "recorded s' k = Some r \<and> matches p r"
proof (cases "recorded s k")
  case None
  from fresh [OF assms(2) None assms(1)] show ?thesis .
next
  case (Some r')
  with known [OF checked [OF assms(1)] assms(2) Some] assms(1) have "s' = s" "r' = r" "matches p r"
    by (auto split: if_splits)
  with Some show ?thesis by simp
qed

text \<open>
  As long as the record stands, the same request is answered alike and changes nothing, and another one
  under the key is refused unless it matches.
\<close>

lemma later:
  assumes "run s k p = Inr (s', r)" and "k \<noteq> []" and "recorded t k = recorded s' k" and "well_formed q"
  shows "run t k q = (if matches q r then Inr (t, r)
    else conflict ''Idempotency key is already in use for a different operation'')"
  using known [OF assms(4,2)] recorded_after [OF assms(1,2)] assms(3) by simp

lemma replay_later:
  assumes "run s k p = Inr (s', r)" and "k \<noteq> []" and "recorded t k = recorded s' k"
  shows "run t k p = Inr (t, r)"
  using later [OF assms checked [OF assms(1)]] recorded_after [OF assms(1,2)] by simp

end

lemma find_rows_put_next:
  "find p (rows (put (next_id t) r t)) = (case find p (rows t) of None \<Rightarrow> if p r then Some r else None | Some x \<Rightarrow> Some x)"
proof -
  have "find p (xs @ [r]) = (case find p xs of None \<Rightarrow> if p r then Some r else None | Some x \<Rightarrow> Some x)" for xs
    by (induction xs) auto
  then show ?thesis by (simp add: rows_put_next)
qed

lemma dropWhile_rstrip:
  assumes "dropWhile P t = t"
  shows "dropWhile P (rev (dropWhile P (rev t))) = rev (dropWhile P (rev t))"
proof (cases "rev (dropWhile P (rev t))")
  case (Cons c cs)
  have "takeWhile P (rev t) @ dropWhile P (rev t) = rev t" by simp
  then have "t = rev (dropWhile P (rev t)) @ rev (takeWhile P (rev t))" by (metis rev_append rev_rev_ident)
  with Cons assms have "\<not> P c" by (metis append_Cons dropWhile_eq_self_iff list.sel(1) list.distinct(1))
  with Cons show ?thesis by simp
next
  case Nil
  then show ?thesis by (metis dropWhile.simps(1))
qed

lemma strip_strip [simp]: "strip (strip s) = strip s"
  by (simp add: strip_def dropWhile_rstrip [OF dropWhile_idem])

section \<open>The commands that take a key\<close>

lemma require_matching_eq: "and_then (require_matching_idempotency_payload same) k =
    (if same then k () else conflict ''Idempotency key is already in use for a different operation'')"
  by (simp add: require_matching_idempotency_payload_def ensure_def)

lemma normalize_barcode_Inr: "normalize_barcode value = Inr barcode \<Longrightarrow> barcode = value"
  by (auto simp: normalize_barcode_def split: option.splits if_splits)

interpretation receipt_requests: idempotent_command receipt_of_key receipt_matches
  "\<lambda>db k. create_receipt db (Some k)" "\<lambda>q. strip (fst q) \<noteq> []"
proof
  fix p :: "string \<times> string option" and k :: string and s s' r
  show "create_receipt s (Some k) p =
      (if receipt_matches p r then Inr (s, r)
       else conflict ''Idempotency key is already in use for a different operation'')"
    if "strip (fst p) \<noteq> []" and "k \<noteq> []" and "receipt_of_key s k = Some r"
    using that by (simp add: create_receipt_def truthy_key_def require_matching_eq)
  show "receipt_of_key s' k = Some r \<and> receipt_matches p r"
    if "k \<noteq> []" and "receipt_of_key s k = None" and "create_receipt s (Some k) p = Inr (s', r)"
    using that by (auto simp: create_receipt_def truthy_key_def Let_def receipt_of_key_def find_rows_put_next
        receipt_matches_def new_receipt_def split: if_splits)
  show "strip (fst p) \<noteq> []" if "create_receipt s (Some k) p = Inr (s', r)"
    using that by (auto simp: create_receipt_def)
qed

interpretation count_requests: idempotent_command count_of_key count_matches
  "\<lambda>db k. create_count db (Some k)" "\<lambda>reason. strip reason \<noteq> []"
proof
  fix p k :: string and s s' r
  show "create_count s (Some k) p =
      (if count_matches p r then Inr (s, r)
       else conflict ''Idempotency key is already in use for a different operation'')"
    if "strip p \<noteq> []" and "k \<noteq> []" and "count_of_key s k = Some r"
    using that by (simp add: create_count_def truthy_key_def require_matching_eq)
  show "count_of_key s' k = Some r \<and> count_matches p r"
    if "k \<noteq> []" and "count_of_key s k = None" and "create_count s (Some k) p = Inr (s', r)"
    using that by (auto simp: create_count_def truthy_key_def Let_def count_of_key_def find_rows_put_next
        count_matches_def split: if_splits)
  show "strip p \<noteq> []" if "create_count s (Some k) p = Inr (s', r)"
    using that by (auto simp: create_count_def)
qed

definition manual_request_ok :: "manual_request \<Rightarrow> bool" where
  "manual_request_ok q \<longleftrightarrow> 0 < mo_quantity q \<and> strip (mo_reason q) \<noteq> []
     \<and> mo_movement_type q \<in> {Opening_balance, Supplier_receipt, Customer_return, Write_off}"

lemma run_manual_Inr:
  assumes "run_manual db key q = Inr (db', m)"
  obtains p where "get (products db) (mo_product_id q) = Some p"
    and "mo_movement_type q = Write_off \<longrightarrow> mo_quantity q \<le> available_quantity p"
    and "post_movement (manual_movement q key) db = Inr db'"
    and "m = (manual_movement q key)\<lparr>mv_id := next_id (movements db)\<rparr>"
  using assms by (auto simp: run_manual_def locked_product_def and_then_eq_Inr
      split: option.splits if_splits)

lemma manual_operation_checked:
  "manual_operation allowed db key q = Inr x \<Longrightarrow> manual_request_ok q"
  by (auto simp: manual_operation_def manual_request_ok_def split: if_splits)

interpretation manual_requests: idempotent_command movement_of_key manual_matches
  "\<lambda>db k. manual_operation allowed db (Some k)" manual_request_ok for allowed
proof
  fix p :: manual_request and k :: string and s s' r
  show "manual_operation allowed s (Some k) p =
      (if manual_matches p r then Inr (s, r)
       else conflict ''Idempotency key is already in use for a different operation'')"
    if "manual_request_ok p" and "k \<noteq> []" and "movement_of_key s k = Some r"
    using that by (simp add: manual_operation_def manual_request_ok_def truthy_key_def require_matching_eq)
  show "movement_of_key s' k = Some r \<and> manual_matches p r"
    if k: "k \<noteq> []" and none: "movement_of_key s k = None" and run: "manual_operation allowed s (Some k) p = Inr (s', r)"
  proof -
    have "run_manual s (Some k) p = Inr (s', r)"
      using run k none by (auto simp: manual_operation_def truthy_key_def and_then_eq_Inr split: if_splits)
    then obtain pd where post: "post_movement (manual_movement p (Some k)) s = Inr s'"
      and r: "r = (manual_movement p (Some k))\<lparr>mv_id := next_id (movements s)\<rparr>"
      by (rule run_manual_Inr)
    from post have "movement_of_key s' k = Some r"
      by (rule post_movement_Inr) (use none in \<open>simp add: movement_of_key_def find_rows_put_next r manual_movement_def\<close>)
    with r show ?thesis by (simp add: manual_matches_def manual_movement_def new_movement_def)
  qed
  show "manual_request_ok p" if "manual_operation allowed s (Some k) p = Inr (s', r)"
    using that by (rule manual_operation_checked)
qed

interpretation card_requests: idempotent_command card_of_key card_matches
  "create_product_card validate" "\<lambda>q. \<exists>barcode. normalize_barcode (pc_barcode (fst q)) = Inr barcode" for validate
proof
  fix p :: "product_card \<times> int" and k :: string and s s' r
  show "create_product_card validate s k p =
      (if card_matches p r then Inr (s, r)
       else conflict ''Idempotency key is already in use for a different operation'')"
    if "\<exists>barcode. normalize_barcode (pc_barcode (fst p)) = Inr barcode" and "k \<noteq> []" and "card_of_key s k = Some r"
    using that normalize_barcode_Inr [of "pc_barcode (fst p)"]
    by (auto simp: create_product_card_def require_matching_eq)
  show "card_of_key s' k = Some r \<and> card_matches p r"
    if "k \<noteq> []" and "card_of_key s k = None" and "create_product_card validate s k p = Inr (s', r)"
    using that by (auto simp: create_product_card_def and_then_eq_Inr Let_def card_of_key_def find_rows_put_next
        card_matches_def new_card_def dest!: normalize_barcode_Inr split: if_splits)
  show "\<exists>barcode. normalize_barcode (pc_barcode (fst p)) = Inr barcode"
    if "create_product_card validate s k p = Inr (s', r)"
    using that by (auto simp: create_product_card_def and_then_eq_Inr)
qed

section \<open>The books stay sound\<close>

lemma post_movement_frame:
  assumes "post_movement m db = Inr db'"
  shows "order_items db' = order_items db" and "orders db' = orders db" and "receipts db' = receipts db"
    and "receipt_items db' = receipt_items db" and "receipt_allocations db' = receipt_allocations db"
    and "counts db' = counts db" and "count_items db' = count_items db"
    and "item_requests db' = item_requests db" and "receipt_changes db' = receipt_changes db"
  using assms by (auto elim!: post_movement_Inr)

lemma post_movement_effects:
  assumes "post_movement m db = Inr db'" and "get (products db) (mv_product_id m) = Some p"
  shows "get (products db') i = (if i = mv_product_id m then Some (apply_deltas m p) else get (products db) i)"
    and "rows (movements db') = rows (movements db) @ [m\<lparr>mv_id := next_id (movements db)\<rparr>]"
    and "movement_valid m"
  using assms by (auto elim!: post_movement_Inr simp: get_put rows_put_next)

lemma locked_product_Inr: "locked_product db i = Inr p \<longleftrightarrow> get (products db) i = Some p"
  by (simp add: locked_product_def split: option.split)

lemma update_product_settings_books_ok:
  assumes "update_product_settings db i barcode allow_backorder admin = Inr (db', p)" and "books_ok db"
  shows "books_ok db'"
  using assms by (auto simp: update_product_settings_def and_then_eq_Inr locked_product_Inr Let_def
      books_ok_put_product split: if_splits)

lemma bind_barcode_books_ok:
  assumes "bind_barcode db i barcode admin = Inr (db', p)" and "books_ok db"
  shows "books_ok db'"
  using assms by (auto simp: bind_barcode_def and_then_eq_Inr locked_product_Inr Let_def
      books_ok_put_product split: if_splits)

lemma create_product_card_books_ok:
  assumes "create_product_card validate db key request = Inr (db', p)" and "books_ok db"
  shows "books_ok db'"
  using assms by (auto simp: create_product_card_def require_matching_eq and_then_eq_Inr Let_def
      new_card_def books_ok_new_product split: if_splits option.splits)

lemma manual_operation_books_ok:
  assumes run: "manual_operation allowed db key q = Inr (db', m)" and "books_ok db"
  shows "books_ok db'"
proof -
  have "db' = db \<or> run_manual db key q = Inr (db', m)"
    using run by (auto simp: manual_operation_def require_matching_eq and_then_eq_Inr split: if_splits option.splits)
  then show ?thesis
  proof
    assume "db' = db"
    with assms(2) show ?thesis by simp
  next
    assume "run_manual db key q = Inr (db', m)"
    then obtain p where p: "get (products db) (mo_product_id q) = Some p"
      and free: "mo_movement_type q = Write_off \<longrightarrow> mo_quantity q \<le> available_quantity p"
      and post: "post_movement (manual_movement q key) db = Inr db'"
      by (rule run_manual_Inr)
    have "0 < mo_quantity q" using manual_operation_checked [OF run] by (simp add: manual_request_ok_def)
    with free books_okD [OF assms(2) p] p show ?thesis
      by (intro post_movement_books_ok [OF post assms(2)])
        (auto simp: manual_movement_def new_movement_def manual_delta_def available_quantity_def)
  qed
qed

lemma set_purchase_cost_books_ok: "books_ok (set_purchase_cost r items i db) = books_ok db"
  by (simp add: set_purchase_cost_def books_ok_put_product split: option.split)

lemma set_purchase_cost_frame:
  "set_purchase_cost r items i db = db\<lparr>products := products (set_purchase_cost r items i db)\<rparr>"
  by (simp add: set_purchase_cost_def split: option.split)

lemma fold_purchase_cost_books_ok: "books_ok (fold (set_purchase_cost r items) xs db) = books_ok db"
  by (induction xs arbitrary: db) (simp_all add: set_purchase_cost_books_ok)

lemma fold_purchase_cost_frame:
  "fold (set_purchase_cost r items) xs db = db\<lparr>products := products (fold (set_purchase_cost r items) xs db)\<rparr>"
proof (induction xs arbitrary: db)
  case (Cons x xs)
  from Cons [of "set_purchase_cost r items x db"] set_purchase_cost_frame [of r items x db]
  have "fold (set_purchase_cost r items) (x # xs) db
      = db\<lparr>products := products (set_purchase_cost r items x db)\<rparr>
        \<lparr>products := products (fold (set_purchase_cost r items) (x # xs) db)\<rparr>"
    by (metis fold_simps(2))
  then show ?case by simp
qed simp

lemma post_allocation_books_ok:
  assumes "post_allocation r admin i a db = Inr db'" and "books_ok db" and "get (products db) i = Some p"
    and "pd_reserved_quantity p + al_quantity a \<le> pd_stock_quantity p"
  shows "books_ok db'"
    and "get (products db') i = Some (p\<lparr>pd_reserved_quantity := pd_reserved_quantity p + al_quantity a\<rparr>)"
    and "0 < al_quantity a" and "receipt_allocations db' = receipt_allocations db"
proof -
  obtain item where post: "post_movement (allocation_movement r admin i item a)
      (db\<lparr>order_items := put (al_order_item_id a) (receive_for_order (al_quantity a) item) (order_items db)\<rparr>) = Inr db'"
    using assms(1) by (auto simp: post_allocation_def split: option.splits)
  then have "movement_valid (allocation_movement r admin i item a)"
    by (rule post_movement_Inr)
  then show quantity: "0 < al_quantity a"
    by (simp add: movement_valid_def allocation_movement_def new_movement_def)
  show "get (products db') i = Some (p\<lparr>pd_reserved_quantity := pd_reserved_quantity p + al_quantity a\<rparr>)"
    using post_movement_effects(1) [OF post, of p i] assms(3)
    by (simp add: apply_deltas_def allocation_movement_def new_movement_def)
  show "receipt_allocations db' = receipt_allocations db"
    using post_movement_frame(5) [OF post] by simp
  show "books_ok db'"
    using assms books_okD [OF assms(2,3)] quantity
    by (intro post_movement_books_ok [OF post]) (auto simp: allocation_movement_def new_movement_def)
qed

lemma post_allocations_books_ok:
  assumes "for_each (post_allocation r admin i) as db = Inr db'" and "books_ok db"
    and "get (products db) i = Some p"
    and "pd_reserved_quantity p + sum_list (map al_quantity as) \<le> pd_stock_quantity p"
    and "\<forall>a \<in> set as. 0 < al_quantity a"
  shows "books_ok db' \<and> receipt_allocations db' = receipt_allocations db"
  using assms
proof (induction as arbitrary: db p)
  case Nil
  then show ?case by simp
next
  case (Cons a as)
  have nonneg: "0 \<le> sum_list (map al_quantity as)"
    using Cons.prems(5) by (intro sum_list_nonneg) auto
  obtain db1 where first: "post_allocation r admin i a db = Inr db1"
    and rest: "for_each (post_allocation r admin i) as db1 = Inr db'"
    using Cons.prems(1) by (auto simp: and_then_eq_Inr)
  have slack: "pd_reserved_quantity p + al_quantity a \<le> pd_stock_quantity p"
    using Cons.prems(4) nonneg by simp
  note step = post_allocation_books_ok [OF first Cons.prems(2,3) slack]
  have "books_ok db' \<and> receipt_allocations db' = receipt_allocations db1"
    by (rule Cons.IH [OF rest step(1,2)]) (use Cons.prems(4,5) in auto)
  with step(4) show ?case by simp
qed


lemma check_allocation_Inr:
  assumes "check_allocation db a f = Inr g"
  obtains item where "get (order_items db) (al_order_item_id a) = Some item"
    and "g = f(oi_id item := f (oi_id item) + al_quantity a)"
    and "f (oi_id item) + al_quantity a \<le> outstanding item"
    and "oi_procurement_status item = Ordered"
  using assms by (auto simp: check_allocation_def Let_def split: option.splits if_splits)

lemma check_lines_covered:
  assumes "for_each (check_line db) items f = Inr g" and "i \<in> set items"
  shows "sum_list (map al_quantity (allocations_of db (ri_id i))) \<le> ri_quantity i"
  using assms
proof (induction items arbitrary: f)
  case (Cons x items)
  then obtain f' where step: "check_line db x f = Inr f'" and rest: "for_each (check_line db) items f' = Inr g"
    by (auto simp: and_then_eq_Inr)
  show ?case
  proof (cases "i = x")
    case True
    with step show ?thesis by (auto simp: check_line_def Let_def split: if_splits)
  next
    case False
    with Cons.IH [OF rest] Cons.prems(2) show ?thesis by simp
  qed
qed simp

definition allocations_positive :: "warehouse \<Rightarrow> bool" where
  "allocations_positive db \<longleftrightarrow> list_all (\<lambda>a. 0 < al_quantity a) (rows (receipt_allocations db))"

lemma allocations_of_positive:
  "allocations_positive db \<Longrightarrow> a \<in> set (allocations_of db i) \<Longrightarrow> 0 < al_quantity a"
  by (simp add: allocations_positive_def allocations_of_def select_where_def list_all_iff)

lemma post_line_books_ok:
  assumes "post_line r admin i db = Inr db'" and ok: "books_ok db" and "allocations_positive db"
    and covered: "sum_list (map al_quantity (allocations_of db (ri_id i))) \<le> ri_quantity i"
  shows "books_ok db' \<and> receipt_allocations db' = receipt_allocations db"
proof -
  obtain db1 where post: "post_movement (line_movement r admin i) db = Inr db1"
    and rest: "for_each (post_allocation r admin (ri_product_id i)) (allocations_of db1 (ri_id i)) db1 = Inr db'"
    using assms(1) by (auto simp: post_line_def and_then_eq_Inr)
  have line: "mv_product_id (line_movement r admin i) = ri_product_id i"
    by (simp add: line_movement_def new_movement_def)
  obtain p where p: "get (products db) (ri_product_id i) = Some p"
    using post by (auto elim!: post_movement_Inr simp: line)
  note effects = post_movement_effects [OF post, of p] 
  have quantity: "0 < ri_quantity i"
    using effects(3) p by (simp add: line movement_valid_def) (simp add: line_movement_def new_movement_def)
  have books: "books_ok db1"
    using books_okD [OF ok p] p quantity
    by (intro post_movement_books_ok [OF post ok]) (auto simp: line_movement_def new_movement_def)
  have p1: "get (products db1) (ri_product_id i) = Some (p\<lparr>pd_stock_quantity := pd_stock_quantity p + ri_quantity i\<rparr>)"
    using effects(1) p by (simp add: line) (simp add: apply_deltas_def line_movement_def new_movement_def)
  have same: "receipt_allocations db1 = receipt_allocations db"
    by (rule post_movement_frame [OF post])
  then have lines: "allocations_of db1 (ri_id i) = allocations_of db (ri_id i)"
    by (simp add: allocations_of_def)
  have "books_ok db' \<and> receipt_allocations db' = receipt_allocations db1"
    by (rule post_allocations_books_ok [OF rest books p1])
      (use covered books_okD [OF ok p] allocations_of_positive [OF assms(3)] in \<open>auto simp: lines\<close>)
  with same show ?thesis by simp
qed

lemma post_lines_books_ok:
  assumes "post_lines r admin items db = Inr db'" and "books_ok db" and positive: "allocations_positive db"
  shows "books_ok db'"
proof -
  define start where "start = fold (set_purchase_cost r items) (sort (remdups (map ri_product_id items))) db"
  obtain g where check: "for_each (check_line db) items (\<lambda>_. 0) = Inr g"
    and lines: "for_each (post_line r admin) items start = Inr db'"
    using assms(1) by (auto simp: post_lines_def and_then_eq_Inr Let_def start_def)
  have same: "receipt_allocations start = receipt_allocations db"
    using fold_purchase_cost_frame [of r items "sort (remdups (map ri_product_id items))" db]
    unfolding start_def by (metis warehouse.select_convs(7) warehouse.surjective warehouse.update_convs(1))
  have "books_ok db' \<and> receipt_allocations db' = receipt_allocations db"
    using lines
  proof (rule for_each_invariant)
    show "books_ok start \<and> receipt_allocations start = receipt_allocations db"
      using assms(2) same by (simp add: start_def fold_purchase_cost_books_ok)
  next
    fix i s s'
    assume i: "i \<in> set items" and s: "books_ok s \<and> receipt_allocations s = receipt_allocations db"
      and step: "post_line r admin i s = Inr s'"
    have "allocations_of s (ri_id i) = allocations_of db (ri_id i)" "allocations_positive s"
      using s positive by (simp_all add: allocations_of_def allocations_positive_def)
    with post_line_books_ok [OF step] check_lines_covered [OF check i] s
    show "books_ok s' \<and> receipt_allocations s' = receipt_allocations db" by simp
  qed
  then show ?thesis by simp
qed

lemma integrity_conflict_Inr: "integrity_conflict detail r = Inr x \<longleftrightarrow> r = Inr x"
  by (simp add: integrity_conflict_def split: sum.split error.split)

lemma post_receipt_books_ok:
  assumes "post_receipt db now i admin key = Inr db'" and "books_ok db" and "allocations_positive db"
  shows "books_ok db'"
  using assms post_lines_books_ok [OF _ assms(2,3)]
  by (auto simp: post_receipt_def Let_def and_then_eq_Inr integrity_conflict_Inr split: if_splits)

lemma post_counted_books_ok:
  assumes "post_counted c admin i db = Inr db'" and ok: "books_ok db"
    and "\<And>p. get (products db) (ci_product_id i) = Some p \<Longrightarrow> pd_reserved_quantity p \<le> ci_counted_quantity i"
  shows "books_ok db'"
proof -
  obtain p where p: "get (products db) (ci_product_id i) = Some p"
    using assms(1) by (auto simp: post_counted_def split: option.splits)
  define mid where "mid = db\<lparr>count_items := put (ci_id i) (i\<lparr>ci_expected_quantity := pd_stock_quantity p\<rparr>) (count_items db)\<rparr>"
  have mid: "books_ok mid" using ok by (simp add: mid_def)
  have "db' = mid \<or> post_movement (count_movement c admin i (ci_counted_quantity i - pd_stock_quantity p)) mid = Inr db'"
    using assms(1) p by (auto simp: post_counted_def Let_def mid_def split: if_splits)
  then show ?thesis
  proof
    assume "post_movement (count_movement c admin i (ci_counted_quantity i - pd_stock_quantity p)) mid = Inr db'"
    then show ?thesis
      using mid p assms(3) [OF p] books_okD [OF ok p]
      by (elim post_movement_books_ok) (auto simp: mid_def count_movement_def new_movement_def)
  qed (simp add: mid)
qed

lemma post_counted_reserved:
  assumes "post_counted c admin i db = Inr db'"
  shows "reserved db' j = reserved db j" and "receipt_allocations db' = receipt_allocations db"
proof -
  obtain p where p: "get (products db) (ci_product_id i) = Some p"
    using assms by (auto simp: post_counted_def split: option.splits)
  define mid where "mid = db\<lparr>count_items := put (ci_id i) (i\<lparr>ci_expected_quantity := pd_stock_quantity p\<rparr>) (count_items db)\<rparr>"
  have "db' = mid \<or> post_movement (count_movement c admin i (ci_counted_quantity i - pd_stock_quantity p)) mid = Inr db'"
    using assms p by (auto simp: post_counted_def Let_def mid_def split: if_splits)
  then have "reserved db' j = reserved db j \<and> receipt_allocations db' = receipt_allocations db"
  proof
    assume post: "post_movement (count_movement c admin i (ci_counted_quantity i - pd_stock_quantity p)) mid = Inr db'"
    with post_movement_effects(1) [OF post, of p j] post_movement_frame(5) [OF post] p show ?thesis
      by (auto simp: mid_def reserved_def count_movement_def new_movement_def apply_deltas_def)
  qed (simp add: mid_def reserved_def)
  then show "reserved db' j = reserved db j" and "receipt_allocations db' = receipt_allocations db" by simp_all
qed

lemma check_counted_all:
  assumes "for_each (check_counted db) items u = Inr v" and "i \<in> set items"
    and "get (products db) (ci_product_id i) = Some p"
  shows "pd_reserved_quantity p \<le> ci_counted_quantity i"
  using assms
proof (induction items arbitrary: u)
  case (Cons x items)
  then show ?case
    by (cases "i = x") (auto simp: and_then_eq_Inr check_counted_def split: if_splits option.splits)
qed simp

lemma post_count_Inr:
  assumes "post_count db now i admin key = Inr db'"
  obtains "db' = db"
  | c mid where "for_each (check_counted db) (counted_items db i) () = Inr ()"
      and "for_each (post_counted c admin) (counted_items db i) db = Inr mid"
      and "get (counts db) i = Some c" and "ct_status c = Draft" and "counted_items db i \<noteq> []"
      and "db' = mid\<lparr>counts := put i (c\<lparr>ct_status := Posted, ct_posted_at := Some now,
        ct_posted_by_user_id := Some admin, ct_posted_idempotency_key :=
          (if truthy_key key then key else ct_posted_idempotency_key c)\<rparr>) (counts mid)\<rparr>"
proof -
  have "db' = db \<or> (\<exists>c mid. for_each (check_counted db) (counted_items db i) () = Inr ()
      \<and> for_each (post_counted c admin) (counted_items db i) db = Inr mid
      \<and> get (counts db) i = Some c \<and> ct_status c = Draft \<and> counted_items db i \<noteq> []
      \<and> db' = mid\<lparr>counts := put i (c\<lparr>ct_status := Posted, ct_posted_at := Some now,
        ct_posted_by_user_id := Some admin, ct_posted_idempotency_key :=
          (if truthy_key key then key else ct_posted_idempotency_key c)\<rparr>) (counts mid)\<rparr>)"
    using assms document_status.exhaust
    by (auto simp: post_count_def get_count_def Let_def and_then_eq_Inr integrity_conflict_Inr
        split: if_splits option.splits)
  then show ?thesis using that by blast
qed

lemma post_count_books_ok:
  assumes "post_count db now i admin key = Inr db'" and ok: "books_ok db"
  shows "books_ok db' \<and> receipt_allocations db' = receipt_allocations db"
  using assms(1)
proof (rule post_count_Inr)
  fix c mid
  assume check: "for_each (check_counted db) (counted_items db i) () = Inr ()"
    and run: "for_each (post_counted c admin) (counted_items db i) db = Inr mid"
    and db': "db' = mid\<lparr>counts := put i (c\<lparr>ct_status := Posted, ct_posted_at := Some now,
        ct_posted_by_user_id := Some admin, ct_posted_idempotency_key :=
          (if truthy_key key then key else ct_posted_idempotency_key c)\<rparr>) (counts mid)\<rparr>"
  have "books_ok mid \<and> receipt_allocations mid = receipt_allocations db \<and> (\<forall>j. reserved mid j = reserved db j)"
    using run
  proof (rule for_each_invariant)
    fix x s s'
    assume x: "x \<in> set (counted_items db i)" and step: "post_counted c admin x s = Inr s'"
      and s: "books_ok s \<and> receipt_allocations s = receipt_allocations db \<and> (\<forall>j. reserved s j = reserved db j)"
    have "pd_reserved_quantity p \<le> ci_counted_quantity x" if "get (products s) (ci_product_id x) = Some p" for p
    proof -
      have "reserved db (ci_product_id x) = Some (pd_reserved_quantity p)"
        using s that by (metis reserved_def option.simps(9))
      then obtain q where "get (products db) (ci_product_id x) = Some q"
        and "pd_reserved_quantity q = pd_reserved_quantity p"
        by (auto simp: reserved_def)
      with check_counted_all [OF check x] show ?thesis by metis
    qed
    with post_counted_books_ok [OF step] post_counted_reserved [OF step] s
    show "books_ok s' \<and> receipt_allocations s' = receipt_allocations db \<and> (\<forall>j. reserved s' j = reserved db j)"
      by simp
  qed (simp add: ok)
  with db' show ?thesis by simp
qed (use ok in simp)

text \<open>The commands that only touch documents.\<close>

lemma create_receipt_books_ok:
  "create_receipt db key request = Inr (db', r) \<Longrightarrow>
    books_ok db' = books_ok db \<and> receipt_allocations db' = receipt_allocations db"
  by (auto simp: create_receipt_def require_matching_eq Let_def split: if_splits option.splits)

lemma create_count_books_ok:
  "create_count db key reason = Inr (db', c) \<Longrightarrow>
    books_ok db' = books_ok db \<and> receipt_allocations db' = receipt_allocations db"
  by (auto simp: create_count_def require_matching_eq Let_def split: if_splits option.splits)

lemma set_count_item_books_ok:
  "set_count_item db i product barcode quantity = Inr db' \<Longrightarrow>
    books_ok db' = books_ok db \<and> receipt_allocations db' = receipt_allocations db"
  by (auto simp: set_count_item_def and_then_eq_Inr split: if_splits option.splits)

lemma mark_ordered_books_ok:
  assumes "mark_ordered db items = Inr db'"
  shows "books_ok db' = books_ok db \<and> receipt_allocations db' = receipt_allocations db"
proof -
  have "for_each mark_one_ordered (sort items) db = Inr db'"
    using assms by (simp add: mark_ordered_def split: if_splits)
  then show ?thesis
    by (rule for_each_invariant) (auto simp: mark_one_ordered_def split: if_splits option.splits)
qed

lemma rows_put_subset: "set (rows (put i r t)) \<subseteq> insert r (set (rows t))"
  by (induction t) (auto simp: rows_def)

lemma upsert_allocation_ok:
  assumes "allocations_positive db" and "0 < snd a"
  shows "allocations_positive (upsert_allocation line a db)" and "books_ok (upsert_allocation line a db) = books_ok db"
proof -
  show "books_ok (upsert_allocation line a db) = books_ok db"
    by (simp add: upsert_allocation_def split: option.split)
  show "allocations_positive (upsert_allocation line a db)"
  proof (cases "find (\<lambda>x. al_receipt_item_id x = line \<and> al_order_item_id x = fst a) (rows (receipt_allocations db))")
    case None
    with assms show ?thesis by (simp add: allocations_positive_def upsert_allocation_def rows_put_next)
  next
    case (Some x)
    then have "0 < al_quantity x"
      using assms(1) by (auto simp: allocations_positive_def list_all_iff find_Some_iff)
    with Some assms rows_put_subset [of "al_id x" "x\<lparr>al_quantity := al_quantity x + snd a\<rparr>" "receipt_allocations db"]
    show ?thesis by (auto simp: allocations_positive_def upsert_allocation_def list_all_iff)
  qed
qed

lemma fold_upsert_allocation_ok:
  "allocations_positive db \<Longrightarrow> \<forall>a \<in> set as. 0 < snd a \<Longrightarrow>
    allocations_positive (fold (upsert_allocation line) as db)
    \<and> books_ok (fold (upsert_allocation line) as db) = books_ok db"
  by (induction as arbitrary: db) (simp_all add: upsert_allocation_ok)

lemma check_scan_positive:
  assumes "check_scan db i p = Inr product" and "a \<in> set (sp_allocations p)"
  shows "0 < snd a"
proof -
  obtain prod where run: "for_each (check_scan_allocation db i prod) (sp_allocations p) () = Inr ()"
    using assms(1) by (auto simp: check_scan_def and_then_eq_Inr split: if_splits)
  have "for_each (check_scan_allocation db i prod) as () = Inr () \<Longrightarrow> a \<in> set as \<Longrightarrow> 0 < snd a" for as
    by (induction as) (auto simp: and_then_eq_Inr check_scan_allocation_def split: if_splits option.splits)
  with run assms(2) show ?thesis by blast
qed

lemma allocations_positive_frame:
  "receipt_allocations db' = receipt_allocations db \<Longrightarrow> allocations_positive db' = allocations_positive db"
  by (simp add: allocations_positive_def)

lemma upsert_line_books_ok:
  "upsert_line db receipt product p = Inr (db', line) \<Longrightarrow>
    books_ok db' = books_ok db \<and> receipt_allocations db' = receipt_allocations db"
  by (auto simp: upsert_line_def Let_def split: list.splits)

lemma record_request_books_ok:
  "books_ok (record_request i key identity db) = books_ok db"
  "receipt_allocations (record_request i key identity db) = receipt_allocations db"
  by (simp_all add: record_request_def split: option.split)

lemma add_receipt_item_books_ok:
  assumes run: "add_receipt_item db i key p = Inr db'" and "allocations_positive db"
  shows "books_ok db' = books_ok db \<and> allocations_positive db'"
proof -
  have "db' = db \<or> (\<exists>r identity product. check_scan db i p = Inr product
      \<and> apply_scan db r (pd_id product) key identity p = Inr db')"
    using run by (auto simp: add_receipt_item_def and_then_eq_Inr split: if_splits option.splits)
  then show ?thesis
  proof
    assume "\<exists>r identity product. check_scan db i p = Inr product
      \<and> apply_scan db r (pd_id product) key identity p = Inr db'"
    then obtain r identity product mid line where check: "check_scan db i p = Inr product"
      and line: "upsert_line db (rc_id r) (pd_id product) p = Inr (mid, line)"
      and db': "db' = (let db = record_request (rc_id r) key identity (fold (upsert_allocation line) (sp_allocations p) mid)
          in db\<lparr>receipts := put (rc_id r) (bump_revision r) (receipts db)\<rparr>)"
      by (auto simp: apply_scan_def and_then_eq_Inr Let_def)
    note mid = upsert_line_books_ok [OF line]
    then have "allocations_positive mid" using assms(2) allocations_positive_frame by metis
    with fold_upsert_allocation_ok [of mid "sp_allocations p" line] check_scan_positive [OF check] mid
    show ?thesis
      by (simp add: db' Let_def record_request_books_ok allocations_positive_def)
  qed (use assms in simp)
qed

end
