(* ===== verification/Receipts.thy ===== *)
theory Receipts
  imports Inventory
begin

text \<open>
  \<^verbatim>\<open>app/services/inventory_receipt_changes.py\<close>: edits of draft receipts and corrections
  of posted ones. A posted line keeps its original figures; each correction is an audit row with the
  figures before and after it, and its stock delta a ledger entry. \<open>sha256\<close> is the hex digest of
  a key. An audit row holds the canonical request where the code holds its digest.
\<close>

section \<open>The receipt as corrected\<close>

definition is_correction :: "receipt_change \<Rightarrow> bool" where
  "is_correction x \<longleftrightarrow> (case cp_command (snd (rx_payload x)) of Posted_correction _ _ \<Rightarrow> True | _ \<Rightarrow> False)"

definition corrections_of :: "warehouse \<Rightarrow> int \<Rightarrow> int \<Rightarrow> receipt_change list" where
  "corrections_of db receipt_id item_id =
     select_where (\<lambda>x. is_correction x \<and> rx_receipt_id x = receipt_id \<and> rx_target_item_id x = item_id)
       (receipt_changes db)"

definition newer_change :: "receipt_change \<Rightarrow> receipt_change option \<Rightarrow> receipt_change option" where
  "newer_change x best = (case best of None \<Rightarrow> Some x | Some b \<Rightarrow> if rx_id b < rx_id x then Some x else Some b)"

definition latest_corrections :: "warehouse \<Rightarrow> int \<Rightarrow> int \<Rightarrow> receipt_change option" where
  "latest_corrections db receipt_id item_id = fold newer_change (corrections_of db receipt_id item_id) None"

text \<open>Quantity and cost of a line, its last correction applied.\<close>

definition figures_after :: "receipt_change \<Rightarrow> int \<times> int" where
  "figures_after x = (case rx_after x of None \<Rightarrow> (0, 0) | Some a \<Rightarrow> (ls_quantity a, ls_purchase_unit_cost a))"

definition effective :: "warehouse \<Rightarrow> receipt_item \<Rightarrow> int \<times> int" where
  "effective db i =
     (case latest_corrections db (ri_receipt_id i) (ri_id i) of
        Some x \<Rightarrow> figures_after x | None \<Rightarrow> (ri_quantity i, ri_purchase_unit_cost i))"

record receipt_view =
  rv_lines :: "(receipt_item \<times> int \<times> int \<times> int option) list"
  rv_original_purchase_value :: int
  rv_effective_purchase_value :: int

definition project_line :: "warehouse \<Rightarrow> receipt \<Rightarrow> receipt_item \<Rightarrow> receipt_item \<times> int \<times> int \<times> int option" where
  "project_line db r i =
     (if rc_status r = Posted
      then (i, fst (effective db i), snd (effective db i),
            map_option rx_id (latest_corrections db (ri_receipt_id i) (ri_id i)))
      else (i, ri_quantity i, ri_purchase_unit_cost i, None))"

definition project_receipt :: "warehouse \<Rightarrow> receipt \<Rightarrow> receipt_view" where
  "project_receipt db r =
     (let lines = map (project_line db r) (lines_of db (rc_id r))
      in \<lparr>rv_lines = lines,
          rv_original_purchase_value =
            sum_list (map (\<lambda>(i, _). ri_quantity i * ri_purchase_unit_cost i) lines),
          rv_effective_purchase_value = sum_list (map (\<lambda>(_, quantity, cost, _). quantity * cost) lines)\<rparr>)"

definition project_receipts :: "warehouse \<Rightarrow> int list \<Rightarrow> receipt_view list result" where
  "project_receipts db receipt_ids =
     (if list_ex (\<lambda>i. get (receipts db) i = None) receipt_ids
      then not_found ''Receipt disappeared during projection''
      else Inr (map (project_receipt db \<circ> the \<circ> get (receipts db)) receipt_ids))"

section \<open>Requests\<close>

text \<open>The request schemas: bounds, a reason, allocations once per order item and within the quantity.\<close>

definition command_valid :: "receipt_command \<Rightarrow> bool" where
  "command_valid c \<longleftrightarrow> (case c of
      Draft_update quantity cost allocations \<Rightarrow> 1 \<le> quantity \<and> quantity \<le> 1000000 \<and> 0 \<le> cost \<and> cost < 10 ^ 10
        \<and> length allocations \<le> 100
        \<and> list_all (\<lambda>(i, q). 1 \<le> i \<and> i \<le> 2147483647 \<and> 1 \<le> q \<and> q \<le> 1000000) allocations
        \<and> distinct (map fst allocations) \<and> sum_list (map snd allocations) \<le> quantity
    | Draft_delete \<Rightarrow> True
    | Posted_correction quantity cost \<Rightarrow> 0 \<le> quantity \<and> quantity \<le> 1000000 \<and> 0 \<le> cost \<and> cost < 10 ^ 10)"

definition payload_valid :: "change_payload \<Rightarrow> bool" where
  "payload_valid p \<longleftrightarrow> 1 \<le> cp_expected_revision p \<and> cp_expected_revision p \<le> 2147483647
     \<and> length (cp_reason p) \<le> 255 \<and> strip (cp_reason p) \<noteq> [] \<and> command_valid (cp_command p)"

definition canonical_command :: "receipt_command \<Rightarrow> receipt_command" where
  "canonical_command c =
     (case c of Draft_update quantity cost allocations \<Rightarrow> Draft_update quantity cost (sort_key fst allocations) | _ \<Rightarrow> c)"

definition canonical_payload :: "change_payload \<Rightarrow> change_payload" where
  "canonical_payload p = p\<lparr>cp_reason := strip (cp_reason p), cp_command := canonical_command (cp_command p)\<rparr>"

definition line_snapshot_of :: "warehouse \<Rightarrow> receipt_item \<Rightarrow> line_snapshot" where
  "line_snapshot_of db i =
     \<lparr>ls_product_id = ri_product_id i, ls_quantity = ri_quantity i,
      ls_purchase_unit_cost = ri_purchase_unit_cost i, ls_batch_number = ri_batch_number i,
      ls_expiration_date = ri_expiration_date i,
      ls_allocations = sort_key fst (map (\<lambda>a. (al_order_item_id a, al_quantity a)) (allocations_of db (ri_id i))),
      ls_product_cost = None\<rparr>"

section \<open>Corrections of posted lines\<close>

definition has_prefix :: "string \<Rightarrow> string option \<Rightarrow> bool" where
  "has_prefix prefix key \<longleftrightarrow> (case key of None \<Rightarrow> False | Some k \<Rightarrow> take (length prefix) k = prefix)"

text \<open>Stock that left, or was promised, after the receipt may be the stock the correction takes back.\<close>

definition downstream_activity :: "int \<Rightarrow> int \<Rightarrow> movement \<Rightarrow> movement \<Rightarrow> bool" where
  "downstream_activity receipt_id product_id original m \<longleftrightarrow>
     mv_product_id m = product_id \<and> mv_id original < mv_id m
     \<and> (mv_on_hand_delta m < 0 \<or> 0 < mv_reserved_delta m)
     \<and> \<not> (mv_receipt_id m = Some receipt_id
          \<and> (has_prefix ''receipt-correction:'' (mv_reference_key m)
             \<or> has_prefix (''receipt:'' @ show_int receipt_id @ '':allocation:'') (mv_reference_key m)))"

definition check_reduction :: "warehouse \<Rightarrow> int \<Rightarrow> int \<Rightarrow> product \<Rightarrow> int \<Rightarrow> unit result" where
  "check_reduction db receipt_id item_id p stock_delta =
     (if 0 \<le> stock_delta then Inr ()
      else if available_quantity p < - stock_delta then conflict ''receipt_insufficient_free_stock''
      else case movement_of_key db (receipt_key receipt_id ''item'' item_id) of
             None \<Rightarrow> conflict ''receipt_original_movement_missing''
           | Some original \<Rightarrow>
               if select_where (downstream_activity receipt_id (pd_id p) original) (movements db) \<noteq> []
               then conflict ''receipt_downstream_stock_activity'' else Inr ())"

text \<open>The order \<open>posted_at desc nulls last, id desc\<close>.\<close>

definition posted_later :: "receipt \<Rightarrow> receipt \<Rightarrow> bool" where
  "posted_later a b \<longleftrightarrow> (case (rc_posted_at a, rc_posted_at b) of
      (Some x, Some y) \<Rightarrow> y < x \<or> (x = y \<and> rc_id b < rc_id a)
    | (Some _, None) \<Rightarrow> True
    | (None, Some _) \<Rightarrow> False
    | (None, None) \<Rightarrow> rc_id b < rc_id a)"

definition newest_receipt :: "warehouse \<Rightarrow> int \<Rightarrow> int option" where
  "newest_receipt db product_id =
     map_option rc_id (fold (\<lambda>r best. case best of None \<Rightarrow> Some r
         | Some b \<Rightarrow> if posted_later r b then Some r else Some b)
       (select_where (\<lambda>r. rc_status r = Posted
          \<and> list_ex (\<lambda>i. ri_product_id i = product_id) (lines_of db (rc_id r))) (receipts db)) None)"

definition claim_cost :: "warehouse \<Rightarrow> int \<Rightarrow> product \<Rightarrow> product" where
  "claim_cost db receipt_id p =
     (if pd_purchase_cost_receipt_id p = None \<and> pd_purchase_unit_cost p = None
         \<and> newest_receipt db (pd_id p) = Some receipt_id
      then p\<lparr>pd_purchase_cost_receipt_id := Some receipt_id\<rparr> else p)"

definition overrides_of :: "warehouse \<Rightarrow> int \<Rightarrow> int \<Rightarrow> int \<times> int \<Rightarrow> int \<rightharpoonup> int \<times> int" where
  "overrides_of db receipt_id item_id figures line_id =
     (if line_id = item_id then Some figures
      else map_option figures_after (latest_corrections db receipt_id line_id))"

definition recost :: "warehouse \<Rightarrow> int \<Rightarrow> int \<Rightarrow> int \<times> int \<Rightarrow> product \<Rightarrow> product" where
  "recost db receipt_id item_id figures p =
     (if pd_purchase_cost_receipt_id p = Some receipt_id
      then p\<lparr>pd_purchase_unit_cost :=
        weighted_receipt_cost (lines_of db receipt_id) (pd_id p) (overrides_of db receipt_id item_id figures)\<rparr>
      else p)"

definition product_cost_of :: "product \<Rightarrow> int option \<times> int option" where
  "product_cost_of p = (pd_purchase_unit_cost p, pd_purchase_cost_receipt_id p)"

definition correction_movement ::
  "(string \<Rightarrow> string) \<Rightarrow> int \<Rightarrow> int \<Rightarrow> int \<Rightarrow> string \<Rightarrow> int \<Rightarrow> string \<Rightarrow> movement" where
  "correction_movement sha256 receipt_id product_id stock_delta reason actor_id idempotency_key =
     (new_movement product_id Inventory_adjustment \<bar>stock_delta\<bar> stock_delta 0 (Some reason) (Some actor_id))
       \<lparr>mv_receipt_id := Some receipt_id,
        mv_reference_key := Some (''receipt-correction:'' @ show_int receipt_id @ '':'' @ sha256 idempotency_key)\<rparr>"

text \<open>The figures before a correction, and the product once it is costed again.\<close>

definition correction_base :: "warehouse \<Rightarrow> receipt_item \<Rightarrow> line_snapshot" where
  "correction_base db i =
     (case latest_corrections db (ri_receipt_id i) (ri_id i) of
        None \<Rightarrow> line_snapshot_of db i
      | Some x \<Rightarrow> (case rx_after x of None \<Rightarrow> line_snapshot_of db i | Some a \<Rightarrow> a))"

definition check_correction :: "warehouse \<Rightarrow> int \<Rightarrow> receipt_item \<Rightarrow> int \<Rightarrow> int \<Rightarrow> product result" where
  "check_correction db receipt_id i quantity cost =
     (let base = correction_base db i
      in if quantity = ls_quantity base \<and> cost = ls_purchase_unit_cost base then conflict ''receipt_no_change''
         else if quantity < sum_list (map al_quantity (allocations_of db (ri_id i)))
         then conflict ''receipt_allocated_quantity_protected''
         else and_then (locked_product db (ri_product_id i)) (\<lambda>p.
           let stock_delta = quantity - ls_quantity base
           in and_then (check_reduction db receipt_id (ri_id i) p stock_delta) (\<lambda>_.
              if 0 \<le> pd_stock_quantity p + stock_delta \<and> pd_stock_quantity p + stock_delta \<le> 2147483647
              then Inr p else conflict ''receipt_stock_quantity_out_of_range'')))"

record applied_change =
  ac_before :: line_snapshot
  ac_after :: "line_snapshot option"
  ac_stock_delta :: int
  ac_movement_id :: "int option"

definition apply_correction ::
  "(string \<Rightarrow> string) \<Rightarrow> warehouse \<Rightarrow> int \<Rightarrow> receipt_item \<Rightarrow> int \<Rightarrow> int \<Rightarrow> string \<Rightarrow> int \<Rightarrow> string
    \<Rightarrow> (warehouse \<times> applied_change) result" where
  "apply_correction sha256 db receipt_id i quantity cost reason actor_id idempotency_key =
     and_then (check_correction db receipt_id i quantity cost) (\<lambda>p.
     let base = correction_base db i;
         stock_delta = quantity - ls_quantity base;
         p' = recost db receipt_id (ri_id i) (quantity, cost) (claim_cost db receipt_id p);
         before = base\<lparr>ls_product_cost := Some (product_cost_of p)\<rparr>;
         after = base\<lparr>ls_quantity := quantity, ls_purchase_unit_cost := cost,
                      ls_product_cost := Some (product_cost_of p')\<rparr>;
         db' = db\<lparr>products := put (ri_product_id i) p' (products db)\<rparr>
     in if stock_delta = 0
        then Inr (db', \<lparr>ac_before = before, ac_after = Some after, ac_stock_delta = 0, ac_movement_id = None\<rparr>)
        else and_then (post_movement
               (correction_movement sha256 receipt_id (pd_id p) stock_delta reason actor_id idempotency_key) db')
             (\<lambda>db''. Inr (db'', \<lparr>ac_before = before, ac_after = Some after, ac_stock_delta = stock_delta,
                               ac_movement_id = Some (next_id (movements db'))\<rparr>)))"

section \<open>Edits of drafts\<close>

definition allocated_elsewhere :: "warehouse \<Rightarrow> int \<Rightarrow> int \<Rightarrow> int \<Rightarrow> int" where
  "allocated_elsewhere db receipt_id item_id order_item_id =
     sum_list (map al_quantity (select_where (\<lambda>a. al_order_item_id a = order_item_id
       \<and> al_receipt_item_id a \<in> set (map ri_id (filter (\<lambda>i. ri_id i \<noteq> item_id) (lines_of db receipt_id))))
       (receipt_allocations db)))"

definition check_replacement :: "warehouse \<Rightarrow> int \<Rightarrow> receipt_item \<Rightarrow> int \<times> int \<Rightarrow> unit \<Rightarrow> unit result" where
  "check_replacement db receipt_id i allocation _ =
     (case get (order_items db) (fst allocation) of
        None \<Rightarrow> not_found ''Allocation order item not found''
      | Some requirement \<Rightarrow>
          if oi_product_id requirement \<noteq> ri_product_id i then unprocessable ''Allocation product mismatch''
          else case get (orders db) (oi_order_id requirement) of
                 None \<Rightarrow> Inl KeyError
               | Some ord \<Rightarrow>
                   if od_status ord = Order_cancelled \<or> od_status ord = Order_completed
                   then conflict ''Allocation order is terminal''
                   else if oi_procurement_status requirement \<noteq> Ordered
                   then conflict ''Allocation requires ordered procurement''
                   else if allocated_elsewhere db receipt_id (ri_id i) (fst allocation) + snd allocation
                     > outstanding requirement
                   then conflict ''Allocation exceeds outstanding order requirement''
                   else Inr ())"

definition check_update :: "warehouse \<Rightarrow> int \<Rightarrow> receipt_item \<Rightarrow> int \<Rightarrow> int \<Rightarrow> (int \<times> int) list \<Rightarrow> unit result" where
  "check_update db receipt_id i quantity cost allocations =
     and_then (for_each (check_replacement db receipt_id i) allocations ()) (\<lambda>_.
     if list_ex (\<lambda>other. ri_id other \<noteq> ri_id i \<and> ri_product_id other = ri_product_id i
          \<and> ri_batch_number other = ri_batch_number i \<and> ri_expiration_date other = ri_expiration_date i
          \<and> ri_purchase_unit_cost other = cost) (lines_of db receipt_id)
     then conflict ''Edit would duplicate another receipt lot line''
     else let before = line_snapshot_of db i
          in ensure (quantity \<noteq> ls_quantity before \<or> cost \<noteq> ls_purchase_unit_cost before
               \<or> allocations \<noteq> ls_allocations before) (HTTPException 409 ''receipt_no_change''))"

definition add_allocation :: "int \<Rightarrow> int \<times> int \<Rightarrow> warehouse \<Rightarrow> warehouse" where
  "add_allocation line_id allocation db =
     db\<lparr>receipt_allocations := put (next_id (receipt_allocations db))
       \<lparr>al_id = next_id (receipt_allocations db), al_receipt_item_id = line_id,
        al_order_item_id = fst allocation, al_quantity = snd allocation\<rparr> (receipt_allocations db)\<rparr>"

definition update_line ::
  "warehouse \<Rightarrow> int \<Rightarrow> receipt_item \<Rightarrow> int \<Rightarrow> int \<Rightarrow> (int \<times> int) list \<Rightarrow> (warehouse \<times> applied_change) result" where
  "update_line db receipt_id i quantity cost allocations =
     and_then (check_update db receipt_id i quantity cost allocations) (\<lambda>_.
     let before = line_snapshot_of db i;
         after = before\<lparr>ls_quantity := quantity, ls_purchase_unit_cost := cost, ls_allocations := allocations\<rparr>;
         db = db\<lparr>receipt_items := put (ri_id i) (i\<lparr>ri_quantity := quantity, ri_purchase_unit_cost := cost\<rparr>)
                (receipt_items db),
              receipt_allocations := delete_where (\<lambda>a. al_receipt_item_id a = ri_id i) (receipt_allocations db)\<rparr>;
         db = fold (add_allocation (ri_id i)) allocations db
     in Inr (db, \<lparr>ac_before = before, ac_after = Some after, ac_stock_delta = 0, ac_movement_id = None\<rparr>))"

definition delete_line :: "warehouse \<Rightarrow> receipt_item \<Rightarrow> warehouse \<times> applied_change" where
  "delete_line db i =
     (db\<lparr>receipt_items := delete_where (\<lambda>x. ri_id x = ri_id i) (receipt_items db),
         receipt_allocations := delete_where (\<lambda>a. al_receipt_item_id a = ri_id i) (receipt_allocations db)\<rparr>,
      \<lparr>ac_before = line_snapshot_of db i, ac_after = None, ac_stock_delta = 0, ac_movement_id = None\<rparr>)"

section \<open>The command\<close>

definition apply_command ::
  "(string \<Rightarrow> string) \<Rightarrow> warehouse \<Rightarrow> int \<Rightarrow> receipt_item \<Rightarrow> change_payload \<Rightarrow> int \<Rightarrow> string
    \<Rightarrow> (warehouse \<times> applied_change) result" where
  "apply_command sha256 db receipt_id i payload actor_id idempotency_key =
     (case cp_command payload of
        Posted_correction quantity cost \<Rightarrow>
          apply_correction sha256 db receipt_id i quantity cost (cp_reason payload) actor_id idempotency_key
      | Draft_delete \<Rightarrow> and_then (locked_product db (ri_product_id i)) (\<lambda>_. Inr (delete_line db i))
      | Draft_update quantity cost allocations \<Rightarrow>
          and_then (locked_product db (ri_product_id i)) (\<lambda>_.
          update_line db receipt_id i quantity cost allocations))"

definition expected_status :: "receipt_command \<Rightarrow> document_status" where
  "expected_status c = (case c of Posted_correction _ _ \<Rightarrow> Posted | _ \<Rightarrow> Draft)"

definition purchase_value :: "line_snapshot option \<Rightarrow> int" where
  "purchase_value s = (case s of None \<Rightarrow> 0 | Some l \<Rightarrow> ls_purchase_unit_cost l * ls_quantity l)"

definition record_change ::
  "warehouse \<Rightarrow> receipt \<Rightarrow> int \<Rightarrow> change_payload \<Rightarrow> int \<Rightarrow> string \<Rightarrow> applied_change \<Rightarrow> warehouse" where
  "record_change db r item_id payload actor_id idempotency_key applied =
     (let revision = rc_revision r + 1;
          x = \<lparr>rx_id = next_id (receipt_changes db), rx_receipt_id = rc_id r, rx_target_item_id = item_id,
               rx_actor_id = actor_id, rx_idempotency_key = idempotency_key, rx_payload = (item_id, payload),
               rx_reason = cp_reason payload, rx_applied_revision = revision, rx_before = ac_before applied,
               rx_after = ac_after applied, rx_on_hand_delta = ac_stock_delta applied,
               rx_purchase_value_delta =
                 purchase_value (ac_after applied) - purchase_value (Some (ac_before applied)),
               rx_movement_id = ac_movement_id applied\<rparr>
      in db\<lparr>receipts := put (rc_id r) (r\<lparr>rc_revision := revision\<rparr>) (receipts db),
            receipt_changes := put (rx_id x) x (receipt_changes db)\<rparr>)"

definition change_of_key :: "warehouse \<Rightarrow> int \<Rightarrow> string \<Rightarrow> receipt_change option" where
  "change_of_key db receipt_id key =
     find (\<lambda>x. rx_receipt_id x = receipt_id \<and> rx_idempotency_key x = key) (rows (receipt_changes db))"

definition mutate_receipt ::
  "(string \<Rightarrow> string) \<Rightarrow> warehouse \<Rightarrow> int \<Rightarrow> int \<Rightarrow> change_payload \<Rightarrow> int \<Rightarrow> string \<Rightarrow> warehouse result" where
  "mutate_receipt sha256 db receipt_id item_id payload actor_id idempotency_key =
     (if strip idempotency_key = [] \<or> length idempotency_key > 128
      then unprocessable ''Idempotency-Key must contain 1..128 nonblank characters''
      else let payload = canonical_payload payload
      in and_then (get_receipt db receipt_id) (\<lambda>r.
      case change_of_key db receipt_id idempotency_key of
        Some prior \<Rightarrow> if rx_payload prior \<noteq> (item_id, payload) then conflict ''receipt_idempotency_conflict'' else Inr db
      | None \<Rightarrow>
          if rc_revision r \<noteq> cp_expected_revision payload then conflict ''receipt_revision_conflict''
          else if rc_status r \<noteq> expected_status (cp_command payload)
          then conflict ''Use corrections for posted receipts; direct edits require a draft''
          else case find (\<lambda>i. ri_id i = item_id) (lines_of db receipt_id) of
                 None \<Rightarrow> not_found ''Receipt item not found in this receipt''
               | Some i \<Rightarrow>
                   and_then (apply_command sha256 db receipt_id i payload actor_id idempotency_key) (\<lambda>(db, applied).
                   Inr (record_change db r item_id payload actor_id idempotency_key applied))))"

text \<open>The route: the schema refuses a bad payload before the service runs.\<close>

definition change_receipt_item ::
  "(string \<Rightarrow> string) \<Rightarrow> warehouse \<Rightarrow> int \<Rightarrow> int \<Rightarrow> change_payload \<Rightarrow> int \<Rightarrow> string \<Rightarrow> warehouse result" where
  "change_receipt_item sha256 db receipt_id item_id payload actor_id idempotency_key =
     (if payload_valid payload then mutate_receipt sha256 db receipt_id item_id payload actor_id idempotency_key
      else unprocessable ''validation error'')"

end
