(* ===== verification/Catalog.thy ===== *)
theory Catalog
  imports Warehouse
begin

text \<open>
  The category forest: \<^verbatim>\<open>app/services/category.py\<close>, which keeps it free of cycles, and
  \<^verbatim>\<open>app/services/catalog_visibility.py\<close>, which resolves what a shopper sees of it. The
  visibility of a category is characterised by an inductive predicate, and the memoising search is
  shown to compute it on every graph, cyclic ones included.
\<close>

section \<open>Categories\<close>

record category =
  cg_id :: int
  cg_name :: string
  cg_slug :: string
  cg_is_active :: bool
  cg_parent_id :: "int option"

record category_data =
  cd_name :: string
  cd_slug :: string
  cd_is_active :: bool
  cd_parent_id :: "int option"

text \<open>A partial update; \<open>cu_parent_id\<close> is \<open>Some None\<close> for an explicit null.\<close>

record category_update =
  cu_name :: "string option"
  cu_slug :: "string option"
  cu_is_active :: "bool option"
  cu_parent_id :: "int option option"

definition validate_slug_uniqueness :: "category table \<Rightarrow> string \<Rightarrow> int option \<Rightarrow> unit result" where
  "validate_slug_uniqueness cats slug exclude_id =
     ensure (select_where (\<lambda>c. cg_slug c = slug \<and> exclude_id \<noteq> Some (cg_id c)) cats = [])
       (HTTPException 400 ''Category slug already exists'')"

definition get_existing_category :: "category table \<Rightarrow> int \<Rightarrow> unit result" where
  "get_existing_category cats category_id =
     ensure (get cats category_id \<noteq> None) (HTTPException 404 ''Parent category not found'')"

definition create_category :: "category table \<Rightarrow> category_data \<Rightarrow> (category table \<times> category) result" where
  "create_category cats data =
     and_then (validate_slug_uniqueness cats (cd_slug data) None) (\<lambda>_.
     and_then (case cd_parent_id data of None \<Rightarrow> Inr () | Some parent_id \<Rightarrow> get_existing_category cats parent_id) (\<lambda>_.
     let c = \<lparr>cg_id = next_id cats, cg_name = cd_name data, cg_slug = cd_slug data,
              cg_is_active = cd_is_active data, cg_parent_id = cd_parent_id data\<rparr>
     in Inr (put (cg_id c) c cats, c)))"

text \<open>The walk from the new parent to the root.\<close>

lemma unseen_decreases:
  assumes "i \<in> set xs" and "i \<notin> V"
  shows "length (filter (\<lambda>j. j \<noteq> i \<and> j \<notin> V) xs) < length (filter (\<lambda>j. j \<notin> V) xs)"
proof -
  have "filter (\<lambda>j. j \<noteq> i \<and> j \<notin> V) xs = filter (\<lambda>j. j \<noteq> i) (filter (\<lambda>j. j \<notin> V) xs)"
    by (simp add: conj_commute)
  with assms length_filter_less [of i "filter (\<lambda>j. j \<notin> V) xs" "\<lambda>j. j \<noteq> i"] show ?thesis by simp
qed

function ensure_no_cycle :: "category table \<Rightarrow> int \<Rightarrow> int list \<Rightarrow> int option \<Rightarrow> unit result" where
  "ensure_no_cycle cats category_id seen current =
     (case current of
        None \<Rightarrow> Inr ()
      | Some i \<Rightarrow>
          if i = category_id \<or> i \<in> set seen
          then bad_request ''Category parent relationship would create a cycle''
          else case get cats i of
                 None \<Rightarrow> Inr ()
               | Some parent \<Rightarrow> ensure_no_cycle cats category_id (i # seen) (cg_parent_id parent))"
  by pat_completeness auto
termination
  by (relation "measure (\<lambda>(cats, _, seen, _). length (filter (\<lambda>j. j \<notin> set seen) (ids cats)))")
    (auto simp: in_ids intro!: unseen_decreases)

declare ensure_no_cycle.simps [simp del]

text \<open>A partial update writes the fields it has; a slug that is taken fails at commit.\<close>

definition set_fields :: "category_update \<Rightarrow> category \<Rightarrow> category" where
  "set_fields data c = c
     \<lparr>cg_name := (case cu_name data of None \<Rightarrow> cg_name c | Some n \<Rightarrow> n),
      cg_slug := (case cu_slug data of None \<Rightarrow> cg_slug c | Some s \<Rightarrow> s),
      cg_is_active := (case cu_is_active data of None \<Rightarrow> cg_is_active c | Some b \<Rightarrow> b),
      cg_parent_id := (case cu_parent_id data of None \<Rightarrow> cg_parent_id c | Some p \<Rightarrow> p)\<rparr>"

definition check_parent :: "category table \<Rightarrow> category \<Rightarrow> category_update \<Rightarrow> unit result" where
  "check_parent cats c data =
     (case cu_parent_id data of
        None \<Rightarrow> Inr ()
      | Some parent \<Rightarrow>
          if parent = Some (cg_id c) then bad_request ''Category cannot be its own parent''
          else case parent of
                 None \<Rightarrow> Inr ()
               | Some p \<Rightarrow> and_then (get_existing_category cats p) (\<lambda>_. ensure_no_cycle cats (cg_id c) [] (Some p)))"

definition update_category ::
  "category table \<Rightarrow> category \<Rightarrow> category_update \<Rightarrow> (category table \<times> category) result" where
  "update_category cats c data =
     and_then (case cu_slug data of
         Some slug \<Rightarrow> if slug \<noteq> [] \<and> slug \<noteq> cg_slug c
           then validate_slug_uniqueness cats slug (Some (cg_id c)) else Inr ()
       | None \<Rightarrow> Inr ()) (\<lambda>_.
     and_then (check_parent cats c data) (\<lambda>_.
     let c' = set_fields data c
     in if select_where (\<lambda>x. cg_slug x = cg_slug c' \<and> cg_id x \<noteq> cg_id c') cats \<noteq> [] then Inl IntegrityError
        else Inr (put (cg_id c) c' cats, c')))"

definition delete_category :: "product table \<Rightarrow> category table \<Rightarrow> category \<Rightarrow> category table result" where
  "delete_category stock cats c =
     (if select_where (\<lambda>x. cg_parent_id x = Some (cg_id c)) cats \<noteq> []
      then bad_request ''Category has child categories and cannot be deleted''
      else if select_where (\<lambda>p. pd_category_id p = Some (cg_id c)) stock \<noteq> []
      then bad_request ''Category has linked products and cannot be deleted''
      else Inr (drop_row (cg_id c) cats))"

section \<open>Visibility\<close>

datatype hidden_reason = Hidden_product | Hidden_category | Hidden_parent_category

record visibility =
  is_effectively_visible :: bool
  vs_hidden_reason :: "hidden_reason option"

definition visible_state :: visibility where
  "visible_state = \<lparr>is_effectively_visible = True, vs_hidden_reason = None\<rparr>"

definition hidden_state :: "hidden_reason \<Rightarrow> visibility" where
  "hidden_state r = \<lparr>is_effectively_visible = False, vs_hidden_reason = Some r\<rparr>"

text \<open>\<open>states\<close> is the memo, \<open>visiting\<close> the categories on the path of the recursion.\<close>

function resolve ::
  "category table \<Rightarrow> int list \<Rightarrow> visibility table \<Rightarrow> int \<Rightarrow> (visibility \<times> visibility table) result" where
  "resolve cats visiting states i =
     (case get states i of
        Some s \<Rightarrow> Inr (s, states)
      | None \<Rightarrow> (case get cats i of
          None \<Rightarrow> Inl KeyError
        | Some c \<Rightarrow>
            if \<not> cg_is_active c then Inr (hidden_state Hidden_category, put i (hidden_state Hidden_category) states)
            else if i \<in> set visiting then Inr (hidden_state Hidden_parent_category, states)
            else case cg_parent_id c of
                   None \<Rightarrow> Inr (visible_state, put i visible_state states)
                 | Some p \<Rightarrow>
                     if get cats p = None then Inr (visible_state, put i visible_state states)
                     else and_then (resolve cats (i # visiting) states p) (\<lambda>(parent_state, states).
                       let s = (if is_effectively_visible parent_state then visible_state
                                else hidden_state Hidden_parent_category)
                       in Inr (s, put i s states))))"
  by pat_completeness auto
termination
  by (relation "measure (\<lambda>(cats, visiting, _, _). length (filter (\<lambda>j. j \<notin> set visiting) (ids cats)))")
    (auto simp: in_ids intro!: unseen_decreases)

declare resolve.simps [simp del]

definition from_categories :: "category table \<Rightarrow> visibility table result" where
  "from_categories cats =
     for_each (\<lambda>i states. and_then (resolve cats [] states i) (\<lambda>(_, states). Inr states)) (ids cats) []"

definition product_state :: "category table \<Rightarrow> visibility table \<Rightarrow> product \<Rightarrow> visibility result" where
  "product_state cats states p =
     (if \<not> pd_is_active p then Inr (hidden_state Hidden_product)
      else case pd_category_id p of
             None \<Rightarrow> Inr visible_state
           | Some i \<Rightarrow> (case get cats i of
               None \<Rightarrow> Inr visible_state
             | Some c \<Rightarrow> (case get states (cg_id c) of
                 None \<Rightarrow> Inl KeyError
               | Some s \<Rightarrow> Inr (if is_effectively_visible s then visible_state
                   else hidden_state (case vs_hidden_reason s of None \<Rightarrow> Hidden_category | Some r \<Rightarrow> r)))))"

definition visible_category_ids :: "visibility table \<Rightarrow> int list" where
  "visible_category_ids states = map fst (filter (\<lambda>(_, s). is_effectively_visible s) states)"

text \<open>The same rule as the condition of a select.\<close>

definition visible_product_clause :: "visibility table \<Rightarrow> product \<Rightarrow> bool" where
  "visible_product_clause states p \<longleftrightarrow> pd_is_active p \<and> (case pd_category_id p of
      None \<Rightarrow> True | Some i \<Rightarrow> i \<in> set (visible_category_ids states))"

definition is_available_for_purchase :: "category table \<Rightarrow> visibility table \<Rightarrow> product \<Rightarrow> bool result" where
  "is_available_for_purchase cats states p =
     and_then (product_state cats states p) (\<lambda>s.
     Inr (is_effectively_visible s \<and> (pd_allow_backorder p \<or> 0 < available_quantity p)))"

definition children_of :: "category table \<Rightarrow> int \<Rightarrow> int list" where
  "children_of cats i = map cg_id (select_where (\<lambda>c. cg_parent_id c = Some i) cats)"

text \<open>The worklist: its top is the head, so children are pushed in reverse.\<close>

function collect :: "category table \<Rightarrow> int list \<Rightarrow> int list \<Rightarrow> int list" where
  "collect cats descendants [] = descendants"
| "collect cats descendants (i # stack) =
     (if i \<in> set descendants then collect cats descendants stack
      else collect cats (i # descendants) (rev (children_of cats i) @ stack))"
  by pat_completeness auto
termination
proof (relation "measures [\<lambda>(cats, seen, stack). card ((set stack \<union> cg_id ` set (rows cats)) - set seen),
    \<lambda>(_, _, stack). length stack]")
  fix cats :: "category table" and seen stack :: "int list" and i
  assume new: "i \<notin> set seen"
  let ?U = "\<lambda>st. set st \<union> cg_id ` set (rows cats)"
  have "set (children_of cats i) \<subseteq> cg_id ` set (rows cats)"
    by (auto simp: children_of_def select_where_def)
  then have "?U (rev (children_of cats i) @ stack) - set (i # seen) \<subset> ?U (i # stack) - set seen"
    using new by auto
  then have "card (?U (rev (children_of cats i) @ stack) - set (i # seen)) < card (?U (i # stack) - set seen)"
    by (intro psubset_card_mono) auto
  then show "((cats, i # seen, rev (children_of cats i) @ stack), cats, seen, i # stack)
    \<in> measures [\<lambda>(cats, seen, stack). card ((set stack \<union> cg_id ` set (rows cats)) - set seen),
        \<lambda>(_, _, stack). length stack]"
    by simp
next
  fix cats :: "category table" and seen stack :: "int list" and i
  assume "i \<in> set seen"
  then have "(set (i # stack) \<union> cg_id ` set (rows cats)) - set seen = (set stack \<union> cg_id ` set (rows cats)) - set seen"
    by auto
  then show "((cats, seen, stack), cats, seen, i # stack)
    \<in> measures [\<lambda>(cats, seen, stack). card ((set stack \<union> cg_id ` set (rows cats)) - set seen),
        \<lambda>(_, _, stack). length stack]"
    by simp
qed simp

definition descendant_ids :: "category table \<Rightarrow> int \<Rightarrow> int list" where
  "descendant_ids cats category_id =
     (if get cats category_id = None then [] else collect cats [] [category_id])"

chapter \<open>Facts\<close>

section \<open>The forest\<close>

definition parents :: "category table \<Rightarrow> (int \<times> int) set" where
  "parents cats = {(i, p). \<exists>c. get cats i = Some c \<and> cg_parent_id c = Some p}"

text \<open>A category is shown if it is active and so is all of a path to a root.\<close>

inductive shown :: "category table \<Rightarrow> int \<Rightarrow> bool" for cats where
  root: "get cats i = Some c \<Longrightarrow> cg_is_active c \<Longrightarrow> cg_parent_id c = None \<Longrightarrow> shown cats i"
| orphan: "get cats i = Some c \<Longrightarrow> cg_is_active c \<Longrightarrow> cg_parent_id c = Some p \<Longrightarrow> get cats p = None
    \<Longrightarrow> shown cats i"
| child: "get cats i = Some c \<Longrightarrow> cg_is_active c \<Longrightarrow> cg_parent_id c = Some p \<Longrightarrow> shown cats p
    \<Longrightarrow> shown cats i"

inductive_cases shownE: "shown cats i"

lemma shown_exists: "shown cats i \<Longrightarrow> \<exists>c. get cats i = Some c \<and> cg_is_active c"
  by (erule shownE) auto

lemma parents_step: "get cats i = Some c \<Longrightarrow> (i, j) \<in> parents cats \<longleftrightarrow> cg_parent_id c = Some j"
  by (simp add: parents_def)

lemma parents_none: "get cats i = None \<Longrightarrow> (i, j) \<in> (parents cats)\<^sup>* \<Longrightarrow> j = i"
  by (erule converse_rtranclE) (auto simp: parents_def)

lemma shown_not_cyclic: "shown cats i \<Longrightarrow> (i, i) \<notin> (parents cats)\<^sup>+"
proof (induction rule: shown.induct)
  case (root i c)
  then show ?case by (auto simp: parents_def dest!: tranclD)
next
  case (orphan i c p)
  show ?case
  proof
    assume "(i, i) \<in> (parents cats)\<^sup>+"
    then obtain j where "(i, j) \<in> parents cats" "(j, i) \<in> (parents cats)\<^sup>*" by (auto dest: tranclD)
    with orphan show False using parents_none [of cats p i] by (auto simp: parents_step)
  qed
next
  case (child i c p)
  show ?case
  proof
    assume "(i, i) \<in> (parents cats)\<^sup>+"
    then obtain j where "(i, j) \<in> parents cats" "(j, i) \<in> (parents cats)\<^sup>*" by (auto dest: tranclD)
    with child have "(p, i) \<in> (parents cats)\<^sup>*" "(i, p) \<in> parents cats" by (auto simp: parents_step)
    then have "(p, p) \<in> (parents cats)\<^sup>+" by simp
    with child show False by simp
  qed
qed

definition state_of :: "category table \<Rightarrow> int \<Rightarrow> visibility" where
  "state_of cats i =
     (case get cats i of
        None \<Rightarrow> hidden_state Hidden_category
      | Some c \<Rightarrow> if \<not> cg_is_active c then hidden_state Hidden_category
          else if shown cats i then visible_state else hidden_state Hidden_parent_category)"

lemma state_of_visible: "is_effectively_visible (state_of cats i) \<longleftrightarrow> shown cats i"
  using shown_exists [of cats i]
  by (auto simp: state_of_def hidden_state_def visible_state_def split: option.splits)

text \<open>The search agrees with the definition, whatever it has memoised and wherever it is.\<close>

definition memo_ok :: "category table \<Rightarrow> visibility table \<Rightarrow> bool" where
  "memo_ok cats states \<longleftrightarrow> (\<forall>j s. get states j = Some s \<longrightarrow> get cats j \<noteq> None \<and> s = state_of cats j)"

lemma memo_ok_put: "memo_ok cats states \<Longrightarrow> get cats i \<noteq> None \<Longrightarrow> s = state_of cats i \<Longrightarrow> memo_ok cats (put i s states)"
  by (simp add: memo_ok_def get_put)

lemma resolve_correct:
  assumes "memo_ok cats states" and "get cats i \<noteq> None"
    and "\<forall>v \<in> set visiting. (v, i) \<in> (parents cats)\<^sup>+"
  shows "\<exists>states'. resolve cats visiting states i = Inr (state_of cats i, states') \<and> memo_ok cats states'
    \<and> (\<forall>j. get states j \<noteq> None \<longrightarrow> get states' j \<noteq> None)
    \<and> (i \<notin> set visiting \<longrightarrow> get states' i \<noteq> None)"
  using assms
proof (induction cats visiting states i rule: resolve.induct)
  case (1 cats visiting states i)
  obtain c where c: "get cats i = Some c" using "1.prems"(2) by auto
  show ?case
  proof (cases "get states i")
    case (Some s)
    with "1.prems"(1) have "s = state_of cats i" by (auto simp: memo_ok_def)
    with Some "1.prems"(1) show ?thesis by (simp add: resolve.simps)
  next
    case fresh: None
    consider (inactive) "\<not> cg_is_active c" | (loop) "cg_is_active c" "i \<in> set visiting"
      | (top) "cg_is_active c" "i \<notin> set visiting" "\<forall>p. cg_parent_id c = Some p \<longrightarrow> get cats p = None"
      | (inner) p where "cg_is_active c" "i \<notin> set visiting" "cg_parent_id c = Some p" "get cats p \<noteq> None"
      by blast
    then show ?thesis
    proof cases
      case inactive
      then have "state_of cats i = hidden_state Hidden_category" by (simp add: state_of_def c)
      with inactive fresh c "1.prems" show ?thesis by (simp add: resolve.simps memo_ok_put get_put)
    next
      case loop
      then have "\<not> shown cats i" using "1.prems"(3) shown_not_cyclic by blast
      with loop have "state_of cats i = hidden_state Hidden_parent_category" by (simp add: state_of_def c)
      with loop fresh c "1.prems" show ?thesis by (simp add: resolve.simps)
    next
      case top
      then have "shown cats i" using c by (cases "cg_parent_id c") (auto intro: shown.intros)
      with top have "state_of cats i = visible_state" by (simp add: state_of_def c)
      with top fresh c "1.prems" show ?thesis
        by (cases "cg_parent_id c") (simp_all add: resolve.simps memo_ok_put get_put)
    next
      case inner
      have "\<forall>v \<in> set (i # visiting). (v, p) \<in> (parents cats)\<^sup>+"
        using "1.prems"(3) inner c by (auto simp: parents_step intro: trancl_into_trancl)
      with "1.IH" [OF fresh c _ inner(2,3)] inner "1.prems"(1) obtain states'
        where rec: "resolve cats (i # visiting) states p = Inr (state_of cats p, states')"
          and ok: "memo_ok cats states'" and keeps: "\<forall>j. get states j \<noteq> None \<longrightarrow> get states' j \<noteq> None"
        by auto
      have shown: "shown cats i \<longleftrightarrow> shown cats p"
        using inner c by (auto intro: shown.child elim: shownE)
      have "state_of cats i = (if is_effectively_visible (state_of cats p) then visible_state
          else hidden_state Hidden_parent_category)"
        using inner shown by (simp add: state_of_visible) (simp add: state_of_def c)
      moreover obtain d where "get cats p = Some d" using inner(4) by auto
      ultimately have "resolve cats visiting states i = Inr (state_of cats i, put i (state_of cats i) states')"
        using inner fresh c rec by (subst resolve.simps) (simp add: Let_def)
      with ok keeps c show ?thesis by (simp add: memo_ok_put get_put)
    qed
  qed
qed

lemma from_categories_loop:
  assumes "memo_ok cats states" and "\<forall>i \<in> set is. get cats i \<noteq> None"
  shows "\<exists>states'. for_each (\<lambda>i states. and_then (resolve cats [] states i) (\<lambda>(_, states). Inr states)) is states
      = Inr states' \<and> memo_ok cats states'
    \<and> (\<forall>j. get states j \<noteq> None \<or> j \<in> set is \<longrightarrow> get states' j \<noteq> None)"
  using assms
proof (induction "is" arbitrary: states)
  case (Cons i js)
  obtain mid where mid: "resolve cats [] states i = Inr (state_of cats i, mid)" "memo_ok cats mid"
      "\<forall>j. get states j \<noteq> None \<longrightarrow> get mid j \<noteq> None" "get mid i \<noteq> None"
    using resolve_correct [of cats states i "[]"] Cons.prems by auto
  from Cons.IH [OF mid(2)] Cons.prems(2) obtain states'
    where rest: "for_each (\<lambda>i states. and_then (resolve cats [] states i) (\<lambda>(_, states). Inr states)) js mid
        = Inr states'"
      and ok: "memo_ok cats states'"
      and keeps: "\<forall>j. get mid j \<noteq> None \<or> j \<in> set js \<longrightarrow> get states' j \<noteq> None"
    by (metis list.set_intros(2))
  have "get states' j \<noteq> None" if "get states j \<noteq> None \<or> j \<in> set (i # js)" for j
    using that keeps mid(3,4) by auto
  with rest mid(1) ok show ?case by simp
qed simp

text \<open>The states of all categories are those the definition gives; nothing raises.\<close>

lemma from_categories_correct:
  "\<exists>states. from_categories cats = Inr states
    \<and> (\<forall>i. get states i = (if get cats i = None then None else Some (state_of cats i)))"
proof -
  obtain states where run: "from_categories cats = Inr states" and ok: "memo_ok cats states"
    and all: "\<forall>j. j \<in> set (ids cats) \<longrightarrow> get states j \<noteq> None"
    using from_categories_loop [of cats "[]" "ids cats"] by (auto simp: from_categories_def memo_ok_def in_ids)
  have "get states i = (if get cats i = None then None else Some (state_of cats i))" for i
    using ok all by (cases "get states i") (auto simp: memo_ok_def in_ids)
  with run show ?thesis by blast
qed

lemma visible_category_ids_iff:
  assumes "table_ok states"
  shows "i \<in> set (visible_category_ids states) \<longleftrightarrow> (\<exists>s. get states i = Some s \<and> is_effectively_visible s)"
  using assms by (force simp: visible_category_ids_def table_ok_def ids_def dest: map_of_SomeD)

lemma resolve_table_ok:
  "table_ok states \<Longrightarrow> resolve cats visiting states i = Inr (s, states') \<Longrightarrow> table_ok states'"
proof (induction cats visiting states i arbitrary: s states' rule: resolve.induct)
  case (1 cats visiting states i)
  show ?case
    using "1.prems"
    by (subst (asm) resolve.simps)
      (auto simp: and_then_eq_Inr Let_def dest: "1.IH" split: option.splits if_splits)
qed

lemma from_categories_table_ok:
  assumes "from_categories cats = Inr states"
  shows "table_ok states"
  using assms unfolding from_categories_def
  by (rule for_each_invariant) (auto simp: and_then_eq_Inr dest: resolve_table_ok)

section \<open>Descendants\<close>

definition child_of :: "category table \<Rightarrow> int \<Rightarrow> int \<Rightarrow> bool" where
  "child_of cats i j \<longleftrightarrow> j \<in> set (children_of cats i)"

lemma collect_correct:
  assumes "\<forall>x \<in> set seen. \<forall>j. child_of cats x j \<longrightarrow> j \<in> set seen \<union> set stack"
    and "\<forall>x \<in> set seen \<union> set stack. (child_of cats)\<^sup>*\<^sup>* i x" and "i \<in> set seen \<union> set stack"
  shows "j \<in> set (collect cats seen stack) \<longleftrightarrow> (child_of cats)\<^sup>*\<^sup>* i j"
  using assms
proof (induction cats seen stack rule: collect.induct)
  case (1 cats seen)
  have "(child_of cats)\<^sup>*\<^sup>* i x \<Longrightarrow> x \<in> set seen" for x
    by (induction rule: rtranclp_induct) (use "1.prems" in auto)
  with "1.prems"(2) show ?case by auto
next
  case (2 cats seen x stack)
  show ?case
  proof (cases "x \<in> set seen")
    case True
    have "j \<in> set (collect cats seen stack) \<longleftrightarrow> (child_of cats)\<^sup>*\<^sup>* i j"
      by (rule "2.IH"(1) [OF True]) (use "2.prems" True in auto)
    with True show ?thesis by simp
  next
    case False
    have reach: "(child_of cats)\<^sup>*\<^sup>* i x" using "2.prems"(2) by simp
    have new: "(child_of cats)\<^sup>*\<^sup>* i y" if "y \<in> set (children_of cats x)" for y
      using reach that by (metis child_of_def rtranclp.rtrancl_into_rtrancl)
    have "j \<in> set (collect cats (x # seen) (rev (children_of cats x) @ stack)) \<longleftrightarrow> (child_of cats)\<^sup>*\<^sup>* i j"
    proof (rule "2.IH"(2) [OF False])
      show "\<forall>y \<in> set (x # seen). \<forall>j. child_of cats y j \<longrightarrow>
          j \<in> set (x # seen) \<union> set (rev (children_of cats x) @ stack)"
        using "2.prems"(1) by (auto simp: child_of_def)
      show "\<forall>y \<in> set (x # seen) \<union> set (rev (children_of cats x) @ stack). (child_of cats)\<^sup>*\<^sup>* i y"
        using "2.prems"(2) reach new by auto
      show "i \<in> set (x # seen) \<union> set (rev (children_of cats x) @ stack)"
        using "2.prems"(3) by auto
    qed
    with False show ?thesis by simp
  qed
qed

lemma descendant_ids_correct:
  "j \<in> set (descendant_ids cats i) \<longleftrightarrow> get cats i \<noteq> None \<and> (child_of cats)\<^sup>*\<^sup>* i j"
  using collect_correct [of "[]" cats "[i]" i j] by (auto simp: descendant_ids_def)

section \<open>The service keeps a forest\<close>

definition forest_ok :: "category table \<Rightarrow> bool" where
  "forest_ok cats \<longleftrightarrow> has_id cg_id cats \<and> acyclic (parents cats)
     \<and> (\<forall>(i, p) \<in> parents cats. get cats p \<noteq> None)"

lemma ensure_no_cycle_sound:
  "ensure_no_cycle cats k seen current = Inr () \<Longrightarrow> current = Some i \<Longrightarrow> (i, k) \<notin> (parents cats)\<^sup>*"
proof (induction cats k seen current arbitrary: i rule: ensure_no_cycle.induct)
  case (1 cats k seen current)
  have step: "i \<noteq> k" "i \<notin> set seen"
    using "1.prems" by (subst (asm) ensure_no_cycle.simps; auto split: if_splits)+
  show ?case
  proof (cases "get cats i")
    case None
    with step show ?thesis using parents_none by metis
  next
    case (Some c)
    then have rest: "ensure_no_cycle cats k (i # seen) (cg_parent_id c) = Inr ()"
      using "1.prems" step by (subst (asm) ensure_no_cycle.simps) simp
    show ?thesis
    proof
      assume "(i, k) \<in> (parents cats)\<^sup>*"
      then obtain q where q: "cg_parent_id c = Some q" "(q, k) \<in> (parents cats)\<^sup>*"
        using step(1) Some by (auto elim: converse_rtranclE simp: parents_step)
      with "1.IH" [OF "1.prems"(2) _ Some rest q(1)] step show False by simp
    qed
  qed
qed

lemma create_category_forest:
  assumes "create_category cats data = Inr (cats', c)" and ok: "forest_ok cats"
  shows "forest_ok cats'"
proof -
  have parent: "\<forall>p. cd_parent_id data = Some p \<longrightarrow> get cats p \<noteq> None"
    and cats': "cats' = put (next_id cats) c cats" "cg_parent_id c = cd_parent_id data" "cg_id c = next_id cats"
    using assms(1) by (auto simp: create_category_def and_then_eq_Inr Let_def get_existing_category_def split: option.splits)
  have sub: "parents cats' = parents cats \<union> {(next_id cats, p) |p. cd_parent_id data = Some p}"
    by (auto simp: parents_def cats' get_put split: if_splits)
  have fresh: "(x, next_id cats) \<notin> parents cats" for x
    using ok by (auto simp: forest_ok_def)
  have "acyclic (parents cats')"
  proof (cases "cd_parent_id data")
    case None
    with sub ok show ?thesis by (simp add: forest_ok_def)
  next
    case (Some p)
    have "(p, next_id cats) \<notin> (parents cats)\<^sup>*"
    proof
      assume "(p, next_id cats) \<in> (parents cats)\<^sup>*"
      then show False
        by (cases rule: rtranclE) (use Some parent fresh in auto)
    qed
    moreover have "parents cats' = insert (next_id cats, p) (parents cats)" using sub Some by auto
    ultimately show ?thesis using ok by (simp add: forest_ok_def acyclic_insert)
  qed
  moreover have "has_id cg_id cats'"
    using ok by (simp add: forest_ok_def cats' has_id_put)
  moreover have "\<forall>(i, p) \<in> parents cats'. get cats p \<noteq> None"
    unfolding sub using ok parent by (auto simp: forest_ok_def)
  ultimately show ?thesis unfolding forest_ok_def by (auto simp: cats'(1) get_put)
qed

lemma update_category_forest:
  assumes "update_category cats c data = Inr (cats', c')" and ok: "forest_ok cats"
    and row: "get cats (cg_id c) = Some c"
  shows "forest_ok cats'"
proof -
  have check: "check_parent cats c data = Inr ()" and cats': "cats' = put (cg_id c) (set_fields data c) cats"
    using assms(1) by (auto simp: update_category_def and_then_eq_Inr Let_def split: if_splits)
  define parent where "parent = cg_parent_id (set_fields data c)"
  have sub: "parents cats' \<subseteq> parents cats \<union> {(cg_id c, p) |p. parent = Some p}"
    by (auto simp: parents_def cats' get_put parent_def split: if_splits)
  have new: "(\<exists>q. cu_parent_id data = Some (Some q) \<and> parent = Some q \<and> get cats q \<noteq> None
        \<and> (q, cg_id c) \<notin> (parents cats)\<^sup>*)
      \<or> cu_parent_id data = None \<and> parent = cg_parent_id c \<or> parent = None"
  proof (cases "cu_parent_id data")
    case (Some pp)
    show ?thesis
    proof (cases pp)
      case (Some q)
      with \<open>cu_parent_id data = Some pp\<close> check
      have "get cats q \<noteq> None" "ensure_no_cycle cats (cg_id c) [] (Some q) = Inr ()"
        by (auto simp: check_parent_def and_then_eq_Inr get_existing_category_def split: if_splits)
      with ensure_no_cycle_sound \<open>cu_parent_id data = Some pp\<close> Some show ?thesis
        by (auto simp: parent_def set_fields_def)
    qed (simp add: Some parent_def set_fields_def)
  qed (simp add: parent_def set_fields_def)
  have "acyclic (parents cats') \<and> (\<forall>(i, p) \<in> parents cats'. get cats p \<noteq> None)"
    using new
  proof (elim disjE exE conjE)
    fix q
    assume q: "parent = Some q" "get cats q \<noteq> None" "(q, cg_id c) \<notin> (parents cats)\<^sup>*"
    have "parents cats' \<subseteq> insert (cg_id c, q) (parents cats)" using sub q(1) by auto
    moreover have "acyclic (insert (cg_id c, q) (parents cats))"
      using q(3) ok by (simp add: forest_ok_def acyclic_insert)
    ultimately show ?thesis using q(2) ok by (auto simp: forest_ok_def intro: acyclic_subset)
  next
    assume "parent = cg_parent_id c"
    then have "parents cats' \<subseteq> parents cats" using sub row by (auto simp: parents_def)
    then show ?thesis using ok by (auto simp: forest_ok_def intro: acyclic_subset)
  next
    assume "parent = None"
    then have "parents cats' \<subseteq> parents cats" using sub by auto
    then show ?thesis using ok by (auto simp: forest_ok_def intro: acyclic_subset)
  qed
  moreover have "has_id cg_id cats'"
    using ok by (simp add: forest_ok_def cats' has_id_put set_fields_def)
  ultimately show ?thesis unfolding forest_ok_def by (auto simp: cats' get_put)
qed

lemma delete_category_forest:
  assumes "delete_category stock cats c = Inr cats'" and ok: "forest_ok cats"
  shows "forest_ok cats'"
proof -
  have childless: "select_where (\<lambda>x. cg_parent_id x = Some (cg_id c)) cats = []"
    and cats': "cats' = drop_row (cg_id c) cats"
    using assms(1) by (auto simp: delete_category_def split: if_splits)
  have "(i, cg_id c) \<notin> parents cats" for i
    using childless by (auto simp: parents_def select_where_def filter_empty_conv dest: get_in_rows)
  moreover have sub: "parents cats' \<subseteq> parents cats"
    by (auto simp: parents_def cats' get_drop_row split: if_splits)
  ultimately show ?thesis
    using ok unfolding forest_ok_def
    by (auto simp: cats' has_id_drop_row get_drop_row intro: acyclic_subset)
qed

text \<open>One call of the service; an update or a delete works on a row it has loaded.\<close>

inductive category_step :: "product table \<Rightarrow> category table \<Rightarrow> category table \<Rightarrow> bool" for stock where
  create: "create_category cats data = Inr (cats', c) \<Longrightarrow> category_step stock cats cats'"
| update: "get cats i = Some c \<Longrightarrow> update_category cats c data = Inr (cats', c') \<Longrightarrow> category_step stock cats cats'"
| delete: "get cats i = Some c \<Longrightarrow> delete_category stock cats c = Inr cats' \<Longrightarrow> category_step stock cats cats'"

lemma category_step_forest: "category_step stock cats cats' \<Longrightarrow> forest_ok cats \<Longrightarrow> forest_ok cats'"
proof (induction rule: category_step.induct)
  case (create cats data cats' c)
  then show ?case by (metis create_category_forest)
next
  case (update cats i c data cats' c')
  then have "cg_id c = i" by (auto simp: forest_ok_def dest: has_id_get)
  with update show ?case by (metis update_category_forest)
next
  case (delete cats i c cats')
  then show ?case by (metis delete_category_forest)
qed

lemma category_steps_forest: "(category_step stock)\<^sup>*\<^sup>* cats cats' \<Longrightarrow> forest_ok cats \<Longrightarrow> forest_ok cats'"
  by (induction rule: rtranclp_induct) (auto intro: category_step_forest)

lemma forest_ok_empty: "forest_ok []"
  by (auto simp: forest_ok_def has_id_def parents_def acyclic_def)

text \<open>On a forest a category is shown exactly if it and its ancestors are active.\<close>

lemma finite_parents: "finite (parents cats)"
proof -
  have "parents cats \<subseteq> (\<lambda>i. (i, the (cg_parent_id (the (get cats i))))) ` set (ids cats)"
    by (force simp: parents_def in_ids)
  then show ?thesis by (rule finite_subset) simp
qed

lemma shown_iff_ancestors_active:
  assumes "forest_ok cats" and "get cats i \<noteq> None"
  shows "shown cats i \<longleftrightarrow> (\<forall>a c. (i, a) \<in> (parents cats)\<^sup>* \<longrightarrow> get cats a = Some c \<longrightarrow> cg_is_active c)"
proof -
  have "wf ((parents cats)\<inverse>)"
    using assms(1) by (intro finite_acyclic_wf_converse finite_parents) (simp add: forest_ok_def)
  then show ?thesis using assms(2)
  proof (induction i rule: wf_induct_rule)
    case (less i)
    then obtain c where c: "get cats i = Some c" by auto
    show ?case
    proof (cases "cg_parent_id c")
      case None
      then have "(i, a) \<in> (parents cats)\<^sup>* \<longleftrightarrow> a = i" for a
        using c by (auto elim: converse_rtranclE simp: parents_step)
      then show ?thesis using None c by (auto elim: shownE intro: shown.root)
    next
      case (Some p)
      then have edge: "(i, p) \<in> parents cats" using c by (simp add: parents_step)
      then have p: "get cats p \<noteq> None" using assms(1) by (auto simp: forest_ok_def)
      have "(i, a) \<in> (parents cats)\<^sup>* \<longleftrightarrow> a = i \<or> (p, a) \<in> (parents cats)\<^sup>*" for a
        using c Some edge by (auto elim!: converse_rtranclE [of i] simp: parents_step intro: converse_rtrancl_into_rtrancl)
      moreover have "shown cats i \<longleftrightarrow> cg_is_active c \<and> shown cats p"
        using c Some p by (auto elim: shownE intro: shown.child)
      ultimately show ?thesis using less.IH [of p] edge p c by auto
    qed
  qed
qed

section \<open>What a shopper sees\<close>

definition ancestors_active :: "category table \<Rightarrow> int \<Rightarrow> bool" where
  "ancestors_active cats i \<longleftrightarrow> (\<forall>a c. (i, a) \<in> (parents cats)\<^sup>* \<longrightarrow> get cats a = Some c \<longrightarrow> cg_is_active c)"

lemma product_state_correct:
  assumes states: "\<forall>i. get states i = (if get cats i = None then None else Some (state_of cats i))"
    and "table_ok states" and "has_id cg_id cats" and "\<forall>i. pd_category_id p = Some i \<longrightarrow> get cats i \<noteq> None"
  shows "\<exists>s. product_state cats states p = Inr s
    \<and> (is_effectively_visible s \<longleftrightarrow> visible_product_clause states p)
    \<and> (visible_product_clause states p \<longleftrightarrow> pd_is_active p \<and> (\<forall>i. pd_category_id p = Some i \<longrightarrow> shown cats i))"
proof (cases "pd_category_id p")
  case None
  then show ?thesis
    by (simp add: product_state_def visible_product_clause_def visible_state_def hidden_state_def)
next
  case (Some i)
  then obtain c where c: "get cats i = Some c" using assms(4) by auto
  have "i \<in> set (visible_category_ids states) \<longleftrightarrow> shown cats i"
    using states c by (simp add: visible_category_ids_iff [OF assms(2)] state_of_visible)
  moreover have "cg_id c = i" using assms(3) c by (rule has_id_get)
  ultimately show ?thesis
    using Some c states
    by (simp add: product_state_def visible_product_clause_def state_of_visible)
      (simp add: visible_state_def hidden_state_def)
qed

text \<open>C24: In every category tree the service can build, the visibility pass raises no error and a
  product is shown exactly if it is active and so are its category and all categories above it; the
  condition used in selects agrees with it.\<close>

theorem product_shown_iff:
  assumes "(category_step stock)\<^sup>*\<^sup>* [] cats" and "\<forall>i. pd_category_id p = Some i \<longrightarrow> get cats i \<noteq> None"
  shows "\<exists>states s. from_categories cats = Inr states \<and> product_state cats states p = Inr s
    \<and> (is_effectively_visible s \<longleftrightarrow> pd_is_active p \<and> (\<forall>i. pd_category_id p = Some i \<longrightarrow> ancestors_active cats i))
    \<and> (visible_product_clause states p \<longleftrightarrow> is_effectively_visible s)"
proof -
  have ok: "forest_ok cats" using category_steps_forest [OF assms(1) forest_ok_empty] .
  obtain states where run: "from_categories cats = Inr states"
    and states: "\<forall>i. get states i = (if get cats i = None then None else Some (state_of cats i))"
    using from_categories_correct by blast
  have "has_id cg_id cats" using ok by (simp add: forest_ok_def)
  from product_state_correct [OF states from_categories_table_ok [OF run] this assms(2)] run
    shown_iff_ancestors_active [OF ok] assms(2)
  show ?thesis unfolding ancestors_active_def by metis
qed

definition demo_categories :: "category table" where
  "demo_categories =
    [(1, \<lparr>cg_id = 1, cg_name = ''Care'', cg_slug = ''care'', cg_is_active = True, cg_parent_id = None\<rparr>),
     (2, \<lparr>cg_id = 2, cg_name = ''Hair'', cg_slug = ''hair'', cg_is_active = True, cg_parent_id = Some 1\<rparr>)]"

definition demo_product :: product where
  "demo_product =
     \<lparr>pd_id = 1, pd_name = ''Clay'', pd_sku = None, pd_barcode = None, pd_barcode_bound_by = None,
      pd_price = 45000, pd_shop_price = None, pd_brand_id = None, pd_category_id = Some 2,
      pd_stock_quantity = 0, pd_reserved_quantity = 0, pd_purchase_unit_cost = None,
      pd_purchase_cost_receipt_id = None, pd_allow_backorder = True, pd_is_active = True,
      pd_created_by = None, pd_creation_key = None, pd_creation_payload = None\<rparr>"

lemma demo_categories_reached: "(category_step stock)\<^sup>*\<^sup>* [] demo_categories"
proof -
  have "category_step stock []
      [(1, \<lparr>cg_id = 1, cg_name = ''Care'', cg_slug = ''care'', cg_is_active = True, cg_parent_id = None\<rparr>)]"
    by (rule category_step.create [of _
          "\<lparr>cd_name = ''Care'', cd_slug = ''care'', cd_is_active = True, cd_parent_id = None\<rparr>"])
      code_simp
  moreover have "category_step stock
      [(1, \<lparr>cg_id = 1, cg_name = ''Care'', cg_slug = ''care'', cg_is_active = True, cg_parent_id = None\<rparr>)]
      demo_categories"
    by (rule category_step.create [of _
          "\<lparr>cd_name = ''Hair'', cd_slug = ''hair'', cd_is_active = True, cd_parent_id = Some 1\<rparr>"])
      code_simp
  ultimately show ?thesis by simp
qed

theorem product_shown_iff_witness:
  "\<exists>states s. from_categories demo_categories = Inr states \<and> product_state demo_categories states demo_product = Inr s
    \<and> is_effectively_visible s = (pd_is_active demo_product
        \<and> (case pd_category_id demo_product of None \<Rightarrow> True | Some i \<Rightarrow> ancestors_active demo_categories i))
    \<and> visible_product_clause states demo_product = is_effectively_visible s"
  using product_shown_iff [OF demo_categories_reached, of demo_product]
  by (simp add: demo_product_def demo_categories_def)

text \<open>C25: No sequence of category creations, edits and deletions makes a category its own ancestor or
  leaves it with a parent that does not exist.\<close>

theorem categories_stay_a_forest:
  assumes "(category_step stock)\<^sup>*\<^sup>* [] cats"
  shows "acyclic (parents cats) \<and> (\<forall>i c p. get cats i = Some c \<longrightarrow> cg_parent_id c = Some p \<longrightarrow> get cats p \<noteq> None)"
  using category_steps_forest [OF assms forest_ok_empty] by (force simp: forest_ok_def parents_def)

theorem categories_stay_a_forest_witness:
  "acyclic (parents demo_categories)
    \<and> list_all (\<lambda>(i, c). case cg_parent_id c of None \<Rightarrow> True | Some p \<Rightarrow> get demo_categories p \<noteq> None) demo_categories"
proof
  show "acyclic (parents demo_categories)" using categories_stay_a_forest [OF demo_categories_reached] by simp
  have "get demo_categories p \<noteq> None" if "(i, c) \<in> set demo_categories" and "cg_parent_id c = Some p" for i c p
  proof -
    have "get demo_categories i = Some c" by (rule map_of_is_SomeI [OF _ that(1)]) code_simp
    with categories_stay_a_forest [OF demo_categories_reached] that(2) show ?thesis by simp
  qed
  then show "list_all (\<lambda>(i, c). case cg_parent_id c of None \<Rightarrow> True | Some p \<Rightarrow> get demo_categories p \<noteq> None)
      demo_categories"
    by (auto simp: list_all_iff split: option.split)
qed

text \<open>C40: The worklist of a category returns, on every graph, exactly the category and the categories
  below it.\<close>

theorem descendant_ids_closure:
  "set (descendant_ids cats i) = (if get cats i = None then {} else {j. (child_of cats)\<^sup>*\<^sup>* i j})"
  unfolding set_eq_iff by (simp add: descendant_ids_correct)

end
