(* ===== verification/Pricing.thy ===== *)
theory Pricing
  imports Catalog Calendar
begin

text \<open>
  \<^verbatim>\<open>app/services/shop_promotion.py\<close> and the promotions an administrator keeps
  (\<^verbatim>\<open>app/api/v1/routes/shop_promotions.py\<close>): which promotion a product gets, what it then
  costs, the limits of a promotion code, and the rules a stored promotion satisfies. Discounts never
  stack: the lowest price wins, then the lowest priority, then the lowest id.
\<close>

section \<open>The price of a product\<close>

record shop_price =
  sr_base_price :: int
  sr_price :: int
  sr_discount_amount :: int
  sr_discount_percent :: "int option"
  sr_promotion_id :: "int option"
  sr_promotion_name :: "string option"
  sr_promotion_code :: "string option"
  sr_promotion_trigger :: "promotion_trigger option"

definition effective_shop_price :: "product \<Rightarrow> int" where
  "effective_shop_price p = (case pd_shop_price p of Some price \<Rightarrow> price | None \<Rightarrow> pd_price p)"

text \<open>Both sides are normalised to Kyiv, so their wall clocks are compared.\<close>

definition is_active_at :: "zone \<Rightarrow> shop_promotion \<Rightarrow> instant \<Rightarrow> bool" where
  "is_active_at z p at \<longleftrightarrow> sh_is_active p
     \<and> (case sh_starts_at p of None \<Rightarrow> True | Some s \<Rightarrow> to_kyiv z s \<le> to_kyiv z at)
     \<and> (case sh_ends_at p of None \<Rightarrow> True | Some e \<Rightarrow> to_kyiv z at < to_kyiv z e)"

definition category_parents :: "category table \<Rightarrow> (int \<times> int option) list" where
  "category_parents cats = map (\<lambda>(i, c). (i, cg_parent_id c)) cats"

text \<open>Each step of the walk below visits another key, or ends it at a category that is not a key.\<close>

lemma unvisited_less:
  "i \<in> set xs \<Longrightarrow> i \<notin> V \<Longrightarrow>
    length (filter (\<lambda>j. j \<noteq> i \<and> j \<notin> V) xs) < length (filter (\<lambda>j. j \<notin> V) xs)"
  by (rule unseen_decreases)

lemma unvisited_le: "length (filter (\<lambda>j. j \<noteq> i \<and> j \<notin> V) xs) \<le> length (filter (\<lambda>j. j \<notin> V) xs)"
  by (induction xs) auto

function ancestor_walk :: "(int \<times> int option) list \<Rightarrow> int list \<Rightarrow> int option \<Rightarrow> int list" where
  "ancestor_walk parent_ids ancestors current =
     (case current of
        None \<Rightarrow> ancestors
      | Some i \<Rightarrow>
          if i \<in> set ancestors then ancestors
          else ancestor_walk parent_ids (i # ancestors)
                 (case map_of parent_ids i of None \<Rightarrow> None | Some parent \<Rightarrow> parent))"
  by pat_completeness auto

termination
proof (relation "measures [\<lambda>(parent_ids, ancestors, _). length (filter (\<lambda>j. j \<notin> set ancestors) (map fst parent_ids)),
    \<lambda>(_, _, current). if current = None then 0 else 1]", simp)
  fix parent_ids :: "(int \<times> int option) list" and ancestors :: "int list" and current :: "int option" and i :: int
  assume step: "current = Some i" "i \<notin> set ancestors"
  show "((parent_ids, i # ancestors, case map_of parent_ids i of None \<Rightarrow> None | Some parent \<Rightarrow> parent),
      (parent_ids, ancestors, current)) \<in> measures [\<lambda>(parent_ids, ancestors, _). length (filter (\<lambda>j. j \<notin> set ancestors)
        (map fst parent_ids)), \<lambda>(_, _, current). if current = None then 0 else 1]"
  proof (cases "i \<in> set (map fst parent_ids)")
    case True
    from unvisited_less [OF this step(2)] show ?thesis by simp
  next
    case False
    then have "map_of parent_ids i = None" by (simp add: map_of_eq_None_iff)
    with step(1) unvisited_le [of i "set ancestors" "map fst parent_ids"] show ?thesis by auto
  qed
qed

declare ancestor_walk.simps [simp del]

definition category_ancestor_ids :: "int option \<Rightarrow> (int \<times> int option) list \<Rightarrow> int list" where
  "category_ancestor_ids category_id parent_ids = ancestor_walk parent_ids [] category_id"

definition matches_product :: "shop_promotion \<Rightarrow> product \<Rightarrow> (int \<times> int option) list \<Rightarrow> bool" where
  "matches_product promotion p parent_ids \<longleftrightarrow>
     (if sh_applies_to_all_products promotion then True
      else if pd_id p \<in> set (sh_product_ids promotion) then True
      else if (case pd_brand_id p of None \<Rightarrow> False | Some b \<Rightarrow> b \<in> set (sh_brand_ids promotion)) then True
      else case pd_category_id p of
             None \<Rightarrow> False
           | Some c \<Rightarrow>
               let category_ids = (if sh_include_subcategories promotion
                 then category_ancestor_ids (pd_category_id p) parent_ids else [c])
               in list_ex (\<lambda>i. i \<in> set (sh_category_ids promotion)) category_ids)"

definition apply_promotion :: "int \<Rightarrow> shop_promotion \<Rightarrow> int" where
  "apply_promotion base_price promotion =
     (let value = sh_discount_value promotion
      in case sh_discount_type promotion of
           Percent \<Rightarrow> round_div (max 0 (base_price * (10000 - value))) 10000
         | Fixed_amount \<Rightarrow> max 0 (base_price - value)
         | Fixed_price \<Rightarrow> max 0 value)"

text \<open>\<open>min(items, key=...)\<close>: the first of the items with the least key.\<close>

fun least_by :: "('a \<Rightarrow> 'k :: linorder) \<Rightarrow> 'a list \<Rightarrow> 'a option" where
  "least_by key [] = None"
| "least_by key (x # xs) =
     (case least_by key xs of None \<Rightarrow> Some x | Some y \<Rightarrow> Some (if key y < key x then y else x))"

definition candidates ::
  "zone \<Rightarrow> (int \<times> int option) list \<Rightarrow> instant \<Rightarrow> shop_promotion list \<Rightarrow> product \<Rightarrow> (int \<times> shop_promotion) list" where
  "candidates z parent_ids at promotions p =
     filter (\<lambda>(price, _). price < effective_shop_price p)
       (map (\<lambda>promotion. (apply_promotion (effective_shop_price p) promotion, promotion))
         (filter (\<lambda>promotion. is_active_at z promotion at \<and> matches_product promotion p parent_ids) promotions))"

definition rank :: "int \<times> shop_promotion \<Rightarrow> int \<times> int \<times> int" where
  "rank = (\<lambda>(price, promotion). (price, sh_priority promotion, sh_id promotion))"

definition calculate_product_price ::
  "zone \<Rightarrow> (int \<times> int option) list \<Rightarrow> instant \<Rightarrow> shop_promotion list \<Rightarrow> product \<Rightarrow> shop_price" where
  "calculate_product_price z parent_ids at promotions p =
     (let base_price = effective_shop_price p
      in case least_by rank (candidates z parent_ids at promotions p) of
           None \<Rightarrow> \<lparr>sr_base_price = base_price, sr_price = base_price, sr_discount_amount = 0,
             sr_discount_percent = None, sr_promotion_id = None, sr_promotion_name = None,
             sr_promotion_code = None, sr_promotion_trigger = None\<rparr>
         | Some (price, promotion) \<Rightarrow>
             \<lparr>sr_base_price = base_price, sr_price = price, sr_discount_amount = base_price - price,
              sr_discount_percent =
                (if base_price \<noteq> 0 then Some (round_div ((base_price - price) * 10000) base_price) else None),
              sr_promotion_id = Some (sh_id promotion), sr_promotion_name = Some (sh_name promotion),
              sr_promotion_code = sh_code promotion, sr_promotion_trigger = Some (sh_trigger promotion)\<rparr>)"

section \<open>Promotions that apply\<close>

text \<open>The query compares instants.\<close>

definition automatic_promotions :: "warehouse \<Rightarrow> instant \<Rightarrow> shop_promotion list" where
  "automatic_promotions db at =
     sort_key (\<lambda>p. (sh_priority p, sh_id p)) (select_where (\<lambda>p. sh_trigger p = Automatic_trigger \<and> sh_is_active p
       \<and> (case sh_starts_at p of None \<Rightarrow> True | Some s \<Rightarrow> s \<le> at)
       \<and> (case sh_ends_at p of None \<Rightarrow> True | Some e \<Rightarrow> at < e)) (shop_promotions db))"

definition normalize_shop_promotion_code :: "string \<Rightarrow> string" where
  "normalize_shop_promotion_code code = upper (strip code)"

definition promotion_by_code :: "zone \<Rightarrow> warehouse \<Rightarrow> string \<Rightarrow> instant \<Rightarrow> shop_promotion result" where
  "promotion_by_code z db code at =
     (case select_where (\<lambda>p. sh_trigger p = Promocode_trigger
             \<and> sh_code p = Some (normalize_shop_promotion_code code)) (shop_promotions db) of
        [] \<Rightarrow> bad_request ''Promo code is invalid or inactive''
      | [p] \<Rightarrow> if is_active_at z p at then Inr p else bad_request ''Promo code is invalid or inactive''
      | _ \<Rightarrow> Inl MultipleResultsFound)"

text \<open>Uses of a code are the orders that carry it and are not cancelled.\<close>

definition code_uses :: "(order \<Rightarrow> bool) \<Rightarrow> warehouse \<Rightarrow> shop_promotion \<Rightarrow> int" where
  "code_uses extra db p = int (length (select_where (\<lambda>r. od_promo_code r = sh_code p
     \<and> od_status r \<noteq> Order_cancelled \<and> extra r) (orders db)))"

definition of_customer :: "string option \<Rightarrow> int option \<Rightarrow> order \<Rightarrow> bool" where
  "of_customer customer_phone customer_id r \<longleftrightarrow>
     (if customer_id \<noteq> None then od_customer_id r = customer_id else od_customer_phone r = customer_phone)"

definition validate_usage_limits ::
  "warehouse \<Rightarrow> shop_promotion \<Rightarrow> string option \<Rightarrow> int option \<Rightarrow> unit result" where
  "validate_usage_limits db promotion customer_phone customer_id =
     and_then (case sh_usage_limit promotion of
         None \<Rightarrow> Inr ()
       | Some limit \<Rightarrow> if limit \<le> code_uses (\<lambda>_. True) db promotion
           then bad_request ''Promo code usage limit reached'' else Inr ()) (\<lambda>_.
     case sh_usage_limit_per_customer promotion of
       None \<Rightarrow> Inr ()
     | Some limit \<Rightarrow>
         if customer_id = None \<and> \<not> truthy_key customer_phone
         then bad_request ''Customer phone is required for this promo code''
         else if limit \<le> code_uses (of_customer customer_phone customer_id) db promotion
         then bad_request ''Customer promo code limit reached'' else Inr ())"

definition code_has_discount ::
  "(int \<times> int option) list \<Rightarrow> shop_promotion \<Rightarrow> product list \<Rightarrow> bool" where
  "code_has_discount parent_ids promotion stock \<longleftrightarrow>
     list_ex (\<lambda>p. matches_product promotion p parent_ids
       \<and> apply_promotion (effective_shop_price p) promotion < effective_shop_price p) stock"

definition price_products ::
  "zone \<Rightarrow> warehouse \<Rightarrow> (int \<times> int option) list \<Rightarrow> string option \<Rightarrow> string option \<Rightarrow> int option \<Rightarrow> bool \<Rightarrow> instant
    \<Rightarrow> product list \<Rightarrow> (int \<times> shop_price) list result" where
  "price_products z db parent_ids promo_code customer_phone customer_id validate_code_usage at stock =
     (let automatic = automatic_promotions db at;
          prices = (\<lambda>promotions. map (\<lambda>p. (pd_id p, calculate_product_price z parent_ids at promotions p)) stock)
      in if \<not> truthy_key promo_code then Inr (prices automatic)
         else and_then (promotion_by_code z db (the promo_code) at) (\<lambda>promotion.
              and_then (if validate_code_usage
                then validate_usage_limits db promotion customer_phone customer_id else Inr ()) (\<lambda>_.
              if code_has_discount parent_ids promotion stock then Inr (prices (automatic @ [promotion]))
              else bad_request ''Promo code does not apply to these products'')))"

section \<open>The scope of a promotion\<close>

text \<open>The walk collects what is reachable, if it starts with a set that is left only through \<open>current\<close>.\<close>

definition parent_in :: "(int \<times> int option) list \<Rightarrow> int \<Rightarrow> int option" where
  "parent_in parent_ids i = (case map_of parent_ids i of None \<Rightarrow> None | Some parent \<Rightarrow> parent)"

definition leads_to :: "(int \<times> int option) list \<Rightarrow> int \<Rightarrow> int \<Rightarrow> bool" where
  "leads_to parent_ids i j \<longleftrightarrow> parent_in parent_ids i = Some j"

lemma leads_to_from: "(leads_to P)\<^sup>*\<^sup>* i j \<longleftrightarrow>
    j = i \<or> (\<exists>k. parent_in P i = Some k \<and> (leads_to P)\<^sup>*\<^sup>* k j)"
  by (auto simp: leads_to_def elim: converse_rtranclpE intro: converse_rtranclp_into_rtranclp)

lemma closed_leads_to:
  assumes "(leads_to P)\<^sup>*\<^sup>* i j" and "i \<in> A" and "\<And>a b. a \<in> A \<Longrightarrow> parent_in P a = Some b \<Longrightarrow> b \<in> A"
  shows "j \<in> A"
  using assms(1,2) by (induction rule: rtranclp_induct) (auto simp: leads_to_def intro: assms(3))

lemma ancestor_walk_reach:
  assumes "\<And>a b. a \<in> set A \<Longrightarrow> parent_in P a = Some b \<Longrightarrow> b \<in> set A \<or> current = Some b"
  shows "set (ancestor_walk P A current) = set A \<union> (case current of None \<Rightarrow> {} | Some i \<Rightarrow> {j. (leads_to P)\<^sup>*\<^sup>* i j})"
  using assms
proof (induction P A current rule: ancestor_walk.induct)
  case (1 P A current)
  show ?case
  proof (cases current)
    case None
    then show ?thesis by (simp add: ancestor_walk.simps [of P A])
  next
    case (Some i)
    show ?thesis
    proof (cases "i \<in> set A")
      case True
      have "(leads_to P)\<^sup>*\<^sup>* i j \<Longrightarrow> j \<in> set A" for j
        using closed_leads_to [of P i j "set A"] True 1(2) Some by auto
      with Some True show ?thesis by (auto simp: ancestor_walk.simps [of P A])
    next
      case False
      have step: "ancestor_walk P A current = ancestor_walk P (i # A) (parent_in P i)"
        using Some False by (simp add: ancestor_walk.simps [of P A] parent_in_def)
      have "set (ancestor_walk P (i # A) (parent_in P i)) = set (i # A)
          \<union> (case parent_in P i of None \<Rightarrow> {} | Some i \<Rightarrow> {j. (leads_to P)\<^sup>*\<^sup>* i j})"
        using 1(1) [OF Some False] 1(2) Some by (auto simp: parent_in_def)
      then show ?thesis
        using leads_to_from [of P i] by (auto simp: Some step [unfolded Some] split: option.split)
    qed
  qed
qed

lemma leads_to_parents: "leads_to (category_parents cats) i j \<longleftrightarrow> (i, j) \<in> parents cats"
  by (auto simp: leads_to_def parent_in_def category_parents_def parents_def map_of_map
      split: option.splits)

lemma category_ancestors:
  "set (category_ancestor_ids (Some c) (category_parents cats)) = {a. (c, a) \<in> (parents cats)\<^sup>*}"
proof -
  have "(leads_to (category_parents cats))\<^sup>*\<^sup>* c a \<longleftrightarrow> (c, a) \<in> (parents cats)\<^sup>*" for a
    by (simp add: leads_to_parents [abs_def] rtranclp_rtrancl_eq)
  then show ?thesis
    using ancestor_walk_reach [of "[]" "category_parents cats" "Some c"] by (simp add: category_ancestor_ids_def set_eq_iff)
qed

definition in_scope :: "category table \<Rightarrow> shop_promotion \<Rightarrow> product \<Rightarrow> bool" where
  "in_scope cats q p \<longleftrightarrow> sh_applies_to_all_products q \<or> pd_id p \<in> set (sh_product_ids q)
     \<or> (\<exists>b. pd_brand_id p = Some b \<and> b \<in> set (sh_brand_ids q))
     \<or> (\<exists>c. pd_category_id p = Some c \<and> (\<exists>a \<in> set (sh_category_ids q).
          if sh_include_subcategories q then (c, a) \<in> (parents cats)\<^sup>* else a = c))"

lemma matches_product_iff: "matches_product q p (category_parents cats) \<longleftrightarrow> in_scope cats q p"
proof (cases "pd_category_id p")
  case None
  then show ?thesis by (auto simp: matches_product_def in_scope_def split: option.splits)
next
  case (Some c)
  have "list_ex (\<lambda>i. i \<in> set (sh_category_ids q)) (category_ancestor_ids (Some c) (category_parents cats))
      \<longleftrightarrow> (\<exists>a \<in> set (sh_category_ids q). (c, a) \<in> (parents cats)\<^sup>*)"
    by (auto simp: list_ex_iff category_ancestors)
  with Some show ?thesis
    by (auto simp: matches_product_def in_scope_def split: option.splits)
qed

section \<open>The best price\<close>

lemma least_by_None [simp]: "least_by key xs = None \<longleftrightarrow> xs = []"
  by (cases xs) (auto split: option.splits)

lemma least_by_Some: "least_by key xs = Some x \<Longrightarrow> x \<in> set xs \<and> (\<forall>y \<in> set xs. key x \<le> key y)"
  by (induction xs arbitrary: x) (auto split: option.splits if_splits)

lemma apply_promotion_nonneg: "0 \<le> apply_promotion base_price q"
  by (auto simp: apply_promotion_def Let_def round_div_nonneg split: discount_type.split)

definition lowers :: "zone \<Rightarrow> instant \<Rightarrow> category table \<Rightarrow> product \<Rightarrow> shop_promotion \<Rightarrow> bool" where
  "lowers z at cats p q \<longleftrightarrow> is_active_at z q at \<and> in_scope cats q p
     \<and> apply_promotion (effective_shop_price p) q < effective_shop_price p"

lemma set_candidates: "set (candidates z (category_parents cats) at qs p) =
    (\<lambda>q. (apply_promotion (effective_shop_price p) q, q)) ` {q \<in> set qs. lowers z at cats p q}"
  by (auto simp: candidates_def lowers_def matches_product_iff)

text \<open>C19: A product gets at most one promotion. If none that is active and covers the product, directly or
  through its brand or a category above it, lowers the price, it costs its base price; otherwise one of them
  is applied that gives the least price and, among those, has the least priority and then the least id.\<close>

theorem lowest_price_wins:
  assumes "calculate_product_price z (category_parents cats) at qs p = r"
  shows "sr_base_price r = effective_shop_price p \<and> sr_price r + sr_discount_amount r = sr_base_price r
    \<and> (if \<exists>q \<in> set qs. lowers z at cats p q
       then \<exists>q \<in> set qs. lowers z at cats p q \<and> sr_promotion_id r = Some (sh_id q)
          \<and> sr_promotion_code r = sh_code q \<and> 0 \<le> sr_price r \<and> sr_price r < sr_base_price r
          \<and> sr_price r = apply_promotion (effective_shop_price p) q
          \<and> (\<forall>q' \<in> set qs. lowers z at cats p q' \<longrightarrow> (sr_price r, sh_priority q, sh_id q)
              \<le> (apply_promotion (effective_shop_price p) q', sh_priority q', sh_id q'))
       else sr_price r = sr_base_price r \<and> sr_promotion_id r = None \<and> sr_promotion_code r = None)"
proof (cases "least_by rank (candidates z (category_parents cats) at qs p)")
  case None
  then have "set (candidates z (category_parents cats) at qs p) = {}" by simp
  then have "\<not> (\<exists>q \<in> set qs. lowers z at cats p q)" unfolding set_candidates by blast
  moreover have "sr_base_price r = effective_shop_price p" "sr_price r = effective_shop_price p"
      "sr_discount_amount r = 0" "sr_promotion_id r = None" "sr_promotion_code r = None"
    using None by (simp_all add: assms [symmetric] calculate_product_price_def Let_def)
  ultimately show ?thesis by simp
next
  case (Some x)
  then obtain q where q: "q \<in> set qs" "lowers z at cats p q" "x = (apply_promotion (effective_shop_price p) q, q)"
    and least: "\<And>y. y \<in> set (candidates z (category_parents cats) at qs p) \<Longrightarrow> rank x \<le> rank y"
    using least_by_Some [OF Some] set_candidates [of z cats at qs p] by auto
  have r: "sr_base_price r = effective_shop_price p" "sr_price r = apply_promotion (effective_shop_price p) q"
      "sr_discount_amount r = effective_shop_price p - apply_promotion (effective_shop_price p) q"
      "sr_promotion_id r = Some (sh_id q)" "sr_promotion_code r = sh_code q"
    using Some by (simp_all add: assms [symmetric] calculate_product_price_def Let_def q(3))
  have "(sr_price r, sh_priority q, sh_id q) \<le> (apply_promotion (effective_shop_price p) q', sh_priority q', sh_id q')"
    if "q' \<in> set qs" "lowers z at cats p q'" for q'
    using least [of "(apply_promotion (effective_shop_price p) q', q')"] that
    by (simp add: set_candidates rank_def q(3) r(2))
  moreover have "sr_price r < sr_base_price r" using q(2) by (simp add: r lowers_def)
  ultimately show ?thesis using q(1,2) apply_promotion_nonneg by (auto simp: r)
qed

definition demo_sale :: "int \<Rightarrow> discount_type \<Rightarrow> int \<Rightarrow> int \<Rightarrow> shop_promotion" where
  "demo_sale i kind value priority =
     \<lparr>sh_name = ''sale'', sh_trigger = Automatic_trigger, sh_code = None, sh_discount_type = kind,
      sh_discount_value = value, sh_priority = priority, sh_starts_at = None, sh_ends_at = None,
      sh_usage_limit = None, sh_usage_limit_per_customer = None, sh_applies_to_all_products = True,
      sh_include_subcategories = True, sh_product_ids = [], sh_category_ids = [], sh_brand_ids = [],
      sh_is_active = True, sh_id = i\<rparr>"

definition demo_zone :: zone where
  "demo_zone = \<lparr>to_kyiv = (\<lambda>i. i), to_utc = (\<lambda>w. w)\<rparr>"

definition demo_sales :: "shop_promotion list" where
  "demo_sales = [demo_sale 1 Percent 1000 5, demo_sale 2 Fixed_amount 4500 1, demo_sale 3 Fixed_price 60000 0]"

theorem lowest_price_wins_witness:
  "let r = calculate_product_price demo_zone (category_parents demo_categories) 0 demo_sales demo_product
   in sr_price r + sr_discount_amount r = sr_base_price r \<and> sr_promotion_id r = Some 2
      \<and> lowers demo_zone 0 demo_categories demo_product (demo_sale 2 Fixed_amount 4500 1)"
proof -
  have low: "lowers demo_zone 0 demo_categories demo_product q"
    if "q \<in> {demo_sale 1 Percent 1000 5, demo_sale 2 Fixed_amount 4500 1}" for q
    using that unfolding lowers_def matches_product_iff [symmetric] by (elim insertE emptyE; simp only:) code_simp+
  have "sr_promotion_id (calculate_product_price demo_zone (category_parents demo_categories) 0 demo_sales demo_product)
      = Some 2"
    by code_simp
  with low lowest_price_wins [OF refl, of demo_zone demo_categories 0 demo_sales demo_product] show ?thesis
    by (simp add: Let_def)
qed

section \<open>Keeping promotions\<close>

text \<open>
  The validated payload: the code is normalised before its length is checked, a promotion of all
  products has no other scope, and \<open>None\<close> is a \<open>ValidationError\<close>. The id lists are kept as
  they came; only membership is ever asked of them.
\<close>

definition shop_code_char :: "char \<Rightarrow> bool" where
  "shop_code_char c = (let n = of_char c :: nat in
     (65 \<le> n \<and> n \<le> 90) \<or> (48 \<le> n \<and> n \<le> 57) \<or> c = CHR ''_'' \<or> c = CHR ''-'')"

definition normalize_code_field :: "string option \<Rightarrow> string option option" where
  "normalize_code_field code =
     (case code of
        None \<Rightarrow> Some None
      | Some c \<Rightarrow>
          let n = normalize_shop_promotion_code c
          in if n \<noteq> [] \<and> list_all shop_code_char n \<and> 3 \<le> length n \<and> length n \<le> 50 then Some (Some n) else None)"

definition fields_valid :: "shop_promotion_data \<Rightarrow> bool" where
  "fields_valid d \<longleftrightarrow> 2 \<le> length (sh_name d) \<and> length (sh_name d) \<le> 255 \<and> 0 < sh_discount_value d
     \<and> 0 \<le> sh_priority d \<and> sh_priority d \<le> 10000
     \<and> (case sh_usage_limit d of None \<Rightarrow> True | Some n \<Rightarrow> 0 < n)
     \<and> (case sh_usage_limit_per_customer d of None \<Rightarrow> True | Some n \<Rightarrow> 0 < n)"

definition rule_valid :: "zone \<Rightarrow> shop_promotion_data \<Rightarrow> bool" where
  "rule_valid z d \<longleftrightarrow>
     \<not> (sh_trigger d = Promocode_trigger \<and> sh_code d = None)
     \<and> \<not> (sh_trigger d = Automatic_trigger
          \<and> (sh_code d \<noteq> None \<or> sh_usage_limit d \<noteq> None \<or> sh_usage_limit_per_customer d \<noteq> None))
     \<and> \<not> (sh_discount_type d = Percent \<and> 10000 < sh_discount_value d)
     \<and> (case (sh_starts_at d, sh_ends_at d) of
          (Some s, Some e) \<Rightarrow> to_kyiv z s < to_kyiv z e | _ \<Rightarrow> True)
     \<and> distinct (sh_product_ids d) \<and> distinct (sh_category_ids d) \<and> distinct (sh_brand_ids d)
     \<and> (sh_applies_to_all_products d
        \<or> sh_product_ids d \<noteq> [] \<or> sh_category_ids d \<noteq> [] \<or> sh_brand_ids d \<noteq> [])"

definition validate_promotion :: "zone \<Rightarrow> shop_promotion_data \<Rightarrow> shop_promotion_data option" where
  "validate_promotion z d =
     (case normalize_code_field (sh_code d) of
        None \<Rightarrow> None
      | Some code \<Rightarrow>
          let d = d\<lparr>sh_code := code\<rparr>
          in if \<not> fields_valid d \<or> \<not> rule_valid z d then None
             else if sh_applies_to_all_products d
             then Some (d\<lparr>sh_product_ids := [], sh_category_ids := [], sh_brand_ids := []\<rparr>)
             else Some d)"

definition ensure_unique_shop_code :: "warehouse \<Rightarrow> string option \<Rightarrow> int option \<Rightarrow> unit result" where
  "ensure_unique_shop_code db code exclude_promotion_id =
     (if \<not> truthy_key code then Inr ()
      else ensure (select_where (\<lambda>p. sh_code p = code \<and> exclude_promotion_id \<noteq> Some (sh_id p)) (shop_promotions db) = [])
        (HTTPException 409 ''Shop promotion code already exists''))"

definition load_entities :: "int list \<Rightarrow> int list \<Rightarrow> string \<Rightarrow> unit result" where
  "load_entities known wanted label =
     ensure (list_all (\<lambda>i. i \<in> set known) wanted) (HTTPException 400 (label @ '' not found''))"

definition check_scope :: "warehouse \<Rightarrow> category table \<Rightarrow> int list \<Rightarrow> shop_promotion_data \<Rightarrow> unit result" where
  "check_scope db cats brands d =
     and_then (load_entities (ids (products db)) (sh_product_ids d) ''Products'') (\<lambda>_.
     and_then (load_entities (ids cats) (sh_category_ids d) ''Categories'') (\<lambda>_.
     load_entities brands (sh_brand_ids d) ''Brands''))"

definition stored_promotion :: "int \<Rightarrow> shop_promotion_data \<Rightarrow> shop_promotion" where
  "stored_promotion i d = shop_promotion_data.extend d (shop_promotion.fields i)"

definition promotion_data :: "shop_promotion \<Rightarrow> shop_promotion_data" where
  "promotion_data p = shop_promotion_data.truncate p"

definition create_shop_promotion ::
  "zone \<Rightarrow> warehouse \<Rightarrow> category table \<Rightarrow> int list \<Rightarrow> bool \<Rightarrow> shop_promotion_data \<Rightarrow> (warehouse \<times> shop_promotion) result" where
  "create_shop_promotion z db cats brands is_superuser payload =
     (case validate_promotion z payload of
        None \<Rightarrow> unprocessable ''validation error''
      | Some d \<Rightarrow>
          if \<not> is_superuser then Inl (HTTPException 403 ''Only admins can manage shop promotions'')
          else and_then (ensure_unique_shop_code db (sh_code d) None) (\<lambda>_.
               and_then (check_scope db cats brands d) (\<lambda>_.
               let i = next_id (shop_promotions db); p = stored_promotion i d
               in Inr (db\<lparr>shop_promotions := put i p (shop_promotions db)\<rparr>, p))))"

text \<open>
  A patch sets the fields it has on the stored promotion and validates the result as a whole; a
  \<open>ValidationError\<close> is a \<open>ValueError\<close>, which the application answers with status 400.
\<close>

record shop_promotion_update =
  su_name :: "string option"
  su_trigger :: "promotion_trigger option"
  su_code :: "string option option"
  su_discount_type :: "discount_type option"
  su_discount_value :: "int option"
  su_priority :: "int option"
  su_starts_at :: "int option option"
  su_ends_at :: "int option option"
  su_usage_limit :: "int option option"
  su_usage_limit_per_customer :: "int option option"
  su_applies_to_all_products :: "bool option"
  su_include_subcategories :: "bool option"
  su_product_ids :: "int list option"
  su_category_ids :: "int list option"
  su_brand_ids :: "int list option"
  su_is_active :: "bool option"

definition or_current :: "'a option \<Rightarrow> 'a \<Rightarrow> 'a" where
  "or_current new current = (case new of None \<Rightarrow> current | Some x \<Rightarrow> x)"

definition merge_update :: "shop_promotion_update \<Rightarrow> shop_promotion_data \<Rightarrow> shop_promotion_data" where
  "merge_update u d =
     \<lparr>sh_name = or_current (su_name u) (sh_name d), sh_trigger = or_current (su_trigger u) (sh_trigger d),
      sh_code = or_current (su_code u) (sh_code d),
      sh_discount_type = or_current (su_discount_type u) (sh_discount_type d),
      sh_discount_value = or_current (su_discount_value u) (sh_discount_value d),
      sh_priority = or_current (su_priority u) (sh_priority d),
      sh_starts_at = or_current (su_starts_at u) (sh_starts_at d),
      sh_ends_at = or_current (su_ends_at u) (sh_ends_at d),
      sh_usage_limit = or_current (su_usage_limit u) (sh_usage_limit d),
      sh_usage_limit_per_customer =
        or_current (su_usage_limit_per_customer u) (sh_usage_limit_per_customer d),
      sh_applies_to_all_products = or_current (su_applies_to_all_products u) (sh_applies_to_all_products d),
      sh_include_subcategories = or_current (su_include_subcategories u) (sh_include_subcategories d),
      sh_product_ids = or_current (su_product_ids u) (sh_product_ids d),
      sh_category_ids = or_current (su_category_ids u) (sh_category_ids d),
      sh_brand_ids = or_current (su_brand_ids u) (sh_brand_ids d),
      sh_is_active = or_current (su_is_active u) (sh_is_active d)\<rparr>"

definition get_shop_promotion :: "warehouse \<Rightarrow> int \<Rightarrow> shop_promotion result" where
  "get_shop_promotion db promotion_id =
     (case get (shop_promotions db) promotion_id of
        None \<Rightarrow> not_found ''Shop promotion not found'' | Some p \<Rightarrow> Inr p)"

text \<open>The fields a patch has are checked on their own first.\<close>

definition patch_valid :: "shop_promotion_update \<Rightarrow> bool" where
  "patch_valid u \<longleftrightarrow> pred_option (\<lambda>n. 2 \<le> length n \<and> length n \<le> 255) (su_name u)
     \<and> pred_option (\<lambda>c. normalize_code_field c \<noteq> None) (su_code u)
     \<and> pred_option (\<lambda>v. 0 < v) (su_discount_value u)
     \<and> pred_option (\<lambda>n. 0 \<le> n \<and> n \<le> 10000) (su_priority u)
     \<and> pred_option (pred_option (\<lambda>n. 0 < n)) (su_usage_limit u)
     \<and> pred_option (pred_option (\<lambda>n. 0 < n)) (su_usage_limit_per_customer u)
     \<and> pred_option distinct (su_product_ids u) \<and> pred_option distinct (su_category_ids u)
     \<and> pred_option distinct (su_brand_ids u)"

definition update_shop_promotion ::
  "zone \<Rightarrow> warehouse \<Rightarrow> category table \<Rightarrow> int list \<Rightarrow> bool \<Rightarrow> int \<Rightarrow> shop_promotion_update
    \<Rightarrow> (warehouse \<times> shop_promotion) result" where
  "update_shop_promotion z db cats brands is_superuser promotion_id payload =
     (if \<not> patch_valid payload then unprocessable ''validation error''
      else if \<not> is_superuser then Inl (HTTPException 403 ''Only admins can manage shop promotions'')
      else and_then (get_shop_promotion db promotion_id) (\<lambda>current.
           case validate_promotion z (merge_update payload (promotion_data current)) of
             None \<Rightarrow> bad_request ''validation error''
           | Some d \<Rightarrow>
               and_then (ensure_unique_shop_code db (sh_code d) (Some promotion_id)) (\<lambda>_.
               and_then (check_scope db cats brands d) (\<lambda>_.
               let p = stored_promotion promotion_id d
               in Inr (db\<lparr>shop_promotions := put promotion_id p (shop_promotions db)\<rparr>, p)))))"

definition delete_shop_promotion :: "warehouse \<Rightarrow> bool \<Rightarrow> int \<Rightarrow> warehouse result" where
  "delete_shop_promotion db is_superuser promotion_id =
     (if \<not> is_superuser then Inl (HTTPException 403 ''Only admins can manage shop promotions'')
      else and_then (get_shop_promotion db promotion_id) (\<lambda>p.
           Inr (db\<lparr>shop_promotions := put promotion_id (p\<lparr>sh_is_active := False\<rparr>) (shop_promotions db)\<rparr>)))"

text \<open>
  What is stored validates as it is, under its id, and no two promotions share a code.
\<close>

definition unique_codes :: "shop_promotion table \<Rightarrow> bool" where
  "unique_codes ps \<longleftrightarrow> list_all (\<lambda>p. list_all (\<lambda>q.
     sh_code p = sh_code q \<and> sh_code p \<noteq> None \<longrightarrow> sh_id p = sh_id q) (rows ps)) (rows ps)"

definition promotions_ok :: "zone \<Rightarrow> shop_promotion table \<Rightarrow> bool" where
  "promotions_ok z ps \<longleftrightarrow> has_id sh_id ps \<and> unique_codes ps
     \<and> list_all (\<lambda>p. validate_promotion z (promotion_data p) = Some (promotion_data p)) (rows ps)"

lemma upper_shop_code: "list_all shop_code_char c \<Longrightarrow> upper c = c"
  by (induction c) (auto simp: upper_def upper_char_def shop_code_char_def Let_def of_char_eq_iff)

lemma strip_shop_code: "list_all shop_code_char c \<Longrightarrow> strip c = c"
  by (rule strip_no_space) (auto simp: list_all_iff shop_code_char_def is_space_def Let_def)

lemma normalize_code_field_stable:
  "normalize_code_field code = Some code' \<Longrightarrow> normalize_code_field code' = Some code'"
  by (auto simp: normalize_code_field_def Let_def normalize_shop_promotion_code_def upper_shop_code strip_shop_code
      split: option.splits if_splits)

lemma validate_promotion_self:
  "validate_promotion z d = Some d \<longleftrightarrow> normalize_code_field (sh_code d) = Some (sh_code d) \<and> fields_valid d
     \<and> rule_valid z d \<and> (sh_applies_to_all_products d \<longrightarrow>
       sh_product_ids d = [] \<and> sh_category_ids d = [] \<and> sh_brand_ids d = [])"
  by (cases d) (auto simp: validate_promotion_def Let_def split: option.split)

lemma validate_promotion_stable:
  assumes "validate_promotion z d = Some d'"
  shows "validate_promotion z d' = Some d'"
proof -
  obtain code where code: "normalize_code_field (sh_code d) = Some code"
    and ok: "fields_valid (d\<lparr>sh_code := code\<rparr>)" "rule_valid z (d\<lparr>sh_code := code\<rparr>)"
    and d': "d' = (if sh_applies_to_all_products d
      then d\<lparr>sh_code := code, sh_product_ids := [], sh_category_ids := [], sh_brand_ids := []\<rparr>
      else d\<lparr>sh_code := code\<rparr>)"
    using assms by (auto simp: validate_promotion_def Let_def split: option.splits if_splits)
  have "sh_code d' = code" by (simp add: d')
  moreover have "fields_valid d'" using ok(1) by (simp add: d' fields_valid_def)
  moreover have "rule_valid z d'" using ok(2) by (auto simp: d' rule_valid_def split: option.splits)
  moreover have "sh_applies_to_all_products d' \<longrightarrow>
      sh_product_ids d' = [] \<and> sh_category_ids d' = [] \<and> sh_brand_ids d' = []" by (simp add: d')
  ultimately show ?thesis
    unfolding validate_promotion_self using normalize_code_field_stable [OF code] by simp
qed

lemma stored_promotion_simps [simp]:
  "sh_id (stored_promotion i d) = i" "sh_code (stored_promotion i d) = sh_code d"
  "promotion_data (stored_promotion i d) = d"
  by (simp_all add: stored_promotion_def promotion_data_def shop_promotion_data.defs shop_promotion.defs)

lemma promotion_data_inactive:
  "promotion_data (p\<lparr>sh_is_active := b\<rparr>) = (promotion_data p)\<lparr>sh_is_active := b\<rparr>"
  by (simp add: promotion_data_def shop_promotion_data.defs)

lemma validate_inactive:
  "validate_promotion z d = Some d \<Longrightarrow> validate_promotion z (d\<lparr>sh_is_active := b\<rparr>) = Some (d\<lparr>sh_is_active := b\<rparr>)"
  unfolding validate_promotion_self by (auto simp: fields_valid_def rule_valid_def split: option.splits)

lemma unique_codes_put:
  assumes "has_id sh_id ps" and "unique_codes ps" and "sh_id p = i"
    and "\<And>q. q \<in> set (rows ps) \<Longrightarrow> sh_id q \<noteq> i \<Longrightarrow> sh_code q = sh_code p \<Longrightarrow> sh_code p = None"
  shows "unique_codes (put i p ps)"
proof -
  have "set (rows (put i p ps)) = {q. q = p \<or> q \<in> set (rows ps) \<and> sh_id q \<noteq> i}"
    by (simp add: set_eq_iff rows_put_iff [of sh_id ps p i] assms(1,3))
  then show ?thesis using assms(2,4) unfolding unique_codes_def list_all_iff by (auto simp: assms(3))
qed

lemma rows_put_all: "has_id sh_id ps \<Longrightarrow> sh_id p = i \<Longrightarrow> list_all P (rows ps) \<Longrightarrow> P p \<Longrightarrow> list_all P (rows (put i p ps))"
  by (auto simp: list_all_iff rows_put_iff)

lemma promotions_ok_put:
  assumes "promotions_ok z ps" and "sh_id p = i" and "validate_promotion z (promotion_data p) = Some (promotion_data p)"
    and "\<And>q. q \<in> set (rows ps) \<Longrightarrow> sh_id q \<noteq> i \<Longrightarrow> sh_code q = sh_code p \<Longrightarrow> sh_code p = None"
  shows "promotions_ok z (put i p ps)"
  using assms unique_codes_put [of ps p i] rows_put_all [of ps p i] has_id_put [of sh_id ps p i]
  by (simp add: promotions_ok_def)

lemma validated_code: "validate_promotion z d = Some d' \<Longrightarrow> sh_code d' \<noteq> Some []"
  by (auto simp: validate_promotion_def Let_def normalize_code_field_def split: option.splits if_splits)

lemma ensure_unique_shop_code_Inr:
  assumes "ensure_unique_shop_code db code exclude = Inr u" and "code \<noteq> Some []"
    and "q \<in> set (rows (shop_promotions db))" and "sh_code q = code" and "exclude \<noteq> Some (sh_id q)"
  shows "code = None"
proof (cases code)
  case (Some c)
  with assms show ?thesis
    by (auto simp: ensure_unique_shop_code_def truthy_key_def select_where_def filter_empty_conv)
qed simp

text \<open>Creating, patching and deleting promotions keeps them so.\<close>

inductive promotion_step :: "zone \<Rightarrow> warehouse \<Rightarrow> warehouse \<Rightarrow> bool" for z where
  create: "create_shop_promotion z db cats brands admin payload = Inr (db', p) \<Longrightarrow> promotion_step z db db'"
| patch: "update_shop_promotion z db cats brands admin i payload' = Inr (db', p) \<Longrightarrow> promotion_step z db db'"
| delete: "delete_shop_promotion db admin i = Inr db' \<Longrightarrow> promotion_step z db db'"

lemma promotion_step_ok:
  "promotion_step z db db' \<Longrightarrow> promotions_ok z (shop_promotions db) \<Longrightarrow> promotions_ok z (shop_promotions db')"
proof (induction rule: promotion_step.induct)
  case (create db cats brands admin payload db' p)
  then obtain d u where d: "validate_promotion z payload = Some d"
    and unique: "ensure_unique_shop_code db (sh_code d) None = Inr u"
    and db': "shop_promotions db' = put (next_id (shop_promotions db))
      (stored_promotion (next_id (shop_promotions db)) d) (shop_promotions db)"
    by (auto simp: create_shop_promotion_def and_then_eq_Inr Let_def split: option.splits if_splits)
  show ?case unfolding db'
    by (rule promotions_ok_put [OF create(2)])
      (use validate_promotion_stable [OF d] ensure_unique_shop_code_Inr [OF unique validated_code [OF d]] in auto)
next
  case (patch db cats brands admin i payload' db' p)
  then obtain current d u where d: "validate_promotion z (merge_update payload' (promotion_data current)) = Some d"
    and unique: "ensure_unique_shop_code db (sh_code d) (Some i) = Inr u"
    and db': "shop_promotions db' = put i (stored_promotion i d) (shop_promotions db)"
    by (auto simp: update_shop_promotion_def and_then_eq_Inr Let_def split: option.splits if_splits)
  show ?case unfolding db'
    by (rule promotions_ok_put [OF patch(2)])
      (use validate_promotion_stable [OF d] ensure_unique_shop_code_Inr [OF unique validated_code [OF d]] in auto)
next
  case (delete db admin i db')
  then obtain p where p: "get (shop_promotions db) i = Some p"
    and db': "shop_promotions db' = put i (p\<lparr>sh_is_active := False\<rparr>) (shop_promotions db)"
    by (auto simp: delete_shop_promotion_def and_then_eq_Inr get_shop_promotion_def split: option.splits if_splits)
  have ids: "has_id sh_id (shop_promotions db)" using delete(2) by (simp add: promotions_ok_def)
  have p_ok: "validate_promotion z (promotion_data p) = Some (promotion_data p)"
    using delete(2) get_in_rows [OF p] by (simp add: promotions_ok_def list_all_iff)
  show ?case unfolding db'
  proof (rule promotions_ok_put [OF delete(2)])
    show "sh_id (p\<lparr>sh_is_active := False\<rparr>) = i" using has_id_get [OF ids p] by simp
    show "validate_promotion z (promotion_data (p\<lparr>sh_is_active := False\<rparr>)) = Some (promotion_data (p\<lparr>sh_is_active := False\<rparr>))"
      using validate_inactive [OF p_ok] by (simp add: promotion_data_inactive)
    fix q assume q: "q \<in> set (rows (shop_promotions db))" "sh_id q \<noteq> i" "sh_code q = sh_code (p\<lparr>sh_is_active := False\<rparr>)"
    moreover have "sh_code q = sh_code p \<Longrightarrow> sh_code q \<noteq> None \<Longrightarrow> sh_id q = sh_id p"
      using delete(2) get_in_rows [OF p] q(1) unfolding promotions_ok_def unique_codes_def list_all_iff by blast
    ultimately show "sh_code (p\<lparr>sh_is_active := False\<rparr>) = None"
      using has_id_get [OF ids p] by (cases "sh_code p") auto
  qed
qed

end
