(* ===== verification/Orders.thy ===== *)
theory Orders
  imports Receipts Pricing
begin

text \<open>
  \<^verbatim>\<open>app/services/order.py\<close>: checkout, which reserves what is on hand and leaves the
  rest to procurement, and the order's status, whose terminal states release or ship the reservation.
  The UUID parser and the check of the delivery address against a carrier's directory are parameters, as
  are the facts about payments and parcels that \<open>update_status\<close> consults.
\<close>

section \<open>Checkout\<close>

record checkout_rules =
  cr_uuid_version :: "string \<Rightarrow> int option option"
  cr_validate :: "checkout \<Rightarrow> unit result"

text \<open>A key is a UUID of version 4, or 32 to 200 characters of the URL-safe alphabet.\<close>

definition url_safe :: "char \<Rightarrow> bool" where
  "url_safe c \<longleftrightarrow> (let n = of_char c :: nat in
     (48 \<le> n \<and> n \<le> 57) \<or> (65 \<le> n \<and> n \<le> 90) \<or> (97 \<le> n \<and> n \<le> 122) \<or> c = CHR ''_'' \<or> c = CHR ''-'')"

definition operation_key :: "(string \<Rightarrow> int option option) \<Rightarrow> string \<Rightarrow> string \<Rightarrow> intent_key result" where
  "operation_key uuid_version raw scope =
     (if length raw > 200 then unprocessable ''invalid_idempotency_key''
      else if (case uuid_version raw of
                 Some version \<Rightarrow> version = Some 4
               | None \<Rightarrow> 32 \<le> length raw \<and> length raw \<le> 200 \<and> list_all url_safe raw)
      then Inr (scope, raw) else unprocessable ''invalid_idempotency_key'')"

definition canonical_checkout_payload :: "checkout \<Rightarrow> checkout" where
  "canonical_checkout_payload payload = payload\<lparr>ck_items := sort_key fst (ck_items payload)\<rparr>"

definition claim_intent :: "warehouse \<Rightarrow> intent_key \<Rightarrow> checkout \<Rightarrow> (warehouse \<times> int option) result" where
  "claim_intent db key payload =
     (case map_of (intents db) key of
        None \<Rightarrow> Inr (db\<lparr>intents := AList.update key (payload, None) (intents db)\<rparr>, None)
      | Some (known, order_id) \<Rightarrow>
          if known \<noteq> payload then conflict ''idempotency_conflict'' else Inr (db, order_id))"

definition available_of :: "warehouse \<Rightarrow> int \<Rightarrow> int" where
  "available_of db product_id = (case get (products db) product_id of None \<Rightarrow> 0 | Some p \<Rightarrow> available_quantity p)"

definition shopper_sees :: "category table \<Rightarrow> visibility table \<Rightarrow> product \<Rightarrow> bool result" where
  "shopper_sees cats states p = and_then (product_state cats states p) (\<lambda>s. Inr (is_effectively_visible s))"

definition check_order_line ::
  "warehouse \<Rightarrow> bool \<Rightarrow> int option \<Rightarrow> int \<times> int \<Rightarrow> unit \<Rightarrow> unit result" where
  "check_order_line db pos customer_id line _ =
     (if \<not> pos \<and> customer_id = None \<and> 10 < snd line
      then bad_request ''Anonymous customers cannot order more than 10 units of one product''
      else case get (products db) (fst line) of
             None \<Rightarrow> Inl KeyError
           | Some p \<Rightarrow>
               if available_quantity p < snd line \<and> (pos \<or> \<not> pd_allow_backorder p)
               then conflict (''Insufficient stock for product '' @ show_int (pd_id p) @ ''; backorders are disabled'')
               else Inr ())"

definition check_visible :: "warehouse \<Rightarrow> category table \<Rightarrow> bool \<Rightarrow> int list \<Rightarrow> unit result" where
  "check_visible db cats pos product_ids =
     and_then (from_categories cats) (\<lambda>states.
     for_each (\<lambda>i _. case get (products db) i of
         None \<Rightarrow> Inl KeyError
       | Some p \<Rightarrow> and_then (shopper_sees cats states p) (\<lambda>seen.
           ensure (pos \<or> seen) (HTTPException 400 ''One or more products are hidden from the shop'')))
       product_ids ())"

definition check_order_lines ::
  "warehouse \<Rightarrow> category table \<Rightarrow> bool \<Rightarrow> int option \<Rightarrow> (int \<times> int) list \<Rightarrow> unit result" where
  "check_order_lines db cats pos customer_id lines =
     (let product_ids = map fst lines
      in if \<not> distinct product_ids then bad_request ''Duplicate products are not allowed in order items''
         else if list_ex (\<lambda>i. get (products db) i = None) product_ids
         then bad_request ''One or more products are invalid''
         else and_then (check_visible db cats pos product_ids) (\<lambda>_.
              for_each (check_order_line db pos customer_id) lines ()))"

definition new_order_item :: "int \<Rightarrow> int \<Rightarrow> int \<times> int \<Rightarrow> int \<Rightarrow> shop_price \<Rightarrow> order_item" where
  "new_order_item new_id order_id line available product_price =
     (let quantity = snd line; from_stock = min quantity available; to_order = quantity - from_stock
      in \<lparr>oi_id = new_id, oi_order_id = order_id, oi_product_id = fst line, oi_quantity = quantity,
          oi_quantity_from_stock = from_stock, oi_quantity_to_order = to_order,
          oi_quantity_received_for_order = 0,
          oi_procurement_status = (if to_order \<noteq> 0 then To_order else Not_required),
          oi_base_price = sr_base_price product_price, oi_price = sr_price product_price,
          oi_discount_amount = sr_discount_amount product_price * quantity,
          oi_shop_promotion_id = sr_promotion_id product_price,
          oi_promotion_name = sr_promotion_name product_price,
          oi_promotion_code = sr_promotion_code product_price,
          oi_total_price = sr_price product_price * quantity\<rparr>)"

definition add_order_line :: "int \<Rightarrow> (int \<Rightarrow> shop_price) \<Rightarrow> int \<times> int \<Rightarrow> warehouse \<Rightarrow> warehouse" where
  "add_order_line order_id prices line db =
     (let i = next_id (order_items db)
      in db\<lparr>order_items := put i (new_order_item i order_id line (available_of db (fst line)) (prices (fst line)))
           (order_items db)\<rparr>)"

definition lines_of_order :: "warehouse \<Rightarrow> int \<Rightarrow> order_item list" where
  "lines_of_order db order_id = select_where (\<lambda>i. oi_order_id i = order_id) (order_items db)"

definition order_key :: "int \<Rightarrow> int \<Rightarrow> string \<Rightarrow> string" where
  "order_key order_id item_id kind =
     ''order:'' @ show_int order_id @ '':item:'' @ show_int item_id @ '':'' @ kind"

definition order_movement ::
  "movement_type \<Rightarrow> order_item \<Rightarrow> int \<Rightarrow> int \<Rightarrow> int \<Rightarrow> string \<Rightarrow> int option \<Rightarrow> string \<Rightarrow> movement" where
  "order_movement kind i quantity on_hand_delta reserved_delta reason admin_user_id key =
     (new_movement (oi_product_id i) kind quantity on_hand_delta reserved_delta (Some reason) admin_user_id)
       \<lparr>mv_order_id := Some (oi_order_id i), mv_order_item_id := Some (oi_id i),
        mv_reference_key := Some (order_key (oi_order_id i) (oi_id i) key)\<rparr>"

definition reserve_item :: "order_item \<Rightarrow> warehouse \<Rightarrow> warehouse result" where
  "reserve_item i db =
     (if oi_quantity_from_stock i = 0 then Inr db
      else post_movement (order_movement Reservation i (oi_quantity_from_stock i) 0 (oi_quantity_from_stock i)
             ''Reserved for customer order'' None ''reservation'') db)"

definition subtotal_of :: "(int \<Rightarrow> shop_price) \<Rightarrow> (int \<times> int) list \<Rightarrow> int" where
  "subtotal_of prices lines = sum_list (map (\<lambda>(i, q). sr_base_price (prices i) * q) lines)"

definition total_of :: "(int \<Rightarrow> shop_price) \<Rightarrow> (int \<times> int) list \<Rightarrow> int" where
  "total_of prices lines = sum_list (map (\<lambda>(i, q). sr_price (prices i) * q) lines)"

text \<open>The code of the order is the first that a line was given.\<close>

definition applied_code :: "(int \<Rightarrow> shop_price) \<Rightarrow> (int \<times> int) list \<Rightarrow> string option" where
  "applied_code prices lines =
     (case filter truthy_key (map (\<lambda>(i, _). sr_promotion_code (prices i)) lines) of
        [] \<Rightarrow> None | code # _ \<Rightarrow> code)"

definition new_order ::
  "int \<Rightarrow> checkout \<Rightarrow> string option \<Rightarrow> int option \<Rightarrow> bool \<Rightarrow> bool \<Rightarrow> (int \<Rightarrow> shop_price) \<Rightarrow> order" where
  "new_order new_id payload phone customer_id pos simulation prices =
     (let subtotal = subtotal_of prices (ck_items payload); total = total_of prices (ck_items payload)
      in \<lparr>od_id = new_id, od_status = Order_pending,
          od_channel = Some (if pos then ''backoffice_pos'' else ''shop''), od_simulation = simulation,
          od_customer_id = customer_id, od_revision = 1, od_customer_phone = phone,
          od_subtotal_amount = subtotal,
          od_discount_amount = subtotal - total,
          od_promo_code = applied_code prices (ck_items payload), od_total_amount = total, od_handed_over = False\<rparr>)"

definition checkout_phone :: "checkout \<Rightarrow> string option result" where
  "checkout_phone payload =
     (case ck_phone payload of
        None \<Rightarrow> Inr None
      | Some s \<Rightarrow> if s = [] then Inr None else and_then (normalize_phone s) (\<lambda>n. Inr (Some n)))"

text \<open>The order and its lines are flushed before the reservations are booked.\<close>

definition place_order ::
  "warehouse \<Rightarrow> checkout \<Rightarrow> string option \<Rightarrow> int option \<Rightarrow> bool \<Rightarrow> bool \<Rightarrow> (int \<Rightarrow> shop_price)
    \<Rightarrow> (warehouse \<times> order) result" where
  "place_order db payload phone customer_id pos simulation prices =
     (let order_id = next_id (orders db);
          ord = new_order order_id payload phone customer_id pos simulation prices;
          db = db\<lparr>orders := put order_id ord (orders db)\<rparr>;
          db = fold (add_order_line order_id prices) (ck_items payload) db
      in and_then (for_each reserve_item (lines_of_order db order_id) db) (\<lambda>db. Inr (db, ord)))"

definition checkout_scope :: "int option \<Rightarrow> string" where
  "checkout_scope customer_id =
     (case customer_id of None \<Rightarrow> ''checkout:guest'' | Some i \<Rightarrow> ''checkout:customer:'' @ show_int i)"

definition begin_checkout ::
  "checkout_rules \<Rightarrow> warehouse \<Rightarrow> checkout \<Rightarrow> int option \<Rightarrow> string option
    \<Rightarrow> (warehouse \<times> intent_key option \<times> int option) result" where
  "begin_checkout rules db payload customer_id idempotency_key =
     (case idempotency_key of
        None \<Rightarrow> Inr (db, None, None)
      | Some raw \<Rightarrow>
          and_then (operation_key (cr_uuid_version rules) raw (checkout_scope customer_id)) (\<lambda>key.
          and_then (claim_intent db key (canonical_checkout_payload payload)) (\<lambda>(db, order_id).
          Inr (db, Some key, order_id))))"

definition run_checkout ::
  "checkout_rules \<Rightarrow> zone \<Rightarrow> instant \<Rightarrow> warehouse \<Rightarrow> category table \<Rightarrow> checkout \<Rightarrow> int option \<Rightarrow> bool \<Rightarrow> bool \<Rightarrow> intent_key option
    \<Rightarrow> (warehouse \<times> order) result" where
  "run_checkout rules z now db cats payload customer_id pos simulation key =
     and_then (if pos then Inr () else cr_validate rules payload) (\<lambda>_.
     and_then (check_order_lines db cats pos customer_id (ck_items payload)) (\<lambda>_.
     and_then (checkout_phone payload) (\<lambda>phone.
     and_then (price_products z db (category_parents cats) (ck_promo_code payload) phone customer_id True now
         (List.map_filter (get (products db)) (sort (map fst (ck_items payload))))) (\<lambda>prices.
     and_then (place_order db payload phone customer_id pos simulation (the \<circ> map_of prices)) (\<lambda>(db, ord).
     case key of
       None \<Rightarrow> Inr (db, ord)
     | Some k \<Rightarrow> Inr (db\<lparr>intents := AList.update k (canonical_checkout_payload payload, Some (od_id ord))
         (intents db)\<rparr>, ord))))))"

definition create_order ::
  "checkout_rules \<Rightarrow> zone \<Rightarrow> instant \<Rightarrow> warehouse \<Rightarrow> category table \<Rightarrow> checkout \<Rightarrow> int option \<Rightarrow> string option \<Rightarrow> bool \<Rightarrow> bool
    \<Rightarrow> (warehouse \<times> order) result" where
  "create_order rules z now db cats payload customer_id idempotency_key pos simulation =
     and_then (begin_checkout rules db payload customer_id idempotency_key) (\<lambda>(db, key, known).
     case known of
       Some order_id \<Rightarrow> (case get (orders db) order_id of None \<Rightarrow> Inl NoResultFound | Some ord \<Rightarrow> Inr (db, ord))
     | None \<Rightarrow> run_checkout rules z now db cats payload customer_id pos simulation key)"

section \<open>Order status\<close>

text \<open>
  What other services know of an order: whether a payment in progress blocks changes, whether a
  parcel is under way, and whether money or parcel facts forbid a cancellation.
\<close>

record order_gates =
  og_block_mutation :: "int \<Rightarrow> bool \<Rightarrow> unit result"
  og_active_shipment :: "int \<Rightarrow> bool"
  og_cancellation :: "int \<Rightarrow> unit result"

definition held :: "order_item \<Rightarrow> int" where
  "held i = oi_quantity_from_stock i + oi_quantity_received_for_order i"

definition owned_reservation :: "warehouse \<Rightarrow> order_item \<Rightarrow> int" where
  "owned_reservation db i = sum_list (map mv_reserved_delta (select_where (\<lambda>m.
     mv_order_id m = Some (oi_order_id i) \<and> mv_order_item_id m = Some (oi_id i)
     \<and> mv_product_id m = oi_product_id i) (movements db)))"

definition validate_owned_reservation :: "warehouse \<Rightarrow> order_item \<Rightarrow> unit \<Rightarrow> unit result" where
  "validate_owned_reservation db i _ =
     ensure (owned_reservation db i = held i)
       (HTTPException 409 (''Reservation ownership mismatch for order item '' @ show_int (oi_id i)
         @ ''; reconciliation required''))"

definition validate_owned_reservations :: "warehouse \<Rightarrow> order_item list \<Rightarrow> unit result" where
  "validate_owned_reservations db locked_items = for_each (validate_owned_reservation db) locked_items ()"

definition reservation_mismatch :: "int \<Rightarrow> 'a result" where
  "reservation_mismatch product_id = conflict (''Reservation mismatch for product '' @ show_int product_id)"

definition release_item :: "int \<Rightarrow> order_item \<Rightarrow> warehouse \<Rightarrow> warehouse result" where
  "release_item admin_user_id i db =
     (let db' = db\<lparr>order_items := put (oi_id i) (i\<lparr>oi_procurement_status := Not_required\<rparr>) (order_items db)\<rparr>
      in if held i = 0 then Inr db'
         else case get (products db) (oi_product_id i) of
                None \<Rightarrow> Inl KeyError
              | Some p \<Rightarrow>
                  if pd_reserved_quantity p < held i then reservation_mismatch (pd_id p)
                  else post_movement (order_movement Reservation_release i (held i) 0 (- held i) ''Order cancelled''
                         (Some admin_user_id) ''reservation-release'') db')"

definition ship_item :: "int \<Rightarrow> order_item \<Rightarrow> warehouse \<Rightarrow> warehouse result" where
  "ship_item admin_user_id i db =
     (if held i \<noteq> oi_quantity i
      then conflict (''Order item '' @ show_int (oi_id i) @ '' still requires procurement'')
      else case get (products db) (oi_product_id i) of
             None \<Rightarrow> Inl KeyError
           | Some p \<Rightarrow>
               if pd_reserved_quantity p < held i \<or> pd_stock_quantity p < held i
               then reservation_mismatch (pd_id p)
               else post_movement (order_movement Shipment i (held i) (- held i) (- held i)
                      ''Customer order completed'' (Some admin_user_id) ''shipment'') db)"

definition apply_handover_inventory :: "warehouse \<Rightarrow> order_item list \<Rightarrow> int \<Rightarrow> warehouse result" where
  "apply_handover_inventory db locked_items admin_user_id = for_each (ship_item admin_user_id) locked_items db"

definition allowed_transition :: "order_status \<Rightarrow> order_status \<Rightarrow> bool" where
  "allowed_transition current new_status =
     (case current of
        Order_pending \<Rightarrow> new_status \<in> {Order_confirmed, Order_paid, Order_completed, Order_cancelled}
      | Order_confirmed \<Rightarrow> new_status \<in> {Order_paid, Order_completed, Order_cancelled}
      | Order_paid \<Rightarrow> new_status \<in> {Order_completed, Order_cancelled}
      | _ \<Rightarrow> False)"

definition terminal_status :: "order_status \<Rightarrow> bool" where
  "terminal_status s \<longleftrightarrow> s = Order_cancelled \<or> s = Order_completed"

fun show_order_status :: "order_status \<Rightarrow> string" where
  "show_order_status Order_pending = ''pending''"
| "show_order_status Order_confirmed = ''confirmed''"
| "show_order_status Order_paid = ''paid''"
| "show_order_status Order_completed = ''completed''"
| "show_order_status Order_cancelled = ''cancelled''"

definition check_status_change ::
  "order_gates \<Rightarrow> order \<Rightarrow> order_status \<Rightarrow> bool \<Rightarrow> unit result" where
  "check_status_change gates ord new_status profile_handover =
     and_then (og_block_mutation gates (od_id ord) (profile_handover \<and> new_status = Order_completed)) (\<lambda>_.
     if \<not> profile_handover
        \<and> ((od_channel ord \<in> {Some ''shop'', Some ''backoffice_pos''} \<and> new_status \<in> {Order_paid, Order_completed})
           \<or> (new_status = Order_completed \<and> og_active_shipment gates (od_id ord)))
     then conflict ''profile_command_required''
     else and_then (if new_status = Order_cancelled \<and> od_channel ord = Some ''shop'' \<and> \<not> od_simulation ord
                    then og_cancellation gates (od_id ord) else Inr ()) (\<lambda>_.
          if od_handed_over ord \<and> new_status = Order_cancelled then conflict ''already_handed_over'' else Inr ()))"

definition check_transition :: "order \<Rightarrow> order_status \<Rightarrow> unit result" where
  "check_transition ord new_status =
     (if terminal_status (od_status ord)
      then conflict (''Cannot change a terminal '' @ show_order_status (od_status ord) @ '' order'')
      else if \<not> allowed_transition (od_status ord) new_status
      then conflict (''Invalid order status transition: '' @ show_order_status (od_status ord) @ '' -> ''
        @ show_order_status new_status)
      else Inr ())"

definition move_order_stock :: "warehouse \<Rightarrow> order_item list \<Rightarrow> order_status \<Rightarrow> int \<Rightarrow> warehouse result" where
  "move_order_stock db locked_items new_status admin_user_id =
     (if new_status = Order_cancelled
      then and_then (validate_owned_reservations db locked_items) (\<lambda>_.
           for_each (release_item admin_user_id) locked_items db)
      else if new_status = Order_completed
      then and_then (validate_owned_reservations db locked_items) (\<lambda>_.
           apply_handover_inventory db locked_items admin_user_id)
      else Inr db)"

definition update_status ::
  "order_gates \<Rightarrow> warehouse \<Rightarrow> int \<Rightarrow> order_status \<Rightarrow> int \<Rightarrow> bool \<Rightarrow> (warehouse \<times> order) result" where
  "update_status gates db order_id new_status admin_user_id profile_handover =
     (let locked_items = lines_of_order db order_id
      in case get (orders db) order_id of
           None \<Rightarrow> not_found ''Order not found''
         | Some ord \<Rightarrow>
             and_then (check_status_change gates ord new_status profile_handover) (\<lambda>_.
             if od_status ord = new_status then Inr (db, ord)
             else and_then (check_transition ord new_status) (\<lambda>_.
                  and_then (move_order_stock db locked_items new_status admin_user_id) (\<lambda>db.
                  let ord = ord\<lparr>od_revision := (if od_revision ord = 0 then 1 else od_revision ord) + 1,
                        od_status := new_status,
                        od_handed_over := (od_handed_over ord \<or> (new_status = Order_completed \<and> \<not> profile_handover))\<rparr>
                  in Inr (db\<lparr>orders := put order_id ord (orders db)\<rparr>, ord)))))"

end
