(* ===== verification/Reservations.thy ===== *)
theory Reservations
  imports Orders
begin

text \<open>
  Who owns what is reserved. Every reserved unit in the ledger belongs to one order line; a line of an
  open order owns what it holds, a line of a closed order owns nothing. The services that move
  reservations are shown to keep this, and the sound books of the products with it.
\<close>

section \<open>Claims\<close>

definition ident :: "order_item \<Rightarrow> int \<times> int \<times> int" where
  "ident i = (oi_id i, oi_order_id i, oi_product_id i)"

definition idents :: "warehouse \<Rightarrow> int \<Rightarrow> (int \<times> int \<times> int) option" where
  "idents db k = map_option ident (get (order_items db) k)"

definition claimed :: "movement list \<Rightarrow> int \<times> int \<times> int \<Rightarrow> int" where
  "claimed ms i = sum_list (map mv_reserved_delta (filter (\<lambda>m. mv_order_id m = Some (fst (snd i))
     \<and> mv_order_item_id m = Some (fst i) \<and> mv_product_id m = snd (snd i)) ms))"

lemma owned_reservation_claimed: "owned_reservation db i = claimed (rows (movements db)) (ident i)"
  by (simp add: owned_reservation_def claimed_def ident_def select_where_def)

text \<open>\<open>c\<close> says what each line owns.\<close>

definition claims_ok :: "(int \<Rightarrow> int) \<Rightarrow> warehouse \<Rightarrow> bool" where
  "claims_ok c db \<longleftrightarrow> has_id oi_id (order_items db) \<and> has_id od_id (orders db)
     \<and> (\<forall>k i. idents db k = Some i \<longrightarrow> get (orders db) (fst (snd i)) \<noteq> None
          \<and> claimed (rows (movements db)) i = c k)
     \<and> (\<forall>m \<in> set (rows (movements db)). mv_reserved_delta m \<noteq> 0 \<longrightarrow>
          (\<exists>k i. idents db k = Some i \<and> mv_order_item_id m = Some (fst i) \<and> mv_order_id m = Some (fst (snd i))
             \<and> mv_product_id m = snd (snd i)))"

lemma ident_id: "has_id oi_id (order_items db) \<Longrightarrow> idents db k = Some i \<Longrightarrow> fst i = k"
  by (auto simp: idents_def ident_def dest: has_id_get)

lemma claims_ok_frame:
  assumes "claims_ok c db" and "has_id oi_id (order_items db')" and "has_id od_id (orders db')"
    and "\<And>k. idents db' k = idents db k" and "\<And>k. get (orders db) k \<noteq> None \<Longrightarrow> get (orders db') k \<noteq> None"
    and "rows (movements db') = rows (movements db)"
  shows "claims_ok c db'"
  using assms unfolding claims_ok_def by simp

lemma claims_ok_same:
  assumes "claims_ok c db" and "order_items db' = order_items db" and "orders db' = orders db"
    and "movements db' = movements db"
  shows "claims_ok c db'"
  using assms by (intro claims_ok_frame [OF assms(1)]) (auto simp: claims_ok_def idents_def)

lemma claims_ok_put_item:
  assumes "claims_ok c db" and "idents db k = Some (ident i)"
  shows "claims_ok c (db\<lparr>order_items := put k i (order_items db)\<rparr>)"
proof (rule claims_ok_frame [OF assms(1)])
  have "oi_id i = k"
    using assms ident_id [of db k "ident i"] by (simp add: claims_ok_def ident_def)
  then show "has_id oi_id (order_items (db\<lparr>order_items := put k i (order_items db)\<rparr>))"
    using assms(1) by (simp add: claims_ok_def has_id_put)
  show "idents (db\<lparr>order_items := put k i (order_items db)\<rparr>) j = idents db j" for j
    using assms(2) by (auto simp: idents_def get_put)
qed (use assms(1) in \<open>simp_all add: claims_ok_def\<close>)

lemma claims_ok_put_order:
  assumes "claims_ok c db" and "od_id r = k"
  shows "claims_ok c (db\<lparr>orders := put k r (orders db)\<rparr>)"
  by (rule claims_ok_frame [OF assms(1)])
    (use assms in \<open>auto simp: claims_ok_def has_id_put get_put idents_def\<close>)

lemma claims_ok_cong:
  "claims_ok c db \<Longrightarrow> (\<And>k. idents db k \<noteq> None \<Longrightarrow> c' k = c k) \<Longrightarrow> claims_ok c' db"
  unfolding claims_ok_def by (metis option.distinct(1))

lemma claimed_append: "claimed (ms @ ns) i = claimed ms i + claimed ns i"
  by (simp add: claimed_def)

lemma post_movement_idents: "post_movement m db = Inr db' \<Longrightarrow> idents db' = idents db"
  by (rule ext) (simp add: idents_def post_movement_frame)

text \<open>A ledger entry adds its delta to the claim of its line and to no other.\<close>

lemma claims_ok_post:
  assumes "claims_ok c db" and post: "post_movement m db = Inr db'"
    and line: "idents db k = Some i" "mv_order_item_id m = Some (fst i)" "mv_order_id m = Some (fst (snd i))"
      "mv_product_id m = snd (snd i)"
  shows "claims_ok (c(k := c k + mv_reserved_delta m)) db'"
proof -
  obtain p where p: "get (products db) (mv_product_id m) = Some p" using post by (rule post_movement_Inr)
  have rows: "rows (movements db') = rows (movements db) @ [m\<lparr>mv_id := next_id (movements db)\<rparr>]"
    by (rule post_movement_effects(2) [OF post p])
  have ids: "idents db j = Some x \<Longrightarrow> fst x = j" for j x
    using assms(1) by (auto simp: claims_ok_def dest: ident_id)
  have one: "claimed [m\<lparr>mv_id := next_id (movements db)\<rparr>] x = (if j = k then mv_reserved_delta m else 0)"
    if "idents db j = Some x" for j x
  proof (cases "j = k")
    case True
    with that line(1) have "x = i" by simp
    with True line show ?thesis by (simp add: claimed_def)
  next
    case False
    then have "fst i \<noteq> fst x" using ids [OF that] ids [OF line(1)] by metis
    with False line(2) show ?thesis by (simp add: claimed_def)
  qed
  have claims: "get (orders db') (fst (snd x)) \<noteq> None
      \<and> claimed (rows (movements db')) x = (c(k := c k + mv_reserved_delta m)) j"
    if "idents db' j = Some x" for j x
  proof -
    have x: "idents db j = Some x" using that by (simp add: post_movement_idents [OF post])
    then have "get (orders db) (fst (snd x)) \<noteq> None \<and> claimed (rows (movements db)) x = c j"
      using assms(1) unfolding claims_ok_def by blast
    with one [OF x] show ?thesis by (simp add: rows claimed_append post_movement_frame(2) [OF post])
  qed
  have entries: "\<exists>k i. idents db' k = Some i \<and> mv_order_item_id e = Some (fst i)
      \<and> mv_order_id e = Some (fst (snd i)) \<and> mv_product_id e = snd (snd i)"
    if "e \<in> set (rows (movements db'))" "mv_reserved_delta e \<noteq> 0" for e
  proof (cases "e \<in> set (rows (movements db))")
    case True
    with assms(1) that(2) show ?thesis
      unfolding claims_ok_def post_movement_idents [OF post] by blast
  next
    case False
    then have e: "e = m\<lparr>mv_id := next_id (movements db)\<rparr>" using that(1) rows by simp
    show ?thesis
      unfolding post_movement_idents [OF post] by (rule exI [of _ k], rule exI [of _ i]) (use line e in simp)
  qed
  show ?thesis
    using assms(1) claims entries unfolding claims_ok_def by (simp add: post_movement_frame [OF post])
qed

lemma claims_ok_post_other:
  assumes "claims_ok c db" and post: "post_movement m db = Inr db'" and "mv_reserved_delta m = 0"
  shows "claims_ok c db'"
proof -
  obtain p where p: "get (products db) (mv_product_id m) = Some p" using post by (rule post_movement_Inr)
  have rows: "rows (movements db') = rows (movements db) @ [m\<lparr>mv_id := next_id (movements db)\<rparr>]"
    by (rule post_movement_effects(2) [OF post p])
  have "claimed [m\<lparr>mv_id := next_id (movements db)\<rparr>] x = 0" for x
    using assms(3) by (simp add: claimed_def)
  then have "claimed (rows (movements db')) x = claimed (rows (movements db)) x" for x
    by (simp add: rows claimed_append)
  moreover have "e \<in> set (rows (movements db))"
    if "e \<in> set (rows (movements db'))" "mv_reserved_delta e \<noteq> 0" for e
    using that assms(3) by (auto simp: rows)
  ultimately show ?thesis
    using assms(1) unfolding claims_ok_def by (simp add: post_movement_idents [OF post] post_movement_frame [OF post])
qed

text \<open>A loop over lines adds to each claim what its step adds.\<close>

lemma claims_ok_loop:
  assumes "for_each step items s = Inr t" and "claims_ok c s" and "I s"
    and "\<And>i c s s'. i \<in> set items \<Longrightarrow> I s \<Longrightarrow> claims_ok c s \<Longrightarrow> step i s = Inr s' \<Longrightarrow>
      I s' \<and> claims_ok (c(oi_id i := c (oi_id i) + d i)) s'"
  shows "I t \<and> claims_ok (\<lambda>k. c k + sum_list (map d (filter (\<lambda>i. oi_id i = k) items))) t"
  using assms
proof (induction items arbitrary: s c)
  case Nil
  then show ?case by simp
next
  case (Cons x items)
  obtain u where u: "step x s = Inr u" and rest: "for_each step items u = Inr t"
    using Cons.prems(1) by (auto simp: and_then_eq_Inr)
  have one: "I u \<and> claims_ok (c(oi_id x := c (oi_id x) + d x)) u"
    by (rule Cons.prems(4) [OF _ Cons.prems(3,2) u]) simp
  have "I t \<and> claims_ok (\<lambda>k. (c(oi_id x := c (oi_id x) + d x)) k
      + sum_list (map d (filter (\<lambda>i. oi_id i = k) items))) t"
    by (rule Cons.IH [OF rest conjunct2 [OF one] conjunct1 [OF one] Cons.prems(4) [OF list.set_intros(2)]])
  then show ?case by (elim conjE claims_ok_cong conjI) (auto simp: fun_upd_def)
qed

section \<open>The invariant\<close>

text \<open>A line of an open order owns what it holds; a closed order owns nothing.\<close>

definition claim :: "warehouse \<Rightarrow> int \<Rightarrow> int" where
  "claim db k = (case get (order_items db) k of
      None \<Rightarrow> 0
    | Some i \<Rightarrow> (case get (orders db) (oi_order_id i) of
        None \<Rightarrow> 0
      | Some r \<Rightarrow> if terminal_status (od_status r) then 0 else held i))"

definition line_ok :: "order_item \<Rightarrow> bool" where
  "line_ok i \<longleftrightarrow> 0 \<le> oi_quantity_from_stock i \<and> 0 \<le> oi_quantity_received_for_order i
     \<and> oi_quantity_received_for_order i \<le> oi_quantity_to_order i
     \<and> oi_quantity_from_stock i + oi_quantity_to_order i = oi_quantity i"

definition lines_ok :: "warehouse \<Rightarrow> bool" where
  "lines_ok db \<longleftrightarrow> list_all line_ok (rows (order_items db))"

definition reservations_ok :: "warehouse \<Rightarrow> bool" where
  "reservations_ok db \<longleftrightarrow> claims_ok (claim db) db \<and> lines_ok db"

lemma lines_okD: "lines_ok db \<Longrightarrow> get (order_items db) k = Some i \<Longrightarrow> line_ok i"
  by (auto simp: lines_ok_def list_all_iff dest: get_in_rows)

lemma lines_ok_put: "lines_ok db \<Longrightarrow> line_ok i \<Longrightarrow> lines_ok (db\<lparr>order_items := put k i (order_items db)\<rparr>)"
  using rows_put_subset [of k i "order_items db"] by (auto simp: lines_ok_def list_all_iff)

lemma held_nonneg: "line_ok i \<Longrightarrow> 0 \<le> held i"
  by (simp add: line_ok_def held_def)

lemma claims_ok_items: "claims_ok c db \<Longrightarrow> has_id oi_id (order_items db)"
  by (simp add: claims_ok_def)

lemma claims_ok_ids: "claims_ok c db \<Longrightarrow> get (order_items db) k = Some i \<Longrightarrow> oi_id i = k"
  by (auto simp: claims_ok_def dest: has_id_get)

lemma claims_ok_order:
  assumes "claims_ok c db" and "get (order_items db) k = Some i"
  obtains r where "get (orders db) (oi_order_id i) = Some r" and "od_id r = oi_order_id i"
proof -
  have "idents db k = Some (ident i)" using assms(2) by (simp add: idents_def)
  with assms(1) have "get (orders db) (fst (snd (ident i))) \<noteq> None" unfolding claims_ok_def by blast
  then obtain r where r: "get (orders db) (oi_order_id i) = Some r" by (auto simp: ident_def)
  moreover from this assms(1) have "od_id r = oi_order_id i" by (auto simp: claims_ok_def dest: has_id_get)
  ultimately show thesis by (rule that)
qed

lemma line_of_order:
  assumes "claims_ok c db" and "i \<in> set (lines_of_order db o')"
  shows "get (order_items db) (oi_id i) = Some i" and "oi_order_id i = o'"
  using assms by (auto simp: lines_of_order_def select_where_def claims_ok_def dest: has_id_rows)

lemma claim_same: "order_items db' = order_items db \<Longrightarrow> orders db' = orders db \<Longrightarrow> claim db' = claim db"
  by (rule ext) (simp add: claim_def cong: option.case_cong)

lemma reservations_ok_same:
  assumes "reservations_ok db" and "order_items db' = order_items db" and "orders db' = orders db"
    and "movements db' = movements db"
  shows "reservations_ok db'"
  using assms claims_ok_same [of "claim db" db db'] by (simp add: reservations_ok_def claim_same [OF assms(2,3)] lines_ok_def)

lemma reservations_ok_post_other:
  assumes "reservations_ok db" and "post_movement m db = Inr db'" and "mv_reserved_delta m = 0"
  shows "reservations_ok db'"
  using assms claims_ok_post_other [OF _ assms(2,3)]
  by (simp add: reservations_ok_def post_movement_frame [OF assms(2)] lines_ok_def
      claim_same [OF post_movement_frame(1,2) [OF assms(2)]])

lemma reservations_ok_put_item:
  assumes "reservations_ok db" and "get (order_items db) k = Some i" and "ident i' = ident i"
    and "held i' = held i" and "line_ok i'"
  shows "reservations_ok (db\<lparr>order_items := put k i' (order_items db)\<rparr>)"
proof -
  have "claim (db\<lparr>order_items := put k i' (order_items db)\<rparr>) j = claim db j" for j
    using assms(2-4) by (cases "j = k") (simp_all add: claim_def ident_def split: option.split)
  then have "claim (db\<lparr>order_items := put k i' (order_items db)\<rparr>) = claim db" by (rule ext)
  with assms claims_ok_put_item [of "claim db" db k i'] lines_ok_put [of db i' k] show ?thesis
    by (simp add: reservations_ok_def idents_def)
qed

section \<open>Orders\<close>

lemma sum_list_zero: "(\<And>x. x \<in> set xs \<Longrightarrow> f x = (0::int)) \<Longrightarrow> sum_list (map f xs) = 0"
  by (induction xs) auto

lemma claims_ok_add_item:
  assumes "claims_ok c db" and "oi_id i = next_id (order_items db)" and "get (orders db) (oi_order_id i) \<noteq> None"
  shows "claims_ok (c(oi_id i := 0)) (db\<lparr>order_items := put (oi_id i) i (order_items db)\<rparr>)"
proof -
  let ?db = "db\<lparr>order_items := put (oi_id i) i (order_items db)\<rparr>"
  have new: "idents db (oi_id i) = None" by (simp add: idents_def assms(2))
  have ids: "idents ?db k = (if k = oi_id i then Some (ident i) else idents db k)" for k
    by (simp add: idents_def get_put)
  have zero: "mv_reserved_delta m = 0"
    if "m \<in> set (rows (movements db))" "mv_order_item_id m = Some (oi_id i)" for m
  proof (rule ccontr)
    assume "mv_reserved_delta m \<noteq> 0"
    with assms(1) that(1) obtain k x where "idents db k = Some x" "mv_order_item_id m = Some (fst x)"
      unfolding claims_ok_def by blast
    with that(2) new assms(1) show False
      by (auto simp: claims_ok_def dest: ident_id)
  qed
  have "claimed (rows (movements db)) (ident i) = 0"
    unfolding claimed_def ident_def by (rule sum_list_zero) (use zero in auto)
  with assms new show ?thesis
    unfolding claims_ok_def ids by (auto simp: has_id_put ident_def) (metis option.distinct(1))+
qed

text \<open>The lines of a new order.\<close>

definition fresh_line :: "warehouse \<Rightarrow> int \<Rightarrow> (int \<Rightarrow> shop_price) \<Rightarrow> int \<times> int \<Rightarrow> order_item \<Rightarrow> bool" where
  "fresh_line db order_id prices line i \<longleftrightarrow>
     i = new_order_item (oi_id i) order_id line (available_of db (fst line)) (prices (fst line))"

lemma fresh_line_facts:
  assumes "fresh_line db order_id prices line i"
  shows "oi_order_id i = order_id" and "oi_product_id i = fst line"
    and "oi_quantity_from_stock i = min (snd line) (available_of db (fst line))"
    and "oi_quantity_received_for_order i = 0" and "oi_quantity i = snd line"
    and "oi_quantity_to_order i = snd line - oi_quantity_from_stock i"
  using assms unfolding fresh_line_def by (metis new_order_item_def order_item.select_convs)+

lemma available_of_put_item [simp]:
  "available_of (db\<lparr>order_items := t\<rparr>) = available_of db"
  by (rule ext) (simp add: available_of_def)

lemma fresh_line_same:
  "products db' = products db \<Longrightarrow> fresh_line db' order_id prices line i = fresh_line db order_id prices line i"
  by (simp add: fresh_line_def available_of_def)

lemma add_order_line_other:
  "products (add_order_line o' prices line db) = products db" "orders (add_order_line o' prices line db) = orders db"
  "movements (add_order_line o' prices line db) = movements db"
  "receipt_allocations (add_order_line o' prices line db) = receipt_allocations db"
  "receipt_items (add_order_line o' prices line db) = receipt_items db"
  "receipts (add_order_line o' prices line db) = receipts db"
  "receipt_changes (add_order_line o' prices line db) = receipt_changes db"
  by (simp_all add: add_order_line_def Let_def)

lemma add_order_lines_other:
  "products (fold (add_order_line o' prices) lines db) = products db"
  "orders (fold (add_order_line o' prices) lines db) = orders db"
  "movements (fold (add_order_line o' prices) lines db) = movements db"
  "receipt_allocations (fold (add_order_line o' prices) lines db) = receipt_allocations db"
  "receipt_items (fold (add_order_line o' prices) lines db) = receipt_items db"
  "receipts (fold (add_order_line o' prices) lines db) = receipts db"
  "receipt_changes (fold (add_order_line o' prices) lines db) = receipt_changes db"
  by (induction lines arbitrary: db) (simp_all add: add_order_line_other)

lemma add_order_lines:
  assumes "claims_ok c db" and "get (orders db) o' \<noteq> None"
    and "db' = fold (add_order_line o' prices) lines db"
  shows "\<exists>new. order_items db' = order_items db @ map (\<lambda>i. (oi_id i, i)) new
    \<and> list_all2 (fresh_line db o' prices) lines new
    \<and> (\<forall>i \<in> set new. get (order_items db) (oi_id i) = None) \<and> distinct (map oi_id new)
    \<and> claims_ok (\<lambda>k. if get (order_items db) k = None then 0 else c k) db'"
  using assms
proof (induction lines arbitrary: db c)
  case Nil
  have "claims_ok (\<lambda>k. if get (order_items db) k = None then 0 else c k) db"
    by (rule claims_ok_cong [OF Nil(1)]) (auto simp: idents_def)
  with Nil show ?case by simp
next
  case (Cons line lines)
  define k where "k = next_id (order_items db)"
  define i where "i = new_order_item k o' line (available_of db (fst line)) (prices (fst line))"
  define mid where "mid = add_order_line o' prices line db"
  have i: "oi_id i = k" "fresh_line db o' prices line i" "oi_order_id i = o'"
    by (simp_all add: i_def fresh_line_def new_order_item_def Let_def)
  have mid: "mid = db\<lparr>order_items := put (oi_id i) i (order_items db)\<rparr>"
    by (simp add: mid_def add_order_line_def Let_def i k_def i_def new_order_item_def)
  have items: "order_items mid = order_items db @ [(oi_id i, i)]"
    by (simp add: mid put_fresh i k_def)
  have "claims_ok (c(oi_id i := 0)) mid"
    unfolding mid by (rule claims_ok_add_item [OF Cons.prems(1)]) (use Cons.prems(2) i in \<open>simp_all add: k_def\<close>)
  moreover have "get (orders mid) o' \<noteq> None" "db' = fold (add_order_line o' prices) lines mid"
    using Cons.prems(2,3) by (simp_all add: mid_def add_order_line_other)
  ultimately obtain new where new: "order_items db' = order_items mid @ map (\<lambda>i. (oi_id i, i)) new"
      "list_all2 (fresh_line mid o' prices) lines new"
      "\<forall>x \<in> set new. get (order_items mid) (oi_id x) = None" "distinct (map oi_id new)"
      "claims_ok (\<lambda>j. if get (order_items mid) j = None then 0 else (c(oi_id i := 0)) j) db'"
    using Cons.IH by blast
  have fresh: "get (order_items db) (oi_id i) = None" by (simp add: i k_def)
  have "get (order_items db) (oi_id x) = None \<and> oi_id x \<noteq> oi_id i" if "x \<in> set new" for x
    using new(3) that by (auto simp: mid get_put split: if_splits)
  then have "oi_id i \<notin> oi_id ` set new" "\<forall>x \<in> set new. get (order_items db) (oi_id x) = None" by (metis imageE)+
  then have ids: "\<forall>x \<in> set (i # new). get (order_items db) (oi_id x) = None" "distinct (map oi_id (i # new))"
    using fresh new(4) by auto
  have "claims_ok (\<lambda>j. if get (order_items db) j = None then 0 else c j) db'"
    by (rule claims_ok_cong [OF new(5)]) (auto simp: mid get_put fresh)
  moreover have "list_all2 (fresh_line db o' prices) (line # lines) (i # new)"
  proof -
    have "fresh_line mid o' prices = fresh_line db o' prices"
      by (intro ext fresh_line_same) (simp add: mid_def add_order_line_other)
    with i(2) new(2) show ?thesis by simp
  qed
  moreover have "order_items db' = order_items db @ map (\<lambda>i. (oi_id i, i)) (i # new)"
    using new(1) items by simp
  ultimately show ?case using ids by blast
qed

lemma reserve_item_claims:
  assumes "claims_ok c s" and "idents s (oi_id i) = Some (ident i)" and "reserve_item i s = Inr s'"
  shows "claims_ok (c(oi_id i := c (oi_id i) + oi_quantity_from_stock i)) s'"
proof (cases "oi_quantity_from_stock i = 0")
  case True
  with assms show ?thesis by (auto simp: reserve_item_def intro: claims_ok_cong [OF assms(1)])
next
  case False
  then have post: "post_movement (order_movement Reservation i (oi_quantity_from_stock i) 0 (oi_quantity_from_stock i)
      ''Reserved for customer order'' None ''reservation'') s = Inr s'"
    using assms(3) by (simp add: reserve_item_def)
  have "claims_ok (c(oi_id i := c (oi_id i) + mv_reserved_delta (order_movement Reservation i
      (oi_quantity_from_stock i) 0 (oi_quantity_from_stock i) ''Reserved for customer order'' None ''reservation''))) s'"
    by (rule claims_ok_post [OF assms(1) post assms(2)]) (simp_all add: order_movement_def new_movement_def ident_def)
  then show ?thesis by (simp add: order_movement_def new_movement_def)
qed

lemma reserve_item_other:
  assumes "reserve_item i s = Inr s'"
  shows "order_items s' = order_items s" and "orders s' = orders s" and "receipt_allocations s' = receipt_allocations s"
    and "receipt_items s' = receipt_items s" and "receipts s' = receipts s" and "receipt_changes s' = receipt_changes s"
    and "0 \<le> oi_quantity_from_stock i"
  using assms by (auto simp: reserve_item_def post_movement_frame order_movement_def new_movement_def movement_valid_def
      elim!: post_movement_Inr split: if_splits)

lemma reserve_item_books_ok:
  assumes "reserve_item i s = Inr s'" and "books_ok s"
    and "oi_quantity_from_stock i \<le> available_of s (oi_product_id i)"
  shows "books_ok s'"
    and "j \<noteq> oi_product_id i \<Longrightarrow> available_of s' j = available_of s j"
proof -
  have "s' = s \<or> post_movement (order_movement Reservation i (oi_quantity_from_stock i) 0 (oi_quantity_from_stock i)
      ''Reserved for customer order'' None ''reservation'') s = Inr s'"
    using assms(1) by (simp add: reserve_item_def split: if_splits)
  then show "books_ok s'" and "j \<noteq> oi_product_id i \<Longrightarrow> available_of s' j = available_of s j"
  proof (atomize (full), elim disjE, goal_cases)
    case 1
    with assms(2) show ?case by simp
  next
    case 2
    have line: "mv_product_id (order_movement Reservation i (oi_quantity_from_stock i) 0 (oi_quantity_from_stock i)
        ''Reserved for customer order'' None ''reservation'') = oi_product_id i"
      by (simp add: order_movement_def new_movement_def)
    obtain p where p: "get (products s) (oi_product_id i) = Some p"
      using 2 line by (auto elim!: post_movement_Inr)
    have "books_ok s'"
      using p assms(3) books_okD [OF assms(2) p] reserve_item_other(7) [OF assms(1)]
      by (intro post_movement_books_ok [OF 2 assms(2)])
        (auto simp: order_movement_def new_movement_def available_of_def available_quantity_def)
    moreover have "j \<noteq> oi_product_id i \<longrightarrow> available_of s' j = available_of s j"
      using post_movement_effects(1) [OF 2, of p j] p by (simp add: line available_of_def)
    ultimately show ?case by simp
  qed
qed

lemma reserve_items_books_ok:
  assumes "for_each reserve_item items s = Inr t" and "books_ok s" and "distinct (map oi_product_id items)"
    and "\<forall>i \<in> set items. oi_quantity_from_stock i \<le> available_of s (oi_product_id i)"
  shows "books_ok t"
  using assms
proof (induction items arbitrary: s)
  case (Cons i items)
  obtain u where u: "reserve_item i s = Inr u" and rest: "for_each reserve_item items u = Inr t"
    using Cons.prems(1) by (auto simp: and_then_eq_Inr)
  have here: "oi_quantity_from_stock i \<le> available_of s (oi_product_id i)" using Cons.prems(4) by simp
  note step = reserve_item_books_ok [OF u Cons.prems(2) here]
  show ?case
  proof (rule Cons.IH [OF rest step(1)])
    show "distinct (map oi_product_id items)" using Cons.prems(3) by simp
    show "\<forall>x \<in> set items. oi_quantity_from_stock x \<le> available_of u (oi_product_id x)"
    proof
      fix x assume x: "x \<in> set items"
      with Cons.prems(3) have "oi_product_id x \<noteq> oi_product_id i" by (metis distinct.simps(2) image_eqI list.map(2) list.set_map)
      with step(2) [of "oi_product_id x"] Cons.prems(4) x
      show "oi_quantity_from_stock x \<le> available_of u (oi_product_id x)" by simp
    qed
  qed
qed simp

lemma filter_key: "distinct (map f xs) \<Longrightarrow> x \<in> set xs \<Longrightarrow> filter (\<lambda>y. f y = f x) xs = [x]"
proof (induction xs)
  case (Cons y xs)
  show ?case
  proof (cases "x \<in> set xs")
    case True
    with Cons.prems have "f y \<noteq> f x" by (metis distinct.simps(2) image_eqI list.map(2) list.set_map)
    with Cons True show ?thesis by simp
  next
    case False
    with Cons.prems have "x = y" by simp
    moreover have "filter (\<lambda>z. f z = f y) xs = []"
      using Cons.prems(1) by (auto simp: filter_empty_conv) (metis imageI)
    ultimately show ?thesis by simp
  qed
qed simp

text \<open>Checkout books exactly the stock the new lines hold.\<close>

lemma place_order_ok:
  assumes run: "place_order db payload phone customer_id pos simulation prices = Inr (db', r)"
    and res: "reservations_ok db" and books: "books_ok db" and "distinct (map fst (ck_items payload))"
  shows "reservations_ok db'" and "books_ok db'"
    and "receipt_items db' = receipt_items db" and "receipt_allocations db' = receipt_allocations db"
    and "\<And>k. idents db k \<noteq> None \<Longrightarrow> idents db' k = idents db k"
    and "receipts db' = receipts db" and "receipt_changes db' = receipt_changes db"
proof -
  define o' where "o' = next_id (orders db)"
  define ord where ord: "ord = new_order o' payload phone customer_id pos simulation prices"
  define start where "start = db\<lparr>orders := put o' ord (orders db)\<rparr>"
  have od: "od_id ord = o'" "od_status ord = Order_pending"
    by (simp_all add: ord new_order_def Let_def)
  have c0: "claims_ok (claim db) start"
    unfolding start_def by (rule claims_ok_put_order) (use res od in \<open>simp_all add: reservations_ok_def\<close>)
  define mid where mid: "mid = fold (add_order_line o' prices) (ck_items payload) start"
  have loop: "for_each reserve_item (lines_of_order mid o') mid = Inr db'"
    using run unfolding place_order_def Let_def and_then_eq_Inr mid start_def ord o'_def by auto
  obtain new where items: "order_items mid = order_items db @ map (\<lambda>i. (oi_id i, i)) new"
    and fresh: "list_all2 (fresh_line start o' prices) (ck_items payload) new"
    and ids: "\<forall>i \<in> set new. get (order_items db) (oi_id i) = None" "distinct (map oi_id new)"
    and c1: "claims_ok (\<lambda>k. if get (order_items db) k = None then 0 else claim db k) mid"
    using add_order_lines [OF c0 _ mid] by (auto simp: start_def)
  have none: "oi_order_id i \<noteq> o'" if "i \<in> set (rows (order_items db))" for i
  proof -
    have "get (order_items db) (oi_id i) = Some i"
      using res that by (auto simp: reservations_ok_def claims_ok_def dest: has_id_rows)
    with res obtain q where "get (orders db) (oi_order_id i) = Some q"
      unfolding reservations_ok_def by (metis claims_ok_order)
    then show ?thesis by (auto simp: o'_def)
  qed
  have facts: "\<exists>line. line \<in> set (ck_items payload) \<and> fresh_line start o' prices line i" if "i \<in> set new" for i
    using fresh that by (metis in_set_conv_nth list_all2_conv_all_nth)
  have owner: "oi_order_id i = o'" if "i \<in> set new" for i
    using facts [OF that] fresh_line_facts(1) by blast
  have lines: "lines_of_order mid o' = new"
  proof -
    have "filter (\<lambda>i. oi_order_id i = o') (rows (order_items db)) = []"
      using none by (auto simp: filter_empty_conv)
    moreover have "filter (\<lambda>i. oi_order_id i = o') new = new"
      using owner by (simp add: filter_id_conv)
    ultimately show ?thesis by (simp add: lines_of_order_def select_where_def rows_def items o_def)
  qed
  have same: "products mid = products db" "orders mid = put o' ord (orders db)" "movements mid = movements db"
    "receipt_allocations mid = receipt_allocations db" "receipt_items mid = receipt_items db"
    "receipts mid = receipts db" "receipt_changes mid = receipt_changes db"
    by (simp_all add: mid add_order_lines_other start_def)
  have row: "get (order_items mid) (oi_id i) = Some i" if "i \<in> set new" for i
  proof -
    have "i \<in> set (lines_of_order mid o')" using lines that by simp
    with c1 show ?thesis by (rule line_of_order)
  qed
  define kept where "kept s \<longleftrightarrow> order_items s = order_items mid \<and> orders s = orders mid
    \<and> receipt_allocations s = receipt_allocations mid \<and> receipt_items s = receipt_items mid
    \<and> receipts s = receipts mid \<and> receipt_changes s = receipt_changes mid" for s :: warehouse
  define final where "final k = (if get (order_items db) k = None then 0 else claim db k)
    + sum_list (map oi_quantity_from_stock (filter (\<lambda>i. oi_id i = k) new))" for k
  have "kept db' \<and> claims_ok (\<lambda>k. (if get (order_items db) k = None then 0 else claim db k)
      + sum_list (map oi_quantity_from_stock (filter (\<lambda>i. oi_id i = k) new))) db'"
    using loop unfolding lines
  proof (rule claims_ok_loop [OF _ c1])
    show "kept mid" by (simp add: kept_def)
  next
    fix i c s s'
    assume i: "i \<in> set new" and s: "kept s" "claims_ok c s" and step: "reserve_item i s = Inr s'"
    have "idents s (oi_id i) = Some (ident i)" using s(1) row [OF i] by (simp add: kept_def idents_def)
    with reserve_item_claims [OF s(2) _ step] reserve_item_other [OF step] s(1)
    show "kept s' \<and> claims_ok (c(oi_id i := c (oi_id i) + oi_quantity_from_stock i)) s'"
      by (simp add: kept_def)
  qed
  then have kept: "kept db'" and c2: "claims_ok final db'" by (simp_all add: final_def [abs_def])
  have positive: "0 \<le> oi_quantity_from_stock i" if "i \<in> set new" for i
  proof -
    have "for_each reserve_item is s = Inr t \<Longrightarrow> i \<in> set is \<Longrightarrow> 0 \<le> oi_quantity_from_stock i" for "is" s t
      by (induction "is" arbitrary: s) (auto simp: and_then_eq_Inr dest: reserve_item_other(7))
    with loop lines that show ?thesis by blast
  qed
  have ok: "line_ok i" if "i \<in> set new" for i
    using facts [OF that] positive [OF that] by (auto simp: line_ok_def fresh_line_facts)
  then have "list_all line_ok new" by (simp add: list_all_iff)
  then have lines_ok: "lines_ok db'"
    using kept res by (auto simp: kept_def lines_ok_def items rows_def reservations_ok_def o_def)
  have get_items: "get (order_items db') k = (case get (order_items db) k of Some i \<Rightarrow> Some i
      | None \<Rightarrow> map_of (map (\<lambda>i. (oi_id i, i)) new) k)" for k
    using kept by (simp add: kept_def items map_add_def split: option.split)
  have "claim db' k = final k" if known: "idents db' k \<noteq> None" for k
  proof (cases "get (order_items db) k")
    case (Some i)
    have "filter (\<lambda>x. oi_id x = k) new = []" using ids(1) Some by (auto simp: filter_empty_conv)
    moreover obtain q where "get (orders db) (oi_order_id i) = Some q" "oi_order_id i \<noteq> o'"
      using res Some unfolding reservations_ok_def by (metis claims_ok_order none get_in_rows)
    moreover have "get (order_items db') k = Some i" by (simp add: get_items Some)
    moreover have "orders db' = put o' ord (orders db)" using kept by (simp add: kept_def same)
    ultimately show ?thesis using Some by (simp add: final_def claim_def)
  next
    case None
    obtain i where i: "i \<in> set new" "oi_id i = k"
    proof (atomize_elim)
      obtain i where "map_of (map (\<lambda>i. (oi_id i, i)) new) k = Some i"
        using None known get_items [of k] by (auto simp: idents_def)
      then have "(k, i) \<in> set (map (\<lambda>i. (oi_id i, i)) new)" by (rule map_of_SomeD)
      then show "\<exists>i. i \<in> set new \<and> oi_id i = k" by auto
    qed
    have "get (order_items db') k = Some i" using kept row [OF i(1)] i(2) by (simp add: kept_def)
    moreover have "filter (\<lambda>x. oi_id x = k) new = [i]"
      using filter_key [OF ids(2) i(1)] i(2) by simp
    moreover have "held i = oi_quantity_from_stock i"
      using facts [OF i(1)] by (auto simp: held_def fresh_line_facts)
    ultimately show ?thesis
      using None kept owner [OF i(1)] od by (simp add: final_def claim_def kept_def same terminal_status_def)
  qed
  then have "claims_ok (claim db') db'" by (intro claims_ok_cong [OF c2])
  with lines_ok show "reservations_ok db'" by (simp add: reservations_ok_def)
  have "books_ok mid"
    using books by (subst books_ok_frame [of mid db]) (simp_all add: balances_def same)
  moreover have "oi_quantity_from_stock i \<le> available_of mid (oi_product_id i)" if "i \<in> set new" for i
    using facts [OF that] by (auto simp: fresh_line_facts available_of_def same start_def)
  moreover have "map oi_product_id new = map fst (ck_items payload)"
    using fresh by (induction rule: list_all2_induct) (auto simp: fresh_line_facts)
  ultimately show "books_ok db'"
    using reserve_items_books_ok [of new mid db'] loop lines assms(4) by simp
  show "receipt_items db' = receipt_items db" "receipt_allocations db' = receipt_allocations db"
    "receipts db' = receipts db" "receipt_changes db' = receipt_changes db"
    using kept by (simp_all add: kept_def same)
  show "idents db' k = idents db k" if "idents db k \<noteq> None" for k
    using that by (auto simp: idents_def get_items)
qed

text \<open>Closing an order gives back, or ships, exactly what its lines hold.\<close>

lemma release_item_Inr:
  assumes "release_item admin i s = Inr s'"
  defines "mid \<equiv> s\<lparr>order_items := put (oi_id i) (i\<lparr>oi_procurement_status := Not_required\<rparr>) (order_items s)\<rparr>"
  obtains "held i = 0" and "s' = mid"
  | p where "get (products s) (oi_product_id i) = Some p" and "held i \<le> pd_reserved_quantity p"
      and "post_movement (order_movement Reservation_release i (held i) 0 (- held i) ''Order cancelled''
             (Some admin) ''reservation-release'') mid = Inr s'"
  using assms by (cases "held i = 0"; cases "get (products s) (oi_product_id i)")
    (auto simp: release_item_def Let_def reservation_mismatch_def split: if_splits)

lemma ship_item_Inr:
  assumes "ship_item admin i s = Inr s'"
  obtains p where "get (products s) (oi_product_id i) = Some p" and "held i \<le> pd_reserved_quantity p"
    and "held i \<le> pd_stock_quantity p" and "held i = oi_quantity i"
    and "post_movement (order_movement Shipment i (held i) (- held i) (- held i) ''Customer order completed''
           (Some admin) ''shipment'') s = Inr s'"
  using assms by (auto simp: ship_item_def reservation_mismatch_def not_less split: if_splits option.splits)

definition same_documents :: "warehouse \<Rightarrow> warehouse \<Rightarrow> bool" where
  "same_documents s t \<longleftrightarrow> orders s = orders t \<and> receipts s = receipts t \<and> receipt_items s = receipt_items t
     \<and> receipt_allocations s = receipt_allocations t \<and> receipt_changes s = receipt_changes t"

lemma post_movement_documents: "post_movement m s = Inr s' \<Longrightarrow> same_documents s' s"
  by (simp add: same_documents_def post_movement_frame)

lemma same_documents_trans: "same_documents s t \<Longrightarrow> same_documents t u \<Longrightarrow> same_documents s u"
  by (simp add: same_documents_def)

lemma order_movement_fields:
  "mv_product_id (order_movement kind i q d e reason admin key) = oi_product_id i"
  "mv_order_id (order_movement kind i q d e reason admin key) = Some (oi_order_id i)"
  "mv_order_item_id (order_movement kind i q d e reason admin key) = Some (oi_id i)"
  "mv_on_hand_delta (order_movement kind i q d e reason admin key) = d"
  "mv_reserved_delta (order_movement kind i q d e reason admin key) = e"
  "mv_quantity (order_movement kind i q d e reason admin key) = q"
  "mv_reference_key (order_movement kind i q d e reason admin key) = Some (order_key (oi_order_id i) (oi_id i) key)"
  by (simp_all add: order_movement_def new_movement_def)

lemma claims_ok_order_post:
  assumes "claims_ok c s" and "idents s (oi_id i) = Some (ident i)"
    and "post_movement (order_movement kind i q d e reason admin key) s = Inr s'"
  shows "claims_ok (c(oi_id i := c (oi_id i) + e)) s'"
  using claims_ok_post [OF assms(1,3,2)] by (simp add: order_movement_fields ident_def)

definition closing :: "warehouse \<Rightarrow> order_item list \<Rightarrow> warehouse \<Rightarrow> bool" where
  "closing db items s \<longleftrightarrow> idents s = idents db \<and> same_documents s db \<and> lines_ok s \<and> books_ok s
     \<and> (\<forall>k. k \<notin> oi_id ` set items \<longrightarrow> get (order_items s) k = get (order_items db) k)"

lemma release_item_ok:
  assumes "release_item admin i s = Inr s'" and c: "claims_ok c s" and "closing db items s" and i: "i \<in> set items"
    and row: "idents db (oi_id i) = Some (ident i)" and "line_ok i"
  shows "closing db items s' \<and> claims_ok (c(oi_id i := c (oi_id i) + - held i)) s'"
proof -
  define mid where "mid = s\<lparr>order_items := put (oi_id i) (i\<lparr>oi_procurement_status := Not_required\<rparr>) (order_items s)\<rparr>"
  have ident: "idents s (oi_id i) = Some (ident (i\<lparr>oi_procurement_status := Not_required\<rparr>))"
    using assms(3) row by (simp add: closing_def ident_def)
  have "idents mid = idents s"
    by (rule ext) (use ident in \<open>auto simp: mid_def idents_def get_put\<close>)
  moreover have "lines_ok mid"
    unfolding mid_def by (rule lines_ok_put) (use assms(3,6) in \<open>simp_all add: closing_def line_ok_def\<close>)
  moreover have "k \<notin> oi_id ` set items \<longrightarrow> get (order_items mid) k = get (order_items db) k" for k
    using assms(3) i by (auto simp: closing_def mid_def get_put)
  ultimately have closing: "closing db items mid"
    using assms(3) by (simp add: closing_def same_documents_def) (simp add: mid_def)
  have claims: "claims_ok c mid"
    unfolding mid_def by (rule claims_ok_put_item [OF c ident])
  from assms(1) show ?thesis
  proof (rule release_item_Inr)
    assume "held i = 0" and "s' = s\<lparr>order_items := put (oi_id i) (i\<lparr>oi_procurement_status := Not_required\<rparr>) (order_items s)\<rparr>"
    then show ?thesis using closing claims by (simp add: mid_def fun_upd_idem)
  next
    fix p
    assume p: "get (products s) (oi_product_id i) = Some p" "held i \<le> pd_reserved_quantity p"
    assume "post_movement (order_movement Reservation_release i (held i) 0 (- held i) ''Order cancelled''
             (Some admin) ''reservation-release'')
          (s\<lparr>order_items := put (oi_id i) (i\<lparr>oi_procurement_status := Not_required\<rparr>) (order_items s)\<rparr>) = Inr s'"
    then have post: "post_movement (order_movement Reservation_release i (held i) 0 (- held i) ''Order cancelled''
             (Some admin) ''reservation-release'') mid = Inr s'" by (simp add: mid_def)
    have "books_ok s" using assms(3) by (simp add: closing_def)
    from books_okD [OF this p(1)] p held_nonneg [OF assms(6)] have "books_ok s'"
      by (intro post_movement_books_ok [OF post])
        (use closing in \<open>auto simp: closing_def order_movement_fields mid_def\<close>)
    moreover have "idents mid (oi_id i) = Some (ident i)" using closing row by (simp add: closing_def)
    ultimately show ?thesis
      using closing claims_ok_order_post [OF claims _ post] post_movement_idents [OF post]
        same_documents_trans [OF post_movement_documents [OF post]]
      by (simp add: closing_def lines_ok_def post_movement_frame [OF post])
  qed
qed

lemma ship_item_ok:
  assumes "ship_item admin i s = Inr s'" and c: "claims_ok c s" and "closing db items s" and i: "i \<in> set items"
    and row: "idents db (oi_id i) = Some (ident i)" and "line_ok i"
  shows "closing db items s' \<and> claims_ok (c(oi_id i := c (oi_id i) + - held i)) s'"
  using assms(1)
proof (rule ship_item_Inr)
  fix p
  assume p: "get (products s) (oi_product_id i) = Some p" "held i \<le> pd_reserved_quantity p"
    and post: "post_movement (order_movement Shipment i (held i) (- held i) (- held i) ''Customer order completed''
           (Some admin) ''shipment'') s = Inr s'"
  have books: "books_ok s" using assms(3) by (simp add: closing_def)
  from books_okD [OF this p(1)] p have "books_ok s'"
    by (intro post_movement_books_ok [OF post books]) (auto simp: order_movement_fields)
  moreover have "idents s (oi_id i) = Some (ident i)" using assms(3) row by (simp add: closing_def)
  ultimately show ?thesis
    using assms(3) claims_ok_order_post [OF c _ post] post_movement_idents [OF post]
      same_documents_trans [OF post_movement_documents [OF post]]
    by (simp add: closing_def lines_ok_def post_movement_frame [OF post])
qed

lemma distinct_lines_of_order:
  assumes "claims_ok c db"
  shows "distinct (map oi_id (lines_of_order db o'))"
proof -
  have "map oi_id (rows (order_items db)) = ids (order_items db)"
  proof -
    have "get (order_items db) (fst kr) = Some (snd kr)" if "kr \<in> set (order_items db)" for kr
      using assms that by (auto simp: claims_ok_def has_id_def table_ok_def ids_def)
    then have "\<forall>kr \<in> set (order_items db). oi_id (snd kr) = fst kr"
      using claims_ok_ids [OF assms] by metis
    then show ?thesis by (simp add: rows_def ids_def)
  qed
  then have "distinct (map oi_id (rows (order_items db)))"
    using assms by (simp add: claims_ok_def has_id_def table_ok_def)
  then show ?thesis by (simp add: lines_of_order_def select_where_def distinct_map_filter)
qed

lemma closing_loop:
  assumes "for_each step (lines_of_order db o') db = Inr t" and res: "reservations_ok db" and "books_ok db"
    and open_order: "get (orders db) o' = Some r" "\<not> terminal_status (od_status r)"
    and step: "\<And>i c s s'. step i s = Inr s' \<Longrightarrow> claims_ok c s \<Longrightarrow> closing db (lines_of_order db o') s \<Longrightarrow>
        i \<in> set (lines_of_order db o') \<Longrightarrow> idents db (oi_id i) = Some (ident i) \<Longrightarrow> line_ok i \<Longrightarrow>
        closing db (lines_of_order db o') s' \<and> claims_ok (c(oi_id i := c (oi_id i) + - held i)) s'"
  shows "closing db (lines_of_order db o') t
    \<and> claims_ok (\<lambda>k. if k \<in> oi_id ` set (lines_of_order db o') then 0 else claim db k) t"
proof -
  let ?items = "lines_of_order db o'"
  have c: "claims_ok (claim db) db" using res by (simp add: reservations_ok_def)
  have row: "get (order_items db) (oi_id i) = Some i" "oi_order_id i = o'" if "i \<in> set ?items" for i
    using line_of_order [OF c that] .
  have "closing db ?items t \<and> claims_ok (\<lambda>k. claim db k + sum_list (map (\<lambda>i. - held i) (filter (\<lambda>i. oi_id i = k) ?items))) t"
    using assms(1)
  proof (rule claims_ok_loop [OF _ c])
    show "closing db ?items db"
      using res assms(3) by (simp add: closing_def same_documents_def reservations_ok_def)
  next
    fix i c s s'
    assume i: "i \<in> set ?items" and s: "closing db ?items s" "claims_ok c s" "step i s = Inr s'"
    have "line_ok i" using res row(1) [OF i] by (auto simp: reservations_ok_def dest: lines_okD)
    with step [OF s(3,2,1) i] row(1) [OF i]
    show "closing db ?items s' \<and> claims_ok (c(oi_id i := c (oi_id i) + - held i)) s'"
      by (simp add: idents_def)
  qed
  moreover have "claim db k + sum_list (map (\<lambda>i. - held i) (filter (\<lambda>i. oi_id i = k) ?items))
      = (if k \<in> oi_id ` set ?items then 0 else claim db k)" for k
  proof (cases "k \<in> oi_id ` set ?items")
    case True
    then obtain i where i: "i \<in> set ?items" "k = oi_id i" by auto
    have "filter (\<lambda>x. oi_id x = oi_id i) ?items = [i]"
      by (rule filter_key [OF distinct_lines_of_order [OF c] i(1)])
    moreover have "claim db (oi_id i) = held i"
      using row [OF i(1)] open_order by (simp add: claim_def)
    ultimately show ?thesis using i by auto
  next
    case False
    then have "filter (\<lambda>i. oi_id i = k) ?items = []" by (auto simp: filter_empty_conv)
    with False show ?thesis by simp
  qed
  ultimately show ?thesis by simp
qed

lemma update_status_Inr:
  assumes "update_status gates db o' new_status admin profile = Inr (db', r)"
  obtains "db' = db" and "get (orders db) o' = Some r"
  | ord mid where "get (orders db) o' = Some ord" and "\<not> terminal_status (od_status ord)"
      and "allowed_transition (od_status ord) new_status"
      and "move_order_stock db (lines_of_order db o') new_status admin = Inr mid"
      and "od_id r = od_id ord" and "od_status r = new_status" and "db' = mid\<lparr>orders := put o' r (orders mid)\<rparr>"
proof -
  obtain ord where ord: "get (orders db) o' = Some ord"
    using assms by (auto simp: update_status_def Let_def split: option.splits)
  show thesis
  proof (cases "od_status ord = new_status")
    case True
    with assms ord show ?thesis
      by (auto simp: update_status_def Let_def and_then_eq_Inr intro: that(1))
  next
    case False
    with assms ord obtain mid where "check_transition ord new_status = Inr ()"
      and "move_order_stock db (lines_of_order db o') new_status admin = Inr mid"
      and "od_id r = od_id ord" and "od_status r = new_status" and "db' = mid\<lparr>orders := put o' r (orders mid)\<rparr>"
      by (auto simp: update_status_def Let_def and_then_eq_Inr)
    moreover from this have "\<not> terminal_status (od_status ord)" "allowed_transition (od_status ord) new_status"
      by (auto simp: check_transition_def split: if_splits)
    ultimately show ?thesis using that(2) ord by blast
  qed
qed

lemma update_status_ok:
  assumes run: "update_status gates db o' new_status admin profile = Inr (db', r)"
    and res: "reservations_ok db" and books: "books_ok db"
  shows "reservations_ok db' \<and> books_ok db' \<and> idents db' = idents db \<and> receipt_items db' = receipt_items db
    \<and> receipt_allocations db' = receipt_allocations db \<and> receipts db' = receipts db
    \<and> receipt_changes db' = receipt_changes db"
  using run
proof (rule update_status_Inr)
  assume "db' = db" then show ?thesis using assms by simp
next
  fix ord mid
  assume ord: "get (orders db) o' = Some ord" "\<not> terminal_status (od_status ord)"
    and move: "move_order_stock db (lines_of_order db o') new_status admin = Inr mid"
    and r: "od_id r = od_id ord" "od_status r = new_status" and db': "db' = mid\<lparr>orders := put o' r (orders mid)\<rparr>"
  let ?items = "lines_of_order db o'"
  have c: "claims_ok (claim db) db" and lines: "lines_ok db" using res by (simp_all add: reservations_ok_def)
  have od: "od_id r = o'" using c ord(1) r(1) by (auto simp: claims_ok_def dest: has_id_get)
  have member: "k \<in> oi_id ` set ?items \<longleftrightarrow> oi_order_id i = o'" if "get (order_items db) k = Some i" for k i
  proof
    assume "k \<in> oi_id ` set ?items"
    then obtain j where j: "j \<in> set ?items" "k = oi_id j" by auto
    with line_of_order [OF c j(1)] that show "oi_order_id i = o'" by simp
  next
    assume "oi_order_id i = o'"
    then have "i \<in> set ?items" using get_in_rows [OF that] by (simp add: lines_of_order_def select_where_def)
    then show "k \<in> oi_id ` set ?items" using claims_ok_ids [OF c that] by (metis imageI)
  qed
  define closed where "closed = (if terminal_status new_status then oi_id ` set ?items else {})"
  have mid: "closing db ?items mid \<and> claims_ok (\<lambda>k. if k \<in> closed then 0 else claim db k) mid
      \<and> (\<not> terminal_status new_status \<longrightarrow> mid = db)"
  proof -
    consider (cancel) "new_status = Order_cancelled" | (complete) "new_status = Order_completed"
      | (other) "\<not> terminal_status new_status"
      by (auto simp: terminal_status_def)
    then show ?thesis
    proof cases
      case cancel
      then have "for_each (release_item admin) ?items db = Inr mid"
        using move by (simp add: move_order_stock_def and_then_eq_Inr)
      from closing_loop [OF this res books ord release_item_ok] cancel show ?thesis
        by (simp add: closed_def terminal_status_def)
    next
      case complete
      then have "for_each (ship_item admin) ?items db = Inr mid"
        using move by (simp add: move_order_stock_def and_then_eq_Inr apply_handover_inventory_def)
      from closing_loop [OF this res books ord ship_item_ok] complete show ?thesis
        by (simp add: closed_def terminal_status_def)
    next
      case other
      then have "mid = db" using move by (simp add: move_order_stock_def terminal_status_def)
      with other c lines books show ?thesis
        by (simp add: closed_def closing_def same_documents_def)
    qed
  qed
  then have closing: "closing db ?items mid" and claims: "claims_ok (\<lambda>k. if k \<in> closed then 0 else claim db k) mid"
    by simp_all
  have claims': "claims_ok (\<lambda>k. if k \<in> closed then 0 else claim db k) db'"
    unfolding db' by (rule claims_ok_put_order [OF claims od])
  have ids: "idents db' = idents db"
    using closing by (simp add: closing_def) (simp add: idents_def [abs_def] db')
  have "claim db' k = (if k \<in> closed then 0 else claim db k)" if known: "idents db' k \<noteq> None" for k
  proof -
    obtain i where i: "get (order_items db) k = Some i" using known ids by (auto simp: idents_def)
    have "idents mid k = idents db k" using closing by (simp add: closing_def)
    then obtain j where j: "get (order_items mid) k = Some j" "ident j = ident i"
      using i by (auto simp: idents_def)
    show ?thesis
    proof (cases "oi_order_id i = o'")
      case True
      then have "oi_order_id j = o'" using j(2) by (simp add: ident_def)
      show ?thesis
      proof (cases "terminal_status new_status")
        case closing_now: True
        then show ?thesis using True member [OF i] j \<open>oi_order_id j = o'\<close> r(2) by (simp add: claim_def db' closed_def)
      next
        case False
        with mid have "mid = db" by simp
        with False True i ord r(2) show ?thesis by (simp add: claim_def db' closed_def)
      qed
    next
      case False
      then have "k \<notin> oi_id ` set ?items" using member [OF i] by simp
      moreover from this have "get (order_items mid) k = Some i" "orders mid = orders db"
        using closing i by (simp_all add: closing_def same_documents_def)
      ultimately show ?thesis using False i by (simp add: claim_def db' closed_def)
    qed
  qed
  then have "claims_ok (claim db') db'" by (intro claims_ok_cong [OF claims'])
  with closing ids show ?thesis
    by (simp add: reservations_ok_def closing_def same_documents_def) (simp add: db' lines_ok_def)
qed

section \<open>Receipts\<close>

text \<open>
  An allocation is positive, and its line and its order line are of one product.
\<close>

definition allocation_ok :: "warehouse \<Rightarrow> receipt_allocation \<Rightarrow> bool" where
  "allocation_ok db a \<longleftrightarrow> 0 < al_quantity a
     \<and> (case (get (receipt_items db) (al_receipt_item_id a), idents db (al_order_item_id a)) of
          (Some l, Some i) \<Rightarrow> snd (snd i) = ri_product_id l
        | _ \<Rightarrow> False)"

definition allocations_ok :: "warehouse \<Rightarrow> bool" where
  "allocations_ok db \<longleftrightarrow> has_id ri_id (receipt_items db) \<and> has_id al_id (receipt_allocations db)
     \<and> list_all (allocation_ok db) (rows (receipt_allocations db))"

lemma allocations_ok_positive: "allocations_ok db \<Longrightarrow> allocations_positive db"
  by (auto simp: allocations_ok_def allocations_positive_def allocation_ok_def list_all_iff)

lemma allocation_okD:
  assumes "allocations_ok db" and "l \<in> set (rows (receipt_items db))" and "a \<in> set (allocations_of db (ri_id l))"
  shows "0 < al_quantity a" and "\<exists>i. idents db (al_order_item_id a) = Some i \<and> snd (snd i) = ri_product_id l"
proof -
  have "get (receipt_items db) (al_receipt_item_id a) = Some l"
    using assms by (auto simp: allocations_ok_def allocations_of_def select_where_def dest: has_id_rows)
  moreover have "allocation_ok db a"
    using assms(1,3) by (simp add: allocations_ok_def allocations_of_def select_where_def list_all_iff)
  ultimately show "0 < al_quantity a" "\<exists>i. idents db (al_order_item_id a) = Some i \<and> snd (snd i) = ri_product_id l"
    by (auto simp: allocation_ok_def split: option.splits)
qed

definition pending_quantity :: "receipt_allocation list \<Rightarrow> int \<Rightarrow> int" where
  "pending_quantity as k = sum_list (map al_quantity (filter (\<lambda>a. al_order_item_id a = k) as))"

lemma check_lines_flat:
  "for_each (check_line db) items f = Inr g \<Longrightarrow>
    for_each (check_allocation db) (concat (map (\<lambda>i. allocations_of db (ri_id i)) items)) f = Inr g"
  by (induction items arbitrary: f)
    (auto simp: and_then_eq_Inr check_line_def Let_def for_each_append split: if_splits)

lemma check_allocations_all:
  assumes "for_each (check_allocation db) as f = Inr g" and "has_id oi_id (order_items db)"
    and "\<forall>a \<in> set as. 0 < al_quantity a" and "a \<in> set as"
  shows "\<exists>i r. get (order_items db) (al_order_item_id a) = Some i \<and> get (orders db) (oi_order_id i) = Some r
    \<and> \<not> terminal_status (od_status r) \<and> f (al_order_item_id a) + pending_quantity as (al_order_item_id a) \<le> outstanding i"
  using assms
proof (induction as arbitrary: f a)
  case (Cons x as)
  let ?k = "al_order_item_id x"
  obtain f' where x: "check_allocation db x f = Inr f'" and rest: "for_each (check_allocation db) as f' = Inr g"
    using Cons.prems(1) by (auto simp: and_then_eq_Inr)
  obtain i r where i: "get (order_items db) ?k = Some i" "get (orders db) (oi_order_id i) = Some r"
      "\<not> terminal_status (od_status r)"
    and f': "f' = f(?k := f ?k + al_quantity x)" and fits: "f ?k + al_quantity x \<le> outstanding i"
    using x Cons.prems(2)
    by (auto simp: check_allocation_def Let_def terminal_status_def dest: has_id_get split: option.splits if_splits)
  show ?case
  proof (cases "\<exists>y \<in> set as. al_order_item_id y = al_order_item_id a")
    case True
    then obtain y where y: "y \<in> set as" "al_order_item_id y = al_order_item_id a" by blast
    have "\<forall>a \<in> set as. 0 < al_quantity a" using Cons.prems(3) by simp
    from Cons.IH [OF rest Cons.prems(2) this y(1)] y(2) show ?thesis
      by (auto simp: f' pending_quantity_def split: if_splits)
  next
    case False
    then have "a = x" and "filter (\<lambda>y. al_order_item_id y = ?k) as = []"
      using Cons.prems(4) by (auto simp: filter_empty_conv)
    with i fits show ?thesis by (auto simp: pending_quantity_def)
  qed
qed simp

text \<open>While a receipt is posted, each line still has room for what is pending on it.\<close>

definition receiving :: "warehouse \<Rightarrow> receipt_allocation list \<Rightarrow> warehouse \<Rightarrow> bool" where
  "receiving db as s \<longleftrightarrow> claims_ok (claim s) s \<and> idents s = idents db \<and> same_documents s db
     \<and> (\<forall>k i. get (order_items s) k = Some i \<longrightarrow> 0 \<le> oi_quantity_from_stock i
          \<and> 0 \<le> oi_quantity_received_for_order i
          \<and> oi_quantity_received_for_order i + pending_quantity as k \<le> oi_quantity_to_order i
          \<and> oi_quantity_from_stock i + oi_quantity_to_order i = oi_quantity i)"

definition receivable :: "warehouse \<Rightarrow> receipt_allocation \<Rightarrow> bool" where
  "receivable db a \<longleftrightarrow> 0 < al_quantity a \<and> (\<exists>i r. idents db (al_order_item_id a) = Some i
     \<and> get (orders db) (fst (snd i)) = Some r \<and> \<not> terminal_status (od_status r))"

lemma post_allocation_receiving:
  assumes run: "post_allocation r admin p a s = Inr s'" and rec: "receiving db (a # as) s" and "receivable db a"
    and product: "\<exists>i. idents db (al_order_item_id a) = Some i \<and> snd (snd i) = p"
  shows "receiving db as s'"
proof -
  let ?k = "al_order_item_id a"
  obtain item where item: "get (order_items s) ?k = Some item"
    and post: "post_movement (allocation_movement r admin p item a)
        (s\<lparr>order_items := put ?k (receive_for_order (al_quantity a) item) (order_items s)\<rparr>) = Inr s'"
    using run by (auto simp: post_allocation_def split: option.splits)
  define mid where "mid = s\<lparr>order_items := put ?k (receive_for_order (al_quantity a) item) (order_items s)\<rparr>"
  have claims: "claims_ok (claim s) s" and ids: "idents s = idents db" and docs: "same_documents s db"
    using rec by (simp_all add: receiving_def)
  have ident: "idents s ?k = Some (ident item)" by (simp add: idents_def item)
  have same_ident: "ident (receive_for_order (al_quantity a) item) = ident item"
    by (simp add: receive_for_order_def ident_def Let_def)
  have mid_ids: "idents mid = idents s"
    by (rule ext) (use item same_ident in \<open>auto simp: mid_def idents_def get_put\<close>)
  have mid_claims: "claims_ok (claim s) mid"
    unfolding mid_def by (rule claims_ok_put_item [OF claims]) (simp add: same_ident ident)
  have p: "snd (snd (ident item)) = p" using product ident ids by auto
  have fields: "mv_order_item_id (allocation_movement r admin p item a) = Some (fst (ident item))"
    "mv_order_id (allocation_movement r admin p item a) = Some (fst (snd (ident item)))"
    "mv_product_id (allocation_movement r admin p item a) = snd (snd (ident item))"
    "mv_reserved_delta (allocation_movement r admin p item a) = al_quantity a"
    using p by (simp_all add: allocation_movement_def new_movement_def ident_def)
  have post': "post_movement (allocation_movement r admin p item a) mid = Inr s'" using post by (simp add: mid_def)
  have new_claims: "claims_ok ((claim s)(?k := claim s ?k + al_quantity a)) s'"
    using claims_ok_post [OF mid_claims post' _ fields(1-3)] ident mid_ids fields(4) by simp
  obtain ord where ord: "get (orders s) (oi_order_id item) = Some ord" "\<not> terminal_status (od_status ord)"
    using assms(3) ident ids docs by (auto simp: receivable_def same_documents_def ident_def)
  have items: "order_items s' = put ?k (receive_for_order (al_quantity a) item) (order_items s)"
    and ords: "orders s' = orders s"
    using post_movement_frame(1,2) [OF post'] by (simp_all add: mid_def)
  have "claim s' j = ((claim s)(?k := claim s ?k + al_quantity a)) j" for j
  proof (cases "j = ?k")
    case True
    have "oi_order_id (receive_for_order (al_quantity a) item) = oi_order_id item"
      and "held (receive_for_order (al_quantity a) item) = held item + al_quantity a"
      by (simp_all add: receive_for_order_def Let_def held_def)
    with True ord item show ?thesis by (simp add: claim_def items ords)
  next
    case False
    then show ?thesis by (simp add: claim_def items ords cong: option.case_cong)
  qed
  then have "claims_ok (claim s') s'" by (intro claims_ok_cong [OF new_claims])
  moreover have "idents s' = idents db" using post_movement_idents [OF post'] mid_ids ids by simp
  moreover have "same_documents s' db"
    using post_movement_documents [OF post'] docs by (simp add: same_documents_def mid_def)
  moreover have "0 \<le> oi_quantity_from_stock i \<and> 0 \<le> oi_quantity_received_for_order i
      \<and> oi_quantity_received_for_order i + pending_quantity as k \<le> oi_quantity_to_order i
      \<and> oi_quantity_from_stock i + oi_quantity_to_order i = oi_quantity i"
    if i: "get (order_items s') k = Some i" for k i
  proof (cases "k = ?k")
    case True
    then have "i = receive_for_order (al_quantity a) item" using i by (simp add: items)
    moreover have "0 \<le> oi_quantity_from_stock item" "0 \<le> oi_quantity_received_for_order item"
        "oi_quantity_received_for_order item + pending_quantity (a # as) ?k \<le> oi_quantity_to_order item"
        "oi_quantity_from_stock item + oi_quantity_to_order item = oi_quantity item" "0 < al_quantity a"
      using rec item assms(3) unfolding receiving_def receivable_def by blast+
    ultimately show ?thesis using True by (simp add: receive_for_order_def Let_def pending_quantity_def)
  next
    case False
    then have "get (order_items s) k = Some i" "pending_quantity (a # as) k = pending_quantity as k"
      using i by (simp_all add: items pending_quantity_def)
    with rec show ?thesis unfolding receiving_def by metis
  qed
  ultimately show ?thesis by (simp add: receiving_def)
qed

lemma post_allocations_receiving:
  assumes "for_each (post_allocation r admin p) as s = Inr s'" and "receiving db (as @ later) s"
    and "\<forall>a \<in> set as. receivable db a \<and> (\<exists>i. idents db (al_order_item_id a) = Some i \<and> snd (snd i) = p)"
  shows "receiving db later s'"
  using assms
proof (induction as arbitrary: s)
  case (Cons a as)
  obtain u where u: "post_allocation r admin p a s = Inr u" and rest: "for_each (post_allocation r admin p) as u = Inr s'"
    using Cons.prems(1) by (auto simp: and_then_eq_Inr)
  have "receiving db (as @ later) u"
    by (rule post_allocation_receiving [OF u]) (use Cons.prems in auto)
  with Cons.IH [OF rest] Cons.prems(3) show ?case by simp
qed simp

lemma post_line_receiving:
  assumes run: "post_line r admin l s = Inr s'" and "receiving db (allocations_of db (ri_id l) @ later) s"
    and "\<forall>a \<in> set (allocations_of db (ri_id l)).
      receivable db a \<and> (\<exists>i. idents db (al_order_item_id a) = Some i \<and> snd (snd i) = ri_product_id l)"
  shows "receiving db later s'"
proof -
  obtain u where post: "post_movement (line_movement r admin l) s = Inr u"
    and rest: "for_each (post_allocation r admin (ri_product_id l)) (allocations_of u (ri_id l)) u = Inr s'"
    using run by (auto simp: post_line_def and_then_eq_Inr)
  have "mv_reserved_delta (line_movement r admin l) = 0" by (simp add: line_movement_def new_movement_def)
  from claims_ok_post_other [OF _ post this] assms(2)
  have "receiving db (allocations_of db (ri_id l) @ later) u"
    by (simp add: receiving_def post_movement_idents [OF post] post_movement_frame [OF post] same_documents_def
        claim_same [OF post_movement_frame(1,2) [OF post]])
  moreover from this have "allocations_of u (ri_id l) = allocations_of db (ri_id l)"
    by (simp add: receiving_def same_documents_def allocations_of_def)
  ultimately show ?thesis using post_allocations_receiving [of r admin "ri_product_id l"] rest assms(3) by simp
qed

lemma post_lines_loop_receiving:
  assumes "for_each (post_line r admin) items s = Inr s'"
    and "receiving db (concat (map (\<lambda>l. allocations_of db (ri_id l)) items)) s"
    and "\<forall>l \<in> set items. \<forall>a \<in> set (allocations_of db (ri_id l)).
      receivable db a \<and> (\<exists>i. idents db (al_order_item_id a) = Some i \<and> snd (snd i) = ri_product_id l)"
  shows "receiving db [] s'"
  using assms
proof (induction items arbitrary: s)
  case (Cons l items)
  obtain u where u: "post_line r admin l s = Inr u" and rest: "for_each (post_line r admin) items u = Inr s'"
    using Cons.prems(1) by (auto simp: and_then_eq_Inr)
  have "receiving db (concat (map (\<lambda>l. allocations_of db (ri_id l)) items)) u"
    by (rule post_line_receiving [OF u]) (use Cons.prems(2,3) in auto)
  with Cons.IH [OF rest] Cons.prems(3) show ?case by simp
qed simp

lemma receiving_done: "receiving db [] s \<Longrightarrow> reservations_ok s"
  by (auto simp: receiving_def reservations_ok_def lines_ok_def list_all_iff line_ok_def pending_quantity_def
      claims_ok_def dest: has_id_rows)

lemma fold_purchase_cost_documents:
  "order_items (fold (set_purchase_cost r items) xs db) = order_items db"
  "movements (fold (set_purchase_cost r items) xs db) = movements db"
  "same_documents (fold (set_purchase_cost r items) xs db) db"
  using arg_cong [OF fold_purchase_cost_frame [of r items xs db], of order_items]
    arg_cong [OF fold_purchase_cost_frame [of r items xs db], of movements]
    arg_cong [OF fold_purchase_cost_frame [of r items xs db], of orders]
    arg_cong [OF fold_purchase_cost_frame [of r items xs db], of receipts]
    arg_cong [OF fold_purchase_cost_frame [of r items xs db], of receipt_items]
    arg_cong [OF fold_purchase_cost_frame [of r items xs db], of receipt_allocations]
    arg_cong [OF fold_purchase_cost_frame [of r items xs db], of receipt_changes]
  by (simp_all add: same_documents_def)

lemma post_lines_receiving:
  assumes run: "post_lines r admin (lines_of db n) db = Inr db'" and res: "reservations_ok db"
    and allocs: "allocations_ok db"
  shows "receiving db [] db'"
proof -
  let ?items = "lines_of db n"
  let ?as = "concat (map (\<lambda>l. allocations_of db (ri_id l)) ?items)"
  define s where "s = fold (set_purchase_cost r ?items) (sort (remdups (map ri_product_id ?items))) db"
  obtain g where check: "for_each (check_line db) ?items (\<lambda>_. 0) = Inr g"
    and loop: "for_each (post_line r admin) ?items s = Inr db'"
    using run by (auto simp: post_lines_def and_then_eq_Inr Let_def s_def)
  have s: "order_items s = order_items db" "movements s = movements db" "same_documents s db"
    unfolding s_def by (rule fold_purchase_cost_documents)+
  have l: "l \<in> set (rows (receipt_items db))" if "l \<in> set ?items" for l
    using that by (simp add: lines_of_def select_where_def)
  have claims: "claims_ok (claim db) db" using res by (simp add: reservations_ok_def)
  have positive: "\<forall>a \<in> set ?as. 0 < al_quantity a"
    using allocation_okD(1) [OF allocs l] by auto
  note all = check_allocations_all [OF check_lines_flat [OF check] claims_ok_items [OF claims] positive]
  have receivable: "receivable db a" if "a \<in> set ?as" for a
    using all [OF that] positive that by (auto simp: receivable_def idents_def ident_def)
  have room: "oi_quantity_received_for_order i + pending_quantity ?as k \<le> oi_quantity_to_order i"
    if i: "get (order_items db) k = Some i" for k i
  proof (cases "\<exists>a \<in> set ?as. al_order_item_id a = k")
    case True
    with all i show ?thesis by (fastforce simp: outstanding_def)
  next
    case False
    then have "filter (\<lambda>a. al_order_item_id a = k) ?as = []" unfolding filter_empty_conv by blast
    moreover have "line_ok i" using res i by (auto simp: reservations_ok_def dest: lines_okD)
    ultimately show ?thesis by (simp add: pending_quantity_def line_ok_def)
  qed
  have "claims_ok (claim s) s"
    using claims_ok_same [OF claims s(1) _ s(2)] s by (simp add: same_documents_def claim_same [of s db])
  moreover have "idents s = idents db" by (rule ext) (simp add: idents_def s)
  ultimately have "receiving db ?as s"
    using s room res lines_okD [of db] by (auto simp: receiving_def reservations_ok_def line_ok_def)
  from post_lines_loop_receiving [OF loop this] show ?thesis
    using receivable allocation_okD(2) [OF allocs l] by auto
qed

end
