(* ===== verification/Stock.thy ===== *)
theory Stock
  imports Reservations
begin

text \<open>
  The shop's stock as one system: every service call is a step, and each step keeps the books of the
  products sound, every reserved unit owned by an order line and every allocation of a receipt in
  order.
\<close>

section \<open>The invariant of the warehouse\<close>

definition warehouse_ok :: "warehouse \<Rightarrow> bool" where
  "warehouse_ok db \<longleftrightarrow> books_ok db \<and> reservations_ok db \<and> allocations_ok db"

text \<open>Nothing that reservations and allocations depend on has changed.\<close>

definition quiet :: "warehouse \<Rightarrow> warehouse \<Rightarrow> bool" where
  "quiet db db' \<longleftrightarrow> order_items db' = order_items db \<and> orders db' = orders db \<and> movements db' = movements db
     \<and> receipt_items db' = receipt_items db \<and> receipt_allocations db' = receipt_allocations db
     \<and> receipt_changes db' = receipt_changes db"

lemma allocations_ok_same:
  assumes "allocations_ok db" and "receipt_items db' = receipt_items db"
    and "receipt_allocations db' = receipt_allocations db"
    and "\<And>k. idents db k \<noteq> None \<Longrightarrow> idents db' k = idents db k"
  shows "allocations_ok db'"
proof -
  have "allocation_ok db' a" if "allocation_ok db a" for a
    using that assms(4) [of "al_order_item_id a"]
    by (auto simp: allocation_ok_def assms(2) split: option.splits)
  with assms(1-3) show ?thesis by (simp add: allocations_ok_def list_all_iff)
qed

lemma warehouse_ok_quiet:
  assumes "warehouse_ok db" and "quiet db db'" and "books_ok db'"
  shows "warehouse_ok db'"
  using assms reservations_ok_same [of db db'] allocations_ok_same [of db db']
  by (simp add: warehouse_ok_def quiet_def idents_def)

lemma update_product_settings_quiet:
  "update_product_settings db i barcode b admin = Inr (db', p) \<Longrightarrow> quiet db db' \<and> receipts db' = receipts db"
  by (auto simp: update_product_settings_def and_then_eq_Inr Let_def quiet_def split: if_splits)

lemma bind_barcode_quiet:
  "bind_barcode db i barcode admin = Inr (db', p) \<Longrightarrow> quiet db db' \<and> receipts db' = receipts db"
  by (auto simp: bind_barcode_def and_then_eq_Inr Let_def quiet_def split: if_splits)

lemma create_product_card_quiet:
  "create_product_card validate db key request = Inr (db', p) \<Longrightarrow> quiet db db' \<and> receipts db' = receipts db"
  by (auto simp: create_product_card_def require_matching_eq and_then_eq_Inr Let_def quiet_def
      split: if_splits option.splits)

lemma create_receipt_quiet: "create_receipt db key request = Inr (db', r) \<Longrightarrow> quiet db db'"
  by (auto simp: create_receipt_def require_matching_eq Let_def quiet_def split: if_splits option.splits)

lemma create_count_quiet: "create_count db key reason = Inr (db', c) \<Longrightarrow> quiet db db' \<and> receipts db' = receipts db"
  by (auto simp: create_count_def require_matching_eq Let_def quiet_def split: if_splits option.splits)

lemma set_count_item_quiet:
  "set_count_item db i product barcode quantity = Inr db' \<Longrightarrow> quiet db db' \<and> receipts db' = receipts db"
  by (auto simp: set_count_item_def and_then_eq_Inr quiet_def split: if_splits option.splits)

lemma mark_ordered_ok:
  assumes "mark_ordered db items = Inr db'" and "reservations_ok db"
  shows "reservations_ok db' \<and> idents db' = idents db \<and> same_documents db' db"
proof -
  have "for_each mark_one_ordered (sort items) db = Inr db'"
    using assms(1) by (simp add: mark_ordered_def split: if_splits)
  then show ?thesis
  proof (rule for_each_invariant)
    show "reservations_ok db \<and> idents db = idents db \<and> same_documents db db"
      using assms(2) by (simp add: same_documents_def)
  next
    fix i s s'
    assume s: "reservations_ok s \<and> idents s = idents db \<and> same_documents s db" and step: "mark_one_ordered i s = Inr s'"
    then obtain item where item: "get (order_items s) i = Some item"
      and s': "s' = s\<lparr>order_items := put i (item\<lparr>oi_procurement_status := Ordered\<rparr>) (order_items s)\<rparr>"
      by (auto simp: mark_one_ordered_def split: option.splits if_splits)
    have "line_ok item" using s item by (auto simp: reservations_ok_def dest: lines_okD)
    then have "reservations_ok s'"
      unfolding s' using s item
      by (intro reservations_ok_put_item [of s i item]) (simp_all add: ident_def held_def line_ok_def)
    moreover have "idents s' = idents s"
      by (rule ext) (use item in \<open>simp add: s' idents_def get_put ident_def\<close>)
    ultimately show "reservations_ok s' \<and> idents s' = idents db \<and> same_documents s' db"
      using s by (simp add: s' same_documents_def)
  qed
qed

lemma manual_operation_cases:
  assumes "manual_operation allowed db key q = Inr (db', m)"
  shows "db' = db \<or> post_movement (manual_movement q key) db = Inr db'"
proof -
  have "db' = db \<or> run_manual db key q = Inr (db', m)"
    using assms by (auto simp: manual_operation_def require_matching_eq and_then_eq_Inr split: if_splits option.splits)
  then show ?thesis by (auto elim!: run_manual_Inr)
qed

lemma manual_operation_ok:
  assumes "manual_operation allowed db key q = Inr (db', m)" and "reservations_ok db"
  shows "reservations_ok db' \<and> idents db' = idents db \<and> same_documents db' db"
  using manual_operation_cases [OF assms(1)]
proof
  assume post: "post_movement (manual_movement q key) db = Inr db'"
  have "mv_reserved_delta (manual_movement q key) = 0" by (simp add: manual_movement_def new_movement_def)
  from reservations_ok_post_other [OF assms(2) post this] show ?thesis
    using post_movement_idents [OF post] post_movement_documents [OF post] by simp
qed (use assms(2) in \<open>simp add: same_documents_def\<close>)

lemma post_counted_ok:
  assumes "post_counted c admin i s = Inr s'" and "reservations_ok s"
  shows "reservations_ok s' \<and> idents s' = idents s \<and> same_documents s' s"
proof -
  obtain p where p: "get (products s) (ci_product_id i) = Some p"
    using assms(1) by (auto simp: post_counted_def split: option.splits)
  define mid where "mid = s\<lparr>count_items := put (ci_id i) (i\<lparr>ci_expected_quantity := pd_stock_quantity p\<rparr>) (count_items s)\<rparr>"
  have mid: "reservations_ok mid" "idents mid = idents s" "same_documents mid s"
    using assms(2) reservations_ok_same [of s mid] by (simp_all add: mid_def same_documents_def idents_def [abs_def])
  have "s' = mid \<or> post_movement (count_movement c admin i (ci_counted_quantity i - pd_stock_quantity p)) mid = Inr s'"
    using assms(1) p by (auto simp: post_counted_def Let_def mid_def split: if_splits)
  then show ?thesis
  proof
    assume post: "post_movement (count_movement c admin i (ci_counted_quantity i - pd_stock_quantity p)) mid = Inr s'"
    have "mv_reserved_delta (count_movement c admin i (ci_counted_quantity i - pd_stock_quantity p)) = 0"
      by (simp add: count_movement_def new_movement_def)
    from reservations_ok_post_other [OF mid(1) post this] show ?thesis
      using post_movement_idents [OF post] same_documents_trans [OF post_movement_documents [OF post] mid(3)] mid(2)
      by simp
  qed (use mid in simp)
qed

lemma post_count_ok:
  assumes "post_count db now i admin key = Inr db'" and "reservations_ok db"
  shows "reservations_ok db' \<and> idents db' = idents db \<and> same_documents db' db"
  using assms(1)
proof (rule post_count_Inr)
  assume "db' = db"
  with assms(2) show ?thesis by (simp add: same_documents_def)
next
  fix c mid
  assume loop: "for_each (post_counted c admin) (counted_items db i) db = Inr mid"
    and db': "db' = mid\<lparr>counts := put i (c\<lparr>ct_status := Posted, ct_posted_at := Some now,
        ct_posted_by_user_id := Some admin, ct_posted_idempotency_key :=
          (if truthy_key key then key else ct_posted_idempotency_key c)\<rparr>) (counts mid)\<rparr>"
  have "reservations_ok mid \<and> idents mid = idents db \<and> same_documents mid db"
    using loop
  proof (rule for_each_invariant)
    show "reservations_ok db \<and> idents db = idents db \<and> same_documents db db"
      using assms(2) by (simp add: same_documents_def)
  next
    fix x s s'
    assume "reservations_ok s \<and> idents s = idents db \<and> same_documents s db" and "post_counted c admin x s = Inr s'"
    with post_counted_ok [of c admin x s s'] show "reservations_ok s' \<and> idents s' = idents db \<and> same_documents s' db"
      by (auto intro: same_documents_trans)
  qed
  moreover have "reservations_ok db' = reservations_ok mid"
    using reservations_ok_same [of mid db'] reservations_ok_same [of db' mid] by (auto simp: db')
  ultimately show ?thesis by (simp add: db' same_documents_def idents_def [abs_def])
qed

lemma post_receipt_Inr:
  assumes "post_receipt db now i admin key = Inr db'"
  obtains "db' = db" and "\<exists>r. get (receipts db) i = Some r \<and> rc_status r = Posted"
  | r r' mid where "get (receipts db) i = Some r" and "rc_status r = Draft" and "lines_of db i \<noteq> []"
      and "post_lines r admin (lines_of db i) db = Inr mid"
      and "rc_status r' = Posted" and "rc_id r' = rc_id r" and "db' = mid\<lparr>receipts := put i r' (receipts mid)\<rparr>"
proof -
  obtain r where r: "get (receipts db) i = Some r"
    using assms by (auto simp: post_receipt_def get_receipt_def split: option.splits)
  show thesis
  proof (cases "rc_status r")
    case Posted
    with assms r have "db' = db" by (simp add: post_receipt_def get_receipt_def)
    with r Posted show thesis by (intro that(1)) simp_all
  next
    case Draft
    define r' where "r' = (bump_revision r)\<lparr>rc_status := Posted, rc_posted_at := Some now,
      rc_posted_by_user_id := Some admin,
      rc_posted_idempotency_key := (if truthy_key key then key else rc_posted_idempotency_key r)\<rparr>"
    have "lines_of db i \<noteq> []" using assms r Draft by (auto simp: post_receipt_def get_receipt_def)
    moreover obtain mid where "post_lines r admin (lines_of db i) db = Inr mid"
      and "db' = mid\<lparr>receipts := put i r' (receipts mid)\<rparr>"
      using assms r Draft
      by (auto simp: post_receipt_def get_receipt_def Let_def and_then_eq_Inr integrity_conflict_Inr r'_def
          simp del: truthy_key_def split: if_splits)
    ultimately show thesis using r Draft by (intro that(2) [of r mid r']) (simp_all add: r'_def bump_revision_def)
  qed
qed

lemma post_receipt_ok:
  assumes "post_receipt db now i admin key = Inr db'" and "warehouse_ok db"
  shows "warehouse_ok db' \<and> receipt_items db' = receipt_items db \<and> receipt_allocations db' = receipt_allocations db
    \<and> receipt_changes db' = receipt_changes db"
  using assms(1)
proof (rule post_receipt_Inr)
  fix r r' mid
  assume lines: "post_lines r admin (lines_of db i) db = Inr mid" and db': "db' = mid\<lparr>receipts := put i r' (receipts mid)\<rparr>"
  have rec: "receiving db [] mid"
    by (rule post_lines_receiving [OF lines]) (use assms(2) in \<open>simp_all add: warehouse_ok_def\<close>)
  then have "reservations_ok db'"
    using reservations_ok_same [OF receiving_done, of db mid db'] by (simp add: db')
  moreover have "books_ok db'"
    using post_receipt_books_ok [OF assms(1)] assms(2) allocations_ok_positive by (simp add: warehouse_ok_def)
  moreover have "allocations_ok db'"
    by (rule allocations_ok_same [of db])
      (use rec assms(2) in \<open>simp_all add: receiving_def same_documents_def db' idents_def [abs_def] warehouse_ok_def fun_eq_iff\<close>)
  ultimately show ?thesis
    using rec by (simp add: warehouse_ok_def receiving_def same_documents_def db')
qed (use assms(2) in simp)

section \<open>Edits of receipts\<close>

lemma allocations_ok_put_allocation:
  assumes "allocations_ok db" and "allocation_ok db a" and "al_id a = k"
  shows "allocations_ok (db\<lparr>receipt_allocations := put k a (receipt_allocations db)\<rparr>)"
proof -
  have "allocation_ok (db\<lparr>receipt_allocations := t\<rparr>) x = allocation_ok db x" for t x
    by (simp add: allocation_ok_def idents_def)
  with assms rows_put_subset [of k a "receipt_allocations db"] show ?thesis
    by (auto simp: allocations_ok_def has_id_put list_all_iff)
qed

lemma allocations_ok_put_line:
  assumes "allocations_ok db" and "ri_id l = k"
    and "\<And>old. get (receipt_items db) k = Some old \<Longrightarrow> ri_product_id old = ri_product_id l"
  shows "allocations_ok (db\<lparr>receipt_items := put k l (receipt_items db)\<rparr>)"
proof -
  have "allocation_ok (db\<lparr>receipt_items := put k l (receipt_items db)\<rparr>) a" if "allocation_ok db a" for a
    using that assms(3) by (auto simp: allocation_ok_def idents_def get_put split: option.splits if_splits)
  with assms(1,2) show ?thesis by (auto simp: allocations_ok_def has_id_put list_all_iff)
qed

lemma allocation_ok_frame:
  "receipt_items db' = receipt_items db \<Longrightarrow> order_items db' = order_items db \<Longrightarrow> allocation_ok db' a = allocation_ok db a"
  by (simp add: allocation_ok_def idents_def)

lemma upsert_line_ok:
  assumes run: "upsert_line db i product p = Inr (db', line)" and ok: "allocations_ok db"
  shows "allocations_ok db' \<and> order_items db' = order_items db \<and> orders db' = orders db
    \<and> movements db' = movements db \<and> receipts db' = receipts db \<and> receipt_changes db' = receipt_changes db
    \<and> (\<exists>l. get (receipt_items db') line = Some l \<and> ri_product_id l = product \<and> ri_receipt_id l = i)
    \<and> (\<forall>l. ri_receipt_id l \<noteq> i \<longrightarrow> (l \<in> set (rows (receipt_items db')) \<longleftrightarrow> l \<in> set (rows (receipt_items db))))"
proof -
  have id: "has_id ri_id (receipt_items db)" using ok by (simp add: allocations_ok_def)
  consider (new) "select_where (same_lot i product p) (receipt_items db) = []"
    | (old) l where "select_where (same_lot i product p) (receipt_items db) = [l]"
    using run by (auto simp: upsert_line_def split: list.splits)
  then show ?thesis
  proof cases
    case new
    define l where "l = \<lparr>ri_id = next_id (receipt_items db), ri_receipt_id = i, ri_product_id = product,
      ri_quantity = sp_quantity p, ri_purchase_unit_cost = sp_purchase_unit_cost p,
      ri_batch_number = sp_batch_number p, ri_expiration_date = sp_expiration_date p\<rparr>"
    have "db' = db\<lparr>receipt_items := put (ri_id l) l (receipt_items db)\<rparr>" "line = ri_id l"
      using run new by (auto simp: upsert_line_def l_def Let_def)
    moreover have "ri_id l = next_id (receipt_items db)" "ri_product_id l = product" "ri_receipt_id l = i"
      by (simp_all add: l_def)
    ultimately show ?thesis
      using allocations_ok_put_line [OF ok, of l] rows_put_iff [OF id, of l] by (auto dest: has_id_get [OF id] get_in_rows)
        (metis get_next_id id has_id_rows option.distinct(1))
  next
    case (old l)
    define l' where "l' = l\<lparr>ri_quantity := ri_quantity l + sp_quantity p\<rparr>"
    have db': "db' = db\<lparr>receipt_items := put (ri_id l) l' (receipt_items db)\<rparr>" "line = ri_id l"
      using run old by (auto simp: upsert_line_def l'_def)
    have "l \<in> set (select_where (same_lot i product p) (receipt_items db))" using old by simp
    then have l: "l \<in> set (rows (receipt_items db))" "ri_product_id l = product" "ri_receipt_id l = i"
      by (auto simp: select_where_def same_lot_def)
    then have row: "get (receipt_items db) (ri_id l) = Some l" using id by (simp add: has_id_rows)
    have l': "ri_id l' = ri_id l" "ri_product_id l' = product" "ri_receipt_id l' = i"
      using l by (simp_all add: l'_def)
    have "allocations_ok db'"
      unfolding db' by (rule allocations_ok_put_line [OF ok l'(1)]) (use row l l' in simp)
    moreover have "x \<in> set (rows (receipt_items db')) \<longleftrightarrow> x \<in> set (rows (receipt_items db))" if "ri_receipt_id x \<noteq> i" for x
    proof -
      have "x \<noteq> l'" "x \<noteq> l" using that l l' by auto
      moreover have "ri_id x = ri_id l \<longrightarrow> x \<notin> set (rows (receipt_items db))"
        using has_id_inj [OF id _ l(1)] \<open>x \<noteq> l\<close> by blast
      ultimately show ?thesis using rows_put_iff [OF id l'(1)] by (auto simp: db')
    qed
    ultimately show ?thesis using l' by (simp add: db')
  qed
qed

lemma upsert_allocation_fields:
  "order_items (upsert_allocation line a db) = order_items db" "orders (upsert_allocation line a db) = orders db"
  "movements (upsert_allocation line a db) = movements db" "receipt_items (upsert_allocation line a db) = receipt_items db"
  "receipts (upsert_allocation line a db) = receipts db"
  "receipt_changes (upsert_allocation line a db) = receipt_changes db"
  by (simp_all add: upsert_allocation_def split: option.split)

lemma upsert_allocation_allocations_ok:
  assumes ok: "allocations_ok db" and "0 < snd a" and l: "get (receipt_items db) line = Some l"
    and i: "idents db (fst a) = Some i" "snd (snd i) = ri_product_id l"
  shows "allocations_ok (upsert_allocation line a db)"
proof (cases "find (\<lambda>x. al_receipt_item_id x = line \<and> al_order_item_id x = fst a) (rows (receipt_allocations db))")
  case None
  let ?a = "\<lparr>al_id = next_id (receipt_allocations db), al_receipt_item_id = line, al_order_item_id = fst a,
    al_quantity = snd a\<rparr>"
  have "allocation_ok db ?a" using assms by (simp add: allocation_ok_def)
  with None allocations_ok_put_allocation [OF ok, of ?a] show ?thesis by (simp add: upsert_allocation_def)
next
  case (Some x)
  then have x: "x \<in> set (rows (receipt_allocations db))" by (auto simp: find_Some_iff)
  then have "allocation_ok db x" using ok by (auto simp: allocations_ok_def list_all_iff)
  then have "allocation_ok db (x\<lparr>al_quantity := al_quantity x + snd a\<rparr>)"
    using assms(2) by (auto simp: allocation_ok_def split: option.splits)
  with Some allocations_ok_put_allocation [OF ok] show ?thesis by (simp add: upsert_allocation_def)
qed

lemma fold_upsert_allocation_allocations_ok:
  assumes "allocations_ok db" and "get (receipt_items db) line = Some l"
    and "\<forall>a \<in> set as. 0 < snd a \<and> (\<exists>i. idents db (fst a) = Some i \<and> snd (snd i) = ri_product_id l)"
  shows "allocations_ok (fold (upsert_allocation line) as db)
    \<and> order_items (fold (upsert_allocation line) as db) = order_items db
    \<and> orders (fold (upsert_allocation line) as db) = orders db
    \<and> movements (fold (upsert_allocation line) as db) = movements db
    \<and> receipt_items (fold (upsert_allocation line) as db) = receipt_items db
    \<and> receipts (fold (upsert_allocation line) as db) = receipts db
    \<and> receipt_changes (fold (upsert_allocation line) as db) = receipt_changes db"
  using assms
proof (induction as arbitrary: db)
  case (Cons a as)
  have "allocations_ok (upsert_allocation line a db)"
    using Cons.prems by (auto intro!: upsert_allocation_allocations_ok [of db a line l])
  with Cons.IH [of "upsert_allocation line a db"] Cons.prems show ?case
    by (simp add: upsert_allocation_fields idents_def)
qed simp

lemma check_scan_Inr:
  assumes "check_scan db i p = Inr product" and "a \<in> set (sp_allocations p)"
  shows "0 < snd a \<and> (\<exists>x. idents db (fst a) = Some x \<and> snd (snd x) = pd_id product)"
proof -
  have run: "for_each (check_scan_allocation db i product) (sp_allocations p) () = Inr ()"
    using assms(1) by (auto simp: check_scan_def and_then_eq_Inr split: if_splits)
  have "for_each (check_scan_allocation db i product) as () = Inr () \<Longrightarrow> a \<in> set as \<Longrightarrow>
      0 < snd a \<and> (\<exists>x. idents db (fst a) = Some x \<and> snd (snd x) = pd_id product)" for as
    by (induction as)
      (auto simp: and_then_eq_Inr check_scan_allocation_def idents_def ident_def split: if_splits option.splits)
  with run assms(2) show ?thesis by blast
qed

lemma add_receipt_item_Inr:
  assumes "add_receipt_item db i key p = Inr db'"
  obtains "db' = db"
  | r product identity mid line where "get (receipts db) i = Some r" and "rc_status r = Draft"
      and "check_scan db i p = Inr product" and "upsert_line db (rc_id r) (pd_id product) p = Inr (mid, line)"
      and "db' = (record_request (rc_id r) key identity (fold (upsert_allocation line) (sp_allocations p) mid))
        \<lparr>receipts := put (rc_id r) (bump_revision r)
          (receipts (record_request (rc_id r) key identity (fold (upsert_allocation line) (sp_allocations p) mid)))\<rparr>"
proof -
  obtain r identity where receipt: "get_receipt db i = Inr r"
    and rest: "(case (case key of None \<Rightarrow> None | Some k \<Rightarrow> request_of_key db i k) of
       Some applied \<Rightarrow>
         if Some (rq_payload applied) \<noteq> identity
         then conflict ''Idempotency key is already in use for a different receipt item request''
         else Inr db
     | None \<Rightarrow>
         if rc_status r \<noteq> Draft then conflict ''Posted receipts cannot be edited''
         else and_then (check_scan db i p) (\<lambda>product. apply_scan db r (pd_id product) key identity p)) = Inr db'"
    using assms unfolding add_receipt_item_def and_then_eq_Inr by blast
  have r: "get (receipts db) i = Some r" using receipt by (simp add: get_receipt_def split: option.splits)
  show thesis
  proof (cases "case key of None \<Rightarrow> None | Some k \<Rightarrow> request_of_key db i k")
    case (Some applied)
    with rest have "db' = db" by (simp split: if_splits)
    then show thesis by (rule that(1))
  next
    case None
    with rest obtain product mid line where "rc_status r = Draft" "check_scan db i p = Inr product"
        "upsert_line db (rc_id r) (pd_id product) p = Inr (mid, line)"
        "db' = (record_request (rc_id r) key identity (fold (upsert_allocation line) (sp_allocations p) mid))
        \<lparr>receipts := put (rc_id r) (bump_revision r)
          (receipts (record_request (rc_id r) key identity (fold (upsert_allocation line) (sp_allocations p) mid)))\<rparr>"
      by (auto simp: and_then_eq_Inr apply_scan_def Let_def split: if_splits)
    with r show thesis by (rule that(2))
  qed
qed

lemma record_request_fields:
  "order_items (record_request i key identity db) = order_items db" "orders (record_request i key identity db) = orders db"
  "movements (record_request i key identity db) = movements db"
  "receipt_items (record_request i key identity db) = receipt_items db"
  "receipts (record_request i key identity db) = receipts db"
  "receipt_changes (record_request i key identity db) = receipt_changes db"
  by (simp_all add: record_request_def split: option.split)

lemma add_receipt_item_ok:
  assumes run: "add_receipt_item db i key p = Inr db'" and ok: "warehouse_ok db"
  shows "warehouse_ok db' \<and> idents db' = idents db"
  using run
proof (rule add_receipt_item_Inr)
  fix r product identity mid line
  assume check: "check_scan db i p = Inr product" and line: "upsert_line db (rc_id r) (pd_id product) p = Inr (mid, line)"
    and db': "db' = (record_request (rc_id r) key identity (fold (upsert_allocation line) (sp_allocations p) mid))
        \<lparr>receipts := put (rc_id r) (bump_revision r)
          (receipts (record_request (rc_id r) key identity (fold (upsert_allocation line) (sp_allocations p) mid)))\<rparr>"
  have allocs: "allocations_ok db" using ok by (simp add: warehouse_ok_def)
  obtain l where l: "get (receipt_items mid) line = Some l" "ri_product_id l = pd_id product"
    using upsert_line_ok [OF line allocs] by blast
  have "idents mid = idents db" using upsert_line_ok [OF line allocs] by (simp add: idents_def [abs_def])
  with check_scan_Inr [OF check] l
  have "\<forall>a \<in> set (sp_allocations p). 0 < snd a \<and> (\<exists>x. idents mid (fst a) = Some x \<and> snd (snd x) = ri_product_id l)"
    by simp
  note folded = fold_upsert_allocation_allocations_ok [OF _ l(1) this]
  have "allocations_ok db'"
    using folded upsert_line_ok [OF line allocs]
      allocations_ok_same [of "fold (upsert_allocation line) (sp_allocations p) mid" db']
    by (simp add: db' record_request_fields record_request_books_ok idents_def)
  moreover have "reservations_ok db'" and "idents db' = idents db"
    using folded upsert_line_ok [OF line allocs] ok reservations_ok_same [of db db']
    by (simp_all add: db' record_request_fields warehouse_ok_def idents_def [abs_def])
  ultimately show ?thesis
    using add_receipt_item_books_ok [OF run] ok allocations_ok_positive by (simp add: warehouse_ok_def)
qed (use ok in simp)


text \<open>Changes of receipt lines.\<close>

lemma mutate_receipt_Inr:
  assumes "mutate_receipt sha256 db n item_id payload actor key = Inr db'"
  obtains "db' = db"
  | r l mid applied where "get (receipts db) n = Some r"
      and "rc_status r = expected_status (cp_command (canonical_payload payload))"
      and "rc_revision r = cp_expected_revision payload" and "change_of_key db n key = None"
      and "find (\<lambda>i. ri_id i = item_id) (lines_of db n) = Some l"
      and "apply_command sha256 db n l (canonical_payload payload) actor key = Inr (mid, applied)"
      and "db' = record_change mid r item_id (canonical_payload payload) actor key applied"
proof -
  let ?p = "canonical_payload payload"
  have valid: "(strip key = [] \<or> length key > 128) = False"
    using assms by (auto simp: mutate_receipt_def)
  obtain r where receipt: "get_receipt db n = Inr r" and rest: "(case change_of_key db n key of
        Some prior \<Rightarrow> if rx_payload prior \<noteq> (item_id, ?p) then conflict ''receipt_idempotency_conflict'' else Inr db
      | None \<Rightarrow>
          if rc_revision r \<noteq> cp_expected_revision ?p then conflict ''receipt_revision_conflict''
          else if rc_status r \<noteq> expected_status (cp_command ?p)
          then conflict ''Use corrections for posted receipts; direct edits require a draft''
          else case find (\<lambda>i. ri_id i = item_id) (lines_of db n) of
                 None \<Rightarrow> not_found ''Receipt item not found in this receipt''
               | Some i \<Rightarrow>
                   and_then (apply_command sha256 db n i ?p actor key) (\<lambda>(db, applied).
                   Inr (record_change db r item_id ?p actor key applied))) = Inr db'"
    using assms unfolding mutate_receipt_def valid Let_def if_False and_then_eq_Inr by blast
  have r: "get (receipts db) n = Some r" using receipt by (simp add: get_receipt_def split: option.splits)
  show thesis
  proof (cases "change_of_key db n key")
    case (Some prior)
    with rest have "db' = db" by (simp split: if_splits)
    then show thesis by (rule that(1))
  next
    case None
    with rest obtain l where "find (\<lambda>i. ri_id i = item_id) (lines_of db n) = Some l"
      and "rc_status r = expected_status (cp_command ?p)" and "rc_revision r = cp_expected_revision ?p"
      and "and_then (apply_command sha256 db n l ?p actor key) (\<lambda>(db, applied).
                   Inr (record_change db r item_id ?p actor key applied)) = Inr db'"
      by (simp split: if_splits option.splits)
    with None r show thesis
      by (auto simp: and_then_eq_Inr canonical_payload_def intro: that(2))
  qed
qed

lemma find_line:
  assumes "has_id ri_id (receipt_items db)" and "find (\<lambda>i. ri_id i = k) (lines_of db n) = Some l"
  shows "get (receipt_items db) k = Some l" and "ri_id l = k" and "ri_receipt_id l = n"
proof -
  have "l \<in> set (lines_of db n)" "ri_id l = k" using assms(2) by (auto simp: find_Some_iff)
  then show "get (receipt_items db) k = Some l" "ri_id l = k" "ri_receipt_id l = n"
    using assms(1) by (auto simp: lines_of_def select_where_def dest: has_id_rows)
qed

lemma check_correction_Inr:
  assumes "check_correction db n i quantity cost = Inr p"
  shows "get (products db) (ri_product_id i) = Some p"
    and "quantity < ls_quantity (correction_base db i) \<Longrightarrow>
      ls_quantity (correction_base db i) - quantity \<le> available_quantity p"
proof -
  have check: "get (products db) (ri_product_id i) = Some p
      \<and> check_reduction db n (ri_id i) p (quantity - ls_quantity (correction_base db i)) = Inr ()"
    using assms by (auto simp: check_correction_def Let_def and_then_eq_Inr locked_product_Inr split: if_splits)
  then show "get (products db) (ri_product_id i) = Some p" by simp
  show "ls_quantity (correction_base db i) - quantity \<le> available_quantity p"
    if "quantity < ls_quantity (correction_base db i)"
    using check that by (auto simp: check_reduction_def split: if_splits)
qed

lemma recost_fields:
  "pd_id (recost db n k f (claim_cost db n p)) = pd_id p"
  "pd_stock_quantity (recost db n k f (claim_cost db n p)) = pd_stock_quantity p"
  "pd_reserved_quantity (recost db n k f (claim_cost db n p)) = pd_reserved_quantity p"
  by (simp_all add: recost_def claim_cost_def)

lemma apply_correction_Inr:
  assumes "apply_correction sha256 db n i quantity cost reason actor key = Inr (db', applied)"
  obtains p p' where "check_correction db n i quantity cost = Inr p"
    and "p' = recost db n (ri_id i) (quantity, cost) (claim_cost db n p)"
    and "ac_before applied = (correction_base db i)\<lparr>ls_product_cost := Some (product_cost_of p)\<rparr>"
    and "ac_after applied = Some ((correction_base db i)\<lparr>ls_quantity := quantity, ls_purchase_unit_cost := cost,
           ls_product_cost := Some (product_cost_of p')\<rparr>)"
    and "ac_stock_delta applied = quantity - ls_quantity (correction_base db i)"
    and "if quantity = ls_quantity (correction_base db i)
         then db' = db\<lparr>products := put (ri_product_id i) p' (products db)\<rparr>
         else post_movement (correction_movement sha256 n (pd_id p) (quantity - ls_quantity (correction_base db i))
                reason actor key) (db\<lparr>products := put (ri_product_id i) p' (products db)\<rparr>) = Inr db'"
proof -
  obtain p where p: "check_correction db n i quantity cost = Inr p"
    using assms by (auto simp: apply_correction_def and_then_eq_Inr)
  show thesis
    by (rule that [OF p refl])
      (use assms p in \<open>auto simp: apply_correction_def Let_def and_then_eq_Inr split: if_splits\<close>)
qed

lemma correction_movement_fields:
  "mv_reserved_delta (correction_movement sha256 n i d reason actor key) = 0"
  "mv_on_hand_delta (correction_movement sha256 n i d reason actor key) = d"
  "mv_product_id (correction_movement sha256 n i d reason actor key) = i"
  "mv_receipt_id (correction_movement sha256 n i d reason actor key) = Some n"
  by (simp_all add: correction_movement_def new_movement_def)

lemma apply_correction_ok:
  assumes run: "apply_correction sha256 db n i quantity cost reason actor key = Inr (db', applied)"
    and ok: "warehouse_ok db"
  shows "warehouse_ok db' \<and> order_items db' = order_items db \<and> same_documents db' db"
  using run
proof (rule apply_correction_Inr)
  fix p p'
  assume check: "check_correction db n i quantity cost = Inr p"
    and p': "p' = recost db n (ri_id i) (quantity, cost) (claim_cost db n p)"
    and move: "if quantity = ls_quantity (correction_base db i)
         then db' = db\<lparr>products := put (ri_product_id i) p' (products db)\<rparr>
         else post_movement (correction_movement sha256 n (pd_id p) (quantity - ls_quantity (correction_base db i))
                reason actor key) (db\<lparr>products := put (ri_product_id i) p' (products db)\<rparr>) = Inr db'"
  let ?mid = "db\<lparr>products := put (ri_product_id i) p' (products db)\<rparr>"
  let ?delta = "quantity - ls_quantity (correction_base db i)"
  note p = check_correction_Inr(1) [OF check]
  have books: "books_ok db" using ok by (simp add: warehouse_ok_def)
  have "books_ok ?mid"
    using books books_ok_put_product [OF p, of p'] by (simp add: p' recost_fields)
  then have mid: "warehouse_ok ?mid"
    by (intro warehouse_ok_quiet [OF ok]) (simp_all add: quiet_def)
  show ?thesis
  proof (cases "?delta = 0")
    case True
    with move mid show ?thesis by (simp add: same_documents_def)
  next
    case False
    with move have post: "post_movement (correction_movement sha256 n (pd_id p) ?delta reason actor key) ?mid = Inr db'"
      by simp
    have room: "pd_reserved_quantity p \<le> pd_stock_quantity p + ?delta"
      using check_correction_Inr(2) [OF check] books_okD(5) [OF books p]
      by (cases "quantity < ls_quantity (correction_base db i)") (simp_all add: available_quantity_def)
    have "books_ok db'"
      by (rule post_movement_books_ok [OF post \<open>books_ok ?mid\<close>])
        (use books_okD(1,4) [OF books p] room in \<open>auto simp: correction_movement_fields p' recost_fields\<close>)
    moreover have "reservations_ok db'"
      using mid by (intro reservations_ok_post_other [OF _ post]) (simp_all add: warehouse_ok_def correction_movement_fields)
    moreover have "allocations_ok db'"
      by (rule allocations_ok_same [of ?mid])
        (use mid post_movement_idents [OF post] in \<open>simp_all add: warehouse_ok_def post_movement_frame [OF post]\<close>)
    ultimately show ?thesis
      using post_movement_documents [OF post]
      by (simp add: warehouse_ok_def same_documents_def post_movement_frame [OF post])
  qed
qed

lemma has_id_delete_where:
  assumes "has_id f t"
  shows "has_id f (delete_where p t)"
proof -
  have ok: "table_ok (delete_where p t)"
    using assms by (simp add: has_id_def table_ok_def ids_def delete_where_def distinct_map_filter)
  have "f r = k" if "get (delete_where p t) k = Some r" for k r
  proof -
    have "(k, r) \<in> set t" using map_of_SomeD [OF that] by (simp add: delete_where_def)
    then have "get t k = Some r"
      using assms by (intro map_of_is_SomeI) (simp_all add: has_id_def table_ok_def ids_def)
    with assms show ?thesis by (rule has_id_get)
  qed
  with ok show ?thesis by (simp add: has_id_def)
qed

lemma rows_delete_where: "rows (delete_where p t) = filter (\<lambda>r. \<not> p r) (rows t)"
  by (induction t) (auto simp: delete_where_def rows_def)

lemma delete_line_ok:
  assumes "delete_line db l = (db', applied)" and ok: "warehouse_ok db"
  shows "warehouse_ok db' \<and> order_items db' = order_items db \<and> orders db' = orders db \<and> movements db' = movements db
    \<and> receipts db' = receipts db \<and> receipt_changes db' = receipt_changes db
    \<and> receipt_items db' = delete_where (\<lambda>x. ri_id x = ri_id l) (receipt_items db)"
proof -
  have db': "db' = db\<lparr>receipt_items := delete_where (\<lambda>x. ri_id x = ri_id l) (receipt_items db),
         receipt_allocations := delete_where (\<lambda>a. al_receipt_item_id a = ri_id l) (receipt_allocations db)\<rparr>"
    using assms(1) by (simp add: delete_line_def)
  have allocs: "allocations_ok db" using ok by (simp add: warehouse_ok_def)
  then have id: "has_id ri_id (receipt_items db)" by (simp add: allocations_ok_def)
  have keep: "get (receipt_items db') k = Some x" if "get (receipt_items db) k = Some x" "k \<noteq> ri_id l" for k x
  proof -
    have "ri_id x = k" "x \<in> set (rows (receipt_items db))" using that id by (auto dest: has_id_get get_in_rows)
    then have "x \<in> set (rows (receipt_items db'))" using that(2) by (simp add: db' rows_delete_where)
    then have "get (receipt_items db') (ri_id x) = Some x"
      by (simp add: db' has_id_rows [OF has_id_delete_where [OF id]])
    with \<open>ri_id x = k\<close> show ?thesis by simp
  qed
  have "allocation_ok db' a" if "allocation_ok db a" "al_receipt_item_id a \<noteq> ri_id l" for a
    using that keep [of "al_receipt_item_id a"] by (auto simp: allocation_ok_def db' idents_def split: option.splits)
  then have "allocations_ok db'"
    using allocs by (simp add: allocations_ok_def db' has_id_delete_where rows_delete_where list_all_iff)
  moreover have "reservations_ok db'"
    using ok reservations_ok_same [of db db'] by (simp add: warehouse_ok_def db')
  ultimately show ?thesis using ok by (simp add: warehouse_ok_def db')
qed

lemma check_replacements_Inr:
  assumes "for_each (check_replacement db n l) as () = Inr ()" and "a \<in> set as"
  shows "\<exists>i. idents db (fst a) = Some i \<and> snd (snd i) = ri_product_id l"
  using assms
  by (induction as)
    (auto simp: and_then_eq_Inr check_replacement_def idents_def ident_def split: option.splits if_splits)

lemma add_allocation_fields:
  "order_items (add_allocation line a db) = order_items db" "orders (add_allocation line a db) = orders db"
  "movements (add_allocation line a db) = movements db" "receipt_items (add_allocation line a db) = receipt_items db"
  "receipts (add_allocation line a db) = receipts db" "products (add_allocation line a db) = products db"
  "receipt_changes (add_allocation line a db) = receipt_changes db"
  by (simp_all add: add_allocation_def)

lemma fold_add_allocation_ok:
  assumes "allocations_ok db" and "get (receipt_items db) line = Some l"
    and "\<forall>a \<in> set as. 0 < snd a \<and> (\<exists>i. idents db (fst a) = Some i \<and> snd (snd i) = ri_product_id l)"
  shows "allocations_ok (fold (add_allocation line) as db)
    \<and> order_items (fold (add_allocation line) as db) = order_items db
    \<and> orders (fold (add_allocation line) as db) = orders db
    \<and> movements (fold (add_allocation line) as db) = movements db
    \<and> products (fold (add_allocation line) as db) = products db
    \<and> receipt_items (fold (add_allocation line) as db) = receipt_items db
    \<and> receipts (fold (add_allocation line) as db) = receipts db
    \<and> receipt_changes (fold (add_allocation line) as db) = receipt_changes db"
  using assms
proof (induction as arbitrary: db)
  case (Cons a as)
  have "allocations_ok (add_allocation line a db)"
    unfolding add_allocation_def
    by (rule allocations_ok_put_allocation) (use Cons.prems in \<open>auto simp: allocation_ok_def\<close>)
  with Cons.IH [of "add_allocation line a db"] Cons.prems show ?case
    by (simp add: add_allocation_fields idents_def)
qed simp

lemma update_line_ok:
  assumes run: "update_line db n l quantity cost as = Inr (db', applied)" and ok: "warehouse_ok db"
    and row: "get (receipt_items db) (ri_id l) = Some l" and "\<forall>a \<in> set as. 0 < snd a"
  shows "warehouse_ok db' \<and> order_items db' = order_items db \<and> orders db' = orders db \<and> movements db' = movements db
    \<and> receipts db' = receipts db \<and> receipt_changes db' = receipt_changes db
    \<and> receipt_items db' = put (ri_id l) (l\<lparr>ri_quantity := quantity, ri_purchase_unit_cost := cost\<rparr>) (receipt_items db)"
proof -
  define l' where "l' = l\<lparr>ri_quantity := quantity, ri_purchase_unit_cost := cost\<rparr>"
  define mid where "mid = db\<lparr>receipt_items := put (ri_id l) l' (receipt_items db),
      receipt_allocations := delete_where (\<lambda>a. al_receipt_item_id a = ri_id l) (receipt_allocations db)\<rparr>"
  have check: "for_each (check_replacement db n l) as () = Inr ()"
    and db': "db' = fold (add_allocation (ri_id l)) as mid"
    using run by (auto simp: update_line_def check_update_def and_then_eq_Inr Let_def mid_def l'_def split: if_splits)
  have allocs: "allocations_ok db" using ok by (simp add: warehouse_ok_def)
  have l': "ri_id l' = ri_id l" "ri_product_id l' = ri_product_id l" by (simp_all add: l'_def)
  have "allocations_ok (db\<lparr>receipt_items := put (ri_id l) l' (receipt_items db)\<rparr>)"
    by (rule allocations_ok_put_line [OF allocs l'(1)]) (use row l' in simp)
  then have mid: "allocations_ok mid"
    by (auto simp: allocations_ok_def mid_def has_id_delete_where rows_delete_where list_all_iff allocation_ok_def idents_def)
  have "get (receipt_items mid) (ri_id l) = Some l'" by (simp add: mid_def)
  moreover have "\<forall>a \<in> set as. 0 < snd a \<and> (\<exists>i. idents mid (fst a) = Some i \<and> snd (snd i) = ri_product_id l')"
    using check_replacements_Inr [OF check] assms(4) by (simp add: mid_def idents_def l')
  ultimately have folded: "allocations_ok db' \<and> order_items db' = order_items mid \<and> orders db' = orders mid
    \<and> movements db' = movements mid \<and> products db' = products mid \<and> receipt_items db' = receipt_items mid
    \<and> receipts db' = receipts mid \<and> receipt_changes db' = receipt_changes mid"
    using fold_add_allocation_ok [OF mid] unfolding db' by blast
  then have "reservations_ok db'"
    using ok reservations_ok_same [of db db'] by (simp add: warehouse_ok_def mid_def)
  moreover have "books_ok db'"
    using ok folded books_ok_frame [of db' db] by (simp add: warehouse_ok_def mid_def balances_def)
  ultimately show ?thesis using folded by (simp add: warehouse_ok_def mid_def l'_def)
qed

lemma record_change_fields:
  "products (record_change db r k p actor key x) = products db" "order_items (record_change db r k p actor key x) = order_items db"
  "orders (record_change db r k p actor key x) = orders db" "movements (record_change db r k p actor key x) = movements db"
  "receipt_items (record_change db r k p actor key x) = receipt_items db"
  "receipt_allocations (record_change db r k p actor key x) = receipt_allocations db"
  by (simp_all add: record_change_def Let_def)

lemma record_change_ok: "warehouse_ok db \<Longrightarrow> warehouse_ok (record_change db r k p actor key x)"
  using reservations_ok_same [of db "record_change db r k p actor key x"]
    allocations_ok_same [of db "record_change db r k p actor key x"]
    books_ok_frame [of "record_change db r k p actor key x" db]
  by (simp add: warehouse_ok_def record_change_fields balances_def idents_def)

lemma apply_command_ok:
  assumes run: "apply_command sha256 db n l payload actor key = Inr (db', applied)" and ok: "warehouse_ok db"
    and row: "get (receipt_items db) (ri_id l) = Some l"
    and positive: "\<And>quantity cost as a. cp_command payload = Draft_update quantity cost as \<Longrightarrow> a \<in> set as \<Longrightarrow> 0 < snd a"
  shows "warehouse_ok db' \<and> order_items db' = order_items db"
proof (cases "cp_command payload")
  case (Draft_update quantity cost as)
  have "\<forall>a \<in> set as. 0 < snd a" using positive [OF Draft_update] by blast
  with run Draft_update show ?thesis
    using update_line_ok [OF _ ok row] by (auto simp: apply_command_def and_then_eq_Inr)
next
  case Draft_delete
  with run show ?thesis using delete_line_ok [OF _ ok] by (auto simp: apply_command_def and_then_eq_Inr)
next
  case (Posted_correction quantity cost)
  with run show ?thesis using apply_correction_ok [OF _ ok] by (auto simp: apply_command_def)
qed

text \<open>What a valid payload says of the allocations it carries.\<close>

lemma canonical_allocations_positive:
  assumes "payload_valid payload" and "cp_command (canonical_payload payload) = Draft_update quantity cost as"
    and "a \<in> set as"
  shows "0 < snd a"
proof (cases "cp_command payload")
  case (Draft_update q c bs)
  then have "as = sort_key fst bs" using assms(2) by (simp add: canonical_payload_def canonical_command_def)
  with assms(1,3) Draft_update show ?thesis
    by (force simp: payload_valid_def command_valid_def list_all_iff)
qed (use assms(2) in \<open>simp_all add: canonical_payload_def canonical_command_def\<close>)

lemma change_receipt_item_ok:
  assumes "change_receipt_item sha256 db n item_id payload actor key = Inr db'" and ok: "warehouse_ok db"
  shows "warehouse_ok db' \<and> order_items db' = order_items db"
proof -
  have valid: "payload_valid payload" and run: "mutate_receipt sha256 db n item_id payload actor key = Inr db'"
    using assms(1) by (auto simp: change_receipt_item_def split: if_splits)
  from run show ?thesis
  proof (rule mutate_receipt_Inr)
    fix r l mid applied
    assume l: "find (\<lambda>i. ri_id i = item_id) (lines_of db n) = Some l"
      and command: "apply_command sha256 db n l (canonical_payload payload) actor key = Inr (mid, applied)"
      and db': "db' = record_change mid r item_id (canonical_payload payload) actor key applied"
    have "has_id ri_id (receipt_items db)" using ok by (simp add: warehouse_ok_def allocations_ok_def)
    from find_line [OF this l] have row: "get (receipt_items db) (ri_id l) = Some l" by simp
    from apply_command_ok [OF command ok row canonical_allocations_positive [OF valid]] show ?thesis
      by (simp add: db' record_change_ok record_change_fields)
  qed (use ok in simp)
qed

end
