(* ===== verification/Journal.thy ===== *)
theory Journal
  imports Stock
begin

text \<open>
  The ledger as a journal: no operation of the shop changes or removes an entry, every one only appends.
  The inventory's operations touch neither orders nor promotions; a checkout adds one order and a status
  change rewrites one.
\<close>

section \<open>Appending\<close>

definition appended :: "warehouse \<Rightarrow> warehouse \<Rightarrow> bool" where
  "appended db db' \<longleftrightarrow> (\<exists>ms. rows (movements db') = rows (movements db) @ ms) \<and> shop_promotions db' = shop_promotions db"

definition journal :: "warehouse \<Rightarrow> warehouse \<Rightarrow> bool" where
  "journal db db' \<longleftrightarrow> appended db db' \<and> orders db' = orders db"

lemma appended_trans: "appended s t \<Longrightarrow> appended t u \<Longrightarrow> appended s u"
  by (auto simp: appended_def)

lemma journal_trans: "journal s t \<Longrightarrow> journal t u \<Longrightarrow> journal s u"
  by (auto simp: journal_def intro: appended_trans)

lemma journal_same:
  "movements t = movements s \<Longrightarrow> orders t = orders s \<Longrightarrow> shop_promotions t = shop_promotions s \<Longrightarrow> journal s t"
  by (simp add: journal_def appended_def)

lemma appended_refl [simp]: "appended s s" and journal_refl [simp]: "journal s s"
  by (simp_all add: journal_def appended_def)

text \<open>Changes of other tables before and after.\<close>

lemma journal_frame [simp]:
  "journal s (t\<lparr>products := t0\<rparr>) = journal s t" "journal s (t\<lparr>order_items := t1\<rparr>) = journal s t"
  "journal s (t\<lparr>receipts := t2\<rparr>) = journal s t" "journal s (t\<lparr>receipt_items := t3\<rparr>) = journal s t"
  "journal s (t\<lparr>receipt_allocations := t4\<rparr>) = journal s t" "journal s (t\<lparr>item_requests := t5\<rparr>) = journal s t"
  "journal s (t\<lparr>counts := t6\<rparr>) = journal s t" "journal s (t\<lparr>count_items := t7\<rparr>) = journal s t"
  "journal s (t\<lparr>receipt_changes := t8\<rparr>) = journal s t" "journal s (t\<lparr>intents := t9\<rparr>) = journal s t"
  by (simp_all add: journal_def appended_def)

lemma journal_frame_from [simp]:
  "journal (s\<lparr>products := t0\<rparr>) t = journal s t" "journal (s\<lparr>order_items := t1\<rparr>) t = journal s t"
  "journal (s\<lparr>count_items := t2\<rparr>) t = journal s t" "journal (s\<lparr>intents := t3\<rparr>) t = journal s t"
  by (simp_all add: journal_def appended_def)

lemma journal_post: "post_movement m s = Inr t \<Longrightarrow> journal s t"
  by (auto elim!: post_movement_Inr simp: journal_def appended_def rows_put_next)

lemma journal_loop:
  assumes "for_each body xs s = Inr t" and "\<And>x u v. body x u = Inr v \<Longrightarrow> journal u v"
  shows "journal s t"
  by (rule for_each_invariant [where I = "journal s", OF assms(1)])
    (use assms(2) in \<open>auto intro: journal_trans\<close>)

lemma journal_fold: "(\<And>x u. journal u (f x u)) \<Longrightarrow> journal s (fold f xs s)"
  by (induction xs arbitrary: s) (auto intro: journal_trans)

section \<open>The inventory's operations\<close>

lemma update_product_settings_journal:
  "update_product_settings db i barcode b admin = Inr (db', p) \<Longrightarrow> journal db db'"
  by (auto simp: update_product_settings_def and_then_eq_Inr Let_def split: if_splits)

lemma bind_barcode_journal: "bind_barcode db i barcode admin = Inr (db', p) \<Longrightarrow> journal db db'"
  by (auto simp: bind_barcode_def and_then_eq_Inr Let_def split: if_splits)

lemma create_product_card_journal: "create_product_card validate db key request = Inr (db', p) \<Longrightarrow> journal db db'"
  by (auto simp: create_product_card_def require_matching_eq and_then_eq_Inr Let_def split: if_splits option.splits)

lemma create_receipt_journal: "create_receipt db key request = Inr (db', r) \<Longrightarrow> journal db db'"
  by (auto simp: create_receipt_def require_matching_eq Let_def split: if_splits option.splits)

lemma create_count_journal: "create_count db key reason = Inr (db', c) \<Longrightarrow> journal db db'"
  by (auto simp: create_count_def require_matching_eq Let_def split: if_splits option.splits)

lemma set_count_item_journal: "set_count_item db i product barcode quantity = Inr db' \<Longrightarrow> journal db db'"
  by (auto simp: set_count_item_def and_then_eq_Inr split: if_splits option.splits)

lemma mark_one_ordered_journal: "mark_one_ordered i s = Inr s' \<Longrightarrow> journal s s'"
  by (auto simp: mark_one_ordered_def split: option.splits if_splits)

lemma mark_ordered_journal: "mark_ordered db items = Inr db' \<Longrightarrow> journal db db'"
  by (auto simp: mark_ordered_def split: if_splits dest: journal_loop [OF _ mark_one_ordered_journal])

lemma manual_operation_journal: "manual_operation allowed db key q = Inr (db', m) \<Longrightarrow> journal db db'"
  by (drule manual_operation_cases) (auto intro: journal_post)

lemma upsert_line_journal: "upsert_line db n i p = Inr (db', line) \<Longrightarrow> journal db db'"
  by (auto simp: upsert_line_def Let_def split: list.splits)

lemma upsert_allocation_journal: "journal db (upsert_allocation line a db)"
  by (simp add: upsert_allocation_def Let_def split: option.split)

lemma record_request_journal: "journal db (record_request i key identity db)"
  by (simp add: record_request_def split: option.split)

lemma add_receipt_item_journal:
  assumes "add_receipt_item db i key p = Inr db'"
  shows "journal db db'"
  using assms
proof (rule add_receipt_item_Inr)
  fix r product identity mid line
  assume line: "upsert_line db (rc_id r) (pd_id product) p = Inr (mid, line)"
    and db': "db' = (record_request (rc_id r) key identity (fold (upsert_allocation line) (sp_allocations p) mid))
        \<lparr>receipts := put (rc_id r) (bump_revision r)
          (receipts (record_request (rc_id r) key identity (fold (upsert_allocation line) (sp_allocations p) mid)))\<rparr>"
  have "journal mid (fold (upsert_allocation line) (sp_allocations p) mid)"
    by (rule journal_fold) (rule upsert_allocation_journal)
  with upsert_line_journal [OF line] show ?thesis
    by (auto simp: db' intro: journal_trans record_request_journal)
qed simp

lemma post_allocation_journal: "post_allocation r admin i a db = Inr db' \<Longrightarrow> journal db db'"
  by (auto simp: post_allocation_def dest!: journal_post split: option.splits)

lemma post_line_journal: "post_line r admin i db = Inr db' \<Longrightarrow> journal db db'"
  by (auto simp: post_line_def and_then_eq_Inr
      dest!: journal_post journal_loop [OF _ post_allocation_journal] intro: journal_trans)

lemma post_receipt_journal:
  assumes "post_receipt db now i admin key = Inr db'"
  shows "journal db db'"
  using assms
proof (rule post_receipt_Inr)
  fix r r' mid
  assume lines: "post_lines r admin (lines_of db i) db = Inr mid" and db': "db' = mid\<lparr>receipts := put i r' (receipts mid)\<rparr>"
  let ?s = "fold (set_purchase_cost r (lines_of db i)) (sort (remdups (map ri_product_id (lines_of db i)))) db"
  have "journal db ?s"
    by (rule journal_fold) (simp add: set_purchase_cost_def split: option.split)
  moreover have "for_each (post_line r admin) (lines_of db i) ?s = Inr mid"
    using lines by (auto simp: post_lines_def and_then_eq_Inr Let_def)
  from journal_loop [OF this post_line_journal] have "journal ?s mid" .
  ultimately show ?thesis by (auto simp: db' intro: journal_trans)
qed simp

lemma post_counted_journal: "post_counted c admin x s = Inr s' \<Longrightarrow> journal s s'"
  by (auto simp: post_counted_def Let_def dest!: journal_post split: option.splits if_splits)

lemma post_count_journal: "post_count db now i admin key = Inr db' \<Longrightarrow> journal db db'"
  by (auto simp: post_count_def get_count_def Let_def and_then_eq_Inr integrity_conflict_Inr
      dest!: journal_loop [OF _ post_counted_journal] split: option.splits if_splits)

lemma apply_correction_journal:
  assumes "apply_correction sha256 db n i quantity cost reason actor key = Inr (db', applied)"
  shows "journal db db'"
  by (rule apply_correction_Inr [OF assms]) (auto dest!: journal_post split: if_splits)

lemma update_line_journal:
  assumes "update_line db n l quantity cost as = Inr (db', applied)"
  shows "journal db db'"
proof -
  obtain t1 t2 where "db' = fold (add_allocation (ri_id l)) as (db\<lparr>receipt_items := t1, receipt_allocations := t2\<rparr>)"
    using assms by (auto simp: update_line_def and_then_eq_Inr Let_def split: if_splits)
  moreover have "journal s (fold (add_allocation (ri_id l)) as s)" for s
    by (rule journal_fold) (simp add: add_allocation_def)
  moreover have "journal db (db\<lparr>receipt_items := t1, receipt_allocations := t2\<rparr>)" by simp
  ultimately show ?thesis by (metis journal_trans)
qed

lemma change_receipt_item_journal:
  assumes "change_receipt_item sha256 db n item_id payload actor key = Inr db'"
  shows "journal db db'"
proof -
  have "mutate_receipt sha256 db n item_id payload actor key = Inr db'"
    using assms by (simp add: change_receipt_item_def split: if_splits)
  then show ?thesis
  proof (rule mutate_receipt_Inr)
    fix r l mid applied
    assume command: "apply_command sha256 db n l (canonical_payload payload) actor key = Inr (mid, applied)"
      and db': "db' = record_change mid r item_id (canonical_payload payload) actor key applied"
    have "journal db mid"
    proof (cases "cp_command (canonical_payload payload)")
      case (Draft_update quantity cost as)
      with command show ?thesis by (auto simp: apply_command_def and_then_eq_Inr dest!: update_line_journal)
    next
      case Draft_delete
      with command show ?thesis by (auto simp: apply_command_def and_then_eq_Inr delete_line_def)
    next
      case (Posted_correction quantity cost)
      with command show ?thesis by (auto simp: apply_command_def dest!: apply_correction_journal)
    qed
    then show ?thesis by (simp add: db' record_change_def Let_def)
  qed simp
qed

end
