(* ===== verification/Shop.thy ===== *)
theory Shop
  imports Journal
begin

text \<open>
  The shop as a transition system. A step is one successful call of a service of
  \<^verbatim>\<open>app/services/inventory.py\<close>, \<^verbatim>\<open>inventory_receipt_changes.py\<close> or
  \<^verbatim>\<open>order.py\<close>; a call that raises changes nothing. The properties hold in every state
  that calls can reach from an opening stock of zero.
\<close>

section \<open>Steps\<close>

inductive stock_step :: "warehouse \<Rightarrow> warehouse \<Rightarrow> bool" where
  settings: "update_product_settings db i barcode backorder admin = Inr (db', p) \<Longrightarrow> stock_step db db'"
| bind: "bind_barcode db i code admin = Inr (db', p) \<Longrightarrow> stock_step db db'"
| card: "create_product_card validate db ckey request = Inr (db', p) \<Longrightarrow> stock_step db db'"
| procure: "mark_ordered db lines = Inr db' \<Longrightarrow> stock_step db db'"
| new_receipt: "create_receipt db key what = Inr (db', r) \<Longrightarrow> stock_step db db'"
| scan: "add_receipt_item db i key payload = Inr db' \<Longrightarrow> stock_step db db'"
| post_receipt: "post_receipt db now i admin key = Inr db' \<Longrightarrow> stock_step db db'"
| change: "change_receipt_item sha256 db i line_id change admin ckey = Inr db' \<Longrightarrow> stock_step db db'"
| manual: "manual_operation allowed db key q = Inr (db', m) \<Longrightarrow> stock_step db db'"
| new_count: "create_count db key reason = Inr (db', c) \<Longrightarrow> stock_step db db'"
| count_item: "set_count_item db i product barcode quantity = Inr db' \<Longrightarrow> stock_step db db'"
| post_count: "post_count db now i admin key = Inr db' \<Longrightarrow> stock_step db db'"
| checkout: "create_order rules z now db cats basket customer key pos simulation = Inr (db', ord) \<Longrightarrow> stock_step db db'"
| status: "update_status gates db i new_status admin handover = Inr (db', ord) \<Longrightarrow> stock_step db db'"

definition opening_state :: "product table \<Rightarrow> warehouse" where
  "opening_state ps = empty_warehouse\<lparr>products := ps\<rparr>"

definition opening_ok :: "product table \<Rightarrow> bool" where
  "opening_ok ps \<longleftrightarrow> table_ok ps
     \<and> list_all (\<lambda>(k, p). pd_id p = k \<and> pd_stock_quantity p = 0 \<and> pd_reserved_quantity p = 0) ps"

lemma opening_warehouse_ok:
  assumes "opening_ok ps"
  shows "warehouse_ok (opening_state ps)"
proof -
  have "pd_id p = i \<and> pd_stock_quantity p = 0 \<and> pd_reserved_quantity p = 0" if "get ps i = Some p" for i p
    using assms map_of_SomeD [OF that] by (auto simp: opening_ok_def list_all_iff)
  then have "account_ok (opening_state ps) i" for i
    by (simp add: account_ok_def opening_state_def empty_warehouse_def posted_def split: option.split)
  then have "books_ok (opening_state ps)"
    by (simp add: books_ok_iff) (simp add: opening_state_def empty_warehouse_def)
  moreover have "reservations_ok (opening_state ps)"
    by (simp add: reservations_ok_def claims_ok_def lines_ok_def opening_state_def empty_warehouse_def has_id_def idents_def)
  moreover have "allocations_ok (opening_state ps)"
    by (simp add: allocations_ok_def opening_state_def empty_warehouse_def has_id_def)
  ultimately show ?thesis by (simp add: warehouse_ok_def)
qed

lemma run_checkout_Inr:
  assumes "run_checkout rules z now s cats payload customer pos simulation k = Inr (db', r)"
  obtains mid phone prices u where "distinct (map fst (ck_items payload))"
    and "check_order_lines s cats pos customer (ck_items payload) = Inr u"
    and "price_products z s (category_parents cats) (ck_promo_code payload) phone customer True now
      (List.map_filter (get (products s)) (sort (map fst (ck_items payload)))) = Inr prices"
    and "place_order s payload phone customer pos simulation (the \<circ> map_of prices) = Inr (mid, r)"
    and "\<exists>u. db' = mid\<lparr>intents := u\<rparr>"
proof -
  obtain phone prices x u where check: "check_order_lines s cats pos customer (ck_items payload) = Inr u"
    and priced: "price_products z s (category_parents cats) (ck_promo_code payload) phone customer True now
      (List.map_filter (get (products s)) (sort (map fst (ck_items payload)))) = Inr prices"
    and place: "place_order s payload phone customer pos simulation (the \<circ> map_of prices) = Inr x"
    and result: "(case k of None \<Rightarrow> Inr (fst x, snd x)
        | Some k \<Rightarrow> Inr ((fst x)\<lparr>intents := AList.update k (canonical_checkout_payload payload, Some (od_id (snd x)))
            (intents (fst x))\<rparr>, snd x)) = (Inr (db', r) :: (warehouse \<times> order) result)"
    using assms unfolding run_checkout_def and_then_eq_Inr split_def by blast
  obtain mid ord where x: "x = (mid, ord)" by (cases x)
  have last: "(case k of None \<Rightarrow> Inr (mid, ord)
        | Some k \<Rightarrow> Inr (mid\<lparr>intents := AList.update k (canonical_checkout_payload payload, Some (od_id ord))
            (intents mid)\<rparr>, ord)) = (Inr (db', r) :: (warehouse \<times> order) result)"
    using result by (simp only: x fst_conv snd_conv)
  have "distinct (map fst (ck_items payload))"
    using check by (auto simp: check_order_lines_def Let_def split: if_splits)
  moreover have "ord = r" using last by (simp split: option.splits)
  moreover have "\<exists>u. db' = mid\<lparr>intents := u\<rparr>"
  proof (cases k)
    case None
    then have "db' = mid\<lparr>intents := intents mid\<rparr>" using last by simp
    then show ?thesis by blast
  next
    case (Some key)
    then show ?thesis using last by auto
  qed
  ultimately show thesis using check place priced by (intro that [of u phone prices mid]) (simp_all add: x)
qed

lemma create_order_Inr:
  assumes "create_order rules z now db cats payload customer key pos simulation = Inr (db', r)"
  obtains "\<exists>t. db' = db\<lparr>intents := t\<rparr>"
  | s t mid phone prices u where "s = db\<lparr>intents := t\<rparr>" and "distinct (map fst (ck_items payload))"
      and "check_order_lines s cats pos customer (ck_items payload) = Inr u"
      and "price_products z s (category_parents cats) (ck_promo_code payload) phone customer True now
        (List.map_filter (get (products s)) (sort (map fst (ck_items payload)))) = Inr prices"
      and "place_order s payload phone customer pos simulation (the \<circ> map_of prices) = Inr (mid, r)"
      and "\<exists>u. db' = mid\<lparr>intents := u\<rparr>"
proof -
  obtain s k known where begin_run: "begin_checkout rules db payload customer key = Inr (s, k, known)"
    and rest: "(case known of
       Some order_id \<Rightarrow> (case get (orders s) order_id of None \<Rightarrow> Inl NoResultFound | Some ord \<Rightarrow> Inr (s, ord))
     | None \<Rightarrow> run_checkout rules z now s cats payload customer pos simulation k) = Inr (db', r)"
    using assms unfolding create_order_def and_then_eq_Inr by auto
  have "\<exists>t. s = db\<lparr>intents := t\<rparr>"
  proof -
    have "s = db\<lparr>intents := intents db\<rparr> \<or> (\<exists>t. s = db\<lparr>intents := t\<rparr>)"
      using begin_run
      by (auto simp: begin_checkout_def and_then_eq_Inr claim_intent_def split: option.splits if_splits)
    then show ?thesis by blast
  qed
  then obtain t where s: "s = db\<lparr>intents := t\<rparr>" by blast
  show thesis
  proof (cases known)
    case (Some order_id)
    with rest have "db' = s" by (simp split: option.splits)
    with s show thesis by (intro that(1)) blast
  next
    case None
    with rest have run: "run_checkout rules z now s cats payload customer pos simulation k = Inr (db', r)" by simp
    then obtain mid phone prices u where "distinct (map fst (ck_items payload))"
      and "check_order_lines s cats pos customer (ck_items payload) = Inr u"
      and "price_products z s (category_parents cats) (ck_promo_code payload) phone customer True now
        (List.map_filter (get (products s)) (sort (map fst (ck_items payload)))) = Inr prices"
      and "place_order s payload phone customer pos simulation (the \<circ> map_of prices) = Inr (mid, r)"
      and "\<exists>u. db' = mid\<lparr>intents := u\<rparr>"
      by (rule run_checkout_Inr)
    with s show thesis by (rule that(2))
  qed
qed

lemma warehouse_ok_intents: "warehouse_ok (db\<lparr>intents := t\<rparr>) = warehouse_ok db"
proof -
  have "quiet (db\<lparr>intents := t\<rparr>) db" "quiet db (db\<lparr>intents := t\<rparr>)" by (simp_all add: quiet_def)
  moreover have "books_ok (db\<lparr>intents := t\<rparr>) = books_ok db" by simp
  ultimately show ?thesis by (metis warehouse_ok_quiet warehouse_ok_def)
qed

lemma create_order_ok:
  assumes run: "create_order rules z now db cats payload customer key pos simulation = Inr (db', r)" and ok: "warehouse_ok db"
  shows "warehouse_ok db'"
  using run
proof (rule create_order_Inr)
  assume "\<exists>t. db' = db\<lparr>intents := t\<rparr>"
  with ok show ?thesis by (auto simp: warehouse_ok_intents)
next
  fix s t mid phone prices
  assume s: "s = db\<lparr>intents := t\<rparr>" and "distinct (map fst (ck_items payload))"
    and place: "place_order s payload phone customer pos simulation (the \<circ> map_of prices) = Inr (mid, r)"
    and last: "\<exists>u. db' = mid\<lparr>intents := u\<rparr>"
  have "warehouse_ok s" using ok by (simp add: s warehouse_ok_intents)
  then have parts: "reservations_ok s" "books_ok s" "allocations_ok s" by (simp_all add: warehouse_ok_def)
  note placed = place_order_ok [OF place parts(1,2) \<open>distinct (map fst (ck_items payload))\<close>]
  have "allocations_ok mid"
    by (rule allocations_ok_same [OF parts(3) placed(3,4,5)])
  with placed(1,2) have "warehouse_ok mid" by (simp add: warehouse_ok_def)
  with last show ?thesis by (auto simp: warehouse_ok_intents)
qed

lemma books_from:
  assumes "warehouse_ok db" and "reservations_ok db' \<and> idents db' = idents db \<and> same_documents db' db" and "books_ok db'"
  shows "warehouse_ok db'"
  using assms allocations_ok_same [of db db'] by (simp add: warehouse_ok_def same_documents_def)

lemma stock_step_ok: "stock_step db db' \<Longrightarrow> warehouse_ok db \<Longrightarrow> warehouse_ok db'"
proof (induction rule: stock_step.induct)
  case (settings db i barcode backorder admin db' p)
  then show ?case
    using update_product_settings_quiet update_product_settings_books_ok warehouse_ok_quiet warehouse_ok_def by metis
next
  case (bind db i code admin db' p)
  then show ?case using bind_barcode_quiet bind_barcode_books_ok warehouse_ok_quiet warehouse_ok_def by metis
next
  case (card validate db ckey request db' p)
  then show ?case
    using create_product_card_quiet create_product_card_books_ok warehouse_ok_quiet warehouse_ok_def by metis
next
  case (procure db lines db')
  then show ?case using mark_ordered_ok mark_ordered_books_ok books_from warehouse_ok_def by metis
next
  case (new_receipt db key what db' r)
  then show ?case using create_receipt_quiet create_receipt_books_ok warehouse_ok_quiet warehouse_ok_def by metis
next
  case (scan db i key payload db')
  then show ?case using add_receipt_item_ok by blast
next
  case (post_receipt db now i admin key db')
  then show ?case using post_receipt_ok by blast
next
  case (change sha256 db i line_id change admin ckey db')
  then show ?case using change_receipt_item_ok by blast
next
  case (manual allowed db key q db' m)
  then show ?case using manual_operation_ok manual_operation_books_ok books_from warehouse_ok_def by metis
next
  case (new_count db key reason db' c)
  then show ?case using create_count_quiet create_count_books_ok warehouse_ok_quiet warehouse_ok_def by metis
next
  case (count_item db i product barcode quantity db')
  then show ?case using set_count_item_quiet set_count_item_books_ok warehouse_ok_quiet warehouse_ok_def by metis
next
  case (post_count db now i admin key db')
  then show ?case using post_count_ok post_count_books_ok books_from warehouse_ok_def by metis
next
  case (checkout rules db cats basket customer key pos simulation db' ord)
  then show ?case by (metis create_order_ok)
next
  case (status gates db i new_status admin handover db' ord)
  then have "reservations_ok db" "books_ok db" by (simp_all add: warehouse_ok_def)
  from update_status_ok [OF status(1) this] status(2) allocations_ok_same [of db db'] show ?case
    by (simp add: warehouse_ok_def)
qed

lemma stock_steps_ok: "stock_step\<^sup>*\<^sup>* db db' \<Longrightarrow> warehouse_ok db \<Longrightarrow> warehouse_ok db'"
  by (induction rule: rtranclp_induct) (auto intro: stock_step_ok)

lemma reachable_ok: "opening_ok ps \<Longrightarrow> stock_step\<^sup>*\<^sup>* (opening_state ps) db \<Longrightarrow> warehouse_ok db"
  using stock_steps_ok opening_warehouse_ok by blast

section \<open>The books and the reservations\<close>

text \<open>A working day on one product: stock is taken in and a guest orders.\<close>

definition demo_opening :: "product table" where
  "demo_opening = [(1, demo_product)]"

definition demo_intake :: manual_request where
  "demo_intake = \<lparr>mo_movement_type = Opening_balance, mo_product_id = 1, mo_quantity = 5,
     mo_reason = ''stocktake'', mo_admin_user_id = 7, mo_order_id = None, mo_order_item_id = None\<rparr>"

definition demo_rules :: checkout_rules where
  "demo_rules = \<lparr>cr_uuid_version = (\<lambda>_. None), cr_validate = (\<lambda>_. Inr ())\<rparr>"

definition demo_basket :: checkout where
  "demo_basket = \<lparr>ck_items = [(1, 7)], ck_phone = None, ck_promo_code = None, ck_details = []\<rparr>"

definition demo_gates :: order_gates where
  "demo_gates = \<lparr>og_block_mutation = (\<lambda>_ _. Inr ()), og_active_shipment = (\<lambda>_. False),
     og_cancellation = (\<lambda>_. Inr ())\<rparr>"

definition demo_allowed :: "warehouse \<Rightarrow> int \<Rightarrow> unit result" where
  "demo_allowed = (\<lambda>_ _. Inr ())"

definition demo_day :: "warehouse result" where
  "demo_day =
     and_then (manual_operation demo_allowed (opening_state demo_opening) (Some ''key-1'') demo_intake) (\<lambda>x.
     and_then (create_order demo_rules demo_zone 0 (fst x) demo_categories demo_basket None None False False) (\<lambda>y.
     Inr (fst y)))"

lemma demo_opening_ok: "opening_ok demo_opening"
  by code_simp

lemma demo_day_reached:
  assumes "demo_day = Inr db"
  shows "stock_step\<^sup>*\<^sup>* (opening_state demo_opening) db"
proof -
  obtain x y where "manual_operation demo_allowed (opening_state demo_opening) (Some ''key-1'') demo_intake = Inr x"
    and "create_order demo_rules demo_zone 0 (fst x) demo_categories demo_basket None None False False = Inr y" and "db = fst y"
    using assms by (auto simp: demo_day_def and_then_eq_Inr)
  then have "stock_step (opening_state demo_opening) (fst x)" "stock_step (fst x) db"
    by (metis prod.collapse stock_step.manual) (metis \<open>create_order _ _ _ _ _ _ _ _ _ _ = Inr y\<close> \<open>db = fst y\<close> prod.collapse stock_step.checkout)
  then show ?thesis by simp
qed

text \<open>C2: Whatever calls the shop has served, a product's stock and its reserved quantity are the sums of
  its ledger entries, and what is reserved is not negative and is on hand.\<close>

theorem stock_is_its_ledger:
  assumes "opening_ok ps" and "stock_step\<^sup>*\<^sup>* (opening_state ps) db" and "get (products db) i = Some p"
  shows "pd_stock_quantity p = posted mv_on_hand_delta db i \<and> pd_reserved_quantity p = posted mv_reserved_delta db i
    \<and> 0 \<le> pd_reserved_quantity p \<and> pd_reserved_quantity p \<le> pd_stock_quantity p"
  using books_okD [OF _ assms(3)] reachable_ok [OF assms(1,2)] by (simp add: warehouse_ok_def)

theorem stock_is_its_ledger_witness:
  "case demo_day of Inl _ \<Rightarrow> False | Inr db \<Rightarrow> (case get (products db) 1 of None \<Rightarrow> False | Some p \<Rightarrow>
     pd_stock_quantity p = posted mv_on_hand_delta db 1 \<and> pd_reserved_quantity p = posted mv_reserved_delta db 1
     \<and> 0 \<le> pd_reserved_quantity p \<and> pd_reserved_quantity p \<le> pd_stock_quantity p)"
proof -
  define run where "run = demo_day"
  have ran: "case run of Inl _ \<Rightarrow> False | Inr db \<Rightarrow> get (products db) 1 \<noteq> None"
    unfolding run_def by code_simp
  then obtain db p where db: "run = Inr db" "get (products db) 1 = Some p" by (cases run) auto
  then have "stock_step\<^sup>*\<^sup>* (opening_state demo_opening) db" by (intro demo_day_reached) (simp add: run_def)
  from stock_is_its_ledger [OF demo_opening_ok this db(2)] show ?thesis
    unfolding run_def [symmetric] db sum.case option.case .
qed

text \<open>C5: In the ledger a line of an open order owns exactly what it took from stock and has received, and
  a line of a closed order owns nothing; a line never receives more than was ordered for it.\<close>

theorem order_lines_own_what_they_hold:
  assumes "opening_ok ps" and "stock_step\<^sup>*\<^sup>* (opening_state ps) db"
    and "get (order_items db) k = Some i" and "get (orders db) (oi_order_id i) = Some r"
  shows "owned_reservation db i = (if terminal_status (od_status r) then 0 else held i)
    \<and> 0 \<le> oi_quantity_from_stock i \<and> 0 \<le> oi_quantity_received_for_order i
    \<and> oi_quantity_received_for_order i \<le> oi_quantity_to_order i
    \<and> oi_quantity_from_stock i + oi_quantity_to_order i = oi_quantity i"
proof -
  have res: "reservations_ok db" using reachable_ok [OF assms(1,2)] by (simp add: warehouse_ok_def)
  then have "line_ok i" using assms(3) by (auto simp: reservations_ok_def dest: lines_okD)
  moreover have "idents db k = Some (ident i)" using assms(3) by (simp add: idents_def)
  then have "owned_reservation db i = claim db k"
    using res unfolding reservations_ok_def claims_ok_def owned_reservation_claimed by blast
  ultimately show ?thesis using assms(3,4) by (simp add: claim_def line_ok_def)
qed

theorem order_lines_own_what_they_hold_witness:
  "case demo_day of Inl _ \<Rightarrow> False | Inr db \<Rightarrow> (case (get (order_items db) 1, get (orders db) 1) of
     (Some i, Some r) \<Rightarrow> owned_reservation db i = (if terminal_status (od_status r) then 0 else held i)
       \<and> 0 \<le> oi_quantity_from_stock i \<and> 0 \<le> oi_quantity_received_for_order i
       \<and> oi_quantity_received_for_order i \<le> oi_quantity_to_order i
       \<and> oi_quantity_from_stock i + oi_quantity_to_order i = oi_quantity i
   | _ \<Rightarrow> False)"
proof -
  define run where "run = demo_day"
  have ran: "case run of Inl _ \<Rightarrow> False | Inr db \<Rightarrow> (case (get (order_items db) 1, get (orders db) 1) of
      (Some i, Some r) \<Rightarrow> oi_order_id i = 1 | _ \<Rightarrow> False)"
    unfolding run_def by code_simp
  then obtain db i r where db: "run = Inr db" "get (order_items db) 1 = Some i" "get (orders db) 1 = Some r"
      "oi_order_id i = 1"
    by (cases run) (auto split: option.splits)
  then have "stock_step\<^sup>*\<^sup>* (opening_state demo_opening) db" "get (orders db) (oi_order_id i) = Some r"
    by (auto intro: demo_day_reached simp: run_def)
  from order_lines_own_what_they_hold [OF demo_opening_ok this(1) db(2) this(2)] show ?thesis
    unfolding run_def [symmetric] db(1,2,3) sum.case option.case prod.case .
qed

section \<open>An open order can be closed\<close>

text \<open>The keys of different lines differ.\<close>

lemma order_key_inj: "order_key n i kind = order_key n j kind \<longleftrightarrow> i = j"
  by (simp add: order_key_def show_int_inj)

text \<open>What is reserved of a product covers what any one line claims of it.\<close>

lemma sum_by_owner:
  assumes "finite K" and "\<And>m. m \<in> set ms \<Longrightarrow> f m \<noteq> 0 \<Longrightarrow> \<exists>j \<in> K. g m = Some j"
  shows "sum_list (map f ms) = (\<Sum>j \<in> K. sum_list (map f (filter (\<lambda>m. g m = Some j) ms)) :: int)"
  using assms(2)
proof (induction ms)
  case (Cons m ms)
  have "(\<Sum>j \<in> K. if g m = Some j then f m else 0) = f m"
  proof (cases "f m = 0")
    case False
    then obtain k where "k \<in> K" "g m = Some k" using Cons.prems by auto
    then have "(\<Sum>j \<in> K. if g m = Some j then f m else 0) = (\<Sum>j \<in> K. if k = j then f m else 0)"
      by simp
    with assms(1) \<open>k \<in> K\<close> show ?thesis by simp
  qed (simp add: sum.neutral)
  moreover have "sum_list (map f (filter (\<lambda>m. g m = Some j) (m # ms)))
      = (if g m = Some j then f m else 0) + sum_list (map f (filter (\<lambda>m. g m = Some j) ms))" for j
    by simp
  ultimately show ?case using Cons by (simp only: sum.distrib) simp
qed simp

lemma sum_list_filter_nonzero:
  assumes "\<And>m. m \<in> set ms \<Longrightarrow> f m \<noteq> 0 \<Longrightarrow> P m \<longleftrightarrow> Q m"
  shows "sum_list (map f (filter P ms)) = (sum_list (map f (filter Q ms)) :: int)"
  using assms by (induction ms) auto

lemma claims_ok_claimed: "claims_ok c db \<Longrightarrow> idents db j = Some x \<Longrightarrow> claimed (rows (movements db)) x = c j"
  unfolding claims_ok_def by blast

lemma reserved_covers_claim:
  assumes books: "books_ok db" and claims: "claims_ok c db" and nonneg: "\<And>j. idents db j \<noteq> None \<Longrightarrow> 0 \<le> c j"
    and line: "idents db k = Some i" and p: "get (products db) (snd (snd i)) = Some p"
  shows "c k \<le> pd_reserved_quantity p"
proof -
  let ?ms = "filter (\<lambda>m. mv_product_id m = snd (snd i)) (rows (movements db))"
  let ?K = "set (ids (order_items db))"
  let ?at = "\<lambda>j. sum_list (map mv_reserved_delta (filter (\<lambda>m. mv_order_item_id m = Some j) ?ms))"
  have id: "fst x = j" if "idents db j = Some x" for j x
    using claims that by (auto simp: claims_ok_def dest: ident_id)
  have owner: "\<exists>j x. idents db j = Some x \<and> mv_order_item_id m = Some j \<and> mv_order_id m = Some (fst (snd x))
      \<and> mv_product_id m = snd (snd x)"
    if "m \<in> set (rows (movements db))" "mv_reserved_delta m \<noteq> 0" for m
    using claims that id unfolding claims_ok_def by blast
  have at: "?at j = (if snd (snd x) = snd (snd i) then c j else 0)" if x: "idents db j = Some x" for j x
  proof -
    have "?at j = sum_list (map mv_reserved_delta (filter (\<lambda>m. mv_product_id m = snd (snd i)
        \<and> mv_order_id m = Some (fst (snd x)) \<and> mv_order_item_id m = Some (fst x) \<and> mv_product_id m = snd (snd x))
        (rows (movements db))))"
      unfolding filter_filter
    proof (rule sum_list_filter_nonzero)
      fix m assume m: "m \<in> set (rows (movements db))" "mv_reserved_delta m \<noteq> 0"
      from owner [OF m] x id [OF x] show "(mv_product_id m = snd (snd i) \<and> mv_order_item_id m = Some j)
        \<longleftrightarrow> (mv_product_id m = snd (snd i) \<and> mv_order_id m = Some (fst (snd x))
          \<and> mv_order_item_id m = Some (fst x) \<and> mv_product_id m = snd (snd x))" by auto
    qed
    also have "\<dots> = (if snd (snd x) = snd (snd i) then claimed (rows (movements db)) x else 0)"
    proof (cases "snd (snd x) = snd (snd i)")
      case True
      have "filter (\<lambda>m. mv_product_id m = snd (snd i) \<and> mv_order_id m = Some (fst (snd x))
          \<and> mv_order_item_id m = Some (fst x) \<and> mv_product_id m = snd (snd x)) (rows (movements db))
        = filter (\<lambda>m. mv_order_id m = Some (fst (snd x)) \<and> mv_order_item_id m = Some (fst x)
          \<and> mv_product_id m = snd (snd x)) (rows (movements db))"
        by (rule filter_cong) (use True in auto)
      with True show ?thesis by (simp add: claimed_def)
    next
      case False
      then have "filter (\<lambda>m. mv_product_id m = snd (snd i) \<and> mv_order_id m = Some (fst (snd x))
          \<and> mv_order_item_id m = Some (fst x) \<and> mv_product_id m = snd (snd x)) (rows (movements db)) = []"
        by (auto simp: filter_empty_conv)
      with False show ?thesis by simp
    qed
    finally show ?thesis using claims_ok_claimed [OF claims x] by simp
  qed
  have known: "idents db j \<noteq> None" if "j \<in> ?K" for j
    using that by (simp add: in_ids idents_def)
  have "0 \<le> ?at j" if "j \<in> ?K" for j
    using at nonneg [OF known [OF that]] known [OF that] by auto
  moreover have "k \<in> ?K" using line by (auto simp: in_ids idents_def)
  ultimately have "?at k \<le> (\<Sum>j \<in> ?K. ?at j)" by (intro member_le_sum) auto
  also have "\<dots> = sum_list (map mv_reserved_delta ?ms)"
  proof (rule sum_by_owner [symmetric])
    fix m assume "m \<in> set ?ms" "mv_reserved_delta m \<noteq> 0"
    then obtain j where "idents db j \<noteq> None" "mv_order_item_id m = Some j" using owner by fastforce
    then show "\<exists>j \<in> ?K. mv_order_item_id m = Some j" by (auto simp: in_ids idents_def)
  qed simp
  also have "\<dots> = pd_reserved_quantity p" using books_okD(3) [OF books p] by (simp add: posted_def)
  finally show ?thesis using at [OF line] by simp
qed

text \<open>Releasing the lines of an order never fails, unless a ledger key of a release is taken.\<close>

lemma claim_has_product:
  assumes "books_ok db" and "claims_ok c db" and "idents db k = Some i" and "c k \<noteq> 0"
  shows "\<exists>p. get (products db) (snd (snd i)) = Some p"
proof -
  have "claimed (rows (movements db)) i \<noteq> 0" using claims_ok_claimed [OF assms(2,3)] assms(4) by simp
  then have "filter (\<lambda>m. mv_order_id m = Some (fst (snd i)) \<and> mv_order_item_id m = Some (fst i)
      \<and> mv_product_id m = snd (snd i)) (rows (movements db)) \<noteq> []"
    unfolding claimed_def by (metis list.map(1) sum_list.Nil)
  then obtain m where "m \<in> set (rows (movements db))" "mv_product_id m = snd (snd i)"
    by (auto simp: filter_empty_conv)
  with assms(1) show ?thesis unfolding books_ok_iff by (auto simp: on_hand_def)
qed

lemma release_item_succeeds:
  assumes "books_ok s" and claims: "claims_ok c s" and nonneg: "\<And>j. idents s j \<noteq> None \<Longrightarrow> 0 \<le> c j"
    and i: "idents s (oi_id i) = Some (ident i)" "c (oi_id i) = held i" "0 \<le> held i"
    and free: "\<not> reference_used s (Some (order_key (oi_order_id i) (oi_id i) ''reservation-release''))"
  shows "\<exists>s'. release_item admin i s = Inr s' \<and> (\<forall>n j. j \<noteq> oi_id i \<longrightarrow> oi_order_id i = n \<longrightarrow>
    reference_used s' (Some (order_key n j ''reservation-release''))
      = reference_used s (Some (order_key n j ''reservation-release'')))"
proof (cases "held i = 0")
  case True
  then show ?thesis by (simp add: release_item_def Let_def reference_used_def)
next
  case False
  let ?mid = "s\<lparr>order_items := put (oi_id i) (i\<lparr>oi_procurement_status := Not_required\<rparr>) (order_items s)\<rparr>"
  let ?m = "order_movement Reservation_release i (held i) 0 (- held i) ''Order cancelled'' (Some admin)
    ''reservation-release''"
  have product: "snd (snd (ident i)) = oi_product_id i" by (simp add: ident_def)
  then obtain p where p: "get (products s) (oi_product_id i) = Some p"
    using claim_has_product [OF assms(1) claims i(1)] i(2) False by auto
  have "held i \<le> pd_reserved_quantity p"
    using reserved_covers_claim [OF assms(1) claims nonneg i(1)] p i(2) product by simp
  moreover have "movement_valid ?m" using False i(3) by (simp add: movement_valid_def order_movement_fields)
  moreover have "\<not> reference_used ?mid (mv_reference_key ?m)"
    using free by (simp add: order_movement_fields reference_used_def)
  ultimately have post: "\<exists>s'. post_movement ?m ?mid = Inr s'" and run: "release_item admin i s = post_movement ?m ?mid"
    using p False by (simp_all add: release_item_def Let_def post_movement_def add_movement_def order_movement_fields
        reference_used_def)
  from post obtain s' where s': "post_movement ?m ?mid = Inr s'" by blast
  have "rows (movements s') = rows (movements s) @ [?m\<lparr>mv_id := next_id (movements s)\<rparr>]"
    using post_movement_effects(2) [OF s', of p] p by (simp add: order_movement_fields)
  then have "reference_used s' (Some (order_key (oi_order_id i) j ''reservation-release''))
      = reference_used s (Some (order_key (oi_order_id i) j ''reservation-release''))" if "j \<noteq> oi_id i" for j
    using that by (simp add: reference_used_def select_where_def order_movement_fields order_key_inj)
  with s' run show ?thesis by auto
qed

lemma release_items_succeed:
  assumes "set items \<subseteq> set all" and "closing db all s" and "claims_ok c s"
    and "\<And>j. idents db j \<noteq> None \<Longrightarrow> 0 \<le> c j" and "distinct (map oi_id items)"
    and "\<And>i. i \<in> set items \<Longrightarrow> idents db (oi_id i) = Some (ident i) \<and> c (oi_id i) = held i \<and> line_ok i
      \<and> oi_order_id i = n \<and> \<not> reference_used s (Some (order_key n (oi_id i) ''reservation-release''))"
  shows "\<exists>t. for_each (release_item admin) items s = Inr t"
  using assms
proof (induction items arbitrary: s c)
  case (Cons i items)
  have i: "idents db (oi_id i) = Some (ident i)" "c (oi_id i) = held i" "line_ok i" "oi_order_id i = n"
      "\<not> reference_used s (Some (order_key n (oi_id i) ''reservation-release''))" "i \<in> set all"
    using Cons.prems(1,6) by auto
  have ids: "idents s = idents db" and books: "books_ok s" using Cons.prems(2) by (simp_all add: closing_def)
  obtain s' where s': "release_item admin i s = Inr s'"
    and keys: "\<And>j. j \<noteq> oi_id i \<Longrightarrow> reference_used s' (Some (order_key n j ''reservation-release''))
      = reference_used s (Some (order_key n j ''reservation-release''))"
    using release_item_succeeds [OF books Cons.prems(3), of i admin] Cons.prems(4) i held_nonneg [OF i(3)]
    unfolding ids by blast
  note next_state = release_item_ok [OF s' Cons.prems(3,2) i(6,1,3)]
  have "\<exists>t. for_each (release_item admin) items s' = Inr t"
  proof (rule Cons.IH [OF _ conjunct1 [OF next_state] conjunct2 [OF next_state]])
    show "set items \<subseteq> set all" using Cons.prems(1) by simp
    show "0 \<le> (c(oi_id i := c (oi_id i) + - held i)) j" if "idents db j \<noteq> None" for j
      using Cons.prems(4) [OF that] i(2) by simp
    show "distinct (map oi_id items)" using Cons.prems(5) by simp
    fix x assume x: "x \<in> set items"
    with Cons.prems(5) have "oi_id x \<noteq> oi_id i" by (metis distinct.simps(2) image_eqI list.map(2) list.set_map)
    with Cons.prems(6) [of x] x keys [of "oi_id x"]
    show "idents db (oi_id x) = Some (ident x) \<and> (c(oi_id i := c (oi_id i) + - held i)) (oi_id x) = held x \<and> line_ok x
      \<and> oi_order_id x = n \<and> \<not> reference_used s' (Some (order_key n (oi_id x) ''reservation-release''))"
      by simp
  qed
  with s' show ?case by simp
qed simp

lemma validate_owned_all:
  "(\<And>i. i \<in> set items \<Longrightarrow> owned_reservation db i = held i) \<Longrightarrow> validate_owned_reservations db items = Inr ()"
proof -
  have "(\<And>i. i \<in> set items \<Longrightarrow> owned_reservation db i = held i) \<Longrightarrow>
      for_each (validate_owned_reservation db) items () = Inr ()"
    by (induction items) (simp_all add: validate_owned_reservation_def ensure_def)
  then show "(\<And>i. i \<in> set items \<Longrightarrow> owned_reservation db i = held i) \<Longrightarrow> validate_owned_reservations db items = Inr ()"
    by (simp add: validate_owned_reservations_def)
qed

text \<open>C7: In every state the shop can reach, cancelling an open order succeeds on two conditions: the gates
  outside the stock allow the change of status, and no ledger entry has already taken the key
  \<open>order:n:item:i:reservation-release\<close> under which a release of one of its lines is entered; an operation
  that names its own reference can take it. Afterwards the order is cancelled and its lines own nothing.\<close>

theorem open_order_can_be_cancelled:
  assumes "opening_ok ps" and "stock_step\<^sup>*\<^sup>* (opening_state ps) db"
    and "get (orders db) n = Some r" and "\<not> terminal_status (od_status r)"
    and "check_status_change gates r Order_cancelled handover = Inr ()"
    and "\<forall>i \<in> set (lines_of_order db n).
      \<not> reference_used db (Some (order_key n (oi_id i) ''reservation-release''))"
  shows "\<exists>db' r'. update_status gates db n Order_cancelled admin handover = Inr (db', r')
    \<and> get (orders db') n = Some r' \<and> od_status r' = Order_cancelled
    \<and> (\<forall>i \<in> set (lines_of_order db' n). owned_reservation db' i = 0)"
proof -
  have ok: "warehouse_ok db" by (rule reachable_ok [OF assms(1,2)])
  then have res: "reservations_ok db" and books: "books_ok db" by (simp_all add: warehouse_ok_def)
  then have claims: "claims_ok (claim db) db" by (simp add: reservations_ok_def)
  let ?items = "lines_of_order db n"
  have line: "idents db (oi_id i) = Some (ident i) \<and> claim db (oi_id i) = held i \<and> line_ok i \<and> oi_order_id i = n"
    if "i \<in> set ?items" for i
    using line_of_order [OF claims that] assms(3,4) res
    by (auto simp: idents_def claim_def reservations_ok_def dest: lines_okD)
  have nonneg: "0 \<le> claim db j" for j
    using res by (auto simp: claim_def reservations_ok_def split: option.split dest!: lines_okD intro: held_nonneg)
  have "\<exists>t. for_each (release_item admin) ?items db = Inr t"
  proof (rule release_items_succeed [OF subset_refl _ claims nonneg distinct_lines_of_order [OF claims]])
    show "closing db ?items db" using res books by (simp add: closing_def same_documents_def reservations_ok_def)
    fix i assume "i \<in> set ?items"
    with line assms(6) show "idents db (oi_id i) = Some (ident i) \<and> claim db (oi_id i) = held i \<and> line_ok i
      \<and> oi_order_id i = n \<and> \<not> reference_used db (Some (order_key n (oi_id i) ''reservation-release''))" by blast
  qed
  moreover have "validate_owned_reservations db ?items = Inr ()"
    by (rule validate_owned_all) (use line claims_ok_claimed [OF claims] in \<open>metis owned_reservation_claimed\<close>)
  ultimately have "\<exists>t. move_order_stock db ?items Order_cancelled admin = Inr t"
    by (simp add: move_order_stock_def)
  then obtain t where t: "move_order_stock db ?items Order_cancelled admin = Inr t" by blast
  have "od_status r \<noteq> Order_cancelled" "check_transition r Order_cancelled = Inr ()"
    using assms(4) by (auto simp: terminal_status_def check_transition_def allowed_transition_def split: order_status.split)
  then obtain db' r' where run: "update_status gates db n Order_cancelled admin handover = Inr (db', r')"
    and r': "get (orders db') n = Some r'" "od_status r' = Order_cancelled"
    using assms(3,5) t by (simp add: update_status_def Let_def)
  have after: "claims_ok (claim db') db'"
    using update_status_ok [OF run res books] by (simp add: reservations_ok_def)
  have "owned_reservation db' i = 0" if i: "i \<in> set (lines_of_order db' n)" for i
  proof -
    have "idents db' (oi_id i) = Some (ident i)" "claim db' (oi_id i) = 0"
      using line_of_order [OF after i] r' by (auto simp: idents_def claim_def terminal_status_def)
    then show ?thesis using claims_ok_claimed [OF after] by (metis owned_reservation_claimed)
  qed
  with run r' show ?thesis by blast
qed

theorem open_order_can_be_cancelled_witness:
  "case demo_day of Inl _ \<Rightarrow> False | Inr db \<Rightarrow>
     (\<exists>db' r'. update_status demo_gates db 1 Order_cancelled 7 False = Inr (db', r')
       \<and> get (orders db') 1 = Some r' \<and> od_status r' = Order_cancelled
       \<and> (\<forall>i \<in> set (lines_of_order db' 1). owned_reservation db' i = 0))"
proof -
  define run where "run = demo_day"
  have ran: "case run of Inl _ \<Rightarrow> False | Inr db \<Rightarrow> (case get (orders db) 1 of None \<Rightarrow> False | Some r \<Rightarrow>
      \<not> terminal_status (od_status r) \<and> check_status_change demo_gates r Order_cancelled False = Inr ()
      \<and> list_all (\<lambda>i. \<not> reference_used db (Some (order_key 1 (oi_id i) ''reservation-release'')))
          (lines_of_order db 1))"
    unfolding run_def by code_simp
  then obtain db r where db: "run = Inr db" "get (orders db) 1 = Some r" "\<not> terminal_status (od_status r)"
      "check_status_change demo_gates r Order_cancelled False = Inr ()"
      "\<forall>i \<in> set (lines_of_order db 1). \<not> reference_used db (Some (order_key 1 (oi_id i) ''reservation-release''))"
    by (cases run) (auto split: option.splits simp: list_all_iff)
  then have "stock_step\<^sup>*\<^sup>* (opening_state demo_opening) db" by (auto intro: demo_day_reached simp: run_def)
  from open_order_can_be_cancelled [OF demo_opening_ok this db(2-5), of 7] show ?thesis
    unfolding run_def [symmetric] db(1) sum.case .
qed

end
