(* ===== verification/History.thy ===== *)
theory History
  imports Shop
begin

text \<open>
  What stays true over the history of the shop: promotion codes keep their limits, and a manual operation
  is booked once under its key, because no step takes an entry out of the ledger.
\<close>

section \<open>The limits of promotion codes\<close>

text \<open>An order counts for its customer, or for its phone if nobody was signed in.\<close>

definition buyer :: "order \<Rightarrow> int option \<times> string option" where
  "buyer r = (od_customer_id r, if od_customer_id r = None then od_customer_phone r else None)"

definition within_limits :: "warehouse \<Rightarrow> shop_promotion \<Rightarrow> bool" where
  "within_limits db p \<longleftrightarrow>
     (case sh_usage_limit p of None \<Rightarrow> True | Some n \<Rightarrow> code_uses (\<lambda>_. True) db p \<le> n)
     \<and> (case sh_usage_limit_per_customer p of None \<Rightarrow> True
        | Some n \<Rightarrow> \<forall>b. code_uses (\<lambda>r. buyer r = b) db p \<le> n)"

definition limits_ok :: "warehouse \<Rightarrow> bool" where
  "limits_ok db \<longleftrightarrow> (\<forall>p \<in> set (rows (shop_promotions db)). sh_trigger p = Promocode_trigger \<longrightarrow> within_limits db p)"

definition codes_ok :: "shop_promotion table \<Rightarrow> bool" where
  "codes_ok ps \<longleftrightarrow> has_id sh_id ps \<and> unique_codes ps
     \<and> list_all (\<lambda>p. (sh_trigger p = Automatic_trigger) = (sh_code p = None)) (rows ps)"

lemma promotions_ok_codes: "promotions_ok z ps \<Longrightarrow> codes_ok ps"
proof -
  have "(sh_trigger p = Automatic_trigger) = (sh_code p = None)"
    if "validate_promotion z (promotion_data p) = Some (promotion_data p)" for p
    using that by (cases "sh_trigger p")
      (auto simp: validate_promotion_self rule_valid_def promotion_data_def shop_promotion_data.defs)
  then show "promotions_ok z ps \<Longrightarrow> codes_ok ps" by (simp add: promotions_ok_def codes_ok_def list_all_iff)
qed

subsection \<open>What a checkout adds\<close>

lemma add_order_lines_frame:
  "orders (fold (add_order_line n prices) lines db) = orders db"
  "movements (fold (add_order_line n prices) lines db) = movements db"
  "shop_promotions (fold (add_order_line n prices) lines db) = shop_promotions db"
  by (induction lines arbitrary: db) (simp_all add: add_order_line_def Let_def)

lemma reserve_item_journal: "reserve_item i s = Inr s' \<Longrightarrow> journal s s'"
  by (auto simp: reserve_item_def dest: journal_post split: if_splits)

lemma place_order_journal:
  assumes "place_order s payload phone customer pos simulation prices = Inr (s', r)"
  shows "appended s s' \<and> orders s' = put (next_id (orders s)) r (orders s)
    \<and> r = new_order (next_id (orders s)) payload phone customer pos simulation prices"
proof -
  let ?mid = "fold (add_order_line (next_id (orders s)) prices) (ck_items payload)
    (s\<lparr>orders := put (next_id (orders s)) r (orders s)\<rparr>)"
  have r: "r = new_order (next_id (orders s)) payload phone customer pos simulation prices"
    and loop: "for_each reserve_item (lines_of_order ?mid (next_id (orders s))) ?mid = Inr s'"
    using assms by (auto simp: place_order_def Let_def and_then_eq_Inr)
  from journal_loop [OF loop reserve_item_journal] r show ?thesis
    by (simp add: journal_def appended_def add_order_lines_frame)
qed

subsection \<open>Where the code of an order comes from\<close>

lemma price_products_code:
  assumes "price_products z db parent_ids promo_code phone customer True at stock = Inr prices"
    and "codes_ok (shop_promotions db)" and "sr_promotion_code ((the \<circ> map_of prices) i) = Some c"
    and "map_of prices i \<noteq> None"
  shows "\<exists>q \<in> set (rows (shop_promotions db)). sh_code q = Some c \<and> validate_usage_limits db q phone customer = Inr ()"
proof -
  obtain r where r: "map_of prices i = Some r" using assms(4) by blast
  have auto_code: "sh_code q = None" if "q \<in> set (automatic_promotions db at)" for q
    using that assms(2) by (auto simp: automatic_promotions_def select_where_def codes_ok_def list_all_iff)
  have winner: "\<exists>q \<in> set ps. sh_code q = Some c"
    if eq: "prices = map (\<lambda>p. (pd_id p, calculate_product_price z parent_ids at ps p)) stock" for ps
  proof -
    obtain p where "r = calculate_product_price z parent_ids at ps p"
      using map_of_SomeD [OF r] unfolding eq by auto
    with assms(3) r have code: "sr_promotion_code (calculate_product_price z parent_ids at ps p) = Some c" by simp
    then obtain x where x: "least_by rank (candidates z parent_ids at ps p) = Some x" "sh_code (snd x) = Some c"
      by (auto simp: calculate_product_price_def Let_def split: option.splits)
    moreover have "snd x \<in> set ps" using least_by_Some [OF x(1)] by (auto simp: candidates_def)
    ultimately show ?thesis by blast
  qed
  show ?thesis
  proof (cases "truthy_key promo_code")
    case False
    with assms(1) have "prices = map (\<lambda>p. (pd_id p, calculate_product_price z parent_ids at (automatic_promotions db at) p)) stock"
      by (simp add: price_products_def Let_def)
    from winner [OF this] auto_code show ?thesis by auto
  next
    case True
    with assms(1) obtain q where q: "promotion_by_code z db (the promo_code) at = Inr q"
      and valid: "validate_usage_limits db q phone customer = Inr ()"
      and prices: "prices = map (\<lambda>p. (pd_id p, calculate_product_price z parent_ids at (automatic_promotions db at @ [q]) p)) stock"
      by (auto simp: price_products_def Let_def and_then_eq_Inr split: if_splits)
    have "q \<in> set (rows (shop_promotions db))"
      using q by (auto simp: promotion_by_code_def select_where_def dest: filter_head split: list.splits if_splits)
    with winner [OF prices] auto_code valid show ?thesis by auto
  qed
qed

lemma applied_code_Some:
  assumes "applied_code prices lines = Some c"
  shows "\<exists>i \<in> fst ` set lines. sr_promotion_code (prices i) = Some c"
proof -
  obtain xs where "filter truthy_key (map (\<lambda>(i, _). sr_promotion_code (prices i)) lines) = Some c # xs"
    using assms by (auto simp: applied_code_def split: list.splits)
  from filter_head [OF this] show ?thesis by force
qed

lemma new_order_fields:
  "od_promo_code (new_order n payload phone customer pos sim prices) = applied_code prices (ck_items payload)"
  "od_customer_id (new_order n payload phone customer pos sim prices) = customer"
  "od_customer_phone (new_order n payload phone customer pos sim prices) = phone"
  "od_status (new_order n payload phone customer pos sim prices) = Order_pending"
  by (simp_all add: new_order_def Let_def)

subsection \<open>Counting\<close>

lemma code_uses_new:
  "orders db' = put (next_id (orders db)) r (orders db) \<Longrightarrow> code_uses P db' p = code_uses P db p
    + (if od_promo_code r = sh_code p \<and> od_status r \<noteq> Order_cancelled \<and> P r then 1 else 0)"
  by (simp add: code_uses_def select_where_put_next)

lemma code_uses_mono:
  assumes "\<And>r. P r \<Longrightarrow> Q r"
  shows "code_uses P db p \<le> code_uses Q db p"
proof -
  have "length (filter (\<lambda>r. A r \<and> P r) xs) \<le> length (filter (\<lambda>r. A r \<and> Q r) xs)" for A xs
    by (induction xs) (use assms in auto)
  from this [of "\<lambda>r. od_promo_code r = sh_code p \<and> od_status r \<noteq> Order_cancelled"] show ?thesis
    by (simp add: code_uses_def select_where_def conj_assoc)
qed

lemma length_select_put:
  assumes "get t i = Some r0" and "P r \<Longrightarrow> P r0"
  shows "length (select_where P (put i r t)) \<le> length (select_where P t)"
  using assms by (induction t) (auto simp: select_where_def rows_def split: if_splits)

lemma code_uses_put:
  assumes "orders db' = put i r (orders db)" and "get (orders db) i = Some r0"
    and "od_promo_code r = od_promo_code r0" and "od_status r0 \<noteq> Order_cancelled" and "P r \<Longrightarrow> P r0"
  shows "code_uses P db' p \<le> code_uses P db p"
  unfolding code_uses_def assms(1) of_nat_le_iff by (rule length_select_put [OF assms(2)]) (use assms(3-5) in auto)

lemma limits_ok_less:
  assumes "limits_ok db" and "shop_promotions db' = shop_promotions db"
    and "\<And>P p. (\<And>r r'. buyer r = buyer r' \<Longrightarrow> P r = P r') \<Longrightarrow> code_uses P db' p \<le> code_uses P db p"
  shows "limits_ok db'"
  unfolding limits_ok_def assms(2)
proof (intro ballI impI)
  fix p assume p: "p \<in> set (rows (shop_promotions db))" "sh_trigger p = Promocode_trigger"
  have "within_limits db p" using assms(1) p by (simp add: limits_ok_def)
  moreover have "code_uses (\<lambda>_. True) db' p \<le> code_uses (\<lambda>_. True) db p" by (rule assms(3)) simp
  moreover have "code_uses (\<lambda>r. buyer r = b) db' p \<le> code_uses (\<lambda>r. buyer r = b) db p" for b
    by (rule assms(3)) simp
  ultimately show "within_limits db' p"
    by (auto simp: within_limits_def split: option.splits) (meson order_trans)+
qed

lemma check_order_lines_priced:
  assumes "check_order_lines s cats pos customer lines = Inr u" and "i \<in> fst ` set lines"
    and "price_products z s parent_ids code phone customer v at (List.map_filter (get (products s)) (sort (map fst lines)))
      = Inr prices"
    and "books_ok s"
  shows "map_of prices i \<noteq> None"
proof -
  obtain p where p: "get (products s) i = Some p"
    using assms(1,2) by (fastforce simp: check_order_lines_def Let_def list_ex_iff split: if_splits)
  then have "p \<in> set (List.map_filter (get (products s)) (sort (map fst lines)))"
    using assms(2) by (force simp: List.map_filter_def)
  moreover have "pd_id p = i" by (rule books_okD [OF assms(4) p])
  moreover obtain g where "prices = map (\<lambda>p. (pd_id p, g p)) (List.map_filter (get (products s)) (sort (map fst lines)))"
    using assms(3) by (auto simp: price_products_def Let_def and_then_eq_Inr split: if_splits)
  ultimately have "(i, g p) \<in> set prices" by force
  from weak_map_of_SomeI [OF this] show ?thesis by auto
qed

text \<open>What the limits' check says of the new order.\<close>

lemma limit_leaves_room:
  assumes "validate_usage_limits db p phone customer = Inr u"
    and "od_customer_id r = customer" and "od_customer_phone r = phone"
  shows "(case sh_usage_limit p of None \<Rightarrow> True | Some n \<Rightarrow> code_uses (\<lambda>_. True) db p + 1 \<le> n)
    \<and> (case sh_usage_limit_per_customer p of None \<Rightarrow> True | Some n \<Rightarrow> code_uses (\<lambda>x. buyer x = buyer r) db p + 1 \<le> n)"
proof -
  have "code_uses (\<lambda>x. buyer x = buyer r) db p \<le> code_uses (of_customer phone customer) db p"
    by (rule code_uses_mono) (use assms(2,3) in \<open>auto simp: buyer_def of_customer_def split: if_splits\<close>)
  with assms(1) show ?thesis
    by (auto simp: validate_usage_limits_def and_then_eq_Inr split: option.splits if_splits)
qed

lemma place_order_limits:
  assumes place: "place_order s payload phone customer pos simulation (the \<circ> map_of prices) = Inr (s', r)"
    and priced: "price_products z s parent_ids code phone customer True now stock = Inr prices"
    and known: "\<And>i. i \<in> fst ` set (ck_items payload) \<Longrightarrow> map_of prices i \<noteq> None"
    and codes: "codes_ok (shop_promotions s)" and limits: "limits_ok s"
  shows "limits_ok s'"
proof -
  have orders: "orders s' = put (next_id (orders s)) r (orders s)" and promos: "shop_promotions s' = shop_promotions s"
    and r: "od_promo_code r = applied_code (the \<circ> map_of prices) (ck_items payload)" "od_customer_id r = customer"
      "od_customer_phone r = phone"
    using place_order_journal [OF place] by (auto simp: appended_def new_order_fields)
  show ?thesis unfolding limits_ok_def promos
  proof (intro ballI impI)
    fix p assume p: "p \<in> set (rows (shop_promotions s))" "sh_trigger p = Promocode_trigger"
    have old: "within_limits s p" using limits p by (simp add: limits_ok_def)
    show "within_limits s' p"
    proof (cases "od_promo_code r = sh_code p")
      case False
      with old show ?thesis by (auto simp: within_limits_def code_uses_new [OF orders] split: option.splits)
    next
      case True
      obtain c where c: "sh_code p = Some c"
        using codes p by (auto simp: codes_ok_def list_all_iff)
      with True r(1) applied_code_Some [of "the \<circ> map_of prices" "ck_items payload" c] obtain i
        where i: "i \<in> fst ` set (ck_items payload)" "sr_promotion_code ((the \<circ> map_of prices) i) = Some c" by auto
      from price_products_code [OF priced codes i(2) known [OF i(1)]] obtain q
        where q: "q \<in> set (rows (shop_promotions s))" "sh_code q = Some c" "validate_usage_limits s q phone customer = Inr ()"
        by blast
      have "sh_id q = sh_id p"
        using codes p(1) q(1,2) c unfolding codes_ok_def unique_codes_def list_all_iff by (metis option.distinct(1))
      then have "q = p" using has_id_inj [of sh_id "shop_promotions s" q p] codes p(1) q(1) by (simp add: codes_ok_def)
      with q(3) have valid: "validate_usage_limits s p phone customer = Inr ()" by simp
      note room = limit_leaves_room [OF valid r(2,3)]
      have grows: "code_uses P s' p \<le> code_uses P s p + 1" for P by (simp add: code_uses_new [OF orders])
      have "code_uses (\<lambda>_. True) s' p \<le> n" if "sh_usage_limit p = Some n" for n
        using grows [of "\<lambda>_. True"] room that by simp
      moreover have "code_uses (\<lambda>x. buyer x = b) s' p \<le> n" if limit: "sh_usage_limit_per_customer p = Some n" for n b
      proof (cases "b = buyer r")
        case True
        with grows [of "\<lambda>x. buyer x = b"] room limit show ?thesis by simp
      next
        case False
        then have "code_uses (\<lambda>x. buyer x = b) s' p = code_uses (\<lambda>x. buyer x = b) s p"
          by (auto simp: code_uses_new [OF orders])
        with old limit show ?thesis by (simp add: within_limits_def del: split_paired_All)
      qed
      ultimately show ?thesis by (simp add: within_limits_def split: option.split)
    qed
  qed
qed

lemma limits_ok_same:
  assumes "orders db' = orders db" and "shop_promotions db' = shop_promotions db"
  shows "limits_ok db' = limits_ok db"
proof -
  have same: "code_uses P db' p = code_uses P db p" for P p by (simp add: code_uses_def assms(1))
  show ?thesis unfolding limits_ok_def within_limits_def same assms(2) ..
qed

lemma limits_ok_intents: "limits_ok (db\<lparr>intents := t\<rparr>) = limits_ok db"
  by (rule limits_ok_same) simp_all

lemma release_item_journal: "release_item admin i s = Inr s' \<Longrightarrow> journal s s'"
  by (erule release_item_Inr) (auto dest: journal_post)

lemma ship_item_journal: "ship_item admin i s = Inr s' \<Longrightarrow> journal s s'"
  by (erule ship_item_Inr) (auto dest: journal_post)

lemma move_order_stock_journal: "move_order_stock s items status admin = Inr s' \<Longrightarrow> journal s s'"
  by (auto simp: move_order_stock_def apply_handover_inventory_def and_then_eq_Inr split: if_splits
      dest: journal_loop [OF _ release_item_journal] journal_loop [OF _ ship_item_journal])

lemma create_order_limits:
  assumes run: "create_order rules z now db cats payload customer key pos simulation = Inr (db', r)"
    and ok: "warehouse_ok db" and codes: "codes_ok (shop_promotions db)" and limits: "limits_ok db"
  shows "appended db db' \<and> limits_ok db'"
  using run
proof (rule create_order_Inr)
  assume "\<exists>t. db' = db\<lparr>intents := t\<rparr>"
  with limits show ?thesis by (auto simp: limits_ok_intents appended_def)
next
  fix s t mid phone prices u
  assume s: "s = db\<lparr>intents := t\<rparr>" and lines: "check_order_lines s cats pos customer (ck_items payload) = Inr u"
    and priced: "price_products z s (category_parents cats) (ck_promo_code payload) phone customer True now
      (List.map_filter (get (products s)) (sort (map fst (ck_items payload)))) = Inr prices"
    and place: "place_order s payload phone customer pos simulation (the \<circ> map_of prices) = Inr (mid, r)"
    and last: "\<exists>u. db' = mid\<lparr>intents := u\<rparr>"
  have books: "books_ok s" using ok by (simp add: warehouse_ok_def s)
  have "limits_ok mid"
    by (rule place_order_limits [OF place priced check_order_lines_priced [OF lines _ priced books]])
      (use codes limits in \<open>simp_all add: s limits_ok_intents\<close>)
  moreover have "appended db mid" using place_order_journal [OF place] by (simp add: appended_def s)
  ultimately show ?thesis using last by (auto simp: limits_ok_intents appended_def)
qed

lemma update_status_limits:
  assumes run: "update_status gates db n new_status admin profile = Inr (db', r)" and limits: "limits_ok db"
  shows "appended db db' \<and> limits_ok db'"
  using run
proof (rule update_status_Inr)
  fix ord mid
  assume ord: "get (orders db) n = Some ord" and live: "\<not> terminal_status (od_status ord)"
    and move: "move_order_stock db (lines_of_order db n) new_status admin = Inr mid"
    and db': "db' = mid\<lparr>orders := put n r (orders mid)\<rparr>" and "od_status r = new_status"
  have same: "od_promo_code r = od_promo_code ord" "buyer r = buyer ord"
    using run ord move live by (auto simp: update_status_def Let_def and_then_eq_Inr buyer_def split: if_splits)
  have "journal db mid" by (rule move_order_stock_journal [OF move])
  then have frame: "appended db db'" "shop_promotions db' = shop_promotions db" "orders db' = put n r (orders db)"
    by (auto simp: db' journal_def appended_def)
  have "limits_ok db'"
  proof (rule limits_ok_less [OF limits frame(2)])
    fix P :: "order \<Rightarrow> bool" and p
    assume P: "\<And>r r'. buyer r = buyer r' \<Longrightarrow> P r = P r'"
    show "code_uses P db' p \<le> code_uses P db p"
      by (rule code_uses_put [OF frame(3) ord same(1)])
        (use live P [OF same(2)] in \<open>auto simp: terminal_status_def\<close>)
  qed
  with frame(1) show ?thesis by simp
qed (use limits in simp)

lemma journal_limits: "journal db db' \<Longrightarrow> limits_ok db \<Longrightarrow> limits_ok db'"
  using limits_ok_same [of db' db] by (simp add: journal_def appended_def)

text \<open>Every step appends to the ledger and keeps the promotions; only a checkout and a status change
  touch the orders.\<close>

lemma stock_step_journal:
  "stock_step db db' \<Longrightarrow> journal db db'
    \<or> (\<exists>rules z now cats basket customer key pos simulation r.
         create_order rules z now db cats basket customer key pos simulation = Inr (db', r))
    \<or> (\<exists>gates i new_status admin handover r. update_status gates db i new_status admin handover = Inr (db', r))"
  by (erule stock_step.cases)
    (blast dest: update_product_settings_journal bind_barcode_journal create_product_card_journal
      mark_ordered_journal create_receipt_journal add_receipt_item_journal post_receipt_journal
      change_receipt_item_journal manual_operation_journal create_count_journal set_count_item_journal
      post_count_journal)+

lemma stock_step_limits:
  assumes "stock_step db db'" and "warehouse_ok db" and "codes_ok (shop_promotions db)" and "limits_ok db"
  shows "limits_ok db' \<and> shop_promotions db' = shop_promotions db"
  using stock_step_journal [OF assms(1)] assms(2-4) journal_limits create_order_limits update_status_limits
  by (auto simp: journal_def appended_def)

lemma warehouse_ok_promotions: "warehouse_ok (db\<lparr>shop_promotions := t\<rparr>) = warehouse_ok db"
proof -
  have "quiet (db\<lparr>shop_promotions := t\<rparr>) db" "quiet db (db\<lparr>shop_promotions := t\<rparr>)" by (simp_all add: quiet_def)
  moreover have "books_ok (db\<lparr>shop_promotions := t\<rparr>) = books_ok db" by simp
  ultimately show ?thesis by (metis warehouse_ok_quiet warehouse_ok_def)
qed

text \<open>C6: As long as no administrator edits the promotions, no sequence of checkouts, status changes and
  inventory operations takes a promotion code over its limits: the orders that carry it and are not
  cancelled stay within the total limit, and those of one customer, or of one phone where nobody was signed
  in, within the limit per customer.\<close>

theorem promo_code_limits_hold:
  assumes "warehouse_ok db" and "promotions_ok z (shop_promotions db)" and "limits_ok db"
    and "stock_step\<^sup>*\<^sup>* db db'"
  shows "limits_ok db'"
proof -
  have codes: "codes_ok (shop_promotions db)" by (rule promotions_ok_codes [OF assms(2)])
  from assms(4) have "warehouse_ok db' \<and> limits_ok db' \<and> shop_promotions db' = shop_promotions db"
    by (induction rule: rtranclp_induct)
      (use assms(1,3) codes stock_step_ok stock_step_limits in \<open>auto dest: stock_step_limits stock_step_ok\<close>)
  then show ?thesis by simp
qed

definition demo_code :: shop_promotion where
  "demo_code = (demo_sale 1 Percent 1000 5)\<lparr>sh_trigger := Promocode_trigger, sh_code := Some ''FRIENDS'',
     sh_usage_limit := Some 1, sh_usage_limit_per_customer := Some 1\<rparr>"

definition demo_start :: warehouse where
  "demo_start = (opening_state demo_opening)\<lparr>shop_promotions := [(1, demo_code)]\<rparr>"

definition demo_code_basket :: checkout where
  "demo_code_basket = \<lparr>ck_items = [(1, 2)], ck_phone = Some ''+380501112233'', ck_promo_code = Some ''friends'', ck_details = []\<rparr>"

definition demo_code_day :: "warehouse result" where
  "demo_code_day =
     and_then (create_order demo_rules demo_zone 0 demo_start demo_categories demo_code_basket None None False False)
       (\<lambda>y. Inr (fst y))"

theorem promo_code_limits_hold_witness:
  "case demo_code_day of Inl _ \<Rightarrow> False | Inr db \<Rightarrow> limits_ok db \<and> code_uses (\<lambda>_. True) db demo_code = 1
     \<and> create_order demo_rules demo_zone 0 db demo_categories demo_code_basket None None False False
       = bad_request ''Promo code usage limit reached''"
proof -
  define run where "run = demo_code_day"
  have ran: "case run of Inl _ \<Rightarrow> False | Inr db \<Rightarrow> code_uses (\<lambda>_. True) db demo_code = 1
     \<and> create_order demo_rules demo_zone 0 db demo_categories demo_code_basket None None False False
       = bad_request ''Promo code usage limit reached''"
    unfolding run_def by code_simp
  then obtain db where db: "run = Inr db" by (cases run) auto
  then obtain r where "create_order demo_rules demo_zone 0 demo_start demo_categories demo_code_basket None None False False
      = Inr (db, r)"
    by (auto simp: run_def demo_code_day_def and_then_eq_Inr)
  then have step: "stock_step\<^sup>*\<^sup>* demo_start db" by (intro r_into_rtranclp) (rule stock_step.checkout)
  have start: "warehouse_ok demo_start"
    using opening_warehouse_ok [OF demo_opening_ok] by (simp add: demo_start_def warehouse_ok_promotions)
  have promos: "promotions_ok demo_zone (shop_promotions demo_start)"
    unfolding promotions_ok_def has_id_def by (simp add: demo_start_def table_ok_def ids_def) code_simp
  have "limits_ok demo_start"
    by (simp add: limits_ok_def within_limits_def code_uses_def demo_start_def opening_state_def empty_warehouse_def
        select_where_def demo_code_def demo_sale_def rows_def)
  from promo_code_limits_hold [OF start promos this step] ran show ?thesis
    unfolding db sum.case run_def [symmetric] by simp
qed

section \<open>The ledger is a journal\<close>

lemma stock_step_appended: "stock_step db db' \<Longrightarrow> appended db db'"
proof (drule stock_step_journal, elim disjE exE)
  fix rules z now cats basket customer key pos simulation r
  assume "create_order rules z now db cats basket customer key pos simulation = Inr (db', r)"
  then show "appended db db'"
    by (rule create_order_Inr) (auto dest!: place_order_journal simp: appended_def)
next
  fix gates i new_status admin handover r
  assume "update_status gates db i new_status admin handover = Inr (db', r)"
  then show "appended db db'"
    by (rule update_status_Inr) (auto dest!: move_order_stock_journal simp: journal_def appended_def)
qed (simp add: journal_def)

lemma stock_steps_appended: "stock_step\<^sup>*\<^sup>* db db' \<Longrightarrow> appended db db'"
  by (induction rule: rtranclp_induct) (auto dest: stock_step_appended intro: appended_trans)

lemma movement_of_key_appended:
  assumes "appended db db'" and "movement_of_key db k = Some m"
  shows "movement_of_key db' k = Some m"
proof -
  have "find p (xs @ ys) = Some m" if "find p xs = Some m" for p xs ys
    using that by (induction xs) (auto split: if_splits)
  with assms show ?thesis by (auto simp: movement_of_key_def appended_def)
qed

text \<open>C23: A manual stock operation is booked once. Whatever the shop has done since, the same request with
  the same key is answered with the movement of the first time and changes nothing, and a request that
  differs is refused.\<close>

theorem manual_operation_booked_once:
  assumes "manual_operation allowed db (Some k) q = Inr (db1, m)" and "k \<noteq> []" and "stock_step\<^sup>*\<^sup>* db1 db2"
  shows "manual_operation allowed db2 (Some k) q = Inr (db2, m)
    \<and> (\<forall>q'. manual_request_ok q' \<longrightarrow> \<not> manual_matches q' m \<longrightarrow> manual_operation allowed db2 (Some k) q'
        = conflict ''Idempotency key is already in use for a different operation'')"
proof -
  have "movement_of_key db1 k = Some m" using manual_requests.recorded_after [OF assms(1,2)] by simp
  then have same: "movement_of_key db2 k = movement_of_key db1 k"
    using movement_of_key_appended [OF stock_steps_appended [OF assms(3)]] by simp
  from manual_requests.replay_later [OF assms(1,2) same] manual_requests.later [OF assms(1,2) same]
  show ?thesis by simp
qed

theorem manual_operation_booked_once_witness:
  "case manual_operation demo_allowed (opening_state demo_opening) (Some ''key-1'') demo_intake of Inl _ \<Rightarrow> False
   | Inr x \<Rightarrow> (case create_order demo_rules demo_zone 0 (fst x) demo_categories demo_basket None None False False of
       Inl _ \<Rightarrow> False
     | Inr y \<Rightarrow> manual_operation demo_allowed (fst y) (Some ''key-1'') demo_intake = Inr (fst y, snd x)
         \<and> manual_operation demo_allowed (fst y) (Some ''key-1'') (demo_intake\<lparr>mo_quantity := 6\<rparr>)
           = conflict ''Idempotency key is already in use for a different operation'')"
proof -
  define run where "run = manual_operation demo_allowed (opening_state demo_opening) (Some ''key-1'') demo_intake"
  define placed where "placed x = create_order demo_rules demo_zone 0 (fst x) demo_categories demo_basket None None False False"
    for x :: "warehouse \<times> movement"
  have ran: "case run of Inl _ \<Rightarrow> False | Inr x \<Rightarrow> (case placed x of Inl _ \<Rightarrow> False | Inr y \<Rightarrow>
      \<not> manual_matches (demo_intake\<lparr>mo_quantity := 6\<rparr>) (snd x))"
    unfolding run_def placed_def by code_simp
  then obtain x y where xy: "run = Inr x" "placed x = Inr y" "\<not> manual_matches (demo_intake\<lparr>mo_quantity := 6\<rparr>) (snd x)"
    by (auto split: sum.splits)
  have first: "manual_operation demo_allowed (opening_state demo_opening) (Some ''key-1'') demo_intake = Inr (fst x, snd x)"
    using xy(1) by (simp add: run_def)
  have "stock_step (fst x) (fst y)"
    using xy(2) unfolding placed_def by (metis prod.collapse stock_step.checkout)
  then have later: "stock_step\<^sup>*\<^sup>* (fst x) (fst y)" by simp
  have ok: "manual_request_ok (demo_intake\<lparr>mo_quantity := 6\<rparr>)" by code_simp
  have key: "''key-1'' \<noteq> []" by simp
  from manual_operation_booked_once [OF first key later] ok xy(3) show ?thesis
    unfolding run_def [symmetric] placed_def [symmetric] xy(1) sum.case xy(2) by blast
qed

text \<open>
  The keys of manual operations and the keys the shop itself gives its movements share one unique
  column. A manual operation under the key of a release to come makes the cancellation of that order fail
  with \<open>IntegrityError\<close>, now and later: no entry of the ledger ever goes away.
\<close>

lemma manual_key_blocks_cancellation:
  "case demo_day of Inl _ \<Rightarrow> False | Inr db \<Rightarrow>
     (case manual_operation demo_allowed db (Some ''order:1:item:1:reservation-release'') demo_intake of
        Inl _ \<Rightarrow> False
      | Inr x \<Rightarrow> update_status demo_gates (fst x) 1 Order_cancelled 7 False = Inl IntegrityError)"
  by code_simp

end
