(* ===== verification/Spec2Isabelle.thy ===== *)
theory Spec2Isabelle
  imports Reception Delivery Identity History
begin

text \<open>
  Verification library of the barbershop and shop backend \<^verbatim>\<open>src/app\<close>: FastAPI routes over service
  classes that work on a relational database. The program has three parts, each modelled as a state,
  its operations and the steps they make.

  \<^bold>\<open>Booking.\<close> Clients book services of masters, masters and administrators change the calendar, and a
  waiting list offers freed slots. All work on the record \<open>salon\<close> of \<^verbatim>\<open>Salon\<close>, one table per model of
  \<^verbatim>\<open>app/models/booking.py\<close>, \<^verbatim>\<open>promotion.py\<close>, \<^verbatim>\<open>waitlist.py\<close> and \<^verbatim>\<open>customer.py\<close>.
    \<^item> \<^verbatim>\<open>Calendar\<close>: interval algebra, working hours and slot generation of \<^verbatim>\<open>app/services/booking.py\<close>. The
      slots are characterised exactly; the locale \<open>slot_calendar\<close> states what a day's free points owe to
      the slots.
    \<^item> \<^verbatim>\<open>Masters\<close>: redirects, services and durations of the same file. The redirect walk is shown to end.
    \<^item> \<^verbatim>\<open>Promotions\<close>: \<^verbatim>\<open>app/services/promotion.py\<close>, prices and the first-visit entitlement.
    \<^item> \<^verbatim>\<open>Bookings\<close>: listing and creation in \<^verbatim>\<open>app/services/booking.py\<close>; what is listed is what is accepted.
    \<^item> \<^verbatim>\<open>Roster\<close> and \<^verbatim>\<open>Backoffice\<close>: \<^verbatim>\<open>app/api/v1/routes/bookings.py\<close>, \<^verbatim>\<open>booking_archive.py\<close>,
      \<^verbatim>\<open>booking_completion.py\<close> and \<^verbatim>\<open>customer_activity.py\<close>. \<open>desk_step\<close> is one call; no sequence of
      calls books a master twice.
    \<^item> \<^verbatim>\<open>Waitlist\<close>, \<^verbatim>\<open>Offers\<close> and \<^verbatim>\<open>Claims\<close>: \<^verbatim>\<open>app/services/waitlist.py\<close>, \<^verbatim>\<open>waitlist_offers.py\<close> and
      \<^verbatim>\<open>sms_notification_queue.py\<close>; \<open>waitlist_step\<close> is one transaction, \<open>list_ok\<close> its invariant. The
      operations that commit on their way, such as \<open>scheduler_iteration\<close>, are sequences of these steps.
    \<^item> \<^verbatim>\<open>Races\<close>: \<open>claim\<close> and \<open>sync_delivery_statuses\<close> read an offer without a lock and write it later;
      \<open>late_write\<close> is such a write over a row that has changed, and \<open>race_ok\<close> what holds all the same.
    \<^item> \<^verbatim>\<open>Reception\<close>: \<open>salon_step\<close> joins the desk and the list, \<open>salon_race\<close> adds the late writes, with the
      properties that span them and three runs in which a late write spoils the list.

  \<^bold>\<open>Messages and accounts.\<close> Offers and one-time codes go out by SMS through a durable queue; a customer
  signs in with a code.
    \<^item> \<^verbatim>\<open>Phones\<close>: \<^verbatim>\<open>app/utils/booking_identity.py\<close>, the identity behind local and international forms.
    \<^item> \<^verbatim>\<open>Transport\<close> and \<^verbatim>\<open>Sendqueue\<close>: \<^verbatim>\<open>app/services/sms.py\<close> and \<^verbatim>\<open>sms_queue.py\<close>, one definition per
      database transaction.
    \<^item> \<^verbatim>\<open>Senders\<close>: any number of workers between their transactions, crashes included, as the step relation
      \<open>send_step\<close> on \<open>world\<close>, which also records what the provider was asked.
    \<^item> \<^verbatim>\<open>Leases\<close>: the invariant \<open>queue_sound\<close>. The locales \<open>row_change\<close> and \<open>retiring_change\<close> say what a
      transaction owes to the workers it does not know of; their interpretations are the transactions.
    \<^item> \<^verbatim>\<open>Delivery\<close>: the promises of the queue, by a simulation of the pace and the invariant.
    \<^item> \<^verbatim>\<open>Accounts\<close>: \<^verbatim>\<open>app/services/customer_auth.py\<close>, \<^verbatim>\<open>app/api/v1/routes/customers.py\<close> and the sessions.
    \<^item> \<^verbatim>\<open>Codes\<close>: the abstract events of the table of codes and their invariant. \<^verbatim>\<open>Identity\<close>: every
      operation refines such an event; one account per phone, and sessions that end.

  \<^bold>\<open>Shop.\<close> Orders reserve stock, receipts and counts change it, and a ledger records every movement. The
  state is the record of tables of \<^verbatim>\<open>Warehouse\<close> (\<^verbatim>\<open>app/models/product.py\<close>, \<^verbatim>\<open>order.py\<close>,
  \<^verbatim>\<open>inventory.py\<close>), whose locale \<open>ledger\<close> is interpreted for the stock and for the reserved quantity.
    \<^item> \<^verbatim>\<open>Inventory\<close> and \<^verbatim>\<open>Receipts\<close>: \<^verbatim>\<open>app/services/inventory.py\<close> and \<^verbatim>\<open>inventory_receipt_changes.py\<close>. The
      locale \<open>idempotent_command\<close> is the contract of every operation with an idempotency key.
    \<^item> \<^verbatim>\<open>Catalog\<close> and \<^verbatim>\<open>Pricing\<close>: \<^verbatim>\<open>category.py\<close>, \<^verbatim>\<open>catalog_visibility.py\<close> and \<^verbatim>\<open>shop_promotion.py\<close>.
    \<^item> \<^verbatim>\<open>Orders\<close>: \<^verbatim>\<open>app/services/order.py\<close>. \<^verbatim>\<open>Reservations\<close>: who owns what is reserved.
    \<^item> \<^verbatim>\<open>Stock\<close> and \<^verbatim>\<open>Shop\<close>: \<open>stock_step\<close> is one call of these services, and its invariant.
    \<^item> \<^verbatim>\<open>Journal\<close> and \<^verbatim>\<open>History\<close>: no step takes an entry out of the ledger, and what follows.
\<close>

text \<open>
  Conventions. \<^verbatim>\<open>Prelude\<close> has errors as values of a sum, tables as association lists by primary key,
  and decimal rounding. A service method that uses the session is a function from the database to
  \<open>error + result\<close>: an exception rolls the session back, so a raised error carries no database. Where
  the code commits before it raises, or goes on after an error, the function returns the committed
  state beside the result. \<open>datetime.now\<close> is the parameter \<open>now\<close>, one reading per operation. Instants are
  microseconds; money and percentages are in hundredths. \<open>next_id\<close> is the key after the greatest in the
  table, so it gives the key of a deleted newest row again, unlike a sequence; \<open>ac_sequence\<close> models the
  sequence of customers, whose ids tokens carry. The database compares instants, Python compares the
  wall clocks of Kyiv datetimes; the zone is the parameter \<open>z\<close>, and the \<open>fold\<close> of the repeated hour is not
  modelled, because working hours never meet it. The table \<open>bookings\<close> holds the rows that are not
  archived. A row that a service locks is not written by others until its commit, so a transaction that
  reads what it writes under a lock is one step. Operations that commit several times are split at their
  commits; in between any other step may come. Reads before a lock are arguments of the step that
  follows, where the code goes on with them: the offer of a claim, the offers and requests of the
  delivery reports. Rows that a query skips because they are locked are not modelled.

  Environment. Digests, signed tokens, UUIDs, the SMS provider, the delivery gates of other services,
  the carrier's directory and payment facts are arguments, mostly collected in a record such as
  \<open>waitlist_env\<close>, \<open>auth_env\<close> or \<open>admission_env\<close>; what a property assumes of them stands in its statement.

  Termination. No fuel is used. Loops that follow data are recursive functions with a measure: the
  masters, categories or requests not yet visited, or the distance to the end of the day. Loops over
  a query are folds. A worker of the SMS queue runs forever and is a step relation.

  Not modelled. Listings and reports that only read; texts, images and reviews; telemetry, which never
  changes what it observes; campaigns and segments; the clients of the payment, fiscal, carrier and
  Telegram interfaces; sales at the counter and carrier returns, which post movements of their own that
  \<open>stock_step\<close> does not include; the sign-in of administrators; configuration and request limits.
\<close>

end
